(* ===== verification/N8n_Prelude.thy ===== *)
theory N8n_Prelude
  imports Main "HOL-Library.AList" "HOL-Library.Multiset"
begin

text \<open>
  Shared vocabulary of the development: results of code that may throw, the JavaScript
  containers (\<open>Map\<close>, \<open>Set\<close>, arrays and plain objects) as lists with their insertion order,
  decimal rendering of numbers, and the two graph-search contracts that several components
  rely on.
\<close>

named_theorems res_simps \<open>rewriting of results that may be errors\<close>
named_theorems js_simps \<open>rewriting of the JavaScript containers\<close>


section \<open>Results of code that may throw\<close>

text \<open>
  A thrown exception is the left side of a sum. \<open>RangeError\<close> is what JavaScript throws when
  the call stack is exhausted: a recursive method carries the remaining stack depth, and
  running out of it is that error.
\<close>

datatype js_error =
    AssertionError
  | TypeError
  | RangeError
  | ApplicationError string

type_synonym 'a res = "js_error + 'a"

definition res_bind :: "'a res \<Rightarrow> ('a \<Rightarrow> 'b res) \<Rightarrow> 'b res" where
  "res_bind m f = (case m of Inl e \<Rightarrow> Inl e | Inr x \<Rightarrow> f x)"

lemma res_bind_simps [simp, res_simps]:
  "res_bind (Inl e) f = Inl e"
  "res_bind (Inr x) f = f x"
  by (simp_all add: res_bind_def)

lemma res_bind_Inr_iff [res_simps]:
  "res_bind m f = Inr y \<longleftrightarrow> (\<exists>x. m = Inr x \<and> f x = Inr y)"
  by (cases m) (auto simp: res_bind_def)

lemma res_bind_Inl_iff [res_simps]:
  "res_bind m f = Inl e \<longleftrightarrow> m = Inl e \<or> (\<exists>x. m = Inr x \<and> f x = Inl e)"
  by (cases m) (auto simp: res_bind_def)

text \<open>
  \<open>res_post P m\<close>: the value of \<open>m\<close>, when it has one, satisfies \<open>P\<close>. The rules follow the
  structure of a definition.
\<close>

named_theorems post_intros \<open>introduction rules of postconditions\<close>

definition res_post :: "('a \<Rightarrow> bool) \<Rightarrow> 'a res \<Rightarrow> bool" where
  "res_post P m \<longleftrightarrow> (\<forall>x. m = Inr x \<longrightarrow> P x)"

lemma res_post_simps [simp]:
  "res_post P (Inl e)"
  "res_post P (Inr x) = P x"
  by (simp_all add: res_post_def)

lemma res_postD: "res_post P m \<Longrightarrow> m = Inr x \<Longrightarrow> P x"
  by (simp add: res_post_def)

lemma res_postI: "(\<And>x. m = Inr x \<Longrightarrow> P x) \<Longrightarrow> res_post P m"
  by (simp add: res_post_def)

lemma res_post_bind [post_intros]:
  "(\<And>x. m = Inr x \<Longrightarrow> res_post P (f x)) \<Longrightarrow> res_post P (res_bind m f)"
  by (cases m) simp_all

lemma res_post_mono: "res_post P m \<Longrightarrow> (\<And>x. P x \<Longrightarrow> Q x) \<Longrightarrow> res_post Q m"
  by (simp add: res_post_def)

text \<open>A \<open>for ... of\<close> loop whose body may throw.\<close>

primrec res_fold :: "('a \<Rightarrow> 's \<Rightarrow> 's res) \<Rightarrow> 'a list \<Rightarrow> 's \<Rightarrow> 's res" where
  "res_fold f [] s = Inr s"
| "res_fold f (x # xs) s = res_bind (f x s) (res_fold f xs)"

lemma res_fold_append:
  "res_fold f (xs @ ys) s = res_bind (res_fold f xs s) (res_fold f ys)"
  by (induction xs arbitrary: s) (auto simp: res_bind_def split: sum.split)

text \<open>Partial correctness: an invariant that the body keeps whenever it returns.\<close>

lemma res_fold_invariant:
  assumes "res_fold f xs s = Inr t" and "P s"
    and "\<And>x s t. x \<in> set xs \<Longrightarrow> P s \<Longrightarrow> f x s = Inr t \<Longrightarrow> P t"
  shows "P t"
  using assms
proof (induction xs arbitrary: s)
  case Nil
  then show ?case by simp
next
  case (Cons x xs)
  from Cons.prems(1) obtain u where u: "f x s = Inr u" "res_fold f xs u = Inr t"
    by (auto simp: res_bind_Inr_iff)
  have "P u" using Cons.prems(2,3) u(1) by (meson list.set_intros(1))
  then show ?case using Cons.IH [OF u(2)] Cons.prems(3) by (meson list.set_intros(2))
qed

lemma res_post_fold:
  assumes "P s" and "\<And>x s. x \<in> set xs \<Longrightarrow> P s \<Longrightarrow> res_post P (f x s)"
  shows "res_post P (res_fold f xs s)"
  by (rule res_postI, rule res_fold_invariant [where P = P])
    (use assms in \<open>auto dest: res_postD\<close>)

text \<open>Total correctness: a body that returns under the invariant.\<close>

lemma res_fold_total:
  assumes "P s" and "\<And>x s. x \<in> set xs \<Longrightarrow> P s \<Longrightarrow> \<exists>t. f x s = Inr t \<and> P t"
  shows "\<exists>t. res_fold f xs s = Inr t \<and> P t"
  using assms
proof (induction xs arbitrary: s)
  case Nil
  then show ?case by simp
next
  case (Cons x xs)
  from Cons.prems obtain u where u: "f x s = Inr u" "P u" by (meson list.set_intros(1))
  have "\<exists>t. res_fold f xs u = Inr t \<and> P t"
    using Cons.IH [OF u(2)] Cons.prems(2) by (meson list.set_intros(2))
  with u(1) show ?case by simp
qed

text \<open>Total correctness with the processed prefix: \<open>P\<close> speaks of what is done so far.\<close>

lemma res_fold_prefix:
  assumes "P [] s"
    and "\<And>ys x zs s. xs = ys @ x # zs \<Longrightarrow> P ys s \<Longrightarrow> \<exists>t. f x s = Inr t \<and> P (ys @ [x]) t"
  shows "\<exists>t. res_fold f xs s = Inr t \<and> P xs t"
proof -
  have "\<exists>t. res_fold f vs s = Inr t \<and> P (us @ vs) t"
    if "xs = us @ vs" "P us s" for us vs s
    using that
  proof (induction vs arbitrary: us s)
    case Nil
    then show ?case by simp
  next
    case (Cons v vs)
    from assms(2) [OF Cons.prems] obtain t where t: "f v s = Inr t" "P (us @ [v]) t" by blast
    from Cons.IH [of "us @ [v]" t] Cons.prems(1) t(2)
    obtain t' where "res_fold f vs t = Inr t'" "P (us @ v # vs) t'" by auto
    with t(1) show ?case by simp
  qed
  from this [of "[]" xs s] assms(1) show ?thesis by simp
qed

lemma res_fold_Inr_fold:
  "(\<And>x s. x \<in> set xs \<Longrightarrow> f x s = Inr (g x s)) \<Longrightarrow> res_fold f xs s = Inr (fold g xs s)"
  by (induction xs arbitrary: s) auto

lemma res_fold_expand:
  "(\<And>x s. x \<in> set xs \<Longrightarrow> f x s = res_fold h (k x) s) \<Longrightarrow>
   res_fold f xs s = res_fold h (concat (map k xs)) s"
proof (induction xs arbitrary: s)
  case Nil
  then show ?case by simp
next
  case (Cons x xs)
  have "f x s = res_fold h (k x) s" by (rule Cons.prems) simp
  moreover have "res_fold f xs = res_fold h (concat (map k xs))"
    by (rule ext, rule Cons.IH) (use Cons.prems in auto)
  ultimately show ?case by (simp add: res_fold_append)
qed


section \<open>JavaScript containers\<close>

text \<open>
  A \<open>Map\<close> and a plain object are association lists in insertion order with distinct keys:
  setting an existing key keeps its place, a new key goes to the end, and deleting drops the
  entry. These are the operations of \<^verbatim>\<open>HOL-Library.AList\<close>; \<open>map_of\<close> looks a key up. (A plain
  object enumerates keys that spell an array index first; the names of nodes and of
  connection types are assumed not to.)
\<close>

type_synonym ('k, 'v) js_map = "('k \<times> 'v) list"

abbreviation map_get :: "('k, 'v) js_map \<Rightarrow> 'k \<Rightarrow> 'v option" where
  "map_get m k \<equiv> map_of m k"

abbreviation map_put :: "'k \<Rightarrow> 'v \<Rightarrow> ('k, 'v) js_map \<Rightarrow> ('k, 'v) js_map" where
  "map_put \<equiv> AList.update"

abbreviation map_del :: "'k \<Rightarrow> ('k, 'v) js_map \<Rightarrow> ('k, 'v) js_map" where
  "map_del \<equiv> AList.delete"

abbreviation map_keys :: "('k, 'v) js_map \<Rightarrow> 'k list" where
  "map_keys m \<equiv> map fst m"

abbreviation map_values :: "('k, 'v) js_map \<Rightarrow> 'v list" where
  "map_values m \<equiv> map snd m"

lemma map_get_put [simp, js_simps]:
  "map_get (map_put k v m) k' = (if k' = k then Some v else map_get m k')"
  by (simp add: update_conv)

lemma map_get_del [simp, js_simps]:
  "map_get (map_del k m) k' = (if k' = k then None else map_get m k')"
  by (simp add: delete_conv)

lemma distinct_map_put [simp, js_simps]:
  "distinct (map_keys m) \<Longrightarrow> distinct (map_keys (map_put k v m))"
  by (rule distinct_update)

lemma distinct_map_del [simp, js_simps]:
  "distinct (map_keys m) \<Longrightarrow> distinct (map_keys (map_del k m))"
  by (rule distinct_delete)

lemma distinct_map_filter:
  "distinct (map_keys m) \<Longrightarrow> distinct (map_keys (filter P m))"
  by (rule distinct_map_filter)

lemma set_map_put:
  "distinct (map_keys m) \<Longrightarrow>
   set (map_put k v m) = insert (k, v) {p \<in> set m. fst p \<noteq> k}"
  by (induction m) (auto simp: rev_image_eqI)

lemma set_map_del: "set (map_del k m) = {p \<in> set m. fst p \<noteq> k}"
  by (auto simp: AList.delete_eq)

lemma map_get_iff:
  "distinct (map_keys m) \<Longrightarrow> map_get m k = Some v \<longleftrightarrow> (k, v) \<in> set m"
  by (simp add: map_of_eq_Some_iff)

lemma keys_map_put: "set (map_keys (map_put k v m)) = insert k (set (map_keys m))"
  using dom_update [of k v m] by simp

lemma keys_map_del: "set (map_keys (map_del k m)) = set (map_keys m) - {k}"
  by (auto simp: AList.delete_eq)

lemma map_put_fresh: "k \<notin> set (map_keys m) \<Longrightarrow> map_put k v m = m @ [(k, v)]"
  by (induction m) auto

lemma length_map_put:
  "length (map_put k v m) = (if k \<in> set (map_keys m) then length m else Suc (length m))"
  by (induction m) auto

text \<open>A map whose values are filed under a key that they determine.\<close>

definition filed :: "('v \<Rightarrow> 'k) \<Rightarrow> ('k, 'v) js_map \<Rightarrow> bool" where
  "filed f m \<longleftrightarrow> distinct (map_keys m) \<and> (\<forall>p \<in> set m. fst p = f (snd p))"

lemma filed_Nil [simp]: "filed f []"
  by (simp add: filed_def)

lemma filed_get: "filed f m \<Longrightarrow> map_get m k = Some v \<longleftrightarrow> v \<in> snd ` set m \<and> f v = k"
  by (force simp: filed_def map_of_eq_Some_iff)

lemma filed_None: "filed f m \<Longrightarrow> map_get m k = None \<longleftrightarrow> (\<forall>v \<in> snd ` set m. f v \<noteq> k)"
  by (force simp: filed_def map_of_eq_None_iff)

lemma filed_put: "filed f m \<Longrightarrow> filed f (map_put (f v) v m)"
  by (auto simp: filed_def set_map_put)

lemma filed_del: "filed f m \<Longrightarrow> filed f (map_del k m)"
  by (auto simp: filed_def set_map_del)

lemma filed_filter: "filed f m \<Longrightarrow> filed f (filter P m)"
  by (auto simp: filed_def distinct_map_filter)

lemma filed_values_put:
  "filed f m \<Longrightarrow>
   snd ` set (map_put (f v) v m) = insert v {w \<in> snd ` set m. f w \<noteq> f v}"
  by (force simp: filed_def set_map_put)

lemma filed_values_del:
  "filed f m \<Longrightarrow> snd ` set (map_del k m) = {w \<in> snd ` set m. f w \<noteq> k}"
  by (force simp: filed_def set_map_del)

lemma filed_inj: "filed f m \<Longrightarrow> inj_on f (snd ` set m)"
  by (rule inj_onI) (metis filed_get option.inject)

lemma inj_on_other: "inj_on f W \<Longrightarrow> V \<subseteq> W \<Longrightarrow> x \<in> W \<Longrightarrow> {w \<in> V. f w \<noteq> f x} = V - {x}"
  unfolding inj_on_def by blast

lemma filed_values_distinct: "filed f m \<Longrightarrow> distinct (map_values m)"
proof -
  assume "filed f m"
  then have "map f (map_values m) = map_keys m" "distinct (map_keys m)"
    by (auto simp: filed_def)
  then show ?thesis by (metis distinct_map)
qed

text \<open>Filing several values, and rebuilding a map by filing its values again.\<close>

lemma filed_fold_put:
  "filed f m \<Longrightarrow> inj_on f (snd ` set m \<union> set xs) \<Longrightarrow>
   filed f (fold (\<lambda>v m. map_put (f v) v m) xs m) \<and>
   snd ` set (fold (\<lambda>v m. map_put (f v) v m) xs m) = snd ` set m \<union> set xs"
proof (induction xs arbitrary: m)
  case Nil
  then show ?case by simp
next
  case (Cons x xs)
  have put: "snd ` set (map_put (f x) x m) = insert x (snd ` set m)"
  proof -
    have "{w \<in> snd ` set m. f w \<noteq> f x} = snd ` set m - {x}"
      by (rule inj_on_other [OF Cons.prems(2)]) auto
    then show ?thesis using filed_values_put [OF Cons.prems(1), of x] by simp
  qed
  have "inj_on f (snd ` set (map_put (f x) x m) \<union> set xs)"
    unfolding put using Cons.prems(2) by (rule inj_on_subset) auto
  from Cons.IH [OF filed_put [OF Cons.prems(1)] this] put show ?case by simp
qed

lemma filed_rebuild:
  assumes "filed f m"
  shows "fold (\<lambda>v m. map_put (f v) v m) (map_values m) [] = m"
proof -
  have "fold (\<lambda>v m. map_put (f v) v m) (map_values ys) xs = xs @ ys" if "m = xs @ ys" for xs ys
    using that
  proof (induction ys arbitrary: xs)
    case Nil
    then show ?case by simp
  next
    case (Cons p ys)
    have "distinct (map_keys xs @ fst p # map_keys ys)"
      using assms Cons.prems by (metis filed_def list.simps(9) map_append)
    then have "fst p \<notin> set (map_keys xs)"
      by (meson disjoint_iff distinct_append list.set_intros(1))
    moreover have "fst p = f (snd p)"
      using assms Cons.prems by (simp add: filed_def)
    ultimately have "fst p = f (snd p)" "fst p \<notin> set (map_keys xs)" by simp_all
    then have "map_put (f (snd p)) (snd p) xs = xs @ [p]"
      by (metis map_put_fresh prod.collapse)
    with Cons.IH [of "xs @ [p]"] Cons.prems show ?case by simp
  qed
  from this [of "[]" m] show ?thesis by simp
qed

text \<open>A \<open>Set\<close> is a list without repetition, in insertion order.\<close>

definition set_add :: "'a \<Rightarrow> 'a list \<Rightarrow> 'a list" where
  "set_add x s = (if x \<in> set s then s else s @ [x])"

definition set_delete :: "'a \<Rightarrow> 'a list \<Rightarrow> 'a list" where
  "set_delete x s = filter (\<lambda>y. y \<noteq> x) s"

lemma set_set_add [simp, js_simps]: "set (set_add x s) = insert x (set s)"
  by (auto simp: set_add_def)

lemma distinct_set_add [simp, js_simps]: "distinct s \<Longrightarrow> distinct (set_add x s)"
  by (simp add: set_add_def)

lemma set_set_delete [simp, js_simps]: "set (set_delete x s) = set s - {x}"
  by (auto simp: set_delete_def)

lemma distinct_set_delete [simp, js_simps]: "distinct s \<Longrightarrow> distinct (set_delete x s)"
  by (simp add: set_delete_def)

text \<open>
  Arrays: \<open>arr_get xs i\<close> is \<open>xs[i]\<close>, which is \<open>undefined\<close> out of range, and \<open>arr_at\<close> is the
  method \<open>at\<close>, where a negative index counts from the end. \<open>arr_put hole xs i v\<close> is the
  assignment \<open>xs[i] = v\<close>, which extends the array and leaves holes.
\<close>

definition arr_get :: "'a list \<Rightarrow> nat \<Rightarrow> 'a option" where
  "arr_get xs i = (if i < length xs then Some (xs ! i) else None)"

definition arr_at :: "'a list \<Rightarrow> int \<Rightarrow> 'a option" where
  "arr_at xs i =
     (let j = (if i < 0 then int (length xs) + i else i)
      in if 0 \<le> j \<and> j < int (length xs) then Some (xs ! nat j) else None)"

definition arr_put :: "'a \<Rightarrow> 'a list \<Rightarrow> nat \<Rightarrow> 'a \<Rightarrow> 'a list" where
  "arr_put hole xs i v =
     (if i < length xs then xs[i := v]
      else xs @ replicate (i - length xs) hole @ [v])"

lemma arr_get_put:
  "arr_get (arr_put hole xs i v) j =
     (if j = i then Some v
      else if length xs \<le> j \<and> j < i then Some hole
      else arr_get xs j)"
  by (auto simp: arr_get_def arr_put_def nth_append nth_list_update)

lemma length_arr_put: "length (arr_put hole xs i v) = max (length xs) (Suc i)"
  by (auto simp: arr_put_def)

lemma arr_at_nat: "arr_at xs (int i) = arr_get xs i"
  by (simp add: arr_at_def arr_get_def)

lemma arr_at_last: "arr_at xs (-1) = (if xs = [] then None else Some (last xs))"
proof (cases "xs = []")
  case True
  then show ?thesis by (simp add: arr_at_def)
next
  case False
  have "nat (int (length xs) - 1) = length xs - 1" by simp
  with False show ?thesis by (simp add: arr_at_def last_conv_nth Let_def)
qed


section \<open>Sorting\<close>

text \<open>
  \<open>Array.prototype.sort\<close> is stable: with a consistent comparator its result is that of
  inserting the elements one by one before those that compare greater or equal.
\<close>

primrec insert_by :: "('a \<Rightarrow> 'a \<Rightarrow> int) \<Rightarrow> 'a \<Rightarrow> 'a list \<Rightarrow> 'a list" where
  "insert_by cmp x [] = [x]"
| "insert_by cmp x (y # ys) = (if cmp x y \<le> 0 then x # y # ys else y # insert_by cmp x ys)"

primrec sort_by :: "('a \<Rightarrow> 'a \<Rightarrow> int) \<Rightarrow> 'a list \<Rightarrow> 'a list" where
  "sort_by cmp [] = []"
| "sort_by cmp (x # xs) = insert_by cmp x (sort_by cmp xs)"

lemma mset_insert_by [simp]: "mset (insert_by cmp x ys) = add_mset x (mset ys)"
  by (induction ys) auto

lemma mset_sort_by [simp]: "mset (sort_by cmp xs) = mset xs"
  by (induction xs) auto

lemma set_sort_by [simp]: "set (sort_by cmp xs) = set xs"
  by (metis mset_sort_by set_mset_mset)

lemma length_sort_by [simp]: "length (sort_by cmp xs) = length xs"
  by (metis mset_sort_by size_mset)

lemma sort_by_Nil [simp]: "sort_by cmp xs = [] \<longleftrightarrow> xs = []"
  by (metis length_0_conv length_sort_by)

text \<open>\<open>findIndex\<close> and \<open>splice(i, 1)\<close> in one: the first element that satisfies \<open>P\<close>, and the rest.\<close>

fun take_first :: "('a \<Rightarrow> bool) \<Rightarrow> 'a list \<Rightarrow> ('a \<times> 'a list) option" where
  "take_first P [] = None"
| "take_first P (x # xs) =
     (if P x then Some (x, xs)
      else (case take_first P xs of None \<Rightarrow> None | Some (y, ys) \<Rightarrow> Some (y, x # ys)))"

lemma take_first_None: "take_first P xs = None \<longleftrightarrow> (\<forall>x \<in> set xs. \<not> P x)"
  by (induction xs) (auto split: option.splits)

lemma take_first_Some:
  "take_first P xs = Some (y, ys) \<Longrightarrow> P y \<and> mset xs = add_mset y (mset ys)"
  by (induction xs arbitrary: y ys) (auto split: if_splits option.splits)

lemma take_first_length: "take_first P xs = Some (y, ys) \<Longrightarrow> length xs = Suc (length ys)"
  by (metis mset.simps(2) size_mset take_first_Some length_Cons)


section \<open>Strings\<close>

text \<open>Capital letters of ASCII become small; other characters are kept.\<close>

definition toLowerCase :: "string \<Rightarrow> string" where
  "toLowerCase s = map (\<lambda>c. if (65::nat) \<le> of_char c \<and> of_char c \<le> (90::nat) then char_of (of_char c + 32 :: nat) else c) s"


text \<open>\<open>trim\<close>, for the blanks among the characters below 256.\<close>

definition isBlank :: "char \<Rightarrow> bool" where
  "isBlank c = (c \<in> {CHR 0x20, CHR 0x09, CHR 0x0A, CHR 0x0B, CHR 0x0C, CHR 0x0D, CHR 0xA0})"

definition trim :: "string \<Rightarrow> string" where
  "trim s = rev (dropWhile isBlank (rev (dropWhile isBlank s)))"


section \<open>Decimal numbers\<close>

text \<open>The string that a template literal makes of a number that is an array index.\<close>

fun show_nat :: "nat \<Rightarrow> string" where
  "show_nat n =
     (if n < 10 then [char_of (48 + n)]
      else show_nat (n div 10) @ [char_of (48 + n mod 10)])"

declare show_nat.simps [simp del]

definition is_digit :: "char \<Rightarrow> bool" where
  "is_digit c \<longleftrightarrow> 48 \<le> (of_char c :: nat) \<and> (of_char c :: nat) \<le> 57"

lemma digit_char: "d < (10::nat) \<Longrightarrow> of_char (char_of (48 + d) :: char) = 48 + d"
  by simp

lemma is_digit_char: "d < (10::nat) \<Longrightarrow> is_digit (char_of (48 + d))"
  by (simp add: is_digit_def)

lemma show_nat_digits: "c \<in> set (show_nat n) \<Longrightarrow> is_digit c"
proof (induction n rule: show_nat.induct)
  case (1 n)
  show ?case
  proof (cases "n < 10")
    case True
    with "1.prems" have "c = char_of (48 + n)" by (simp add: show_nat.simps [of n])
    with True show ?thesis by (simp add: is_digit_char)
  next
    case False
    with "1.prems" have "c \<in> set (show_nat (n div 10)) \<or> c = char_of (48 + n mod 10)"
      by (auto simp: show_nat.simps [of n])
    with False "1.IH" show ?thesis by (auto simp: is_digit_char)
  qed
qed

lemma show_nat_nonempty [simp]: "show_nat n \<noteq> []"
  by (subst show_nat.simps) simp

definition read_nat :: "string \<Rightarrow> nat" where
  "read_nat s = foldl (\<lambda>a c. 10 * a + (of_char c - 48)) 0 s"

lemma read_show_nat [simp]: "read_nat (show_nat n) = n"
proof (induction n rule: show_nat.induct)
  case (1 n)
  show ?case
  proof (cases "n < 10")
    case True
    then show ?thesis
      by (simp add: show_nat.simps [of n] read_nat_def digit_char del: of_char_of)
  next
    case False
    have "read_nat (show_nat n) = 10 * read_nat (show_nat (n div 10)) + n mod 10"
      using False digit_char [of "n mod 10"]
      by (simp add: show_nat.simps [of n] read_nat_def del: of_char_of)
    with 1 False show ?thesis by simp
  qed
qed

lemma show_nat_inj [simp]: "show_nat m = show_nat n \<longleftrightarrow> m = n"
  by (metis read_show_nat)

lemma length_map_del: "length (map_del k m) \<le> length m"
  by (induction m) auto

lemma length_map_del_less: "map_get m k \<noteq> None \<Longrightarrow> length (map_del k m) < length m"
  by (induction m) (auto simp: less_Suc_eq_le length_map_del split: if_splits)

end
