(* ===== verification/Workflow_Types.thy ===== *)
theory Workflow_Types
  imports Complex_Main N8n_Prelude
begin

text \<open>
  The data of a workflow and of an execution, from packages/workflow/src/Interfaces.ts: nodes,
  connections, the data that flows between nodes, the recorded runs and the execution stack.
\<close>


section \<open>Nodes and connections\<close>

datatype NodeConnectionType =
    AiAgent | AiChain | AiDocument | AiEmbedding | AiLanguageModel | AiMemory
  | AiOutputParser | AiRetriever | AiTextSplitter | AiTool | AiVectorStore | Main

text \<open>The string value of each member of the enumeration.\<close>

fun connectionTypeString :: "NodeConnectionType \<Rightarrow> string" where
  "connectionTypeString AiAgent = ''ai_agent''"
| "connectionTypeString AiChain = ''ai_chain''"
| "connectionTypeString AiDocument = ''ai_document''"
| "connectionTypeString AiEmbedding = ''ai_embedding''"
| "connectionTypeString AiLanguageModel = ''ai_languageModel''"
| "connectionTypeString AiMemory = ''ai_memory''"
| "connectionTypeString AiOutputParser = ''ai_outputParser''"
| "connectionTypeString AiRetriever = ''ai_retriever''"
| "connectionTypeString AiTextSplitter = ''ai_textSplitter''"
| "connectionTypeString AiTool = ''ai_tool''"
| "connectionTypeString AiVectorStore = ''ai_vectorStore''"
| "connectionTypeString Main = ''main''"

lemma connectionTypeString_inj [simp]:
  "connectionTypeString s = connectionTypeString t \<longleftrightarrow> s = t"
  by (cases s; cases t) simp_all

lemma connectionTypeString_no_hyphen: "CHR ''-'' \<notin> set (connectionTypeString t)"
  by (cases t) simp_all

text \<open>
  A JSON value. Numbers are rational, which the finite doubles are; no modelled code computes
  with them.
\<close>

datatype jval =
    JNull
  | JBool bool
  | JNum rat
  | JStr string
  | JArr "jval list"
  | JObj "(string \<times> jval) list"

type_synonym IDataObject = "(string, jval) js_map"

datatype OnError = continueErrorOutput | continueRegularOutput | stopWorkflow

text \<open>
  A node. Code compares nodes with \<open>===\<close>, which compares object references: the field
  \<open>ref\<close> is the object's identity, so that equality of two node values is \<open>===\<close>. The other
  fields are those of the interface that the modelled code reads; an optional field is an
  \<open>option\<close>.
\<close>

record INode =
  ref :: nat
  nodeName :: string
  nodeType :: string
  typeVersion :: rat
  position :: "int \<times> int"
  disabled :: "bool option"
  retryOnFail :: "bool option"
  maxTries :: "int option"
  waitBetweenTries :: "int option"
  alwaysOutputData :: "bool option"
  executeOnce :: "bool option"
  onError :: "OnError option"
  continueOnFail :: "bool option"
  parameters :: IDataObject

text \<open>A plain enabled node, for examples.\<close>

definition plain_node :: "nat \<Rightarrow> string \<Rightarrow> string \<Rightarrow> INode" where
  "plain_node r n t =
     \<lparr>ref = r, nodeName = n, nodeType = t, typeVersion = 1, position = (0, 0),
      disabled = None, retryOnFail = None, maxTries = None, waitBetweenTries = None,
      alwaysOutputData = None, executeOnce = None, onError = None, continueOnFail = None,
      parameters = []\<rparr>"

lemma plain_node_simps [simp]:
  "ref (plain_node r n t) = r" "nodeName (plain_node r n t) = n"
  "nodeType (plain_node r n t) = t" "disabled (plain_node r n t) = None"
  "plain_node r n t = plain_node r' n' t' \<longleftrightarrow> r = r' \<and> n = n' \<and> t = t'"
  by (auto simp: plain_node_def)

text \<open>
  \<open>IConnections\<close>: per node, per connection type, per index, the connections of that output or
  input. An index without connections is \<open>None\<close>, for \<open>null\<close> and for a hole of the array.
\<close>

record IConnection =
  connNode :: string
  connType :: NodeConnectionType
  connIndex :: nat

type_synonym NodeInputConnections = "IConnection list option list"
type_synonym INodeConnections = "(NodeConnectionType, NodeInputConnections) js_map"
type_synonym IConnections = "(string, INodeConnections) js_map"


section \<open>Data of an execution\<close>

record IPairedItemData =
  pairedIndex :: nat
  pairedInput :: "nat option"

text \<open>\<open>pairedItem\<close> is one pair, an array of pairs or the bare index of an item.\<close>

datatype PairedItem = PairedOne IPairedItemData | PairedMany "IPairedItemData list" | PairedNumber nat

record INodeExecutionData =
  json :: IDataObject
  itemError :: "jval option"
  pairedItem :: "PairedItem option"

definition empty_item :: INodeExecutionData where
  "empty_item = \<lparr>json = [], itemError = None, pairedItem = None\<rparr>"

text \<open>
  An element of an array that may be \<open>null\<close>: \<open>Hole\<close> is \<open>undefined\<close>, which reading past the end
  or an unassigned position gives and which \<open>=== null\<close> tells from \<open>null\<close>.
\<close>

datatype 'a slot = Hole | Null | Data 'a

fun slot_option :: "'a slot \<Rightarrow> 'a option" where
  "slot_option (Data x) = Some x"
| "slot_option _ = None"

type_synonym ITaskDataConnections =
  "(NodeConnectionType, INodeExecutionData list slot list) js_map"

record ISourceData =
  previousNode :: string
  previousNodeOutput :: "nat option"
  previousNodeRun :: "nat option"

type_synonym ITaskDataConnectionsSource = "(NodeConnectionType, ISourceData slot list) js_map"

datatype ExecutionStatus =
    StCanceled | StCrashed | StError | StNew | StRunning | StSuccess | StUnknown | StWaiting

type_synonym ITaskMetadata = IDataObject

record ITaskData =
  taskData :: "ITaskDataConnections option"
  taskStatus :: "ExecutionStatus option"
  taskError :: "string option"
  taskSource :: "ISourceData slot list"
  taskMetadata :: "ITaskMetadata option"

type_synonym IRunData = "(string, ITaskData list) js_map"
type_synonym IPinData = "(string, INodeExecutionData list) js_map"

record IExecuteData =
  execNode :: INode
  execData :: ITaskDataConnections
  execMetadata :: "ITaskMetadata option"
  execSource :: "ITaskDataConnectionsSource option"

text \<open>Keys below a node are run indices, which JavaScript enumerates in ascending order.\<close>

type_synonym IWaitingForExecution = "(string, (nat, ITaskDataConnections) js_map) js_map"
type_synonym IWaitingForExecutionSource =
  "(string, (nat, ITaskDataConnectionsSource) js_map) js_map"

text \<open>
  The data of a running execution: \<open>startData\<close>, \<open>resultData\<close> and \<open>executionData\<close>. Errors are
  their messages, times are left out except \<open>waitTill\<close>.
\<close>

record IRunExecutionData =
  startDestinationNode :: "string option"
  startRunNodeFilter :: "string list option"
  resultRunData :: IRunData
  resultPinData :: "IPinData option"
  resultError :: "string option"
  lastNodeExecuted :: "string option"
  nodeExecutionStack :: "IExecuteData list"
  executionMetadata :: "(string, ITaskMetadata option list) js_map"
  waitingExecution :: IWaitingForExecution
  waitingExecutionSource :: IWaitingForExecutionSource
  waitTill :: "nat option"


section \<open>Node types and workflows\<close>

text \<open>What the modelled code reads of a node type; the registry itself is a parameter.\<close>

text \<open>Which inputs a node needs: their number, their indices or an expression.\<close>

datatype RequiredInputs = ReqCount nat | ReqList "nat list" | ReqExpression string

record INodeType =
  ntName :: string
  ntGroup :: "string list"
  ntInputs :: nat
  ntRequiredInputs :: "RequiredInputs option"
  ntExecute :: bool
  ntPoll :: bool
  ntTrigger :: bool
  ntWebhook :: bool

type_synonym INodeTypes = "string \<Rightarrow> rat \<Rightarrow> INodeType option"

record Workflow =
  wfNodes :: "(string, INode) js_map"
  connectionsBySourceNode :: IConnections
  connectionsByDestinationNode :: IConnections
  executionOrder :: "string option"
  wfPinData :: "IPinData option"
  nodeTypes :: INodeTypes

end
