(* ===== verification/Graph_Search.thy ===== *)
theory Graph_Search
  imports N8n_Prelude
begin

text \<open>
  The two recursive searches of the code, each stated once as an interface. A client names
  its recursive method and the edges it follows; the laws are the method's own recursion
  equations, and the facts proved here say what the search finds and how deep a call stack
  it needs.
\<close>


section \<open>Searches that share one set of seen edges\<close>

text \<open>
  \<open>edge_reach edges tgt x e\<close>: the edge \<open>e\<close> can be reached from the node \<open>x\<close> by following
  edges, where \<open>tgt e\<close> is the node at which the search goes on after \<open>e\<close>.
\<close>

inductive edge_reach :: "('n \<Rightarrow> 'e list res) \<Rightarrow> ('e \<Rightarrow> 'n) \<Rightarrow> 'n \<Rightarrow> 'e \<Rightarrow> bool"
  for edges :: "'n \<Rightarrow> 'e list res" and tgt :: "'e \<Rightarrow> 'n" where
  direct: "edges x = Inr es \<Longrightarrow> e \<in> set es \<Longrightarrow> edge_reach edges tgt x e"
| step: "edge_reach edges tgt x e \<Longrightarrow> edges (tgt e) = Inr es \<Longrightarrow> e' \<in> set es \<Longrightarrow>
     edge_reach edges tgt x e'"

lemma edge_reach_prepend:
  assumes "edge_reach edges tgt (tgt e) e'" and "edges x = Inr es" and "e \<in> set es"
  shows "edge_reach edges tgt x e'"
  using assms(1)
proof (induction "tgt e" e' rule: edge_reach.induct)
  case (direct es' e')
  then show ?case using assms(2,3) by (meson edge_reach.intros)
next
  case (step e' es' e'')
  then show ?case using assms(2,3) by (meson edge_reach.intros)
qed

text \<open>
  A client's method \<open>walk d x S\<close> visits every edge of \<open>x\<close> that is not in the set \<open>S\<close> of edges
  seen so far, marks it as seen and goes on behind it; \<open>d\<close> is the remaining depth of the call
  stack.
\<close>

locale edge_walk =
  fixes edges :: "'n \<Rightarrow> 'e list res"
    and tgt :: "'e \<Rightarrow> 'n"
    and walk :: "nat \<Rightarrow> 'n \<Rightarrow> 'e list \<Rightarrow> 'e list res"
  assumes walk_0: "walk 0 x S = Inl RangeError"
    and walk_Suc: "walk (Suc d) x S =
      res_bind (edges x)
        (\<lambda>es. res_fold (\<lambda>e T. if e \<in> set T then Inr T else walk d (tgt e) (set_add e T)) es S)"
begin

definition walked :: "'e set \<Rightarrow> 'n \<Rightarrow> 'e list \<Rightarrow> 'e list \<Rightarrow> 'e list \<Rightarrow> bool" where
  "walked U x es S T \<longleftrightarrow>
     set S \<subseteq> set T \<and> set T \<subseteq> U \<and> set es \<subseteq> set T \<and> (distinct S \<longrightarrow> distinct T) \<and>
     (\<forall>e \<in> set T - set S. edge_reach edges tgt x e \<and>
        (\<forall>es. edges (tgt e) = Inr es \<longrightarrow> set es \<subseteq> set T))"

lemma walk_spec:
  assumes D: "\<And>x. x \<in> D \<Longrightarrow> \<exists>es. edges x = Inr es \<and> set es \<subseteq> U \<and> tgt ` set es \<subseteq> D"
    and U: "finite U"
  shows "x \<in> D \<Longrightarrow> set S \<subseteq> U \<Longrightarrow> card (U - set S) < d \<Longrightarrow>
    \<exists>T es. walk d x S = Inr T \<and> edges x = Inr es \<and> walked U x es S T"
proof (induction d arbitrary: x S)
  case 0
  then show ?case by simp
next
  case (Suc d)
  obtain es where es: "edges x = Inr es" "set es \<subseteq> U" "tgt ` set es \<subseteq> D"
    using D [OF Suc.prems(1)] by blast
  let ?body = "\<lambda>e T. if e \<in> set T then Inr T else walk d (tgt e) (set_add e T)"
  have loop: "\<exists>T. res_fold ?body fs S = Inr T \<and> walked U x fs S T"
    if "set fs \<subseteq> set es" "set S \<subseteq> U" "card (U - set S) < Suc d" for fs S
    using that
  proof (induction fs arbitrary: S)
    case Nil
    then show ?case by (simp add: walked_def)
  next
    case (Cons f fs)
    show ?case
    proof (cases "f \<in> set S")
      case True
      with Cons.IH [of S] Cons.prems obtain T
        where "res_fold ?body fs S = Inr T" "walked U x fs S T" by auto
      with True show ?thesis by (auto simp: walked_def)
    next
      case False
      let ?S1 = "set_add f S"
      have f: "f \<in> U" "tgt f \<in> D" "f \<in> set es" using Cons.prems es by auto
      have S1: "set ?S1 \<subseteq> U" using f Cons.prems(2) by simp
      have "U - set ?S1 \<subset> U - set S" using f False by auto
      then have card1: "card (U - set ?S1) < d"
        using psubset_card_mono [of "U - set S" "U - set ?S1"] U Cons.prems(3) by simp
      from Suc.IH [OF f(2) S1 card1] obtain T1 gs where T1:
        "walk d (tgt f) ?S1 = Inr T1" "edges (tgt f) = Inr gs" "walked U (tgt f) gs ?S1 T1"
        by blast
      have sub1: "insert f (set S) \<subseteq> set T1" "set T1 \<subseteq> U" using T1(3) by (auto simp: walked_def)
      have "card (U - set T1) \<le> card (U - set S)"
        using U sub1 by (intro card_mono) auto
      with Cons.prems(1,3) Cons.IH [of T1] sub1(2) obtain T where T:
        "res_fold ?body fs T1 = Inr T" "walked U x fs T1 T" by auto
      have reach1: "edge_reach edges tgt x e" if "edge_reach edges tgt (tgt f) e" for e
        using that es(1) f(3) by (rule edge_reach_prepend)
      have "walked U x (f # fs) S T"
        unfolding walked_def
      proof (intro conjI)
        show "set S \<subseteq> set T" "set T \<subseteq> U" "set (f # fs) \<subseteq> set T"
          using T(2) sub1 by (auto simp: walked_def)
        show "distinct S \<longrightarrow> distinct T"
          using T(2) T1(3) by (simp add: walked_def)
        show "\<forall>e \<in> set T - set S. edge_reach edges tgt x e \<and>
            (\<forall>es. edges (tgt e) = Inr es \<longrightarrow> set es \<subseteq> set T)"
        proof
        fix e
        assume e: "e \<in> set T - set S"
        have sT: "set T1 \<subseteq> set T" using T(2) by (auto simp: walked_def)
        consider "e = f" | "e \<in> set T1 - set ?S1" | "e \<in> set T - set T1" using e by auto
        then show "edge_reach edges tgt x e \<and> (\<forall>es. edges (tgt e) = Inr es \<longrightarrow> set es \<subseteq> set T)"
        proof cases
          case 1
          then show ?thesis
            using es(1) f(3) T1(2,3) sT by (auto simp: walked_def intro: edge_reach.direct)
        next
          case 2
          then show ?thesis using T1(3) sT reach1 unfolding walked_def by blast
        next
          case 3
          then show ?thesis using T(2) unfolding walked_def by blast
        qed
        qed
      qed
      with False T(1) T1(1) show ?thesis by auto
    qed
  qed
  from loop [OF order_refl Suc.prems(2,3)] es(1) show ?case
    by (auto simp: walk_Suc)
qed

text \<open>Started with nothing seen, the search returns exactly the edges that can be reached.\<close>

theorem walk_reach:
  assumes D: "\<And>x. x \<in> D \<Longrightarrow> \<exists>es. edges x = Inr es \<and> set es \<subseteq> U \<and> tgt ` set es \<subseteq> D"
    and U: "finite U" and x: "x \<in> D" and d: "card U < d"
  shows "\<exists>T. walk d x [] = Inr T \<and> distinct T \<and> set T = {e. edge_reach edges tgt x e}"
proof -
  have "\<exists>T es. walk d x [] = Inr T \<and> edges x = Inr es \<and> walked U x es [] T"
    by (rule walk_spec [OF D U x]) (use d in simp_all)
  then obtain T es where T:
    "walk d x [] = Inr T" "edges x = Inr es" "walked U x es [] T" by blast
  have facts: "set es \<subseteq> set T" "distinct T"
    and sound: "\<And>e. e \<in> set T \<Longrightarrow> edge_reach edges tgt x e"
    and closed: "\<And>e gs. e \<in> set T \<Longrightarrow> edges (tgt e) = Inr gs \<Longrightarrow> set gs \<subseteq> set T"
    using T(3) unfolding walked_def by auto
  have "e \<in> set T" if "edge_reach edges tgt x e" for e
    using that T(2) facts(1) closed
  proof (induction rule: edge_reach.induct)
    case (direct x es' e)
    then show ?case by auto
  next
    case (step x e es' e')
    then show ?case by blast
  qed
  with sound have "set T = {e. edge_reach edges tgt x e}" by blast
  with T(1) facts(2) show ?thesis by blast
qed

end

section \<open>Searches that copy the branch they are on\<close>

text \<open>
  Where a method passes a copy of the nodes on the current branch to the recursive call, a
  node may be visited on many branches, but never twice on one. \<open>avoiding R A\<close> keeps the steps
  that do not leave a node of \<open>A\<close>; a path from \<open>x\<close> can always be cut to one that does not come
  back to \<open>x\<close>.
\<close>

definition avoiding :: "('a \<times> 'a) set \<Rightarrow> 'a set \<Rightarrow> ('a \<times> 'a) set" where
  "avoiding R A = {(a, b) \<in> R. a \<notin> A}"

lemma avoiding_empty [simp]: "avoiding R {} = R"
  by (simp add: avoiding_def)

lemma avoiding_mono: "A \<subseteq> B \<Longrightarrow> avoiding R B \<subseteq> avoiding R A"
  by (auto simp: avoiding_def)

lemma avoiding_rtrancl_mono:
  "A \<subseteq> B \<Longrightarrow> (x, y) \<in> (avoiding R B)\<^sup>* \<Longrightarrow> (x, y) \<in> (avoiding R A)\<^sup>*"
  using rtrancl_mono [OF avoiding_mono] by blast

lemma avoiding_stuck: "(x, y) \<in> (avoiding R A)\<^sup>* \<Longrightarrow> x \<in> A \<Longrightarrow> y = x"
  by (erule converse_rtranclE) (auto simp: avoiding_def)

lemma avoiding_exit:
  assumes "(x, y) \<in> (avoiding R A)\<^sup>*" and "x \<noteq> y"
  shows "\<exists>b. (x, b) \<in> R \<and> (b, y) \<in> (avoiding R (insert x A))\<^sup>*"
  using assms
proof (induction rule: rtrancl_induct)
  case base
  then show ?case by simp
next
  case (step y z)
  have yz: "(y, z) \<in> R" "y \<notin> A" using step.hyps(2) by (auto simp: avoiding_def)
  show ?case
  proof (cases "x = y")
    case True
    with yz show ?thesis by blast
  next
    case False
    with step.IH obtain b where b: "(x, b) \<in> R" "(b, y) \<in> (avoiding R (insert x A))\<^sup>*" by blast
    have "(y, z) \<in> avoiding R (insert x A)" using yz False by (auto simp: avoiding_def)
    with b show ?thesis by (meson rtrancl.rtrancl_into_rtrancl)
  qed
qed

text \<open>The nodes that a search of this kind finds below \<open>x\<close>, and how it splits at \<open>x\<close>.\<close>

definition below :: "('a \<times> 'a) set \<Rightarrow> 'a set \<Rightarrow> 'a \<Rightarrow> 'a set" where
  "below R A x = {y. y \<noteq> x \<and> y \<notin> A \<and> (x, y) \<in> (avoiding R A)\<^sup>*}"

lemma below_split:
  assumes "x \<notin> A"
  shows "below R A x =
    (\<Union>b \<in> {b. (x, b) \<in> R \<and> b \<notin> insert x A}. insert b (below R (insert x A) b))"
    (is "_ = ?U")
proof (rule set_eqI, rule iffI)
  fix y
  assume y: "y \<in> below R A x"
  then obtain b where b: "(x, b) \<in> R" "(b, y) \<in> (avoiding R (insert x A))\<^sup>*"
    using avoiding_exit [of x y R A] by (auto simp: below_def)
  have "b \<notin> insert x A"
    using avoiding_stuck [OF b(2)] y by (auto simp: below_def)
  with b y show "y \<in> ?U" by (auto simp: below_def)
next
  fix y
  assume "y \<in> ?U"
  then obtain b where b: "(x, b) \<in> R" "b \<notin> insert x A" "y = b \<or> y \<in> below R (insert x A) b"
    by blast
  have xb: "(x, b) \<in> avoiding R A" using b(1) assms by (auto simp: avoiding_def)
  have "(b, y) \<in> (avoiding R A)\<^sup>*"
    using b(3) avoiding_rtrancl_mono [of A "insert x A" b y R] by (auto simp: below_def)
  with xb have "(x, y) \<in> (avoiding R A)\<^sup>*" by (rule converse_rtrancl_into_rtrancl)
  moreover have "y \<noteq> x" "y \<notin> A" using b by (auto simp: below_def)
  ultimately show "y \<in> below R A x" by (simp add: below_def)
qed

lemma below_empty: "below R {} x = {y. y \<noteq> x \<and> (x, y) \<in> R\<^sup>+}"
  by (auto simp: below_def dest: rtranclD)


section \<open>Bypassing a node\<close>

text \<open>
  Removing the node \<open>x\<close> and connecting each of its predecessors with each of its successors
  changes no path between other nodes.
\<close>

definition bypass :: "('a \<times> 'a) set \<Rightarrow> 'a \<Rightarrow> ('a \<times> 'a) set" where
  "bypass R x = {(a, b). a \<noteq> x \<and> b \<noteq> x \<and> ((a, b) \<in> R \<or> (a, x) \<in> R \<and> (x, b) \<in> R)}"

lemma bypass_sub: "bypass R x \<subseteq> R\<^sup>+"
  by (auto simp: bypass_def)

lemma trancl_in_trancl:
  assumes "S \<subseteq> R\<^sup>+"
  shows "S\<^sup>+ \<subseteq> R\<^sup>+"
proof (rule subrelI)
  fix a b
  assume "(a, b) \<in> S\<^sup>+"
  then show "(a, b) \<in> R\<^sup>+"
  proof (induction rule: trancl_induct)
    case (base y)
    then show ?case by (rule subsetD [OF assms])
  next
    case (step y z)
    show ?case by (rule trancl_trans [OF step.IH subsetD [OF assms step.hyps(2)]])
  qed
qed

lemma bypass_trancl:
  assumes "a \<noteq> x" and "b \<noteq> x"
  shows "(a, b) \<in> (bypass R x)\<^sup>+ \<longleftrightarrow> (a, b) \<in> R\<^sup>+"
proof
  show "(a, b) \<in> (bypass R x)\<^sup>+ \<Longrightarrow> (a, b) \<in> R\<^sup>+"
    by (rule subsetD [OF trancl_in_trancl [OF bypass_sub]])
  assume "(a, b) \<in> R\<^sup>+"
  then have "if b = x then \<exists>c. c \<noteq> x \<and> (a, c) \<in> (bypass R x)\<^sup>* \<and> (c, x) \<in> R
      else (a, b) \<in> (bypass R x)\<^sup>+"
  proof (induction rule: trancl_induct)
    case (base y)
    with assms(1) show ?case by (auto simp: bypass_def)
  next
    case (step y z)
    show ?case
    proof (cases "y = x")
      case True
      with step.IH obtain c where c: "c \<noteq> x" "(a, c) \<in> (bypass R x)\<^sup>*" "(c, x) \<in> R" by auto
      show ?thesis
      proof (cases "z = x")
        case True
        with c show ?thesis by auto
      next
        case False
        with c True step.hyps(2) \<open>y = x\<close> have "(c, z) \<in> bypass R x" by (auto simp: bypass_def)
        with c False show ?thesis by (simp add: rtrancl_into_trancl1)
      qed
    next
      case False
      then have ay: "(a, y) \<in> (bypass R x)\<^sup>+" using step.IH by simp
      show ?thesis
      proof (cases "z = x")
        case True
        with ay False step.hyps(2) show ?thesis by (auto intro: trancl_into_rtrancl)
      next
        case z: False
        then have "(y, z) \<in> bypass R x" using False step.hyps(2) by (auto simp: bypass_def)
        with ay z show ?thesis by (simp add: trancl_into_trancl)
      qed
    qed
  qed
  with assms(2) show "(a, b) \<in> (bypass R x)\<^sup>+" by simp
qed

end
