(* ===== verification/Workflow_Class.thy ===== *)
theory Workflow_Class
  imports Workflow_Types Graph_Search
begin

text \<open>
  The class Workflow of packages/workflow/src/Workflow.ts: construction, the connections seen
  from their destinations, and the lookups of nodes.
\<close>


section \<open>Connections by destination\<close>

text \<open>
  The connections of a \<open>IConnections\<close> object in the order of the nested loops: source node,
  output type, output index and the connection.
\<close>

definition output_entries ::
  "NodeInputConnections \<Rightarrow> (nat \<times> IConnection) list" where
  "output_entries outs =
     concat (map (\<lambda>(i, cs). map (Pair i) (case cs of None \<Rightarrow> [] | Some l \<Rightarrow> l)) (enumerate 0 outs))"

definition connection_entries ::
  "IConnections \<Rightarrow> (string \<times> NodeConnectionType \<times> nat \<times> IConnection) list" where
  "connection_entries conns =
     concat (map (\<lambda>(s, nc). concat (map (\<lambda>(t, outs).
       map (\<lambda>e. (s, t, e)) (output_entries outs)) nc)) conns)"

text \<open>
  The body of the innermost loop: create the destination's object and array when they are
  missing, pad the array with empty groups up to the input's index, and push the reversed
  connection.
\<close>

definition addDestination ::
  "string \<times> NodeConnectionType \<times> nat \<times> IConnection \<Rightarrow> IConnections \<Rightarrow> IConnections" where
  "addDestination = (\<lambda>(sourceNode, type, inputIndex, info) r.
     let nc = (case map_get r (connNode info) of None \<Rightarrow> [] | Some nc \<Rightarrow> nc);
         arr = (case map_get nc (connType info) of None \<Rightarrow> [] | Some a \<Rightarrow> a);
         padded = arr @ replicate (Suc (connIndex info) - length arr) (Some []);
         conn = \<lparr>connNode = sourceNode, connType = type, connIndex = inputIndex\<rparr>;
         arr' = (case padded ! connIndex info of
                   None \<Rightarrow> padded
                 | Some l \<Rightarrow> padded[connIndex info := Some (l @ [conn])])
     in map_put (connNode info) (map_put (connType info) arr' nc) r)"

definition getConnectionsByDestination :: "IConnections \<Rightarrow> IConnections" where
  "getConnectionsByDestination connections =
     fold addDestination (connection_entries connections) []"


section \<open>Construction and lookup\<close>

text \<open>
  The node defaults are computed by \<open>NodeHelpers.getNodeParameters\<close>, a parameter here: it
  returns \<open>None\<close> for \<open>null\<close>.
\<close>

type_synonym getNodeParameters = "INodeType \<Rightarrow> INode \<Rightarrow> IDataObject option"

definition addDefaults :: "getNodeParameters \<Rightarrow> INodeTypes \<Rightarrow> INode \<Rightarrow> INode" where
  "addDefaults gnp types node =
     (case types (nodeType node) (typeVersion node) of
        None \<Rightarrow> node
      | Some nt \<Rightarrow> node\<lparr>parameters := (case gnp nt node of None \<Rightarrow> [] | Some p \<Rightarrow> p)\<rparr>)"

definition newWorkflow ::
  "getNodeParameters \<Rightarrow> INode list \<Rightarrow> IConnections \<Rightarrow> INodeTypes \<Rightarrow> string option \<Rightarrow>
   IPinData option \<Rightarrow> Workflow" where
  "newWorkflow gnp nodes connections types order pinData =
     \<lparr>wfNodes = fold (\<lambda>n ns. map_put (nodeName n) (addDefaults gnp types n) ns) nodes [],
      connectionsBySourceNode = connections,
      connectionsByDestinationNode = getConnectionsByDestination connections,
      executionOrder = order,
      wfPinData = pinData,
      nodeTypes = types\<rparr>"

definition getNode :: "Workflow \<Rightarrow> string \<Rightarrow> INode option" where
  "getNode w name = map_get (wfNodes w) name"

definition getPinDataOfNode :: "Workflow \<Rightarrow> string \<Rightarrow> INodeExecutionData list option" where
  "getPinDataOfNode w name =
     (case wfPinData w of None \<Rightarrow> None | Some p \<Rightarrow> map_get p name)"

definition queryNodes :: "Workflow \<Rightarrow> (INodeType \<Rightarrow> bool) \<Rightarrow> INode list" where
  "queryNodes w check =
     filter (\<lambda>node. disabled node \<noteq> Some True \<and>
        (case nodeTypes w (nodeType node) (typeVersion node) of
           None \<Rightarrow> False | Some nt \<Rightarrow> check nt))
       (map_values (wfNodes w))"

definition getTriggerNodes :: "Workflow \<Rightarrow> INode list" where
  "getTriggerNodes w = queryNodes w ntTrigger"

definition getPollNodes :: "Workflow \<Rightarrow> INode list" where
  "getPollNodes w = queryNodes w ntPoll"

text \<open>The group of connections at an index, empty where the object or array has none.\<close>

definition conn_group :: "IConnections \<Rightarrow> string \<Rightarrow> NodeConnectionType \<Rightarrow> nat \<Rightarrow> IConnection list"
  where
  "conn_group conns n t i =
     (case map_get conns n of None \<Rightarrow> []
      | Some nc \<Rightarrow> (case map_get nc t of None \<Rightarrow> []
          | Some arr \<Rightarrow> (case arr_get arr i of Some (Some l) \<Rightarrow> l | _ \<Rightarrow> [])))"

text \<open>The objects of \<open>conns\<close> have no key twice.\<close>

definition wf_connections :: "IConnections \<Rightarrow> bool" where
  "wf_connections conns \<longleftrightarrow>
     distinct (map_keys conns) \<and> (\<forall>(n, nc) \<in> set conns. distinct (map_keys nc))"

lemma addDestination_group:
  "conn_group (addDestination (s, ty, out, info) r) n t i =
     conn_group r n t i @
       (if connNode info = n \<and> connType info = t \<and> connIndex info = i \<and>
           (\<forall>nc arr. map_get r n = Some nc \<longrightarrow> map_get nc t = Some arr \<longrightarrow>
              arr_get arr i \<noteq> Some None)
        then [\<lparr>connNode = s, connType = ty, connIndex = out\<rparr>] else [])"
  by (auto simp: addDestination_def conn_group_def arr_get_def Let_def nth_append
      nth_list_update split: option.splits if_splits)

text \<open>
  No group of the new object is ever \<open>null\<close>, so every connection of the source object is
  pushed exactly once, and nothing else is.
\<close>

definition no_null_groups :: "IConnections \<Rightarrow> bool" where
  "no_null_groups r \<longleftrightarrow>
     (\<forall>n nc t arr. map_get r n = Some nc \<longrightarrow> map_get nc t = Some arr \<longrightarrow> None \<notin> set arr)"

lemma arr_get_set: "arr_get xs i = Some x \<Longrightarrow> x \<in> set xs"
  by (auto simp: arr_get_def split: if_splits)

lemma not_None_update: "None \<notin> set xs \<Longrightarrow> None \<notin> set (xs[i := Some y])"
  using set_update_subset_insert [of xs i "Some y"] by auto

lemma not_None_pad: "None \<notin> set xs \<Longrightarrow> None \<notin> set (xs @ replicate k (Some y))"
  by auto

lemma addDestination_no_null:
  "no_null_groups r \<Longrightarrow> no_null_groups (addDestination (s, ty, out, info) r)"
  unfolding no_null_groups_def addDestination_def Let_def
  by (auto split: option.splits if_splits simp del: replicate_Suc list_update.simps
      simp add: not_None_update)

lemma addDestination_group':
  assumes "no_null_groups r"
  shows "conn_group (addDestination (s, ty, out, info) r) n t i =
     conn_group r n t i @
       (if connNode info = n \<and> connType info = t \<and> connIndex info = i
        then [\<lparr>connNode = s, connType = ty, connIndex = out\<rparr>] else [])"
  using assms arr_get_set
  by (fastforce simp: addDestination_group no_null_groups_def)

lemma fold_addDestination_group:
  "no_null_groups r \<Longrightarrow>
   conn_group (fold addDestination es r) n t i =
     conn_group r n t i @
       map (\<lambda>(s, ty, out, info). \<lparr>connNode = s, connType = ty, connIndex = out\<rparr>)
         (filter (\<lambda>(s, ty, out, info). connNode info = n \<and> connType info = t \<and> connIndex info = i) es)"
proof (induction es arbitrary: r)
  case Nil
  then show ?case by simp
next
  case (Cons e es)
  obtain s ty out info where e: "e = (s, ty, out, info)" by (cases e)
  with Cons addDestination_no_null [OF Cons.prems, of s ty out info] show ?case
    by (simp add: addDestination_group')
qed

theorem byDestination_group:
  "conn_group (getConnectionsByDestination conns) n t i =
     map (\<lambda>(s, ty, out, info). \<lparr>connNode = s, connType = ty, connIndex = out\<rparr>)
       (filter (\<lambda>(s, ty, out, info). connNode info = n \<and> connType info = t \<and> connIndex info = i)
         (connection_entries conns))"
proof -
  have "no_null_groups []" "conn_group [] n t i = []"
    by (simp_all add: no_null_groups_def conn_group_def)
  then show ?thesis
    by (simp add: getConnectionsByDestination_def fold_addDestination_group)
qed

lemma filter_output_entries:
  "map snd (filter (\<lambda>(j, c). j = i)
      (concat (map (\<lambda>(i, cs). map (Pair i) (case cs of None \<Rightarrow> [] | Some l \<Rightarrow> l)) (enumerate k outs)))) =
   (if k \<le> i then (case arr_get outs (i - k) of Some (Some l) \<Rightarrow> l | _ \<Rightarrow> []) else [])"
proof (induction outs arbitrary: k)
  case Nil
  then show ?case by (simp add: arr_get_def)
next
  case (Cons cs outs)
  have *: "filter (\<lambda>(j, c). j = i) (map (Pair k) l) = (if k = i then map (Pair k) l else [])"
    for l :: "'a list" by (induction l) auto
  show ?case
    by (cases cs) (use Cons.IH [of "Suc k"] in
      \<open>auto simp: arr_get_def nth_Cons' o_def * Suc_diff_le not_le less_Suc_eq_le
        split: option.splits if_splits dest: le_antisym\<close>)
qed

lemma filter_none: "(\<And>x. x \<in> set xs \<Longrightarrow> \<not> P x) \<Longrightarrow> filter P xs = []"
  by (simp add: filter_empty_conv)

lemma source_entries:
  assumes "wf_connections conns"
  shows "map (\<lambda>(s, ty, out, c). c)
     (filter (\<lambda>(s', ty', out', _). s' = s \<and> ty' = ty \<and> out' = out) (connection_entries conns)) =
   conn_group conns s ty out"
proof -
  have outs: "map (\<lambda>(s, ty, out, c). c) (filter (\<lambda>(s', ty', out', _). s' = s \<and> ty' = ty \<and> out' = out)
      (map (\<lambda>e. (s, ty, e)) (output_entries os))) =
      (case arr_get os out of Some (Some l) \<Rightarrow> l | _ \<Rightarrow> [])" for os
    using filter_output_entries [of out 0 os]
    by (simp add: output_entries_def filter_map o_def case_prod_unfold)
  have types: "map (\<lambda>(s, ty, out, c). c) (filter (\<lambda>(s', ty', out', _). s' = s \<and> ty' = ty \<and> out' = out)
      (concat (map (\<lambda>(t, outs). map (\<lambda>e. (s, t, e)) (output_entries outs)) nc))) =
      (case map_get nc ty of None \<Rightarrow> []
        | Some arr \<Rightarrow> (case arr_get arr out of Some (Some l) \<Rightarrow> l | _ \<Rightarrow> []))"
    if "distinct (map_keys nc)" for nc
    using that
  proof (induction nc)
    case Nil
    then show ?case by simp
  next
    case (Cons p nc)
    obtain t os where p: "p = (t, os)" by (cases p)
    show ?case
    proof (cases "t = ty")
      case True
      have "filter (\<lambda>(s', ty', out', _). s' = s \<and> ty' = ty \<and> out' = out)
         (concat (map (\<lambda>(t, outs). map (\<lambda>e. (s, t, e)) (output_entries outs)) nc)) = []"
        using Cons.prems p True by (intro filter_none) force
      with p True outs [of os] show ?thesis by simp
    next
      case False
      have "filter (\<lambda>(s', ty', out', _). s' = s \<and> ty' = ty \<and> out' = out)
         (map (\<lambda>e. (s, t, e)) (output_entries os)) = []"
        using False by (intro filter_none) auto
      with p False Cons show ?thesis by simp
    qed
  qed
  from assms show ?thesis
  proof (induction conns)
    case Nil
    then show ?case by (simp add: connection_entries_def conn_group_def)
  next
    case (Cons p conns)
    obtain n nc where p: "p = (n, nc)" by (cases p)
    have IH: "wf_connections conns" "distinct (map_keys nc)"
      using Cons.prems p by (auto simp: wf_connections_def)
    show ?case
    proof (cases "n = s")
      case True
      have "filter (\<lambda>(s', ty', out', _). s' = s \<and> ty' = ty \<and> out' = out) (connection_entries conns) = []"
        using Cons.prems p True
        by (intro filter_none) (force simp: connection_entries_def wf_connections_def)
      with p True types [OF IH(2)] show ?thesis
        by (simp add: connection_entries_def conn_group_def)
    next
      case False
      have "filter (\<lambda>(s', ty', out', _). s' = s \<and> ty' = ty \<and> out' = out)
        (concat (map (\<lambda>(t, outs). map (\<lambda>e. (n, t, e)) (output_entries outs)) nc)) = []"
        using False by (intro filter_none) auto
      with p False Cons.IH [OF IH(1)] show ?thesis
        by (simp add: connection_entries_def conn_group_def)
    qed
  qed
qed

lemma count_list_map_filter:
  "count_list (map f (filter P xs)) y = length (filter (\<lambda>x. P x \<and> f x = y) xs)"
  by (induction xs) auto

theorem byDestination_count:
  assumes "wf_connections conns"
  shows "count_list (conn_group (getConnectionsByDestination conns) n t i)
            \<lparr>connNode = s, connType = ty, connIndex = out\<rparr> =
         count_list (conn_group conns s ty out) \<lparr>connNode = n, connType = t, connIndex = i\<rparr>"
proof -
  have *: "info = \<lparr>connNode = n, connType = t, connIndex = i\<rparr> \<longleftrightarrow>
      connNode info = n \<and> connType info = t \<and> connIndex info = i" for info :: IConnection
    by (cases info) auto
  have "(\<lambda>x. (case x of (s, ty, out, info) \<Rightarrow> connNode info = n \<and> connType info = t \<and> connIndex info = i) \<and>
       (case x of (s, ty, out, info) \<Rightarrow> \<lparr>connNode = s, connType = ty, connIndex = out\<rparr>) =
       \<lparr>connNode = s, connType = ty, connIndex = out\<rparr>) =
     (\<lambda>x. (case x of (s', ty', out', _) \<Rightarrow> s' = s \<and> ty' = ty \<and> out' = out) \<and>
       (case x of (s, ty, out, c) \<Rightarrow> c) = \<lparr>connNode = n, connType = t, connIndex = i\<rparr>)"
    by (auto simp: fun_eq_iff *)
  then show ?thesis
    by (simp add: byDestination_group source_entries [OF assms, symmetric] count_list_map_filter)
qed

end
