(* ===== verification/Directed_Graph.thy ===== *)
theory Directed_Graph
  imports Workflow_Class
begin

text \<open>
  The class DirectedGraph of
  packages/core/src/execution-engine/partial-execution-utils/directed-graph.ts: the editable
  form of a workflow's connections, its traversals, and the conversions from and to a workflow.
\<close>


section \<open>State and edits\<close>

record GraphConnection =
  cfrom :: INode
  cto :: INode
  ctype :: NodeConnectionType
  outputIndex :: nat
  inputIndex :: nat

record DirectedGraph =
  gNodes :: "(string, INode) js_map"
  gConnections :: "(string, GraphConnection) js_map"

definition emptyGraph :: DirectedGraph where
  "emptyGraph = \<lparr>gNodes = [], gConnections = []\<rparr>"

text \<open>The key of a connection: from-name, type, output index, input index, to-name.\<close>

definition makeKey :: "GraphConnection \<Rightarrow> string" where
  "makeKey c =
     nodeName (cfrom c) @ ''-'' @ connectionTypeString (ctype c) @ ''-'' @
     show_nat (outputIndex c) @ ''-'' @ show_nat (inputIndex c) @ ''-'' @ nodeName (cto c)"

definition hasNode :: "DirectedGraph \<Rightarrow> string \<Rightarrow> bool" where
  "hasNode g name \<longleftrightarrow> map_get (gNodes g) name \<noteq> None"

definition getNodes :: "DirectedGraph \<Rightarrow> (string, INode) js_map" where
  "getNodes g = gNodes g"

definition getConnections :: "DirectedGraph \<Rightarrow> INode option \<Rightarrow> GraphConnection list" where
  "getConnections g to =
     filter (\<lambda>c. case to of None \<Rightarrow> True | Some n \<Rightarrow> cto c = n) (map_values (gConnections g))"

definition addNode :: "DirectedGraph \<Rightarrow> INode \<Rightarrow> DirectedGraph" where
  "addNode g node = g\<lparr>gNodes := map_put (nodeName node) node (gNodes g)\<rparr>"

definition addNodes :: "DirectedGraph \<Rightarrow> INode list \<Rightarrow> DirectedGraph" where
  "addNodes g nodes = fold (\<lambda>n g. addNode g n) nodes g"

text \<open>The check \<open>this.nodes.get(node.name) === node\<close> that guards several methods.\<close>

definition containsNode :: "DirectedGraph \<Rightarrow> INode \<Rightarrow> bool" where
  "containsNode g node \<longleftrightarrow> map_get (gNodes g) (nodeName node) = Some node"

definition getDirectChildConnections :: "DirectedGraph \<Rightarrow> INode \<Rightarrow> GraphConnection list res" where
  "getDirectChildConnections g node =
     (if containsNode g node
      then Inr (filter (\<lambda>c. cfrom c = node) (map_values (gConnections g)))
      else Inl AssertionError)"

definition getDirectParentConnections :: "DirectedGraph \<Rightarrow> INode \<Rightarrow> GraphConnection list res" where
  "getDirectParentConnections g node =
     (if containsNode g node
      then Inr (filter (\<lambda>c. cto c = node) (map_values (gConnections g)))
      else Inl AssertionError)"

definition deleteConnectionsOf :: "INode \<Rightarrow> DirectedGraph \<Rightarrow> DirectedGraph" where
  "deleteConnectionsOf node g =
     g\<lparr>gConnections := filter (\<lambda>(k, c). \<not> (cto c = node \<or> cfrom c = node)) (gConnections g)\<rparr>"

text \<open>
  The result is the new connections when connections are rewired, \<open>None\<close> for \<open>undefined\<close>
  otherwise. \<open>skip\<close> is \<open>skipConnectionFn\<close>.
\<close>

definition removeNode ::
  "DirectedGraph \<Rightarrow> INode \<Rightarrow> bool \<Rightarrow> (GraphConnection \<Rightarrow> bool) option \<Rightarrow>
   (DirectedGraph \<times> GraphConnection list option) res" where
  "removeNode g node reconnect skip =
     (let skips = (\<lambda>c. case skip of None \<Rightarrow> False | Some f \<Rightarrow> f c) in
      if reconnect then
        res_bind (getDirectParentConnections g node) (\<lambda>incoming.
        res_bind (getDirectChildConnections g node) (\<lambda>outgoing.
          let new = concat (map (\<lambda>i. map (\<lambda>out. i\<lparr>cto := cto out, inputIndex := inputIndex out\<rparr>)
                      (filter (\<lambda>out. \<not> skips out) outgoing))
                    (filter (\<lambda>i. \<not> skips i) incoming));
              g1 = deleteConnectionsOf node g;
              g2 = g1\<lparr>gConnections := fold (\<lambda>c m. map_put (makeKey c) c m) new (gConnections g1)\<rparr>
          in Inr (g2\<lparr>gNodes := map_del (nodeName node) (gNodes g2)\<rparr>, Some new)))
      else
        (let g1 = deleteConnectionsOf node g
         in Inr (g1\<lparr>gNodes := map_del (nodeName node) (gNodes g1)\<rparr>, None)))"

text \<open>The argument of \<open>addConnection\<close>, whose last three fields are optional.\<close>

record ConnectionInput =
  inFrom :: INode
  inTo :: INode
  inType :: "NodeConnectionType option"
  inOutputIndex :: "nat option"
  inInputIndex :: "nat option"

definition addConnection :: "DirectedGraph \<Rightarrow> ConnectionInput \<Rightarrow> DirectedGraph res" where
  "addConnection g ci =
     (if \<not> containsNode g (inFrom ci) then Inl AssertionError
      else if \<not> containsNode g (inTo ci) then Inl AssertionError
      else (let c = \<lparr>cfrom = inFrom ci, cto = inTo ci,
                     ctype = (case inType ci of None \<Rightarrow> Main | Some t \<Rightarrow> t),
                     outputIndex = (case inOutputIndex ci of None \<Rightarrow> 0 | Some i \<Rightarrow> i),
                     inputIndex = (case inInputIndex ci of None \<Rightarrow> 0 | Some i \<Rightarrow> i)\<rparr>
            in Inr (g\<lparr>gConnections := map_put (makeKey c) c (gConnections g)\<rparr>)))"

text \<open>A connection passed as such an argument.\<close>

definition connection_input :: "GraphConnection \<Rightarrow> ConnectionInput" where
  "connection_input c =
     \<lparr>inFrom = cfrom c, inTo = cto c, inType = Some (ctype c),
      inOutputIndex = Some (outputIndex c), inInputIndex = Some (inputIndex c)\<rparr>"

definition addConnections :: "DirectedGraph \<Rightarrow> ConnectionInput list \<Rightarrow> DirectedGraph res" where
  "addConnections g inputs = res_fold (\<lambda>ci g. addConnection g ci) inputs g"

definition getConnection ::
  "DirectedGraph \<Rightarrow> INode \<Rightarrow> nat \<Rightarrow> NodeConnectionType \<Rightarrow> nat \<Rightarrow> INode \<Rightarrow> GraphConnection option"
  where
  "getConnection g from_node out type inp to_node =
     map_get (gConnections g)
       (makeKey \<lparr>cfrom = from_node, cto = to_node, ctype = type, outputIndex = out,
                 inputIndex = inp\<rparr>)"

definition clone :: "DirectedGraph \<Rightarrow> DirectedGraph res" where
  "clone g =
     addConnections (addNodes emptyGraph (map_values (getNodes g)))
       (map connection_input (getConnections g None))"


section \<open>Traversals\<close>

primrec getChildrenRecursive ::
  "nat \<Rightarrow> DirectedGraph \<Rightarrow> INode \<Rightarrow> INode list \<Rightarrow> INode list res" where
  "getChildrenRecursive 0 g node children = Inl RangeError"
| "getChildrenRecursive (Suc k) g node children =
     res_bind (getDirectChildConnections g node) (\<lambda>directChildren.
       res_fold (\<lambda>directChild children.
           if cto directChild \<in> set children then Inr children
           else getChildrenRecursive k g (cto directChild) (set_add (cto directChild) children))
         directChildren children)"

definition getChildren :: "nat \<Rightarrow> DirectedGraph \<Rightarrow> INode \<Rightarrow> INode list res" where
  "getChildren k g node = getChildrenRecursive k g node []"

primrec getParentConnectionsRecursive ::
  "nat \<Rightarrow> DirectedGraph \<Rightarrow> INode \<Rightarrow> GraphConnection list \<Rightarrow> GraphConnection list res" where
  "getParentConnectionsRecursive 0 g node connections = Inl RangeError"
| "getParentConnectionsRecursive (Suc k) g node connections =
     res_bind (getDirectParentConnections g node) (\<lambda>parentConnections.
       res_fold (\<lambda>connection connections.
           if connection \<in> set connections then Inr connections
           else getParentConnectionsRecursive k g (cfrom connection)
                  (set_add connection connections))
         parentConnections connections)"

definition getParentConnections :: "nat \<Rightarrow> DirectedGraph \<Rightarrow> INode \<Rightarrow> GraphConnection list res" where
  "getParentConnections k g node = getParentConnectionsRecursive k g node []"

text \<open>
  Depth-first search. The second component of the result is the set \<open>seen\<close>, which the calls
  share; once a node is found the remaining children are not looked at.
\<close>

primrec depthFirstSearchRecursive ::
  "nat \<Rightarrow> DirectedGraph \<Rightarrow> INode \<Rightarrow> (INode \<Rightarrow> bool) \<Rightarrow> INode list \<Rightarrow> (INode option \<times> INode list) res"
  where
  "depthFirstSearchRecursive 0 g node fn seen = Inl RangeError"
| "depthFirstSearchRecursive (Suc k) g node fn seen =
     (if node \<in> set seen then Inr (None, seen)
      else (let seen = set_add node seen
        in if fn node then Inr (Some node, seen)
           else res_bind (getDirectChildConnections g node) (\<lambda>children.
             res_fold (\<lambda>childConnection (found, seen).
                 if found \<noteq> None then Inr (found, seen)
                 else depthFirstSearchRecursive k g (cto childConnection) fn seen)
               children (None, seen))))"

definition depthFirstSearch ::
  "nat \<Rightarrow> DirectedGraph \<Rightarrow> INode \<Rightarrow> (INode \<Rightarrow> bool) \<Rightarrow> INode option res" where
  "depthFirstSearch k g node fn =
     res_bind (depthFirstSearchRecursive k g node fn []) (\<lambda>(found, seen). Inr found)"


section \<open>Conversion from and to workflows\<close>

definition fromWorkflow :: "Workflow \<Rightarrow> DirectedGraph res" where
  "fromWorkflow w =
     res_fold (\<lambda>(fromName, iConnection) g.
         case getNode w fromName of
           None \<Rightarrow> Inl AssertionError
         | Some from_node \<Rightarrow>
             res_fold (\<lambda>(outType, (out, conn)) g.
                 case getNode w (connNode conn) of
                   None \<Rightarrow> Inl AssertionError
                 | Some to_node \<Rightarrow>
                     addConnection g
                       \<lparr>inFrom = from_node, inTo = to_node, inType = Some outType,
                        inOutputIndex = Some out, inInputIndex = Some (connIndex conn)\<rparr>)
               (concat (map (\<lambda>(t, outs). map (Pair t) (output_entries outs)) iConnection)) g)
       (connectionsBySourceNode w)
       (addNodes emptyGraph (map_values (wfNodes w)))"

text \<open>
  The loop body of \<open>toIConnections\<close>. The object of a source node is created with the type of
  its first connection only; reading an index of a type it does not have throws.
\<close>

definition pushIConnection :: "GraphConnection \<Rightarrow> IConnections \<Rightarrow> IConnections res" where
  "pushIConnection c result =
     (let name = nodeName (cfrom c);
          rc = (case map_get result name of None \<Rightarrow> [(ctype c, [])] | Some nc \<Rightarrow> nc)
      in case map_get rc (ctype c) of
           None \<Rightarrow> Inl TypeError
         | Some outs \<Rightarrow>
             (let group = (case arr_get outs (outputIndex c) of Some (Some l) \<Rightarrow> l | _ \<Rightarrow> []);
                  group' = group @ [\<lparr>connNode = nodeName (cto c), connType = ctype c,
                                     connIndex = inputIndex c\<rparr>]
              in Inr (map_put name
                   (map_put (ctype c) (arr_put None outs (outputIndex c) (Some group')) rc)
                   result)))"

definition toIConnections :: "DirectedGraph \<Rightarrow> IConnections res" where
  "toIConnections g = res_fold pushIConnection (map_values (gConnections g)) []"

definition toWorkflow ::
  "getNodeParameters \<Rightarrow> INodeTypes \<Rightarrow> string option \<Rightarrow> IPinData option \<Rightarrow> DirectedGraph \<Rightarrow>
   Workflow res" where
  "toWorkflow gnp types order pinData g =
     res_bind (toIConnections g) (\<lambda>connections.
       Inr (newWorkflow gnp (map_values (gNodes g)) connections types order pinData))"

end
