(* ===== verification/Directed_Graph_Facts.thy ===== *)
theory Directed_Graph_Facts
  imports Directed_Graph
begin

text \<open>
  Facts about DirectedGraph: the invariant that its edits keep, what its traversals return, and
  when the keys of connections are unambiguous.
\<close>

named_theorems graph_simps \<open>unfolding the edits of a graph\<close>

declare hasNode_def [graph_simps] getNodes_def [graph_simps] containsNode_def [graph_simps]


section \<open>The invariant\<close>

text \<open>
  Nodes are filed under their names, connections under their keys, and both ends of every
  connection are nodes of the graph.
\<close>

definition conns :: "DirectedGraph \<Rightarrow> GraphConnection set" where
  "conns g = set (map_values (gConnections g))"

definition node_set :: "DirectedGraph \<Rightarrow> INode set" where
  "node_set g = set (map_values (gNodes g))"

definition graph_ok :: "DirectedGraph \<Rightarrow> bool" where
  "graph_ok g \<longleftrightarrow>
     filed nodeName (gNodes g) \<and> filed makeKey (gConnections g) \<and>
     (\<forall>c \<in> conns g. cfrom c \<in> node_set g \<and> cto c \<in> node_set g)"

lemma finite_conns [simp]: "finite (conns g)" and finite_node_set [simp]: "finite (node_set g)"
  by (simp_all add: conns_def node_set_def)

lemma graph_ok_filed:
  "graph_ok g \<Longrightarrow> filed nodeName (gNodes g)" "graph_ok g \<Longrightarrow> filed makeKey (gConnections g)"
  by (simp_all add: graph_ok_def)

lemma graph_ok_ends:
  "graph_ok g \<Longrightarrow> c \<in> conns g \<Longrightarrow> cfrom c \<in> node_set g"
  "graph_ok g \<Longrightarrow> c \<in> conns g \<Longrightarrow> cto c \<in> node_set g"
  by (auto simp: graph_ok_def)

lemma containsNode_iff: "graph_ok g \<Longrightarrow> containsNode g n \<longleftrightarrow> n \<in> node_set g"
  by (simp add: containsNode_def node_set_def filed_get [OF graph_ok_filed(1)])

lemma hasNode_iff: "graph_ok g \<Longrightarrow> hasNode g k \<longleftrightarrow> (\<exists>n \<in> node_set g. nodeName n = k)"
  using filed_None [OF graph_ok_filed(1)] by (auto simp: hasNode_def node_set_def)

lemma graph_ok_names_inj: "graph_ok g \<Longrightarrow> inj_on nodeName (node_set g)"
  using filed_inj [OF graph_ok_filed(1)] by (simp add: node_set_def)

lemma graph_ok_empty [simp]: "graph_ok emptyGraph"
  by (simp add: graph_ok_def emptyGraph_def conns_def)

lemma empty_sets [simp]: "conns emptyGraph = {}" "node_set emptyGraph = {}"
  by (simp_all add: emptyGraph_def conns_def node_set_def)

lemma addNode_conns [simp]: "conns (addNode g n) = conns g"
  by (simp add: addNode_def conns_def)

lemma addNode_node_set:
  "graph_ok g \<Longrightarrow> node_set (addNode g n) = insert n {m \<in> node_set g. nodeName m \<noteq> nodeName n}"
  by (simp add: addNode_def node_set_def filed_values_put [OF graph_ok_filed(1)])

text \<open>
  Adding a node keeps the invariant unless another object with the same name is in the graph.
\<close>

definition fits :: "DirectedGraph \<Rightarrow> INode \<Rightarrow> bool" where
  "fits g n \<longleftrightarrow> (\<forall>m \<in> node_set g. nodeName m = nodeName n \<longrightarrow> m = n)"

lemma addNode_fits:
  "graph_ok g \<Longrightarrow> fits g n \<Longrightarrow> node_set (addNode g n) = insert n (node_set g)"
  by (auto simp: addNode_node_set fits_def)

lemma graph_ok_addNode:
  assumes "graph_ok g" and "fits g n"
  shows "graph_ok (addNode g n)"
proof -
  have "filed nodeName (gNodes (addNode g n))" "gConnections (addNode g n) = gConnections g"
    using assms(1) by (simp_all add: addNode_def filed_put graph_ok_filed)
  with assms addNode_fits [OF assms] show ?thesis
    by (auto simp: graph_ok_def)
qed

lemma conn_eta [simp]:
  "\<lparr>cfrom = cfrom c, cto = cto c, ctype = ctype c, outputIndex = outputIndex c,
    inputIndex = inputIndex c\<rparr> = c"
  by (cases c) simp

lemma addConnection_spec:
  assumes "graph_ok g" and "cfrom c \<in> node_set g" and "cto c \<in> node_set g"
  shows "\<exists>g'. addConnection g (connection_input c) = Inr g' \<and> graph_ok g' \<and>
     node_set g' = node_set g \<and> conns g' = insert c {c' \<in> conns g. makeKey c' \<noteq> makeKey c}"
proof -
  let ?g' = "g\<lparr>gConnections := map_put (makeKey c) c (gConnections g)\<rparr>"
  have "addConnection g (connection_input c) = Inr ?g'"
    using assms by (simp add: addConnection_def connection_input_def containsNode_iff Let_def)
  moreover have sets: "node_set ?g' = node_set g"
    "conns ?g' = insert c {c' \<in> conns g. makeKey c' \<noteq> makeKey c}"
    using filed_values_put [OF graph_ok_filed(2) [OF assms(1)]]
    by (simp_all add: node_set_def conns_def)
  moreover have "graph_ok ?g'"
    unfolding graph_ok_def sets
    using assms by (auto simp: graph_ok_def filed_put)
  ultimately show ?thesis by blast
qed

text \<open>
  Two connections between nodes of the graph that have the same key are the same connection.
\<close>

definition keys_unique :: "INode set \<Rightarrow> bool" where
  "keys_unique N \<longleftrightarrow>
     (\<forall>c c'. cfrom c \<in> N \<longrightarrow> cto c \<in> N \<longrightarrow> cfrom c' \<in> N \<longrightarrow> cto c' \<in> N \<longrightarrow>
        makeKey c = makeKey c' \<longrightarrow> c = c')"

lemma split_at_hyphen:
  assumes "CHR ''-'' \<notin> set a" and "CHR ''-'' \<notin> set b"
  shows "a @ CHR ''-'' # r = b @ CHR ''-'' # s \<longleftrightarrow> a = b \<and> r = s"
proof
  assume eq: "a @ CHR ''-'' # r = b @ CHR ''-'' # s"
  have "takeWhile (\<lambda>c. c \<noteq> CHR ''-'') (a @ CHR ''-'' # r) = a"
    "takeWhile (\<lambda>c. c \<noteq> CHR ''-'') (b @ CHR ''-'' # s) = b"
    using assms by (auto intro!: takeWhile_append2 [THEN trans])
  with eq have "a = b" by metis
  with eq show "a = b \<and> r = s" by simp
qed simp

lemma show_nat_no_hyphen: "CHR ''-'' \<notin> set (show_nat n)"
  using show_nat_digits [of "CHR ''-''" n] by (auto simp: is_digit_def)

text \<open>Keys are unambiguous when no name contains the separator.\<close>

lemma makeKey_parts:
  assumes "CHR ''-'' \<notin> set (nodeName (cfrom c))" and "CHR ''-'' \<notin> set (nodeName (cfrom c'))"
  shows "makeKey c = makeKey c' \<longleftrightarrow>
     nodeName (cfrom c) = nodeName (cfrom c') \<and> ctype c = ctype c' \<and>
     outputIndex c = outputIndex c' \<and> inputIndex c = inputIndex c' \<and>
     nodeName (cto c) = nodeName (cto c')"
  using assms
  by (simp add: makeKey_def split_at_hyphen show_nat_no_hyphen connectionTypeString_no_hyphen)

lemma keys_unique_no_hyphen:
  assumes "inj_on nodeName N" and "\<And>n. n \<in> N \<Longrightarrow> CHR ''-'' \<notin> set (nodeName n)"
  shows "keys_unique N"
  using assms unfolding keys_unique_def
  by (auto simp: makeKey_parts intro!: GraphConnection.equality dest: inj_onD)

lemma keys_unique_subset: "keys_unique N \<Longrightarrow> M \<subseteq> N \<Longrightarrow> keys_unique M"
  unfolding keys_unique_def by blast


section \<open>Traversals\<close>

text \<open>One step along a connection, of any type or of those that satisfy \<open>P\<close>.\<close>

definition graph_rel_of :: "(GraphConnection \<Rightarrow> bool) \<Rightarrow> DirectedGraph \<Rightarrow> (INode \<times> INode) set" where
  "graph_rel_of P g = {(cfrom c, cto c) | c. c \<in> conns g \<and> P c}"

definition graph_rel :: "DirectedGraph \<Rightarrow> (INode \<times> INode) set" where
  "graph_rel g = graph_rel_of (\<lambda>_. True) g"

lemma graph_rel_iff: "(a, b) \<in> graph_rel g \<longleftrightarrow> (\<exists>c \<in> conns g. cfrom c = a \<and> cto c = b)"
  by (auto simp: graph_rel_def graph_rel_of_def)

lemma directChildren:
  "graph_ok g \<Longrightarrow> x \<in> node_set g \<Longrightarrow>
   getDirectChildConnections g x = Inr (filter (\<lambda>c. cfrom c = x) (map_values (gConnections g)))"
  by (simp add: getDirectChildConnections_def containsNode_iff)

lemma directParents:
  "graph_ok g \<Longrightarrow> x \<in> node_set g \<Longrightarrow>
   getDirectParentConnections g x = Inr (filter (\<lambda>c. cto c = x) (map_values (gConnections g)))"
  by (simp add: getDirectParentConnections_def containsNode_iff)

lemma res_fold_map: "res_fold f (map h xs) s = res_fold (\<lambda>x. f (h x)) xs s"
  by (induction xs arbitrary: s) (auto simp: res_bind_def split: sum.split)

definition child_nodes :: "DirectedGraph \<Rightarrow> INode \<Rightarrow> INode list res" where
  "child_nodes g x = res_bind (getDirectChildConnections g x) (\<lambda>cs. Inr (map cto cs))"

text \<open>
  Both recursive collections are instances of the search that marks what it has seen: children
  mark the nodes they reach, parent connections mark the connections they follow.
\<close>

interpretation children: edge_walk "child_nodes g" "\<lambda>n. n" "\<lambda>d. getChildrenRecursive d g"
  for g :: DirectedGraph
  by unfold_locales
    (simp_all add: child_nodes_def res_fold_map getDirectChildConnections_def)

interpretation parents: edge_walk "getDirectParentConnections g" cfrom
    "\<lambda>d. getParentConnectionsRecursive d g"
  for g :: DirectedGraph
  by unfold_locales simp_all

lemma child_nodes_ok:
  "graph_ok g \<Longrightarrow> x \<in> node_set g \<Longrightarrow>
   \<exists>es. child_nodes g x = Inr es \<and> set es = {y. (x, y) \<in> graph_rel g}"
  by (auto simp: child_nodes_def directChildren graph_rel_iff conns_def image_iff)

lemma graph_rel_nodes:
  "graph_ok g \<Longrightarrow> (x, y) \<in> graph_rel g \<Longrightarrow> x \<in> node_set g \<and> y \<in> node_set g"
  by (auto simp: graph_rel_iff dest: graph_ok_ends)

lemma graph_reach_node:
  "graph_ok g \<Longrightarrow> (x, y) \<in> (graph_rel g)\<^sup>* \<Longrightarrow> x \<in> node_set g \<Longrightarrow> y \<in> node_set g"
  by (erule rtrancl_induct) (auto dest: graph_rel_nodes)

lemma child_reach:
  assumes "graph_ok g"
  shows "edge_reach (child_nodes g) (\<lambda>n. n) x y \<longleftrightarrow> (x, y) \<in> (graph_rel g)\<^sup>+"
proof
  have step: "(a, b) \<in> graph_rel g" if "child_nodes g a = Inr es" "b \<in> set es" for a b es
    using that by (auto simp: child_nodes_def getDirectChildConnections_def graph_rel_iff conns_def
        split: if_splits)
  show "edge_reach (child_nodes g) (\<lambda>n. n) x y \<Longrightarrow> (x, y) \<in> (graph_rel g)\<^sup>+"
    by (induction rule: edge_reach.induct) (auto dest: step intro: trancl.intros)
  show "(x, y) \<in> (graph_rel g)\<^sup>+ \<Longrightarrow> edge_reach (child_nodes g) (\<lambda>n. n) x y"
  proof (induction rule: trancl_induct)
    case (base y)
    then show ?case
      using child_nodes_ok [OF assms, of x] graph_rel_nodes [OF assms]
      by (blast intro: edge_reach.direct)
  next
    case (step y z)
    then show ?case
      using child_nodes_ok [OF assms, of y] graph_rel_nodes [OF assms]
      by (blast intro: edge_reach.step)
  qed
qed

lemma getChildren_reach:
  assumes g: "graph_ok g" and x: "x \<in> node_set g" and k: "card (node_set g) < k"
  shows "\<exists>T. getChildren k g x = Inr T \<and> distinct T \<and> set T = {y. (x, y) \<in> (graph_rel g)\<^sup>+}"
proof -
  have "\<exists>es. child_nodes g y = Inr es \<and> set es \<subseteq> node_set g \<and> (\<lambda>n. n) ` set es \<subseteq> node_set g"
    if "y \<in> node_set g" for y
    using child_nodes_ok [OF g that] graph_rel_nodes [OF g] by auto
  from children.walk_reach [OF this finite_node_set x k] show ?thesis
    by (simp add: getChildren_def child_reach [OF g])
qed

lemma parent_reach:
  assumes "graph_ok g" and "x \<in> node_set g"
  shows "edge_reach (getDirectParentConnections g) cfrom x c \<longleftrightarrow>
     c \<in> conns g \<and> (cto c, x) \<in> (graph_rel g)\<^sup>*"
proof
  have edge: "c \<in> conns g \<and> cto c = y"
    if "getDirectParentConnections g y = Inr es" "c \<in> set es" for y c es
    using that by (auto simp: getDirectParentConnections_def conns_def split: if_splits)
  have conn: "(cfrom c, cto c) \<in> graph_rel g" if "c \<in> conns g" for c
    using that by (auto simp: graph_rel_iff)
  show "edge_reach (getDirectParentConnections g) cfrom x c \<Longrightarrow>
      c \<in> conns g \<and> (cto c, x) \<in> (graph_rel g)\<^sup>*"
  proof (induction rule: edge_reach.induct)
    case (direct x es e)
    then show ?case using edge by auto
  next
    case (step x e es e')
    then show ?case
      using edge [OF step.hyps(2,3)] conn [of e] by (metis converse_rtrancl_into_rtrancl)
  qed
  assume "c \<in> conns g \<and> (cto c, x) \<in> (graph_rel g)\<^sup>*"
  then have c: "c \<in> conns g" and r: "(cto c, x) \<in> (graph_rel g)\<^sup>*" by auto
  have dir: "edge_reach (getDirectParentConnections g) cfrom y e"
    if "e \<in> conns g" "cto e = y" for y e
  proof -
    have y: "y \<in> node_set g" using that graph_ok_ends [OF assms(1)] by auto
    show ?thesis
      by (rule edge_reach.direct, rule directParents [OF assms(1) y])
        (use that in \<open>auto simp: conns_def\<close>)
  qed
  from r c show "edge_reach (getDirectParentConnections g) cfrom x c"
  proof (induction "cto c" arbitrary: c rule: converse_rtrancl_induct)
    case base
    then show ?case by (intro dir) auto
  next
    case (step z)
    then obtain e where e: "e \<in> conns g" "cfrom e = cto c" "cto e = z"
      by (auto simp: graph_rel_iff)
    then have IH: "edge_reach (getDirectParentConnections g) cfrom x e"
      using step.hyps(3) by blast
    have "cfrom e \<in> node_set g" using graph_ok_ends assms(1) e(1) by blast
    then have "getDirectParentConnections g (cfrom e) =
        Inr (filter (\<lambda>d. cto d = cfrom e) (map_values (gConnections g)))"
      by (rule directParents [OF assms(1)])
    moreover have "c \<in> set (filter (\<lambda>d. cto d = cfrom e) (map_values (gConnections g)))"
      using step.prems e(2) by (simp add: conns_def)
    ultimately show ?case using IH by (blast intro: edge_reach.step)
  qed
qed

lemma getParentConnections_reach:
  assumes g: "graph_ok g" and x: "x \<in> node_set g" and k: "card (conns g) < k"
  shows "\<exists>T. getParentConnections k g x = Inr T \<and> distinct T \<and>
     set T = {c \<in> conns g. (cto c, x) \<in> (graph_rel g)\<^sup>*}"
proof -
  have "\<exists>es. getDirectParentConnections g y = Inr es \<and> set es \<subseteq> conns g \<and>
      cfrom ` set es \<subseteq> node_set g" if "y \<in> node_set g" for y
    using directParents [OF g that] graph_ok_ends [OF g] by (auto simp: conns_def)
  from parents.walk_reach [OF this finite_conns x k] show ?thesis
    by (simp add: getParentConnections_def parent_reach [OF g x])
qed


section \<open>Depth-first search\<close>

text \<open>What a call of the recursion establishes, from the set \<open>S\<close> of seen nodes to \<open>T\<close>.\<close>

definition dfs_post ::
  "DirectedGraph \<Rightarrow> (INode \<Rightarrow> bool) \<Rightarrow> INode \<Rightarrow> INode list \<Rightarrow> INode option \<Rightarrow> INode list \<Rightarrow> bool" where
  "dfs_post g fn x S r T \<longleftrightarrow>
     set S \<subseteq> set T \<and> set T \<subseteq> node_set g \<and>
     (case r of
        Some n \<Rightarrow> fn n \<and> (x, n) \<in> (graph_rel g)\<^sup>*
      | None \<Rightarrow> (\<forall>y \<in> set T - set S. \<not> fn y \<and> graph_rel g `` {y} \<subseteq> set T))"

lemma depthFirstSearchRecursive_spec:
  assumes g: "graph_ok g"
  shows "x \<in> node_set g \<Longrightarrow> set S \<subseteq> node_set g \<Longrightarrow> card (node_set g - set S) < k \<Longrightarrow>
    \<exists>r T. depthFirstSearchRecursive k g x fn S = Inr (r, T) \<and> dfs_post g fn x S r T \<and>
      (r = None \<longrightarrow> x \<in> set T)"
proof (induction k arbitrary: x S)
  case 0
  then show ?case by simp
next
  case (Suc k)
  let ?S1 = "set_add x S"
  let ?body = "\<lambda>c (found, seen). if found \<noteq> None then Inr (found, seen)
      else depthFirstSearchRecursive k g (cto c) fn seen"
  show ?case
  proof (cases "x \<in> set S \<or> fn x")
    case True
    with Suc.prems show ?thesis by (auto simp: dfs_post_def)
  next
    case False
    define cs where "cs = filter (\<lambda>c. cfrom c = x) (map_values (gConnections g))"
    have cs: "c \<in> set cs \<longleftrightarrow> c \<in> conns g \<and> cfrom c = x" for c
      by (auto simp: cs_def conns_def)
    have S1: "set ?S1 \<subseteq> node_set g" using Suc.prems by simp
    have "node_set g - set ?S1 \<subset> node_set g - set S" using Suc.prems False by auto
    then have "card (node_set g - set ?S1) < card (node_set g - set S)"
      by (intro psubset_card_mono) auto
    with Suc.prems(3) have k: "card (node_set g - set ?S1) < k" by simp
    have loop: "\<exists>s. res_fold ?body cs (None, ?S1) = Inr s \<and>
        dfs_post g fn x ?S1 (fst s) (snd s) \<and>
        (fst s = None \<longrightarrow> (\<forall>c \<in> set cs. cto c \<in> set (snd s)))"
    proof (rule res_fold_prefix [where P = "\<lambda>ds s. dfs_post g fn x ?S1 (fst s) (snd s) \<and>
        (fst s = None \<longrightarrow> (\<forall>c \<in> set ds. cto c \<in> set (snd s)))"])
      show "dfs_post g fn x ?S1 (fst (None, ?S1)) (snd (None, ?S1)) \<and>
          (fst (None, ?S1) = None \<longrightarrow> (\<forall>c \<in> set []. cto c \<in> set (snd (None, ?S1))))"
        using S1 by (simp add: dfs_post_def)
      fix ds c es and s :: "INode option \<times> INode list"
      assume split: "cs = ds @ c # es"
        and P: "dfs_post g fn x ?S1 (fst s) (snd s) \<and>
          (fst s = None \<longrightarrow> (\<forall>c \<in> set ds. cto c \<in> set (snd s)))"
      obtain found seen where s: "s = (found, seen)" by (cases s)
      show "\<exists>t. ?body c s = Inr t \<and> dfs_post g fn x ?S1 (fst t) (snd t) \<and>
          (fst t = None \<longrightarrow> (\<forall>c \<in> set (ds @ [c]). cto c \<in> set (snd t)))"
      proof (cases found)
        case (Some n)
        with P s show ?thesis by auto
      next
        case None
        have c: "c \<in> conns g" "cfrom c = x" using cs [of c] split by auto
        then have step: "(x, cto c) \<in> graph_rel g" by (auto simp: graph_rel_iff)
        have seen: "set ?S1 \<subseteq> set seen" "set seen \<subseteq> node_set g"
          using P s by (auto simp: dfs_post_def)
        have "card (node_set g - set seen) \<le> card (node_set g - set ?S1)"
          using seen by (intro card_mono) auto
        with k seen Suc.IH [of "cto c" seen] graph_ok_ends(2) [OF g c(1)] obtain r T where T:
          "depthFirstSearchRecursive k g (cto c) fn seen = Inr (r, T)"
          "dfs_post g fn (cto c) seen r T" "r = None \<longrightarrow> cto c \<in> set T" by auto
        have "dfs_post g fn x ?S1 r T"
        proof (cases r)
          case None
          with T(2) P s \<open>found = None\<close> show ?thesis
            unfolding dfs_post_def by (simp only: option.case fst_conv snd_conv) blast
        next
          case (Some n)
          with T(2) seen step show ?thesis
            by (auto simp: dfs_post_def intro: converse_rtrancl_into_rtrancl)
        qed
        moreover have "set seen \<subseteq> set T" using T(2) by (simp add: dfs_post_def)
        ultimately show ?thesis using T(1,3) P s None by (auto split: option.splits)
      qed
    qed
    then obtain r T where T: "res_fold ?body cs (None, ?S1) = Inr (r, T)"
      "dfs_post g fn x ?S1 r T" "r = None \<longrightarrow> (\<forall>c \<in> set cs. cto c \<in> set T)" by auto
    have run: "depthFirstSearchRecursive (Suc k) g x fn S = Inr (r, T)"
      using False T(1) directChildren [OF g Suc.prems(1)] by (simp add: cs_def)
    have "dfs_post g fn x S r T"
    proof (cases r)
      case None
      then have "graph_rel g `` {x} \<subseteq> set T" using T(3) cs by (auto simp: graph_rel_iff)
      with None T(2) False show ?thesis by (auto simp: dfs_post_def)
    next
      case (Some n)
      with T(2) show ?thesis by (auto simp: dfs_post_def)
    qed
    moreover have "x \<in> set T" using T(2) by (auto simp: dfs_post_def)
    ultimately show ?thesis using run by blast
  qed
qed

text \<open>The search finds a node that satisfies the predicate exactly when one can be reached.\<close>

lemma depthFirstSearch_spec:
  assumes g: "graph_ok g" and x: "x \<in> node_set g" and k: "card (node_set g) < k"
  shows "\<exists>r. depthFirstSearch k g x fn = Inr r \<and>
    (case r of Some n \<Rightarrow> fn n \<and> (x, n) \<in> (graph_rel g)\<^sup>*
     | None \<Rightarrow> \<forall>n. (x, n) \<in> (graph_rel g)\<^sup>* \<longrightarrow> \<not> fn n)"
proof -
  from depthFirstSearchRecursive_spec [OF g x, of "[]" k fn] k obtain r T where T:
    "depthFirstSearchRecursive k g x fn [] = Inr (r, T)" "dfs_post g fn x [] r T"
    "r = None \<longrightarrow> x \<in> set T" by auto
  have "\<not> fn n" if "r = None" "(x, n) \<in> (graph_rel g)\<^sup>*" for n
  proof -
    from that(2) have "n \<in> set T"
      by (induction rule: rtrancl_induct) (use T that(1) in \<open>auto simp: dfs_post_def\<close>)
    with T(2) that(1) show ?thesis by (auto simp: dfs_post_def)
  qed
  with T show ?thesis by (auto simp: depthFirstSearch_def dfs_post_def split: option.split)
qed

end
