(* ===== verification/Strong_Components.thy ===== *)
theory Strong_Components
  imports Directed_Graph_Facts
begin

text \<open>
  \<open>getStronglyConnectedComponents\<close> of the class DirectedGraph. The local variables that the
  closure \<open>followNode\<close> mutates are the fields of one state; the array \<open>stack\<close> grows at its end.
\<close>

record scc_state =
  sccId :: nat
  visited :: "INode list"
  ids :: "(INode, nat) js_map"
  lowLinkValues :: "(INode, nat) js_map"
  sccStack :: "INode list"
  components :: "INode list list"

text \<open>The loop that pops while the top of the stack has the low-link value \<open>ownId\<close>.\<close>

function popComponent ::
  "nat \<Rightarrow> (INode, nat) js_map \<Rightarrow> INode list \<Rightarrow> INode list \<Rightarrow> INode list \<times> INode list" where
  "popComponent ownId low stack scc =
     (if stack = [] then (stack, scc)
      else if map_get low (last stack) = Some ownId
      then popComponent ownId low (butlast stack) (set_add (last stack) scc)
      else (stack, scc))"
  by pat_completeness auto
termination by (relation "measure (\<lambda>(ownId, low, stack, scc). length stack)") auto

declare popComponent.simps [simp del]

definition openNode :: "INode \<Rightarrow> scc_state \<Rightarrow> scc_state" where
  "openNode node s =
     s\<lparr>visited := set_add node (visited s),
       lowLinkValues := map_put node (sccId s) (lowLinkValues s),
       ids := map_put node (sccId s) (ids s),
       sccId := Suc (sccId s),
       sccStack := sccStack s @ [node]\<rparr>"

definition updateLowLink :: "INode \<Rightarrow> INode \<Rightarrow> scc_state \<Rightarrow> scc_state res" where
  "updateLowLink node child s =
     (if child \<in> set (sccStack s) then
        (case (map_get (lowLinkValues s) child, map_get (lowLinkValues s) node) of
           (Some childLow, Some ownLow) \<Rightarrow>
             Inr (s\<lparr>lowLinkValues := map_put node (min childLow ownLow) (lowLinkValues s)\<rparr>)
         | _ \<Rightarrow> Inl AssertionError)
      else Inr s)"

definition closeNode :: "INode \<Rightarrow> scc_state \<Rightarrow> scc_state res" where
  "closeNode node s =
     (case (map_get (ids s) node, map_get (lowLinkValues s) node) of
        (Some ownId, Some ownLow) \<Rightarrow>
          if ownId = ownLow then
            (let (stack', scc) = popComponent ownId (lowLinkValues s) (sccStack s) []
             in Inr (s\<lparr>sccStack := stack',
                      components := (if length scc > 0 then components s @ [scc]
                                     else components s)\<rparr>))
          else Inr s
      | _ \<Rightarrow> Inl AssertionError)"

primrec followNode :: "nat \<Rightarrow> DirectedGraph \<Rightarrow> INode \<Rightarrow> scc_state \<Rightarrow> scc_state res" where
  "followNode 0 g node s = Inl RangeError"
| "followNode (Suc k) g node s =
     (if node \<in> set (visited s) then Inr s
      else res_bind (getDirectChildConnections g node) (\<lambda>children.
        res_bind (res_fold (\<lambda>child s. res_bind (followNode k g child s) (updateLowLink node child))
                    (map cto children) (openNode node s))
          (closeNode node)))"

definition initial_scc :: scc_state where
  "initial_scc = \<lparr>sccId = 0, visited = [], ids = [], lowLinkValues = [], sccStack = [],
     components = []\<rparr>"

definition getStronglyConnectedComponents :: "nat \<Rightarrow> DirectedGraph \<Rightarrow> INode list list res" where
  "getStronglyConnectedComponents k g =
     res_bind (res_fold (followNode k g) (map_values (gNodes g)) initial_scc)
       (\<lambda>s. Inr (components s))"


section \<open>What a reported component is\<close>

text \<open>
  The invariant of the search. \<open>num s x\<close> and \<open>low s x\<close> are the two numbers of a visited node.
  Numbers are given in the order of the visits; the stack holds nodes in that order; the
  low-link value of a node is the number of a node that it can reach; a reported component is
  strongly connected and shares no node with the stack or with another component.
\<close>

abbreviation num :: "scc_state \<Rightarrow> INode \<Rightarrow> nat option" where
  "num s x \<equiv> map_get (ids s) x"

abbreviation low :: "scc_state \<Rightarrow> INode \<Rightarrow> nat option" where
  "low s x \<equiv> map_get (lowLinkValues s) x"

definition strong :: "DirectedGraph \<Rightarrow> INode list \<Rightarrow> bool" where
  "strong g C \<longleftrightarrow> C \<noteq> [] \<and> distinct C \<and> (\<forall>a \<in> set C. \<forall>b \<in> set C. (a, b) \<in> (graph_rel g)\<^sup>*)"

definition numbered :: "DirectedGraph \<Rightarrow> scc_state \<Rightarrow> INode \<Rightarrow> bool" where
  "numbered g s x \<longleftrightarrow>
     (\<exists>i l r. num s x = Some i \<and> low s x = Some l \<and> i < sccId s \<and> l \<le> i \<and>
        r \<in> set (visited s) \<and> num s r = Some l \<and> (x, r) \<in> (graph_rel g)\<^sup>*)"

definition scc_inv :: "DirectedGraph \<Rightarrow> scc_state \<Rightarrow> bool" where
  "scc_inv g s \<longleftrightarrow>
     set (visited s) \<subseteq> node_set g \<and>
     (\<forall>x \<in> set (visited s). numbered g s x) \<and>
     inj_on (num s) (set (visited s)) \<and>
     set (sccStack s) \<subseteq> set (visited s) \<and>
     (\<forall>C \<in> set (components s). strong g C \<and> set C \<subseteq> set (visited s)) \<and>
     distinct (concat (components s) @ sccStack s)"

text \<open>
  What has happened since the state \<open>s\<close>, while the node \<open>x\<close> is followed: earlier nodes keep
  their numbers, the stack has grown by nodes visited since, and these can be reached from \<open>x\<close>.
\<close>

definition since :: "DirectedGraph \<Rightarrow> INode \<Rightarrow> scc_state \<Rightarrow> scc_state \<Rightarrow> bool" where
  "since g x s t \<longleftrightarrow>
     scc_inv g t \<and> set (visited s) \<subseteq> set (visited t) \<and> x \<in> set (visited t) \<and> sccId s \<le> sccId t \<and>
     (\<forall>y \<in> set (visited s). num t y = num s y \<and> low t y = low s y) \<and>
     (\<exists>new. sccStack t = sccStack s @ new \<and> set new \<inter> set (visited s) = {}) \<and>
     (\<forall>y \<in> set (visited t) - set (visited s).
        (x, y) \<in> (graph_rel g)\<^sup>* \<and> (\<exists>i. num t y = Some i \<and> sccId s \<le> i))"

lemma numbered_num: "numbered g s x \<Longrightarrow> \<exists>i l. num s x = Some i \<and> low s x = Some l \<and> i < sccId s \<and> l \<le> i"
  by (auto simp: numbered_def)

lemma popComponent_spec:
  "popComponent own lw st acc = (st', scc) \<Longrightarrow>
   \<exists>seg. st = st' @ seg \<and> (\<forall>n \<in> set seg. map_get lw n = Some own) \<and>
     set scc = set acc \<union> set seg \<and> (distinct acc \<longrightarrow> distinct scc)"
proof (induction own lw st acc rule: popComponent.induct)
  case (1 own lw st acc)
  show ?case
  proof (cases "st \<noteq> [] \<and> map_get lw (last st) = Some own")
    case True
    with "1.prems" have "popComponent own lw (butlast st) (set_add (last st) acc) = (st', scc)"
      by (simp add: popComponent.simps [of own lw st acc])
    with "1.IH" True obtain seg where "butlast st = st' @ seg"
      "\<forall>n \<in> set seg. map_get lw n = Some own"
      "set scc = set (set_add (last st) acc) \<union> set seg" "distinct (set_add (last st) acc) \<longrightarrow> distinct scc"
      by blast
    note seg = this
    have "st = butlast st @ [last st]" using True by simp
    with seg(1) have "st = st' @ (seg @ [last st])" by (metis append_assoc)
    moreover have "\<forall>n \<in> set (seg @ [last st]). map_get lw n = Some own" using seg(2) True by simp
    moreover have "set scc = set acc \<union> set (seg @ [last st])" using seg(3) by auto
    ultimately show ?thesis using seg(4) by (metis distinct_set_add)
  next
    case False
    with "1.prems" show ?thesis
      by (auto simp: popComponent.simps [of own lw st acc] split: if_splits)
  qed
qed

lemma since_open:
  assumes inv: "scc_inv g s" and x: "x \<in> node_set g" "x \<notin> set (visited s)"
  shows "since g x s (openNode x s)" and "num (openNode x s) x = Some (sccId s)"
    and "x \<in> set (sccStack (openNode x s))"
proof -
  let ?t = "openNode x s"
  have vis: "set (visited ?t) = insert x (set (visited s))"
    and st: "sccStack ?t = sccStack s @ [x]" "components ?t = components s" "sccId ?t = Suc (sccId s)"
    and nx: "num ?t x = Some (sccId s)" "low ?t x = Some (sccId s)"
    and ny: "\<And>y. y \<noteq> x \<Longrightarrow> num ?t y = num s y \<and> low ?t y = low s y"
    by (simp_all add: openNode_def)
  have old: "y \<noteq> x" if "y \<in> set (visited s)" for y using that x by auto
  have numb: "numbered g ?t y" if "y \<in> set (visited ?t)" for y
  proof (cases "y = x")
    case True
    then show ?thesis using nx vis st by (auto simp: numbered_def)
  next
    case False
    with that vis inv have "numbered g s y" by (auto simp: scc_inv_def)
    then obtain i l r where "num s y = Some i" "low s y = Some l" "i < sccId s" "l \<le> i"
      "r \<in> set (visited s)" "num s r = Some l" "(y, r) \<in> (graph_rel g)\<^sup>*"
      by (auto simp: numbered_def)
    with False old [of r] ny [of y] ny [of r] st vis show ?thesis
      unfolding numbered_def by (metis insertCI less_SucI)
  qed
  have small: "\<exists>i. num s y = Some i \<and> i < sccId s" if "y \<in> set (visited s)" for y
    using inv that numbered_num [of g s y] by (auto simp: scc_inv_def)
  have inj: "inj_on (num ?t) (set (visited ?t))"
    unfolding vis
  proof (subst inj_on_insert, intro conjI)
    have "inj_on (num ?t) (set (visited s)) \<longleftrightarrow> inj_on (num s) (set (visited s))"
      by (intro inj_on_cong) (use ny old in auto)
    with inv show "inj_on (num ?t) (set (visited s))" by (simp add: scc_inv_def)
    have "num ?t y \<noteq> Some (sccId s)" if "y \<in> set (visited s)" for y
      using small [OF that] ny [OF old [OF that]] by auto
    with nx(1) show "num ?t x \<notin> num ?t ` (set (visited s) - {x})" by (metis DiffE imageE)
  qed
  have "x \<notin> set (concat (components s))" "x \<notin> set (sccStack s)"
    using inv x(2) by (auto simp: scc_inv_def)
  with inv x(1) numb inj have "scc_inv g ?t"
    unfolding scc_inv_def st vis by auto
  then show "since g x s ?t"
    using x(2) ny old nx unfolding since_def vis st by auto
  show "num ?t x = Some (sccId s)" "x \<in> set (sccStack ?t)" using nx st by simp_all
qed

text \<open>Taking the low-link value of a child on the stack.\<close>

lemma scc_inv_update:
  assumes inv: "scc_inv g t" and x: "x \<in> set (visited t)" and y: "y \<in> set (visited t)"
    and edge: "(x, y) \<in> graph_rel g"
  shows "\<exists>u. updateLowLink x y t = Inr u \<and> scc_inv g u \<and> visited u = visited t \<and>
    sccId u = sccId t \<and> sccStack u = sccStack t \<and> ids u = ids t \<and>
    (\<forall>z. z \<noteq> x \<longrightarrow> low u z = low t z)"
proof (cases "y \<in> set (sccStack t)")
  case False
  with inv show ?thesis by (simp add: updateLowLink_def)
next
  case True
  have "numbered g t x" "numbered g t y" using inv x y by (auto simp: scc_inv_def)
  then obtain i l j m r q where
    xi: "num t x = Some i" "low t x = Some l" "i < sccId t" "l \<le> i"
      "r \<in> set (visited t)" "num t r = Some l" "(x, r) \<in> (graph_rel g)\<^sup>*" and
    yj: "low t y = Some m" "q \<in> set (visited t)" "num t q = Some m" "(y, q) \<in> (graph_rel g)\<^sup>*"
    unfolding numbered_def by blast
  define u where "u = t\<lparr>lowLinkValues := map_put x (min m l) (lowLinkValues t)\<rparr>"
  have run: "updateLowLink x y t = Inr u"
    using True xi yj by (simp add: updateLowLink_def u_def)
  have same: "visited u = visited t" "sccId u = sccId t" "sccStack u = sccStack t"
    "ids u = ids t" "components u = components t" "\<And>z. z \<noteq> x \<Longrightarrow> low u z = low t z"
    "low u x = Some (min m l)"
    by (simp_all add: u_def)
  have xq: "(x, q) \<in> (graph_rel g)\<^sup>*" using edge yj(4) by (rule converse_rtrancl_into_rtrancl)
  have "numbered g u z" if "z \<in> set (visited t)" for z
  proof (cases "z = x")
    case True
    have "\<exists>p \<in> set (visited t). num t p = Some (min m l) \<and> (x, p) \<in> (graph_rel g)\<^sup>*"
      using xi yj xq by (auto simp: min_def)
    with True xi same show ?thesis unfolding numbered_def by (metis le_trans min.cobounded2)
  next
    case False
    have "numbered g t z" using inv that by (simp add: scc_inv_def)
    with False same show ?thesis by (simp add: numbered_def)
  qed
  with inv same have "scc_inv g u" by (simp add: scc_inv_def)
  with run same show ?thesis by blast
qed

text \<open>Closing a node.\<close>

lemma since_close:
  assumes s: "since g x s t" and inv: "scc_inv g s" and num: "num t x = Some (sccId s)"
    and x: "x \<notin> set (visited s)"
  shows "\<exists>u. closeNode x t = Inr u \<and> since g x s u"
proof -
  have t: "scc_inv g t" "x \<in> set (visited t)" using s by (auto simp: since_def)
  then have "numbered g t x" by (auto simp: scc_inv_def)
  with num obtain l where l: "low t x = Some l" by (auto simp: numbered_def)
  show ?thesis
  proof (cases "sccId s = l")
    case False
    with num l s show ?thesis by (simp add: closeNode_def)
  next
    case True
    obtain st scc where pop: "popComponent l (lowLinkValues t) (sccStack t) [] = (st, scc)"
      by fastforce
    from popComponent_spec [OF pop] obtain seg where seg:
      "sccStack t = st @ seg" "\<forall>n \<in> set seg. low t n = Some l" "set scc = set seg" "distinct scc"
      by auto
    define u where "u = t\<lparr>sccStack := st,
      components := (if length scc > 0 then components t @ [scc] else components t)\<rparr>"
    have run: "closeNode x t = Inr u" using num l True pop by (simp add: closeNode_def u_def)
    have same: "visited u = visited t" "sccId u = sccId t" "ids u = ids t"
      "lowLinkValues u = lowLinkValues t" "sccStack u = st"
      by (simp_all add: u_def)
    have seg_vis: "set seg \<subseteq> set (visited t)" using t(1) seg(1) by (auto simp: scc_inv_def)
    have to_x: "(y, x) \<in> (graph_rel g)\<^sup>*" if "y \<in> set seg" for y
    proof -
      have "numbered g t y" using t(1) seg_vis that by (auto simp: scc_inv_def)
      moreover have "low t y = Some l" using seg(2) that by blast
      ultimately obtain r where
        r: "r \<in> set (visited t)" "num t r = Some l" "(y, r) \<in> (graph_rel g)\<^sup>*"
        by (auto simp: numbered_def)
      have "inj_on (num t) (set (visited t))" using t(1) by (simp add: scc_inv_def)
      with r t(2) num True have "r = x" by (simp add: inj_on_eq_iff [symmetric])
      with r show ?thesis by simp
    qed
    have fresh: "y \<notin> set (visited s)" if "y \<in> set seg" for y
    proof
      assume y: "y \<in> set (visited s)"
      then have "numbered g s y" using inv by (simp add: scc_inv_def)
      then obtain i m where "low s y = Some m" "i < sccId s" "m \<le> i" by (auto simp: numbered_def)
      moreover have "low t y = low s y" using s y by (simp add: since_def)
      ultimately show False using seg(2) that True by auto
    qed
    have from_x: "(x, y) \<in> (graph_rel g)\<^sup>*" if "y \<in> set seg" for y
      using s fresh [OF that] seg_vis that unfolding since_def by blast
    have strong: "scc \<noteq> [] \<Longrightarrow> strong g scc"
      unfolding strong_def using seg(3,4) rtrancl_trans [OF to_x from_x] by simp
    have dist: "distinct (concat (components t) @ sccStack t)" using t(1) by (simp add: scc_inv_def)
    have "scc_inv g u"
      unfolding scc_inv_def same
    proof (intro conjI)
      show "\<forall>C \<in> set (components u). strong g C \<and> set C \<subseteq> set (visited t)"
        using t(1) strong seg(3) seg_vis by (auto simp: u_def scc_inv_def)
      show "distinct (concat (components u) @ st)"
        using dist seg(1,3,4) by (auto simp: u_def)
      show "\<forall>y \<in> set (visited t). numbered g u y"
        using t(1) same by (simp add: scc_inv_def numbered_def)
    qed (use t(1) seg(1) in \<open>auto simp: scc_inv_def\<close>)
    moreover have "\<exists>new. st = sccStack s @ new \<and> set new \<inter> set (visited s) = {}"
    proof -
      obtain new where new: "sccStack t = sccStack s @ new" "set new \<inter> set (visited s) = {}"
        using s by (auto simp: since_def)
      have "set (sccStack s) \<subseteq> set (visited s)" using inv by (simp add: scc_inv_def)
      with fresh have disj: "set seg \<inter> set (sccStack s) = {}" by auto
      from new(1) seg(1) have "st @ seg = sccStack s @ new" by simp
      then consider us where "st = sccStack s @ us" "us @ seg = new"
        | us where "st @ us = sccStack s" "seg = us @ new"
        by (auto simp: append_eq_append_conv2)
      then show ?thesis
      proof cases
        case 1
        with new(2) show ?thesis by auto
      next
        case 2
        have "set us \<subseteq> set (sccStack s)" using 2(1) [symmetric] by simp
        with disj 2(2) have "us = []" by (cases us) auto
        with 2 show ?thesis by auto
      qed
    qed
    ultimately have "since g x s u"
      using s unfolding since_def same by simp
    with run show ?thesis by blast
  qed
qed

text \<open>Following a child \<open>y\<close> of the open node \<open>x\<close> and taking its low-link value.\<close>

lemma since_child:
  assumes s: "since g x s t" and t: "t' = t \<and> y \<in> set (visited t) \<or> since g y t t'"
    and edge: "(x, y) \<in> graph_rel g" and num: "num t x = Some (sccId s)"
    and x: "x \<notin> set (visited s)"
  shows "\<exists>u. updateLowLink x y t' = Inr u \<and> since g x s u \<and> num u x = Some (sccId s)"
proof -
  have xt: "x \<in> set (visited t)" "set (visited s) \<subseteq> set (visited t)" "sccId s \<le> sccId t"
    using s by (auto simp: since_def)
  have st': "since g x s t' \<and> num t' x = Some (sccId s) \<and> y \<in> set (visited t')"
  proof (cases "since g y t t'")
    case False
    with t s num show ?thesis by simp
  next
    case True
    have "x \<in> set (visited t')" "num t' x = Some (sccId s)" "y \<in> set (visited t')"
      using True xt num by (auto simp: since_def)
    moreover have "\<forall>z \<in> set (visited s). num t' z = num s z \<and> low t' z = low s z"
      using True s xt(2) unfolding since_def by (simp add: subset_iff)
    moreover have "\<exists>new. sccStack t' = sccStack s @ new \<and> set new \<inter> set (visited s) = {}"
    proof -
      obtain a b where "sccStack t = sccStack s @ a" "set a \<inter> set (visited s) = {}"
        "sccStack t' = sccStack t @ b" "set b \<inter> set (visited t) = {}"
        using s True by (auto simp: since_def)
      with xt(2) show ?thesis by (intro exI [of _ "a @ b"]) auto
    qed
    moreover have "(x, z) \<in> (graph_rel g)\<^sup>* \<and> (\<exists>i. num t' z = Some i \<and> sccId s \<le> i)"
      if z: "z \<in> set (visited t') - set (visited s)" for z
    proof (cases "z \<in> set (visited t)")
      case True
      moreover have "num t' z = num t z" using True \<open>since g y t t'\<close> by (simp add: since_def)
      ultimately show ?thesis using s z by (auto simp: since_def)
    next
      case False
      then have "(y, z) \<in> (graph_rel g)\<^sup>*" "\<exists>i. num t' z = Some i \<and> sccId t \<le> i"
        using \<open>since g y t t'\<close> z by (auto simp: since_def)
      with edge xt(3) show ?thesis by (meson converse_rtrancl_into_rtrancl le_trans)
    qed
    moreover have "scc_inv g t'" "set (visited s) \<subseteq> set (visited t')" "sccId s \<le> sccId t'"
      using True xt by (auto simp: since_def)
    ultimately show ?thesis by (simp add: since_def)
  qed
  then have "scc_inv g t'" "x \<in> set (visited t')" "y \<in> set (visited t')"
    by (auto simp: since_def)
  from scc_inv_update [OF this edge] obtain u where u: "updateLowLink x y t' = Inr u"
    "scc_inv g u" "visited u = visited t'" "sccId u = sccId t'" "sccStack u = sccStack t'"
    "ids u = ids t'" "\<forall>z. z \<noteq> x \<longrightarrow> low u z = low t' z" by blast
  have "\<forall>z \<in> set (visited s). low u z = low t' z" using x u(7) by auto
  with u st' show ?thesis by (auto simp: since_def)
qed

lemma followNode_spec:
  assumes g: "graph_ok g"
  shows "x \<in> node_set g \<Longrightarrow> scc_inv g s \<Longrightarrow> x \<notin> set (visited s) \<Longrightarrow>
    card (node_set g - set (visited s)) < k \<Longrightarrow>
    \<exists>t. followNode k g x s = Inr t \<and> since g x s t"
proof (induction k arbitrary: x s)
  case 0
  then show ?case by simp
next
  case (Suc k)
  let ?body = "\<lambda>child s. res_bind (followNode k g child s) (updateLowLink x child)"
  define cs where "cs = map cto (filter (\<lambda>c. cfrom c = x) (map_values (gConnections g)))"
  have cs: "(x, y) \<in> graph_rel g" if "y \<in> set cs" for y
    using that by (auto simp: cs_def graph_rel_iff conns_def)
  note opened = since_open [OF Suc.prems(2,1,3)]
  have "\<exists>t. res_fold ?body cs (openNode x s) = Inr t \<and>
      (since g x s t \<and> num t x = Some (sccId s))"
  proof (rule res_fold_total)
    show "since g x s (openNode x s) \<and> num (openNode x s) x = Some (sccId s)"
      using opened by simp
    fix y t
    assume y: "y \<in> set cs" and t: "since g x s t \<and> num t x = Some (sccId s)"
    have yn: "y \<in> node_set g" using graph_rel_nodes [OF g cs [OF y]] by simp
    have inv: "scc_inv g t" "x \<in> set (visited t)" "set (visited s) \<subseteq> set (visited t)"
      using t by (auto simp: since_def)
    have "node_set g - set (visited t) \<subset> node_set g - set (visited s)"
      using inv Suc.prems(1,3) by auto
    then have "card (node_set g - set (visited t)) < card (node_set g - set (visited s))"
      by (intro psubset_card_mono) auto
    with Suc.prems(4) have k: "card (node_set g - set (visited t)) < k" by simp
    then obtain k' where "k = Suc k'" by (cases k) auto
    then have "\<exists>t'. followNode k g y t = Inr t' \<and> (t' = t \<and> y \<in> set (visited t) \<or> since g y t t')"
      using Suc.IH [OF yn inv(1) _ k] by (cases "y \<in> set (visited t)") auto
    then obtain t' where t': "followNode k g y t = Inr t'"
      "t' = t \<and> y \<in> set (visited t) \<or> since g y t t'" by blast
    from since_child [OF _ t'(2) cs [OF y] _ Suc.prems(3)] t
    show "\<exists>u. ?body y t = Inr u \<and> since g x s u \<and> num u x = Some (sccId s)"
      using t'(1) by auto
  qed
  then obtain t where t: "res_fold ?body cs (openNode x s) = Inr t" "since g x s t"
    "num t x = Some (sccId s)" by blast
  from since_close [OF t(2) Suc.prems(2) t(3) Suc.prems(3)] t(1)
  show ?case
    using Suc.prems(3) directChildren [OF g Suc.prems(1)] by (auto simp: cs_def)
qed

lemma getStronglyConnectedComponents_sound:
  assumes g: "graph_ok g" and k: "card (node_set g) < k"
  shows "\<exists>Cs. getStronglyConnectedComponents k g = Inr Cs \<and> (\<forall>C \<in> set Cs. strong g C) \<and>
    distinct (concat Cs)"
proof -
  have "\<exists>t. res_fold (followNode k g) (map_values (gNodes g)) initial_scc = Inr t \<and> scc_inv g t"
  proof (rule res_fold_total)
    show "scc_inv g initial_scc" by (simp add: scc_inv_def initial_scc_def)
    fix x s
    assume x: "x \<in> set (map_values (gNodes g))" and s: "scc_inv g s"
    have "card (node_set g - set (visited s)) \<le> card (node_set g)" by (intro card_mono) auto
    then have k': "card (node_set g - set (visited s)) < k" using k by simp
    then obtain k'' where "k = Suc k''" by (cases k) auto
    then show "\<exists>t. followNode k g x s = Inr t \<and> scc_inv g t"
      using followNode_spec [OF g _ s _ k', of x] x s
      by (cases "x \<in> set (visited s)") (auto simp: node_set_def since_def)
  qed
  then show ?thesis
    by (auto simp: getStronglyConnectedComponents_def scc_inv_def)
qed

section \<open>Properties\<close>

definition main_conn :: "INode \<Rightarrow> INode \<Rightarrow> GraphConnection" where
  "main_conn a b = \<lparr>cfrom = a, cto = b, ctype = Main, outputIndex = 0, inputIndex = 0\<rparr>"

text \<open>A graph of plain nodes with the given edges, for examples.\<close>

definition graph_of :: "INode list \<Rightarrow> (INode \<times> INode) list \<Rightarrow> DirectedGraph" where
  "graph_of ns es =
     \<lparr>gNodes = map (\<lambda>n. (nodeName n, n)) ns,
      gConnections = map (\<lambda>(a, b). (makeKey (main_conn a b), main_conn a b)) es\<rparr>"

abbreviation node_a :: INode where "node_a \<equiv> plain_node 0 ''a'' ''t''"
abbreviation node_b :: INode where "node_b \<equiv> plain_node 1 ''b'' ''t''"
abbreviation node_c :: INode where "node_c \<equiv> plain_node 2 ''c'' ''t''"
abbreviation node_d :: INode where "node_d \<equiv> plain_node 3 ''d'' ''t''"

lemmas graph_of_simps =
  graph_of_def main_conn_def makeKey_def show_nat.simps graph_ok_def filed_def conns_def
  node_set_def

definition loop_graph :: DirectedGraph where
  "loop_graph = graph_of [node_a, node_b] [(node_a, node_b), (node_b, node_a)]"

lemma loop_graph_ok: "graph_ok loop_graph" "card (node_set loop_graph) < 3"
  by (simp_all add: loop_graph_def graph_of_simps card_insert_if)

text \<open>
  On a well-formed graph, with a stack deeper than the number of nodes, the search for
  strongly connected components returns; every component that it reports is a non-empty set of
  nodes that all reach each other, and no node is in two components.
\<close>

theorem components_strong_disjoint:
  assumes "graph_ok g" and "card (node_set g) < k"
  shows "\<exists>Cs. getStronglyConnectedComponents k g = Inr Cs \<and>
    (\<forall>C \<in> set Cs. C \<noteq> [] \<and> (\<forall>a \<in> set C. \<forall>b \<in> set C. (a, b) \<in> (graph_rel g)\<^sup>*)) \<and>
    distinct (concat Cs)"
  using getStronglyConnectedComponents_sound [OF assms] unfolding strong_def by blast

theorem components_strong_disjoint_witness:
  "\<exists>Cs. getStronglyConnectedComponents 3 loop_graph = Inr Cs \<and>
    (\<forall>C \<in> set Cs. C \<noteq> [] \<and> (\<forall>a \<in> set C. \<forall>b \<in> set C. (a, b) \<in> (graph_rel loop_graph)\<^sup>*)) \<and>
    distinct (concat Cs)"
  by (rule components_strong_disjoint [OF loop_graph_ok])

text \<open>
  Not every strongly connected component is reported: of the nodes a, b and c with edges
  a to b, b to c, c to b and b to a, all reach each other, but the search returns no component
  at all, because the loop that pops a component stops at the node c, whose low-link value is
  that of b.
\<close>

definition nested_loops :: DirectedGraph where
  "nested_loops = graph_of [node_a, node_b, node_c]
     [(node_a, node_b), (node_b, node_c), (node_c, node_b), (node_b, node_a)]"

theorem components_incomplete:
  "graph_ok nested_loops \<and> strong nested_loops [node_a, node_b, node_c] \<and>
   getStronglyConnectedComponents 4 nested_loops = Inr []"
proof (intro conjI)
  show "graph_ok nested_loops"
    by (simp add: nested_loops_def graph_of_simps)
  have e: "(node_a, node_b) \<in> graph_rel nested_loops" "(node_b, node_c) \<in> graph_rel nested_loops"
    "(node_c, node_b) \<in> graph_rel nested_loops" "(node_b, node_a) \<in> graph_rel nested_loops"
    by (simp_all add: nested_loops_def graph_of_def graph_rel_iff conns_def main_conn_def)
  have "(node_a, node_c) \<in> (graph_rel nested_loops)\<^sup>*" "(node_c, node_a) \<in> (graph_rel nested_loops)\<^sup>*"
    using e by (meson r_into_rtrancl rtrancl_trans)+
  with e show "strong nested_loops [node_a, node_b, node_c]"
    by (auto simp: strong_def)
  show "getStronglyConnectedComponents 4 nested_loops = Inr []"
    by (simp add: nested_loops_def getStronglyConnectedComponents_def graph_of_def main_conn_def
        makeKey_def show_nat.simps eval_nat_numeral getDirectChildConnections_def
        containsNode_def openNode_def closeNode_def updateLowLink_def popComponent.simps
        initial_scc_def set_add_def)
qed

end
