(* ===== verification/Workflow_Queries.thy ===== *)
theory Workflow_Queries
  imports Workflow_Class
begin

text \<open>
  The searches of the class Workflow over its connections: the nodes before and after a node.
\<close>


section \<open>Connected nodes\<close>

text \<open>The parameter \<open>connectionType\<close>: one type, \<open>'ALL'\<close> or \<open>'ALL_NON_MAIN'\<close>.\<close>

datatype ConnectionSelector = OfType NodeConnectionType | AllTypes | AllNonMain

definition selectedTypes :: "INodeConnections \<Rightarrow> ConnectionSelector \<Rightarrow> NodeConnectionType list" where
  "selectedTypes nc sel =
     (case sel of
        AllTypes \<Rightarrow> map_keys nc
      | AllNonMain \<Rightarrow> filter (\<lambda>t. t \<noteq> Main) (map_keys nc)
      | OfType t \<Rightarrow> [t])"

text \<open>All connections of an array, group by group; \<open>null\<close> groups and holes are skipped.\<close>

definition all_groups :: "NodeInputConnections \<Rightarrow> IConnection list" where
  "all_groups arr = concat (map (\<lambda>g. case g of None \<Rightarrow> [] | Some l \<Rightarrow> l) arr)"

text \<open>
  Moving the nodes found below a node to the front of the result, from the last to the first:
  an earlier occurrence is removed, so that the order stays correct.
\<close>

definition moveToFront :: "string list \<Rightarrow> string list \<Rightarrow> string list" where
  "moveToFront addNodes ret = foldr (\<lambda>x r. x # remove1 x r) addNodes ret"

primrec getConnectedNodes ::
  "nat \<Rightarrow> IConnections \<Rightarrow> string \<Rightarrow> ConnectionSelector \<Rightarrow> int \<Rightarrow> string list \<Rightarrow> string list res"
  where
  "getConnectedNodes 0 conns name sel depth checked = Inl RangeError"
| "getConnectedNodes (Suc k) conns name sel depth checked =
     (let newDepth = (if depth = -1 then depth else depth - 1)
      in if depth = 0 then Inr []
      else (case map_get conns name of
          None \<Rightarrow> Inr []
        | Some nc \<Rightarrow>
            res_fold (\<lambda>t ret. case map_get nc t of
                None \<Rightarrow> Inr ret
              | Some arr \<Rightarrow>
                  if name \<in> set checked then Inr ret
                  else (let checked' = checked @ [name]
                    in res_fold (\<lambda>c ret.
                        if connNode c \<in> set checked' then Inr ret
                        else res_bind
                          (getConnectedNodes k conns (connNode c) sel newDepth checked')
                          (\<lambda>addNodes. Inr (moveToFront addNodes (connNode c # ret))))
                      (all_groups arr) ret))
              (selectedTypes nc sel) []))"

definition getChildNodes ::
  "nat \<Rightarrow> Workflow \<Rightarrow> string \<Rightarrow> ConnectionSelector \<Rightarrow> int \<Rightarrow> string list res" where
  "getChildNodes k w name sel depth =
     getConnectedNodes k (connectionsBySourceNode w) name sel depth []"

definition getParentNodes ::
  "nat \<Rightarrow> Workflow \<Rightarrow> string \<Rightarrow> ConnectionSelector \<Rightarrow> int \<Rightarrow> string list res" where
  "getParentNodes k w name sel depth =
     getConnectedNodes k (connectionsByDestinationNode w) name sel depth []"

text \<open>The connections of the selected types as a relation between node names.\<close>

definition selected_conns :: "IConnections \<Rightarrow> ConnectionSelector \<Rightarrow> string \<Rightarrow> IConnection list" where
  "selected_conns conns sel name =
     (case map_get conns name of
        None \<Rightarrow> []
      | Some nc \<Rightarrow> concat (map (\<lambda>t. case map_get nc t of None \<Rightarrow> [] | Some arr \<Rightarrow> all_groups arr)
            (selectedTypes nc sel)))"

definition conn_rel :: "IConnections \<Rightarrow> ConnectionSelector \<Rightarrow> (string \<times> string) set" where
  "conn_rel conns sel = {(a, b). \<exists>c \<in> set (selected_conns conns sel a). connNode c = b}"

lemma set_moveToFront: "set (moveToFront xs r) = set xs \<union> set r"
proof (induction xs)
  case Nil
  then show ?case by (simp add: moveToFront_def)
next
  case (Cons x xs)
  let ?m = "moveToFront xs r"
  have "insert x (set (remove1 x ?m)) = insert x (set ?m)"
    using set_remove1_subset [of x ?m] in_set_remove1 [of _ x ?m] by blast
  with Cons show ?case by (simp add: moveToFront_def)
qed

lemma res_fold_concat:
  "res_fold (\<lambda>x. res_fold f (g x)) xs s = res_fold f (concat (map g xs)) s"
  by (induction xs arbitrary: s) (auto simp: res_fold_append res_bind_def split: sum.split)

text \<open>The recursion as one loop over the selected connections.\<close>

lemma getConnectedNodes_loop:
  assumes "name \<notin> set checked"
  shows "getConnectedNodes (Suc k) conns name sel (-1) checked =
    res_fold (\<lambda>c ret.
        if connNode c \<in> set (checked @ [name]) then Inr ret
        else res_bind (getConnectedNodes k conns (connNode c) sel (-1) (checked @ [name]))
          (\<lambda>addNodes. Inr (moveToFront addNodes (connNode c # ret))))
      (selected_conns conns sel name) []"
proof (cases "map_get conns name")
  case None
  then show ?thesis by (simp add: selected_conns_def)
next
  case (Some nc)
  let ?body = "\<lambda>c ret.
        if connNode c \<in> set (checked @ [name]) then Inr ret
        else res_bind (getConnectedNodes k conns (connNode c) sel (-1) (checked @ [name]))
          (\<lambda>addNodes. Inr (moveToFront addNodes (connNode c # ret)))"
  have "getConnectedNodes (Suc k) conns name sel (-1) checked =
      res_fold (\<lambda>t ret. case map_get nc t of None \<Rightarrow> Inr ret
        | Some arr \<Rightarrow> res_fold ?body (all_groups arr) ret) (selectedTypes nc sel) []"
    using Some assms by (simp add: Let_def cong: option.case_cong)
  also have "(\<lambda>t ret. case map_get nc t of None \<Rightarrow> Inr ret | Some arr \<Rightarrow> res_fold ?body (all_groups arr) ret)
      = (\<lambda>t. res_fold ?body (case map_get nc t of None \<Rightarrow> [] | Some arr \<Rightarrow> all_groups arr))"
    by (auto simp: fun_eq_iff split: option.split)
  finally show ?thesis
    using Some by (simp add: selected_conns_def res_fold_concat)
qed

lemma getConnectedNodes_spec:
  assumes "name \<notin> set checked"
    and "card (set (map_keys conns) - set checked) < k"
  shows "\<exists>ret. getConnectedNodes k conns name sel (-1) checked = Inr ret \<and>
     set ret = below (conn_rel conns sel) (set checked) name"
  using assms
proof (induction k arbitrary: name checked)
  case 0
  then show ?case by simp
next
  case (Suc k)
  let ?A = "insert name (set checked)" and ?R = "conn_rel conns sel"
  show ?case
  proof (cases "name \<in> set (map_keys conns)")
    case False
    then have none: "map_get conns name = None" by (simp add: map_of_eq_None_iff)
    then have "selected_conns conns sel name = []" by (simp add: selected_conns_def)
    then have "below ?R (set checked) name = {}"
      using below_split [OF Suc.prems(1), of ?R] by (auto simp: conn_rel_def)
    with none show ?thesis by simp
  next
    case True
    have "set (map_keys conns) - ?A \<subset> set (map_keys conns) - set checked"
      using True Suc.prems(1) by auto
    then have "card (set (map_keys conns) - ?A) < card (set (map_keys conns) - set checked)"
      by (intro psubset_card_mono) auto
    with Suc.prems(2) have k: "card (set (map_keys conns) - set (checked @ [name])) < k" by simp
    let ?found = "\<lambda>cs. \<Union>c \<in> {c \<in> set cs. connNode c \<notin> ?A}.
        insert (connNode c) (below ?R ?A (connNode c))"
    have "\<exists>ret. getConnectedNodes (Suc k) conns name sel (-1) checked = Inr ret \<and>
        set ret = ?found (selected_conns conns sel name)"
      unfolding getConnectedNodes_loop [OF Suc.prems(1)]
    proof (rule res_fold_prefix [where P = "\<lambda>cs ret. set ret = ?found cs"])
      show "set [] = ?found []" by simp
      fix ys c zs and ret :: "string list"
      assume ret: "set ret = ?found ys"
      show "\<exists>t. (if connNode c \<in> set (checked @ [name]) then Inr ret
          else res_bind (getConnectedNodes k conns (connNode c) sel (-1) (checked @ [name]))
            (\<lambda>addNodes. Inr (moveToFront addNodes (connNode c # ret)))) = Inr t \<and>
          set t = ?found (ys @ [c])"
      proof (cases "connNode c \<in> ?A")
        case True
        with ret show ?thesis by auto
      next
        case False
        then obtain add where "getConnectedNodes k conns (connNode c) sel (-1) (checked @ [name]) = Inr add"
          "set add = below ?R ?A (connNode c)"
          using Suc.IH [OF _ k, of "connNode c"] by auto
        with False ret show ?thesis by (auto simp: set_moveToFront)
      qed
    qed
    moreover have "?found (selected_conns conns sel name) = below ?R (set checked) name"
      unfolding below_split [OF Suc.prems(1)] by (auto simp: conn_rel_def)
    ultimately show ?thesis by simp
  qed
qed

text \<open>Nodes are never listed for themselves; otherwise the result is the transitive closure.\<close>

theorem getConnectedNodes_reach:
  assumes "length conns < k"
  shows "\<exists>ret. getConnectedNodes k conns name sel (-1) [] = Inr ret \<and>
     set ret = {y. y \<noteq> name \<and> (name, y) \<in> (conn_rel conns sel)\<^sup>+}"
proof -
  have "card (set (map_keys conns)) \<le> length conns"
    using card_length [of "map_keys conns"] by simp
  with assms getConnectedNodes_spec [of name "[]" conns k sel] show ?thesis
    by (simp add: below_empty)
qed

end
