(* ===== verification/Partial_Execution.thy ===== *)
theory Partial_Execution
  imports Strong_Components Workflow_Queries
begin

text \<open>
  The functions of packages/core/src/execution-engine/partial-execution-utils that
  prepare the execution of a part of a workflow: which trigger, which part of the graph, where
  to start, which recorded data to keep, and the execution stack to start with.
\<close>


section \<open>Recorded data of a node\<close>

text \<open>
  \<open>data?.[connectionType].at(outputIndex)\<close> throws when the run has data but none of that
  connection type; every other missing part gives \<open>null\<close>.
\<close>

definition getIncomingData ::
  "IRunData \<Rightarrow> string \<Rightarrow> int \<Rightarrow> NodeConnectionType \<Rightarrow> int \<Rightarrow> INodeExecutionData list option res" where
  "getIncomingData runData name runIndex type outIndex =
     (case map_get runData name of None \<Rightarrow> Inr None
      | Some runs \<Rightarrow> (case arr_at runs runIndex of None \<Rightarrow> Inr None
        | Some run \<Rightarrow> (case taskData run of None \<Rightarrow> Inr None
          | Some data \<Rightarrow> (case map_get data type of None \<Rightarrow> Inl TypeError
            | Some outs \<Rightarrow> (case arr_at outs outIndex of None \<Rightarrow> Inr None
              | Some slot \<Rightarrow> Inr (slot_option slot))))))"

definition getRunIndexLength :: "IRunData \<Rightarrow> string \<Rightarrow> nat" where
  "getRunIndexLength runData name =
     (case map_get runData name of None \<Rightarrow> 0 | Some runs \<Rightarrow> length runs)"

primrec anyRun ::
  "nat list \<Rightarrow> IRunData \<Rightarrow> string \<Rightarrow> NodeConnectionType \<Rightarrow> nat \<Rightarrow>
   (INodeExecutionData list \<times> nat) option res" where
  "anyRun [] runData name type outIndex = Inr None"
| "anyRun (i # is) runData name type outIndex =
     res_bind (getIncomingData runData name (int i) type (int outIndex)) (\<lambda>data.
       case data of
         Some (item # items) \<Rightarrow> Inr (Some (item # items, i))
       | _ \<Rightarrow> anyRun is runData name type outIndex)"

definition getIncomingDataFromAnyRun ::
  "IRunData \<Rightarrow> string \<Rightarrow> NodeConnectionType \<Rightarrow> nat \<Rightarrow>
   (INodeExecutionData list \<times> nat) option res" where
  "getIncomingDataFromAnyRun runData name type outIndex =
     anyRun [0..<getRunIndexLength runData name] runData name type outIndex"


section \<open>Start nodes\<close>

definition isDirty :: "INode \<Rightarrow> IRunData \<Rightarrow> IPinData \<Rightarrow> bool" where
  "isDirty node runData pinData \<longleftrightarrow>
     (if map_get pinData (nodeName node) \<noteq> None then False
      else if map_get runData (nodeName node) \<noteq> None then False
      else True)"

definition splitInBatches :: string where
  "splitInBatches = ''n8n-nodes-base.splitInBatches''"

text \<open>The check that the \<open>done\<close> output of a loop node has no data on the last run.\<close>

definition loopNotDone :: "INode \<Rightarrow> IRunData \<Rightarrow> bool res" where
  "loopNotDone current runData =
     (if nodeType current = splitInBatches
      then res_bind (getIncomingData runData (nodeName current) (-1) Main 0)
        (\<lambda>d. Inr (case d of None \<Rightarrow> True | Some items \<Rightarrow> length items = 0))
      else Inr False)"

primrec findStartNodesRecursive ::
  "nat \<Rightarrow> DirectedGraph \<Rightarrow> INode \<Rightarrow> INode \<Rightarrow> IRunData \<Rightarrow> IPinData \<Rightarrow> INode list \<Rightarrow> INode list \<Rightarrow>
   INode list res" where
  "findStartNodesRecursive 0 graph current destination runData pinData startNodes seen =
     Inl RangeError"
| "findStartNodesRecursive (Suc k) graph current destination runData pinData startNodes seen =
     (if isDirty current runData pinData then Inr (set_add current startNodes)
      else if current = destination then Inr (set_add current startNodes)
      else res_bind (loopNotDone current runData) (\<lambda>notDone.
        if notDone then Inr (set_add current startNodes)
        else if current \<in> set seen then Inr startNodes
        else res_bind (getDirectChildConnections graph current) (\<lambda>outGoing.
          res_fold (\<lambda>c startNodes.
              res_bind (getIncomingDataFromAnyRun runData (nodeName (cfrom c)) (ctype c)
                  (outputIndex c)) (\<lambda>d.
                if d = None then Inr startNodes
                else findStartNodesRecursive k graph (cto c) destination runData pinData
                       startNodes (set_add current seen)))
            outGoing startNodes)))"

definition findStartNodes ::
  "nat \<Rightarrow> DirectedGraph \<Rightarrow> INode \<Rightarrow> INode \<Rightarrow> IPinData \<Rightarrow> IRunData \<Rightarrow> INode list res" where
  "findStartNodes k graph trigger destination pinData runData =
     findStartNodesRecursive k graph trigger destination runData pinData [] []"


section \<open>The subgraph\<close>

definition keepBranch :: "GraphConnection list \<Rightarrow> DirectedGraph \<Rightarrow> DirectedGraph res" where
  "keepBranch =
     res_fold (\<lambda>c g. addConnection (addNodes g [cfrom c, cto c]) (connection_input c))"

primrec findSubgraphRecursive ::
  "nat \<Rightarrow> DirectedGraph \<Rightarrow> INode \<Rightarrow> INode \<Rightarrow> INode \<Rightarrow> GraphConnection list \<Rightarrow> DirectedGraph \<Rightarrow>
   DirectedGraph res" where
  "findSubgraphRecursive 0 graph destinationNode current trigger currentBranch newGraph =
     Inl RangeError"
| "findSubgraphRecursive (Suc k) graph destinationNode current trigger currentBranch newGraph =
     (if current = trigger then keepBranch currentBranch newGraph
      else res_bind (getDirectParentConnections graph current) (\<lambda>parentConnections.
        if length parentConnections = 0 then Inr newGraph
        else if current = destinationNode \<and> (\<exists>c \<in> set currentBranch. cto c = destinationNode)
        then Inr newGraph
        else if \<exists>c \<in> set currentBranch. cto c = current then keepBranch currentBranch newGraph
        else res_fold (\<lambda>p newGraph.
            if ctype p \<noteq> Main then Inr newGraph
            else findSubgraphRecursive k graph destinationNode (cfrom p) trigger
                   (currentBranch @ [p]) newGraph)
          parentConnections newGraph))"

text \<open>
  The loop over the nodes of the subgraph, which also visits the nodes that it adds: \<open>i\<close> is the
  position of the iterator. The first argument bounds the number of iterations; running out of
  it is no behaviour of the code.
\<close>

definition addUtilityConnections ::
  "nat \<Rightarrow> DirectedGraph \<Rightarrow> INode \<Rightarrow> DirectedGraph \<Rightarrow> DirectedGraph res" where
  "addUtilityConnections k graph node subgraph =
     res_bind (getParentConnections k graph node) (\<lambda>parentConnections.
       res_fold (\<lambda>c g. if ctype c = Main then Inr g
           else addConnection (addNodes g [cfrom c, cto c]) (connection_input c))
         parentConnections subgraph)"

primrec utilityLoop ::
  "nat \<Rightarrow> nat \<Rightarrow> DirectedGraph \<Rightarrow> nat \<Rightarrow> DirectedGraph \<Rightarrow> DirectedGraph res" where
  "utilityLoop 0 k graph i subgraph = Inl RangeError"
| "utilityLoop (Suc n) k graph i subgraph =
     (case arr_get (map_values (getNodes subgraph)) i of
        None \<Rightarrow> Inr subgraph
      | Some node \<Rightarrow>
          res_bind (addUtilityConnections k graph node subgraph)
            (utilityLoop n k graph (Suc i)))"

definition findSubgraph :: "nat \<Rightarrow> DirectedGraph \<Rightarrow> INode \<Rightarrow> INode \<Rightarrow> DirectedGraph res" where
  "findSubgraph k graph destination trigger =
     res_bind (findSubgraphRecursive k graph destination destination trigger [] emptyGraph)
       (utilityLoop k k graph 0)"


section \<open>Disabled nodes, cycles and run data\<close>

text \<open>The loop removes only the node that it is at, so it visits the nodes of the copy.\<close>

definition filterDisabledNodes :: "DirectedGraph \<Rightarrow> DirectedGraph res" where
  "filterDisabledNodes graph =
     res_bind (clone graph) (\<lambda>filteredGraph.
       res_fold (\<lambda>node g. if disabled node = Some True
           then res_bind (removeNode g node True (Some (\<lambda>c. ctype c \<noteq> Main))) (\<lambda>(g', _). Inr g')
           else Inr g)
         (map_values (getNodes filteredGraph)) filteredGraph)"

definition handleCycles ::
  "nat \<Rightarrow> DirectedGraph \<Rightarrow> INode list \<Rightarrow> INode \<Rightarrow> INode list res" where
  "handleCycles k graph startNodes trigger =
     res_bind (getStronglyConnectedComponents k graph) (\<lambda>components.
       (let cycles = filter (\<lambda>cycle. length cycle \<ge> 1) components
        in if length cycles = 0 then Inr startNodes
        else res_fold (\<lambda>startNode newStartNodes.
            res_fold (\<lambda>cycle newStartNodes.
                if startNode \<in> set cycle
                then res_bind (depthFirstSearch k graph trigger (\<lambda>node. node \<in> set cycle))
                  (\<lambda>found. case found of
                     None \<Rightarrow> Inl AssertionError
                   | Some firstNode \<Rightarrow>
                       Inr (set_add firstNode (set_delete startNode newStartNodes)))
                else Inr newStartNodes)
              cycles newStartNodes)
          startNodes startNodes))"

definition cleanNode :: "nat \<Rightarrow> DirectedGraph \<Rightarrow> INode \<Rightarrow> IRunData \<Rightarrow> IRunData res" where
  "cleanNode k graph node runData =
     res_bind (getParentConnections k graph node) (\<lambda>subNodeConnections.
       Inr (fold (\<lambda>c rd. if ctype c = Main then rd else map_del (nodeName (cfrom c)) rd)
         subNodeConnections (map_del (nodeName node) runData)))"

definition cleanRunData ::
  "nat \<Rightarrow> IRunData \<Rightarrow> DirectedGraph \<Rightarrow> INode list \<Rightarrow> IRunData res" where
  "cleanRunData k runData graph startNodes =
     res_bind (res_fold (\<lambda>startNode rd.
         res_bind (getChildren k graph startNode) (\<lambda>children.
           res_fold (cleanNode k graph) (startNode # children)
             (map_del (nodeName startNode) rd)))
       startNodes runData)
     (\<lambda>rd. Inr (fold (\<lambda>name rd. if \<not> hasNode graph name then map_del name rd else rd)
         (map_keys rd) rd))"


section \<open>The trigger\<close>

text \<open>
  A node whose type is not registered throws in \<open>getByNameAndVersion\<close> or at the access of its
  description. The comparator of the final sort looks at its first argument only; for such a
  comparator the language leaves the resulting order to the implementation, so the sorted
  arrangement is the parameter \<open>arrange\<close>.
\<close>

definition trigger_group :: string where
  "trigger_group = ''trigger''"

definition findAllParentTriggers :: "nat \<Rightarrow> Workflow \<Rightarrow> string \<Rightarrow> INode list res" where
  "findAllParentTriggers k w destinationNodeName =
     res_bind (getParentNodes k w destinationNodeName (OfType Main) (-1)) (\<lambda>names.
     res_bind (res_fold (\<lambda>name acc. case getNode w name of
           None \<Rightarrow> Inl AssertionError
         | Some node \<Rightarrow> Inr (acc @ [(node, nodeTypes w (nodeType node) (typeVersion node))]))
       names []) (\<lambda>nodes.
     res_fold (\<lambda>(node, nt) acc. case nt of
           None \<Rightarrow> Inl TypeError
         | Some t \<Rightarrow> Inr (if trigger_group \<in> set (ntGroup t) then acc @ [node] else acc))
       nodes []))"

definition findTriggerForPartialExecution ::
  "(INode list \<Rightarrow> INode list) \<Rightarrow> nat \<Rightarrow> Workflow \<Rightarrow> string \<Rightarrow> INode option res" where
  "findTriggerForPartialExecution arrange k w destinationNodeName =
     res_bind (findAllParentTriggers k w destinationNodeName) (\<lambda>triggers.
       (let parentTriggers = filter (\<lambda>t. disabled t \<noteq> Some True) triggers;
            pinnedTriggers =
              arrange (filter (\<lambda>t. getPinDataOfNode w (nodeName t) \<noteq> None) parentTriggers)
        in Inr (if length pinnedTriggers > 0 then arr_get pinnedTriggers 0
                else arr_get parentTriggers 0)))"

end
