(* ===== verification/Execution_Stack.thy ===== *)
theory Execution_Stack
  imports Partial_Execution
begin

text \<open>
  The last part of partial-execution-utils: the groups of incoming connections of a node, the
  recreated execution stack, and the method \<open>runPartialWorkflow2\<close> of WorkflowExecute that
  composes all the steps.
\<close>


section \<open>Groups of incoming connections\<close>

text \<open>
  \<open>localeCompare\<close> depends on the locale of the host and is a parameter.
\<close>

definition sortByInputIndexThenByName ::
  "(string \<Rightarrow> string \<Rightarrow> int) \<Rightarrow> GraphConnection \<Rightarrow> GraphConnection \<Rightarrow> int" where
  "sortByInputIndexThenByName localeCompare connection1 connection2 =
     (if inputIndex connection1 = inputIndex connection2
      then localeCompare (nodeName (cfrom connection1)) (nodeName (cfrom connection2))
      else int (inputIndex connection1) - int (inputIndex connection2))"

record SourceConnectionGroup =
  complete :: bool
  groupConnections :: "GraphConnection list"

definition newGroup :: SourceConnectionGroup where
  "newGroup = \<lparr>complete = True, groupConnections = []\<rparr>"

text \<open>\<open>Math.min\<close> of the input indices that are left, minus one.\<close>

definition indexBefore :: "GraphConnection list \<Rightarrow> GraphConnection list \<Rightarrow> int" where
  "indexBefore withData withoutData =
     (case map inputIndex (withData @ withoutData) of
        [] \<Rightarrow> 0
      | i # is \<Rightarrow> int (fold min is i) - 1)"

lemma fold_min_mem: "fold min is (i::nat) \<in> set (i # is)"
proof (induction "is" arbitrary: i)
  case Nil
  then show ?case by simp
next
  case (Cons j js)
  show ?case using Cons [of "min j i"] by (auto simp: min_def split: if_splits)
qed

lemma indexBefore_mem:
  assumes "xs @ ys \<noteq> []"
  shows "\<exists>c \<in> set (xs @ ys). int (inputIndex c) = indexBefore xs ys + 1"
proof -
  from assms obtain i "is" where e: "map inputIndex (xs @ ys) = i # is"
    by (metis list.map_disc_iff neq_Nil_conv)
  have "fold min is i \<in> set (map inputIndex (xs @ ys))"
    using fold_min_mem [of "is" i] e by simp
  then obtain c where "c \<in> set (xs @ ys)" "inputIndex c = fold min is i"
    by (metis (no_types, lifting) imageE list.set_map)
  with e show ?thesis by (auto simp: indexBefore_def)
qed

text \<open>
  A step of the loop takes a connection or closes a group; after closing a group the next step
  takes one.
\<close>

definition group_measure :: "GraphConnection list \<Rightarrow> GraphConnection list \<Rightarrow> int \<Rightarrow> nat" where
  "group_measure xs ys i =
     2 * length (xs @ ys) + (if \<exists>c \<in> set (xs @ ys). int (inputIndex c) = i + 1 then 0 else 1)"

lemma group_measure_close:
  assumes "xs \<noteq> [] \<or> ys \<noteq> []" and "\<forall>c \<in> set (xs @ ys). int (inputIndex c) \<noteq> i + 1"
  shows "group_measure xs ys (indexBefore xs ys) < group_measure xs ys i"
  using assms indexBefore_mem [of xs ys] unfolding group_measure_def by auto

text \<open>The loop; its state is the two sorted arrays, the current group and input, and the groups.\<close>

function groupLoop ::
  "GraphConnection list \<Rightarrow> GraphConnection list \<Rightarrow> SourceConnectionGroup \<Rightarrow> int \<Rightarrow>
   SourceConnectionGroup list \<Rightarrow> SourceConnectionGroup list" where
  "groupLoop withData withoutData currentGroup currentInputIndex groups =
     (if length withData > 0 \<or> length withoutData > 0 then
        (case take_first (\<lambda>c. int (inputIndex c) = currentInputIndex + 1) withData of
           Some (connection, rest) \<Rightarrow>
             groupLoop rest withoutData
               (currentGroup\<lparr>groupConnections := groupConnections currentGroup @ [connection]\<rparr>)
               (currentInputIndex + 1) groups
         | None \<Rightarrow>
        (case take_first (\<lambda>c. int (inputIndex c) = currentInputIndex + 1) withoutData of
           Some (connection, rest) \<Rightarrow>
             groupLoop withData rest
               (currentGroup\<lparr>groupConnections := groupConnections currentGroup @ [connection],
                             complete := False\<rparr>)
               (currentInputIndex + 1) groups
         | None \<Rightarrow>
             groupLoop withData withoutData newGroup (indexBefore withData withoutData)
               (groups @ [currentGroup])))
      else groups @ [currentGroup])"
  by pat_completeness auto

termination
proof (relation "measure (\<lambda>(xs, ys, g, i, gs). group_measure xs ys i)", goal_cases)
  case 1
  then show ?case by simp
next
  case (2 xs ys g i gs)
  have "group_measure xs ys (indexBefore xs ys) < group_measure xs ys i"
    by (rule group_measure_close) (use 2 in \<open>auto simp: take_first_None\<close>)
  then show ?case by simp
next
  case 3
  then show ?case by (auto dest!: take_first_length simp: group_measure_def)
next
  case 4
  then show ?case by (auto dest!: take_first_length simp: group_measure_def)
qed

declare groupLoop.simps [simp del]

definition hasDataOf :: "IRunData \<Rightarrow> IPinData \<Rightarrow> GraphConnection \<Rightarrow> bool" where
  "hasDataOf runData pinnedData connection \<longleftrightarrow>
     map_get runData (nodeName (cfrom connection)) \<noteq> None \<or>
     map_get pinnedData (nodeName (cfrom connection)) \<noteq> None"

definition getSourceDataGroups ::
  "(string \<Rightarrow> string \<Rightarrow> int) \<Rightarrow> DirectedGraph \<Rightarrow> INode \<Rightarrow> IRunData \<Rightarrow> IPinData \<Rightarrow>
   SourceConnectionGroup list" where
  "getSourceDataGroups localeCompare graph node runData pinnedData =
     (let connections = getConnections graph (Some node);
          withData = filter (hasDataOf runData pinnedData) connections;
          withoutData = filter (\<lambda>c. \<not> hasDataOf runData pinnedData c) connections
      in if length withData = 0 \<and> length withoutData = 0 then []
         else (let sortedWith = sort_by (sortByInputIndexThenByName localeCompare) withData;
                   sortedWithout = sort_by (sortByInputIndexThenByName localeCompare) withoutData
           in groupLoop sortedWith sortedWithout newGroup
                (indexBefore sortedWith sortedWithout) []))"


section \<open>Waiting executions\<close>

text \<open>
  The two functions differ only in the type of what they file: an object per node, run index
  and connection type is created when it is missing, and the array is assigned at the input.
\<close>

definition addWaiting ::
  "(string, (nat, (NodeConnectionType, 'a slot list) js_map) js_map) js_map \<Rightarrow> string \<Rightarrow> nat \<Rightarrow>
   NodeConnectionType \<Rightarrow> nat \<Rightarrow> 'a option \<Rightarrow>
   (string, (nat, (NodeConnectionType, 'a slot list) js_map) js_map) js_map" where
  "addWaiting waiting name runIndex inputType inIndex data =
     (let waitingObject = (case map_get waiting name of None \<Rightarrow> [] | Some x \<Rightarrow> x);
          connections = (case map_get waitingObject runIndex of None \<Rightarrow> [] | Some x \<Rightarrow> x);
          dataList = (case map_get connections inputType of None \<Rightarrow> [] | Some x \<Rightarrow> x);
          dataList' = arr_put Hole dataList inIndex (case data of None \<Rightarrow> Null | Some x \<Rightarrow> Data x)
      in map_put name
           (map_put runIndex (map_put inputType dataList' connections) waitingObject) waiting)"

definition addWaitingExecution ::
  "IWaitingForExecution \<Rightarrow> string \<Rightarrow> nat \<Rightarrow> NodeConnectionType \<Rightarrow> nat \<Rightarrow>
   INodeExecutionData list option \<Rightarrow> IWaitingForExecution" where
  "addWaitingExecution = addWaiting"

definition addWaitingExecutionSource ::
  "IWaitingForExecutionSource \<Rightarrow> string \<Rightarrow> nat \<Rightarrow> NodeConnectionType \<Rightarrow> nat \<Rightarrow>
   ISourceData option \<Rightarrow> IWaitingForExecutionSource" where
  "addWaitingExecutionSource = addWaiting"


section \<open>The recreated stack\<close>

record RecreatedStack =
  rcStack :: "IExecuteData list"
  rcWaiting :: IWaitingForExecution
  rcWaitingSource :: IWaitingForExecutionSource

text \<open>The loop over the connections of a complete group: the data and the sources of its entry.\<close>

definition completeConnection ::
  "IRunData \<Rightarrow> IPinData \<Rightarrow> GraphConnection \<Rightarrow> INodeExecutionData list list \<times> ISourceData list \<Rightarrow>
   (INodeExecutionData list list \<times> ISourceData list) res" where
  "completeConnection runData pinData c = (\<lambda>(incomingData, sources).
     let name = nodeName (cfrom c);
         source = (\<lambda>runIndex. \<lparr>previousNode = name, previousNodeOutput = Some (outputIndex c),
                               previousNodeRun = Some runIndex\<rparr>)
     in case map_get pinData name of
          Some items \<Rightarrow> Inr (incomingData @ [items], sources @ [source 0])
        | None \<Rightarrow>
            if map_get runData name = None then Inl AssertionError
            else res_bind (getIncomingDataFromAnyRun runData name (ctype c) (outputIndex c))
              (\<lambda>d. case d of
                 Some (items, runIndex) \<Rightarrow>
                   Inr (incomingData @ [items], sources @ [source runIndex])
               | None \<Rightarrow> Inr (incomingData, sources @ [source 0])))"

definition mainEntry ::
  "INode \<Rightarrow> INodeExecutionData list list \<Rightarrow> ISourceData list option \<Rightarrow> IExecuteData" where
  "mainEntry node incomingData sources =
     \<lparr>execNode = node, execData = [(Main, map Data incomingData)], execMetadata = None,
      execSource = (case sources of None \<Rightarrow> None | Some s \<Rightarrow> Some [(Main, map Data s)])\<rparr>"

text \<open>The loop over the connections of an incomplete group.\<close>

definition waitingConnection ::
  "IRunData \<Rightarrow> string \<Rightarrow> nat \<Rightarrow> GraphConnection \<Rightarrow> RecreatedStack \<Rightarrow> RecreatedStack res" where
  "waitingConnection runData name nextRunIndex c s =
     res_bind (getIncomingDataFromAnyRun runData (nodeName (cfrom c)) (ctype c) (outputIndex c))
       (\<lambda>d. case d of
          None \<Rightarrow> Inr s
        | Some (items, _) \<Rightarrow> Inr (s\<lparr>
            rcWaiting := addWaitingExecution (rcWaiting s) name nextRunIndex (ctype c)
              (inputIndex c) (Some items),
            rcWaitingSource := addWaitingExecutionSource (rcWaitingSource s) name nextRunIndex
              (ctype c) (inputIndex c)
              (Some \<lparr>previousNode = nodeName (cfrom c), previousNodeOutput = Some (outputIndex c),
                     previousNodeRun = Some nextRunIndex\<rparr>)\<rparr>))"

definition stackGroup ::
  "IRunData \<Rightarrow> IPinData \<Rightarrow> INode \<Rightarrow> SourceConnectionGroup \<Rightarrow> RecreatedStack \<Rightarrow> RecreatedStack res"
  where
  "stackGroup runData pinData startNode sourceData s =
     (if complete sourceData then
        res_bind (res_fold (completeConnection runData pinData) (groupConnections sourceData) ([], []))
          (\<lambda>(incomingData, sources).
             Inr (s\<lparr>rcStack := rcStack s @ [mainEntry startNode incomingData (Some sources)]\<rparr>))
      else
        (let nextRunIndex = (case map_get (rcWaiting s) (nodeName startNode) of
               None \<Rightarrow> 0 | Some runs \<Rightarrow> length runs)
         in res_fold (waitingConnection runData (nodeName startNode) nextRunIndex)
              (groupConnections sourceData) s))"

definition stackStartNode ::
  "(string \<Rightarrow> string \<Rightarrow> int) \<Rightarrow> DirectedGraph \<Rightarrow> IRunData \<Rightarrow> IPinData \<Rightarrow> INode \<Rightarrow> RecreatedStack \<Rightarrow>
   RecreatedStack res" where
  "stackStartNode localeCompare graph runData pinData startNode s =
     res_bind (getDirectParentConnections graph startNode) (\<lambda>parents.
       if length (filter (\<lambda>c. ctype c = Main) parents) = 0
       then Inr (s\<lparr>rcStack := rcStack s @ [mainEntry startNode [[empty_item]] None]\<rparr>)
       else res_fold (stackGroup runData pinData startNode)
              (getSourceDataGroups localeCompare graph startNode runData pinData) s)"

definition recreateNodeExecutionStack ::
  "(string \<Rightarrow> string \<Rightarrow> int) \<Rightarrow> DirectedGraph \<Rightarrow> INode list \<Rightarrow> IRunData \<Rightarrow> IPinData \<Rightarrow>
   RecreatedStack res" where
  "recreateNodeExecutionStack localeCompare graph startNodes runData pinData =
     (if \<exists>node \<in> set (map_values (getNodes graph)). disabled node = Some True
      then Inl AssertionError
      else res_fold (stackStartNode localeCompare graph runData pinData) startNodes
             \<lparr>rcStack = [], rcWaiting = [], rcWaitingSource = []\<rparr>)"


section \<open>The partial execution\<close>

text \<open>
  \<open>runPartialWorkflow2\<close> up to the call of \<open>processRunExecutionData\<close>: the run data and the
  workflow that it is called with. \<open>omit\<close> is lodash's function.
\<close>

definition runPartialWorkflow2 ::
  "(string \<Rightarrow> string \<Rightarrow> int) \<Rightarrow> (INode list \<Rightarrow> INode list) \<Rightarrow> (IRunData \<Rightarrow> string list \<Rightarrow> IRunData) \<Rightarrow>
   getNodeParameters \<Rightarrow> nat \<Rightarrow> Workflow \<Rightarrow> IRunData \<Rightarrow> IPinData \<Rightarrow> string list \<Rightarrow> string option \<Rightarrow>
   (IRunExecutionData \<times> Workflow) res" where
  "runPartialWorkflow2 localeCompare arrange omit gnp k w runData pinData dirtyNodeNames
       destinationNodeName =
     (case destinationNodeName of
        None \<Rightarrow> Inl AssertionError
      | Some name \<Rightarrow>
        if name = [] then Inl AssertionError
        else (case getNode w name of
          None \<Rightarrow> Inl AssertionError
        | Some destination \<Rightarrow>
          res_bind (findTriggerForPartialExecution arrange k w name) (\<lambda>found.
          case found of
            None \<Rightarrow> Inl (ApplicationError ''The destination node is not connected to any trigger'')
          | Some trigger \<Rightarrow>
            res_bind (fromWorkflow w) (\<lambda>graph.
            res_bind (filterDisabledNodes graph) (\<lambda>filtered.
            res_bind (findSubgraph k filtered destination trigger) (\<lambda>graph.
            res_bind (findStartNodes k graph trigger destination pinData
                (omit runData dirtyNodeNames)) (\<lambda>starts.
            res_bind (handleCycles k graph starts trigger) (\<lambda>startNodes.
            res_bind (cleanRunData k (omit runData dirtyNodeNames) graph startNodes) (\<lambda>runData.
            res_bind (recreateNodeExecutionStack localeCompare graph startNodes runData pinData)
              (\<lambda>stack.
            res_bind (toWorkflow gnp (nodeTypes w) (executionOrder w) (wfPinData w) graph) (\<lambda>w'.
            Inr (\<lparr>startDestinationNode = Some name,
                  startRunNodeFilter = Some (map nodeName (map_values (getNodes graph))),
                  resultRunData = runData, resultPinData = Some pinData, resultError = None,
                  lastNodeExecuted = None, nodeExecutionStack = rcStack stack,
                  executionMetadata = [], waitingExecution = rcWaiting stack,
                  waitingExecutionSource = rcWaitingSource stack, waitTill = None\<rparr>, w'))))))))))))"

end
