(* ===== verification/Start_Nodes.thy ===== *)
theory Start_Nodes
  imports Partial_Execution
begin

text \<open>
  The start nodes of a partial execution: the recorded data that the search looks at, and the
  nodes that it finds, before and after start nodes in a cycle are replaced.
\<close>


section \<open>Recorded data\<close>

text \<open>Every run of the node with data has data of the connection type.\<close>

definition typed_runs :: "IRunData \<Rightarrow> string \<Rightarrow> NodeConnectionType \<Rightarrow> bool" where
  "typed_runs runData name type \<longleftrightarrow>
     (\<forall>runs. map_get runData name = Some runs \<longrightarrow>
        (\<forall>run \<in> set runs. \<forall>data. taskData run = Some data \<longrightarrow> map_get data type \<noteq> None))"

definition data_ok :: "DirectedGraph \<Rightarrow> IRunData \<Rightarrow> bool" where
  "data_ok g runData \<longleftrightarrow>
     (\<forall>c \<in> conns g. typed_runs runData (nodeName (cfrom c)) (ctype c)) \<and>
     (\<forall>n \<in> node_set g. nodeType n = splitInBatches \<longrightarrow> typed_runs runData (nodeName n) Main)"

lemma arr_at_mem: "arr_at xs i = Some x \<Longrightarrow> x \<in> set xs"
  by (auto simp: arr_at_def Let_def split: if_splits)

lemma getIncomingData_total:
  "typed_runs runData name type \<Longrightarrow> \<exists>d. getIncomingData runData name i type j = Inr d"
  unfolding typed_runs_def getIncomingData_def
  by (fastforce split: option.split dest!: arr_at_mem)

lemma anyRun_total:
  "typed_runs runData name type \<Longrightarrow> \<exists>d. anyRun is runData name type j = Inr d"
proof (induction "is")
  case Nil
  then show ?case by simp
next
  case (Cons i "is")
  then show ?case
    using getIncomingData_total [OF Cons.prems, of "int i" "int j"]
    by (auto split: option.split list.split)
qed

lemma getIncomingDataFromAnyRun_total:
  "typed_runs runData name type \<Longrightarrow> \<exists>d. getIncomingDataFromAnyRun runData name type j = Inr d"
  by (simp add: getIncomingDataFromAnyRun_def anyRun_total)

text \<open>The search for a run returns the first one whose output has an item.\<close>

definition empty_run :: "IRunData \<Rightarrow> string \<Rightarrow> NodeConnectionType \<Rightarrow> nat \<Rightarrow> nat \<Rightarrow> bool" where
  "empty_run runData name type j i \<longleftrightarrow>
     (\<exists>d. getIncomingData runData name (int i) type (int j) = Inr d \<and> (d = None \<or> d = Some []))"

lemma anyRun_Cons:
  "empty_run runData name type j i \<Longrightarrow>
     anyRun (i # is) runData name type j = anyRun is runData name type j"
  "getIncomingData runData name (int i) type (int j) = Inr (Some data) \<Longrightarrow> data \<noteq> [] \<Longrightarrow>
     anyRun (i # is) runData name type j = Inr (Some (data, i))"
  by (auto simp: empty_run_def split: list.split)

lemma anyRun_head:
  assumes "anyRun (i # is) runData name type j = Inr r"
  shows "empty_run runData name type j i \<or>
     (\<exists>data. getIncomingData runData name (int i) type (int j) = Inr (Some data) \<and> data \<noteq> [])"
proof -
  from assms obtain d where "getIncomingData runData name (int i) type (int j) = Inr d"
    by (auto simp: res_bind_Inr_iff)
  then show ?thesis by (cases d) (auto simp: empty_run_def)
qed

lemma anyRun_None:
  "anyRun is runData name type j = Inr None \<Longrightarrow> \<forall>i \<in> set is. empty_run runData name type j i"
proof (induction "is")
  case (Cons i "is")
  then show ?case using anyRun_Cons anyRun_head [OF Cons.prems] by fastforce
qed simp

lemma anyRun_Some:
  "anyRun is runData name type j = Inr (Some (data, i)) \<Longrightarrow>
   \<exists>before after. is = before @ i # after \<and> data \<noteq> [] \<and>
     getIncomingData runData name (int i) type (int j) = Inr (Some data) \<and>
     (\<forall>i' \<in> set before. empty_run runData name type j i')"
proof (induction "is")
  case (Cons h "is")
  show ?case
  proof (cases "empty_run runData name type j h")
    case True
    have "anyRun is runData name type j = Inr (Some (data, i))"
      using Cons.prems anyRun_Cons(1) [OF True, of "is"] by simp
    from Cons.IH [OF this] obtain before after where "is = before @ i # after" "data \<noteq> []"
      "getIncomingData runData name (int i) type (int j) = Inr (Some data)"
      "\<forall>i' \<in> set before. empty_run runData name type j i'" by blast
    with True show ?thesis by (intro exI [of _ "h # before"] exI [of _ after]) auto
  next
    case False
    with Cons.prems obtain d where
      "getIncomingData runData name (int h) type (int j) = Inr (Some d)" "d \<noteq> []"
      using anyRun_head [OF Cons.prems] by blast
    with Cons.prems show ?thesis
      using anyRun_Cons(2) [of runData name h type j d "is"] by (intro exI [of _ "[]"] exI [of _ "is"]) auto
  qed
qed simp

definition has_data :: "IRunData \<Rightarrow> GraphConnection \<Rightarrow> bool" where
  "has_data runData c \<longleftrightarrow>
     (\<exists>d. getIncomingDataFromAnyRun runData (nodeName (cfrom c)) (ctype c) (outputIndex c) =
        Inr (Some d))"


section \<open>Finding the start nodes\<close>

text \<open>
  A branch ends at a node that is dirty, is the destination, or is an unfinished loop;
  otherwise it goes on along the connections that have data.
\<close>

definition stops :: "IRunData \<Rightarrow> IPinData \<Rightarrow> INode \<Rightarrow> INode \<Rightarrow> bool" where
  "stops runData pinData destination n \<longleftrightarrow>
     isDirty n runData pinData \<or> n = destination \<or> loopNotDone n runData = Inr True"

definition follows :: "DirectedGraph \<Rightarrow> IRunData \<Rightarrow> IPinData \<Rightarrow> INode \<Rightarrow> (INode \<times> INode) set" where
  "follows g runData pinData destination =
     {(cfrom c, cto c) | c. c \<in> conns g \<and> has_data runData c \<and>
        \<not> stops runData pinData destination (cfrom c)}"

lemma loopNotDone_total:
  "data_ok g runData \<Longrightarrow> n \<in> node_set g \<Longrightarrow> \<exists>b. loopNotDone n runData = Inr b"
  using getIncomingData_total [of runData "nodeName n" Main "-1" 0]
  by (auto simp: data_ok_def loopNotDone_def)

lemma findStartNodesRecursive_spec:
  assumes g: "graph_ok g" and rd: "data_ok g runData"
  shows "x \<in> node_set g \<Longrightarrow> \<forall>n \<in> set seen. \<not> stops runData pinData dest n \<Longrightarrow>
    card (node_set g - set seen) < k \<Longrightarrow>
    \<exists>T. findStartNodesRecursive k g x dest runData pinData S seen = Inr T \<and>
      (distinct S \<longrightarrow> distinct T) \<and>
      set T = set S \<union> {n. stops runData pinData dest n \<and>
        (x, n) \<in> (avoiding (follows g runData pinData dest) (set seen))\<^sup>*}"
proof (induction k arbitrary: x seen S)
  case 0
  then show ?case by simp
next
  case (Suc k)
  let ?F = "follows g runData pinData dest" and ?stops = "stops runData pinData dest"
  from loopNotDone_total [OF rd Suc.prems(1)] obtain b where b: "loopNotDone x runData = Inr b"
    by blast
  show ?case
  proof (cases "?stops x")
    case True
    have "y = x" if "(x, y) \<in> (avoiding ?F (set seen))\<^sup>*" for y
      using that True by (cases rule: converse_rtranclE) (auto simp: avoiding_def follows_def)
    then have "{n. ?stops n \<and> (x, n) \<in> (avoiding ?F (set seen))\<^sup>*} = {x}"
      using True by auto
    with True b show ?thesis by (auto simp: stops_def)
  next
    case False
    show ?thesis
    proof (cases "x \<in> set seen")
      case True
      then have none: "{n. ?stops n \<and> (x, n) \<in> (avoiding ?F (set seen))\<^sup>*} = {}"
        using False avoiding_stuck by fastforce
      have "findStartNodesRecursive (Suc k) g x dest runData pinData S seen = Inr S"
        using True False b by (simp add: stops_def)
      then show ?thesis unfolding none by blast
    next
      case fresh: False
      let ?A = "insert x (set seen)"
      let ?T = "\<lambda>y. {n. ?stops n \<and> (y, n) \<in> (avoiding ?F ?A)\<^sup>*}"
      define cs where "cs = filter (\<lambda>c. cfrom c = x) (map_values (gConnections g))"
      have cs: "c \<in> set cs \<longleftrightarrow> c \<in> conns g \<and> cfrom c = x" for c
        by (auto simp: cs_def conns_def)
      let ?body = "\<lambda>c S. res_bind (getIncomingDataFromAnyRun runData (nodeName (cfrom c)) (ctype c)
                  (outputIndex c)) (\<lambda>d. if d = None then Inr S
                else findStartNodesRecursive k g (cto c) dest runData pinData S (set_add x seen))"
      have "node_set g - ?A \<subset> node_set g - set seen" using Suc.prems fresh by auto
      then have "card (node_set g - ?A) < card (node_set g - set seen)"
        by (intro psubset_card_mono) auto
      with Suc.prems(3) have k: "card (node_set g - set (set_add x seen)) < k" by simp
      have seen: "\<forall>n \<in> set (set_add x seen). \<not> ?stops n" using Suc.prems(2) False by simp
      have "\<exists>T. res_fold ?body cs S = Inr T \<and> (distinct S \<longrightarrow> distinct T) \<and>
          set T = set S \<union> (\<Union>c \<in> {c \<in> set cs. has_data runData c}. ?T (cto c))"
      proof (rule res_fold_prefix [where P = "\<lambda>ds T. (distinct S \<longrightarrow> distinct T) \<and>
          set T = set S \<union> (\<Union>c \<in> {c \<in> set ds. has_data runData c}. ?T (cto c))"])
        show "(distinct S \<longrightarrow> distinct S) \<and>
          set S = set S \<union> (\<Union>c \<in> {c \<in> set []. has_data runData c}. ?T (cto c))" by simp
        fix ds c es T
        assume split: "cs = ds @ c # es" and P: "(distinct S \<longrightarrow> distinct T) \<and>
          set T = set S \<union> (\<Union>c \<in> {c \<in> set ds. has_data runData c}. ?T (cto c))"
        have c: "c \<in> conns g" using cs [of c] split by auto
        have "typed_runs runData (nodeName (cfrom c)) (ctype c)"
          using rd c by (simp add: data_ok_def)
        from getIncomingDataFromAnyRun_total [OF this] obtain d where
          d: "getIncomingDataFromAnyRun runData (nodeName (cfrom c)) (ctype c) (outputIndex c) = Inr d"
          by blast
        show "\<exists>T'. ?body c T = Inr T' \<and> (distinct S \<longrightarrow> distinct T') \<and>
            set T' = set S \<union> (\<Union>e \<in> {e \<in> set (ds @ [c]). has_data runData e}. ?T (cto e))"
        proof (cases "d = None")
          case True
          then have *: "{e \<in> set (ds @ [c]). has_data runData e} = {e \<in> set ds. has_data runData e}"
            using d by (auto simp: has_data_def)
          from True d P show ?thesis unfolding * by simp
        next
          case False
          then have "has_data runData c" using d by (auto simp: has_data_def)
          then have *: "{e \<in> set (ds @ [c]). has_data runData e} =
              insert c {e \<in> set ds. has_data runData e}" by auto
          from Suc.IH [OF graph_ok_ends(2) [OF g c] seen k, of T] obtain T' where
            "findStartNodesRecursive k g (cto c) dest runData pinData T (set_add x seen) = Inr T'"
            "distinct T \<longrightarrow> distinct T'" "set T' = set T \<union> ?T (cto c)" by auto
          with False d P show ?thesis unfolding * by auto
        qed
      qed
      then obtain T where T: "res_fold ?body cs S = Inr T" "distinct S \<longrightarrow> distinct T"
        "set T = set S \<union> (\<Union>c \<in> {c \<in> set cs. has_data runData c}. ?T (cto c))" by blast
      have run: "findStartNodesRecursive (Suc k) g x dest runData pinData S seen = Inr T"
        using T(1) False fresh b directChildren [OF g Suc.prems(1)]
        by (simp add: stops_def cs_def)
      have "(\<Union>c \<in> {c \<in> set cs. has_data runData c}. ?T (cto c)) =
          {n. ?stops n \<and> (x, n) \<in> (avoiding ?F (set seen))\<^sup>*}"
      proof (rule set_eqI, rule iffI)
        fix n
        assume "n \<in> (\<Union>c \<in> {c \<in> set cs. has_data runData c}. ?T (cto c))"
        then obtain c where c: "c \<in> set cs" "has_data runData c" "?stops n"
          "(cto c, n) \<in> (avoiding ?F ?A)\<^sup>*" by auto
        then have "(x, cto c) \<in> avoiding ?F (set seen)"
          using cs [of c] False fresh by (auto simp: avoiding_def follows_def)
        with avoiding_rtrancl_mono [OF _ c(4), of "set seen"] c(3)
        show "n \<in> {n. ?stops n \<and> (x, n) \<in> (avoiding ?F (set seen))\<^sup>*}"
          by (auto intro: converse_rtrancl_into_rtrancl)
      next
        fix n
        assume n: "n \<in> {n. ?stops n \<and> (x, n) \<in> (avoiding ?F (set seen))\<^sup>*}"
        then have "x \<noteq> n" using False by auto
        with avoiding_exit [of x n ?F "set seen"] n obtain y where
          "(x, y) \<in> ?F" "(y, n) \<in> (avoiding ?F ?A)\<^sup>*" by auto
        then obtain c where "c \<in> set cs" "has_data runData c" "cto c = y"
          using cs by (auto simp: follows_def)
        with n \<open>(y, n) \<in> _\<close>
        show "n \<in> (\<Union>c \<in> {c \<in> set cs. has_data runData c}. ?T (cto c))" by auto
      qed
      with run T show ?thesis by auto
    qed
  qed
qed

lemma findStartNodes_spec:
  assumes g: "graph_ok g" and rd: "data_ok g runData" and t: "trigger \<in> node_set g"
    and k: "card (node_set g) < k"
  shows "\<exists>T. findStartNodes k g trigger dest pinData runData = Inr T \<and> distinct T \<and>
    set T = {n. stops runData pinData dest n \<and>
      (trigger, n) \<in> (follows g runData pinData dest)\<^sup>*}"
  using findStartNodesRecursive_spec [OF g rd t, of "[]" pinData dest k "[]"] k
  by (auto simp: findStartNodes_def)

lemma follows_sub: "follows g runData pinData dest \<subseteq> graph_rel g"
  by (auto simp: follows_def graph_rel_iff)

end
