(* ===== verification/Node_Removal.thy ===== *)
theory Node_Removal
  imports Directed_Graph_Facts Partial_Execution
begin

text \<open>
  Removing nodes from a graph: what \<open>removeNode\<close> with reconnection keeps, and the graph without
  its disabled nodes.
\<close>


section \<open>Removing one node\<close>

abbreviation is_main :: "GraphConnection \<Rightarrow> bool" where
  "is_main c \<equiv> ctype c = Main"

definition main_rel :: "DirectedGraph \<Rightarrow> (INode \<times> INode) set" where
  "main_rel g = graph_rel_of is_main g"

definition utility_conns :: "DirectedGraph \<Rightarrow> GraphConnection set" where
  "utility_conns g = {c \<in> conns g. \<not> is_main c}"

lemma main_rel_iff: "(a, b) \<in> main_rel g \<longleftrightarrow> (\<exists>c \<in> conns g. is_main c \<and> cfrom c = a \<and> cto c = b)"
  by (auto simp: main_rel_def graph_rel_of_def)

lemma main_rel_nodes:
  "graph_ok g \<Longrightarrow> (a, b) \<in> main_rel g \<Longrightarrow> a \<in> node_set g \<and> b \<in> node_set g"
  by (auto simp: main_rel_iff dest: graph_ok_ends)

text \<open>The connections between nodes of a set, on which the keys are unambiguous.\<close>

lemma keys_inj:
  assumes "keys_unique N" and "\<And>c. c \<in> C \<Longrightarrow> cfrom c \<in> N \<and> cto c \<in> N"
  shows "inj_on makeKey C"
  using assms unfolding keys_unique_def inj_on_def by blast

definition non_main :: "(GraphConnection \<Rightarrow> bool) option" where
  "non_main = Some (\<lambda>c. ctype c \<noteq> Main)"

lemma removeNode_main:
  assumes g: "graph_ok g" and x: "x \<in> node_set g" and keys: "keys_unique (node_set g)"
    and loop: "(x, x) \<notin> main_rel g"
  shows "\<exists>g' new. removeNode g x True non_main = Inr (g', Some new) \<and> graph_ok g' \<and>
    node_set g' = node_set g - {x} \<and> main_rel g' = bypass (main_rel g) x \<and>
    utility_conns g' = {c \<in> utility_conns g. cfrom c \<noteq> x \<and> cto c \<noteq> x}"
proof -
  define join :: "GraphConnection \<Rightarrow> GraphConnection \<Rightarrow> GraphConnection"
    where "join = (\<lambda>i out. i\<lparr>cto := cto out, inputIndex := inputIndex out\<rparr>)"
  define into where "into = filter (\<lambda>c. cto c = x) (map_values (gConnections g))"
  define out where "out = filter (\<lambda>c. cfrom c = x) (map_values (gConnections g))"
  define new where "new = concat (map (\<lambda>i. map (join i) (filter is_main out)) (filter is_main into))"
  have new: "c \<in> set new \<longleftrightarrow> (\<exists>i \<in> conns g. \<exists>p \<in> conns g. cto i = x \<and> cfrom p = x \<and> is_main i \<and>
      is_main p \<and> c = join i p)" for c
    unfolding new_def into_def out_def conns_def by auto
  have join: "cfrom (join i p) = cfrom i" "cto (join i p) = cto p" "ctype (join i p) = ctype i" for i p
    by (simp_all add: join_def)
  define g1 where "g1 = deleteConnectionsOf x g"
  have g1: "filed makeKey (gConnections g1)" "gNodes g1 = gNodes g"
    "snd ` set (gConnections g1) = {c \<in> conns g. cto c \<noteq> x \<and> cfrom c \<noteq> x}"
    using graph_ok_filed(2) [OF g]
    by (force simp: g1_def deleteConnectionsOf_def conns_def filed_filter)+
  define C where "C = fold (\<lambda>c m. map_put (makeKey c) c m) new (gConnections g1)"
  have ends: "cfrom c \<in> node_set g \<and> cto c \<in> node_set g"
    if "c \<in> snd ` set (gConnections g1) \<union> set new" for c
    using that g1(3) graph_ok_ends [OF g] by (auto simp: join new)
  have ok: "filed makeKey C \<and> snd ` set C = snd ` set (gConnections g1) \<union> set new"
    unfolding C_def by (rule filed_fold_put [OF g1(1) keys_inj [OF keys ends]])
  define g' where "g' = g1\<lparr>gConnections := C, gNodes := map_del (nodeName x) (gNodes g)\<rparr>"
  have "removeNode g x True non_main = Inr (g', Some new)"
    using directChildren [OF g x] directParents [OF g x]
    by (simp add: removeNode_def non_main_def Let_def g1_def [symmetric] into_def [symmetric]
        out_def [symmetric] join_def new_def C_def g'_def g1(2))
  moreover have conns': "conns g' = {c \<in> conns g. cto c \<noteq> x \<and> cfrom c \<noteq> x} \<union> set new"
    using ok g1(3) by (simp add: g'_def conns_def)
  moreover have nodes: "node_set g' = node_set g - {x}"
  proof -
    have "node_set g' = {w \<in> node_set g. nodeName w \<noteq> nodeName x}"
      using filed_values_del [OF graph_ok_filed(1) [OF g]] by (simp add: g'_def node_set_def)
    also have "\<dots> = node_set g - {x}"
      using x by (intro inj_on_other [OF graph_ok_names_inj [OF g]]) auto
    finally show ?thesis .
  qed
  moreover have newx: "cfrom c \<noteq> x \<and> cto c \<noteq> x" if "c \<in> set new" for c
    using that loop unfolding new by (auto simp: join main_rel_iff)
  then have "graph_ok g'"
    using ok graph_ok_filed [OF g] nodes ends g1(3) unfolding graph_ok_def conns'
    by (auto simp: g'_def filed_del)
  moreover have "main_rel g' = bypass (main_rel g) x"
  proof (rule set_eqI, clarify)
    fix a b
    have "(\<exists>c \<in> set new. is_main c \<and> cfrom c = a \<and> cto c = b) \<longleftrightarrow>
        (a, x) \<in> main_rel g \<and> (x, b) \<in> main_rel g"
    proof
      show "\<exists>c \<in> set new. is_main c \<and> cfrom c = a \<and> cto c = b \<Longrightarrow>
          (a, x) \<in> main_rel g \<and> (x, b) \<in> main_rel g"
        by (clarsimp simp: new join main_rel_iff) blast
      assume "(a, x) \<in> main_rel g \<and> (x, b) \<in> main_rel g"
      then obtain i p where "i \<in> conns g" "p \<in> conns g" "cto i = x" "cfrom p = x" "is_main i"
        "is_main p" "cfrom i = a" "cto p = b" by (auto simp: main_rel_iff)
      then show "\<exists>c \<in> set new. is_main c \<and> cfrom c = a \<and> cto c = b"
        using new [of "join i p"] join [of i p] by metis
    qed
    then have "(a, b) \<in> main_rel g' \<longleftrightarrow>
        a \<noteq> x \<and> b \<noteq> x \<and> (a, b) \<in> main_rel g \<or> (a, x) \<in> main_rel g \<and> (x, b) \<in> main_rel g"
      unfolding main_rel_iff conns' by blast
    then show "(a, b) \<in> main_rel g' \<longleftrightarrow> (a, b) \<in> bypass (main_rel g) x"
      using loop by (auto simp: bypass_def)
  qed
  moreover have "utility_conns g' = {c \<in> utility_conns g. cfrom c \<noteq> x \<and> cto c \<noteq> x}"
    unfolding utility_conns_def conns' by (auto simp: new join)
  ultimately show ?thesis by blast
qed

text \<open>Cloning returns an equal graph.\<close>

lemma clone_same:
  assumes g: "graph_ok g"
  shows "clone g = Inr g"
proof -
  have nodes: "addNodes emptyGraph (map_values (gNodes g)) = g\<lparr>gConnections := []\<rparr>"
  proof -
    have "addNodes h ns = h\<lparr>gNodes := fold (\<lambda>n m. map_put (nodeName n) n m) ns (gNodes h)\<rparr>" for h ns
      by (induction ns arbitrary: h) (simp_all add: addNodes_def addNode_def)
    from this [of emptyGraph "map_values (gNodes g)"] show ?thesis
      using filed_rebuild [OF graph_ok_filed(1) [OF g]] by (simp add: emptyGraph_def)
  qed
  have step: "addConnection h (connection_input c) =
      Inr (h\<lparr>gConnections := map_put (makeKey c) c (gConnections h)\<rparr>)"
    if "gNodes h = gNodes g" "c \<in> conns g" for h c
  proof -
    have "containsNode h (cfrom c)" "containsNode h (cto c)"
      using graph_ok_ends [OF g that(2)] containsNode_iff [OF g] that(1)
      by (simp_all add: containsNode_def)
    then show ?thesis by (simp add: addConnection_def connection_input_def Let_def)
  qed
  have "addConnections h (map connection_input cs) =
      Inr (h\<lparr>gConnections := fold (\<lambda>c m. map_put (makeKey c) c m) cs (gConnections h)\<rparr>)"
    if "gNodes h = gNodes g" "set cs \<subseteq> conns g" for h cs
    using that by (induction cs arbitrary: h) (simp_all add: addConnections_def step)
  from this [of "g\<lparr>gConnections := []\<rparr>" "map_values (gConnections g)"] show ?thesis
    using nodes filed_rebuild [OF graph_ok_filed(2) [OF g]]
    by (simp add: clone_def getNodes_def getConnections_def conns_def)
qed


section \<open>Removing the disabled nodes\<close>

definition disabled_nodes :: "DirectedGraph \<Rightarrow> INode set" where
  "disabled_nodes g = {n \<in> node_set g. disabled n = Some True}"

text \<open>No cycle of Main connections goes through disabled nodes only.\<close>

definition no_disabled_cycle :: "DirectedGraph \<Rightarrow> bool" where
  "no_disabled_cycle g \<longleftrightarrow>
     (\<forall>n. (n, n) \<notin> {(a, b) \<in> main_rel g. a \<in> disabled_nodes g \<and> b \<in> disabled_nodes g}\<^sup>+)"

text \<open>The state of the loop when the nodes \<open>ys\<close> have been visited.\<close>

definition removed :: "DirectedGraph \<Rightarrow> INode list \<Rightarrow> DirectedGraph \<Rightarrow> bool" where
  "removed g ys h \<longleftrightarrow>
     graph_ok h \<and> node_set h = node_set g - {n \<in> set ys. disabled n = Some True} \<and>
     no_disabled_cycle h \<and>
     (\<forall>a \<in> node_set h. \<forall>b \<in> node_set h. (a, b) \<in> (main_rel h)\<^sup>+ \<longleftrightarrow> (a, b) \<in> (main_rel g)\<^sup>+) \<and>
     utility_conns h = {c \<in> utility_conns g. cfrom c \<in> node_set h \<and> cto c \<in> node_set h}"

lemma no_disabled_cycle_bypass:
  assumes no: "no_disabled_cycle h" and x: "x \<in> disabled_nodes h"
    and h': "node_set h' = node_set h - {x}" "main_rel h' = bypass (main_rel h) x"
  shows "no_disabled_cycle h'"
  unfolding no_disabled_cycle_def
proof (intro allI notI)
  fix n
  let ?R = "{(a, b) \<in> main_rel h. a \<in> disabled_nodes h \<and> b \<in> disabled_nodes h}"
  let ?R' = "{(a, b) \<in> main_rel h'. a \<in> disabled_nodes h' \<and> b \<in> disabled_nodes h'}"
  assume n: "(n, n) \<in> ?R'\<^sup>+"
  have "?R' \<subseteq> ?R\<^sup>+"
  proof (rule subrelI)
    fix a b
    assume "(a, b) \<in> ?R'"
    then have ab: "(a, b) \<in> main_rel h \<or> (a, x) \<in> main_rel h \<and> (x, b) \<in> main_rel h"
      "a \<in> disabled_nodes h" "b \<in> disabled_nodes h"
      using h' by (auto simp: bypass_def disabled_nodes_def)
    then consider "(a, b) \<in> ?R" | "(a, x) \<in> ?R" "(x, b) \<in> ?R" using x by blast
    then show "(a, b) \<in> ?R\<^sup>+"
      by cases (auto intro: trancl.intros)
  qed
  from subsetD [OF trancl_in_trancl [OF this] n] no show False
    by (simp add: no_disabled_cycle_def)
qed

lemma removed_step:
  assumes "keys_unique (node_set g)" and P: "removed g ys h" and x: "x \<in> node_set g" "x \<notin> set ys"
  shows "\<exists>h'. (if disabled x = Some True
           then res_bind (removeNode h x True non_main) (\<lambda>(g', _). Inr g') else Inr h) = Inr h' \<and>
         removed g (ys @ [x]) h'"
proof (cases "disabled x = Some True")
  case False
  then have "{n \<in> set (ys @ [x]). disabled n = Some True} = {n \<in> set ys. disabled n = Some True}"
    by auto
  with False P show ?thesis by (simp add: removed_def)
next
  case True
  have h: "graph_ok h" "no_disabled_cycle h" "x \<in> node_set h" "keys_unique (node_set h)"
    using P x assms(1) keys_unique_subset [of "node_set g" "node_set h"]
    by (auto simp: removed_def)
  have xd: "x \<in> disabled_nodes h" using h True by (simp add: disabled_nodes_def)
  have "(x, x) \<notin> main_rel h"
    using h(2) xd unfolding no_disabled_cycle_def by (blast intro: r_into_trancl)
  from removeNode_main [OF h(1,3,4) this] obtain h' new where h':
    "removeNode h x True non_main = Inr (h', Some new)" "graph_ok h'"
    "node_set h' = node_set h - {x}" "main_rel h' = bypass (main_rel h) x"
    "utility_conns h' = {c \<in> utility_conns h. cfrom c \<noteq> x \<and> cto c \<noteq> x}" by blast
  have "removed g (ys @ [x]) h'"
    unfolding removed_def
  proof (intro conjI ballI)
    show "graph_ok h'" by (rule h'(2))
    show "no_disabled_cycle h'" by (rule no_disabled_cycle_bypass [OF h(2) xd h'(3,4)])
    show "node_set h' = node_set g - {n \<in> set (ys @ [x]). disabled n = Some True}"
      using P h'(3) True by (auto simp: removed_def)
    show "utility_conns h' = {c \<in> utility_conns g. cfrom c \<in> node_set h' \<and> cto c \<in> node_set h'}"
      using P h'(3,5) by (auto simp: removed_def)
    fix a b
    assume "a \<in> node_set h'" "b \<in> node_set h'"
    then have ab: "a \<in> node_set h" "b \<in> node_set h" "a \<noteq> x" "b \<noteq> x" using h'(3) by auto
    then show "(a, b) \<in> (main_rel h')\<^sup>+ \<longleftrightarrow> (a, b) \<in> (main_rel g)\<^sup>+"
      using P bypass_trancl [of a x b "main_rel h"] h'(4) by (simp add: removed_def)
  qed
  with True h'(1) show ?thesis by simp
qed

lemma filterDisabledNodes_removed:
  assumes g: "graph_ok g" and keys: "keys_unique (node_set g)" and no: "no_disabled_cycle g"
  shows "\<exists>h. filterDisabledNodes g = Inr h \<and> removed g (map_values (gNodes g)) h"
proof -
  let ?body = "\<lambda>node h. if disabled node = Some True
    then res_bind (removeNode h node True non_main) (\<lambda>(g', _). Inr g') else Inr h"
  have "\<exists>h. res_fold ?body (map_values (gNodes g)) g = Inr h \<and> removed g (map_values (gNodes g)) h"
  proof (rule res_fold_prefix [where P = "removed g"])
    show "removed g [] g"
      using g no graph_ok_ends [OF g] by (auto simp: removed_def utility_conns_def)
    fix ys x zs h
    assume split: "map_values (gNodes g) = ys @ x # zs" and P: "removed g ys h"
    have "distinct (map nodeName (map_values (gNodes g)))"
    proof -
      have "map nodeName (map_values (gNodes g)) = map_keys (gNodes g)"
        using graph_ok_filed(1) [OF g] by (auto simp: filed_def)
      then show ?thesis using graph_ok_filed(1) [OF g] unfolding filed_def by metis
    qed
    then have "x \<notin> set ys" "x \<in> node_set g" by (auto simp: split node_set_def)
    then show "\<exists>t. ?body x h = Inr t \<and> removed g (ys @ [x]) t"
      using removed_step [OF keys P] by blast
  qed
  then show ?thesis
    unfolding filterDisabledNodes_def clone_same [OF g] non_main_def getNodes_def by simp
qed


section \<open>Properties\<close>

definition node_off :: INode where
  "node_off = plain_node 9 ''off'' ''t''\<lparr>disabled := Some True\<rparr>"

definition off_graph :: DirectedGraph where
  "off_graph = graph_of [node_a, node_off, node_b] [(node_a, node_off), (node_off, node_b)]"

lemma node_off_simps [simp]:
  "nodeName node_off = ''off''" "disabled node_off = Some True"
  "plain_node r n t \<noteq> node_off" "node_off \<noteq> plain_node r n t"
  by (auto simp: node_off_def plain_node_def)

lemma off_graph_ok:
  "graph_ok off_graph" "keys_unique (node_set off_graph)" "no_disabled_cycle off_graph"
  "node_set off_graph = {node_a, node_off, node_b}"
proof -
  show "graph_ok off_graph"
    by (simp add: off_graph_def graph_of_simps)
  show nodes: "node_set off_graph = {node_a, node_off, node_b}"
    by (simp add: off_graph_def graph_of_simps)
  show "keys_unique (node_set off_graph)"
    by (rule keys_unique_no_hyphen) (auto simp: nodes)
  have "conns off_graph = {main_conn node_a node_off, main_conn node_off node_b}"
    by (simp add: off_graph_def graph_of_simps)
  then have "(node_off, node_off) \<notin> main_rel off_graph"
    by (simp add: main_rel_iff main_conn_def)
  moreover have "disabled_nodes off_graph = {node_off}"
    unfolding disabled_nodes_def nodes by auto
  ultimately have "{(a, b) \<in> main_rel off_graph.
      a \<in> disabled_nodes off_graph \<and> b \<in> disabled_nodes off_graph} = {}"
    by auto
  then show "no_disabled_cycle off_graph"
    unfolding no_disabled_cycle_def by (metis empty_iff trancl_empty)
qed



text \<open>
  Removing a node that is connected to itself, with reconnection, leaves connections whose
  end is the removed node: the graph is no longer well-formed.
\<close>

definition self_loop_graph :: DirectedGraph where
  "self_loop_graph = graph_of [node_a, node_off] [(node_a, node_off), (node_off, node_off)]"

theorem removeNode_self_loop:
  "graph_ok self_loop_graph \<and>
   (\<exists>g'. filterDisabledNodes self_loop_graph = Inr g' \<and> \<not> graph_ok g' \<and>
      node_set g' = {node_a} \<and> main_conn node_a node_off \<in> conns g')"
proof
  have ok: "graph_ok self_loop_graph"
    by (simp add: self_loop_graph_def graph_of_simps)
  then show "graph_ok self_loop_graph" .
  define g' where "g' = \<lparr>gNodes = [(''a'', node_a)],
    gConnections = map (\<lambda>(a, b). (makeKey (main_conn a b), main_conn a b))
      [(node_a, node_off), (node_off, node_off)]\<rparr>"
  have "filterDisabledNodes self_loop_graph = Inr g'"
    unfolding filterDisabledNodes_def clone_same [OF ok]
    by (simp add: self_loop_graph_def graph_of_def main_conn_def g'_def removeNode_def
        getNodes_def getDirectParentConnections_def getDirectChildConnections_def
        containsNode_def deleteConnectionsOf_def Let_def makeKey_def show_nat.simps
        AList.delete_eq)
  moreover have "conns g' = {main_conn node_a node_off, main_conn node_off node_off}"
    "node_set g' = {node_a}"
    by (simp_all add: g'_def conns_def node_set_def)
  ultimately show "\<exists>g'. filterDisabledNodes self_loop_graph = Inr g' \<and> \<not> graph_ok g' \<and>
      node_set g' = {node_a} \<and> main_conn node_a node_off \<in> conns g'"
    by (intro exI [of _ g']) (auto simp: graph_ok_def main_conn_def)
qed

end
