(* ===== verification/Run_Preparation.thy ===== *)
theory Run_Preparation
  imports Start_Nodes Node_Removal
begin

text \<open>
  The two steps between the search for start nodes and the execution stack: start nodes that
  are part of a cycle are replaced, and run data that is out of date is dropped.
\<close>


section \<open>Cycles\<close>

text \<open>The first node of a cycle that the search from the trigger meets.\<close>

definition cycle_entry :: "nat \<Rightarrow> DirectedGraph \<Rightarrow> INode \<Rightarrow> INode list \<Rightarrow> INode \<Rightarrow> bool" where
  "cycle_entry k g trigger C f \<longleftrightarrow>
     depthFirstSearch k g trigger (\<lambda>node. node \<in> set C) = Inr (Some f)"

lemma cycle_entry_unique: "cycle_entry k g t C f \<Longrightarrow> cycle_entry k g t C f' \<Longrightarrow> f = f'"
  by (simp add: cycle_entry_def)

lemma cycle_entry_exists:
  assumes "graph_ok g" and "t \<in> node_set g" and "card (node_set g) < k"
    and "(t, n) \<in> (graph_rel g)\<^sup>*" and "n \<in> set C"
  shows "\<exists>f. cycle_entry k g t C f \<and> f \<in> set C \<and> (t, f) \<in> (graph_rel g)\<^sup>*"
  using depthFirstSearch_spec [OF assms(1-3), of "\<lambda>node. node \<in> set C"] assms(4,5)
  unfolding cycle_entry_def by (auto split: option.splits)

definition replaceStart ::
  "nat \<Rightarrow> DirectedGraph \<Rightarrow> INode \<Rightarrow> INode \<Rightarrow> INode list \<Rightarrow> INode list \<Rightarrow> INode list res" where
  "replaceStart k g trigger startNode cycle newStartNodes =
     (if startNode \<in> set cycle
      then res_bind (depthFirstSearch k g trigger (\<lambda>node. node \<in> set cycle))
        (\<lambda>found. case found of
           None \<Rightarrow> Inl AssertionError
         | Some firstNode \<Rightarrow> Inr (set_add firstNode (set_delete startNode newStartNodes)))
      else Inr newStartNodes)"

lemma replaceStart_skip:
  "n \<notin> set (concat Cs) \<Longrightarrow> res_fold (replaceStart k g t n) Cs T = Inr T"
  by (induction Cs) (auto simp: replaceStart_def)

lemma replaceStart_entry:
  "distinct (concat Cs) \<Longrightarrow> C \<in> set Cs \<Longrightarrow> n \<in> set C \<Longrightarrow> cycle_entry k g t C f \<Longrightarrow>
   res_fold (replaceStart k g t n) Cs T = Inr (set_add f (set_delete n T))"
proof (induction Cs)
  case Nil
  then show ?case by simp
next
  case (Cons D Cs)
  show ?case
  proof (cases "C = D")
    case True
    then have "n \<notin> set (concat Cs)" using Cons.prems by auto
    moreover have "replaceStart k g t n D T = Inr (set_add f (set_delete n T))"
      using True Cons.prems by (simp add: replaceStart_def cycle_entry_def)
    ultimately show ?thesis by (simp add: replaceStart_skip)
  next
    case False
    then have "n \<notin> set D" using Cons.prems by auto
    with False Cons show ?thesis by (simp add: replaceStart_def)
  qed
qed

text \<open>The new start nodes when the start nodes \<open>ns\<close> of \<open>starts\<close> have been looked at.\<close>

definition new_starts ::
  "nat \<Rightarrow> DirectedGraph \<Rightarrow> INode \<Rightarrow> INode list list \<Rightarrow> INode set \<Rightarrow> INode set \<Rightarrow> INode set" where
  "new_starts k g t Cs starts ns =
     {n \<in> starts. n \<in> ns \<longrightarrow> n \<notin> set (concat Cs)} \<union>
     {f. \<exists>C \<in> set Cs. set C \<inter> ns \<noteq> {} \<and> cycle_entry k g t C f}"

lemma new_starts_step:
  assumes Cs: "distinct (concat Cs)" "C \<in> set Cs" and n: "n \<in> set C" "n \<in> starts" "n \<notin> ns"
    and f: "cycle_entry k g t C f" "f \<in> set C"
    and entries: "\<And>D f. cycle_entry k g t D f \<Longrightarrow> f \<in> set D"
  shows "insert f (new_starts k g t Cs starts ns - {n}) = new_starts k g t Cs starts (insert n ns)"
proof -
  have same: "D = C" if "D \<in> set Cs" "n \<in> set D" for D
  proof (rule ccontr)
    assume "D \<noteq> C"
    then have "set D \<inter> set C = {}" using Cs that(1) by (auto simp: distinct_concat_iff)
    with that(2) n(1) show False by auto
  qed
  let ?F = "\<lambda>ns. {f. \<exists>C \<in> set Cs. set C \<inter> ns \<noteq> {} \<and> cycle_entry k g t C f}"
  have "n \<in> set (concat Cs)" using Cs n by auto
  then have kept: "{m \<in> starts. m \<in> ns \<longrightarrow> m \<notin> set (concat Cs)} - {n} =
      {m \<in> starts. m \<in> insert n ns \<longrightarrow> m \<notin> set (concat Cs)}" by blast
  have "n = f" if "n \<in> ?F ns"
  proof -
    from that obtain D where D: "D \<in> set Cs" "cycle_entry k g t D n" by blast
    with same [OF D(1) entries [OF D(2)]] f(1) show ?thesis using cycle_entry_unique by blast
  qed
  then have "insert f (?F ns - {n}) = insert f (?F ns)" by blast
  also have "\<dots> = ?F (insert n ns)"
  proof (rule set_eqI, rule iffI)
    fix h
    show "h \<in> insert f (?F ns) \<Longrightarrow> h \<in> ?F (insert n ns)" using Cs(2) n(1) f(1) by blast
    assume "h \<in> ?F (insert n ns)"
    then obtain D where D: "D \<in> set Cs" "set D \<inter> insert n ns \<noteq> {}" "cycle_entry k g t D h" by blast
    show "h \<in> insert f (?F ns)"
    proof (cases "n \<in> set D")
      case True
      then show ?thesis using same [OF D(1)] D(3) f(1) cycle_entry_unique by blast
    next
      case False
      with D show ?thesis by blast
    qed
  qed
  finally have entries': "insert f (?F ns - {n}) = ?F (insert n ns)" .
  show ?thesis unfolding new_starts_def Un_Diff kept Un_insert_right [symmetric] entries' ..
qed

lemma handleCycles_spec:
  assumes g: "graph_ok g" and t: "trigger \<in> node_set g" and k: "card (node_set g) < k"
    and reach: "\<And>n. n \<in> set starts \<Longrightarrow> (trigger, n) \<in> (graph_rel g)\<^sup>*"
    and dist: "distinct starts"
  shows "\<exists>Cs T. getStronglyConnectedComponents k g = Inr Cs \<and>
    handleCycles k g starts trigger = Inr T \<and> distinct T \<and>
    set T = new_starts k g trigger Cs (set starts) (set starts)"
proof -
  from getStronglyConnectedComponents_sound [OF g k] obtain Cs where Cs:
    "getStronglyConnectedComponents k g = Inr Cs" "\<forall>C \<in> set Cs. strong g C" "distinct (concat Cs)"
    by blast
  have fil: "filter (\<lambda>C. length C \<ge> 1) Cs = Cs"
    using Cs(2) by (intro filter_True) (auto simp: strong_def Suc_le_eq)
  have entries: "f \<in> set D" if "cycle_entry k g trigger D f" for D f
    using depthFirstSearch_spec [OF g t k, of "\<lambda>node. node \<in> set D"] that
    by (auto simp: cycle_entry_def split: option.splits)
  let ?N = "new_starts k g trigger Cs (set starts)"
  have "\<exists>T. res_fold (\<lambda>n. res_fold (replaceStart k g trigger n) Cs) starts starts = Inr T \<and>
      distinct T \<and> set T = ?N (set starts)"
  proof (rule res_fold_prefix [where P = "\<lambda>ns T. distinct T \<and> set T = ?N (set ns)"])
    show "distinct starts \<and> set starts = ?N (set [])"
      using dist by (auto simp: new_starts_def)
    fix ys n zs T
    assume split: "starts = ys @ n # zs" and P: "distinct T \<and> set T = ?N (set ys)"
    have n: "n \<in> set starts" "n \<notin> set ys" using split dist by auto
    show "\<exists>T'. res_fold (replaceStart k g trigger n) Cs T = Inr T' \<and> distinct T' \<and>
        set T' = ?N (set (ys @ [n]))"
    proof (cases "n \<in> set (concat Cs)")
      case False
      then have "?N (insert n (set ys)) = ?N (set ys)"
        unfolding new_starts_def by auto
      with False P show ?thesis by (simp add: replaceStart_skip)
    next
      case True
      then obtain C where C: "C \<in> set Cs" "n \<in> set C" by auto
      from cycle_entry_exists [OF g t k reach [OF n(1)] C(2)] obtain f where
        f: "cycle_entry k g trigger C f" "f \<in> set C" by blast
      have "set (set_add f (set_delete n T)) = ?N (insert n (set ys))"
        using new_starts_step [OF Cs(3) C n f entries] P by simp
      with replaceStart_entry [OF Cs(3) C f(1), of T] P show ?thesis by simp
    qed
  qed
  moreover have "handleCycles k g starts trigger =
      res_fold (\<lambda>n. res_fold (replaceStart k g trigger n) Cs) starts starts"
  proof (cases "Cs = []")
    case True
    have "res_fold (\<lambda>n. Inr) starts starts = Inr starts" for starts :: "INode list"
    proof -
      have "res_fold (\<lambda>n. Inr) ns s = Inr s" for ns :: "INode list" and s :: "INode list"
        by (induction ns) auto
      then show ?thesis .
    qed
    moreover have "res_fold (replaceStart k g trigger n) [] = Inr" for n
      by (simp add: fun_eq_iff)
    ultimately show ?thesis using True Cs(1) by (simp add: handleCycles_def)
  next
    case False
    then show ?thesis using Cs(1) fil
      unfolding handleCycles_def replaceStart_def by (simp add: Let_def)
  qed
  ultimately show ?thesis using Cs(1) by auto
qed


section \<open>Run data\<close>

text \<open>
  The names whose run data is dropped for the nodes \<open>ns\<close>: the nodes themselves, and the source
  of every utility connection from whose target one of them can be reached.
\<close>

definition dropped_names :: "DirectedGraph \<Rightarrow> INode set \<Rightarrow> string set" where
  "dropped_names g ns =
     nodeName ` ns \<union>
     {nodeName (cfrom c) | c. c \<in> utility_conns g \<and> (\<exists>n \<in> ns. (cto c, n) \<in> (graph_rel g)\<^sup>*)}"

definition without :: "string set \<Rightarrow> IRunData \<Rightarrow> IRunData \<Rightarrow> bool" where
  "without N rd rd' \<longleftrightarrow> (\<forall>name. map_get rd' name = (if name \<in> N then None else map_get rd name))"

lemma without_del: "without N rd rd' \<Longrightarrow> without (insert x N) rd (map_del x rd')"
  by (simp add: without_def)

lemma without_empty: "without {} rd rd"
  by (simp add: without_def)

lemma without_fold:
  "without N rd rd' \<Longrightarrow>
   without (N \<union> {f x | x. x \<in> set xs \<and> P x}) rd
     (fold (\<lambda>x rd. if P x then map_del (f x) rd else rd) xs rd')"
proof (induction xs arbitrary: N rd')
  case Nil
  then show ?case by simp
next
  case (Cons x xs)
  have "without (if P x then insert (f x) N else N) rd (if P x then map_del (f x) rd' else rd')"
    using without_del [OF Cons.prems] Cons.prems by simp
  from Cons.IH [OF this]
  have "without ((if P x then insert (f x) N else N) \<union> {f y | y. y \<in> set xs \<and> P y}) rd
     (fold (\<lambda>x rd. if P x then map_del (f x) rd else rd) (x # xs) rd')" by simp
  moreover have "(if P x then insert (f x) N else N) \<union> {f y | y. y \<in> set xs \<and> P y} =
      N \<union> {f y | y. y \<in> set (x # xs) \<and> P y}" by auto
  ultimately show ?case by metis
qed

lemma cleanNode_spec:
  assumes g: "graph_ok g" and x: "x \<in> node_set g" and k: "card (conns g) < k"
    and rd: "without N rd rd'"
  shows "\<exists>t. cleanNode k g x rd' = Inr t \<and> without (N \<union> dropped_names g {x}) rd t"
proof -
  from getParentConnections_reach [OF g x k] obtain cs where cs:
    "getParentConnections k g x = Inr cs" "set cs = {c \<in> conns g. (cto c, x) \<in> (graph_rel g)\<^sup>*}"
    by blast
  have fold_eq: "fold (\<lambda>c rd. if ctype c = Main then rd else map_del (nodeName (cfrom c)) rd) =
      fold (\<lambda>c rd. if ctype c \<noteq> Main then map_del (nodeName (cfrom c)) rd else rd)"
    by (intro arg_cong [of _ _ fold]) (auto simp: fun_eq_iff)
  have "insert (nodeName x) N \<union> {nodeName (cfrom c) | c. c \<in> set cs \<and> ctype c \<noteq> Main} =
      N \<union> dropped_names g {x}"
    by (auto simp: dropped_names_def utility_conns_def cs(2))
  with without_fold [OF without_del [OF rd, of "nodeName x"], of "\<lambda>c. nodeName (cfrom c)" cs
      "\<lambda>c. ctype c \<noteq> Main"] cs(1)
  show ?thesis unfolding cleanNode_def fold_eq by auto
qed

lemma dropped_names_Un: "dropped_names g (A \<union> B) = dropped_names g A \<union> dropped_names g B"
  unfolding dropped_names_def by blast

lemma cleanRunData_spec:
  assumes g: "graph_ok g" and starts: "set starts \<subseteq> node_set g"
    and k: "card (node_set g) < k" "card (conns g) < k"
  shows "\<exists>rd'. cleanRunData k rd g starts = Inr rd' \<and>
    (\<forall>name. map_get rd' name =
      (if name \<in> dropped_names g {n. \<exists>s \<in> set starts. (s, n) \<in> (graph_rel g)\<^sup>*} \<or>
          \<not> hasNode g name
       then None else map_get rd name))"
proof -
  let ?below = "\<lambda>ns. {n. \<exists>s \<in> ns. (s, n) \<in> (graph_rel g)\<^sup>*}"
  let ?body = "\<lambda>s rd. res_bind (getChildren k g s) (\<lambda>children.
           res_fold (cleanNode k g) (s # children) (map_del (nodeName s) rd))"
  have "\<exists>t. res_fold ?body starts rd = Inr t \<and> without (dropped_names g (?below (set starts))) rd t"
  proof (rule res_fold_prefix [where P = "\<lambda>ns t. without (dropped_names g (?below (set ns))) rd t"])
    show "without (dropped_names g (?below (set []))) rd rd"
      by (simp add: dropped_names_def without_empty)
    fix ys s zs t
    assume split: "starts = ys @ s # zs" and P: "without (dropped_names g (?below (set ys))) rd t"
    let ?N = "insert (nodeName s) (dropped_names g (?below (set ys)))"
    have s: "s \<in> node_set g" using starts split by auto
    from getChildren_reach [OF g s k(1)] obtain cs where cs: "getChildren k g s = Inr cs"
      "set cs = {y. (s, y) \<in> (graph_rel g)\<^sup>+}" by blast
    have set_cs: "set (s # cs) = ?below {s}"
      using cs(2) by (auto simp: rtrancl_eq_or_trancl)
    have "\<exists>u. res_fold (cleanNode k g) (s # cs) (map_del (nodeName s) t) = Inr u \<and>
        without (?N \<union> dropped_names g (set (s # cs))) rd u"
    proof (rule res_fold_prefix [where P = "\<lambda>ns u. without (?N \<union> dropped_names g (set ns)) rd u"])
      show "without (?N \<union> dropped_names g (set [])) rd (map_del (nodeName s) t)"
        using without_del [OF P] by (simp add: dropped_names_def)
      fix as x bs u
      assume split': "s # cs = as @ x # bs" and Q: "without (?N \<union> dropped_names g (set as)) rd u"
      have "x \<in> set (s # cs)" unfolding split' by simp
      then have "x \<in> node_set g"
        unfolding set_cs using graph_reach_node [OF g _ s] by auto
      from cleanNode_spec [OF g this k(2) Q]
      show "\<exists>u'. cleanNode k g x u = Inr u' \<and> without (?N \<union> dropped_names g (set (as @ [x]))) rd u'"
        by (simp add: dropped_names_Un [of g "set as" "{x}", simplified] Un_assoc)
    qed
    moreover have "?N \<union> dropped_names g (set (s # cs)) = dropped_names g (?below (set (ys @ [s])))"
    proof -
      have e: "?below (set (ys @ [s])) = ?below (set ys) \<union> ?below {s}" by auto
      have "nodeName s \<in> dropped_names g (?below {s})"
        by (auto simp: dropped_names_def)
      then show ?thesis unfolding set_cs e dropped_names_Un by blast
    qed
    ultimately show "\<exists>u. ?body s t = Inr u \<and>
        without (dropped_names g (?below (set (ys @ [s])))) rd u"
      using cs(1) by simp
  qed
  then obtain t where t: "res_fold ?body starts rd = Inr t"
    "without (dropped_names g (?below (set starts))) rd t" by blast
  let ?out = "\<lambda>rd. fold (\<lambda>name rd. if \<not> hasNode g name then map_del name rd else rd) (map_keys t) rd"
  have "without (dropped_names g (?below (set starts)) \<union>
      {name | name. name \<in> set (map_keys t) \<and> \<not> hasNode g name}) rd (?out t)"
    using without_fold [OF t(2), of "\<lambda>name. name" "map_keys t" "\<lambda>name. \<not> hasNode g name"] by simp
  moreover have "map_get rd name = None"
    if "name \<notin> set (map_keys t)" "name \<notin> dropped_names g (?below (set starts))" for name
    using t(2) that map_of_eq_None_iff [of t name] by (auto simp: without_def)
  ultimately have "map_get (?out t) name =
      (if name \<in> dropped_names g (?below (set starts)) \<or> \<not> hasNode g name
       then None else map_get rd name)" for name
    unfolding without_def by (cases "name \<in> set (map_keys t)") auto
  with t(1) show ?thesis by (auto simp: cleanRunData_def)
qed

end
