(* ===== verification/Subgraph.thy ===== *)
theory Subgraph
  imports Run_Preparation
begin

text \<open>
  The subgraph between a trigger and a destination: exactly which connections \<open>findSubgraph\<close>
  keeps.
\<close>


section \<open>Growing a subgraph\<close>

definition subgraph_of :: "DirectedGraph \<Rightarrow> DirectedGraph \<Rightarrow> bool" where
  "subgraph_of g h \<longleftrightarrow> graph_ok h \<and> node_set h \<subseteq> node_set g \<and> conns h \<subseteq> conns g"

definition ends :: "GraphConnection set \<Rightarrow> INode set" where
  "ends C = cfrom ` C \<union> cto ` C"

lemma ends_simps [simp]: "ends {} = {}" "ends (insert c C) = insert (cfrom c) (insert (cto c) (ends C))"
  "ends (A \<union> B) = ends A \<union> ends B"
  by (auto simp: ends_def)

text \<open>\<open>grown g C h h'\<close>: the subgraph \<open>h'\<close> of \<open>g\<close> is \<open>h\<close> with the connections \<open>C\<close> and their ends.\<close>

definition grown ::
  "DirectedGraph \<Rightarrow> GraphConnection set \<Rightarrow> DirectedGraph \<Rightarrow> DirectedGraph \<Rightarrow> bool" where
  "grown g C h h' \<longleftrightarrow>
     subgraph_of g h' \<and> conns h' = conns h \<union> C \<and> node_set h' = node_set h \<union> ends C \<and>
     (\<exists>ns. map_values (gNodes h') = map_values (gNodes h) @ ns)"

lemma grown_refl: "subgraph_of g h \<Longrightarrow> grown g {} h h"
  by (simp add: grown_def)

lemma grown_trans: "grown g A h h' \<Longrightarrow> grown g B h' h'' \<Longrightarrow> grown g (A \<union> B) h h''"
  by (auto simp: grown_def)

lemma grown_sub: "grown g C h h' \<Longrightarrow> subgraph_of g h'"
  by (simp add: grown_def)

lemma grown_addNode:
  assumes g: "graph_ok g" and h: "subgraph_of g h" and n: "n \<in> node_set g"
  shows "subgraph_of g (addNode h n) \<and> conns (addNode h n) = conns h \<and>
    node_set (addNode h n) = insert n (node_set h) \<and>
    (\<exists>ns. map_values (gNodes (addNode h n)) = map_values (gNodes h) @ ns)"
proof -
  have ok: "graph_ok h" "node_set h \<subseteq> node_set g" using h by (auto simp: subgraph_of_def)
  have fits: "fits h n"
    using graph_ok_names_inj [OF g] ok(2) n by (auto simp: fits_def dest: inj_onD)
  have "\<exists>ns. map_values (gNodes (addNode h n)) = map_values (gNodes h) @ ns"
  proof (cases "map_get (gNodes h) (nodeName n)")
    case None
    then have "nodeName n \<notin> set (map_keys (gNodes h))" by (simp add: map_of_eq_None_iff)
    then show ?thesis by (simp add: addNode_def map_put_fresh)
  next
    case (Some m)
    then have "m \<in> node_set h" "nodeName m = nodeName n"
      using filed_get [OF graph_ok_filed(1) [OF ok(1)]] by (auto simp: node_set_def)
    with fits have "m = n" by (simp add: fits_def)
    with Some show ?thesis by (simp add: addNode_def update_triv)
  qed
  with graph_ok_addNode [OF ok(1) fits] addNode_fits [OF ok(1) fits] h n show ?thesis
    by (auto simp: subgraph_of_def)
qed

lemma grown_connection:
  assumes g: "graph_ok g" and keys: "keys_unique (node_set g)" and h: "subgraph_of g h"
    and c: "c \<in> conns g"
  shows "\<exists>h'. addConnection (addNodes h [cfrom c, cto c]) (connection_input c) = Inr h' \<and>
    grown g {c} h h'"
proof -
  let ?h1 = "addNode h (cfrom c)"
  let ?h2 = "addNode ?h1 (cto c)"
  have 1: "subgraph_of g ?h1" "conns ?h1 = conns h" "node_set ?h1 = insert (cfrom c) (node_set h)"
    "\<exists>ns. map_values (gNodes ?h1) = map_values (gNodes h) @ ns"
    using grown_addNode [OF g h graph_ok_ends(1) [OF g c]] by auto
  have 2: "subgraph_of g ?h2" "conns ?h2 = conns h"
    "node_set ?h2 = insert (cto c) (insert (cfrom c) (node_set h))"
    "\<exists>ns. map_values (gNodes ?h2) = map_values (gNodes ?h1) @ ns"
    using grown_addNode [OF g 1(1) graph_ok_ends(2) [OF g c]] 1 by auto
  then obtain h' where h': "addConnection ?h2 (connection_input c) = Inr h'" "graph_ok h'"
    "node_set h' = node_set ?h2" "conns h' = insert c {c' \<in> conns ?h2. makeKey c' \<noteq> makeKey c}"
    using addConnection_spec [of ?h2 c] by (auto simp: subgraph_of_def)
  have "{c' \<in> conns ?h2. makeKey c' \<noteq> makeKey c} = conns ?h2 - {c}"
    by (rule inj_on_other [OF keys_inj [OF keys, of "conns g"]])
      (use 2(1) c graph_ok_ends [OF g] in \<open>auto simp: subgraph_of_def\<close>)
  then have conns': "conns h' = insert c (conns h)" using h'(4) 2(2) by auto
  have "gNodes h' = gNodes ?h2"
    using h'(1) by (auto simp: addConnection_def Let_def split: if_splits)
  with 1(4) 2(4) have "\<exists>ns. map_values (gNodes h') = map_values (gNodes h) @ ns" by auto
  moreover have "addNodes h [cfrom c, cto c] = ?h2" by (simp add: addNodes_def)
  moreover have "subgraph_of g h'"
    using h'(2,3) conns' 2(1,2) c by (auto simp: subgraph_of_def)
  ultimately show ?thesis
    using h'(1,3) conns' 2(3) by (auto simp: grown_def)
qed

lemma grown_keepBranch:
  assumes g: "graph_ok g" and keys: "keys_unique (node_set g)"
  shows "subgraph_of g h \<Longrightarrow> set cs \<subseteq> conns g \<Longrightarrow>
    \<exists>h'. keepBranch cs h = Inr h' \<and> grown g (set cs) h h'"
proof (induction cs arbitrary: h)
  case Nil
  then show ?case by (simp add: keepBranch_def grown_refl)
next
  case (Cons c cs)
  from grown_connection [OF g keys Cons.prems(1), of c] Cons.prems(2) obtain h1 where
    h1: "addConnection (addNodes h [cfrom c, cto c]) (connection_input c) = Inr h1"
    "grown g {c} h h1" by auto
  with Cons.IH [OF grown_sub [OF h1(2)]] Cons.prems(2) obtain h' where
    "keepBranch cs h1 = Inr h'" "grown g (set cs) h1 h'" by auto
  with h1 grown_trans [OF h1(2), of "set cs" h'] show ?case
    by (simp add: keepBranch_def)
qed


section \<open>The branches that are kept\<close>

text \<open>
  \<open>keeps g dest trigger seen x es\<close>: going back from \<open>x\<close>, with the targets \<open>seen\<close> on the branch
  so far, the branch is continued with \<open>es\<close> and kept. It ends at the trigger, or at a node that
  is on the branch already and is not the destination.
\<close>

inductive keeps ::
  "DirectedGraph \<Rightarrow> INode \<Rightarrow> INode \<Rightarrow> INode set \<Rightarrow> INode \<Rightarrow> GraphConnection list \<Rightarrow> bool"
  for g dest trigger where
  at_trigger: "keeps g dest trigger seen trigger []"
| at_cycle: "x \<in> seen \<Longrightarrow> x \<noteq> dest \<Longrightarrow> keeps g dest trigger seen x []"
| parent: "x \<noteq> trigger \<Longrightarrow> x \<notin> seen \<Longrightarrow> p \<in> conns g \<Longrightarrow> is_main p \<Longrightarrow> cto p = x \<Longrightarrow>
    keeps g dest trigger (insert x seen) (cfrom p) es \<Longrightarrow> keeps g dest trigger seen x (p # es)"

inductive_simps keeps_simps: "keeps g dest trigger seen x es"

lemma keeps_main: "keeps g dest trigger seen x es \<Longrightarrow> set es \<subseteq> {c \<in> conns g. is_main c}"
  by (induction rule: keeps.induct) auto

lemma keeps_reach:
  "keeps g dest trigger seen x es \<Longrightarrow> c \<in> set es \<Longrightarrow> (cto c, x) \<in> (main_rel g)\<^sup>*"
proof (induction rule: keeps.induct)
  case (parent x seen p es)
  have "(cfrom p, x) \<in> main_rel g" using parent.hyps by (auto simp: main_rel_iff)
  with parent show ?case by (auto intro: rtrancl_into_rtrancl)
qed simp_all

lemma findSubgraphRecursive_spec:
  assumes g: "graph_ok g" and keys: "keys_unique (node_set g)"
  shows "x \<in> node_set g \<Longrightarrow> subgraph_of g h \<Longrightarrow> set branch \<subseteq> conns g \<Longrightarrow>
    card (node_set g - cto ` set branch) < k \<Longrightarrow>
    \<exists>h'. findSubgraphRecursive k g dest x trigger branch h = Inr h' \<and>
      grown g (\<Union>es \<in> {es. keeps g dest trigger (cto ` set branch) x es}. set branch \<union> set es) h h'"
proof (induction k arbitrary: x branch h)
  case 0
  then show ?case by simp
next
  case (Suc k)
  let ?seen = "cto ` set branch"
  let ?K = "\<Union>es \<in> {es. keeps g dest trigger ?seen x es}. set branch \<union> set es"
  define ps where "ps = filter (\<lambda>c. cto c = x) (map_values (gConnections g))"
  have ps: "p \<in> set ps \<longleftrightarrow> p \<in> conns g \<and> cto p = x" for p
    by (auto simp: ps_def conns_def)
  have run: "findSubgraphRecursive (Suc k) g dest x trigger branch h =
     (if x = trigger then keepBranch branch h
      else if length ps = 0 then Inr h
      else if x = dest \<and> (\<exists>c \<in> set branch. cto c = dest) then Inr h
      else if \<exists>c \<in> set branch. cto c = x then keepBranch branch h
      else res_fold (\<lambda>p h. if ctype p \<noteq> Main then Inr h
            else findSubgraphRecursive k g dest (cfrom p) trigger (branch @ [p]) h) ps h)"
    unfolding findSubgraphRecursive.simps directParents [OF g Suc.prems(1)] res_bind_simps ps_def ..
  show ?case
  proof (cases "x = trigger \<or> x \<in> ?seen")
    case True
    then have seen: "keeps g dest trigger ?seen x es \<longleftrightarrow> es = [] \<and> (x = trigger \<or> x \<noteq> dest)" for es
      by (auto simp: keeps_simps [of g dest trigger ?seen x es])
    have ps_ne: "x \<in> ?seen \<Longrightarrow> ps \<noteq> []" using ps Suc.prems(3) by fastforce
    have mem: "(\<exists>c \<in> set branch. cto c = y) \<longleftrightarrow> y \<in> ?seen" for y by auto
    show ?thesis
    proof (cases "x = trigger \<or> x \<noteq> dest")
      case keep: True
      then have "?K = set branch" unfolding seen by auto
      moreover have "findSubgraphRecursive (Suc k) g dest x trigger branch h = keepBranch branch h"
        unfolding run mem using True keep ps_ne by auto
      ultimately show ?thesis
        using grown_keepBranch [OF g keys Suc.prems(2,3)] by metis
    next
      case False
      then have "?K = {}" unfolding seen by auto
      moreover have "findSubgraphRecursive (Suc k) g dest x trigger branch h = Inr h"
        unfolding run mem using True False ps_ne by auto
      ultimately show ?thesis
        using grown_refl [OF Suc.prems(2)] by metis
    qed
  next
    case False
    let ?T = "\<lambda>p. \<Union>es \<in> {es. keeps g dest trigger (insert x ?seen) (cfrom p) es}.
      insert p (set branch) \<union> set es"
    let ?body = "\<lambda>p h. if ctype p \<noteq> Main then Inr h
            else findSubgraphRecursive k g dest (cfrom p) trigger (branch @ [p]) h"
    have "node_set g - insert x ?seen \<subset> node_set g - ?seen" using Suc.prems(1) False by auto
    then have "card (node_set g - insert x ?seen) < card (node_set g - ?seen)"
      by (intro psubset_card_mono) auto
    with Suc.prems(4) have k: "card (node_set g - insert x ?seen) < k" by simp
    have "\<exists>h'. res_fold ?body ps h = Inr h' \<and> grown g (\<Union>p \<in> {p \<in> set ps. is_main p}. ?T p) h h'"
    proof (rule res_fold_prefix
        [where P = "\<lambda>qs h'. grown g (\<Union>p \<in> {p \<in> set qs. is_main p}. ?T p) h h'"])
      show "grown g (\<Union>p \<in> {p \<in> set []. is_main p}. ?T p) h h"
        using grown_refl [OF Suc.prems(2)] by simp
      fix qs q rs h1
      assume split: "ps = qs @ q # rs" and P: "grown g (\<Union>p \<in> {p \<in> set qs. is_main p}. ?T p) h h1"
      have q: "q \<in> conns g" "cto q = x" using ps [of q] split by auto
      show "\<exists>h2. ?body q h1 = Inr h2 \<and> grown g (\<Union>p \<in> {p \<in> set (qs @ [q]). is_main p}. ?T p) h h2"
      proof (cases "is_main q")
        case False
        then have skip: "{p \<in> set (qs @ [q]). is_main p} = {p \<in> set qs. is_main p}" by auto
        show ?thesis unfolding skip using False P by simp
      next
        case True
        have set_br: "cto ` insert q (set branch) = insert x ?seen" "set (branch @ [q]) = insert q (set branch)"
          using q(2) by auto
        have br: "set (branch @ [q]) \<subseteq> conns g" using Suc.prems(3) q(1) by auto
        from Suc.IH [OF graph_ok_ends(1) [OF g q(1)] grown_sub [OF P] br] k obtain h2 where
          h2: "findSubgraphRecursive k g dest (cfrom q) trigger (branch @ [q]) h1 = Inr h2"
          "grown g (?T q) h1 h2" unfolding set_br by blast
        have step: "(\<Union>p \<in> {p \<in> set (qs @ [q]). is_main p}. ?T p) =
            (\<Union>p \<in> {p \<in> set qs. is_main p}. ?T p) \<union> ?T q"
        proof -
          have "{p \<in> set (qs @ [q]). is_main p} = insert q {p \<in> set qs. is_main p}"
            using True by auto
          then show ?thesis by (simp only: UN_insert Un_commute)
        qed
        show ?thesis unfolding step
          by (rule exI [of _ h2], rule conjI [OF _ grown_trans [OF P h2(2)]])
            (simp only: True h2(1) simp_thms if_False)
      qed
    qed
    then obtain h' where h': "res_fold ?body ps h = Inr h'"
      "grown g (\<Union>p \<in> {p \<in> set ps. is_main p}. ?T p) h h'" by blast
    have "(\<Union>p \<in> {p \<in> set ps. is_main p}. ?T p) = ?K"
    proof (rule set_eqI, rule iffI)
      fix c
      assume "c \<in> (\<Union>p \<in> {p \<in> set ps. is_main p}. ?T p)"
      then obtain p es where p: "p \<in> conns g" "cto p = x" "is_main p"
        "keeps g dest trigger (insert x ?seen) (cfrom p) es" "c \<in> insert p (set branch) \<union> set es"
        using ps by blast
      then have "keeps g dest trigger ?seen x (p # es)" using False by (intro parent) auto
      with p(5) show "c \<in> ?K" by fastforce
    next
      fix c
      assume "c \<in> ?K"
      then obtain es where es: "keeps g dest trigger ?seen x es" "c \<in> set branch \<union> set es" by blast
      from es(1) show "c \<in> (\<Union>p \<in> {p \<in> set ps. is_main p}. ?T p)"
      proof cases
        case at_trigger
        with False show ?thesis by simp
      next
        case at_cycle
        with False show ?thesis by simp
      next
        case (parent p fs)
        then have "p \<in> {p \<in> set ps. is_main p}" using ps by simp
        moreover have "c \<in> ?T p" using parent(1,7) es(2) by auto
        ultimately show ?thesis by (rule UN_I)
      qed
    qed
    note kept = this
    have "grown g ?K h h'" using h'(2) unfolding kept .
    moreover have "findSubgraphRecursive (Suc k) g dest x trigger branch h = Inr h'"
      unfolding run h'(1) [symmetric] using False by auto
    ultimately show ?thesis by (intro exI conjI)
  qed
qed


section \<open>Utility connections\<close>

text \<open>The utility connections from whose target the node \<open>n\<close> can be reached.\<close>

definition utility_above :: "DirectedGraph \<Rightarrow> INode \<Rightarrow> GraphConnection set" where
  "utility_above g n = {c \<in> utility_conns g. (cto c, n) \<in> (graph_rel g)\<^sup>*}"

lemma utility_above_trans:
  assumes "c \<in> utility_above g n" and "m \<in> ends {c}"
  shows "utility_above g m \<subseteq> utility_above g n"
proof -
  have "(cfrom c, cto c) \<in> graph_rel g" "(cto c, n) \<in> (graph_rel g)\<^sup>*"
    using assms(1) by (auto simp: utility_above_def utility_conns_def graph_rel_iff)
  with assms(2) have "(m, n) \<in> (graph_rel g)\<^sup>*"
    by (auto intro: converse_rtrancl_into_rtrancl)
  then show ?thesis by (auto simp: utility_above_def)
qed

lemma addUtilityConnections_spec:
  assumes g: "graph_ok g" and keys: "keys_unique (node_set g)" and n: "n \<in> node_set g"
    and k: "card (conns g) < k" and h: "subgraph_of g h"
  shows "\<exists>h'. addUtilityConnections k g n h = Inr h' \<and> grown g (utility_above g n) h h'"
proof -
  from getParentConnections_reach [OF g n k] obtain cs where cs: "getParentConnections k g n = Inr cs"
    "set cs = {c \<in> conns g. (cto c, n) \<in> (graph_rel g)\<^sup>*}" by blast
  let ?body = "\<lambda>c h. if ctype c = Main then Inr h
           else addConnection (addNodes h [cfrom c, cto c]) (connection_input c)"
  have "\<exists>h'. res_fold ?body cs h = Inr h' \<and> grown g {c \<in> set cs. \<not> is_main c} h h'"
  proof (rule res_fold_prefix [where P = "\<lambda>ds. grown g {c \<in> set ds. \<not> is_main c} h"])
    show "grown g {c \<in> set []. \<not> is_main c} h h" using grown_refl [OF h] by simp
    fix ds c es h1
    assume split: "cs = ds @ c # es" and P: "grown g {c \<in> set ds. \<not> is_main c} h h1"
    have c: "c \<in> conns g" using cs(2) split by auto
    show "\<exists>h2. ?body c h1 = Inr h2 \<and> grown g {e \<in> set (ds @ [c]). \<not> is_main e} h h2"
    proof (cases "is_main c")
      case True
      then have "{e \<in> set (ds @ [c]). \<not> is_main e} = {c \<in> set ds. \<not> is_main c}" by auto
      with True P show ?thesis by metis
    next
      case False
      from grown_connection [OF g keys grown_sub [OF P] c] obtain h2 where
        h2: "addConnection (addNodes h1 [cfrom c, cto c]) (connection_input c) = Inr h2"
        "grown g {c} h1 h2" by blast
      have step: "{c \<in> set ds. \<not> is_main c} \<union> {c} = {e \<in> set (ds @ [c]). \<not> is_main e}"
        using False by auto
      from grown_trans [OF P h2(2)] h2(1) False show ?thesis unfolding step by simp
    qed
  qed
  moreover have "{c \<in> set cs. \<not> is_main c} = utility_above g n"
    using cs(2) by (auto simp: utility_above_def utility_conns_def)
  ultimately show ?thesis using cs(1) by (simp add: addUtilityConnections_def)
qed

text \<open>The connections that the nodes \<open>N\<close> of the first subgraph bring in.\<close>

definition utility_of :: "DirectedGraph \<Rightarrow> INode set \<Rightarrow> GraphConnection set" where
  "utility_of g N = (\<Union>n \<in> N. utility_above g n)"

lemma utilityLoop_spec:
  assumes g: "graph_ok g" and keys: "keys_unique (node_set g)" and k: "card (conns g) < k"
  shows "subgraph_of g h \<Longrightarrow> card (node_set g) < n + i \<Longrightarrow> i \<le> length (gNodes h) \<Longrightarrow>
    \<exists>h'. utilityLoop n k g i h = Inr h' \<and>
      grown g (utility_of g (set (drop i (map_values (gNodes h))))) h h'"
proof (induction n arbitrary: i h)
  case 0
  have "distinct (map_values (gNodes h))"
    using 0(1) by (auto simp: subgraph_of_def graph_ok_def filed_values_distinct)
  then have "length (gNodes h) = card (node_set h)"
    by (metis distinct_card length_map node_set_def)
  also have "\<dots> \<le> card (node_set g)"
    using 0(1) by (intro card_mono) (auto simp: subgraph_of_def)
  finally show ?case using 0 by simp
next
  case (Suc n)
  let ?vs = "map_values (gNodes h)"
  show ?case
  proof (cases "i < length (gNodes h)")
    case False
    then have "arr_get ?vs i = None" "drop i ?vs = []" by (simp_all add: arr_get_def)
    then show ?thesis
      using grown_refl [OF Suc.prems(1)] by (simp add: getNodes_def utility_of_def)
  next
    case True
    define x where "x = ?vs ! i"
    have get: "arr_get ?vs i = Some x" using True by (simp add: arr_get_def x_def)
    have "x \<in> set ?vs" using True by (simp add: x_def)
    then have x: "x \<in> node_set g"
      using Suc.prems(1) by (auto simp: subgraph_of_def node_set_def)
    from addUtilityConnections_spec [OF g keys x k Suc.prems(1)] obtain h1 where h1:
      "addUtilityConnections k g x h = Inr h1" "grown g (utility_above g x) h h1" by blast
    then obtain ns where ns: "map_values (gNodes h1) = ?vs @ ns" by (auto simp: grown_def)
    have "length (gNodes h) \<le> length (gNodes h1)"
      using arg_cong [OF ns, of length] by simp
    with Suc.IH [OF grown_sub [OF h1(2)], of "Suc i"] Suc.prems(2) True obtain h' where h':
      "utilityLoop n k g (Suc i) h1 = Inr h'"
      "grown g (utility_of g (set (drop (Suc i) (map_values (gNodes h1))))) h1 h'" by auto
    have drop_i: "drop i ?vs = x # drop (Suc i) ?vs"
      using True Cons_nth_drop_Suc [of i ?vs] by (simp add: x_def)
    have drop_h1: "drop (Suc i) (map_values (gNodes h1)) = drop (Suc i) ?vs @ ns"
      using True by (simp add: ns)
    have ns_sub: "utility_above g m \<subseteq> utility_above g x \<union> utility_of g (set (drop (Suc i) ?vs))"
      if "m \<in> set ns" for m
    proof -
      have "distinct (map_values (gNodes h1))"
        using grown_sub [OF h1(2)] by (auto simp: subgraph_of_def graph_ok_def filed_values_distinct)
      then have "m \<notin> node_set h" using that ns by (auto simp: node_set_def)
      moreover have "m \<in> node_set h1" using that ns by (simp add: node_set_def)
      ultimately obtain c where "c \<in> utility_above g x" "m \<in> ends {c}"
        using h1(2) by (auto simp: grown_def ends_def)
      then show ?thesis using utility_above_trans by blast
    qed
    have "utility_above g x \<union> utility_of g (set (drop (Suc i) (map_values (gNodes h1)))) =
        utility_of g (set (drop i ?vs))"
      unfolding drop_h1 drop_i utility_of_def using ns_sub by (auto simp: utility_of_def; blast)
    with grown_trans [OF h1(2) h'(2)] h1(1) h'(1) get show ?thesis
      by (simp add: getNodes_def)
  qed
qed

lemma findSubgraph_spec:
  assumes g: "graph_ok g" and keys: "keys_unique (node_set g)" and d: "dest \<in> node_set g"
    and k: "card (node_set g) < k" "card (conns g) < k"
  shows "\<exists>h. findSubgraph k g dest trigger = Inr h \<and> graph_ok h \<and> node_set h = ends (conns h) \<and>
    {c \<in> conns h. is_main c} = \<Union> (set ` {es. keeps g dest trigger {} dest es}) \<and>
    {c \<in> conns h. \<not> is_main c} = utility_of g (ends {c \<in> conns h. is_main c})"
proof -
  let ?K = "\<Union> (set ` {es. keeps g dest trigger {} dest es})"
  have "subgraph_of g emptyGraph" by (simp add: subgraph_of_def)
  from findSubgraphRecursive_spec [OF g keys d this, of "[]" k dest trigger] k(1) obtain h1 where
    h1: "findSubgraphRecursive k g dest dest trigger [] emptyGraph = Inr h1" "grown g ?K emptyGraph h1"
    by auto
  have n1: "node_set h1 = ends ?K" "conns h1 = ?K" using h1(2) by (auto simp: grown_def)
  from utilityLoop_spec [OF g keys k(2) grown_sub [OF h1(2)], of k 0] k(1) obtain h where
    h: "utilityLoop k k g 0 h1 = Inr h" "grown g (utility_of g (node_set h1)) h1 h"
    by (auto simp: node_set_def)
  have main: "?K \<subseteq> {c. is_main c}" using keeps_main by blast
  have util: "utility_of g (node_set h1) \<subseteq> {c. \<not> is_main c}"
    by (auto simp: utility_of_def utility_above_def utility_conns_def)
  have ch: "conns h = ?K \<union> utility_of g (node_set h1)" using h(2) n1 by (simp add: grown_def)
  have "{c \<in> conns h. is_main c} = ?K" "{c \<in> conns h. \<not> is_main c} = utility_of g (node_set h1)"
    unfolding ch using main util by blast+
  moreover have "node_set h = ends (conns h)" using h(2) n1 unfolding ch by (simp add: grown_def)
  moreover have "graph_ok h" using grown_sub [OF h(2)] by (simp add: subgraph_of_def)
  ultimately show ?thesis using h1(1) h(1) n1(1) by (simp add: findSubgraph_def)
qed


section \<open>Paths from the trigger\<close>

text \<open>\<open>main_path g x es y\<close>: the connections \<open>es\<close> lead from \<open>x\<close> back to \<open>y\<close>.\<close>

primrec main_path :: "DirectedGraph \<Rightarrow> INode \<Rightarrow> GraphConnection list \<Rightarrow> INode \<Rightarrow> bool" where
  "main_path g x [] y \<longleftrightarrow> x = y"
| "main_path g x (c # es) y \<longleftrightarrow>
     c \<in> conns g \<and> is_main c \<and> cto c = x \<and> main_path g (cfrom c) es y"

lemma main_path_keeps:
  "main_path g x es trigger \<Longrightarrow> distinct (map cto es) \<Longrightarrow> trigger \<notin> cto ` set es \<Longrightarrow>
   seen \<inter> cto ` set es = {} \<Longrightarrow> keeps g dest trigger seen x es"
proof (induction es arbitrary: x seen)
  case Nil
  then show ?case by (auto intro: at_trigger)
next
  case (Cons c es)
  have "keeps g dest trigger (insert x seen) (cfrom c) es"
    using Cons.prems by (intro Cons.IH) auto
  with Cons.prems show ?case by (intro parent) auto
qed

text \<open>Between nodes that are connected there is such a path.\<close>

lemma main_path_exists:
  assumes g: "finite N" "main_rel g \<subseteq> N \<times> N"
  shows "x \<in> N \<Longrightarrow> x \<notin> A \<Longrightarrow> trigger \<notin> A \<Longrightarrow>
    (x, trigger) \<in> (avoiding ((main_rel g)\<inverse>) A)\<^sup>* \<Longrightarrow>
    \<exists>es. main_path g x es trigger \<and> distinct (map cto es) \<and> trigger \<notin> cto ` set es \<and>
      A \<inter> cto ` set es = {}"
proof (induction "card (N - A)" arbitrary: x A rule: less_induct)
  case less
  show ?case
  proof (cases "x = trigger")
    case True
    then show ?thesis by (intro exI [of _ "[]"]) simp
  next
    case False
    from avoiding_exit [OF less.prems(4) False] obtain b where
      b: "(b, x) \<in> main_rel g" "(b, trigger) \<in> (avoiding ((main_rel g)\<inverse>) (insert x A))\<^sup>*" by blast
    from b(1) obtain c where c: "c \<in> conns g" "is_main c" "cfrom c = b" "cto c = x"
      by (auto simp: main_rel_iff)
    have "b \<notin> insert x A"
    proof
      assume "b \<in> insert x A"
      from avoiding_stuck [OF b(2) this] \<open>b \<in> insert x A\<close> less.prems(3) False show False by auto
    qed
    moreover have "b \<in> N" using b(1) g(2) by auto
    moreover have "card (N - insert x A) < card (N - A)"
      using less.prems(1,2) g(1) by (intro psubset_card_mono) auto
    ultimately obtain es where "main_path g b es trigger" "distinct (map cto es)"
      "trigger \<notin> cto ` set es" "insert x A \<inter> cto ` set es = {}"
      using less.hyps [of "insert x A" b] b(2) False less.prems(3) by auto
    with c False less.prems(2) show ?thesis by (intro exI [of _ "c # es"]) auto
  qed
qed

end
