(* ===== verification/Execution_Stack_Facts.thy ===== *)
theory Execution_Stack_Facts
  imports Execution_Stack Subgraph
begin

text \<open>
  Facts about the groups of incoming connections and the recreated execution stack.
\<close>


section \<open>Groups\<close>

text \<open>The connections of a list of groups, and what each group looks like.\<close>

definition grouped :: "SourceConnectionGroup list \<Rightarrow> GraphConnection multiset" where
  "grouped gs = mset (concat (map groupConnections gs))"

definition group_ok :: "(GraphConnection \<Rightarrow> bool) \<Rightarrow> SourceConnectionGroup \<Rightarrow> bool" where
  "group_ok P grp \<longleftrightarrow>
     groupConnections grp \<noteq> [] \<and>
     (complete grp \<longleftrightarrow> (\<forall>c \<in> set (groupConnections grp). P c)) \<and>
     (\<exists>s. map inputIndex (groupConnections grp) = [s..<s + length (groupConnections grp)])"

text \<open>The current group: empty right before an input that has a connection, or well-formed.\<close>

definition current_ok ::
  "(GraphConnection \<Rightarrow> bool) \<Rightarrow> GraphConnection list \<Rightarrow> GraphConnection list \<Rightarrow> SourceConnectionGroup \<Rightarrow>
   int \<Rightarrow> bool" where
  "current_ok P xs ys cur i \<longleftrightarrow>
     (complete cur \<longleftrightarrow> (\<forall>c \<in> set (groupConnections cur). P c)) \<and>
     (if groupConnections cur = [] then \<exists>c \<in> set (xs @ ys). int (inputIndex c) = i + 1
      else \<exists>s. map inputIndex (groupConnections cur) = [s..<s + length (groupConnections cur)] \<and>
           i + 1 = int (s + length (groupConnections cur)))"

lemma current_ok_group: "current_ok P xs ys cur i \<Longrightarrow> groupConnections cur \<noteq> [] \<Longrightarrow> group_ok P cur"
  by (auto simp: current_ok_def group_ok_def)

lemma current_ok_push:
  assumes cur: "current_ok P xs ys cur i" and c: "int (inputIndex c) = i + 1"
    and b: "b \<longleftrightarrow> complete cur \<and> P c"
  shows "current_ok P xs' ys' \<lparr>complete = b, groupConnections = groupConnections cur @ [c]\<rparr> (i + 1)"
proof (cases "groupConnections cur = []")
  case True
  with cur c b show ?thesis by (auto simp: current_ok_def intro!: exI [of _ "inputIndex c"])
next
  case False
  with cur obtain s where s: "map inputIndex (groupConnections cur) = [s..<s + length (groupConnections cur)]"
    "i + 1 = int (s + length (groupConnections cur))" by (auto simp: current_ok_def)
  then have "inputIndex c = s + length (groupConnections cur)" using c by simp
  with s cur b show ?thesis by (auto simp: current_ok_def intro!: exI [of _ s])
qed

lemma groupLoop_spec:
  "\<forall>c \<in> set xs. P c \<Longrightarrow> \<forall>c \<in> set ys. \<not> P c \<Longrightarrow> current_ok P xs ys cur i \<Longrightarrow>
   \<forall>grp \<in> set gs. group_ok P grp \<Longrightarrow>
   grouped (groupLoop xs ys cur i gs) = grouped gs + mset (groupConnections cur) + mset xs + mset ys \<and>
   (\<forall>grp \<in> set (groupLoop xs ys cur i gs). group_ok P grp)"
proof (induction xs ys cur i gs rule: groupLoop.induct)
  case (1 xs ys cur i gs)
  show ?case
  proof (cases "xs = [] \<and> ys = []")
    case True
    then have "groupConnections cur \<noteq> []" using "1.prems"(3) by (auto simp: current_ok_def)
    with current_ok_group [OF "1.prems"(3)] True "1.prems" show ?thesis
      by (simp add: groupLoop.simps [of "[]" "[]"] grouped_def ac_simps)
  next
    case False
    then have cond: "length xs > 0 \<or> length ys > 0" by auto
    let ?Q = "\<lambda>c. int (inputIndex c) = i + 1"
    show ?thesis
    proof (cases "take_first ?Q xs")
      case (Some p)
      obtain c rest where p: "p = (c, rest)" by (cases p)
      from take_first_Some [OF Some [unfolded p]] have c: "?Q c" "mset xs = add_mset c (mset rest)"
        by auto
      then have sets: "c \<in> set xs" "set rest \<subseteq> set xs"
        by (metis set_mset_mset union_single_eq_member) (metis c(2) mset_subset_eq_insertD set_mset_mset set_mset_mono mset_subset_eq_add_mset_cancel subset_mset.order_refl insert_subset set_mset_add_mset_insert)
      let ?cur = "cur\<lparr>groupConnections := groupConnections cur @ [c]\<rparr>"
      have cur: "?cur = \<lparr>complete = complete cur, groupConnections = groupConnections cur @ [c]\<rparr>"
        by simp
      have "current_ok P rest ys ?cur (i + 1)"
        unfolding cur by (rule current_ok_push [OF "1.prems"(3) c(1)]) (use "1.prems"(1) sets in auto)
      with "1.IH"(3) [OF cond Some p [symmetric]] "1.prems" sets
      have IH: "grouped (groupLoop rest ys ?cur (i + 1) gs) =
          grouped gs + mset (groupConnections ?cur) + mset rest + mset ys \<and>
          (\<forall>grp \<in> set (groupLoop rest ys ?cur (i + 1) gs). group_ok P grp)" by blast
      have "groupLoop xs ys cur i gs = groupLoop rest ys ?cur (i + 1) gs"
        using cond Some p by (simp add: groupLoop.simps [of xs ys])
      with IH c(2) show ?thesis by simp
    next
      case None
      show ?thesis
      proof (cases "take_first ?Q ys")
        case (Some p)
        obtain c rest where p: "p = (c, rest)" by (cases p)
        from take_first_Some [OF Some [unfolded p]] have c: "?Q c" "mset ys = add_mset c (mset rest)"
          by auto
        then have sets: "c \<in> set ys" "set rest \<subseteq> set ys"
          by (metis set_mset_mset union_single_eq_member) (metis c(2) set_mset_mset set_mset_add_mset_insert subset_insertI)
        let ?cur = "cur\<lparr>groupConnections := groupConnections cur @ [c], complete := False\<rparr>"
        have cur: "?cur = \<lparr>complete = False, groupConnections = groupConnections cur @ [c]\<rparr>"
          by simp
        have "current_ok P xs rest ?cur (i + 1)"
          unfolding cur by (rule current_ok_push [OF "1.prems"(3) c(1)]) (use "1.prems"(2) sets in auto)
        with "1.IH"(2) [OF cond None Some p [symmetric]] "1.prems" sets
        have IH: "grouped (groupLoop xs rest ?cur (i + 1) gs) =
            grouped gs + mset (groupConnections ?cur) + mset xs + mset rest \<and>
            (\<forall>grp \<in> set (groupLoop xs rest ?cur (i + 1) gs). group_ok P grp)" by blast
        have "groupLoop xs ys cur i gs = groupLoop xs rest ?cur (i + 1) gs"
          using cond None Some p by (simp add: groupLoop.simps [of xs ys])
        with IH c(2) show ?thesis by simp
      next
        case none: None
        have no: "\<forall>c \<in> set (xs @ ys). \<not> ?Q c" using None none by (auto simp: take_first_None)
        then have ne: "groupConnections cur \<noteq> []" using "1.prems"(3) by (auto simp: current_ok_def)
        have "current_ok P xs ys newGroup (indexBefore xs ys)"
          using indexBefore_mem [of xs ys] False by (auto simp: current_ok_def newGroup_def)
        with "1.IH"(1) [OF cond None none] "1.prems" current_ok_group [OF "1.prems"(3) ne]
        have IH: "grouped (groupLoop xs ys newGroup (indexBefore xs ys) (gs @ [cur])) =
            grouped (gs @ [cur]) + mset (groupConnections newGroup) + mset xs + mset ys \<and>
            (\<forall>grp \<in> set (groupLoop xs ys newGroup (indexBefore xs ys) (gs @ [cur])). group_ok P grp)"
          by auto
        have "groupLoop xs ys cur i gs = groupLoop xs ys newGroup (indexBefore xs ys) (gs @ [cur])"
          using cond None none by (simp add: groupLoop.simps [of xs ys])
        with IH show ?thesis by (simp add: grouped_def newGroup_def)
      qed
    qed
  qed
qed

lemma groupLoop_start:
  assumes "\<forall>c \<in> set xs. P c" and "\<forall>c \<in> set ys. \<not> P c" and "xs @ ys \<noteq> []"
  shows "grouped (groupLoop xs ys newGroup (indexBefore xs ys) []) = mset xs + mset ys \<and>
    (\<forall>grp \<in> set (groupLoop xs ys newGroup (indexBefore xs ys) []). group_ok P grp)"
proof -
  have "current_ok P xs ys newGroup (indexBefore xs ys)"
    using indexBefore_mem [OF assms(3)] by (auto simp: current_ok_def newGroup_def)
  from groupLoop_spec [OF assms(1,2) this, of "[]"] show ?thesis
    by (simp add: grouped_def newGroup_def)
qed

lemma getSourceDataGroups_spec:
  fixes lc g n rd pd
  defines "groups \<equiv> getSourceDataGroups lc g n rd pd"
  shows "grouped groups = mset (filter (\<lambda>c. cto c = n) (map_values (gConnections g)))"
    and "\<forall>grp \<in> set groups. group_ok (hasDataOf rd pd) grp"
proof -
  let ?P = "hasDataOf rd pd" and ?cs = "filter (\<lambda>c. cto c = n) (map_values (gConnections g))"
  let ?xs = "sort_by (sortByInputIndexThenByName lc) (filter ?P ?cs)"
  let ?ys = "sort_by (sortByInputIndexThenByName lc) (filter (\<lambda>c. \<not> ?P c) ?cs)"
  have part: "mset (filter ?P cs) + mset (filter (\<lambda>c. \<not> ?P c) cs) = mset cs" for cs
    by (induction cs) auto
  have split: "mset ?xs + mset ?ys = mset ?cs"
    using part [of ?cs] by (simp only: mset_sort_by)
  have "grouped groups = mset ?cs \<and> (\<forall>grp \<in> set groups. group_ok ?P grp)"
  proof (cases "filter ?P ?cs = [] \<and> filter (\<lambda>c. \<not> ?P c) ?cs = []")
    case True
    then have "groups = []" by (simp add: groups_def getSourceDataGroups_def getConnections_def)
    moreover have "mset ?cs = {#}" using True split by simp
    ultimately show ?thesis by (simp add: grouped_def)
  next
    case False
    then have run: "groups = groupLoop ?xs ?ys newGroup (indexBefore ?xs ?ys) []"
      by (auto simp: groups_def getSourceDataGroups_def getConnections_def Let_def)
    have ne: "?xs @ ?ys \<noteq> []"
      using False unfolding append_is_Nil_conv sort_by_Nil .
    have "\<forall>c \<in> set ?xs. ?P c" "\<forall>c \<in> set ?ys. \<not> ?P c" by simp_all
    from groupLoop_start [OF this ne] show ?thesis unfolding run [symmetric] split .
  qed
  then show "grouped groups = mset ?cs" "\<forall>grp \<in> set groups. group_ok ?P grp" by auto
qed


section \<open>Waiting executions\<close>

text \<open>What is filed for a node, a run, a connection type and an input.\<close>

definition waiting_list ::
  "(string, (nat, (NodeConnectionType, 'a slot list) js_map) js_map) js_map \<Rightarrow> string \<Rightarrow> nat \<Rightarrow>
   NodeConnectionType \<Rightarrow> 'a slot list" where
  "waiting_list w name run type =
     (case map_get w name of None \<Rightarrow> [] | Some runs \<Rightarrow>
       (case map_get runs run of None \<Rightarrow> [] | Some byType \<Rightarrow>
         (case map_get byType type of None \<Rightarrow> [] | Some l \<Rightarrow> l)))"

lemma addWaiting_list:
  "waiting_list (addWaiting w name run type i d) name' run' type' =
     (if name' = name \<and> run' = run \<and> type' = type
      then arr_put Hole (waiting_list w name run type) i (case d of None \<Rightarrow> Null | Some x \<Rightarrow> Data x)
      else waiting_list w name' run' type')"
  by (auto simp: waiting_list_def addWaiting_def Let_def split: option.split)

lemma addWaiting_keys:
  "fst ` set (addWaiting w name run type i d) = insert name (fst ` set w)"
  by (simp only: addWaiting_def Let_def keys_map_put flip: set_map)


section \<open>The recreated stack\<close>

text \<open>The data and the run that a connection contributes: pinned data, or the first run with data.\<close>

definition output_data ::
  "IRunData \<Rightarrow> IPinData \<Rightarrow> GraphConnection \<Rightarrow> (INodeExecutionData list \<times> nat) option" where
  "output_data rd pd c =
     (case map_get pd (nodeName (cfrom c)) of
        Some items \<Rightarrow> Some (items, 0)
      | None \<Rightarrow> (case getIncomingDataFromAnyRun rd (nodeName (cfrom c)) (ctype c) (outputIndex c) of
          Inl _ \<Rightarrow> None | Inr d \<Rightarrow> d))"

definition items_of :: "IRunData \<Rightarrow> IPinData \<Rightarrow> GraphConnection \<Rightarrow> INodeExecutionData list list" where
  "items_of rd pd c = (case output_data rd pd c of None \<Rightarrow> [] | Some (items, _) \<Rightarrow> [items])"

definition source_of :: "IRunData \<Rightarrow> IPinData \<Rightarrow> GraphConnection \<Rightarrow> ISourceData" where
  "source_of rd pd c =
     \<lparr>previousNode = nodeName (cfrom c), previousNodeOutput = Some (outputIndex c),
      previousNodeRun = Some (case output_data rd pd c of None \<Rightarrow> 0 | Some (_, run) \<Rightarrow> run)\<rparr>"

definition group_entry ::
  "IRunData \<Rightarrow> IPinData \<Rightarrow> INode \<Rightarrow> SourceConnectionGroup \<Rightarrow> IExecuteData" where
  "group_entry rd pd n grp =
     mainEntry n (concat (map (items_of rd pd) (groupConnections grp)))
       (Some (map (source_of rd pd) (groupConnections grp)))"

lemma completeConnection_spec:
  assumes "hasDataOf rd pd c" and "typed_runs rd (nodeName (cfrom c)) (ctype c)"
  shows "completeConnection rd pd c (ds, ss) = Inr (ds @ items_of rd pd c, ss @ [source_of rd pd c])"
proof (cases "map_get pd (nodeName (cfrom c))")
  case (Some items)
  then show ?thesis
    by (simp add: completeConnection_def items_of_def source_of_def output_data_def Let_def)
next
  case None
  from getIncomingDataFromAnyRun_total [OF assms(2)] obtain d where
    "getIncomingDataFromAnyRun rd (nodeName (cfrom c)) (ctype c) (outputIndex c) = Inr d" by blast
  moreover have "map_get rd (nodeName (cfrom c)) \<noteq> None"
    using assms(1) None by (auto simp: hasDataOf_def)
  ultimately show ?thesis
    using None by (auto simp: completeConnection_def items_of_def source_of_def output_data_def
        Let_def split: option.split)
qed

lemma completeGroup_spec:
  "\<forall>c \<in> set cs. hasDataOf rd pd c \<and> typed_runs rd (nodeName (cfrom c)) (ctype c) \<Longrightarrow>
   res_fold (completeConnection rd pd) cs (ds, ss) =
     Inr (ds @ concat (map (items_of rd pd) cs), ss @ map (source_of rd pd) cs)"
  by (induction cs arbitrary: ds ss) (simp_all add: completeConnection_spec)

text \<open>Connections of an incomplete group only add to what waits for the node.\<close>

definition waits :: "RecreatedStack \<Rightarrow> string set" where
  "waits s = set (map_keys (rcWaiting s))"

lemma waitingConnection_spec:
  assumes "typed_runs rd (nodeName (cfrom c)) (ctype c)"
  shows "\<exists>s'. waitingConnection rd name run c s = Inr s' \<and> rcStack s' = rcStack s \<and>
    waits s' \<subseteq> insert name (waits s)"
proof -
  from getIncomingDataFromAnyRun_total [OF assms] obtain d where
    "getIncomingDataFromAnyRun rd (nodeName (cfrom c)) (ctype c) (outputIndex c) = Inr d" by blast
  then show ?thesis
    by (auto simp: waitingConnection_def waits_def addWaitingExecution_def addWaiting_keys
        split: option.split)
qed

lemma stackGroup_spec:
  assumes ok: "group_ok (hasDataOf rd pd) grp"
    and typed: "\<forall>c \<in> set (groupConnections grp). typed_runs rd (nodeName (cfrom c)) (ctype c)"
  shows "\<exists>s'. stackGroup rd pd n grp s = Inr s' \<and>
    rcStack s' = rcStack s @ (if complete grp then [group_entry rd pd n grp] else []) \<and>
    waits s' \<subseteq> insert (nodeName n) (waits s)"
proof (cases "complete grp")
  case True
  then have "\<forall>c \<in> set (groupConnections grp). hasDataOf rd pd c \<and>
      typed_runs rd (nodeName (cfrom c)) (ctype c)"
    using ok typed by (auto simp: group_ok_def)
  with True show ?thesis
    by (auto simp: stackGroup_def completeGroup_spec group_entry_def waits_def)
next
  case False
  define run where "run = (case map_get (rcWaiting s) (nodeName n) of
               None \<Rightarrow> 0 | Some runs \<Rightarrow> length runs)"
  have "\<exists>s'. res_fold (waitingConnection rd (nodeName n) run) (groupConnections grp) s = Inr s' \<and>
      rcStack s' = rcStack s \<and> waits s' \<subseteq> insert (nodeName n) (waits s)"
  proof (rule res_fold_total)
    show "rcStack s = rcStack s \<and> waits s \<subseteq> insert (nodeName n) (waits s)" by auto
    fix c t
    assume "c \<in> set (groupConnections grp)" and P: "rcStack t = rcStack s \<and>
      waits t \<subseteq> insert (nodeName n) (waits s)"
    with typed waitingConnection_spec [of rd c "nodeName n" run t]
    show "\<exists>u. waitingConnection rd (nodeName n) run c t = Inr u \<and> rcStack u = rcStack s \<and>
        waits u \<subseteq> insert (nodeName n) (waits s)" by fastforce
  qed
  with False show ?thesis by (simp add: stackGroup_def run_def)
qed

text \<open>The entries of a start node: one empty item without inputs, else one per complete group.\<close>

definition start_entries ::
  "(string \<Rightarrow> string \<Rightarrow> int) \<Rightarrow> DirectedGraph \<Rightarrow> IRunData \<Rightarrow> IPinData \<Rightarrow> INode \<Rightarrow> IExecuteData list" where
  "start_entries lc g rd pd n =
     (if \<not> (\<exists>c \<in> conns g. cto c = n \<and> is_main c) then [mainEntry n [[empty_item]] None]
      else map (group_entry rd pd n) (filter complete (getSourceDataGroups lc g n rd pd)))"

lemma group_conns:
  "grp \<in> set (getSourceDataGroups lc g n rd pd) \<Longrightarrow> c \<in> set (groupConnections grp) \<Longrightarrow> c \<in> conns g"
proof -
  assume "grp \<in> set (getSourceDataGroups lc g n rd pd)" "c \<in> set (groupConnections grp)"
  then have "c \<in># grouped (getSourceDataGroups lc g n rd pd)" by (auto simp: grouped_def)
  then have "c \<in># mset (filter (\<lambda>c. cto c = n) (map_values (gConnections g)))"
    unfolding getSourceDataGroups_spec(1) .
  then show "c \<in> conns g" by (auto simp: conns_def)
qed

lemma stackStartNode_spec:
  assumes g: "graph_ok g" and rd: "data_ok g rd" and n: "n \<in> node_set g"
  shows "\<exists>s'. stackStartNode lc g rd pd n s = Inr s' \<and>
    rcStack s' = rcStack s @ start_entries lc g rd pd n \<and>
    waits s' \<subseteq> insert (nodeName n) (waits s)"
proof (cases "\<exists>c \<in> conns g. cto c = n \<and> is_main c")
  case False
  then have "filter is_main (filter (\<lambda>c. cto c = n) (map_values (gConnections g))) = []"
    by (auto simp: filter_empty_conv conns_def)
  with False directParents [OF g n] show ?thesis
    by (auto simp: stackStartNode_def start_entries_def waits_def)
next
  case True
  let ?groups = "getSourceDataGroups lc g n rd pd"
  have "filter is_main (filter (\<lambda>c. cto c = n) (map_values (gConnections g))) \<noteq> []"
    using True by (auto simp: filter_empty_conv conns_def)
  then have run: "stackStartNode lc g rd pd n s = res_fold (stackGroup rd pd n) ?groups s"
    using directParents [OF g n] by (simp add: stackStartNode_def)
  have "\<exists>s'. res_fold (stackGroup rd pd n) ?groups s = Inr s' \<and>
      rcStack s' = rcStack s @ map (group_entry rd pd n) (filter complete ?groups) \<and>
      waits s' \<subseteq> insert (nodeName n) (waits s)"
  proof (rule res_fold_prefix [where P = "\<lambda>gs s'.
      rcStack s' = rcStack s @ map (group_entry rd pd n) (filter complete gs) \<and>
      waits s' \<subseteq> insert (nodeName n) (waits s)"])
    show "rcStack s = rcStack s @ map (group_entry rd pd n) (filter complete []) \<and>
        waits s \<subseteq> insert (nodeName n) (waits s)" by auto
    fix as grp bs t
    assume split: "?groups = as @ grp # bs" and P:
      "rcStack t = rcStack s @ map (group_entry rd pd n) (filter complete as) \<and>
       waits t \<subseteq> insert (nodeName n) (waits s)"
    have grp: "grp \<in> set ?groups" using split by simp
    then have "group_ok (hasDataOf rd pd) grp" using getSourceDataGroups_spec(2) by blast
    moreover have "\<forall>c \<in> set (groupConnections grp). typed_runs rd (nodeName (cfrom c)) (ctype c)"
      using group_conns [OF grp] rd by (auto simp: data_ok_def)
    ultimately obtain u where u: "stackGroup rd pd n grp t = Inr u"
      "rcStack u = rcStack t @ (if complete grp then [group_entry rd pd n grp] else [])"
      "waits u \<subseteq> insert (nodeName n) (waits t)" using stackGroup_spec by blast
    show "\<exists>u. stackGroup rd pd n grp t = Inr u \<and>
        rcStack u = rcStack s @ map (group_entry rd pd n) (filter complete (as @ [grp])) \<and>
        waits u \<subseteq> insert (nodeName n) (waits s)"
      using u P by (intro exI [of _ u]) auto
  qed
  with True show ?thesis unfolding run by (simp add: start_entries_def)
qed

lemma recreateNodeExecutionStack_spec:
  assumes g: "graph_ok g" and rd: "data_ok g rd" and starts: "set starts \<subseteq> node_set g"
    and enabled: "\<forall>n \<in> node_set g. disabled n \<noteq> Some True"
  shows "\<exists>s. recreateNodeExecutionStack lc g starts rd pd = Inr s \<and>
    rcStack s = concat (map (start_entries lc g rd pd) starts) \<and> waits s \<subseteq> nodeName ` set starts"
proof -
  let ?s0 = "\<lparr>rcStack = [], rcWaiting = [], rcWaitingSource = []\<rparr>"
  have "\<exists>s. res_fold (stackStartNode lc g rd pd) starts ?s0 = Inr s \<and>
      rcStack s = concat (map (start_entries lc g rd pd) starts) \<and> waits s \<subseteq> nodeName ` set starts"
  proof (rule res_fold_prefix [where P = "\<lambda>ns s.
      rcStack s = concat (map (start_entries lc g rd pd) ns) \<and> waits s \<subseteq> nodeName ` set ns"])
    show "rcStack ?s0 = concat (map (start_entries lc g rd pd) []) \<and> waits ?s0 \<subseteq> nodeName ` set []"
      by (simp add: waits_def)
    fix as n bs t
    assume "starts = as @ n # bs" and P:
      "rcStack t = concat (map (start_entries lc g rd pd) as) \<and> waits t \<subseteq> nodeName ` set as"
    then have "n \<in> node_set g" using starts by auto
    from stackStartNode_spec [OF g rd this, of lc pd t] P
    show "\<exists>u. stackStartNode lc g rd pd n t = Inr u \<and>
        rcStack u = concat (map (start_entries lc g rd pd) (as @ [n])) \<and>
        waits u \<subseteq> nodeName ` set (as @ [n])" by fastforce
  qed
  with enabled show ?thesis
    by (auto simp: recreateNodeExecutionStack_def getNodes_def node_set_def)
qed

end
