(* ===== verification/Workflow_Graph.thy ===== *)
theory Workflow_Graph
  imports Execution_Stack_Facts
begin

text \<open>
  The graph of a workflow and the trigger that a partial execution starts from, and how the two
  views of the connections fit together.
\<close>


section \<open>Well-formed workflows\<close>

text \<open>
  Nodes are filed under their names, the connections by destination are those that the
  constructor computes, every name that occurs in a connection is a node, both ends of a
  connection have the same type, and every node has a registered type.
\<close>

definition workflow_ok :: "Workflow \<Rightarrow> bool" where
  "workflow_ok w \<longleftrightarrow>
     filed nodeName (wfNodes w) \<and>
     connectionsByDestinationNode w = getConnectionsByDestination (connectionsBySourceNode w) \<and>
     (\<forall>s \<in> set (map_keys (connectionsBySourceNode w)). getNode w s \<noteq> None) \<and>
     (\<forall>(s, t, out, info) \<in> set (connection_entries (connectionsBySourceNode w)).
        getNode w (connNode info) \<noteq> None \<and> connType info = t) \<and>
     (\<forall>n \<in> set (map_values (wfNodes w)). nodeTypes w (nodeType n) (typeVersion n) \<noteq> None)"

definition wf_node_set :: "Workflow \<Rightarrow> INode set" where
  "wf_node_set w = set (map_values (wfNodes w))"

text \<open>A connection of the graph is an entry of the connections, with the names resolved.\<close>

definition wf_conns :: "Workflow \<Rightarrow> GraphConnection set" where
  "wf_conns w = {c. getNode w (nodeName (cfrom c)) = Some (cfrom c) \<and>
     getNode w (nodeName (cto c)) = Some (cto c) \<and>
     (\<exists>info. (nodeName (cfrom c), ctype c, outputIndex c, info)
          \<in> set (connection_entries (connectionsBySourceNode w)) \<and>
        connNode info = nodeName (cto c) \<and> connIndex info = inputIndex c)}"

lemma getNode_iff:
  "workflow_ok w \<Longrightarrow> getNode w name = Some n \<longleftrightarrow> n \<in> wf_node_set w \<and> nodeName n = name"
  unfolding getNode_def wf_node_set_def
  using filed_get [of nodeName "wfNodes w"] by (auto simp: workflow_ok_def)

lemma entry_key: "(s, t, out, info) \<in> set (connection_entries cs) \<Longrightarrow> s \<in> set (map_keys cs)"
  by (force simp: connection_entries_def)

lemma entry_nodes:
  assumes "workflow_ok w" and "(s, t, out, info) \<in> set (connection_entries (connectionsBySourceNode w))"
  shows "\<exists>a b. getNode w s = Some a \<and> getNode w (connNode info) = Some b \<and> connType info = t"
  using assms entry_key [OF assms(2)] by (fastforce simp: workflow_ok_def)


section \<open>The graph of a workflow\<close>

definition addEntry ::
  "Workflow \<Rightarrow> string \<times> NodeConnectionType \<times> nat \<times> IConnection \<Rightarrow> DirectedGraph \<Rightarrow> DirectedGraph res" where
  "addEntry w = (\<lambda>(s, t, out, info) g.
     case getNode w s of
       None \<Rightarrow> Inl AssertionError
     | Some a \<Rightarrow> (case getNode w (connNode info) of
         None \<Rightarrow> Inl AssertionError
       | Some b \<Rightarrow> addConnection g (connection_input
           \<lparr>cfrom = a, cto = b, ctype = t, outputIndex = out, inputIndex = connIndex info\<rparr>)))"

lemma fromWorkflow_entries:
  assumes "\<forall>s \<in> set (map_keys (connectionsBySourceNode w)). getNode w s \<noteq> None"
  shows "fromWorkflow w = res_fold (addEntry w) (connection_entries (connectionsBySourceNode w))
    (addNodes emptyGraph (map_values (wfNodes w)))"
proof -
  let ?es = "\<lambda>nc. concat (map (\<lambda>(t, outs). map (Pair t) (output_entries outs)) nc)"
  let ?body = "\<lambda>(fromName, iConnection) g. case getNode w fromName of
           None \<Rightarrow> Inl AssertionError
         | Some from_node \<Rightarrow>
             res_fold (\<lambda>(outType, (out, conn)) g.
                 case getNode w (connNode conn) of
                   None \<Rightarrow> Inl AssertionError
                 | Some to_node \<Rightarrow>
                     addConnection g
                       \<lparr>inFrom = from_node, inTo = to_node, inType = Some outType,
                        inOutputIndex = Some out, inInputIndex = Some (connIndex conn)\<rparr>)
               (?es iConnection) g"
  have node: "?body (s, nc) g = res_fold (addEntry w) (map (Pair s) (?es nc)) g"
    if "getNode w s \<noteq> None" for s nc g
  proof -
    from that obtain a where "getNode w s = Some a" by blast
    then show ?thesis
      unfolding res_fold_map
      by (simp, intro arg_cong2 [of _ _ _ _ "\<lambda>f xs. res_fold f xs g"])
        (auto simp: fun_eq_iff addEntry_def connection_input_def split: option.split)
  qed
  have "res_fold ?body (connectionsBySourceNode w) g = res_fold (addEntry w)
      (concat (map (\<lambda>(s, nc). map (Pair s) (?es nc)) (connectionsBySourceNode w))) g" for g
  proof (rule res_fold_expand)
    fix p g
    assume p: "p \<in> set (connectionsBySourceNode w)"
    obtain s nc where s: "p = (s, nc)" by (cases p)
    then have "getNode w s \<noteq> None" using assms p by force
    from node [OF this, of nc g] show "?body p g =
        res_fold (addEntry w) (case p of (s, nc) \<Rightarrow> map (Pair s) (?es nc)) g"
      unfolding s by (simp only: prod.case)
  qed
  note run = this
  have entries: "concat (map (\<lambda>(s, nc). map (Pair s) (?es nc)) cs) = connection_entries cs" for cs
    by (simp add: connection_entries_def map_concat comp_def case_prod_unfold)
  show ?thesis
    using run [of "addNodes emptyGraph (map_values (wfNodes w))"]
    unfolding fromWorkflow_def entries .
qed

lemma addNodes_fresh:
  assumes "filed nodeName m"
  shows "addNodes emptyGraph (map_values m) = \<lparr>gNodes = m, gConnections = []\<rparr>"
proof -
  have "addNodes h ns = h\<lparr>gNodes := fold (\<lambda>n m. map_put (nodeName n) n m) ns (gNodes h)\<rparr>" for h ns
    by (induction ns arbitrary: h) (simp_all add: addNodes_def addNode_def)
  then show ?thesis using filed_rebuild [OF assms] by (simp add: emptyGraph_def)
qed

lemma fromWorkflow_spec:
  assumes w: "workflow_ok w" and keys: "keys_unique (wf_node_set w)"
  shows "\<exists>g. fromWorkflow w = Inr g \<and> graph_ok g \<and> node_set g = wf_node_set w \<and>
    conns g = wf_conns w"
proof -
  let ?cs = "connectionsBySourceNode w"
  define conn_of :: "(string \<times> NodeConnectionType \<times> nat \<times> IConnection) list \<Rightarrow> GraphConnection set"
    where "conn_of = (\<lambda>es. {c. getNode w (nodeName (cfrom c)) = Some (cfrom c) \<and>
     getNode w (nodeName (cto c)) = Some (cto c) \<and>
     (\<exists>info. (nodeName (cfrom c), ctype c, outputIndex c, info) \<in> set es \<and>
        connNode info = nodeName (cto c) \<and> connIndex info = inputIndex c)})"
  have filed: "filed nodeName (wfNodes w)" using w by (simp add: workflow_ok_def)
  have "\<exists>g. res_fold (addEntry w) (connection_entries ?cs) \<lparr>gNodes = wfNodes w, gConnections = []\<rparr> = Inr g \<and>
      graph_ok g \<and> node_set g = wf_node_set w \<and> conns g = conn_of (connection_entries ?cs)"
  proof (rule res_fold_prefix
      [where P = "\<lambda>es g. graph_ok g \<and> node_set g = wf_node_set w \<and> conns g = conn_of es"])
    show "graph_ok \<lparr>gNodes = wfNodes w, gConnections = []\<rparr> \<and>
        node_set \<lparr>gNodes = wfNodes w, gConnections = []\<rparr> = wf_node_set w \<and>
        conns \<lparr>gNodes = wfNodes w, gConnections = []\<rparr> = conn_of []"
      using filed by (simp add: graph_ok_def conns_def node_set_def wf_node_set_def conn_of_def)
    fix es e fs g
    assume split: "connection_entries ?cs = es @ e # fs" and P: "graph_ok g \<and>
      node_set g = wf_node_set w \<and> conns g = conn_of es"
    obtain s t out info where e: "e = (s, t, out, info)" by (cases e) auto
    then have mem: "(s, t, out, info) \<in> set (connection_entries ?cs)" using split by simp
    from entry_nodes [OF w mem] obtain a b where
      ab: "getNode w s = Some a" "getNode w (connNode info) = Some b" by blast
    then have names: "nodeName a = s" "nodeName b = connNode info" "a \<in> wf_node_set w" "b \<in> wf_node_set w"
      using getNode_iff [OF w] by auto
    define c where "c = \<lparr>cfrom = a, cto = b, ctype = t, outputIndex = out, inputIndex = connIndex info\<rparr>"
    have "cfrom c \<in> node_set g" "cto c \<in> node_set g" using P names by (simp_all add: c_def)
    with addConnection_spec [of g c] P obtain g' where g': "addConnection g (connection_input c) = Inr g'"
      "graph_ok g'" "node_set g' = node_set g" "conns g' = insert c {c' \<in> conns g. makeKey c' \<noteq> makeKey c}"
      by blast
    have "inj_on makeKey (insert c (conns g))"
      by (rule keys_inj [OF keys]) (use P names graph_ok_ends [of g] in \<open>auto simp: c_def\<close>)
    then have "{c' \<in> conns g. makeKey c' \<noteq> makeKey c} = conns g - {c}"
      by (rule inj_on_other) auto
    then have cg': "conns g' = insert c (conns g)" using g'(4) by auto
    have "conn_of (es @ [e]) = insert c (conn_of es)"
      unfolding conn_of_def e using ab names by (auto simp: c_def)
    then show "\<exists>t. addEntry w e g = Inr t \<and> graph_ok t \<and> node_set t = wf_node_set w \<and>
        conns t = conn_of (es @ [e])"
      using g' cg' P ab by (simp add: addEntry_def e c_def)
  qed
  moreover have "conn_of (connection_entries ?cs) = wf_conns w"
    by (simp add: conn_of_def wf_conns_def)
  moreover have "fromWorkflow w = res_fold (addEntry w) (connection_entries ?cs)
      \<lparr>gNodes = wfNodes w, gConnections = []\<rparr>"
    using fromWorkflow_entries [of w] addNodes_fresh [OF filed] w by (simp add: workflow_ok_def)
  ultimately show ?thesis by simp
qed


section \<open>Parents by name and by connection\<close>

text \<open>The Main connections between nodes, as pairs of names.\<close>

definition wf_main :: "Workflow \<Rightarrow> (string \<times> string) set" where
  "wf_main w = {(s, connNode info) | s out info.
     (s, Main, out, info) \<in> set (connection_entries (connectionsBySourceNode w))}"

lemma all_groups_iff:
  "c \<in> set (all_groups arr) \<longleftrightarrow>
     (\<exists>i. c \<in> set (case arr_get arr i of Some (Some l) \<Rightarrow> l | _ \<Rightarrow> []))"
proof
  assume "c \<in> set (all_groups arr)"
  then obtain grp l where "grp \<in> set arr" "grp = Some l" "c \<in> set l"
    by (auto simp: all_groups_def split: option.splits)
  then obtain i where "i < length arr" "arr ! i = Some l" by (metis in_set_conv_nth)
  with \<open>c \<in> set l\<close> show "\<exists>i. c \<in> set (case arr_get arr i of Some (Some l) \<Rightarrow> l | _ \<Rightarrow> [])"
    by (intro exI [of _ i]) (simp add: arr_get_def)
next
  assume "\<exists>i. c \<in> set (case arr_get arr i of Some (Some l) \<Rightarrow> l | _ \<Rightarrow> [])"
  then obtain i where "c \<in> set (case arr_get arr i of Some (Some l) \<Rightarrow> l | _ \<Rightarrow> [])" ..
  then obtain l where "arr_get arr i = Some (Some l)" "c \<in> set l"
    by (cases "arr_get arr i") (auto split: option.splits)
  then have "Some l \<in> set arr" by (auto simp: arr_get_def split: if_splits dest: nth_mem)
  with \<open>c \<in> set l\<close> show "c \<in> set (all_groups arr)" by (force simp: all_groups_def)
qed

lemma selected_groups:
  "c \<in> set (selected_conns ic (OfType t) n) \<longleftrightarrow> (\<exists>i. c \<in> set (conn_group ic n t i))"
proof (cases "map_get ic n")
  case None
  then show ?thesis by (simp add: selected_conns_def conn_group_def)
next
  case (Some nc)
  show ?thesis
  proof (cases "map_get nc t")
    case None
    with Some show ?thesis by (simp add: selected_conns_def selectedTypes_def conn_group_def)
  next
    case (Some arr)
    have "conn_group ic n t i = (case arr_get arr i of Some (Some l) \<Rightarrow> l | _ \<Rightarrow> [])" for i
      using Some \<open>map_get ic n = Some nc\<close> by (simp add: conn_group_def)
    moreover have "selected_conns ic (OfType t) n = all_groups arr"
      using Some \<open>map_get ic n = Some nc\<close> by (simp add: selected_conns_def selectedTypes_def)
    ultimately show ?thesis by (simp only: all_groups_iff)
  qed
qed

lemma conn_rel_by_destination:
  assumes "workflow_ok w"
  shows "conn_rel (connectionsByDestinationNode w) (OfType Main) = (wf_main w)\<inverse>"
proof (rule set_eqI, clarify)
  fix a b
  let ?es = "connection_entries (connectionsBySourceNode w)"
  have "(a, b) \<in> conn_rel (connectionsByDestinationNode w) (OfType Main) \<longleftrightarrow>
      (\<exists>i. \<exists>c \<in> set (conn_group (getConnectionsByDestination (connectionsBySourceNode w)) a Main i).
         connNode c = b)"
  proof -
    have dest: "connectionsByDestinationNode w = getConnectionsByDestination (connectionsBySourceNode w)"
      using assms by (simp add: workflow_ok_def)
    show ?thesis unfolding conn_rel_def dest by (auto simp: Bex_def selected_groups)
  qed
  also have "\<dots> \<longleftrightarrow> (\<exists>ty out info. (b, ty, out, info) \<in> set ?es \<and> connNode info = a \<and> connType info = Main)"
  proof -
    have pick: "(\<exists>c \<in> set (map f (filter P es)). Q c) \<longleftrightarrow> (\<exists>e \<in> set es. P e \<and> Q (f e))"
      for f P Q and es :: "(string \<times> NodeConnectionType \<times> nat \<times> IConnection) list"
      by auto
    show ?thesis unfolding byDestination_group pick by (simp add: Bex_def)
  qed
  also have "\<dots> \<longleftrightarrow> (b, a) \<in> wf_main w"
  proof
    assume "\<exists>ty out info. (b, ty, out, info) \<in> set ?es \<and> connNode info = a \<and> connType info = Main"
    then obtain ty out info where i: "(b, ty, out, info) \<in> set ?es" "connNode info = a"
      "connType info = Main" by blast
    with entry_nodes [OF assms i(1)] show "(b, a) \<in> wf_main w" by (auto simp: wf_main_def)
  next
    assume "(b, a) \<in> wf_main w"
    then obtain out info where i: "(b, Main, out, info) \<in> set ?es" "connNode info = a"
      by (auto simp: wf_main_def)
    with entry_nodes [OF assms i(1)]
    show "\<exists>ty out info. (b, ty, out, info) \<in> set ?es \<and> connNode info = a \<and> connType info = Main"
      by blast
  qed
  finally show "(a, b) \<in> conn_rel (connectionsByDestinationNode w) (OfType Main) \<longleftrightarrow>
      (a, b) \<in> (wf_main w)\<inverse>" by simp
qed

text \<open>Nodes, instead of names, and paths.\<close>

definition wf_main_rel :: "Workflow \<Rightarrow> (INode \<times> INode) set" where
  "wf_main_rel w = {(a, b). a \<in> wf_node_set w \<and> b \<in> wf_node_set w \<and> (nodeName a, nodeName b) \<in> wf_main w}"

lemma wf_main_rel_graph:
  assumes w: "workflow_ok w"
  shows "{(cfrom c, cto c) | c. c \<in> wf_conns w \<and> is_main c} = wf_main_rel w"
proof (rule set_eqI, clarify, rule iffI)
  fix a b
  assume "(a, b) \<in> {(cfrom c, cto c) | c. c \<in> wf_conns w \<and> is_main c}"
  then show "(a, b) \<in> wf_main_rel w"
    using getNode_iff [OF w] by (force simp: wf_conns_def wf_main_rel_def wf_main_def)
next
  fix a b
  assume ab: "(a, b) \<in> wf_main_rel w"
  then obtain out info where
    "(nodeName a, Main, out, info) \<in> set (connection_entries (connectionsBySourceNode w))"
    "connNode info = nodeName b" by (auto simp: wf_main_rel_def wf_main_def)
  moreover have "getNode w (nodeName a) = Some a" "getNode w (nodeName b) = Some b"
    using ab getNode_iff [OF w] by (auto simp: wf_main_rel_def)
  ultimately have "\<lparr>cfrom = a, cto = b, ctype = Main, outputIndex = out, inputIndex = connIndex info\<rparr>
      \<in> wf_conns w" by (auto simp: wf_conns_def)
  then show "(a, b) \<in> {(cfrom c, cto c) | c. c \<in> wf_conns w \<and> is_main c}" by force
qed

lemma wf_main_nodes:
  assumes "workflow_ok w" and "(s, s') \<in> wf_main w"
  shows "\<exists>a b. getNode w s = Some a \<and> getNode w s' = Some b"
  using assms entry_nodes unfolding wf_main_def by blast

lemma wf_main_trancl:
  assumes w: "workflow_ok w"
  shows "(s, s') \<in> (wf_main w)\<^sup>+ \<longleftrightarrow>
    (\<exists>a b. getNode w s = Some a \<and> getNode w s' = Some b \<and> (a, b) \<in> (wf_main_rel w)\<^sup>+)"
proof
  have one: "\<exists>a b. getNode w x = Some a \<and> getNode w y = Some b \<and> (a, b) \<in> wf_main_rel w"
    if "(x, y) \<in> wf_main w" for x y
    using wf_main_nodes [OF w that] that getNode_iff [OF w] by (auto simp: wf_main_rel_def)
  assume "(s, s') \<in> (wf_main w)\<^sup>+"
  then show "\<exists>a b. getNode w s = Some a \<and> getNode w s' = Some b \<and> (a, b) \<in> (wf_main_rel w)\<^sup>+"
  proof (induction rule: trancl_induct)
    case (base y)
    then show ?case using one by blast
  next
    case (step y z)
    then show ?case using one [OF step.hyps(2)] by (metis option.inject trancl_into_trancl)
  qed
next
  assume "\<exists>a b. getNode w s = Some a \<and> getNode w s' = Some b \<and> (a, b) \<in> (wf_main_rel w)\<^sup>+"
  then obtain a b where ab: "nodeName a = s" "nodeName b = s'" "(a, b) \<in> (wf_main_rel w)\<^sup>+"
    using getNode_iff [OF w] by blast
  from ab(3) have "(nodeName a, nodeName b) \<in> (wf_main w)\<^sup>+"
    by (induction rule: trancl_induct) (auto simp: wf_main_rel_def intro: trancl_into_trancl)
  with ab show "(s, s') \<in> (wf_main w)\<^sup>+" by simp
qed

end
