(* ===== verification/Graph_Properties.thy ===== *)
theory Graph_Properties
  imports Workflow_Graph
begin

text \<open>
  Properties of the connections of a workflow, of DirectedGraph and of the search for a
  subgraph, each with a concrete instance.
\<close>


section \<open>Connections of a workflow\<close>

text \<open>
  The connections by destination are the connections by source, turned around: input i of
  node n lists output out of node s exactly as often as output out of s lists input i of n.
\<close>

theorem connections_by_destination:
  assumes "wf_connections ic"
  shows "count_list (conn_group (getConnectionsByDestination ic) n t i)
            \<lparr>connNode = s, connType = ty, connIndex = out\<rparr> =
         count_list (conn_group ic s ty out) \<lparr>connNode = n, connType = t, connIndex = i\<rparr>"
  by (rule byDestination_count [OF assms])

definition two_outputs :: IConnections where
  "two_outputs =
     [(''a'', [(Main, [Some [\<lparr>connNode = ''b'', connType = Main, connIndex = 2\<rparr>],
                       Some [\<lparr>connNode = ''b'', connType = Main, connIndex = 0\<rparr>]])])]"

theorem connections_by_destination_witness:
  "count_list (conn_group (getConnectionsByDestination two_outputs) ''b'' Main 2)
      \<lparr>connNode = ''a'', connType = Main, connIndex = 0\<rparr> = 1"
proof -
  have "wf_connections two_outputs" by (simp add: wf_connections_def two_outputs_def)
  from connections_by_destination [OF this, of "''b''" Main 2 "''a''" Main 0] show ?thesis
    by (simp add: two_outputs_def conn_group_def arr_get_def)
qed

text \<open>
  With unlimited depth, and a stack deeper than the number of nodes with connections,
  getConnectedNodes returns exactly the other nodes that can be reached over connections of the
  selected types.
\<close>

theorem getConnectedNodes_closure:
  assumes "length ic < k"
  shows "\<exists>ret. getConnectedNodes k ic name sel (-1) [] = Inr ret \<and>
     set ret = {y. y \<noteq> name \<and> (name, y) \<in> (conn_rel ic sel)\<^sup>+}"
  by (rule getConnectedNodes_reach [OF assms])

theorem getConnectedNodes_closure_witness:
  "\<exists>ret. getConnectedNodes 2 two_outputs ''a'' AllTypes (-1) [] = Inr ret \<and>
     set ret = {y. y \<noteq> ''a'' \<and> (''a'', y) \<in> (conn_rel two_outputs AllTypes)\<^sup>+}"
  by (rule getConnectedNodes_closure) (simp add: two_outputs_def)


section \<open>The directed graph\<close>

text \<open>
  getChildren returns exactly the nodes that can be reached by at least one connection, each
  once, when the stack is deeper than the number of nodes.
\<close>

theorem getChildren_descendants:
  assumes "graph_ok g" and "x \<in> node_set g" and "card (node_set g) < k"
  shows "\<exists>T. getChildren k g x = Inr T \<and> distinct T \<and> set T = {y. (x, y) \<in> (graph_rel g)\<^sup>+}"
  by (rule getChildren_reach [OF assms])

theorem getChildren_descendants_witness:
  "\<exists>T. getChildren 3 loop_graph node_a = Inr T \<and> distinct T \<and>
     set T = {y. (node_a, y) \<in> (graph_rel loop_graph)\<^sup>+}"
  by (rule getChildren_descendants [OF loop_graph_ok(1) _ loop_graph_ok(2)])
    (simp add: loop_graph_def graph_of_simps)

text \<open>
  getParentConnections returns exactly the connections from whose target the node can be
  reached, each once, when the stack is deeper than the number of connections.
\<close>

theorem getParentConnections_upstream:
  assumes "graph_ok g" and "x \<in> node_set g" and "card (conns g) < k"
  shows "\<exists>T. getParentConnections k g x = Inr T \<and> distinct T \<and>
     set T = {c \<in> conns g. (cto c, x) \<in> (graph_rel g)\<^sup>*}"
  by (rule getParentConnections_reach [OF assms])

lemma loop_graph_conns: "card (conns loop_graph) < 3"
  by (simp add: loop_graph_def graph_of_simps card_insert_if)

lemma loop_graph_nodes: "node_set loop_graph = {node_a, node_b}"
  by (simp add: loop_graph_def graph_of_simps)

theorem getParentConnections_upstream_witness:
  "\<exists>T. getParentConnections 3 loop_graph node_a = Inr T \<and> distinct T \<and>
     set T = {c \<in> conns loop_graph. (cto c, node_a) \<in> (graph_rel loop_graph)\<^sup>*}"
  by (rule getParentConnections_upstream [OF loop_graph_ok(1) _ loop_graph_conns])
    (simp add: loop_graph_nodes)

text \<open>
  depthFirstSearch finds a node that satisfies the predicate and can be reached from the
  start, and returns nothing only when there is no such node.
\<close>

theorem depthFirstSearch_finds:
  assumes "graph_ok g" and "x \<in> node_set g" and "card (node_set g) < k"
  shows "\<exists>r. depthFirstSearch k g x fn = Inr r \<and>
    (case r of Some n \<Rightarrow> fn n \<and> (x, n) \<in> (graph_rel g)\<^sup>*
     | None \<Rightarrow> \<forall>n. (x, n) \<in> (graph_rel g)\<^sup>* \<longrightarrow> \<not> fn n)"
  by (rule depthFirstSearch_spec [OF assms])

theorem depthFirstSearch_finds_witness:
  "\<exists>r. depthFirstSearch 3 loop_graph node_a (\<lambda>n. nodeName n = ''b'') = Inr r \<and>
    (case r of Some n \<Rightarrow> nodeName n = ''b'' \<and> (node_a, n) \<in> (graph_rel loop_graph)\<^sup>*
     | None \<Rightarrow> \<forall>n. (node_a, n) \<in> (graph_rel loop_graph)\<^sup>* \<longrightarrow> nodeName n \<noteq> ''b'')"
  by (rule depthFirstSearch_finds [OF loop_graph_ok(1) _ loop_graph_ok(2)])
    (simp add: loop_graph_nodes)

text \<open>
  C39. fromWorkflow returns a well-formed graph with the nodes of the workflow, whose connections
  are exactly the entries of the connections by source with both names resolved.
\<close>

theorem fromWorkflow_graph:
  assumes "workflow_ok w" and "keys_unique (wf_node_set w)"
  shows "\<exists>g. fromWorkflow w = Inr g \<and> graph_ok g \<and> node_set g = wf_node_set w \<and>
    conns g = wf_conns w"
  by (rule fromWorkflow_spec [OF assms])

definition plain_type :: "string list \<Rightarrow> INodeType" where
  "plain_type groups =
     \<lparr>ntName = ''t'', ntGroup = groups, ntInputs = 1, ntRequiredInputs = None, ntExecute = True, ntPoll = False,
      ntTrigger = False, ntWebhook = False\<rparr>"

definition example_types :: INodeTypes where
  "example_types name version =
     (if name = ''trig'' then Some (plain_type [''trigger'']) else Some (plain_type [''transform'']))"

abbreviation node_t :: INode where "node_t \<equiv> plain_node 4 ''start'' ''trig''"

text \<open>A trigger, then a, then b.\<close>

definition chain_workflow :: Workflow where
  "chain_workflow =
     (let conn = (\<lambda>n. [(Main, [Some [\<lparr>connNode = n, connType = Main, connIndex = 0\<rparr>]])]);
          cs = [(''start'', conn ''a''), (''a'', conn ''b'')]
      in \<lparr>wfNodes = [(''start'', node_t), (''a'', node_a), (''b'', node_b)],
          connectionsBySourceNode = cs,
          connectionsByDestinationNode = getConnectionsByDestination cs,
          executionOrder = Some ''v1'', wfPinData = None, nodeTypes = example_types\<rparr>)"

lemma chain_workflow_nodes: "wf_node_set chain_workflow = {node_t, node_a, node_b}"
  by (simp add: wf_node_set_def chain_workflow_def Let_def)

lemma chain_workflow_entries:
  "connection_entries (connectionsBySourceNode chain_workflow) =
     [(''start'', Main, 0, \<lparr>connNode = ''a'', connType = Main, connIndex = 0\<rparr>),
      (''a'', Main, 0, \<lparr>connNode = ''b'', connType = Main, connIndex = 0\<rparr>)]"
  by (simp add: chain_workflow_def Let_def connection_entries_def output_entries_def)

lemma chain_workflow_ok: "workflow_ok chain_workflow" "keys_unique (wf_node_set chain_workflow)"
proof -
  show "workflow_ok chain_workflow"
    unfolding workflow_ok_def chain_workflow_entries
    by (simp add: chain_workflow_def Let_def filed_def getNode_def example_types_def)
  show "keys_unique (wf_node_set chain_workflow)"
    unfolding chain_workflow_nodes by (rule keys_unique_no_hyphen) auto
qed

theorem fromWorkflow_graph_witness:
  "\<exists>g. fromWorkflow chain_workflow = Inr g \<and> graph_ok g \<and>
    node_set g = wf_node_set chain_workflow \<and> conns g = wf_conns chain_workflow"
  by (rule fromWorkflow_graph [OF chain_workflow_ok])

text \<open>
  A graph in which a node has connections of two types cannot be turned back into a workflow:
  toIConnections reads an index of an array that it never created.
\<close>

definition two_types :: DirectedGraph where
  "two_types =
     (let c = main_conn node_a node_b; d = c\<lparr>ctype := AiTool\<rparr>
      in \<lparr>gNodes = [(''a'', node_a), (''b'', node_b)],
          gConnections = [(makeKey c, c), (makeKey d, d)]\<rparr>)"

theorem toIConnections_two_types:
  "graph_ok two_types \<and> toIConnections two_types = Inl TypeError"
  by (simp add: two_types_def Let_def graph_of_simps toIConnections_def pushIConnection_def
      arr_get_def arr_put_def)

text \<open>
  Two different connections may have the same key, so that adding the second replaces the
  first: a name may contain the separator.
\<close>

abbreviation node_k :: INode where "node_k \<equiv> plain_node 5 ''a-main-0-0-b'' ''t''"

abbreviation node_m :: INode where "node_m \<equiv> plain_node 6 ''b-main-0-0-c'' ''t''"

theorem makeKey_collision:
  "main_conn node_k node_c \<noteq> main_conn node_a node_m \<and>
   makeKey (main_conn node_k node_c) = makeKey (main_conn node_a node_m)"
  by (simp add: main_conn_def makeKey_def show_nat.simps char_of_def bit_0)


section \<open>The subgraph\<close>

lemma utility_of_iff:
  "utility_of g N = {c \<in> conns g. ctype c \<noteq> Main \<and> (\<exists>n \<in> N. (cto c, n) \<in> (graph_rel g)\<^sup>*)}"
  by (auto simp: utility_of_def utility_above_def utility_conns_def)

text \<open>
  C6. findSubgraph returns a well-formed graph made of exactly these connections: the Main
  connections of the branches that lead back from the destination to the trigger or into a cycle,
  and the other connections from which one of their nodes can be reached; its nodes are the ends
  of its connections.
\<close>

theorem findSubgraph_exact:
  assumes "graph_ok g" and "keys_unique (node_set g)" and "dest \<in> node_set g"
    and "card (node_set g) < k" and "card (conns g) < k"
  shows "\<exists>h. findSubgraph k g dest trigger = Inr h \<and> graph_ok h \<and> node_set h = ends (conns h) \<and>
    {c \<in> conns h. ctype c = Main} = \<Union> (set ` {es. keeps g dest trigger {} dest es}) \<and>
    {c \<in> conns h. ctype c \<noteq> Main} =
      {c \<in> conns g. ctype c \<noteq> Main \<and> (\<exists>n \<in> ends {c \<in> conns h. ctype c = Main}.
         (cto c, n) \<in> (graph_rel g)\<^sup>*)}"
  using findSubgraph_spec [OF assms, of trigger] unfolding utility_of_iff .

definition chain_graph :: DirectedGraph where
  "chain_graph = graph_of [node_t, node_a, node_b] [(node_t, node_a), (node_a, node_b)]"

lemma chain_graph_ok:
  "graph_ok chain_graph" "keys_unique (node_set chain_graph)"
  "node_set chain_graph = {node_t, node_a, node_b}"
  "conns chain_graph = {main_conn node_t node_a, main_conn node_a node_b}"
  "card (node_set chain_graph) < 4" "card (conns chain_graph) < 4"
proof -
  show nodes: "node_set chain_graph = {node_t, node_a, node_b}"
    by (simp add: chain_graph_def graph_of_simps)
  show cs: "conns chain_graph = {main_conn node_t node_a, main_conn node_a node_b}"
    by (simp add: chain_graph_def graph_of_simps)
  show "graph_ok chain_graph" by (simp add: chain_graph_def graph_of_simps)
  show "keys_unique (node_set chain_graph)"
    unfolding nodes by (rule keys_unique_no_hyphen) auto
  show "card (node_set chain_graph) < 4" unfolding nodes by (simp add: card_insert_if)
  show "card (conns chain_graph) < 4" unfolding cs by (simp add: card_insert_if)
qed

theorem findSubgraph_exact_witness:
  "\<exists>h. findSubgraph 4 chain_graph node_b node_t = Inr h \<and> graph_ok h \<and> node_set h = ends (conns h) \<and>
    {c \<in> conns h. ctype c = Main} =
      \<Union> (set ` {es. keeps chain_graph node_b node_t {} node_b es}) \<and>
    {c \<in> conns h. ctype c \<noteq> Main} =
      {c \<in> conns chain_graph. ctype c \<noteq> Main \<and> (\<exists>n \<in> ends {c \<in> conns h. ctype c = Main}.
         (cto c, n) \<in> (graph_rel chain_graph)\<^sup>*)}"
  by (rule findSubgraph_exact [OF chain_graph_ok(1,2) _ chain_graph_ok(5,6)])
    (simp add: chain_graph_ok(3))

text \<open>
  Every connection of a path of Main connections from the trigger to the destination that
  enters no node twice is in the subgraph, and from every Main connection of the subgraph the
  destination can be reached.
\<close>

theorem findSubgraph_paths:
  assumes "graph_ok g" and "keys_unique (node_set g)" and "dest \<in> node_set g"
    and "card (node_set g) < k" and "card (conns g) < k"
    and "findSubgraph k g dest trigger = Inr h"
  shows "(\<forall>es. main_path g dest es trigger \<longrightarrow> distinct (map cto es) \<longrightarrow>
      trigger \<notin> cto ` set es \<longrightarrow> set es \<subseteq> conns h) \<and>
    (\<forall>c \<in> conns h. ctype c = Main \<longrightarrow> c \<in> conns g \<and> (cto c, dest) \<in> (main_rel g)\<^sup>*)"
proof (intro conjI allI ballI impI)
  from findSubgraph_spec [OF assms(1-5), of trigger] assms(6)
  have main: "{c \<in> conns h. is_main c} = \<Union> (set ` {es. keeps g dest trigger {} dest es})" by auto
  show "set es \<subseteq> conns h" if "main_path g dest es trigger" "distinct (map cto es)"
    "trigger \<notin> cto ` set es" for es
    using main_path_keeps [OF that, of "{}" dest] main by auto
  fix c
  assume "c \<in> conns h" "ctype c = Main"
  with main obtain es where es: "keeps g dest trigger {} dest es" "c \<in> set es" by blast
  show "c \<in> conns g" using keeps_main [OF es(1)] es(2) by auto
  show "(cto c, dest) \<in> (main_rel g)\<^sup>*" using keeps_reach [OF es] .
qed

theorem findSubgraph_paths_witness:
  "\<exists>h. findSubgraph 4 chain_graph node_b node_t = Inr h \<and>
    {main_conn node_a node_b, main_conn node_t node_a} \<subseteq> conns h"
proof -
  have d: "node_b \<in> node_set chain_graph" by (simp add: chain_graph_ok(3))
  obtain h where h: "findSubgraph 4 chain_graph node_b node_t = Inr h"
    using findSubgraph_spec [OF chain_graph_ok(1,2) d chain_graph_ok(5,6)] by blast
  let ?es = "[main_conn node_a node_b, main_conn node_t node_a]"
  have "main_path chain_graph node_b ?es node_t" "distinct (map cto ?es)" "node_t \<notin> cto ` set ?es"
    by (simp_all add: chain_graph_ok(4)) (simp_all add: main_conn_def)
  with findSubgraph_paths [OF chain_graph_ok(1,2) d chain_graph_ok(5,6) h]
  have "set ?es \<subseteq> conns h" by blast
  with h show ?thesis by auto
qed

text \<open>
  A cycle upstream of the destination is kept although it cannot be reached from the trigger:
  here c and d only reach each other and b, and all their connections are in the subgraph.
\<close>

definition upstream_cycle :: DirectedGraph where
  "upstream_cycle = graph_of [node_t, node_b, node_c, node_d]
     [(node_t, node_b), (node_c, node_b), (node_d, node_c), (node_c, node_d)]"

theorem findSubgraph_upstream_cycle:
  "\<exists>h. findSubgraph 5 upstream_cycle node_b node_t = Inr h \<and> main_conn node_c node_b \<in> conns h \<and>
    (node_t, node_c) \<notin> (graph_rel upstream_cycle)\<^sup>*"
proof -
  have nodes: "node_set upstream_cycle = {node_t, node_b, node_c, node_d}"
    by (simp add: upstream_cycle_def graph_of_simps)
  have cs: "conns upstream_cycle = {main_conn node_t node_b, main_conn node_c node_b,
      main_conn node_d node_c, main_conn node_c node_d}"
    by (simp add: upstream_cycle_def graph_of_simps)
  have ok: "graph_ok upstream_cycle" by (simp add: upstream_cycle_def graph_of_simps)
  have keys: "keys_unique (node_set upstream_cycle)"
    unfolding nodes by (rule keys_unique_no_hyphen) auto
  have sizes: "card (node_set upstream_cycle) < 5" "card (conns upstream_cycle) < 5"
    unfolding nodes cs by (simp_all add: card_insert_if)
  have "node_b \<in> node_set upstream_cycle" by (simp add: nodes)
  from findSubgraph_spec [OF ok keys this sizes, of node_t] obtain h where
    h: "findSubgraph 5 upstream_cycle node_b node_t = Inr h"
    "{c \<in> conns h. is_main c} = \<Union> (set ` {es. keeps upstream_cycle node_b node_t {} node_b es})"
    by blast
  have ends: "cfrom (main_conn a b) = a" "cto (main_conn a b) = b" "is_main (main_conn a b)" for a b
    by (simp_all add: main_conn_def)
  have "keeps upstream_cycle node_b node_t {node_d, node_c, node_b} node_c []"
    by (rule at_cycle) simp_all
  then have "keeps upstream_cycle node_b node_t {node_c, node_b} node_d [main_conn node_c node_d]"
    using parent [of node_d node_t "{node_c, node_b}" "main_conn node_c node_d" upstream_cycle node_b "[]"]
    by (simp add: cs ends)
  then have "keeps upstream_cycle node_b node_t {node_b} node_c
      [main_conn node_d node_c, main_conn node_c node_d]"
    using parent [of node_c node_t "{node_b}" "main_conn node_d node_c" upstream_cycle node_b
        "[main_conn node_c node_d]"] by (simp add: cs ends)
  then have "keeps upstream_cycle node_b node_t {} node_b
      [main_conn node_c node_b, main_conn node_d node_c, main_conn node_c node_d]"
    using parent [of node_b node_t "{}" "main_conn node_c node_b" upstream_cycle node_b
        "[main_conn node_d node_c, main_conn node_c node_d]"] by (simp add: cs ends)
  then have "main_conn node_c node_b \<in> {c \<in> conns h. is_main c}" unfolding h(2) by force
  moreover have "y \<in> {node_t, node_b}" if "(node_t, y) \<in> (graph_rel upstream_cycle)\<^sup>*" for y
    using that by (induction rule: rtrancl_induct) (auto simp: graph_rel_iff cs ends)
  then have "(node_t, node_c) \<notin> (graph_rel upstream_cycle)\<^sup>*" by fastforce
  ultimately show ?thesis using h(1) by blast
qed

end
