(* ===== verification/Partial_Run.thy ===== *)
theory Partial_Run
  imports Graph_Properties
begin

text \<open>
  The steps of a partial execution put together: the trigger that is chosen, and what
  \<open>runPartialWorkflow2\<close> hands to the execution.
\<close>


section \<open>The trigger\<close>

definition is_trigger :: "Workflow \<Rightarrow> INode \<Rightarrow> bool" where
  "is_trigger w n \<longleftrightarrow>
     (case nodeTypes w (nodeType n) (typeVersion n) of
        None \<Rightarrow> False | Some t \<Rightarrow> trigger_group \<in> set (ntGroup t))"

definition trigger_candidates :: "Workflow \<Rightarrow> string \<Rightarrow> INode set" where
  "trigger_candidates w name =
     {n \<in> wf_node_set w. is_trigger w n \<and> disabled n \<noteq> Some True \<and> nodeName n \<noteq> name \<and>
        (nodeName n, name) \<in> (wf_main w)\<^sup>+}"

definition is_pinned :: "Workflow \<Rightarrow> INode \<Rightarrow> bool" where
  "is_pinned w n \<longleftrightarrow> getPinDataOfNode w (nodeName n) \<noteq> None"

lemma resolve_names:
  "\<forall>name \<in> set names. getNode w name \<noteq> None \<Longrightarrow>
   res_fold (\<lambda>name acc. case getNode w name of None \<Rightarrow> Inl AssertionError
       | Some node \<Rightarrow> Inr (acc @ [(node, nodeTypes w (nodeType node) (typeVersion node))])) names acc =
     Inr (acc @ map (\<lambda>name. let n = the (getNode w name)
       in (n, nodeTypes w (nodeType n) (typeVersion n))) names)"
  by (induction names arbitrary: acc) (auto simp: Let_def)

lemma filter_triggers:
  "\<forall>n \<in> set ns. nodeTypes w (nodeType n) (typeVersion n) \<noteq> None \<Longrightarrow>
   res_fold (\<lambda>(node, nt) acc. case nt of None \<Rightarrow> Inl TypeError
       | Some t \<Rightarrow> Inr (if trigger_group \<in> set (ntGroup t) then acc @ [node] else acc))
     (map (\<lambda>n. (n, nodeTypes w (nodeType n) (typeVersion n))) ns) acc =
   Inr (acc @ filter (is_trigger w) ns)"
  by (induction ns arbitrary: acc) (auto simp: is_trigger_def split: if_splits)

lemma findAllParentTriggers_spec:
  assumes w: "workflow_ok w" and k: "length (connectionsByDestinationNode w) < k"
  shows "\<exists>ts. findAllParentTriggers k w name = Inr ts \<and>
    set ts = {n \<in> wf_node_set w. is_trigger w n \<and> nodeName n \<noteq> name \<and>
      (nodeName n, name) \<in> (wf_main w)\<^sup>+}"
proof -
  from getConnectedNodes_reach [OF k, of name "OfType Main"] obtain names where
    names: "getParentNodes k w name (OfType Main) (-1) = Inr names"
    "set names = {y. y \<noteq> name \<and> (y, name) \<in> (wf_main w)\<^sup>+}"
    by (auto simp: getParentNodes_def conn_rel_by_destination [OF w] trancl_converse)
  define ns where "ns = map (\<lambda>name. the (getNode w name)) names"
  have res: "\<exists>n. getNode w y = Some n" if "y \<in> set names" for y
    using that wf_main_trancl [OF w, of y name] by (auto simp: names(2))
  have ns: "set ns = {n \<in> wf_node_set w. nodeName n \<noteq> name \<and> (nodeName n, name) \<in> (wf_main w)\<^sup>+}"
  proof (rule set_eqI, rule iffI)
    fix n
    assume "n \<in> set ns"
    then obtain y where y: "y \<in> set names" "n = the (getNode w y)" by (auto simp: ns_def)
    with res [OF y(1)] getNode_iff [OF w, of y n] names(2)
    show "n \<in> {n \<in> wf_node_set w. nodeName n \<noteq> name \<and> (nodeName n, name) \<in> (wf_main w)\<^sup>+}"
      by auto
  next
    fix n
    assume n: "n \<in> {n \<in> wf_node_set w. nodeName n \<noteq> name \<and> (nodeName n, name) \<in> (wf_main w)\<^sup>+}"
    then have "nodeName n \<in> set names" "getNode w (nodeName n) = Some n"
      using names(2) getNode_iff [OF w] by auto
    then show "n \<in> set ns" by (force simp: ns_def)
  qed
  have types: "\<forall>n \<in> set ns. nodeTypes w (nodeType n) (typeVersion n) \<noteq> None"
    unfolding ns using w by (auto simp: workflow_ok_def wf_node_set_def)
  have "map (\<lambda>name. let n = the (getNode w name) in (n, nodeTypes w (nodeType n) (typeVersion n))) names =
      map (\<lambda>n. (n, nodeTypes w (nodeType n) (typeVersion n))) ns"
    by (simp add: ns_def Let_def)
  then have "findAllParentTriggers k w name = Inr (filter (is_trigger w) ns)"
    unfolding findAllParentTriggers_def names(1) using resolve_names [of names w "[]"] res
      filter_triggers [OF types, of "[]"] by simp
  then show ?thesis using ns by auto
qed

lemma findTrigger_spec:
  assumes w: "workflow_ok w" and k: "length (connectionsByDestinationNode w) < k"
    and perm: "\<And>xs. mset (arrange xs) = mset xs"
  shows "\<exists>r. findTriggerForPartialExecution arrange k w name = Inr r \<and>
    (case r of
       None \<Rightarrow> trigger_candidates w name = {}
     | Some t \<Rightarrow> t \<in> trigger_candidates w name \<and>
         ((\<exists>p \<in> trigger_candidates w name. is_pinned w p) \<longrightarrow> is_pinned w t))"
proof -
  from findAllParentTriggers_spec [OF w k, of name] obtain ts where
    ts: "findAllParentTriggers k w name = Inr ts"
    "set ts = {n \<in> wf_node_set w. is_trigger w n \<and> nodeName n \<noteq> name \<and>
      (nodeName n, name) \<in> (wf_main w)\<^sup>+}" by blast
  define ps where "ps = filter (\<lambda>t. disabled t \<noteq> Some True) ts"
  have ps: "set ps = trigger_candidates w name"
    by (auto simp: ps_def ts(2) trigger_candidates_def)
  define qs where "qs = arrange (filter (is_pinned w) ps)"
  have "set qs = set (filter (is_pinned w) ps)"
    unfolding qs_def by (metis perm set_mset_mset)
  then have qs: "set qs = {t \<in> trigger_candidates w name. is_pinned w t}" using ps by auto
  have run: "findTriggerForPartialExecution arrange k w name =
      Inr (if length qs > 0 then arr_get qs 0 else arr_get ps 0)"
    by (simp add: findTriggerForPartialExecution_def ts(1) ps_def qs_def Let_def is_pinned_def)
  show ?thesis
  proof (cases qs)
    case (Cons q rest)
    then have "q \<in> trigger_candidates w name" "is_pinned w q" using qs by auto
    with Cons run show ?thesis by (simp add: arr_get_def)
  next
    case Nil
    then have none: "\<not> (\<exists>p \<in> trigger_candidates w name. is_pinned w p)" using qs by auto
    show ?thesis
    proof (cases ps)
      case Nil
      with \<open>qs = []\<close> run ps show ?thesis by (simp add: arr_get_def)
    next
      case (Cons p rest)
      with ps have "p \<in> trigger_candidates w name" by auto
      with Cons \<open>qs = []\<close> run none show ?thesis by (simp add: arr_get_def)
    qed
  qed
qed


section \<open>Back to connections\<close>

text \<open>toIConnections returns when all connections of a node have one type.\<close>

definition one_type :: "GraphConnection set \<Rightarrow> bool" where
  "one_type C \<longleftrightarrow> (\<forall>c \<in> C. \<forall>d \<in> C. cfrom c = cfrom d \<longrightarrow> ctype c = ctype d)"

lemma toIConnections_total:
  assumes g: "graph_ok g" and one: "one_type (conns g)"
  shows "\<exists>r. toIConnections g = Inr r"
proof -
  let ?P = "\<lambda>r :: IConnections. \<forall>c \<in> conns g. \<forall>nc. map_get r (nodeName (cfrom c)) = Some nc \<longrightarrow> map_get nc (ctype c) \<noteq> None"
  have "\<exists>r. res_fold pushIConnection (map_values (gConnections g)) [] = Inr r \<and> ?P r"
  proof (rule res_fold_total)
    show "?P []" by simp
    fix c r
    assume "c \<in> set (map_values (gConnections g))" and P: "?P r"
    then have c: "c \<in> conns g" by (simp add: conns_def)
    define rc where "rc = (case map_get r (nodeName (cfrom c)) of None \<Rightarrow> [(ctype c, [])] | Some nc \<Rightarrow> nc)"
    from P c obtain outs where outs: "map_get rc (ctype c) = Some outs"
      by (cases "map_get r (nodeName (cfrom c))") (auto simp: rc_def)
    have same: "ctype d = ctype c" if "d \<in> conns g" "nodeName (cfrom d) = nodeName (cfrom c)" for d
    proof -
      have "cfrom d = cfrom c"
        by (rule inj_onD [OF graph_ok_names_inj [OF g] that(2)])
          (rule graph_ok_ends(1) [OF g that(1)], rule graph_ok_ends(1) [OF g c])
      with one that(1) c show ?thesis unfolding one_type_def by blast
    qed
    show "\<exists>r'. pushIConnection c r = Inr r' \<and> ?P r'"
    proof -
      obtain outs' where run: "pushIConnection c r =
          Inr (map_put (nodeName (cfrom c)) (map_put (ctype c) outs' rc) r)"
        using outs by (simp add: pushIConnection_def rc_def [symmetric] Let_def)
      have "map_get nc (ctype d) \<noteq> None"
        if "d \<in> conns g" "map_get (map_put (nodeName (cfrom c)) (map_put (ctype c) outs' rc) r)
          (nodeName (cfrom d)) = Some nc" for d nc
      proof (cases "nodeName (cfrom d) = nodeName (cfrom c)")
        case True
        with that same [OF that(1) True] show ?thesis by auto
      next
        case False
        with that P show ?thesis by simp
      qed
      with run show ?thesis by blast
    qed
  qed
  then show ?thesis by (auto simp: toIConnections_def)
qed


section \<open>The whole run\<close>

lemma main_path_ends:
  "main_path g x es y \<Longrightarrow> x \<noteq> y \<Longrightarrow> x \<in> cto ` set es \<and> y \<in> cfrom ` set es"
proof (induction es arbitrary: x)
  case (Cons c es)
  then show ?case by (cases "cfrom c = y") auto
qed simp

text \<open>The connections without disabled nodes start where connections started before.\<close>

lemma removed_source:
  assumes g: "graph_ok g" and r: "removed g ys h" and c: "c \<in> conns h"
  shows "\<exists>c0 \<in> conns g. cfrom c0 = cfrom c \<and> ctype c0 = ctype c"
proof (cases "is_main c")
  case True
  have h: "graph_ok h" using r by (simp add: removed_def)
  have "(cfrom c, cto c) \<in> main_rel h" using c True by (auto simp: main_rel_iff)
  then have "(cfrom c, cto c) \<in> (main_rel g)\<^sup>+"
    using r graph_ok_ends [OF h c] by (auto simp: removed_def)
  then obtain z where "(cfrom c, z) \<in> main_rel g" by (auto dest: tranclD)
  with True show ?thesis by (auto simp: main_rel_iff)
next
  case False
  with c have "c \<in> utility_conns h" by (simp add: utility_conns_def)
  with r have "c \<in> conns g" by (simp add: removed_def utility_conns_def)
  then show ?thesis by blast
qed

lemma data_ok_less:
  assumes "data_ok g rd" and "\<And>name v. map_get rd' name = Some v \<Longrightarrow> map_get rd name = Some v"
    and "\<And>c. c \<in> conns h \<Longrightarrow> \<exists>c0 \<in> conns g. cfrom c0 = cfrom c \<and> ctype c0 = ctype c"
    and "node_set h \<subseteq> node_set g"
  shows "data_ok h rd'"
proof -
  have less: "typed_runs rd name type \<Longrightarrow> typed_runs rd' name type" for name type
    using assms(2) by (auto simp: typed_runs_def)
  have "typed_runs rd (nodeName (cfrom c)) (ctype c)" if "c \<in> conns h" for c
    using assms(1) assms(3) [OF that] by (metis data_ok_def)
  with assms(1,4) less show ?thesis by (auto simp: data_ok_def)
qed

definition entry_nodes_of :: "IExecuteData list \<Rightarrow> INode set" where
  "entry_nodes_of es = execNode ` set es"

lemma start_entries_node: "e \<in> set (start_entries lc g rd pd n) \<Longrightarrow> execNode e = n"
  by (auto simp: start_entries_def mainEntry_def group_entry_def split: if_splits)

text \<open>From the subgraph on: the steps between findSubgraph and the conversion to a workflow.\<close>

lemma stack_of_subgraph:
  assumes g: "graph_ok g" and t: "trigger \<in> node_set g" and rd: "data_ok g rd"
    and enabled: "\<forall>n \<in> node_set g. disabled n \<noteq> Some True"
    and k: "card (node_set g) < k" "card (conns g) < k"
  shows "\<exists>starts T rd' s. findStartNodes k g trigger dest pd rd = Inr starts \<and>
    handleCycles k g starts trigger = Inr T \<and> cleanRunData k rd g T = Inr rd' \<and>
    recreateNodeExecutionStack lc g T rd' pd = Inr s \<and>
    entry_nodes_of (rcStack s) \<subseteq> set T \<and> set T \<subseteq> node_set g \<and>
    (\<forall>n \<in> set T. (trigger, n) \<in> (graph_rel g)\<^sup>* \<and> map_get rd' (nodeName n) = None) \<and>
    (\<forall>name v. map_get rd' name = Some v \<longrightarrow> map_get rd name = Some v \<and> hasNode g name)"
proof -
  from findStartNodes_spec [OF g rd t k(1), of dest pd] obtain starts where
    starts: "findStartNodes k g trigger dest pd rd = Inr starts" "distinct starts"
    "set starts = {n. stops rd pd dest n \<and> (trigger, n) \<in> (follows g rd pd dest)\<^sup>*}" by blast
  have reach: "(trigger, n) \<in> (graph_rel g)\<^sup>*" if "n \<in> set starts" for n
    using that starts(3) rtrancl_mono [OF follows_sub, of g rd pd dest] by blast
  from handleCycles_spec [OF g t k(1) reach starts(2)] obtain Cs T where
    T: "handleCycles k g starts trigger = Inr T"
    "set T = new_starts k g trigger Cs (set starts) (set starts)" by blast
  have reachT: "(trigger, n) \<in> (graph_rel g)\<^sup>*" if "n \<in> set T" for n
  proof -
    from that T(2) consider "n \<in> set starts" | C where "cycle_entry k g trigger C n"
      by (auto simp: new_starts_def)
    then show ?thesis
    proof cases
      case 1
      then show ?thesis by (rule reach)
    next
      case 2
      then show ?thesis
        using depthFirstSearch_spec [OF g t k(1), of "\<lambda>node. node \<in> set C"]
        by (auto simp: cycle_entry_def)
    qed
  qed
  have subT: "set T \<subseteq> node_set g" using graph_reach_node [OF g reachT t] by blast
  from cleanRunData_spec [OF g subT k, of rd] obtain rd' where rd':
    "cleanRunData k rd g T = Inr rd'"
    "\<And>name. map_get rd' name =
      (if name \<in> dropped_names g {n. \<exists>s \<in> set T. (s, n) \<in> (graph_rel g)\<^sup>*} \<or> \<not> hasNode g name
       then None else map_get rd name)" by blast
  have sub: "map_get rd name = Some v \<and> hasNode g name" if "map_get rd' name = Some v" for name v
    using that rd'(2) [of name] by (auto split: if_splits)
  have gone: "map_get rd' (nodeName n) = None" if "n \<in> set T" for n
    using rd'(2) [of "nodeName n"] that by (auto simp: dropped_names_def)
  have "data_ok g rd'" by (rule data_ok_less [OF rd]) (use sub in auto)
  from recreateNodeExecutionStack_spec [OF g this subT enabled, of lc pd] obtain s where
    s: "recreateNodeExecutionStack lc g T rd' pd = Inr s"
    "rcStack s = concat (map (start_entries lc g rd' pd) T)" by blast
  have "entry_nodes_of (rcStack s) \<subseteq> set T"
    unfolding s(2) entry_nodes_of_def using start_entries_node by fastforce
  with starts(1) T(1) rd'(1) s(1) subT reachT gone sub show ?thesis by blast
qed

text \<open>
  What lodash's \<open>omit\<close> is documented to do on an object of run data.
\<close>

definition omits :: "(IRunData \<Rightarrow> string list \<Rightarrow> IRunData) \<Rightarrow> bool" where
  "omits omit \<longleftrightarrow> (\<forall>rd names name.
     map_get (omit rd names) name = (if name \<in> set names then None else map_get rd name))"

text \<open>No cycle of Main connections consists of disabled nodes only.\<close>

definition wf_no_disabled_cycle :: "Workflow \<Rightarrow> bool" where
  "wf_no_disabled_cycle w \<longleftrightarrow>
     (\<forall>n. (n, n) \<notin> {(a, b) \<in> wf_main_rel w. disabled a = Some True \<and> disabled b = Some True}\<^sup>+)"

definition wf_data_ok :: "Workflow \<Rightarrow> IRunData \<Rightarrow> bool" where
  "wf_data_ok w rd \<longleftrightarrow>
     (\<forall>c \<in> wf_conns w. typed_runs rd (nodeName (cfrom c)) (ctype c)) \<and>
     (\<forall>n \<in> wf_node_set w. nodeType n = splitInBatches \<longrightarrow> typed_runs rd (nodeName n) Main)"

lemma subgraph_of_workflow:
  assumes w: "workflow_ok w" and keys: "keys_unique (wf_node_set w)"
    and no: "wf_no_disabled_cycle w" and dest: "getNode w name = Some dest" "disabled dest \<noteq> Some True"
  shows "\<exists>g h K. fromWorkflow w = Inr g \<and> filterDisabledNodes g = Inr h \<and>
    (\<forall>k \<ge> K. \<forall>t \<in> trigger_candidates w name. \<exists>s. findSubgraph k h dest t = Inr s \<and> graph_ok s \<and> t \<in> node_set s \<and> dest \<in> node_set s \<and>
      node_set s \<subseteq> {n \<in> wf_node_set w. disabled n \<noteq> Some True} \<and>
      (\<forall>c \<in> conns s. \<exists>c0 \<in> wf_conns w. cfrom c0 = cfrom c \<and> ctype c0 = ctype c) \<and>
      card (node_set s) < k \<and> card (conns s) < k)"
proof -
  from fromWorkflow_spec [OF w keys] obtain g where g: "fromWorkflow w = Inr g" "graph_ok g"
    "node_set g = wf_node_set w" "conns g = wf_conns w" by blast
  have mr: "main_rel g = wf_main_rel w"
    unfolding main_rel_def graph_rel_of_def g(4) using wf_main_rel_graph [OF w] .
  have "{(a, b) \<in> main_rel g. a \<in> disabled_nodes g \<and> b \<in> disabled_nodes g} =
      {(a, b) \<in> wf_main_rel w. disabled a = Some True \<and> disabled b = Some True}"
    unfolding mr disabled_nodes_def g(3) by (auto simp: wf_main_rel_def)
  then have "no_disabled_cycle g" using no by (simp add: no_disabled_cycle_def wf_no_disabled_cycle_def)
  from filterDisabledNodes_removed [OF g(2) _ this] keys g(3) obtain h where
    h: "filterDisabledNodes g = Inr h" "removed g (map_values (gNodes g)) h" by auto
  have "set (map_values (gNodes g)) = node_set g" by (simp add: node_set_def)
  then have hn: "node_set h = {n \<in> wf_node_set w. disabled n \<noteq> Some True}" and ok: "graph_ok h"
    using h(2) g(3) by (auto simp: removed_def)
  have keysh: "keys_unique (node_set h)" by (rule keys_unique_subset [OF keys]) (use hn in auto)
  have d: "dest \<in> node_set h" "nodeName dest = name"
    using dest getNode_iff [OF w] hn by auto
  define K where "K = Suc (max (card (node_set h)) (card (conns h)))"
  have "\<exists>s. findSubgraph k h dest t = Inr s \<and> graph_ok s \<and> t \<in> node_set s \<and> dest \<in> node_set s \<and>
      node_set s \<subseteq> {n \<in> wf_node_set w. disabled n \<noteq> Some True} \<and>
      (\<forall>c \<in> conns s. \<exists>c0 \<in> wf_conns w. cfrom c0 = cfrom c \<and> ctype c0 = ctype c) \<and>
      card (node_set s) < k \<and> card (conns s) < k" if k: "K \<le> k" and t: "t \<in> trigger_candidates w name" for k t
  proof -
    have tn: "t \<in> node_set h" "nodeName t \<noteq> name" "(nodeName t, name) \<in> (wf_main w)\<^sup>+"
      using t hn by (auto simp: trigger_candidates_def)
    have "t \<noteq> dest" using tn(2) d(2) by auto
    have "getNode w (nodeName t) = Some t" using tn(1) hn getNode_iff [OF w] by auto
    then have "(t, dest) \<in> (main_rel g)\<^sup>+"
      using wf_main_trancl [OF w, of "nodeName t" name] tn(3) dest(1) unfolding mr by auto
    then have "(t, dest) \<in> (main_rel h)\<^sup>+" using h(2) d(1) tn(1) by (simp add: removed_def)
    then have "(dest, t) \<in> (avoiding ((main_rel h)\<inverse>) {})\<^sup>*"
      by (simp add: rtrancl_converse trancl_into_rtrancl)
    moreover have "main_rel h \<subseteq> node_set h \<times> node_set h" using main_rel_nodes [OF ok] by auto
    ultimately obtain es where es: "main_path h dest es t" "distinct (map cto es)" "t \<notin> cto ` set es"
      using main_path_exists [of "node_set h" h dest "{}" t] d(1) by auto
    have kept: "keeps h dest t {} dest es" by (rule main_path_keeps [OF es]) simp
    have k': "card (node_set h) < k" "card (conns h) < k" using k by (simp_all add: K_def)
    from findSubgraph_spec [OF ok keysh d(1) k', of t] obtain s where
      s: "findSubgraph k h dest t = Inr s" "graph_ok s" "node_set s = ends (conns s)"
      "{c \<in> conns s. is_main c} = \<Union> (set ` {es. keeps h dest t {} dest es})"
      "{c \<in> conns s. \<not> is_main c} = utility_of h (ends {c \<in> conns s. is_main c})" by blast
    have sub: "conns s \<subseteq> conns h"
    proof
      fix c
      assume c: "c \<in> conns s"
      show "c \<in> conns h"
      proof (cases "is_main c")
        case True
        with c s(4) obtain es where "keeps h dest t {} dest es" "c \<in> set es" by blast
        with keeps_main show ?thesis by blast
      next
        case False
        with c s(5) show ?thesis unfolding utility_of_iff by blast
      qed
    qed
    have es_s: "set es \<subseteq> conns s" using kept s(4) by blast
    with main_path_ends [OF es(1)] \<open>t \<noteq> dest\<close> s(3) have "t \<in> node_set s" "dest \<in> node_set s"
      by (auto simp: ends_def)
    moreover have nodes: "node_set s \<subseteq> node_set h"
      unfolding s(3) ends_def using sub graph_ok_ends [OF ok] by auto
    moreover have "\<exists>c0 \<in> wf_conns w. cfrom c0 = cfrom c \<and> ctype c0 = ctype c" if "c \<in> conns s" for c
      using removed_source [OF g(2) h(2), of c] that sub g(4) by blast
    moreover have "card (node_set s) < k" "card (conns s) < k"
      using card_mono [OF finite_node_set nodes] card_mono [OF finite_conns sub] k' by simp_all
    ultimately show ?thesis using s(1,2) hn by blast
  qed
  with g(1) h(1) show ?thesis by blast
qed

lemma runPartialWorkflow2_spec:
  assumes w: "workflow_ok w" and keys: "keys_unique (wf_node_set w)"
    and no: "wf_no_disabled_cycle w" and one: "one_type (wf_conns w)"
    and dest: "getNode w name = Some dest" "disabled dest \<noteq> Some True" "name \<noteq> []"
    and trig: "trigger_candidates w name \<noteq> {}" and perm: "\<And>xs. mset (arrange xs) = mset xs"
    and omit: "omits omit" and rd: "wf_data_ok w runData"
  shows "\<exists>K. \<forall>k \<ge> K. \<exists>data w'.
    runPartialWorkflow2 lc arrange omit gnp k w runData pinData dirty (Some name) = Inr (data, w') \<and>
    name \<in> set (the (startRunNodeFilter data)) \<and>
    (\<exists>t \<in> trigger_candidates w name. nodeName t \<in> set (the (startRunNodeFilter data))) \<and>
    (\<forall>e \<in> set (nodeExecutionStack data). execNode e \<in> wf_node_set w \<and>
       disabled (execNode e) \<noteq> Some True \<and>
       nodeName (execNode e) \<in> set (the (startRunNodeFilter data)) \<and>
       map_get (resultRunData data) (nodeName (execNode e)) = None) \<and>
    (\<forall>n v. map_get (resultRunData data) n = Some v \<longrightarrow> map_get runData n = Some v \<and>
       n \<notin> set dirty \<and> n \<in> set (the (startRunNodeFilter data)))"
proof -
  from subgraph_of_workflow [OF w keys no dest(1,2)] obtain g h K where
    gh: "fromWorkflow w = Inr g" "filterDisabledNodes g = Inr h" and
    K: "\<And>k t. K \<le> k \<Longrightarrow> t \<in> trigger_candidates w name \<Longrightarrow>
      \<exists>s. findSubgraph k h dest t = Inr s \<and> graph_ok s \<and> t \<in> node_set s \<and> dest \<in> node_set s \<and>
      node_set s \<subseteq> {n \<in> wf_node_set w. disabled n \<noteq> Some True} \<and>
      (\<forall>c \<in> conns s. \<exists>c0 \<in> wf_conns w. cfrom c0 = cfrom c \<and> ctype c0 = ctype c) \<and>
      card (node_set s) < k \<and> card (conns s) < k" by blast
  let ?rd = "omit runData dirty"
  have om: "map_get ?rd n = (if n \<in> set dirty then None else map_get runData n)" for n
    using omit by (simp add: omits_def)
  show ?thesis
  proof (rule exI, intro allI impI)
    fix k
    assume k: "Suc (length (connectionsByDestinationNode w)) + K \<le> k"
    then have "length (connectionsByDestinationNode w) < k" "K \<le> k" by simp_all
    with findTrigger_spec [OF w _ perm, of k name] trig obtain t where
      t: "findTriggerForPartialExecution arrange k w name = Inr (Some t)"
      "t \<in> trigger_candidates w name" by (auto split: option.splits)
    from K [OF \<open>K \<le> k\<close> t(2)] obtain s where
      s: "findSubgraph k h dest t = Inr s" "graph_ok s" "t \<in> node_set s" "dest \<in> node_set s"
      "node_set s \<subseteq> {n \<in> wf_node_set w. disabled n \<noteq> Some True}"
      "\<forall>c \<in> conns s. \<exists>c0 \<in> wf_conns w. cfrom c0 = cfrom c \<and> ctype c0 = ctype c"
      "card (node_set s) < k" "card (conns s) < k" by blast
    have less: "typed_runs ?rd n ty" if "typed_runs runData n ty" for n ty
      using that om by (auto simp: typed_runs_def)
    have "typed_runs runData (nodeName (cfrom c)) (ctype c)" if "c \<in> conns s" for c
      using s(6) that rd by (metis wf_data_ok_def)
    then have rd': "data_ok s ?rd"
      using rd less s(5) unfolding data_ok_def wf_data_ok_def by blast
    have enabled: "\<forall>n \<in> node_set s. disabled n \<noteq> Some True" using s(5) by blast
    from stack_of_subgraph [OF s(2,3) rd' enabled s(7,8), of dest pinData lc] obtain starts T rd2 st
      where st: "findStartNodes k s t dest pinData ?rd = Inr starts"
        "handleCycles k s starts t = Inr T" "cleanRunData k ?rd s T = Inr rd2"
        "recreateNodeExecutionStack lc s T rd2 pinData = Inr st"
        "entry_nodes_of (rcStack st) \<subseteq> set T" "set T \<subseteq> node_set s"
        "\<forall>n \<in> set T. map_get rd2 (nodeName n) = None"
        "\<forall>name v. map_get rd2 name = Some v \<longrightarrow> map_get ?rd name = Some v \<and> hasNode s name"
      by blast
    have "one_type (conns s)" using one s(6) unfolding one_type_def by metis
    from toIConnections_total [OF s(2) this] obtain ic where ic: "toIConnections s = Inr ic" by blast
    define flt where "flt = map nodeName (map_values (gNodes s))"
    have flt: "set flt = nodeName ` node_set s" by (simp add: flt_def node_set_def image_image)
    have hn: "hasNode s n \<longleftrightarrow> n \<in> set flt" for n
      unfolding flt using hasNode_iff [OF s(2)] by auto
    define data where "data = \<lparr>startDestinationNode = Some name, startRunNodeFilter = Some flt,
      resultRunData = rd2, resultPinData = Some pinData, resultError = None, lastNodeExecuted = None,
      nodeExecutionStack = rcStack st, executionMetadata = [], waitingExecution = rcWaiting st,
      waitingExecutionSource = rcWaitingSource st, waitTill = None\<rparr>"
    have run: "runPartialWorkflow2 lc arrange omit gnp k w runData pinData dirty (Some name) =
        Inr (data, newWorkflow gnp (map_values (gNodes s)) ic (nodeTypes w) (executionOrder w) (wfPinData w))"
      using dest(1,3) t(1) gh s(1) st(1-4) ic
      by (simp add: runPartialWorkflow2_def toWorkflow_def getNodes_def data_def flt_def)
    have names: "name \<in> set flt" "nodeName t \<in> set flt"
      unfolding flt using s(3,4) getNode_iff [OF w] dest(1) by auto
    have stack: "execNode e \<in> node_set s \<and> map_get rd2 (nodeName (execNode e)) = None"
      if "e \<in> set (rcStack st)" for e
      using that st(5,6,7) by (auto simp: entry_nodes_of_def)
    have kept: "map_get runData n = Some v \<and> n \<notin> set dirty \<and> n \<in> set flt"
      if "map_get rd2 n = Some v" for n v
    proof -
      from st(8) that have "map_get ?rd n = Some v" "hasNode s n" by blast+
      then show ?thesis using om [of n] hn by (auto split: if_splits)
    qed
    show "\<exists>data w'.
        runPartialWorkflow2 lc arrange omit gnp k w runData pinData dirty (Some name) = Inr (data, w') \<and>
        name \<in> set (the (startRunNodeFilter data)) \<and>
        (\<exists>t \<in> trigger_candidates w name. nodeName t \<in> set (the (startRunNodeFilter data))) \<and>
        (\<forall>e \<in> set (nodeExecutionStack data). execNode e \<in> wf_node_set w \<and>
           disabled (execNode e) \<noteq> Some True \<and>
           nodeName (execNode e) \<in> set (the (startRunNodeFilter data)) \<and>
           map_get (resultRunData data) (nodeName (execNode e)) = None) \<and>
        (\<forall>n v. map_get (resultRunData data) n = Some v \<longrightarrow> map_get runData n = Some v \<and>
           n \<notin> set dirty \<and> n \<in> set (the (startRunNodeFilter data)))"
      unfolding run
    proof (intro exI conjI)
      show "Inr (data, newWorkflow gnp (map_values (gNodes s)) ic (nodeTypes w) (executionOrder w)
          (wfPinData w)) = Inr (data, newWorkflow gnp (map_values (gNodes s)) ic (nodeTypes w)
          (executionOrder w) (wfPinData w))" ..
      show "name \<in> set (the (startRunNodeFilter data))" using names by (simp add: data_def)
      show "\<exists>t \<in> trigger_candidates w name. nodeName t \<in> set (the (startRunNodeFilter data))"
        using names t(2) by (auto simp: data_def)
      show "\<forall>e \<in> set (nodeExecutionStack data). execNode e \<in> wf_node_set w \<and>
           disabled (execNode e) \<noteq> Some True \<and>
           nodeName (execNode e) \<in> set (the (startRunNodeFilter data)) \<and>
           map_get (resultRunData data) (nodeName (execNode e)) = None"
        using stack s(5) flt by (auto simp: data_def)
      show "\<forall>n v. map_get (resultRunData data) n = Some v \<longrightarrow> map_get runData n = Some v \<and>
           n \<notin> set dirty \<and> n \<in> set (the (startRunNodeFilter data))"
        using kept by (simp add: data_def)
    qed
  qed
qed

end
