(* ===== verification/Partial_Properties.thy ===== *)
theory Partial_Properties
  imports Partial_Run
begin

text \<open>
  Properties of the preparation of a partial execution, each with a concrete instance, and of
  the inputs on which the code does not do what its comments say.
\<close>


section \<open>Example data\<close>

definition item :: INodeExecutionData where
  "item = empty_item\<lparr>json := [(''x'', JNum 1)]\<rparr>"

definition run_with :: "INodeExecutionData list slot list \<Rightarrow> ITaskData" where
  "run_with outs =
     \<lparr>taskData = Some [(Main, outs)], taskStatus = Some StSuccess, taskError = None,
      taskSource = [], taskMetadata = None\<rparr>"

definition chain_run :: IRunData where
  "chain_run = [(''start'', [run_with [Data [item]]])]"

lemma chain_run_ok: "data_ok chain_graph chain_run"
proof -
  have "nodeType n \<noteq> splitInBatches" if "n \<in> node_set chain_graph" for n
    using that by (auto simp: chain_graph_ok(3) splitInBatches_def)
  then show ?thesis
    unfolding data_ok_def chain_graph_ok(4)
    by (auto simp: typed_runs_def chain_run_def run_with_def main_conn_def)
qed


section \<open>Recorded data and start nodes\<close>

text \<open>
  getIncomingDataFromAnyRun returns the data of the first run whose output has an item; all
  earlier runs, or all runs when nothing is returned, have no data or an empty list there.
\<close>

theorem getIncomingDataFromAnyRun_first:
  assumes "getIncomingDataFromAnyRun rd name t out = Inr r"
  shows "case r of
      None \<Rightarrow> \<forall>i < getRunIndexLength rd name. empty_run rd name t out i
    | Some (items, i) \<Rightarrow> i < getRunIndexLength rd name \<and> items \<noteq> [] \<and>
        getIncomingData rd name (int i) t (int out) = Inr (Some items) \<and>
        (\<forall>j < i. empty_run rd name t out j)"
proof (cases r)
  case None
  with assms anyRun_None show ?thesis by (fastforce simp: getIncomingDataFromAnyRun_def)
next
  case (Some p)
  obtain items i where p: "p = (items, i)" by (cases p)
  with assms Some anyRun_Some obtain before after where
    ba: "[0..<getRunIndexLength rd name] = before @ i # after" "items \<noteq> []"
    "getIncomingData rd name (int i) t (int out) = Inr (Some items)"
    "\<forall>j \<in> set before. empty_run rd name t out j"
    unfolding getIncomingDataFromAnyRun_def by blast
  have len: "length before < getRunIndexLength rd name"
    using arg_cong [OF ba(1), of length] by simp
  have "[0..<getRunIndexLength rd name] ! length before = i" unfolding ba(1) by simp
  then have i: "i = length before" using len by simp
  have "before = take i [0..<getRunIndexLength rd name]" unfolding ba(1) i by simp
  also have "\<dots> = [0..<i]" using len i by (simp add: take_upt)
  finally have "set before = {0..<i}" by (metis set_upt)
  with ba len i show ?thesis using Some p by simp
qed

theorem getIncomingDataFromAnyRun_first_witness:
  "getIncomingData chain_run ''start'' 0 Main 0 = Inr (Some [item])"
proof -
  have "getIncomingDataFromAnyRun chain_run ''start'' Main 0 = Inr (Some ([item], 0))"
    by (simp add: getIncomingDataFromAnyRun_def getRunIndexLength_def chain_run_def run_with_def
        getIncomingData_def arr_at_def)
  from getIncomingDataFromAnyRun_first [OF this] show ?thesis by simp
qed

text \<open>
  Run data of a node that lacks the type of the connection makes the lookup throw, instead of
  giving null as for every other missing part.
\<close>

theorem getIncomingData_missing_type:
  "getIncomingData chain_run ''start'' 0 AiTool 0 = Inl TypeError \<and>
   getIncomingData chain_run ''start'' 1 AiTool 0 = Inr None \<and>
   getIncomingData chain_run ''start'' 0 Main 1 = Inr None"
  by (simp add: chain_run_def run_with_def getIncomingData_def arr_at_def)

text \<open>
  C30. findStartNodes returns, each once, exactly the nodes at which a branch from the trigger
  ends: the nodes that are dirty, are the destination or are an unfinished loop, and that can be
  reached from the trigger over connections with data through nodes that are none of these.
\<close>

theorem findStartNodes_exact:
  assumes "graph_ok g" and "data_ok g rd" and "trigger \<in> node_set g" and "card (node_set g) < k"
  shows "\<exists>T. findStartNodes k g trigger dest pd rd = Inr T \<and> distinct T \<and>
    set T = {n. stops rd pd dest n \<and> (trigger, n) \<in> (follows g rd pd dest)\<^sup>*}"
  by (rule findStartNodes_spec [OF assms])

theorem findStartNodes_exact_witness:
  "\<exists>T. findStartNodes 4 chain_graph node_t node_b [] chain_run = Inr T \<and> distinct T \<and>
    set T = {n. stops chain_run [] node_b n \<and>
      (node_t, n) \<in> (follows chain_graph chain_run [] node_b)\<^sup>*}"
  by (rule findStartNodes_exact [OF chain_graph_ok(1) chain_run_ok _ chain_graph_ok(5)])
    (simp add: chain_graph_ok(3))

text \<open>
  handleCycles keeps the start nodes that are in no reported component, and replaces those of
  a component by the node at which the search from the trigger enters it; it never fails on
  start nodes that can be reached from the trigger.
\<close>

theorem handleCycles_replaces:
  assumes "graph_ok g" and "trigger \<in> node_set g" and "card (node_set g) < k"
    and "\<And>n. n \<in> set starts \<Longrightarrow> (trigger, n) \<in> (graph_rel g)\<^sup>*" and "distinct starts"
  shows "\<exists>Cs T. getStronglyConnectedComponents k g = Inr Cs \<and>
    handleCycles k g starts trigger = Inr T \<and> distinct T \<and>
    set T = {n \<in> set starts. n \<notin> set (concat Cs)} \<union>
      {f. \<exists>C \<in> set Cs. set C \<inter> set starts \<noteq> {} \<and>
          depthFirstSearch k g trigger (\<lambda>node. node \<in> set C) = Inr (Some f)}"
proof -
  have "new_starts k g trigger Cs (set starts) (set starts) = {n \<in> set starts. n \<notin> set (concat Cs)} \<union>
      {f. \<exists>C \<in> set Cs. set C \<inter> set starts \<noteq> {} \<and>
          depthFirstSearch k g trigger (\<lambda>node. node \<in> set C) = Inr (Some f)}" for Cs
    by (auto simp: new_starts_def cycle_entry_def)
  with handleCycles_spec [OF assms] show ?thesis by simp
qed

theorem handleCycles_replaces_witness:
  "\<exists>Cs T. getStronglyConnectedComponents 3 loop_graph = Inr Cs \<and>
    handleCycles 3 loop_graph [node_b] node_a = Inr T \<and> distinct T \<and>
    set T = {n \<in> set [node_b]. n \<notin> set (concat Cs)} \<union>
      {f. \<exists>C \<in> set Cs. set C \<inter> set [node_b] \<noteq> {} \<and>
          depthFirstSearch 3 loop_graph node_a (\<lambda>node. node \<in> set C) = Inr (Some f)}"
proof (rule handleCycles_replaces [OF loop_graph_ok(1) _ loop_graph_ok(2)])
  show "node_a \<in> node_set loop_graph" by (simp add: loop_graph_nodes)
  have "(node_a, node_b) \<in> graph_rel loop_graph"
    by (simp add: loop_graph_def graph_of_def graph_rel_iff conns_def main_conn_def)
  then show "(node_a, n) \<in> (graph_rel loop_graph)\<^sup>*" if "n \<in> set [node_b]" for n
    using that by auto
qed simp


section \<open>Run data\<close>

text \<open>
  cleanRunData drops exactly the run data of the start nodes and their descendants, of the
  source of every non-Main connection from whose target such a node can be reached, and of names
  that are not in the graph; all other run data is kept unchanged.
\<close>

theorem cleanRunData_exact:
  assumes "graph_ok g" and "set starts \<subseteq> node_set g" and "card (node_set g) < k"
    and "card (conns g) < k"
  shows "\<exists>rd'. cleanRunData k rd g starts = Inr rd' \<and>
    (\<forall>name. map_get rd' name =
      (if name \<in> dropped_names g {n. \<exists>s \<in> set starts. (s, n) \<in> (graph_rel g)\<^sup>*} \<or>
          \<not> hasNode g name
       then None else map_get rd name))"
  by (rule cleanRunData_spec [OF assms])

theorem cleanRunData_exact_witness:
  "\<exists>rd'. cleanRunData 4 chain_run chain_graph [node_a] = Inr rd' \<and>
    (\<forall>name. map_get rd' name =
      (if name \<in> dropped_names chain_graph {n. \<exists>s \<in> set [node_a]. (s, n) \<in> (graph_rel chain_graph)\<^sup>*} \<or>
          \<not> hasNode chain_graph name
       then None else map_get chain_run name))"
  by (rule cleanRunData_exact [OF chain_graph_ok(1) _ chain_graph_ok(5,6)])
    (simp add: chain_graph_ok(3))

text \<open>
  The run data of a utility node is dropped even if the node that uses it is upstream of the
  start node and keeps its own data: here the model m serves the node a, and only b is a start
  node.
\<close>

abbreviation node_ai :: INode where "node_ai \<equiv> plain_node 7 ''m'' ''t''"

definition agent_graph :: DirectedGraph where
  "agent_graph =
     (let c = main_conn node_ai node_a\<lparr>ctype := AiLanguageModel\<rparr>; d = main_conn node_a node_b
      in \<lparr>gNodes = [(''m'', node_ai), (''a'', node_a), (''b'', node_b)],
          gConnections = [(makeKey c, c), (makeKey d, d)]\<rparr>)"

theorem cleanRunData_upstream_utility:
  "\<exists>rd'. cleanRunData 4 [(''m'', []), (''a'', []), (''b'', [])] agent_graph [node_b] = Inr rd' \<and>
    map_get rd' ''a'' = Some [] \<and> map_get rd' ''m'' = None \<and>
    (node_b, node_ai) \<notin> (graph_rel agent_graph)\<^sup>*"
proof -
  have ok: "graph_ok agent_graph" and nodes: "node_set agent_graph = {node_ai, node_a, node_b}"
    and cs: "conns agent_graph =
      {main_conn node_ai node_a\<lparr>ctype := AiLanguageModel\<rparr>, main_conn node_a node_b}"
    by (simp_all add: agent_graph_def Let_def graph_of_simps)
  have sizes: "card (node_set agent_graph) < 4" "card (conns agent_graph) < 4"
    unfolding nodes cs by (simp_all add: card_insert_if)
  have rel: "graph_rel agent_graph = {(node_ai, node_a), (node_a, node_b)}"
  proof -
    have "graph_rel agent_graph = (\<lambda>c. (cfrom c, cto c)) ` conns agent_graph"
      by (auto simp: graph_rel_def graph_rel_of_def)
    then show ?thesis unfolding cs by (simp add: main_conn_def)
  qed
  have down: "y = node_b" if "(node_b, y) \<in> (graph_rel agent_graph)\<^sup>*" for y
    using that by (cases rule: converse_rtranclE) (auto simp: rel)
  then have below: "{n. \<exists>s \<in> set [node_b]. (s, n) \<in> (graph_rel agent_graph)\<^sup>*} = {node_b}" by auto
  have "set [node_b] \<subseteq> node_set agent_graph" by (simp add: nodes)
  from cleanRunData_spec [OF ok this sizes, of "[(''m'', []), (''a'', []), (''b'', [])]"]
  obtain rd' where rd': "cleanRunData 4 [(''m'', []), (''a'', []), (''b'', [])] agent_graph [node_b] = Inr rd'"
    "\<And>name. map_get rd' name = (if name \<in> dropped_names agent_graph {node_b} \<or> \<not> hasNode agent_graph name
       then None else map_get [(''m'', []), (''a'', []), (''b'', [])] name)"
    unfolding below by blast
  have "(node_a, node_b) \<in> (graph_rel agent_graph)\<^sup>*" by (auto simp: rel)
  moreover have util: "utility_conns agent_graph = {main_conn node_ai node_a\<lparr>ctype := AiLanguageModel\<rparr>}"
    unfolding utility_conns_def cs by (auto simp: main_conn_def)
  moreover have ends: "cfrom (main_conn node_ai node_a\<lparr>ctype := AiLanguageModel\<rparr>) = node_ai"
    "cto (main_conn node_ai node_a\<lparr>ctype := AiLanguageModel\<rparr>) = node_a"
    by (simp_all add: main_conn_def)
  ultimately have "''m'' \<in> dropped_names agent_graph {node_b}"
    by (auto simp: dropped_names_def)
  moreover have "''a'' \<notin> dropped_names agent_graph {node_b}"
    using util ends by (auto simp: dropped_names_def)
  moreover have "hasNode agent_graph ''a''"
    by (simp add: agent_graph_def Let_def hasNode_def)
  ultimately have "map_get rd' ''a'' = Some []" "map_get rd' ''m'' = None"
    using rd'(2) [of "''a''"] rd'(2) [of "''m''"] by simp_all
  with rd'(1) down show ?thesis by fastforce
qed


section \<open>Groups and the execution stack\<close>

text \<open>
  getSourceDataGroups puts every connection into the node into exactly one group; a group is
  not empty, its input indices are consecutive, and it is complete exactly when all its sources
  have run data or pinned data. (The loop terminates on all inputs.)
\<close>

theorem getSourceDataGroups_partition:
  "mset (concat (map groupConnections (getSourceDataGroups lc g n rd pd))) =
     mset (filter (\<lambda>c. cto c = n) (map_values (gConnections g))) \<and>
   (\<forall>grp. grp \<in> set (getSourceDataGroups lc g n rd pd) \<longrightarrow>
      groupConnections grp \<noteq> [] \<and>
      complete grp = list_all (hasDataOf rd pd) (groupConnections grp) \<and>
      (\<exists>s. map inputIndex (groupConnections grp) = [s..<s + length (groupConnections grp)]))"
  using getSourceDataGroups_spec [of lc g n rd pd]
  by (auto simp: grouped_def group_ok_def list_all_iff)

theorem getSourceDataGroups_partition_witness:
  "\<exists>grp. getSourceDataGroups (\<lambda>_ _. 0) chain_graph node_b [] [] = [grp] \<and> \<not> complete grp"
proof -
  have eq: "getSourceDataGroups (\<lambda>_ _. 0) chain_graph node_b [] [] =
      [\<lparr>complete = False, groupConnections = [main_conn node_a node_b]\<rparr>]"
    by (simp add: getSourceDataGroups_def getConnections_def chain_graph_def graph_of_def hasDataOf_def
        groupLoop.simps indexBefore_def newGroup_def main_conn_def)
  have "\<not> list_all (hasDataOf [] []) [main_conn node_a node_b]" by (simp add: hasDataOf_def)
  with getSourceDataGroups_partition [of "\<lambda>_ _. 0" chain_graph node_b "[]" "[]"]
  show ?thesis unfolding eq by fastforce
qed

text \<open>
  Inputs with a gap between their indices end up in different groups, and each of them counts
  as complete: a node with data on the inputs 0 and 2 is run twice.
\<close>

definition gap_graph :: DirectedGraph where
  "gap_graph =
     (let c = main_conn node_a node_c; d = main_conn node_b node_c\<lparr>inputIndex := 2\<rparr>
      in \<lparr>gNodes = [(''a'', node_a), (''b'', node_b), (''c'', node_c)],
          gConnections = [(makeKey c, c), (makeKey d, d)]\<rparr>)"

theorem getSourceDataGroups_gap:
  "map (\<lambda>grp. (complete grp, map inputIndex (groupConnections grp)))
     (getSourceDataGroups lc gap_graph node_c [(''a'', []), (''b'', [])] []) =
   [(True, [0]), (True, [2])]"
  by (simp add: gap_graph_def Let_def getSourceDataGroups_def getConnections_def hasDataOf_def
      groupLoop.simps indexBefore_def newGroup_def main_conn_def sortByInputIndexThenByName_def
      makeKey_def)

text \<open>
  C7. On a well-formed graph without disabled nodes recreateNodeExecutionStack returns. Its stack
  has, for each start node in order, one entry with an empty item when the node has no Main
  input, and otherwise one entry per complete group, with the pinned data or the first recorded
  data of each of the group's connections; only start nodes wait.
\<close>

theorem recreateNodeExecutionStack_exact:
  assumes "graph_ok g" and "data_ok g rd" and "set starts \<subseteq> node_set g"
    and "\<forall>n \<in> node_set g. disabled n \<noteq> Some True"
  shows "\<exists>s. recreateNodeExecutionStack lc g starts rd pd = Inr s \<and>
    rcStack s = concat (map (start_entries lc g rd pd) starts) \<and>
    fst ` set (rcWaiting s) \<subseteq> nodeName ` set starts"
  using recreateNodeExecutionStack_spec [OF assms, of lc pd] by (simp add: waits_def)

theorem recreateNodeExecutionStack_exact_witness:
  "\<exists>s. recreateNodeExecutionStack (\<lambda>_ _. 0) chain_graph [node_a] chain_run [] = Inr s \<and>
    rcStack s = concat (map (start_entries (\<lambda>_ _. 0) chain_graph chain_run []) [node_a]) \<and>
    fst ` set (rcWaiting s) \<subseteq> nodeName ` set [node_a]"
  by (rule recreateNodeExecutionStack_exact [OF chain_graph_ok(1) chain_run_ok])
    (auto simp: chain_graph_ok(3))

text \<open>
  recreateNodeExecutionStack refuses a graph with a disabled node.
\<close>

theorem recreateNodeExecutionStack_disabled:
  assumes "n \<in> node_set g" and "disabled n = Some True"
  shows "recreateNodeExecutionStack lc g starts rd pd = Inl AssertionError"
  using assms by (auto simp: recreateNodeExecutionStack_def getNodes_def node_set_def)

theorem recreateNodeExecutionStack_disabled_witness:
  "recreateNodeExecutionStack (\<lambda>_ _. 0) off_graph [] [] [] = Inl AssertionError"
  by (rule recreateNodeExecutionStack_disabled [of node_off]) (simp_all add: off_graph_ok(4))

text \<open>
  When the recorded run of a source has no data on the connected output, the stack entry has
  one source per input but fewer data lists: the data of input 1 is at index 0.
\<close>

definition merge_graph :: DirectedGraph where
  "merge_graph =
     (let c = main_conn node_a node_c; d = main_conn node_b node_c\<lparr>inputIndex := 1\<rparr>
      in \<lparr>gNodes = [(''a'', node_a), (''b'', node_b), (''c'', node_c)],
          gConnections = [(makeKey c, c), (makeKey d, d)]\<rparr>)"

theorem recreateNodeExecutionStack_shifted:
  "\<exists>s e. recreateNodeExecutionStack lc merge_graph [node_c]
       [(''a'', [run_with [Data []]]), (''b'', [run_with [Data [item]]])] [] = Inr s \<and>
     rcStack s = [e] \<and> execData e = [(Main, [Data [item]])] \<and>
     map (\<lambda>(t, l). length l) (the (execSource e)) = [2]"
  by (simp add: merge_graph_def Let_def recreateNodeExecutionStack_def getNodes_def stackStartNode_def
      getDirectParentConnections_def containsNode_def getSourceDataGroups_def getConnections_def
      hasDataOf_def groupLoop.simps indexBefore_def newGroup_def main_conn_def
      sortByInputIndexThenByName_def makeKey_def stackGroup_def completeConnection_def run_with_def
      getIncomingDataFromAnyRun_def getRunIndexLength_def getIncomingData_def arr_at_def mainEntry_def
      item_def)

text \<open>
  addWaitingExecution assigns the data at the given input of the node, run and connection
  type, extending the array with holes, and changes nothing else.
\<close>

theorem addWaitingExecution_lookup:
  "waiting_list (addWaitingExecution w name run t i d) name' run' t' =
     (if name' = name \<and> run' = run \<and> t' = t
      then arr_put Hole (waiting_list w name run t) i (case d of None \<Rightarrow> Null | Some x \<Rightarrow> Data x)
      else waiting_list w name' run' t')"
  unfolding addWaitingExecution_def by (rule addWaiting_list)


section \<open>The trigger and the whole run\<close>

text \<open>
  findTriggerForPartialExecution returns an enabled trigger node from which the destination
  can be reached over Main connections, a pinned one whenever there is one, and nothing exactly
  when there is no such trigger.
\<close>

theorem findTrigger_choice:
  assumes "workflow_ok w" and "length (connectionsByDestinationNode w) < k"
    and "\<And>xs. mset (arrange xs) = mset xs"
  shows "\<exists>r. findTriggerForPartialExecution arrange k w name = Inr r \<and>
    (case r of
       None \<Rightarrow> trigger_candidates w name = {}
     | Some t \<Rightarrow> t \<in> trigger_candidates w name \<and>
         ((\<exists>p \<in> trigger_candidates w name. is_pinned w p) \<longrightarrow> is_pinned w t))"
  by (rule findTrigger_spec [OF assms])

lemma chain_workflow_dest: "length (connectionsByDestinationNode chain_workflow) < 3"
  by (simp add: chain_workflow_def Let_def getConnectionsByDestination_def connection_entries_def
      output_entries_def addDestination_def)

theorem findTrigger_choice_witness:
  "\<exists>r. findTriggerForPartialExecution rev 3 chain_workflow ''b'' = Inr r \<and>
    (case r of
       None \<Rightarrow> trigger_candidates chain_workflow ''b'' = {}
     | Some t \<Rightarrow> t \<in> trigger_candidates chain_workflow ''b'' \<and>
         ((\<exists>p \<in> trigger_candidates chain_workflow ''b''. is_pinned chain_workflow p) \<longrightarrow>
          is_pinned chain_workflow t))"
  by (rule findTrigger_choice [OF chain_workflow_ok(1) chain_workflow_dest]) simp

lemma chain_workflow_candidate: "node_t \<in> trigger_candidates chain_workflow ''b''"
proof -
  have "(''start'', ''a'') \<in> wf_main chain_workflow" "(''a'', ''b'') \<in> wf_main chain_workflow"
    unfolding wf_main_def chain_workflow_entries by force+
  then have "(''start'', ''b'') \<in> (wf_main chain_workflow)\<^sup>+"
    by (meson trancl.r_into_trancl trancl.trancl_into_trancl)
  then show ?thesis
    unfolding trigger_candidates_def chain_workflow_nodes
    by (simp add: is_trigger_def chain_workflow_def Let_def example_types_def plain_type_def
        trigger_group_def plain_node_def)
qed

lemma chain_workflow_conns:
  assumes "c \<in> wf_conns chain_workflow"
  shows "ctype c = Main"
  using assms unfolding wf_conns_def chain_workflow_entries by auto

text \<open>
  C1. A partial execution of an enabled destination with an enabled trigger above it is prepared
  without error, with a deep enough stack, when keys are unambiguous, no cycle consists of
  disabled nodes only, no node has connections of two types and recorded data has the types of
  its connections. The execution is limited to a set of nodes with the destination and a
  trigger; every node on its stack is one of them, enabled and without recorded data; the data
  that is kept is unchanged, of these nodes, and of no dirty node.
\<close>

theorem runPartialWorkflow2_prepares:
  assumes "workflow_ok w" and "keys_unique (wf_node_set w)"
    and "wf_no_disabled_cycle w" and "one_type (wf_conns w)"
    and "getNode w name = Some dest" and "disabled dest \<noteq> Some True" and "name \<noteq> []"
    and "trigger_candidates w name \<noteq> {}" and "\<And>xs. mset (arrange xs) = mset xs"
    and "omits omit" and "wf_data_ok w runData"
  shows "\<exists>K. \<forall>k \<ge> K. \<exists>data w'.
    runPartialWorkflow2 lc arrange omit gnp k w runData pinData dirty (Some name) = Inr (data, w') \<and>
    name \<in> set (the (startRunNodeFilter data)) \<and>
    (\<exists>t \<in> trigger_candidates w name. nodeName t \<in> set (the (startRunNodeFilter data))) \<and>
    (\<forall>e \<in> set (nodeExecutionStack data). execNode e \<in> wf_node_set w \<and>
       disabled (execNode e) \<noteq> Some True \<and>
       nodeName (execNode e) \<in> set (the (startRunNodeFilter data)) \<and>
       map_get (resultRunData data) (nodeName (execNode e)) = None) \<and>
    (\<forall>n v. map_get (resultRunData data) n = Some v \<longrightarrow> map_get runData n = Some v \<and>
       n \<notin> set dirty \<and> n \<in> set (the (startRunNodeFilter data)))"
  by (rule runPartialWorkflow2_spec [OF assms])

definition omit_keys :: "IRunData \<Rightarrow> string list \<Rightarrow> IRunData" where
  "omit_keys rd names = filter (\<lambda>(k, v). k \<notin> set names) rd"

lemma omit_keys_omits: "omits omit_keys"
proof -
  have "map_get (filter (\<lambda>(k, v). k \<notin> set names) rd) name =
      (if name \<in> set names then None else map_get rd name)" for rd :: IRunData and names name
    by (induction rd) auto
  then show ?thesis by (simp add: omits_def omit_keys_def)
qed

theorem runPartialWorkflow2_prepares_witness:
  "\<exists>K. \<forall>k \<ge> K. \<exists>data w'. runPartialWorkflow2 (\<lambda>_ _. 0) rev omit_keys (\<lambda>_ _. None) k chain_workflow
     chain_run [] [''a''] (Some ''b'') = Inr (data, w') \<and> ''b'' \<in> set (the (startRunNodeFilter data))"
proof -
  have no: "wf_no_disabled_cycle chain_workflow"
  proof -
    have "{(a, b) \<in> wf_main_rel chain_workflow. disabled a = Some True \<and> disabled b = Some True} = {}"
      by (auto simp: wf_main_rel_def chain_workflow_nodes)
    then show ?thesis unfolding wf_no_disabled_cycle_def by (metis empty_iff trancl_empty)
  qed
  have one: "one_type (wf_conns chain_workflow)"
    using chain_workflow_conns by (simp add: one_type_def)
  have dest: "getNode chain_workflow ''b'' = Some node_b"
    by (simp add: getNode_def chain_workflow_def Let_def)
  have data: "wf_data_ok chain_workflow chain_run"
    using chain_workflow_conns
    by (auto simp: wf_data_ok_def chain_workflow_nodes splitInBatches_def typed_runs_def chain_run_def
        run_with_def)
  from runPartialWorkflow2_prepares [OF chain_workflow_ok no one dest _ _ _ _ omit_keys_omits data,
      of rev "\<lambda>_ _. 0" "\<lambda>_ _. None" "[]" "[''a'']"] chain_workflow_candidate
  have "\<exists>K. \<forall>k \<ge> K. \<exists>data w'. runPartialWorkflow2 (\<lambda>_ _. 0) rev omit_keys (\<lambda>_ _. None) k
     chain_workflow chain_run [] [''a''] (Some ''b'') = Inr (data, w') \<and>
     ''b'' \<in> set (the (startRunNodeFilter data)) \<and>
    (\<exists>t \<in> trigger_candidates chain_workflow ''b''. nodeName t \<in> set (the (startRunNodeFilter data))) \<and>
    (\<forall>e \<in> set (nodeExecutionStack data). execNode e \<in> wf_node_set chain_workflow \<and>
       disabled (execNode e) \<noteq> Some True \<and>
       nodeName (execNode e) \<in> set (the (startRunNodeFilter data)) \<and>
       map_get (resultRunData data) (nodeName (execNode e)) = None) \<and>
    (\<forall>n v. map_get (resultRunData data) n = Some v \<longrightarrow> map_get chain_run n = Some v \<and>
       n \<notin> set [''a''] \<and> n \<in> set (the (startRunNodeFilter data)))"
    by auto
  then show ?thesis by meson
qed

end
