(* ===== verification/Concurrency.thy ===== *)
theory Concurrency
  imports Workflow_Types
begin

text \<open>
  Concurrency control of packages/cli/src: the queue of throttled executions
  (concurrency/concurrency-queue.ts) and the service that decides which executions it applies
  to (concurrency/concurrency-control.service.ts). A promise that the caller awaits is modelled
  by the answer of \<open>enqueue\<close>, whether it is resolved already, and by the event
  \<open>ExecutionReleased\<close>, which resolves it.
\<close>


section \<open>The queue\<close>

datatype ConcurrencyEvent =
    ExecutionThrottled string
  | ExecutionReleased string
  | ConcurrencyCheck int

record ConcurrencyQueue =
  capacity :: int
  queue :: "string list"

definition newQueue :: "int \<Rightarrow> ConcurrencyQueue" where
  "newQueue limit = \<lparr>capacity = limit, queue = []\<rparr>"

definition enqueue ::
  "string \<Rightarrow> ConcurrencyQueue \<Rightarrow> ConcurrencyQueue \<times> bool \<times> ConcurrencyEvent list" where
  "enqueue executionId q =
     (let q = q\<lparr>capacity := capacity q - 1\<rparr>;
          check = ConcurrencyCheck (capacity q)
      in if capacity q < 0
         then (q\<lparr>queue := queue q @ [executionId]\<rparr>, False, [check, ExecutionThrottled executionId])
         else (q, True, [check]))"

definition currentCapacity :: "ConcurrencyQueue \<Rightarrow> int" where
  "currentCapacity q = capacity q"

definition resolveNext :: "ConcurrencyQueue \<Rightarrow> ConcurrencyQueue \<times> ConcurrencyEvent list" where
  "resolveNext q =
     (case queue q of
        [] \<Rightarrow> (q, [])
      | item # items \<Rightarrow> (q\<lparr>queue := items\<rparr>, [ExecutionReleased item]))"

definition dequeue :: "ConcurrencyQueue \<Rightarrow> ConcurrencyQueue \<times> ConcurrencyEvent list" where
  "dequeue q = resolveNext (q\<lparr>capacity := capacity q + 1\<rparr>)"

definition removeQueued ::
  "string \<Rightarrow> ConcurrencyQueue \<Rightarrow> ConcurrencyQueue \<times> ConcurrencyEvent list" where
  "removeQueued executionId q =
     (if executionId \<in> set (queue q)
      then resolveNext (q\<lparr>queue := remove1 executionId (queue q), capacity := capacity q + 1\<rparr>)
      else (q, []))"

definition getAll :: "ConcurrencyQueue \<Rightarrow> string list" where
  "getAll q = fold set_add (queue q) []"

definition hasQueued :: "string \<Rightarrow> ConcurrencyQueue \<Rightarrow> bool" where
  "hasQueued executionId q \<longleftrightarrow> executionId \<in> set (queue q)"

text \<open>The executions that a list of events lets proceed.\<close>

definition released :: "ConcurrencyEvent list \<Rightarrow> string list" where
  "released es = concat (map (\<lambda>e. case e of ExecutionReleased x \<Rightarrow> [x] | _ \<Rightarrow> []) es)"


section \<open>The service\<close>

datatype ExecutionMode =
  MCli | MError | MIntegrated | MInternal | MManual | MRetry | MTrigger | MWebhook | MEvaluation

datatype ConcurrencyQueueType = Production | Evaluation

record ConcurrencyControl =
  isEnabled :: bool
  limits :: "(ConcurrencyQueueType, int) js_map"
  queues :: "(ConcurrencyQueueType, ConcurrencyQueue) js_map"

text \<open>The constructor; the three arguments are the settings that it reads.\<close>

definition newConcurrencyControl :: "int \<Rightarrow> int \<Rightarrow> bool \<Rightarrow> ConcurrencyControl res" where
  "newConcurrencyControl productionLimit evaluationLimit queueMode =
     (let raw = [(Production, productionLimit), (Evaluation, evaluationLimit)]
      in if \<exists>(t, l) \<in> set raw. l = 0
         then Inl (ApplicationError ''InvalidConcurrencyLimitError'')
         else (let lims = map (\<lambda>(t, l). (t, if l < -1 then -1 else l)) raw
           in if (\<forall>(t, l) \<in> set lims. l = -1) \<or> queueMode
              then Inr \<lparr>isEnabled = False, limits = lims, queues = []\<rparr>
              else Inr \<lparr>isEnabled = True, limits = lims,
                        queues = map (\<lambda>(t, l). (t, newQueue l)) (filter (\<lambda>(t, l). l > 0) lims)\<rparr>))"

fun queueType :: "ExecutionMode \<Rightarrow> ConcurrencyQueueType option" where
  "queueType MWebhook = Some Production"
| "queueType MTrigger = Some Production"
| "queueType MEvaluation = Some Evaluation"
| "queueType _ = None"

definition getQueue :: "ConcurrencyControl \<Rightarrow> ExecutionMode \<Rightarrow> ConcurrencyQueue option" where
  "getQueue cc mode = (case queueType mode of None \<Rightarrow> None | Some t \<Rightarrow> map_get (queues cc) t)"

definition setQueue ::
  "ConcurrencyControl \<Rightarrow> ExecutionMode \<Rightarrow> ConcurrencyQueue \<Rightarrow> ConcurrencyControl" where
  "setQueue cc mode q =
     (case queueType mode of None \<Rightarrow> cc | Some t \<Rightarrow> cc\<lparr>queues := map_put t q (queues cc)\<rparr>)"

definition isUnlimited :: "ConcurrencyControl \<Rightarrow> ExecutionMode \<Rightarrow> bool" where
  "isUnlimited cc mode \<longleftrightarrow> getQueue cc mode = None"

definition hasThrottled :: "ConcurrencyControl \<Rightarrow> string \<Rightarrow> bool" where
  "hasThrottled cc executionId \<longleftrightarrow>
     isEnabled cc \<and> (\<exists>q \<in> set (map_values (queues cc)). hasQueued executionId q)"

definition throttle ::
  "ExecutionMode \<Rightarrow> string \<Rightarrow> ConcurrencyControl \<Rightarrow> ConcurrencyControl \<times> bool \<times> ConcurrencyEvent list"
  where
  "throttle mode executionId cc =
     (if \<not> isEnabled cc \<or> isUnlimited cc mode then (cc, True, [])
      else (case getQueue cc mode of
          None \<Rightarrow> (cc, True, [])
        | Some q \<Rightarrow> (let (q', resolved, es) = enqueue executionId q
                   in (setQueue cc mode q', resolved, es))))"

definition release ::
  "ExecutionMode \<Rightarrow> ConcurrencyControl \<Rightarrow> ConcurrencyControl \<times> ConcurrencyEvent list" where
  "release mode cc =
     (if \<not> isEnabled cc \<or> isUnlimited cc mode then (cc, [])
      else (case getQueue cc mode of
          None \<Rightarrow> (cc, [])
        | Some q \<Rightarrow> (let (q', es) = dequeue q in (setQueue cc mode q', es))))"

definition removeThrottled ::
  "ExecutionMode \<Rightarrow> string \<Rightarrow> ConcurrencyControl \<Rightarrow> ConcurrencyControl \<times> ConcurrencyEvent list" where
  "removeThrottled mode executionId cc =
     (if \<not> isEnabled cc \<or> isUnlimited cc mode then (cc, [])
      else (case getQueue cc mode of
          None \<Rightarrow> (cc, [])
        | Some q \<Rightarrow> (let (q', es) = removeQueued executionId q in (setQueue cc mode q', es))))"

text \<open>The loop of \<open>removeAll\<close> over one queue: it removes the executions enqueued at its start.\<close>

definition emptyQueue :: "ConcurrencyQueue \<Rightarrow> ConcurrencyQueue \<times> ConcurrencyEvent list" where
  "emptyQueue q =
     fold (\<lambda>executionId (q, es). let (q', es') = removeQueued executionId q in (q', es @ es'))
       (getAll q) (q, [])"

text \<open>
  \<open>active\<close> gives the id, the status and whether there is a response promise; the result also has
  the ids whose executions are cancelled in the database.
\<close>

definition removeAll ::
  "(string \<times> ExecutionStatus \<times> bool) list \<Rightarrow> ConcurrencyControl \<Rightarrow>
   ConcurrencyControl \<times> ConcurrencyEvent list \<times> string list" where
  "removeAll active cc =
     (if \<not> isEnabled cc then (cc, [], [])
      else (let qs = map (\<lambda>(t, q). (t, emptyQueue q)) (queues cc)
        in (cc\<lparr>queues := map (\<lambda>(t, q, es). (t, q)) qs\<rparr>, concat (map (\<lambda>(t, q, es). es) qs),
            map fst (filter (\<lambda>(executionId, status, responsePromise).
              status = StNew \<and> responsePromise) active))))"

definition disable :: "ConcurrencyControl \<Rightarrow> ConcurrencyControl" where
  "disable cc = cc\<lparr>isEnabled := False\<rparr>"

definition CLOUD_TEMP_PRODUCTION_LIMIT :: int where
  "CLOUD_TEMP_PRODUCTION_LIMIT = 999"

definition limitsToReport :: "int list" where
  "limitsToReport = map (\<lambda>t. CLOUD_TEMP_PRODUCTION_LIMIT - t) [5, 10, 20, 50, 100, 200]"

definition shouldReport :: "bool \<Rightarrow> int \<Rightarrow> bool" where
  "shouldReport cloud cap \<longleftrightarrow> cloud \<and> cap \<in> set limitsToReport"

end
