(* ===== verification/Active_Executions.thy ===== *)
theory Active_Executions
  imports Concurrency
begin

text \<open>
  The class ActiveExecutions of packages/cli/src/active-executions.ts, with the concurrency
  control that it calls. The asynchronous method \<open>add\<close> is split at its \<open>await\<close> of the throttle:
  \<open>beginAdd\<close> runs up to it, \<open>finishAdd\<close> goes on once the throttle's promise is resolved. The
  callback on \<open>postExecutePromise\<close> is the step \<open>onSettled\<close>. Entries are kept in insertion order
  (a JavaScript object would list ids that are decimal numbers in ascending order).
\<close>

datatype 'a promise = Pending | Fulfilled 'a | Rejected string

text \<open>Settling a promise a second time has no effect.\<close>

fun settle :: "'a promise \<Rightarrow> 'a promise \<Rightarrow> 'a promise" where
  "settle v Pending = v"
| "settle v p = p"

record 'run ExecutingWorkflowData =
  exMode :: ExecutionMode
  exWorkflowId :: string
  exRetryOf :: "string option"
  startedAt :: nat
  postExecutePromise :: "'run option promise"
  responsePromise :: "jval promise option"
  workflowExecution :: "bool option"
  exStatus :: ExecutionStatus

text \<open>An \<open>add\<close> that awaits the throttle, and what the execution repository was asked to do.\<close>

record PendingAdd =
  pdId :: string
  pdMode :: ExecutionMode
  pdWorkflowId :: string
  pdRetryOf :: "string option"
  pdNew :: bool
  pdResolved :: bool

datatype RepositoryCall =
    CreateNewExecution string ExecutionStatus
  | SetRunning string
  | UpdateExistingExecution string ExecutionStatus
  | CancelMany "string list"

record 'run ActiveExecutions =
  control :: ConcurrencyControl
  activeExecutions :: "(string, 'run ExecutingWorkflowData) js_map"
  pendingAdds :: "PendingAdd list"
  repository :: "RepositoryCall list"

definition newActiveExecutions :: "ConcurrencyControl \<Rightarrow> 'run ActiveExecutions" where
  "newActiveExecutions cc =
     \<lparr>control = cc, activeExecutions = [], pendingAdds = [], repository = []\<rparr>"

definition hasExecution :: "string \<Rightarrow> 'run ActiveExecutions \<Rightarrow> bool" where
  "hasExecution executionId s \<longleftrightarrow> map_get (activeExecutions s) executionId \<noteq> None"

text \<open>Executions that the queue lets proceed: their throttle promises resolve.\<close>

definition wake :: "string list \<Rightarrow> PendingAdd list \<Rightarrow> PendingAdd list" where
  "wake ids ps = map (\<lambda>p. if pdId p \<in> set ids then p\<lparr>pdResolved := True\<rparr> else p) ps"

text \<open>
  \<open>newId\<close> is the id that the repository gives a new execution, \<open>regular\<close> the setting
  \<open>executions.mode\<close>.
\<close>

definition beginAdd ::
  "bool \<Rightarrow> string \<Rightarrow> ExecutionMode \<Rightarrow> string \<Rightarrow> string option \<Rightarrow> string option \<Rightarrow>
   'run ActiveExecutions \<Rightarrow> 'run ActiveExecutions" where
  "beginAdd regular newId mode workflowId retryOf executionId s =
     (case executionId of
        None \<Rightarrow>
          (let s = s\<lparr>repository := repository s @ [CreateNewExecution newId StNew]\<rparr>;
               (cc, resolved, es) = (if regular then throttle mode newId (control s)
                                     else (control s, True, []))
           in s\<lparr>control := cc,
                pendingAdds := pendingAdds s @
                  [\<lparr>pdId = newId, pdMode = mode, pdWorkflowId = workflowId, pdRetryOf = retryOf,
                    pdNew = True, pdResolved = resolved\<rparr>]\<rparr>)
      | Some i \<Rightarrow>
          (let (cc, resolved, es) = throttle mode i (control s)
           in s\<lparr>control := cc,
                pendingAdds := pendingAdds s @
                  [\<lparr>pdId = i, pdMode = mode, pdWorkflowId = workflowId, pdRetryOf = retryOf,
                    pdNew = False, pdResolved = resolved\<rparr>]\<rparr>))"

definition finishAdd ::
  "bool \<Rightarrow> nat \<Rightarrow> PendingAdd \<Rightarrow> 'run ActiveExecutions \<Rightarrow> 'run ActiveExecutions" where
  "finishAdd regular now p s =
     s\<lparr>pendingAdds := remove1 p (pendingAdds s),
       repository := repository s @
         (if pdNew p then (if regular then [SetRunning (pdId p)] else [])
          else [UpdateExistingExecution (pdId p) StRunning]),
       activeExecutions := map_put (pdId p)
         \<lparr>exMode = pdMode p, exWorkflowId = pdWorkflowId p, exRetryOf = pdRetryOf p,
          startedAt = now, postExecutePromise = Pending, responsePromise = None,
          workflowExecution = None, exStatus = StRunning\<rparr>
         (activeExecutions s)\<rparr>"

text \<open>The \<open>finally\<close> handler of the post-execution promise: release the slot and delete the entry.\<close>

definition onSettled :: "string \<Rightarrow> ExecutionMode \<Rightarrow> 'run ActiveExecutions \<Rightarrow> 'run ActiveExecutions" where
  "onSettled executionId mode s =
     (let (cc, es) = release mode (control s)
      in s\<lparr>control := cc, pendingAdds := wake (released es) (pendingAdds s),
           activeExecutions := map_del executionId (activeExecutions s)\<rparr>)"

definition getExecution :: "string \<Rightarrow> 'run ActiveExecutions \<Rightarrow> 'run ExecutingWorkflowData res" where
  "getExecution executionId s =
     (case map_get (activeExecutions s) executionId of
        None \<Rightarrow> Inl (ApplicationError ''ExecutionNotFoundError'')
      | Some e \<Rightarrow> Inr e)"

definition putExecution ::
  "string \<Rightarrow> 'run ExecutingWorkflowData \<Rightarrow> 'run ActiveExecutions \<Rightarrow> 'run ActiveExecutions" where
  "putExecution executionId e s = s\<lparr>activeExecutions := map_put executionId e (activeExecutions s)\<rparr>"

definition attachWorkflowExecution ::
  "string \<Rightarrow> 'run ActiveExecutions \<Rightarrow> 'run ActiveExecutions res" where
  "attachWorkflowExecution executionId s =
     res_bind (getExecution executionId s) (\<lambda>e.
       Inr (putExecution executionId (e\<lparr>workflowExecution := Some False\<rparr>) s))"

definition attachResponsePromise ::
  "string \<Rightarrow> jval promise \<Rightarrow> 'run ActiveExecutions \<Rightarrow> 'run ActiveExecutions res" where
  "attachResponsePromise executionId p s =
     res_bind (getExecution executionId s) (\<lambda>e.
       Inr (putExecution executionId (e\<lparr>responsePromise := Some p\<rparr>) s))"

definition resolveResponsePromise ::
  "string \<Rightarrow> jval \<Rightarrow> 'run ActiveExecutions \<Rightarrow> 'run ActiveExecutions" where
  "resolveResponsePromise executionId response s =
     (case map_get (activeExecutions s) executionId of
        None \<Rightarrow> s
      | Some e \<Rightarrow> putExecution executionId
          (e\<lparr>responsePromise := map_option (settle (Fulfilled response)) (responsePromise e)\<rparr>) s)"

text \<open>\<open>workflowExecution\<close> is \<open>Some True\<close> once its \<open>cancel\<close> was called.\<close>

definition stopExecution :: "string \<Rightarrow> 'run ActiveExecutions \<Rightarrow> 'run ActiveExecutions" where
  "stopExecution executionId s =
     (case map_get (activeExecutions s) executionId of
        None \<Rightarrow> s
      | Some e \<Rightarrow> putExecution executionId
          (e\<lparr>workflowExecution := map_option (\<lambda>_. True) (workflowExecution e),
             postExecutePromise :=
               settle (Rejected ''ExecutionCancelledError'') (postExecutePromise e)\<rparr>) s)"

definition finalizeExecution ::
  "string \<Rightarrow> 'run option \<Rightarrow> 'run ActiveExecutions \<Rightarrow> 'run ActiveExecutions" where
  "finalizeExecution executionId fullRunData s =
     (case map_get (activeExecutions s) executionId of
        None \<Rightarrow> s
      | Some e \<Rightarrow> putExecution executionId
          (e\<lparr>postExecutePromise := settle (Fulfilled fullRunData) (postExecutePromise e)\<rparr>) s)"

definition getPostExecutePromise ::
  "string \<Rightarrow> 'run ActiveExecutions \<Rightarrow> 'run option promise res" where
  "getPostExecutePromise executionId s =
     res_bind (getExecution executionId s) (\<lambda>e. Inr (postExecutePromise e))"

definition getActiveExecutions ::
  "'run ActiveExecutions \<Rightarrow>
   (string \<times> string option \<times> nat \<times> ExecutionMode \<times> string \<times> ExecutionStatus) list" where
  "getActiveExecutions s =
     map (\<lambda>(i, e). (i, exRetryOf e, startedAt e, exMode e, exWorkflowId e, exStatus e))
       (activeExecutions s)"

definition setStatus ::
  "string \<Rightarrow> ExecutionStatus \<Rightarrow> 'run ActiveExecutions \<Rightarrow> 'run ActiveExecutions res" where
  "setStatus executionId status s =
     res_bind (getExecution executionId s) (\<lambda>e.
       Inr (putExecution executionId (e\<lparr>exStatus := status\<rparr>) s))"

definition getStatus :: "string \<Rightarrow> 'run ActiveExecutions \<Rightarrow> ExecutionStatus res" where
  "getStatus executionId s = res_bind (getExecution executionId s) (\<lambda>e. Inr (exStatus e))"

text \<open>
  The method \<open>stopInRegularMode\<close> of executions/execution.service.ts, without the wait tracker and
  the database: a queued execution leaves the queue, an active one is stopped.
\<close>

definition stopInRegularMode ::
  "ExecutionMode \<Rightarrow> string \<Rightarrow> 'run ActiveExecutions \<Rightarrow> 'run ActiveExecutions" where
  "stopInRegularMode mode executionId s =
     (if hasThrottled (control s) executionId then
        (let (cc, es) = removeThrottled mode executionId (control s)
         in s\<lparr>control := cc, pendingAdds := wake (released es) (pendingAdds s)\<rparr>)
      else if hasExecution executionId s then stopExecution executionId s
      else s)"

text \<open>\<open>shutdown\<close> up to the loop that waits until no execution is active.\<close>

definition shutdown :: "bool \<Rightarrow> bool \<Rightarrow> 'run ActiveExecutions \<Rightarrow> 'run ActiveExecutions" where
  "shutdown regular cancelAll s =
     (let executionIds = map_keys (activeExecutions s);
          s = (if regular then s\<lparr>control := disable (control s)\<rparr> else s)
      in if cancelAll then
           (let (cc, es, cancelled) =
                  (if regular
                   then removeAll (map (\<lambda>(i, e). (i, exStatus e, responsePromise e \<noteq> None))
                          (activeExecutions s)) (control s)
                   else (control s, [], []));
                s = s\<lparr>control := cc, pendingAdds := wake (released es) (pendingAdds s),
                      repository := repository s @
                        (if cancelled = [] then [] else [CancelMany cancelled])\<rparr>
            in fold stopExecution executionIds s)
         else s)"

definition shutdownDone :: "'run ActiveExecutions \<Rightarrow> bool" where
  "shutdownDone s \<longleftrightarrow> map_keys (activeExecutions s) = []"

end
