(* ===== verification/Concurrency_Facts.thy ===== *)
theory Concurrency_Facts
  imports Active_Executions
begin

text \<open>
  The concurrency limit. The queue is used through one interface: entering takes a slot or joins
  a waiting line, leaving gives the slot to the first that waits. ActiveExecutions keeps the
  books so that the executions past the throttle never exceed the limit.
\<close>


section \<open>Admission with a limited number of slots\<close>

locale admission =
  fixes enter :: "'i \<Rightarrow> 'q \<Rightarrow> 'q \<times> bool"
    and leave :: "'q \<Rightarrow> 'q \<times> 'i list"
    and free :: "'q \<Rightarrow> int"
    and line :: "'q \<Rightarrow> 'i list"
  assumes enter_law: "enter i q = (q', b) \<Longrightarrow>
      free q' = free q - 1 \<and> (b \<longleftrightarrow> free q' \<ge> 0) \<and> line q' = (if b then line q else line q @ [i])"
    and leave_law: "leave q = (q', is) \<Longrightarrow>
      free q' = free q + 1 \<and> line q = is @ line q' \<and> length is = min 1 (length (line q))"
begin

text \<open>\<open>n\<close> users hold one of \<open>L\<close> slots; somebody waits only when all slots are taken.\<close>

definition balanced :: "int \<Rightarrow> nat \<Rightarrow> 'q \<Rightarrow> bool" where
  "balanced L n q \<longleftrightarrow>
     free q = L - int n - int (length (line q)) \<and> int n \<le> L \<and> (line q \<noteq> [] \<longrightarrow> int n = L)"

lemma balanced_start: "free q = L \<Longrightarrow> line q = [] \<Longrightarrow> 0 \<le> L \<Longrightarrow> balanced L 0 q"
  by (simp add: balanced_def)

lemma enter_balanced:
  assumes "balanced L n q" and "enter i q = (q', b)"
  shows "balanced L (if b then Suc n else n) q'"
proof -
  have law: "free q' = free q - 1" "b \<longleftrightarrow> free q' \<ge> 0"
    "line q' = (if b then line q else line q @ [i])"
    using enter_law [OF assms(2)] by auto
  show ?thesis
  proof (cases b)
    case True
    then have "line q = []" using assms(1) law by (cases "line q") (auto simp: balanced_def)
    with True assms(1) law show ?thesis by (auto simp: balanced_def)
  next
    case False
    then have "int n = L" using assms(1) law by (cases "line q") (auto simp: balanced_def)
    with False assms(1) law show ?thesis by (auto simp: balanced_def)
  qed
qed

lemma leave_balanced:
  assumes "balanced L (Suc n) q" and "leave q = (q', is)"
  shows "balanced L (n + length is) q'"
proof -
  have fr: "free q' = free q + 1" and ln: "line q = is @ line q'"
    and len: "length is = min 1 (length (line q))"
    using leave_law [OF assms(2)] by blast+
  have bal: "free q = L - int (Suc n) - int (length (line q))" "int (Suc n) \<le> L"
    "line q \<noteq> [] \<longrightarrow> int (Suc n) = L"
    using assms(1) unfolding balanced_def by blast+
  show ?thesis
  proof (cases "line q = []")
    case True
    then have e: "length is = 0" "line q' = []" using ln len by simp_all
    show ?thesis unfolding balanced_def e fr bal(1) True using bal(2) by simp
  next
    case False
    then have one: "length is = 1" using len by (cases "line q") simp_all
    have "length (line q) = Suc (length (line q'))" using arg_cong [OF ln, of length] one by simp
    then have "free q' = L - int (Suc n) - int (length (line q'))" using fr bal(1) by simp
    then show ?thesis unfolding balanced_def one using bal(3) False by simp
  qed
qed

end

definition enterQueue :: "string \<Rightarrow> ConcurrencyQueue \<Rightarrow> ConcurrencyQueue \<times> bool" where
  "enterQueue i q = (let (q', b, es) = enqueue i q in (q', b))"

definition leaveQueue :: "ConcurrencyQueue \<Rightarrow> ConcurrencyQueue \<times> string list" where
  "leaveQueue q = (let (q', es) = dequeue q in (q', released es))"

interpretation slots: admission enterQueue leaveQueue capacity queue
proof unfold_locales
  show "enterQueue i q = (q', b) \<Longrightarrow> capacity q' = capacity q - 1 \<and> (b \<longleftrightarrow> capacity q' \<ge> 0) \<and>
      queue q' = (if b then queue q else queue q @ [i])" for i q q' b
    by (auto simp: enterQueue_def enqueue_def Let_def split: if_splits)
  show "leaveQueue q = (q', is) \<Longrightarrow> capacity q' = capacity q + 1 \<and> queue q = is @ queue q' \<and>
      length is = min 1 (length (queue q))" for q q' "is"
    by (auto simp: leaveQueue_def dequeue_def resolveNext_def released_def split: list.splits)
qed


section \<open>The books of ActiveExecutions\<close>

text \<open>Executions of a type that are past the throttle, and those that wait.\<close>

definition of_type :: "ConcurrencyQueueType \<Rightarrow> ExecutionMode \<Rightarrow> bool" where
  "of_type t mode \<longleftrightarrow> queueType mode = Some t"

definition past_throttle :: "ConcurrencyQueueType \<Rightarrow> 'run ActiveExecutions \<Rightarrow> nat" where
  "past_throttle t s =
     length (filter (\<lambda>p. pdResolved p \<and> of_type t (pdMode p)) (pendingAdds s)) +
     length (filter (of_type t) (map exMode (map_values (activeExecutions s))))"

definition throttled :: "ConcurrencyQueueType \<Rightarrow> 'run ActiveExecutions \<Rightarrow> string list" where
  "throttled t s =
     map pdId (filter (\<lambda>p. \<not> pdResolved p \<and> of_type t (pdMode p)) (pendingAdds s))"

definition waiting :: "ConcurrencyQueueType \<Rightarrow> PendingAdd \<Rightarrow> bool" where
  "waiting t p \<longleftrightarrow> \<not> pdResolved p \<and> of_type t (pdMode p)"

definition count_past :: "ConcurrencyQueueType \<Rightarrow> PendingAdd list \<Rightarrow> nat" where
  "count_past t ps = length (filter (\<lambda>p. pdResolved p \<and> of_type t (pdMode p)) ps)"

definition count_active ::
  "ConcurrencyQueueType \<Rightarrow> (string, 'run ExecutingWorkflowData) js_map \<Rightarrow> nat" where
  "count_active t m = length (filter (of_type t) (map exMode (map_values m)))"

lemma throttled_waiting: "throttled t s = map pdId (filter (waiting t) (pendingAdds s))"
  by (simp add: throttled_def waiting_def [abs_def])

lemma past_throttle_cnt:
  "past_throttle t s = count_past t (pendingAdds s) + count_active t (activeExecutions s)"
  by (simp add: past_throttle_def count_past_def count_active_def)

definition known_ids :: "'run ActiveExecutions \<Rightarrow> string list" where
  "known_ids s = map pdId (pendingAdds s) @ map_keys (activeExecutions s)"

definition books_ok :: "(ConcurrencyQueueType \<Rightarrow> int option) \<Rightarrow> 'run ActiveExecutions \<Rightarrow> bool" where
  "books_ok lm s \<longleftrightarrow>
     isEnabled (control s) \<and> distinct (known_ids s) \<and>
     (\<forall>t. (lm t = None) = (map_get (queues (control s)) t = None)) \<and>
     (\<forall>t L q. lm t = Some L \<longrightarrow> map_get (queues (control s)) t = Some q \<longrightarrow>
        queue q = throttled t s \<and> slots.balanced L (past_throttle t s) q)"

text \<open>
  The steps of a process that is not shutting down: an \<open>add\<close> with an id that is not known yet,
  its continuation, the callback of a settled promise, and the methods that change one entry.
\<close>

inductive ae_step :: "bool \<Rightarrow> 'run ActiveExecutions \<Rightarrow> 'run ActiveExecutions \<Rightarrow> bool"
  for regular where
  add: "i \<notin> set (known_ids s) \<Longrightarrow> executionId \<in> {None, Some i} \<Longrightarrow> executionId = None \<longrightarrow> regular \<Longrightarrow>
    ae_step regular s (beginAdd regular i mode workflowId retryOf executionId s)"
| finish: "p \<in> set (pendingAdds s) \<Longrightarrow> pdResolved p \<Longrightarrow>
    ae_step regular s (finishAdd regular now p s)"
| settled: "map_get (activeExecutions s) i = Some e \<Longrightarrow> postExecutePromise e \<noteq> Pending \<Longrightarrow>
    ae_step regular s (onSettled i (exMode e) s)"
| finalize: "ae_step regular s (finalizeExecution i r s)"
| stop: "ae_step regular s (stopExecution i s)"
| respond: "ae_step regular s (resolveResponsePromise i v s)"
| status: "setStatus i st s = Inr s' \<Longrightarrow> ae_step regular s s'"
| attach: "attachWorkflowExecution i s = Inr s' \<Longrightarrow> ae_step regular s s'"
| attachResponse: "attachResponsePromise i pr s = Inr s' \<Longrightarrow> ae_step regular s s'"

inductive ae_reachable :: "bool \<Rightarrow> ConcurrencyControl \<Rightarrow> 'run ActiveExecutions \<Rightarrow> bool"
  for regular cc where
  start: "ae_reachable regular cc (newActiveExecutions cc)"
| step: "ae_reachable regular cc s \<Longrightarrow> ae_step regular s s' \<Longrightarrow> ae_reachable regular cc s'"

lemma map_put_values:
  "map_get m k = Some v \<Longrightarrow> f w = f v \<Longrightarrow> map f (map_values (map_put k w m)) = map f (map_values m)"
  by (induction m) auto

lemma map_put_keys: "map_get m k = Some v \<Longrightarrow> map_keys (map_put k w m) = map_keys m"
  by (induction m) auto

text \<open>Changing an entry without changing its mode.\<close>

lemma books_putExecution:
  assumes ok: "books_ok lm s" and e: "map_get (activeExecutions s) i = Some e" "exMode e' = exMode e"
  shows "books_ok lm (putExecution i e' s)"
proof -
  have "past_throttle t (putExecution i e' s) = past_throttle t s"
    "throttled t (putExecution i e' s) = throttled t s" for t
    using map_put_values [OF e(1), of exMode e'] e(2)
    by (simp_all add: past_throttle_def throttled_def putExecution_def)
  moreover have "known_ids (putExecution i e' s) = known_ids s"
    using map_put_keys [OF e(1)] by (simp add: known_ids_def putExecution_def)
  ultimately show ?thesis using ok by (simp add: books_ok_def putExecution_def)
qed

lemma books_status_changes:
  assumes "books_ok lm s"
  shows "books_ok lm (finalizeExecution i r s)" "books_ok lm (stopExecution i s)"
    "books_ok lm (resolveResponsePromise i v s)"
    "setStatus i st s = Inr s' \<Longrightarrow> books_ok lm s'"
    "attachWorkflowExecution i s = Inr s' \<Longrightarrow> books_ok lm s'"
    "attachResponsePromise i pr s = Inr s' \<Longrightarrow> books_ok lm s'"
  using assms
  by (auto simp: finalizeExecution_def stopExecution_def resolveResponsePromise_def setStatus_def
      attachWorkflowExecution_def attachResponsePromise_def getExecution_def
      intro: books_putExecution split: option.splits)

text \<open>Throttling and releasing, in terms of the interface.\<close>

lemma throttle_cases:
  assumes "isEnabled cc"
  shows "throttle mode i cc =
     (case queueType mode of None \<Rightarrow> (cc, True, [])
      | Some t \<Rightarrow> (case map_get (queues cc) t of None \<Rightarrow> (cc, True, [])
          | Some q \<Rightarrow> (let (q', b, es) = enqueue i q
              in (cc\<lparr>queues := map_put t q' (queues cc)\<rparr>, b, es))))"
  using assms by (auto simp: throttle_def isUnlimited_def getQueue_def setQueue_def
      split: option.splits)

lemma release_cases:
  assumes "isEnabled cc"
  shows "release mode cc =
     (case queueType mode of None \<Rightarrow> (cc, [])
      | Some t \<Rightarrow> (case map_get (queues cc) t of None \<Rightarrow> (cc, [])
          | Some q \<Rightarrow> (let (q', es) = dequeue q
              in (cc\<lparr>queues := map_put t q' (queues cc)\<rparr>, es))))"
  using assms by (auto simp: release_def isUnlimited_def getQueue_def setQueue_def
      split: option.splits)

text \<open>A new pending add with the answer of the throttle.\<close>

lemma books_new_pending:
  assumes ok: "books_ok lm s" and fresh: "i \<notin> set (known_ids s)"
    and thr: "throttle mode i (control s) = (cc, b, es)"
    and p: "pdId p = i" "pdMode p = mode" "pdResolved p = b"
    and s': "control s' = cc" "pendingAdds s' = pendingAdds s @ [p]"
      "activeExecutions s' = activeExecutions s"
  shows "books_ok lm s'"
proof -
  have en: "isEnabled (control s)" using ok by (simp add: books_ok_def)
  have ids: "distinct (known_ids s')"
    using ok fresh p(1) s' by (auto simp: books_ok_def known_ids_def)
  have counts: "past_throttle t s' = past_throttle t s + (if b \<and> of_type t mode then 1 else 0)"
    "throttled t s' = throttled t s @ (if \<not> b \<and> of_type t mode then [i] else [])" for t
    using p s' by (auto simp: past_throttle_def throttled_def)
  show ?thesis
  proof (cases "\<exists>t q. queueType mode = Some t \<and> map_get (queues (control s)) t = Some q")
    case False
    then have "cc = control s" "b" using thr throttle_cases [OF en, of mode i] by (auto split: option.splits)
    moreover have "lm t = None" if "of_type t mode" for t
      using False ok that by (auto simp: books_ok_def of_type_def)
    then have "past_throttle t s' = past_throttle t s" "throttled t s' = throttled t s"
      if "lm t \<noteq> None" for t
      using counts [of t] that \<open>b\<close> by auto
    ultimately show ?thesis using ok ids unfolding books_ok_def s'(1) by simp
  next
    case True
    then obtain t q where t: "queueType mode = Some t" "map_get (queues (control s)) t = Some q" by blast
    obtain q' es' where q': "enqueue i q = (q', b, es')" "cc = (control s)\<lparr>queues := map_put t q' (queues (control s))\<rparr>"
      using thr throttle_cases [OF en, of mode i] t by (cases "enqueue i q") auto
    then have ent: "enterQueue i q = (q', b)" by (simp add: enterQueue_def)
    have ty: "of_type u mode \<longleftrightarrow> u = t" for u using t(1) by (auto simp: of_type_def)
    have same: "(lm u = None) = (map_get (queues cc) u = None)" for u
      using ok t(2) q'(2) by (auto simp: books_ok_def)
    have "queue r = throttled u s' \<and> slots.balanced L (past_throttle u s') r"
      if u: "lm u = Some L" "map_get (queues cc) u = Some r" for u L r
    proof (cases "u = t")
      case False
      then have "map_get (queues (control s)) u = Some r" using u(2) q'(2) by simp
      with ok u(1) False counts [of u] ty show ?thesis by (simp add: books_ok_def)
    next
      case True
      then have r: "r = q'" using u(2) q'(2) by simp
      have old: "queue q = throttled t s" "slots.balanced L (past_throttle t s) q"
        using ok u(1) True t(2) by (auto simp: books_ok_def)
      have "queue q' = (if b then queue q else queue q @ [i])"
        using slots.enter_law [OF ent] by simp
      moreover have "slots.balanced L (if b then Suc (past_throttle t s) else past_throttle t s) q'"
        by (rule slots.enter_balanced [OF old(2) ent])
      ultimately show ?thesis using True r old(1) counts [of t] ty by auto
    qed
    with ids same en q'(2) s'(1) show ?thesis unfolding books_ok_def by simp
  qed
qed

lemma books_finish:
  assumes ok: "books_ok lm s" and p: "p \<in> set (pendingAdds s)" "pdResolved p"
  shows "books_ok lm (finishAdd regular now p s)"
proof -
  let ?s' = "finishAdd regular now p s"
  have dist: "distinct (known_ids s)" using ok by (simp add: books_ok_def)
  then have new: "pdId p \<notin> set (map_keys (activeExecutions s))" and dp: "distinct (map pdId (pendingAdds s))"
    using p(1) by (auto simp: known_ids_def)
  obtain xs ys where split: "pendingAdds s = xs @ p # ys" "p \<notin> set xs"
    using split_list_first [OF p(1)] by blast
  then have rem: "pendingAdds ?s' = xs @ ys" by (simp add: finishAdd_def remove1_append)
  obtain e where act: "activeExecutions ?s' = activeExecutions s @ [(pdId p, e)]" "exMode e = pdMode p"
    using map_put_fresh [OF new] by (simp add: finishAdd_def)
  have "past_throttle t ?s' = past_throttle t s" "throttled t ?s' = throttled t s" for t
    unfolding past_throttle_def throttled_def rem act split(1) using act(2) p(2) by auto
  moreover have "distinct (known_ids ?s')"
    using dist unfolding known_ids_def rem act split(1) by auto
  moreover have "control ?s' = control s" by (simp add: finishAdd_def)
  ultimately show ?thesis using ok by (simp add: books_ok_def)
qed

lemma wake_none [simp]: "wake [] ps = ps"
  by (induction ps) (simp_all add: wake_def)

lemma wake_ids: "map pdId (wake ids ps) = map pdId ps"
  by (induction ps) (simp_all add: wake_def)

lemma wake_single:
  assumes "distinct (map pdId (xs @ p # ys))"
  shows "wake [pdId p] (xs @ p # ys) = xs @ p\<lparr>pdResolved := True\<rparr> # ys"
proof -
  have "wake [pdId p] zs = zs" if "pdId p \<notin> set (map pdId zs)" for zs
    using that by (induction zs) (auto simp: wake_def)
  moreover have "pdId p \<notin> set (map pdId xs)" "pdId p \<notin> set (map pdId ys)"
    using assms by auto
  ultimately show ?thesis by (simp add: wake_def)
qed

text \<open>Waking the first execution of a type that waits.\<close>

lemma wake_first:
  assumes "filter P ps = p # rest" and "distinct (map pdId ps)"
  shows "\<exists>xs ys. ps = xs @ p # ys \<and> wake [pdId p] ps = xs @ p\<lparr>pdResolved := True\<rparr> # ys \<and>
    filter P xs = [] \<and> filter P ys = rest"
proof -
  from assms(1) obtain xs ys where split: "ps = xs @ p # ys" "\<forall>x \<in> set xs. \<not> P x" "P p" "rest = filter P ys"
    by (metis filter_eq_Cons_iff)
  have "wake [pdId p] ps = xs @ p\<lparr>pdResolved := True\<rparr> # ys"
    using wake_single [of xs p ys] assms(2) unfolding split(1) by blast
  with split show ?thesis by (metis filter_False)
qed

lemma wake_counts:
  assumes line: "map pdId (filter (waiting t) ps) = ids" and dist: "distinct (map pdId ps)"
    and rs: "ids = rs @ rest" "length rs = min 1 (length ids)"
  shows "map pdId (filter (waiting t) (wake rs ps)) = rest"
    and "count_past t (wake rs ps) = count_past t ps + length rs"
    and "u \<noteq> t \<Longrightarrow> map pdId (filter (waiting u) (wake rs ps)) = map pdId (filter (waiting u) ps) \<and>
      count_past u (wake rs ps) = count_past u ps"
proof -
  have "map pdId (filter (waiting t) (wake rs ps)) = rest \<and>
    count_past t (wake rs ps) = count_past t ps + length rs \<and>
    (u \<noteq> t \<longrightarrow> map pdId (filter (waiting u) (wake rs ps)) = map pdId (filter (waiting u) ps) \<and>
      count_past u (wake rs ps) = count_past u ps)"
  proof (cases "filter (waiting t) ps")
    case Nil
    then have "rs = []" "rest = []" using line rs(1) by simp_all
    with Nil show ?thesis by simp
  next
    case (Cons p more)
    from wake_first [OF Cons dist] obtain xs ys where w: "ps = xs @ p # ys"
      "wake [pdId p] ps = xs @ p\<lparr>pdResolved := True\<rparr> # ys"
      "filter (waiting t) xs = []" "filter (waiting t) ys = more" by blast
    have ids: "ids = pdId p # map pdId more" using line Cons by simp
    then have "length rs = 1" using rs(2) by simp
    then have r: "rs = [pdId p]" "rest = map pdId more"
      using rs(1) unfolding ids by (cases rs; simp)+
    have "waiting t p" using Cons by (metis filter_eq_Cons_iff)
    then have p: "\<not> pdResolved p" "of_type t (pdMode p)" by (simp_all add: waiting_def)
    then have other: "\<not> of_type u (pdMode p)" if "u \<noteq> t" using that by (auto simp: of_type_def)
    show ?thesis
      unfolding r w(2) unfolding w(1) using w(3,4) p other by (simp add: waiting_def count_past_def)
  qed
  then show "map pdId (filter (waiting t) (wake rs ps)) = rest"
    and "count_past t (wake rs ps) = count_past t ps + length rs"
    and "u \<noteq> t \<Longrightarrow> map pdId (filter (waiting u) (wake rs ps)) = map pdId (filter (waiting u) ps) \<and>
      count_past u (wake rs ps) = count_past u ps" by blast+
qed

lemma map_del_values:
  "map_get m k = Some v \<Longrightarrow> distinct (map_keys m) \<Longrightarrow>
   length (filter P (map f (map_values m))) =
     length (filter P (map f (map_values (map_del k m)))) + (if P (f v) then 1 else 0)"
proof (induction m)
  case (Cons p m)
  have "map_del k m = m" if "k = fst p"
    using Cons.prems that by (simp add: delete_id)
  with Cons show ?case by (auto split: if_splits)
qed simp

lemma books_settled:
  assumes ok: "books_ok lm s" and e: "map_get (activeExecutions s) i = Some e"
  shows "books_ok lm (onSettled i (exMode e) s)"
proof -
  let ?s' = "onSettled i (exMode e) s"
  have en: "isEnabled (control s)" and dist: "distinct (known_ids s)" using ok by (auto simp: books_ok_def)
  then have da: "distinct (map_keys (activeExecutions s))" and dp: "distinct (map pdId (pendingAdds s))"
    and disj: "set (map pdId (pendingAdds s)) \<inter> set (map_keys (activeExecutions s)) = {}"
    by (auto simp: known_ids_def)
  obtain cc es where rel: "release (exMode e) (control s) = (cc, es)" by fastforce
  have s': "control ?s' = cc" "pendingAdds ?s' = wake (released es) (pendingAdds s)"
    "activeExecutions ?s' = map_del i (activeExecutions s)"
    by (simp_all add: onSettled_def rel)
  have ids: "distinct (known_ids ?s')"
    unfolding known_ids_def s'(2,3) wake_ids distinct_append keys_map_del
    using da dp disj by (metis Diff_disjoint Diff_subset disjoint_iff distinct_map_del subsetD)
  have cnt: "count_active t (activeExecutions s) =
      count_active t (activeExecutions ?s') + (if of_type t (exMode e) then 1 else 0)" for t
    unfolding count_active_def s'(3) by (rule map_del_values [OF e da])
  show ?thesis
  proof (cases "\<exists>t q. queueType (exMode e) = Some t \<and> map_get (queues (control s)) t = Some q")
    case False
    then have cc: "cc = control s" "es = []"
      using rel release_cases [OF en, of "exMode e"] by (auto split: option.splits)
    have none: "lm t = None" if "of_type t (exMode e)" for t
      using False ok that by (auto simp: books_ok_def of_type_def)
    have "\<not> of_type t (exMode e)" if "lm t \<noteq> None" for t using that none by metis
    moreover have "pendingAdds ?s' = pendingAdds s" unfolding s'(2) cc(2) by (simp add: released_def)
    ultimately have "past_throttle t ?s' = past_throttle t s" "throttled t ?s' = throttled t s"
      if "lm t \<noteq> None" for t
      using that cnt [of t] unfolding past_throttle_cnt throttled_waiting by simp_all
    with ok ids show ?thesis unfolding books_ok_def s'(1) cc(1) by (metis option.distinct(1))
  next
    case True
    then obtain t q where t: "queueType (exMode e) = Some t" "map_get (queues (control s)) t = Some q" by blast
    obtain q' where q': "dequeue q = (q', es)" "cc = (control s)\<lparr>queues := map_put t q' (queues (control s))\<rparr>"
      using rel release_cases [OF en, of "exMode e"] t by (cases "dequeue q") auto
    then have lv: "leaveQueue q = (q', released es)" by (simp add: leaveQueue_def)
    have ty: "of_type u (exMode e) \<longleftrightarrow> u = t" for u using t(1) by (auto simp: of_type_def)
    have same: "(lm u = None) = (map_get (queues cc) u = None)" for u
      using ok t(2) q'(2) by (auto simp: books_ok_def)
    have "lm t \<noteq> None" using ok t(2) unfolding books_ok_def by (metis option.distinct(1))
    then obtain L where L: "lm t = Some L" by blast
    have old: "queue q = throttled t s" "slots.balanced L (past_throttle t s) q"
      using ok L t(2) by (auto simp: books_ok_def)
    have law: "queue q = released es @ queue q'" "length (released es) = min 1 (length (queue q))"
      using slots.leave_law [OF lv] by blast+
    have woken: "throttled t ?s' = queue q'"
        "count_past t (pendingAdds ?s') = count_past t (pendingAdds s) + length (released es)"
      and other: "\<And>u. u \<noteq> t \<Longrightarrow> throttled u ?s' = throttled u s \<and>
        count_past u (pendingAdds ?s') = count_past u (pendingAdds s)"
      using wake_counts [OF old(1) [symmetric, unfolded throttled_waiting] dp law]
      unfolding throttled_waiting s'(2) by blast+
    have "queue r = throttled u ?s' \<and> slots.balanced M (past_throttle u ?s') r"
      if u: "lm u = Some M" "map_get (queues cc) u = Some r" for u M r
    proof (cases "u = t")
      case False
      then have "map_get (queues (control s)) u = Some r" using u(2) q'(2) by simp
      moreover have "past_throttle u ?s' = past_throttle u s"
        using other [OF False] False cnt [of u] ty unfolding past_throttle_cnt by simp
      ultimately show ?thesis using ok u(1) other [OF False] unfolding books_ok_def by metis
    next
      case True
      then have r: "r = q'" and M: "M = L" using u q'(2) L by auto
      define n where "n = count_past t (pendingAdds s) + count_active t (activeExecutions ?s')"
      have "past_throttle t s = Suc n" "past_throttle t ?s' = n + length (released es)"
        unfolding past_throttle_cnt n_def woken(2) cnt [of t] using ty by simp_all
      with slots.leave_balanced [OF _ lv, of L n] old(2) woken(1) True r M show ?thesis by metis
    qed
    with ids same en q'(2) s'(1) show ?thesis unfolding books_ok_def by simp
  qed
qed

lemma books_step: "ae_step regular s s' \<Longrightarrow> books_ok lm s \<Longrightarrow> books_ok lm s'"
proof (induction rule: ae_step.induct)
  case (add i s executionId mode workflowId retryOf)
  obtain cc b es where thr: "throttle mode i (control s) = (cc, b, es)" by (cases "throttle mode i (control s)")
  show ?case
    by (rule books_new_pending [OF add.prems add.hyps(1) thr, where p =
          "\<lparr>pdId = i, pdMode = mode, pdWorkflowId = workflowId, pdRetryOf = retryOf,
            pdNew = (executionId = None), pdResolved = b\<rparr>"])
      (use add.hyps thr in \<open>auto simp: beginAdd_def\<close>)
qed (auto intro: books_finish books_settled books_status_changes)

definition limit_of :: "ConcurrencyControl \<Rightarrow> ConcurrencyQueueType \<Rightarrow> int option" where
  "limit_of cc t = (case map_get (limits cc) t of
     None \<Rightarrow> None | Some L \<Rightarrow> if L > 0 then Some L else None)"

lemma books_start:
  assumes "newConcurrencyControl pl el qm = Inr cc" and "isEnabled cc"
  shows "books_ok (limit_of cc) (newActiveExecutions cc)"
proof -
  have "(limit_of cc t = None) = (map_get (queues cc) t = None) \<and>
      (\<forall>L. limit_of cc t = Some L \<longrightarrow> 0 < L \<and> map_get (queues cc) t = Some (newQueue L))" for t
    using assms by (cases t) (auto simp: newConcurrencyControl_def limit_of_def Let_def split: if_splits)
  then show ?thesis
    using assms(2)
    by (fastforce simp: books_ok_def newActiveExecutions_def known_ids_def throttled_def
        past_throttle_def newQueue_def slots.balanced_def)
qed

lemma books_reachable:
  assumes "ae_reachable regular cc s" and "newConcurrencyControl pl el qm = Inr cc" and "isEnabled cc"
  shows "books_ok (limit_of cc) s"
  using assms(1)
  by (induction rule: ae_reachable.induct) (use assms(2,3) in \<open>auto intro: books_start books_step\<close>)

end
