(* ===== verification/Concurrency_Properties.thy ===== *)
theory Concurrency_Properties
  imports Concurrency_Facts
begin

text \<open>
  What the concurrency control guarantees for the executions of a process: the limit, the order
  in which waiting executions proceed, shutdown, and what removing queued executions does.
\<close>


section \<open>Dequeuing and emptying\<close>

lemma released_simps [simp]:
  "released [] = []"
  "released (ExecutionReleased i # es) = i # released es"
  "released (ExecutionThrottled i # es) = released es"
  "released (ConcurrencyCheck n # es) = released es"
  by (simp_all add: released_def)

lemma released_append [simp]: "released (es @ es') = released es @ released es'"
  by (simp add: released_def)

primrec dequeues :: "nat \<Rightarrow> ConcurrencyQueue \<Rightarrow> ConcurrencyQueue \<times> ConcurrencyEvent list" where
  "dequeues 0 q = (q, [])"
| "dequeues (Suc n) q =
     (let (q', es) = dequeue q; (q'', es') = dequeues n q' in (q'', es @ es'))"

fun every_second :: "'a list \<Rightarrow> 'a list" where
  "every_second (x # y # ys) = y # every_second ys"
| "every_second _ = []"

lemma length_every_second: "length (every_second xs) = length xs div 2"
  by (induction xs rule: every_second.induct) auto

lemma getAll_distinct: "distinct (queue q) \<Longrightarrow> getAll q = queue q"
proof -
  have "distinct (ys @ xs) \<Longrightarrow> fold set_add xs ys = ys @ xs" for xs ys :: "string list"
    by (induction xs arbitrary: ys) (auto simp: set_add_def)
  from this [of "[]" "queue q"] show "distinct (queue q) \<Longrightarrow> getAll q = queue q"
    by (simp add: getAll_def)
qed

lemma emptying:
  assumes "queue q = xs" and "distinct xs"
  shows "\<exists>q' es'. fold (\<lambda>executionId (q, es).
      let (q', es') = removeQueued executionId q in (q', es @ es')) xs (q, es) = (q', es @ es') \<and>
    queue q' = [] \<and> released es' = every_second xs \<and>
    capacity q' = capacity q + int ((length xs + 1) div 2)"
  using assms
proof (induction xs arbitrary: q es rule: every_second.induct)
  case (1 x y ys)
  let ?q = "q\<lparr>queue := ys, capacity := capacity q + 1\<rparr>"
  have first: "removeQueued x q = (?q, [ExecutionReleased y])"
    using 1(2) by (simp add: removeQueued_def resolveNext_def)
  have second: "removeQueued y ?q = (?q, [])"
    using 1(3) by (simp add: removeQueued_def)
  show ?case using 1(1) [of ?q "es @ [ExecutionReleased y]"] 1(3) first second by auto
qed (simp_all add: removeQueued_def resolveNext_def)


section \<open>Properties\<close>


definition example_control :: ConcurrencyControl where
  "example_control = \<lparr>isEnabled = True, limits = [(Production, 1), (Evaluation, -1)],
     queues = [(Production, newQueue 1)]\<rparr>"

definition one_add :: "unit ActiveExecutions" where
  "one_add = beginAdd True ''1'' MTrigger ''w'' None None (newActiveExecutions example_control)"

definition two_adds :: "unit ActiveExecutions" where
  "two_adds = beginAdd True ''2'' MWebhook ''w'' None None one_add"

lemma two_adds_reachable: "ae_reachable True example_control two_adds"
proof -
  have "''1'' \<notin> set (known_ids (newActiveExecutions example_control :: unit ActiveExecutions))"
    "''2'' \<notin> set (known_ids one_add)" by code_simp+
  then have "ae_step True (newActiveExecutions example_control) one_add"
    "ae_step True one_add two_adds"
    unfolding two_adds_def one_add_def by (intro ae_step.add; simp)+
  then show ?thesis by (meson ae_reachable.start ae_reachable.step)
qed

lemma example_control_new: "newConcurrencyControl 1 (-1) False = Inr example_control"
  by (simp add: newConcurrencyControl_def example_control_def)


text \<open>
  C0. Waiting executions proceed in the order in which they were enqueued: \<open>n\<close> releases let
  exactly the first \<open>n\<close> of the queue proceed, so each waiting execution proceeds after finitely
  many releases.
\<close>

theorem dequeues_in_order:
  "released (snd (dequeues n q)) = take n (queue q) \<and>
   queue (fst (dequeues n q)) = drop n (queue q) \<and>
   capacity (fst (dequeues n q)) = capacity q + int n"
proof (induction n arbitrary: q)
  case (Suc n)
  show ?case
  proof (cases "queue q")
    case Nil
    then have "dequeue q = (q\<lparr>capacity := capacity q + 1\<rparr>, [])"
      by (simp add: dequeue_def resolveNext_def)
    with Suc [of "q\<lparr>capacity := capacity q + 1\<rparr>"] Nil show ?thesis
      by (simp add: case_prod_unfold Let_def)
  next
    case (Cons i more)
    then have "dequeue q = (q\<lparr>capacity := capacity q + 1, queue := more\<rparr>, [ExecutionReleased i])"
      by (simp add: dequeue_def resolveNext_def)
    with Suc [of "q\<lparr>capacity := capacity q + 1, queue := more\<rparr>"] Cons show ?thesis
      by (simp add: case_prod_unfold Let_def)
  qed
qed simp

text \<open>
  C0. Once a process that runs executions itself shuts down, no waiting execution is let through
  any more: neither \<open>shutdown\<close> nor any later callback of a settled execution resolves a throttle,
  and the executions that wait are not cancelled in the database. With \<open>cancelAll\<close> every active
  execution is settled, and when the callbacks have run no execution is active, so the waiting
  loop of \<open>shutdown\<close> ends.
\<close>

definition callback :: "string \<Rightarrow> 'run ActiveExecutions \<Rightarrow> 'run ActiveExecutions" where
  "callback i s = (case map_get (activeExecutions s) i of
     None \<Rightarrow> s | Some e \<Rightarrow> if postExecutePromise e = Pending then s else onSettled i (exMode e) s)"

definition callbacks :: "string list \<Rightarrow> 'run ActiveExecutions \<Rightarrow> 'run ActiveExecutions" where
  "callbacks is s = fold callback is s"

lemma shutdown_disabled: "shutdown True c s =
   (let s' = s\<lparr>control := disable (control s)\<rparr>
    in if c then fold stopExecution (map_keys (activeExecutions s)) s' else s')"
  by (simp add: shutdown_def removeAll_def disable_def wake_def Let_def case_prod_unfold
      split: prod.splits)

lemma stopExecution_frame:
  "control (stopExecution i s) = control s" "pendingAdds (stopExecution i s) = pendingAdds s"
  "repository (stopExecution i s) = repository s"
  "map_keys (activeExecutions (stopExecution i s)) = map_keys (activeExecutions s)"
  by (auto simp: stopExecution_def putExecution_def map_put_keys split: option.splits)

lemma settle_settled: "v \<noteq> Pending \<Longrightarrow> settle v p \<noteq> Pending"
  by (cases p) auto

lemma stopExecution_settles:
  "map_get (activeExecutions (stopExecution i s)) j = Some e \<Longrightarrow>
   j = i \<or> (\<exists>e'. map_get (activeExecutions s) j = Some e' \<and> postExecutePromise e' \<noteq> Pending) \<Longrightarrow>
   postExecutePromise e \<noteq> Pending"
  by (auto simp: stopExecution_def putExecution_def settle_settled split: option.splits if_splits)

lemma stopExecutions:
  "control (fold stopExecution is s) = control s \<and>
   pendingAdds (fold stopExecution is s) = pendingAdds s \<and>
   repository (fold stopExecution is s) = repository s \<and>
   map_keys (activeExecutions (fold stopExecution is s)) = map_keys (activeExecutions s) \<and>
   (\<forall>j e. map_get (activeExecutions (fold stopExecution is s)) j = Some e \<longrightarrow>
      j \<in> set is \<or> (\<exists>e'. map_get (activeExecutions s) j = Some e' \<and> postExecutePromise e' \<noteq> Pending) \<longrightarrow>
      postExecutePromise e \<noteq> Pending)"
proof (induction "is" arbitrary: s)
  case (Cons i "is")
  let ?s = "stopExecution i s"
  have "postExecutePromise e \<noteq> Pending"
    if e: "map_get (activeExecutions (fold stopExecution is ?s)) j = Some e"
      and j: "j \<in> set (i # is) \<or>
        (\<exists>e'. map_get (activeExecutions s) j = Some e' \<and> postExecutePromise e' \<noteq> Pending)" for j e
  proof (cases "j \<in> set is")
    case False
    have "map_get (activeExecutions ?s) j \<noteq> None"
      using e Cons.IH [of ?s] by (metis map_of_eq_None_iff option.distinct(1) set_map)
    then obtain e' where e': "map_get (activeExecutions ?s) j = Some e'" by blast
    have "postExecutePromise e' \<noteq> Pending"
      by (rule stopExecution_settles [OF e']) (use j False in auto)
    with e e' Cons.IH [of ?s] show ?thesis by blast
  qed (use e Cons.IH [of ?s] in blast)
  with Cons.IH [of ?s] stopExecution_frame [of i s] show ?case by simp
qed simp

lemma callback_frame:
  assumes "\<not> isEnabled (control s)"
  shows "control (callback i s) = control s \<and> pendingAdds (callback i s) = pendingAdds s \<and>
    repository (callback i s) = repository s"
  using assms by (auto simp: callback_def onSettled_def release_def split: option.splits)

lemma callbacks_frame:
  "\<not> isEnabled (control s) \<Longrightarrow> control (callbacks is s) = control s \<and>
    pendingAdds (callbacks is s) = pendingAdds s \<and> repository (callbacks is s) = repository s"
proof (induction "is" arbitrary: s)
  case (Cons i "is")
  from Cons.IH [of "callback i s"] callback_frame [OF Cons.prems, of i] Cons.prems show ?case
    by (simp add: callbacks_def)
qed (simp add: callbacks_def)

lemma callbacks_drain:
  "(\<And>j e. map_get (activeExecutions s) j = Some e \<Longrightarrow> postExecutePromise e \<noteq> Pending) \<Longrightarrow>
   activeExecutions (callbacks is s) = filter (\<lambda>(j, e). j \<notin> set is) (activeExecutions s)"
proof (induction "is" arbitrary: s)
  case (Cons i "is")
  have del: "activeExecutions (callback i s) = map_del i (activeExecutions s)"
    using Cons.prems [of i]
    by (auto simp: callback_def onSettled_def case_prod_unfold Let_def delete_id map_of_eq_None_iff
        split: option.splits)
  have "activeExecutions (callbacks is (callback i s)) =
      filter (\<lambda>(j, e). j \<notin> set is) (activeExecutions (callback i s))"
    by (rule Cons.IH) (use Cons.prems del in \<open>auto split: if_splits\<close>)
  then show ?case
    by (simp add: callbacks_def del AList.delete_eq case_prod_unfold eq_commute [of i])
qed (simp add: callbacks_def)

theorem shutdown_releases_nothing:
  "pendingAdds (callbacks is (shutdown True cancelAll s)) = pendingAdds s \<and>
   repository (callbacks is (shutdown True cancelAll s)) = repository s \<and>
   shutdownDone (callbacks (map_keys (activeExecutions s)) (shutdown True True s))"
proof -
  let ?stopped = "fold stopExecution (map_keys (activeExecutions s)) (s\<lparr>control := disable (control s)\<rparr>)"
  note stopped = stopExecutions [of "map_keys (activeExecutions s)" "s\<lparr>control := disable (control s)\<rparr>"]
  have eq: "shutdown True c s = (if c then ?stopped else s\<lparr>control := disable (control s)\<rparr>)" for c
    by (simp add: shutdown_disabled Let_def)
  have dis: "\<not> isEnabled (control (shutdown True c s))" "pendingAdds (shutdown True c s) = pendingAdds s"
    "repository (shutdown True c s) = repository s" for c
    unfolding eq using stopped by (simp_all add: disable_def)
  have keys: "map_keys (activeExecutions (shutdown True True s)) = map_keys (activeExecutions s)"
    unfolding eq using stopped by simp
  have settled: "postExecutePromise e \<noteq> Pending"
    if "map_get (activeExecutions (shutdown True True s)) j = Some e" for j e
  proof -
    have "j \<in> set (map_keys (activeExecutions s))"
      unfolding keys [symmetric] using map_of_SomeD [OF that] by force
    with that stopped show ?thesis unfolding eq by simp
  qed
  have "activeExecutions (callbacks (map_keys (activeExecutions s)) (shutdown True True s)) =
      filter (\<lambda>(j, e). j \<notin> set (map_keys (activeExecutions (shutdown True True s))))
        (activeExecutions (shutdown True True s))"
    unfolding keys using callbacks_drain settled by blast
  also have "\<dots> = []" by (force simp: filter_empty_conv)
  finally show ?thesis
    using callbacks_frame [OF dis(1), of "is" cancelAll] dis(2,3) by (simp add: shutdownDone_def)
qed

text \<open>
  Stopping a queued execution lets the next one that waits proceed although no slot has become
  free: with two executions waiting, stopping the first leaves one more execution past the
  throttle than the limit allows.
\<close>

theorem stop_queued_exceeds_limit:
  assumes "newConcurrencyControl pl el qm = Inr cc" and "isEnabled cc"
    and "ae_reachable regular cc s" and "limit_of cc t = Some L"
    and "queueType mode = Some t" and "throttled t s = i # j # rest"
  shows "int (past_throttle t (stopInRegularMode mode i s)) = L + 1"
proof -
  have ok: "books_ok (limit_of cc) s" by (rule books_reachable [OF assms(3,1,2)])
  then obtain q where q: "map_get (queues (control s)) t = Some q"
    using assms(4) unfolding books_ok_def by (metis not_Some_eq option.distinct(1))
  have en: "isEnabled (control s)" and dist: "distinct (map pdId (pendingAdds s))"
    using ok by (auto simp: books_ok_def known_ids_def)
  have bal: "queue q = i # j # rest" "slots.balanced L (past_throttle t s) q"
    using ok assms(4,6) q unfolding books_ok_def by metis+
  then have full: "int (past_throttle t s) = L" unfolding slots.balanced_def by simp
  have "hasThrottled (control s) i"
    using en q bal(1) map_of_SomeD [OF q] by (force simp: hasThrottled_def hasQueued_def)
  moreover have "released (snd (removeThrottled mode i (control s))) = [j]"
    using en q bal(1) assms(5)
    by (simp add: removeThrottled_def isUnlimited_def getQueue_def removeQueued_def resolveNext_def)
  ultimately have eq: "pendingAdds (stopInRegularMode mode i s) = wake [j] (pendingAdds s)"
    "activeExecutions (stopInRegularMode mode i s) = activeExecutions s"
    by (simp_all add: stopInRegularMode_def case_prod_unfold Let_def)
  have "\<exists>xs p ys. pendingAdds s = xs @ p # ys \<and> pdId p = j \<and> waiting t p"
  proof -
    have "j \<in> set (map pdId (filter (waiting t) (pendingAdds s)))"
      using assms(6) unfolding throttled_waiting by simp
    then obtain p where "p \<in> set (pendingAdds s)" "pdId p = j" "waiting t p" by auto
    then show ?thesis by (metis split_list)
  qed
  then obtain xs p ys where sp: "pendingAdds s = xs @ p # ys" "pdId p = j" "waiting t p" by blast
  then have "count_past t (wake [j] (pendingAdds s)) = Suc (count_past t (pendingAdds s))"
    using wake_single [of xs p ys] dist by (auto simp: count_past_def waiting_def)
  with full show ?thesis unfolding past_throttle_cnt eq by simp
qed

definition three_adds :: "unit ActiveExecutions" where
  "three_adds = beginAdd True ''3'' MWebhook ''w'' None None two_adds"

lemma three_adds_reachable: "ae_reachable True example_control three_adds"
proof -
  have "''3'' \<notin> set (known_ids two_adds)" by code_simp
  then show ?thesis
    unfolding three_adds_def by (intro ae_reachable.step [OF two_adds_reachable] ae_step.add) simp_all
qed

theorem stop_queued_exceeds_limit_witness:
  "int (past_throttle Production (stopInRegularMode MWebhook ''2'' three_adds)) = 2"
proof -
  have "throttled Production three_adds = [''2'', ''3'']" by code_simp
  then show ?thesis
    using stop_queued_exceeds_limit [OF example_control_new _ three_adds_reachable,
        of Production 1 MWebhook "''2''" "''3''" "[]"]
    by (simp add: example_control_def limit_of_def)
qed

text \<open>
  Emptying a queue releases every second execution of it instead of removing all of them, and
  gives back only half of the capacity that the waiting executions took.
\<close>

theorem emptyQueue_releases:
  assumes "distinct (queue q)"
  shows "queue (fst (emptyQueue q)) = [] \<and>
    released (snd (emptyQueue q)) = every_second (queue q) \<and>
    capacity (fst (emptyQueue q)) = capacity q + int ((length (queue q) + 1) div 2)"
  using emptying [OF refl assms, of "[]"] unfolding emptyQueue_def getAll_distinct [OF assms]
  by auto

theorem emptyQueue_releases_witness:
  "released (snd (emptyQueue \<lparr>capacity = -4, queue = [''1'', ''2'', ''3'', ''4'']\<rparr>)) = [''2'', ''4'']"
  using emptyQueue_releases [of "\<lparr>capacity = -4, queue = [''1'', ''2'', ''3'', ''4'']\<rparr>"] by simp

end
