(* ===== verification/Workflow_Search.thy ===== *)
theory Workflow_Search
  imports Workflow_Queries
begin

text \<open>
  Searches of the class Workflow that run over its own nodes: the highest parents of a node, the
  breadth-first search, the connection between two nodes, and the choice of the start node. A
  method that fills an array argument returns the array with its result.
\<close>


section \<open>Highest nodes\<close>

text \<open>
  \<open>checkedNodes\<close> is one array that all recursive calls share. A name that is not a node makes
  the property access fail.
\<close>

definition isNotDisabled :: "Workflow \<Rightarrow> string \<Rightarrow> bool res" where
  "isNotDisabled w name =
     (case map_get (wfNodes w) name of
        None \<Rightarrow> Inl TypeError
      | Some node \<Rightarrow> Inr (disabled node \<noteq> Some True))"

definition selfHighest :: "Workflow \<Rightarrow> string \<Rightarrow> string list res" where
  "selfHighest w name =
     (case map_get (wfNodes w) name of
        None \<Rightarrow> Inl TypeError
      | Some node \<Rightarrow> Inr (if disabled node = Some False then [name] else []))"

definition chosenGroups ::
  "NodeInputConnections \<Rightarrow> nat option \<Rightarrow> IConnection list" where
  "chosenGroups arr index =
     concat (map (\<lambda>(i, g). if index \<noteq> None \<and> index \<noteq> Some i then []
         else (case g of None \<Rightarrow> [] | Some l \<Rightarrow> l)) (enumerate 0 arr))"

primrec getHighestNode ::
  "nat \<Rightarrow> Workflow \<Rightarrow> string \<Rightarrow> NodeConnectionType \<Rightarrow> nat option \<Rightarrow> string list \<Rightarrow>
   (string list \<times> string list) res" where
  "getHighestNode 0 w name type index checked = Inl RangeError"
| "getHighestNode (Suc k) w name type index checked =
     res_bind (selfHighest w name) (\<lambda>currentHighest.
       case map_get (connectionsByDestinationNode w) name of
         None \<Rightarrow> Inr (currentHighest, checked)
       | Some nc \<Rightarrow> (case map_get nc type of
           None \<Rightarrow> Inr (currentHighest, checked)
         | Some arr \<Rightarrow>
             if name \<in> set checked then Inr (currentHighest, checked)
             else res_fold (\<lambda>c (returnNodes, checked).
                 if connNode c \<in> set checked then Inr (returnNodes, checked)
                 else res_bind (getHighestNode k w (connNode c) type None checked)
                   (\<lambda>(addNodes, checked).
                     res_bind (if addNodes = []
                         then res_bind (isNotDisabled w (connNode c))
                           (\<lambda>enabled. Inr (if enabled then [connNode c] else []))
                         else Inr addNodes)
                       (\<lambda>addNodes. Inr (fold set_add addNodes returnNodes, checked))))
               (chosenGroups arr index) ([], checked @ [name])))"


section \<open>Breadth-first search\<close>

record IConnectedNode =
  cnName :: string
  cnIndicies :: "nat list"
  cnDepth :: nat

text \<open>
  One round of the search: the nodes of the queue are visited or, when they were visited before,
  only add their index. The result objects are the entries of \<open>visited\<close>, in the order of their
  visit; the start node is one of them, which the result leaves out.
\<close>

definition visitNode ::
  "IConnections \<Rightarrow> nat \<Rightarrow> IConnectedNode \<Rightarrow> (string, IConnectedNode) js_map \<times> IConnectedNode list \<Rightarrow>
   (string, IConnectedNode) js_map \<times> IConnectedNode list" where
  "visitNode conns depth cur = (\<lambda>(visited, queue).
     case map_get visited (cnName cur) of
       Some v \<Rightarrow> (map_put (cnName cur)
           (v\<lparr>cnIndicies := fold set_add (cnIndicies v @ cnIndicies cur) []\<rparr>) visited, queue)
     | None \<Rightarrow> (map_put (cnName cur) cur visited,
         queue @ (case map_get conns (cnName cur) of
            None \<Rightarrow> []
          | Some nc \<Rightarrow> (case map_get nc Main of
              None \<Rightarrow> []
            | Some arr \<Rightarrow> map (\<lambda>c. \<lparr>cnName = connNode c, cnIndicies = [connIndex c], cnDepth = depth\<rparr>)
                (all_groups arr)))))"

text \<open>
  The loop runs once more than there are nodes at most (see \<open>searchNodesBFS_rounds\<close>); \<open>fuel\<close>
  bounds the rounds.
\<close>

primrec bfsRounds ::
  "nat \<Rightarrow> IConnections \<Rightarrow> int \<Rightarrow> nat \<Rightarrow> (string, IConnectedNode) js_map \<Rightarrow> IConnectedNode list \<Rightarrow>
   (string, IConnectedNode) js_map option" where
  "bfsRounds 0 conns maxDepth depth visited queue = None"
| "bfsRounds (Suc fuel) conns maxDepth depth visited queue =
     (if queue = [] \<or> (maxDepth \<noteq> -1 \<and> int depth > maxDepth) then Some visited
      else (let (visited, queue) = fold (visitNode conns (Suc depth)) queue (visited, [])
        in bfsRounds fuel conns maxDepth (Suc depth) visited queue))"

definition searchNodesBFS ::
  "nat \<Rightarrow> IConnections \<Rightarrow> string \<Rightarrow> int \<Rightarrow> IConnectedNode list option" where
  "searchNodesBFS fuel conns sourceNode maxDepth =
     map_option (\<lambda>visited. filter (\<lambda>c. cnName c \<noteq> sourceNode) (map_values visited))
       (bfsRounds fuel conns maxDepth 0 [] [\<lparr>cnName = sourceNode, cnIndicies = [], cnDepth = 0\<rparr>])"

definition getParentNodesByDepth ::
  "nat \<Rightarrow> Workflow \<Rightarrow> string \<Rightarrow> int \<Rightarrow> IConnectedNode list option" where
  "getParentNodesByDepth fuel w name maxDepth =
     searchNodesBFS fuel (connectionsByDestinationNode w) name maxDepth"


section \<open>How two nodes are connected\<close>

record INodeConnection =
  sourceIndex :: nat
  destinationIndex :: nat

text \<open>All connections of an array with their position in their group.\<close>

definition indexed_groups :: "NodeInputConnections \<Rightarrow> (nat \<times> IConnection) list" where
  "indexed_groups arr = concat (map (\<lambda>g. case g of None \<Rightarrow> [] | Some l \<Rightarrow> enumerate 0 l) arr)"

text \<open>The loop ends at the first connection that gives an answer.\<close>

primrec firstAnswer ::
  "('a \<Rightarrow> 's \<Rightarrow> ('r option \<times> 's) res) \<Rightarrow> 'a list \<Rightarrow> 's \<Rightarrow> ('r option \<times> 's) res" where
  "firstAnswer f [] s = Inr (None, s)"
| "firstAnswer f (x # xs) s =
     res_bind (f x s) (\<lambda>(r, s). case r of Some y \<Rightarrow> Inr (Some y, s) | None \<Rightarrow> firstAnswer f xs s)"

primrec getNodeConnectionIndexes ::
  "nat \<Rightarrow> Workflow \<Rightarrow> string \<Rightarrow> string \<Rightarrow> NodeConnectionType \<Rightarrow> int \<Rightarrow> string list \<Rightarrow>
   (INodeConnection option \<times> string list) res" where
  "getNodeConnectionIndexes 0 w name parent type depth checked = Inl RangeError"
| "getNodeConnectionIndexes (Suc k) w name parent type depth checked =
     (let newDepth = (if depth = -1 then depth else depth - 1)
      in if getNode w parent = None \<or> depth = 0 then Inr (None, checked)
      else (case map_get (connectionsByDestinationNode w) name of
          None \<Rightarrow> Inr (None, checked)
        | Some nc \<Rightarrow> (case map_get nc type of
            None \<Rightarrow> Inr (None, checked)
          | Some arr \<Rightarrow>
              if name \<in> set checked then Inr (None, checked)
              else firstAnswer (\<lambda>(i, c) checked.
                  if parent = connNode c
                  then Inr (Some \<lparr>sourceIndex = connIndex c, destinationIndex = i\<rparr>, checked)
                  else if connNode c \<in> set checked then Inr (None, checked)
                  else getNodeConnectionIndexes k w (connNode c) parent type newDepth checked)
                (indexed_groups arr) (checked @ [name]))))"


section \<open>The start node\<close>

definition MANUAL_CHAT_TRIGGER :: string where
  "MANUAL_CHAT_TRIGGER = ''@n8n/n8n-nodes-langchain.manualChatTrigger''"

definition STARTING_NODE_TYPES :: "string list" where
  "STARTING_NODE_TYPES =
     [''n8n-nodes-base.manualTrigger'', ''n8n-nodes-base.executeWorkflowTrigger'',
      ''n8n-nodes-base.errorTrigger'', ''n8n-nodes-base.start'']"

text \<open>\<open>indexOf\<close>, which is -1 for a value that is not in the array.\<close>

fun indexOf :: "'a list \<Rightarrow> 'a \<Rightarrow> int" where
  "indexOf [] x = -1"
| "indexOf (y # ys) x = (if y = x then 0 else (let i = indexOf ys x in if i = -1 then -1 else i + 1))"

primrec firstTrigger ::
  "Workflow \<Rightarrow> bool \<Rightarrow> string list \<Rightarrow> INode option res" where
  "firstTrigger w single [] = Inr None"
| "firstTrigger w single (n # ns) =
     (case map_get (wfNodes w) n of
        None \<Rightarrow> Inl TypeError
      | Some node \<Rightarrow>
          if single \<and> disabled node \<noteq> Some True then Inr (Some node)
          else (case nodeTypes w (nodeType node) (typeVersion node) of
              None \<Rightarrow> Inl TypeError
            | Some nt \<Rightarrow>
                if ntName nt = MANUAL_CHAT_TRIGGER then firstTrigger w single ns
                else if (ntTrigger nt \<or> ntPoll nt) \<and> disabled node \<noteq> Some True
                     then Inr (Some node)
                else firstTrigger w single ns))"

definition startingNode :: "Workflow \<Rightarrow> INode option" where
  "startingNode w =
     (let sorted = sort_by (\<lambda>a b. indexOf STARTING_NODE_TYPES (nodeType a) -
                                  indexOf STARTING_NODE_TYPES (nodeType b)) (map_values (wfNodes w));
          names = map nodeName sorted;
          nodes = concat (map (\<lambda>n. case map_get (wfNodes w) n of None \<Rightarrow> [] | Some x \<Rightarrow> [x]) names)
      in List.find (\<lambda>node. nodeType node \<in> set STARTING_NODE_TYPES \<and> disabled node \<noteq> Some True) nodes)"

definition getStartNodeOf :: "Workflow \<Rightarrow> string list \<Rightarrow> INode option res" where
  "getStartNodeOf w nodeNames =
     res_bind (firstTrigger w (length nodeNames = 1) nodeNames)
       (\<lambda>found. Inr (case found of Some node \<Rightarrow> Some node | None \<Rightarrow> startingNode w))"

definition getStartNode :: "nat \<Rightarrow> Workflow \<Rightarrow> string option \<Rightarrow> INode option res" where
  "getStartNode k w destinationNode =
     (case destinationNode of
        Some name \<Rightarrow>
          if name = [] then getStartNodeOf w (map_keys (wfNodes w))
          else res_bind (getHighestNode k w name Main None []) (\<lambda>(highest, checked).
            let nodeNames = (if highest = [] then [name] else highest)
            in res_bind (getStartNodeOf w nodeNames) (\<lambda>node.
                 Inr (case node of Some n \<Rightarrow> Some n | None \<Rightarrow> map_get (wfNodes w) (hd nodeNames))))
      | None \<Rightarrow> getStartNodeOf w (map_keys (wfNodes w)))"

end
