(* ===== verification/Waiting_Nodes.thy ===== *)
theory Waiting_Nodes
  imports Workflow_Search
begin

text \<open>
  The waiting area of the class WorkflowExecute of
  packages/core/src/execution-engine/workflow-execute.ts: a node with several inputs collects the
  data of its inputs, one entry per run, until it can be put on the execution stack. The methods
  change \<open>runExecutionData\<close>, which is passed and returned.

  Where a property of \<open>undefined\<close> or \<open>null\<close> would be read the result is a TypeError. A stack item
  for a node that the workflow does not have is that error too: the code pushes it and fails when
  it reads the name of its node. \<open>waitingExecutionSource\<close> is an object, never \<open>null\<close>.
\<close>


section \<open>Access to the connections and the data\<close>

definition isV1 :: "Workflow \<Rightarrow> bool" where
  "isV1 w \<longleftrightarrow> executionOrder w = Some ''v1''"

definition forceInputNodeExecution :: "Workflow \<Rightarrow> bool" where
  "forceInputNodeExecution w \<longleftrightarrow> \<not> isV1 w"

text \<open>\<open>connections[name].main\<close>.\<close>

definition mainConnections :: "IConnections \<Rightarrow> string \<Rightarrow> NodeInputConnections res" where
  "mainConnections conns name =
     (case map_get conns name of
        None \<Rightarrow> Inl TypeError
      | Some nc \<Rightarrow> (case map_get nc Main of None \<Rightarrow> Inl TypeError | Some arr \<Rightarrow> Inr arr))"

text \<open>\<open>arr[0] ?? []\<close>.\<close>

definition firstGroup :: "NodeInputConnections \<Rightarrow> IConnection list" where
  "firstGroup arr = (case arr_get arr 0 of Some (Some l) \<Rightarrow> l | _ \<Rightarrow> [])"

definition or_undefined :: "nat \<Rightarrow> nat option" where
  "or_undefined n = (if n = 0 then None else Some n)"

definition sourceOf :: "string \<Rightarrow> nat \<Rightarrow> nat \<Rightarrow> ISourceData" where
  "sourceOf parentNodeName outputIndex runIndex =
     \<lparr>previousNode = parentNodeName, previousNodeOutput = or_undefined outputIndex,
      previousNodeRun = or_undefined runIndex\<rparr>"

text \<open>\<open>get(runData, [node, runIndex, 'data', 'main', index])\<close>.\<close>

definition recordedOutput :: "IRunData \<Rightarrow> string \<Rightarrow> nat \<Rightarrow> nat \<Rightarrow> INodeExecutionData list slot" where
  "recordedOutput runData name runIndex index =
     (case map_get runData name of None \<Rightarrow> Hole
      | Some runs \<Rightarrow> (case arr_get runs runIndex of None \<Rightarrow> Hole
        | Some t \<Rightarrow> (case taskData t of None \<Rightarrow> Hole
          | Some d \<Rightarrow> (case map_get d Main of None \<Rightarrow> Hole
            | Some main \<Rightarrow> (case arr_get main index of None \<Rightarrow> Hole | Some x \<Rightarrow> x)))))"

primrec incomingConnectionIsEmpty :: "IRunData \<Rightarrow> nat \<Rightarrow> IConnection list \<Rightarrow> bool res" where
  "incomingConnectionIsEmpty runData runIndex [] = Inr True"
| "incomingConnectionIsEmpty runData runIndex (c # cs) =
     (case recordedOutput runData (connNode c) runIndex (connIndex c) of
        Hole \<Rightarrow> incomingConnectionIsEmpty runData runIndex cs
      | Null \<Rightarrow> Inl TypeError
      | Data items \<Rightarrow>
          if items \<noteq> [] then Inr False else incomingConnectionIsEmpty runData runIndex cs)"


section \<open>Entries that wait\<close>

type_synonym 'a waiting = "(string, (nat, (NodeConnectionType, 'a slot list) js_map) js_map) js_map"

definition entriesOf :: "'a waiting \<Rightarrow> string \<Rightarrow> (nat, (NodeConnectionType, 'a slot list) js_map) js_map"
  where
  "entriesOf waiting name = (case map_get waiting name of None \<Rightarrow> [] | Some m \<Rightarrow> m)"

definition putEntry ::
  "string \<Rightarrow> nat \<Rightarrow> (NodeConnectionType, 'a slot list) js_map \<Rightarrow> 'a waiting \<Rightarrow> 'a waiting" where
  "putEntry name i e waiting = map_put name (map_put i e (entriesOf waiting name)) waiting"

text \<open>\<open>waiting[name][i].main\<close>.\<close>

definition entryMain :: "'a waiting \<Rightarrow> string \<Rightarrow> nat \<Rightarrow> 'a slot list res" where
  "entryMain waiting name i =
     (case map_get waiting name of None \<Rightarrow> Inl TypeError
      | Some m \<Rightarrow> (case map_get m i of None \<Rightarrow> Inl TypeError
        | Some e \<Rightarrow> (case map_get e Main of None \<Rightarrow> Inl TypeError | Some main \<Rightarrow> Inr main)))"

text \<open>\<open>waiting[name][i].main[index] = v\<close>.\<close>

definition putCell :: "string \<Rightarrow> nat \<Rightarrow> nat \<Rightarrow> 'a slot \<Rightarrow> 'a waiting \<Rightarrow> 'a waiting res" where
  "putCell name i index v waiting =
     (case map_get (entriesOf waiting name) i of None \<Rightarrow> Inl TypeError
      | Some e \<Rightarrow> (case map_get e Main of None \<Rightarrow> Inl TypeError
        | Some main \<Rightarrow> Inr (putEntry name i (map_put Main (arr_put Hole main index v) e) waiting)))"

text \<open>Deleting an entry, and the node with its last entry.\<close>

definition deleteEntry :: "string \<Rightarrow> nat \<Rightarrow> 'a waiting \<Rightarrow> 'a waiting" where
  "deleteEntry name i waiting = map_put name (map_del i (entriesOf waiting name)) waiting"

definition prepareWaitingToExecution ::
  "string \<Rightarrow> nat \<Rightarrow> nat \<Rightarrow> IRunExecutionData \<Rightarrow> IRunExecutionData" where
  "prepareWaitingToExecution name numberOfConnections runIndex r =
     r\<lparr>waitingExecution :=
         putEntry name runIndex [(Main, replicate numberOfConnections Null)] (waitingExecution r),
       waitingExecutionSource :=
         putEntry name runIndex [(Main, replicate numberOfConnections Null)]
           (waitingExecutionSource r)\<rparr>"

text \<open>
  The first entry, by ascending run index, that has no data for the input. An object enumerates
  such keys in ascending order.
\<close>

fun findOpenEntry ::
  "nat \<Rightarrow> (nat \<times> (NodeConnectionType, 'a slot list) js_map) list \<Rightarrow> nat option res" where
  "findOpenEntry index [] = Inr None"
| "findOpenEntry index ((i, e) # es) =
     (case map_get e Main of
        None \<Rightarrow> Inl TypeError
      | Some main \<Rightarrow> (case arr_get main index of
          Some (Data _) \<Rightarrow> findOpenEntry index es
        | _ \<Rightarrow> Inr (Some i)))"

definition enqueueItem :: "Workflow \<Rightarrow> IExecuteData \<Rightarrow> IRunExecutionData \<Rightarrow> IRunExecutionData" where
  "enqueueItem w item r =
     r\<lparr>nodeExecutionStack :=
         (if isV1 w then item # nodeExecutionStack r else nodeExecutionStack r @ [item])\<rparr>"

text \<open>\<open>nodeSuccessData[outputIndex]\<close>; \<open>None\<close> is \<open>null\<close>.\<close>

type_synonym OutputData = "INodeExecutionData list slot list"

definition outputSlot :: "OutputData option \<Rightarrow> nat \<Rightarrow> INodeExecutionData list slot" where
  "outputSlot data i =
     (case data of None \<Rightarrow> Null
      | Some arr \<Rightarrow> (case arr_get arr i of None \<Rightarrow> Hole | Some x \<Rightarrow> x))"

definition outputSource ::
  "OutputData option \<Rightarrow> string \<Rightarrow> nat \<Rightarrow> nat \<Rightarrow> ISourceData slot" where
  "outputSource data parentNodeName outputIndex runIndex =
     (case data of None \<Rightarrow> Null | Some _ \<Rightarrow> Data (sourceOf parentNodeName outputIndex runIndex))"


section \<open>Nodes that are forced to run\<close>

text \<open>
  The loop over \<open>parentNodes\<close>: the highest parent that has to be added, unless one of them will
  run anyway.
\<close>

primrec chooseNodeToAdd ::
  "string \<Rightarrow> string list \<Rightarrow> string list \<Rightarrow> IRunData \<Rightarrow> string list \<Rightarrow> string option \<Rightarrow> string option"
  where
  "chooseNodeToAdd inputNode outputNodes stackNodes runData [] nodeToAdd = nodeToAdd"
| "chooseNodeToAdd inputNode outputNodes stackNodes runData (p # ps) nodeToAdd =
     (if inputNode \<noteq> p \<and> p \<in> set outputNodes then None
      else if p \<in> set stackNodes then None
      else if map_get runData p \<noteq> None then nodeToAdd
      else chooseNodeToAdd inputNode outputNodes stackNodes runData ps (Some p))"

definition emptyItemData :: ITaskDataConnections where
  "emptyItemData = [(Main, [Data [empty_item]])]"

definition singleSource :: "string \<Rightarrow> nat \<Rightarrow> nat \<Rightarrow> ITaskDataConnectionsSource" where
  "singleSource parentNodeName outputIndex runIndex =
     [(Main, [Data (sourceOf parentNodeName outputIndex runIndex)])]"

text \<open>Adding the chosen node with an empty item when its first input has no data.\<close>

definition addForcedNode ::
  "Workflow \<Rightarrow> string \<Rightarrow> nat \<Rightarrow> nat \<Rightarrow> string \<Rightarrow> IRunExecutionData \<Rightarrow> IRunExecutionData res" where
  "addForcedNode w parentNodeName outputIndex runIndex nodeToAdd r =
     res_bind (if map_get (connectionsByDestinationNode w) nodeToAdd = None then Inr True
               else res_bind (mainConnections (connectionsByDestinationNode w) nodeToAdd)
                 (\<lambda>arr. incomingConnectionIsEmpty (resultRunData r) runIndex (firstGroup arr)))
       (\<lambda>addEmptyItem.
          if \<not> addEmptyItem then Inr r
          else (case getNode w nodeToAdd of
              None \<Rightarrow> Inl TypeError
            | Some node \<Rightarrow> Inr (enqueueItem w
                \<lparr>execNode = node, execData = emptyItemData, execMetadata = None,
                 execSource = Some (singleSource parentNodeName outputIndex runIndex)\<rparr> r)))"

text \<open>The body of the loop over the inputs of the node that waits for the first time.\<close>

definition forceInput ::
  "nat \<Rightarrow> Workflow \<Rightarrow> string \<Rightarrow> string list \<Rightarrow> OutputData option \<Rightarrow> nat \<Rightarrow> nat \<Rightarrow> IConnection \<Rightarrow>
   IRunExecutionData \<Rightarrow> IRunExecutionData res" where
  "forceInput k w parentNodeName outputNodes nodeSuccessData outputIndex runIndex inputData r =
     (let inputNode = connNode inputData;
          stackNodes = map (\<lambda>d. nodeName (execNode d)) (nodeExecutionStack r)
      in if inputNode = parentNodeName then Inr r
      else res_bind (if inputNode \<in> set outputNodes
          then res_bind (mainConnections (connectionsByDestinationNode w) inputNode)
            (\<lambda>arr. res_bind (incomingConnectionIsEmpty (resultRunData r) runIndex (firstGroup arr))
              (\<lambda>empty. Inr (\<not> empty)))
          else Inr False)
        (\<lambda>runsAnyway.
          if runsAnyway \<or> inputNode \<in> set stackNodes \<or> map_get (resultRunData r) inputNode \<noteq> None \<or>
             \<not> forceInputNodeExecution w
          then Inr r
          else res_bind (getParentNodes k w inputNode (OfType Main) (-1)) (\<lambda>parents.
            let nodeToAdd = chooseNodeToAdd inputNode outputNodes stackNodes (resultRunData r)
                  (rev (parents @ [inputNode])) (Some inputNode);
                nodeToAddName = (case nodeToAdd of None \<Rightarrow> ''undefined'' | Some n \<Rightarrow> n)
            in res_bind (getParentNodes k w nodeToAddName (OfType Main) (-1)) (\<lambda>above.
              res_bind (if parentNodeName \<in> set above
                  then (case outputSlot nodeSuccessData outputIndex of
                      Data items \<Rightarrow> Inr (if items = [] then None else nodeToAdd)
                    | _ \<Rightarrow> Inl TypeError)
                  else Inr nodeToAdd)
                (\<lambda>nodeToAdd. case nodeToAdd of
                   None \<Rightarrow> Inr r
                 | Some n \<Rightarrow> addForcedNode w parentNodeName outputIndex runIndex n r)))))"

definition forceInputs ::
  "nat \<Rightarrow> Workflow \<Rightarrow> IConnection \<Rightarrow> string \<Rightarrow> OutputData option \<Rightarrow> nat \<Rightarrow> nat \<Rightarrow>
   IRunExecutionData \<Rightarrow> IRunExecutionData res" where
  "forceInputs k w connectionData parentNodeName nodeSuccessData outputIndex runIndex r =
     res_bind (mainConnections (connectionsBySourceNode w) parentNodeName) (\<lambda>outputs.
     res_bind (mainConnections (connectionsByDestinationNode w) (connNode connectionData)) (\<lambda>inputs.
       res_fold (forceInput k w parentNodeName (map connNode (all_groups outputs)) nodeSuccessData
           outputIndex runIndex)
         (all_groups inputs) r))"


section \<open>Adding a node to be executed\<close>

text \<open>All data is there: the entry becomes a stack item and is deleted.\<close>

definition completeWaiting ::
  "Workflow \<Rightarrow> string \<Rightarrow> nat \<Rightarrow> IRunExecutionData \<Rightarrow> IRunExecutionData res" where
  "completeWaiting w name i r =
     (case (map_get (wfNodes w) name, map_get (entriesOf (waitingExecution r) name) i) of
        (Some node, Some e) \<Rightarrow>
          (let r = enqueueItem w
                 \<lparr>execNode = node, execData = e, execMetadata = None,
                  execSource = map_get (entriesOf (waitingExecutionSource r) name) i\<rparr> r;
               we = deleteEntry name i (waitingExecution r);
               ws = deleteEntry name i (waitingExecutionSource r)
           in Inr (if entriesOf we name = []
                   then r\<lparr>waitingExecution := map_del name we, waitingExecutionSource := map_del name ws\<rparr>
                   else r\<lparr>waitingExecution := we, waitingExecutionSource := ws\<rparr>))
      | _ \<Rightarrow> Inl TypeError)"

text \<open>
  Data is missing: the entry is prepared again and gets the collected data, its source array only
  the source of the current input.
\<close>

definition keepWaiting ::
  "string \<Rightarrow> nat \<Rightarrow> nat \<Rightarrow> nat \<Rightarrow> INodeExecutionData list slot \<Rightarrow> ISourceData \<Rightarrow>
   IRunExecutionData \<Rightarrow> IRunExecutionData res" where
  "keepWaiting name numberOfConnections i index value source r =
     res_bind (entryMain (waitingExecution r) name i) (\<lambda>main.
       let r = prepareWaitingToExecution name numberOfConnections i r;
           r = r\<lparr>waitingExecution :=
                   putEntry name i [(Main, arr_put Hole main index value)] (waitingExecution r)\<rparr>
       in res_bind (putCell name i index (Data source) (waitingExecutionSource r))
            (\<lambda>ws. Inr (r\<lparr>waitingExecutionSource := ws\<rparr>)))"

text \<open>A node with several inputs.\<close>

definition addToWaiting ::
  "nat \<Rightarrow> Workflow \<Rightarrow> IConnection \<Rightarrow> nat \<Rightarrow> string \<Rightarrow> OutputData option \<Rightarrow> nat \<Rightarrow> nat \<Rightarrow>
   IRunExecutionData \<Rightarrow> IRunExecutionData res" where
  "addToWaiting k w connectionData outputIndex parentNodeName nodeSuccessData runIndex
       numberOfInputs r =
     (let name = connNode connectionData;
          index = connIndex connectionData;
          nodeWasWaiting = (map_get (waitingExecution r) name \<noteq> None);
          r = (if nodeWasWaiting then r
               else r\<lparr>waitingExecution := map_put name [] (waitingExecution r),
                      waitingExecutionSource := map_put name [] (waitingExecutionSource r)\<rparr>);
          entries = sort_key fst (entriesOf (waitingExecution r) name)
      in res_bind (findOpenEntry index entries) (\<lambda>found.
        let i = (case found of Some i \<Rightarrow> i | None \<Rightarrow> length entries);
            r = (if found = None then prepareWaitingToExecution name numberOfInputs i r else r)
        in res_bind (putCell name i index (outputSlot nodeSuccessData outputIndex)
               (waitingExecution r)) (\<lambda>we.
           res_bind (putCell name i index
               (outputSource nodeSuccessData parentNodeName outputIndex runIndex)
               (waitingExecutionSource r)) (\<lambda>ws.
             let r = r\<lparr>waitingExecution := we, waitingExecutionSource := ws\<rparr>
             in res_bind (entryMain we name i) (\<lambda>main.
               if Null \<notin> set main then completeWaiting w name i r
               else res_bind (if nodeWasWaiting then Inr r
                   else forceInputs k w connectionData parentNodeName nodeSuccessData outputIndex
                     runIndex r)
                 (keepWaiting name numberOfInputs i index (outputSlot nodeSuccessData outputIndex)
                   (sourceOf parentNodeName outputIndex runIndex)))))))"

definition addNodeToBeExecuted ::
  "nat \<Rightarrow> Workflow \<Rightarrow> IConnection \<Rightarrow> nat \<Rightarrow> string \<Rightarrow> OutputData option \<Rightarrow> nat \<Rightarrow>
   IRunExecutionData \<Rightarrow> IRunExecutionData res" where
  "addNodeToBeExecuted k w connectionData outputIndex parentNodeName nodeSuccessData runIndex r =
     res_bind (mainConnections (connectionsByDestinationNode w) (connNode connectionData)) (\<lambda>inputs.
       if length inputs > 1
       then addToWaiting k w connectionData outputIndex parentNodeName nodeSuccessData runIndex
              (length inputs) r
       else (case map_get (wfNodes w) (connNode connectionData) of
           None \<Rightarrow> Inl TypeError
         | Some node \<Rightarrow> Inr (enqueueItem w
             \<lparr>execNode = node,
              execData = [(Main, (replicate (Suc (connIndex connectionData)) Null)
                [connIndex connectionData := outputSlot nodeSuccessData outputIndex])],
              execMetadata = None,
              execSource = Some (singleSource parentNodeName outputIndex runIndex)\<rparr> r)))"

end
