(* ===== verification/Node_Run.thy ===== *)
theory Node_Run
  imports Waiting_Nodes
begin

text \<open>
  Running one node in the class WorkflowExecute: \<open>runNode\<close>, the handling of the error output, the
  pairing of output items with input items, and the tries of the execution loop.

  What a node does is a parameter: \<open>behaviour node n data items\<close> is the answer of the \<open>n\<close>-th call
  of a node in this execution with the input \<open>data\<close>, where \<open>items\<close> is the input of its expressions;
  it covers \<open>execute\<close>, \<open>poll\<close> and \<open>trigger\<close> in manual mode and routing nodes. A node may ask to wait,
  and may throw. The items of pinned data and of a node's output are changed in place by the code;
  the model returns the changed items.
\<close>


section \<open>What nodes answer\<close>

text \<open>The output: \<open>undefined\<close>, \<open>null\<close> or the arrays per output.\<close>

type_synonym NodeOutput = "OutputData slot"

record NodeResponse =
  respOutput :: "string + NodeOutput"
  respWaitTill :: "nat option"

type_synonym node_behaviour =
  "INode \<Rightarrow> nat \<Rightarrow> ITaskDataConnections \<Rightarrow> INodeExecutionData list \<Rightarrow> NodeResponse"

record ExecutionEnv =
  behaviour :: node_behaviour
  outputTypes :: "INode \<Rightarrow> NodeConnectionType list"
  getPairedItem :: "ISourceData \<Rightarrow> IPairedItemData \<Rightarrow> INodeExecutionData option res"
  parametersIssues :: "INodeType \<Rightarrow> INode \<Rightarrow> string list \<Rightarrow> string option"
  simpleParameterValue :: "INode \<Rightarrow> string \<Rightarrow> RequiredInputs option"
  manualMode :: bool
  restartExecution :: bool

text \<open>The message of an error that the modelled code throws itself.\<close>

fun error_message :: "js_error \<Rightarrow> string" where
  "error_message (ApplicationError m) = m"
| "error_message TypeError = ''TypeError''"
| "error_message RangeError = ''RangeError''"
| "error_message AssertionError = ''AssertionError''"

fun jtruthy :: "jval \<Rightarrow> bool" where
  "jtruthy JNull = False"
| "jtruthy (JBool b) = b"
| "jtruthy (JNum x) = (x \<noteq> 0)"
| "jtruthy (JStr s) = (s \<noteq> [])"
| "jtruthy (JArr vs) = True"
| "jtruthy (JObj ps) = True"

definition truthy_key :: "IDataObject \<Rightarrow> string \<Rightarrow> bool" where
  "truthy_key m k = (case map_get m k of None \<Rightarrow> False | Some v \<Rightarrow> jtruthy v)"


section \<open>runNode\<close>

text \<open>
  \<open>connectionInputData\<close>: the data of the first main input and, where nodes are not forced to run,
  the first input that has items.
\<close>

definition hasItems :: "'a list slot \<Rightarrow> bool" where
  "hasItems s \<longleftrightarrow> (case s of Data xs \<Rightarrow> xs \<noteq> [] | _ \<Rightarrow> False)"

definition connectionInput ::
  "Workflow \<Rightarrow> ITaskDataConnections \<Rightarrow> INodeExecutionData list slot res" where
  "connectionInput w inputData =
     (let first = (case map_get inputData Main of
            None \<Rightarrow> Data [] | Some main \<Rightarrow> (case arr_get main 0 of None \<Rightarrow> Data [] | Some s \<Rightarrow> s))
      in if forceInputNodeExecution w then Inr first
      else (case map_get inputData Main of
          None \<Rightarrow> Inl TypeError
        | Some main \<Rightarrow> Inr (case List.find hasItems main of None \<Rightarrow> first | Some s \<Rightarrow> s)))"

definition firstItemsOnly :: "ITaskDataConnections \<Rightarrow> ITaskDataConnections" where
  "firstItemsOnly inputData =
     map (\<lambda>(t, arr). (t, map (\<lambda>s. case s of Data xs \<Rightarrow> Data (take 1 xs) | s \<Rightarrow> s) arr)) inputData"

text \<open>The result: an error or the output, the execution data and the number of calls of nodes.\<close>

definition passThrough :: "ITaskDataConnections \<Rightarrow> NodeOutput" where
  "passThrough inputData = (case map_get inputData Main of None \<Rightarrow> Hole | Some main \<Rightarrow> Data main)"

definition callNode ::
  "ExecutionEnv \<Rightarrow> INode \<Rightarrow> ITaskDataConnections \<Rightarrow> INodeExecutionData list \<Rightarrow> IRunExecutionData \<Rightarrow>
   nat \<Rightarrow> (string + NodeOutput) \<times> IRunExecutionData \<times> nat" where
  "callNode env node inputData items r n =
     (let response = behaviour env node n inputData items
      in (respOutput response,
          (case respWaitTill response of None \<Rightarrow> r | Some t \<Rightarrow> r\<lparr>waitTill := Some t\<rparr>), Suc n))"

definition runNode ::
  "ExecutionEnv \<Rightarrow> Workflow \<Rightarrow> IExecuteData \<Rightarrow> IRunExecutionData \<Rightarrow> nat \<Rightarrow>
   (string + NodeOutput) \<times> IRunExecutionData \<times> nat" where
  "runNode env w d r n =
     (let node = execNode d; inputData = execData d in
      if disabled node = Some True then
        (case map_get inputData Main of
           None \<Rightarrow> (Inr Hole, r, n)
         | Some main \<Rightarrow> (case arr_get main 0 of
             None \<Rightarrow> (Inr Hole, r, n)
           | Some Null \<Rightarrow> (Inr Hole, r, n)
           | Some s \<Rightarrow> (Inr (Data [s]), r, n)))
      else (case nodeTypes w (nodeType node) (typeVersion node) of
        None \<Rightarrow> (Inl (error_message TypeError), r, n)
      | Some nt \<Rightarrow>
        (let executes = ntExecute nt \<or> (\<not> ntPoll nt \<and> \<not> ntTrigger nt \<and> \<not> ntWebhook nt) in
         case (if executes then connectionInput w inputData else Inr (Data [])) of
           Inl e \<Rightarrow> (Inl (error_message e), r, n)
         | Inr Hole \<Rightarrow> (Inl (error_message TypeError), r, n)
         | Inr Null \<Rightarrow> (Inl (error_message TypeError), r, n)
         | Inr (Data items) \<Rightarrow>
           if executes \<and> items = [] then (Inr Hole, r, n)
           else if lastNodeExecuted r = Some (nodeName node) \<and> resultError r \<noteq> None
           then (Inl (the (resultError r)), r, n)
           else (let inputData = (if executeOnce node = Some True then firstItemsOnly inputData
                                  else inputData)
             in if ntExecute nt then callNode env node inputData items r n
                else if ntPoll nt \<or> ntTrigger nt then
                  (if manualMode env then callNode env node inputData items r n
                   else (Inr (passThrough inputData), r, n))
                else if ntWebhook nt then (Inr (passThrough inputData), r, n)
                else callNode env node inputData items r n))))"


section \<open>The error output\<close>

text \<open>\<open>errorData\<close> of an item, and the item without its \<open>error\<close>.\<close>

definition errorDataOf :: "INodeExecutionData \<Rightarrow> bool \<times> INodeExecutionData" where
  "errorDataOf item =
     (if (case itemError item of None \<Rightarrow> False | Some v \<Rightarrow> jtruthy v) then (True, item\<lparr>itemError := None\<rparr>)
      else (truthy_key (json item) ''error'' \<and>
              (length (json item) = 1 \<or>
               truthy_key (json item) ''message'' \<and> length (json item) = 2), item))"

definition firstPair :: "INodeExecutionData \<Rightarrow> IPairedItemData option" where
  "firstPair item =
     (case pairedItem item of
        Some (PairedOne p) \<Rightarrow> Some p
      | Some (PairedMany ps) \<Rightarrow> arr_get ps 0
      | _ \<Rightarrow> None)"

text \<open>An object spread over another: the keys of the second win.\<close>

definition spread :: "IDataObject \<Rightarrow> IDataObject \<Rightarrow> IDataObject" where
  "spread a b = fold (\<lambda>(k, v) m. map_put k v m) b a"

definition errorItem :: "ExecutionEnv \<Rightarrow> IExecuteData \<Rightarrow> INodeExecutionData \<Rightarrow> INodeExecutionData res"
  where
  "errorItem env d item =
     (case (execSource d, firstPair item) of
        (Some sources, Some pair) \<Rightarrow>
          (case map_get sources Main of
             None \<Rightarrow> Inl TypeError
           | Some arr \<Rightarrow>
               (case arr_get arr (case pairedInput pair of None \<Rightarrow> 0 | Some i \<Rightarrow> i) of
                  Some (Data source) \<Rightarrow>
                    res_bind (getPairedItem env source pair) (\<lambda>found. Inr (case found of
                        None \<Rightarrow> item
                      | Some origin \<Rightarrow> item\<lparr>json := spread (json origin) (json item)\<rparr>))
                | _ \<Rightarrow> Inl TypeError))
      | _ \<Rightarrow> Inr item)"

definition splitItem ::
  "ExecutionEnv \<Rightarrow> IExecuteData \<Rightarrow> INodeExecutionData \<Rightarrow>
   INodeExecutionData list \<times> INodeExecutionData list \<Rightarrow>
   (INodeExecutionData list \<times> INodeExecutionData list) res" where
  "splitItem env d item = (\<lambda>(successItems, errorItems).
     (case errorDataOf item of
        (True, item) \<Rightarrow> res_bind (errorItem env d item) (\<lambda>e. Inr (successItems, errorItems @ [e]))
      | (False, item) \<Rightarrow> Inr (successItems @ [item], errorItems)))"

text \<open>The loop over all outputs but the last, which receives the error items.\<close>

definition splitOutput ::
  "ExecutionEnv \<Rightarrow> IExecuteData \<Rightarrow> nat \<Rightarrow> OutputData \<times> INodeExecutionData list \<Rightarrow>
   (OutputData \<times> INodeExecutionData list) res" where
  "splitOutput env d i = (\<lambda>(nodeSuccessData, errorItems).
     let items = (case arr_get nodeSuccessData i of Some (Data xs) \<Rightarrow> xs | _ \<Rightarrow> [])
     in res_bind (res_fold (splitItem env d) items ([], errorItems)) (\<lambda>(successItems, errorItems).
          Inr (arr_put Hole nodeSuccessData i (Data successItems), errorItems)))"

definition handleNodeErrorOutput ::
  "ExecutionEnv \<Rightarrow> Workflow \<Rightarrow> IExecuteData \<Rightarrow> OutputData \<Rightarrow> OutputData res" where
  "handleNodeErrorOutput env w d nodeSuccessData =
     (if nodeTypes w (nodeType (execNode d)) (typeVersion (execNode d)) = None then Inl TypeError
      else (let mains = length (filter (\<lambda>t. t = Main) (outputTypes env (execNode d)))
        in res_bind (res_fold (splitOutput env d) [0..<mains - 1] (nodeSuccessData, []))
             (\<lambda>(nodeSuccessData, errorItems).
                Inr (if mains = 0 then nodeSuccessData
                     else arr_put Hole nodeSuccessData (mains - 1) (Data errorItems)))))"


section \<open>Paired items\<close>

text \<open>
  The loop stops at the first item that cannot be paired; \<open>None\<close> in the result tells the outer loop
  to stop too.
\<close>

definition pairedWith :: "nat \<Rightarrow> PairedItem" where
  "pairedWith i = PairedOne \<lparr>pairedIndex = i, pairedInput = None\<rparr>"

fun pairItems ::
  "bool \<Rightarrow> bool \<Rightarrow> nat \<Rightarrow> INodeExecutionData list \<Rightarrow> INodeExecutionData list \<times> bool" where
  "pairItems single same i [] = ([], True)"
| "pairItems single same i (item # items) =
     (if pairedItem item \<noteq> None \<or> single \<or> same then
        (let item' = (if pairedItem item \<noteq> None then item
                else item\<lparr>pairedItem := Some (pairedWith (if single then 0 else i))\<rparr>);
             (items', more) = pairItems single same (Suc i) items
         in (item' # items', more))
      else (item # items, False))"

text \<open>A hole of the array is \<open>undefined\<close>, which the loop cannot enumerate.\<close>

fun pairOutputs :: "bool \<Rightarrow> bool \<Rightarrow> OutputData \<Rightarrow> OutputData res" where
  "pairOutputs single same [] = Inr []"
| "pairOutputs single same (Null # os) =
     res_bind (pairOutputs single same os) (\<lambda>os. Inr (Null # os))"
| "pairOutputs single same (Hole # os) = Inl TypeError"
| "pairOutputs single same (Data items # os) =
     (let (items', more) = pairItems single same 0 items
      in if more then res_bind (pairOutputs single same os) (\<lambda>os. Inr (Data items' # os))
         else Inr (Data items' # os))"

text \<open>\<open>s?.length\<close>, where \<open>null\<close> and \<open>undefined\<close> have none.\<close>

definition slotLength :: "'a list slot option \<Rightarrow> nat option" where
  "slotLength s = (case s of Some (Data xs) \<Rightarrow> Some (length xs) | _ \<Rightarrow> None)"

definition isSingleInputAndOutput :: "INodeExecutionData list slot list \<Rightarrow> bool" where
  "isSingleInputAndOutput main \<longleftrightarrow> length main = 1 \<and> slotLength (arr_get main 0) = Some 1"

text \<open>\<open>nodeSuccessData[0].length\<close> fails for \<open>null\<close>, after the other two conditions.\<close>

definition isSameNumberOfItems :: "INodeExecutionData list slot list \<Rightarrow> OutputData \<Rightarrow> bool res" where
  "isSameNumberOfItems main outs =
     (if length outs = 1 \<and> length main = 1 then
        (case outs of
           [Data items] \<Rightarrow> Inr (slotLength (arr_get main 0) = Some (length items))
         | _ \<Rightarrow> Inl TypeError)
      else Inr False)"

definition assignPairedItems ::
  "NodeOutput \<Rightarrow> IExecuteData \<Rightarrow> IRunExecutionData \<Rightarrow> (NodeOutput \<times> IRunExecutionData) res" where
  "assignPairedItems nodeSuccessData d r =
     res_bind (case nodeSuccessData of
         Data outs \<Rightarrow>
           if outs = [] then Inr (Data [])
           else (case map_get (execData d) Main of
             None \<Rightarrow> Inl TypeError
           | Some main \<Rightarrow> res_bind (isSameNumberOfItems main outs) (\<lambda>same.
               res_bind (pairOutputs (isSingleInputAndOutput main) same outs) (\<lambda>os. Inr (Data os))))
       | s \<Rightarrow> Inr s)
       (\<lambda>out. Inr (case out of
          Hole \<Rightarrow> (Null, r)
        | _ \<Rightarrow> (out, r\<lparr>lastNodeExecuted := Some (nodeName (execNode d))\<rparr>)))"


section \<open>An item where there is no output\<close>

definition allPairs :: "INodeExecutionData list slot list \<Rightarrow> IPairedItemData list" where
  "allPairs main =
     concat (map (\<lambda>(i, s). case s of
         Data items \<Rightarrow> map (\<lambda>j. \<lparr>pairedIndex = j, pairedInput = Some i\<rparr>) [0..<length items]
       | _ \<Rightarrow> [])
       (enumerate 0 main))"

text \<open>\<open>nodeSuccessData === null || nodeSuccessData[0][0] === undefined\<close>.\<close>

definition hasNoFirstItem :: "NodeOutput \<Rightarrow> bool res" where
  "hasNoFirstItem out =
     (case out of
        Null \<Rightarrow> Inr True
      | Hole \<Rightarrow> Inl TypeError
      | Data outs \<Rightarrow> (case arr_get outs 0 of Some (Data items) \<Rightarrow> Inr (items = []) | _ \<Rightarrow> Inl TypeError))"

definition alwaysOutput :: "NodeOutput \<Rightarrow> IExecuteData \<Rightarrow> NodeOutput res" where
  "alwaysOutput out d =
     res_bind (hasNoFirstItem out) (\<lambda>nothing.
       if nothing \<and> alwaysOutputData (execNode d) = Some True then
         (case map_get (execData d) Main of
            None \<Rightarrow> Inl TypeError
          | Some main \<Rightarrow>
              Inr (Data (arr_put Hole (case out of Data outs \<Rightarrow> outs | _ \<Rightarrow> []) 0
                (Data [empty_item\<lparr>pairedItem := Some (PairedMany (allPairs main))\<rparr>]))))
       else Inr out)"


section \<open>The tries\<close>

text \<open>Number of tries and the time between them, with the defaults of the code.\<close>

definition or_default :: "int option \<Rightarrow> int \<Rightarrow> int" where
  "or_default x d = (case x of None \<Rightarrow> d | Some i \<Rightarrow> if i = 0 then d else i)"

definition triesOf :: "INode \<Rightarrow> int" where
  "triesOf node =
     (if retryOnFail node = Some True then min 5 (max 2 (or_default (maxTries node) 3)) else 1)"

definition waitBetween :: "INode \<Rightarrow> int" where
  "waitBetween node =
     (if retryOnFail node = Some True
      then min 5000 (max 0 (or_default (waitBetweenTries node) 1000)) else 0)"

text \<open>
  The variables that the tries change: the execution data, the number of calls of nodes,
  \<open>nodeSuccessData\<close> and \<open>executionError\<close>.
\<close>

record TryState =
  tryRun :: IRunExecutionData
  tryCalls :: nat
  tryOutput :: NodeOutput
  tryError :: "string option"

datatype TryEnd = TryNext nat | TrySkip | TryDone

text \<open>\<open>catch\<close>: \<open>used\<close> tries are used up.\<close>

definition catchError :: "IExecuteData \<Rightarrow> string \<Rightarrow> nat \<Rightarrow> TryState \<Rightarrow> TryEnd \<times> TryState" where
  "catchError d e used s =
     (TryNext used,
      s\<lparr>tryRun := (tryRun s)\<lparr>lastNodeExecuted := Some (nodeName (execNode d))\<rparr>, tryError := Some e\<rparr>)"

definition didContinueOnFail :: "NodeOutput \<Rightarrow> bool" where
  "didContinueOnFail out =
     (case out of
        Data (Data (item # _) # _) \<Rightarrow> map_get (json item) ''error'' \<noteq> None
      | _ \<Rightarrow> False)"

text \<open>
  The loop \<open>while (didContinueOnFail && tryIndex !== maxTries - 1)\<close>, whose condition only changes
  with \<open>tryIndex\<close>: the node is run as often as tries are left, and what it returns is not used. The
  result is the error of a run that threw, with the number of runs before it.
\<close>

primrec rerunNode ::
  "ExecutionEnv \<Rightarrow> Workflow \<Rightarrow> IExecuteData \<Rightarrow> nat \<Rightarrow> nat \<Rightarrow> IRunExecutionData \<Rightarrow> nat \<Rightarrow>
   (string \<times> nat) option \<times> IRunExecutionData \<times> nat" where
  "rerunNode env w d 0 completed r n = (None, r, n)"
| "rerunNode env w d (Suc remaining) completed r n =
     (case runNode env w d r n of
        (Inl e, r', n') \<Rightarrow> (Some (e, completed), r', n')
      | (Inr _, r', n') \<Rightarrow> rerunNode env w d remaining (Suc completed) r' n')"

text \<open>\<open>nodeSuccessData[0]\<close> is the pinned array itself, so what is written to its items stays.\<close>

definition storePinned :: "string \<Rightarrow> NodeOutput \<Rightarrow> IRunExecutionData \<Rightarrow> IRunExecutionData" where
  "storePinned name out r =
     (case (out, resultPinData r) of
        (Data (Data items # _), Some pins) \<Rightarrow> r\<lparr>resultPinData := Some (map_put name items pins)\<rparr>
      | _ \<Rightarrow> r)"

definition pinnedItems :: "IRunExecutionData \<Rightarrow> INode \<Rightarrow> INodeExecutionData list option" where
  "pinnedItems r node =
     (case resultPinData r of
        None \<Rightarrow> None
      | Some pins \<Rightarrow> if disabled node = Some True then None else map_get pins (nodeName node))"

text \<open>The end of a try, from \<open>assignPairedItems\<close> on.\<close>

definition finishTry :: "IExecuteData \<Rightarrow> nat \<Rightarrow> TryState \<Rightarrow> TryEnd \<times> TryState" where
  "finishTry d used s =
     (case assignPairedItems (tryOutput s) d (tryRun s) of
        Inl e \<Rightarrow> catchError d (error_message e) used s
      | Inr (out, r) \<Rightarrow>
          (let r = (if pinnedItems r (execNode d) \<noteq> None
                    then storePinned (nodeName (execNode d)) out r else r);
               s = s\<lparr>tryOutput := out, tryRun := r\<rparr>
           in case alwaysOutput out d of
              Inl e \<Rightarrow> catchError d (error_message e) used s
            | Inr out \<Rightarrow>
                (if out = Null \<and> waitTill r = None then TrySkip else TryDone, s\<lparr>tryOutput := out\<rparr>)))"

text \<open>One pass of the loop with \<open>remaining\<close> tries left after it.\<close>

definition oneTry ::
  "ExecutionEnv \<Rightarrow> Workflow \<Rightarrow> IExecuteData \<Rightarrow> nat \<Rightarrow> TryState \<Rightarrow> TryEnd \<times> TryState" where
  "oneTry env w d remaining s =
     (let s = s\<lparr>tryError := None\<rparr> in
      case pinnedItems (tryRun s) (execNode d) of
        Some items \<Rightarrow> finishTry d 1 (s\<lparr>tryOutput := Data [Data items]\<rparr>)
      | None \<Rightarrow>
        (case runNode env w d (tryRun s) (tryCalls s) of
           (Inl e, r, n) \<Rightarrow> catchError d e 1 (s\<lparr>tryRun := r, tryCalls := n\<rparr>)
         | (Inr out, r, n) \<Rightarrow>
           (let s = s\<lparr>tryOutput := out, tryRun := r, tryCalls := n\<rparr>;
                (failed, r, n) = (if didContinueOnFail out then rerunNode env w d remaining 0 r n
                                  else (None, r, n));
                s = s\<lparr>tryRun := r, tryCalls := n\<rparr>;
                used = (if didContinueOnFail out then Suc remaining else 1)
            in case failed of
               Some (e, completed) \<Rightarrow> catchError d e (Suc completed) s
             | None \<Rightarrow>
               (case (out, onError (execNode d)) of
                  (Data outs, Some continueErrorOutput) \<Rightarrow>
                    (case handleNodeErrorOutput env w d outs of
                       Inl e \<Rightarrow> catchError d (error_message e) used s
                     | Inr outs \<Rightarrow> finishTry d used (s\<lparr>tryOutput := Data outs\<rparr>))
                | _ \<Rightarrow> finishTry d used s))))"

text \<open>
  The tries; the first argument bounds the passes and is the number of tries that are left at
  first. The answer tells whether the loop was left with \<open>continue executionLoop\<close>.
\<close>

primrec runTries ::
  "nat \<Rightarrow> ExecutionEnv \<Rightarrow> Workflow \<Rightarrow> IExecuteData \<Rightarrow> nat \<Rightarrow> TryState \<Rightarrow> bool \<times> TryState" where
  "runTries 0 env w d remaining s = (False, s)"
| "runTries (Suc k) env w d remaining s =
     (if remaining = 0 then (False, s)
      else (case oneTry env w d (remaining - 1) s of
          (TrySkip, s) \<Rightarrow> (True, s)
        | (TryDone, s) \<Rightarrow> (False, s)
        | (TryNext used, s) \<Rightarrow> runTries k env w d (remaining - used) s))"

end
