(* ===== verification/Execution_Loop.thy ===== *)
theory Execution_Loop
  imports Node_Run
begin

text \<open>
  The execution of a workflow in the class WorkflowExecute: the checks before it, the loop over the
  execution stack, the nodes that are put on the stack after a node has run, and the final data.
  The loop may run forever, so it is given a number of iterations.
\<close>


section \<open>State\<close>

datatype HookEvent =
    WorkflowExecuteBefore
  | NodeExecuteBefore string
  | NodeExecuteAfter string
  | WorkflowExecuteAfter ExecutionStatus

text \<open>
  The fields of the object and the variables of the loop that outlive an iteration; \<open>weCalls\<close>
  counts the calls of nodes.
\<close>

record WorkflowExecute =
  weStatus :: ExecutionStatus
  weAborted :: bool
  weRun :: IRunExecutionData
  weHooks :: "HookEvent list"
  weCalls :: nat
  executionError :: "string option"
  lastExecutionTry :: string

definition newWorkflowExecute :: "IRunExecutionData \<Rightarrow> WorkflowExecute" where
  "newWorkflowExecute r =
     \<lparr>weStatus = StNew, weAborted = False, weRun = r, weHooks = [], weCalls = 0,
      executionError = None, lastExecutionTry = []\<rparr>"

definition executeHook :: "HookEvent \<Rightarrow> WorkflowExecute \<Rightarrow> WorkflowExecute" where
  "executeHook h st = st\<lparr>weHooks := weHooks st @ [h]\<rparr>"

definition cancelExecution :: "WorkflowExecute \<Rightarrow> WorkflowExecute" where
  "cancelExecution st =
     executeHook (WorkflowExecuteAfter StCanceled) (st\<lparr>weStatus := StCanceled, weAborted := True\<rparr>)"


section \<open>Before the loop\<close>

definition checkNodes ::
  "nat \<Rightarrow> Workflow \<Rightarrow> string option \<Rightarrow> string option \<Rightarrow> string list res" where
  "checkNodes k w startNode destinationNode =
     (case destinationNode of
        Some n \<Rightarrow> res_bind (getParentNodes k w n (OfType Main) (-1)) (\<lambda>ns. Inr (ns @ [n]))
      | None \<Rightarrow> (case startNode of
          Some n \<Rightarrow> res_bind (getChildNodes k w n (OfType Main) (-1)) (\<lambda>ns. Inr (ns @ [n]))
        | None \<Rightarrow> Inr []))"

text \<open>The issues by node; an empty name counts as no name.\<close>

definition checkReadyForExecution ::
  "nat \<Rightarrow> ExecutionEnv \<Rightarrow> Workflow \<Rightarrow> string option \<Rightarrow> string option \<Rightarrow> string list \<Rightarrow>
   (string, string) js_map option res" where
  "checkReadyForExecution k env w startNode destinationNode pinDataNodeNames =
     (let given = (\<lambda>n. if n = Some [] then None else n)
      in res_bind (checkNodes k w (given startNode) (given destinationNode)) (\<lambda>names.
         res_bind (res_fold (\<lambda>n issues.
             case map_get (wfNodes w) n of
               None \<Rightarrow> Inl TypeError
             | Some node \<Rightarrow>
                 if disabled node = Some True then Inr issues
                 else (case (case nodeTypes w (nodeType node) (typeVersion node) of
                       None \<Rightarrow> Some ''typeUnknown''
                     | Some nt \<Rightarrow> parametersIssues env nt node pinDataNodeNames) of
                     None \<Rightarrow> Inr issues
                   | Some i \<Rightarrow> Inr (map_put (nodeName node) i issues))) names [])
           (\<lambda>issues. Inr (if issues = [] then None else Some issues))))"

text \<open>
  Resuming a waiting execution: the node that waited is disabled, so that its data passes through,
  and its last recorded run is dropped. The stack item has its own node object, as the data comes
  from the database.
\<close>

definition resumeWaiting :: "IRunExecutionData \<Rightarrow> IRunExecutionData res" where
  "resumeWaiting r =
     (if waitTill r = None then Inr r
      else (case (nodeExecutionStack r, lastNodeExecuted r) of
          (d # ds, Some l) \<Rightarrow>
            (case map_get (resultRunData r) l of
               None \<Rightarrow> Inl TypeError
             | Some runs \<Rightarrow>
                 Inr (r\<lparr>nodeExecutionStack :=
                          d\<lparr>execNode := (execNode d)\<lparr>disabled := Some True\<rparr>\<rparr> # ds,
                        waitTill := None,
                        resultRunData := map_put l (butlast runs) (resultRunData r)\<rparr>))
        | _ \<Rightarrow> Inl TypeError))"


section \<open>The input of a node\<close>

text \<open>New \<open>pairedItem\<close> information on every input item.\<close>

definition pairInputs :: "ITaskDataConnections \<Rightarrow> ITaskDataConnections" where
  "pairInputs inputData =
     map (\<lambda>(t, arr). (t, map (\<lambda>(i, s). case s of
         Data items \<Rightarrow> Data (map (\<lambda>(j, item).
           item\<lparr>pairedItem := Some (PairedOne \<lparr>pairedIndex = j, pairedInput = or_undefined i\<rparr>)\<rparr>)
           (enumerate 0 items))
       | s \<Rightarrow> s) (enumerate 0 arr))) inputData"

text \<open>
  Whether the item goes back on the stack because data is missing: the loop over the inputs of the
  node. An input whose parents are all disabled is ignored.
\<close>

primrec inputsMissing ::
  "nat \<Rightarrow> Workflow \<Rightarrow> IExecuteData \<Rightarrow> nat list \<Rightarrow> bool res" where
  "inputsMissing k w d [] = Inr False"
| "inputsMissing k w d (i # is) =
     res_bind (getHighestNode k w (nodeName (execNode d)) Main (Some i) []) (\<lambda>(highest, checked).
       if highest = [] then inputsMissing k w d is
       else (case map_get (execData d) Main of
           None \<Rightarrow> Inr True
         | Some main \<Rightarrow>
             if forceInputNodeExecution w \<and> (length main < i \<or> arr_get main i = Some Null)
             then Inr True
             else inputsMissing k w d is))"

definition mustWait :: "nat \<Rightarrow> Workflow \<Rightarrow> IExecuteData \<Rightarrow> bool res" where
  "mustWait k w d =
     (case map_get (connectionsByDestinationNode w) (nodeName (execNode d)) of
        None \<Rightarrow> Inr False
      | Some nc \<Rightarrow> (case map_get nc Main of
          None \<Rightarrow> Inr False
        | Some arr \<Rightarrow> inputsMissing k w d [0..<length arr]))"


section \<open>The output of a node\<close>

text \<open>\<open>error.message\<close>; \<open>null\<close> has no properties. A message that is \<open>undefined\<close> is no entry.\<close>

definition errorMessageOf :: "jval \<Rightarrow> IDataObject res" where
  "errorMessageOf v =
     (case v of
        JNull \<Rightarrow> Inl TypeError
      | JObj ps \<Rightarrow> Inr (case map_get ps ''message'' of None \<Rightarrow> [] | Some m \<Rightarrow> [(''error'', m)])
      | _ \<Rightarrow> Inr [])"

definition mergeError :: "INodeExecutionData \<Rightarrow> INodeExecutionData res" where
  "mergeError item =
     (case (map_get (json item) ''$error'', map_get (json item) ''$json'') of
        (Some e, Some _) \<Rightarrow>
          res_bind (errorMessageOf e) (\<lambda>j. Inr (item\<lparr>itemError := Some e, json := j\<rparr>))
      | _ \<Rightarrow> (case itemError item of
          None \<Rightarrow> Inr item
        | Some e \<Rightarrow> res_bind (errorMessageOf e) (\<lambda>j. Inr (item\<lparr>json := j\<rparr>))))"

primrec res_map :: "('a \<Rightarrow> 'b res) \<Rightarrow> 'a list \<Rightarrow> 'b list res" where
  "res_map f [] = Inr []"
| "res_map f (x # xs) = res_bind (f x) (\<lambda>y. res_bind (res_map f xs) (\<lambda>ys. Inr (y # ys)))"

definition mergeErrors :: "NodeOutput \<Rightarrow> NodeOutput res" where
  "mergeErrors out =
     (case out of
        Data outs \<Rightarrow> res_bind (res_map (\<lambda>s. case s of
            Data items \<Rightarrow> res_bind (res_map mergeError items) (\<lambda>is. Inr (Data is))
          | _ \<Rightarrow> Inl TypeError) outs) (\<lambda>outs. Inr (Data outs))
      | _ \<Rightarrow> Inl TypeError)"

text \<open>A node that fails and continues passes its first input on, if that is not \<open>null\<close>.\<close>

definition continuesOnFail :: "INode \<Rightarrow> bool" where
  "continuesOnFail node \<longleftrightarrow>
     continueOnFail node = Some True \<or>
     onError node \<in> {Some continueRegularOutput, Some continueErrorOutput}"

definition failedOutput :: "IExecuteData \<Rightarrow> NodeOutput \<Rightarrow> NodeOutput" where
  "failedOutput d out =
     (case map_get (execData d) Main of
        None \<Rightarrow> out
      | Some main \<Rightarrow> (case arr_get main 0 of
          None \<Rightarrow> out
        | Some Null \<Rightarrow> out
        | Some s \<Rightarrow> Data [s]))"

definition pushTaskData :: "string \<Rightarrow> ITaskData \<Rightarrow> IRunExecutionData \<Rightarrow> IRunExecutionData" where
  "pushTaskData name t r =
     r\<lparr>resultRunData := map_put name
         ((case map_get (resultRunData r) name of None \<Rightarrow> [] | Some runs \<Rightarrow> runs) @ [t])
         (resultRunData r)\<rparr>"

definition newTaskData :: "IExecuteData \<Rightarrow> IRunExecutionData \<Rightarrow> ITaskData" where
  "newTaskData d r =
     \<lparr>taskData = None,
      taskStatus = Some (if waitTill r = None then StSuccess else StWaiting),
      taskError = None,
      taskSource = (case execSource d of None \<Rightarrow> []
        | Some sources \<Rightarrow> (case map_get sources Main of None \<Rightarrow> [] | Some arr \<Rightarrow> arr)),
      taskMetadata = execMetadata d\<rparr>"


section \<open>The nodes after a node\<close>

record NodeToAdd =
  addPosition :: "int \<times> int"
  addConnectionOf :: IConnection
  addOutputIndex :: nat

text \<open>
  The comparator of \<open>nodesToAdd.sort\<close>. It answers 0 where the first argument is to the left of the
  second, so it is no consistent order; engines only ask whether the later of two elements compares
  less than the earlier one, and \<open>sortNodesToAdd\<close> asks the same.
\<close>

definition compareNodesToAdd :: "NodeToAdd \<Rightarrow> NodeToAdd \<Rightarrow> int" where
  "compareNodesToAdd a b =
     (if snd (addPosition a) < snd (addPosition b) then 1
      else if snd (addPosition a) > snd (addPosition b) then -1
      else if fst (addPosition a) > fst (addPosition b) then -1
      else 0)"

definition sortNodesToAdd :: "NodeToAdd list \<Rightarrow> NodeToAdd list" where
  "sortNodesToAdd = sort_by (\<lambda>earlier later. - compareNodesToAdd later earlier)"

text \<open>
  The connections of all outputs whose nodes are to be added: those of outputs with items, and in
  workflows that force inputs those to an input other than the first.
\<close>

definition connectionsToFollow ::
  "Workflow \<Rightarrow> NodeInputConnections \<Rightarrow> OutputData \<Rightarrow> (nat \<times> IConnection \<times> bool) list" where
  "connectionsToFollow w outputs nodeSuccessData =
     map (\<lambda>(i, c). (i, c, (case arr_get nodeSuccessData i of
         Some (Data items) \<Rightarrow> items \<noteq> [] \<or> (connIndex c > 0 \<and> forceInputNodeExecution w)
       | _ \<Rightarrow> False)))
       (output_entries outputs)"

definition destinationNotFound :: js_error where
  "destinationNotFound = ApplicationError ''Destination node not found''"

definition collectNode ::
  "Workflow \<Rightarrow> nat \<times> IConnection \<times> bool \<Rightarrow> NodeToAdd list \<Rightarrow> NodeToAdd list res" where
  "collectNode w = (\<lambda>(i, c, follow) nodesToAdd.
     case map_get (wfNodes w) (connNode c) of
       None \<Rightarrow> Inl destinationNotFound
     | Some node \<Rightarrow>
         Inr (if follow then nodesToAdd @
                [\<lparr>addPosition = position node, addConnectionOf = c, addOutputIndex = i\<rparr>]
              else nodesToAdd))"

definition addFollowing ::
  "nat \<Rightarrow> Workflow \<Rightarrow> string \<Rightarrow> OutputData \<Rightarrow> nat \<Rightarrow> nat \<times> IConnection \<times> bool \<Rightarrow>
   IRunExecutionData \<Rightarrow> IRunExecutionData res" where
  "addFollowing k w name nodeSuccessData runIndex = (\<lambda>(i, c, follow) r.
     if map_get (wfNodes w) (connNode c) = None then Inl destinationNotFound
     else if follow then addNodeToBeExecuted k w c i name (Some nodeSuccessData) runIndex r
     else Inr r)"

definition addNextNodes ::
  "nat \<Rightarrow> Workflow \<Rightarrow> string \<Rightarrow> OutputData \<Rightarrow> nat \<Rightarrow> IRunExecutionData \<Rightarrow> IRunExecutionData res" where
  "addNextNodes k w name nodeSuccessData runIndex r =
     (case map_get (connectionsBySourceNode w) name of
        None \<Rightarrow> Inr r
      | Some nc \<Rightarrow> (case map_get nc Main of
          None \<Rightarrow> Inr r
        | Some outputs \<Rightarrow>
            (let follow = connectionsToFollow w outputs nodeSuccessData
             in if isV1 w then
                  res_bind (res_fold (collectNode w) follow []) (\<lambda>nodesToAdd.
                    res_fold (\<lambda>n. addNodeToBeExecuted k w (addConnectionOf n) (addOutputIndex n) name
                        (Some nodeSuccessData) runIndex)
                      (sortNodesToAdd nodesToAdd) r)
                else res_fold (addFollowing k w name nodeSuccessData runIndex) follow r)))"


section \<open>Waiting nodes without all inputs\<close>

text \<open>The run indices are sorted as strings.\<close>

fun string_less :: "string \<Rightarrow> string \<Rightarrow> bool" where
  "string_less [] [] = False"
| "string_less [] (d # ds) = True"
| "string_less (c # cs) [] = False"
| "string_less (c # cs) (d # ds) =
     ((of_char c :: nat) < of_char d \<or> (c = d \<and> string_less cs ds))"

definition firstRunIndex :: "(nat, 'a) js_map \<Rightarrow> nat option" where
  "firstRunIndex m =
     (case sort_by (\<lambda>i j. if string_less (show_nat j) (show_nat i) then 1 else -1)
        (sort (map_keys m)) of [] \<Rightarrow> None | i # _ \<Rightarrow> Some i)"

definition inputsWithData :: "INodeExecutionData list slot list \<Rightarrow> nat list" where
  "inputsWithData main =
     map fst (filter (\<lambda>(i, s). case s of Data _ \<Rightarrow> True | _ \<Rightarrow> False) (enumerate 0 main))"

text \<open>\<open>requiredInputs\<close> of the node's type, with an expression evaluated.\<close>

definition requiredInputsOf ::
  "ExecutionEnv \<Rightarrow> Workflow \<Rightarrow> INode \<Rightarrow> INodeType \<Rightarrow> RequiredInputs option" where
  "requiredInputsOf env w node nt =
     (if isV1 w then (case ntRequiredInputs nt of
          Some (ReqExpression e) \<Rightarrow> simpleParameterValue env node e
        | r \<Rightarrow> r)
      else None)"

definition allInputsRequired :: "RequiredInputs option \<Rightarrow> nat \<Rightarrow> bool" where
  "allInputsRequired req n \<longleftrightarrow>
     (case req of
        Some (ReqList is) \<Rightarrow> length is = n
      | Some (ReqCount c) \<Rightarrow> c = n
      | _ \<Rightarrow> False)"

definition requiredMissing :: "RequiredInputs option \<Rightarrow> nat list \<Rightarrow> bool" where
  "requiredMissing req withData \<longleftrightarrow>
     (case req of
        Some (ReqList is) \<Rightarrow> \<exists>i \<in> set is. i \<notin> set withData
      | Some (ReqCount c) \<Rightarrow> length withData < c
      | _ \<Rightarrow> False)"

datatype ReleaseStep = Skipped | Released IRunExecutionData | Emptied IRunExecutionData

definition withoutNull :: "INodeExecutionData list slot list \<Rightarrow> INodeExecutionData list slot list" where
  "withoutNull main = map (\<lambda>s. if s = Null then Data [] else s) main"

text \<open>One waiting node: it is released to the stack, an entry without items is dropped, or neither.\<close>

definition releaseEntry ::
  "Workflow \<Rightarrow> INode \<Rightarrow> nat option \<Rightarrow> string \<Rightarrow> nat \<Rightarrow> INodeExecutionData list slot list \<Rightarrow>
   IRunExecutionData \<Rightarrow> ReleaseStep res" where
  "releaseEntry w node inputs name i main r =
     (if map_get (waitingExecutionSource r) name = None then Inl TypeError
      else (let taskDataMain = withoutNull main;
                some_items = list_ex hasItems taskDataMain;
                we = deleteEntry name i (waitingExecution r);
                ws = deleteEntry name i (waitingExecutionSource r);
                r' = (if entriesOf we name = []
                      then r\<lparr>waitingExecution := map_del name we, waitingExecutionSource := map_del name ws\<rparr>
                      else r\<lparr>waitingExecution := we, waitingExecutionSource := ws\<rparr>)
        in if \<not> some_items then Inr (Emptied r')
           else (case inputs of
               None \<Rightarrow> Inl TypeError
             | Some n \<Rightarrow> Inr (Released (r'\<lparr>nodeExecutionStack := nodeExecutionStack r' @
                 [\<lparr>execNode = node,
                   execData = [(Main, taskDataMain @ replicate (n - length taskDataMain) (Data []))],
                   execMetadata = None,
                   execSource = map_get (entriesOf (waitingExecutionSource r) name) i\<rparr>]\<rparr>)))))"

definition checkWaitingNode ::
  "nat \<Rightarrow> ExecutionEnv \<Rightarrow> Workflow \<Rightarrow> string \<Rightarrow> IRunExecutionData \<Rightarrow> ReleaseStep res" where
  "checkWaitingNode k env w name r =
     (case getNode w name of
        None \<Rightarrow> Inr Skipped
      | Some node \<Rightarrow>
          (let nt = nodeTypes w (nodeType node) (typeVersion node);
               req = (case nt of None \<Rightarrow> None | Some nt \<Rightarrow> requiredInputsOf env w node nt)
           in if isV1 w \<and> nt = None then Inl TypeError
              else if (case nt of None \<Rightarrow> False | Some nt \<Rightarrow> allInputsRequired req (ntInputs nt))
              then Inr Skipped
              else res_bind (getParentNodes k w name (OfType Main) (-1)) (\<lambda>parents.
                if \<exists>p \<in> set parents. p \<in> set (map_keys (waitingExecution r)) then Inr Skipped
                else (case firstRunIndex (entriesOf (waitingExecution r) name) of
                    None \<Rightarrow> Inl TypeError
                  | Some i \<Rightarrow> res_bind (entryMain (waitingExecution r) name i) (\<lambda>main.
                      if requiredMissing req (inputsWithData main) then Inr Skipped
                      else releaseEntry w node (map_option ntInputs nt) name i main r)))))"

primrec scanWaiting ::
  "(string \<Rightarrow> ReleaseStep res) \<Rightarrow> string list \<Rightarrow> ReleaseStep res" where
  "scanWaiting check [] = Inr Skipped"
| "scanWaiting check (n # ns) =
     res_bind (check n) (\<lambda>s. case s of Skipped \<Rightarrow> scanWaiting check ns | s \<Rightarrow> Inr s)"

text \<open>The number of entries that wait, which each restart of the loop makes smaller.\<close>

definition waitingCount :: "IRunExecutionData \<Rightarrow> nat" where
  "waitingCount r = sum_list (map (\<lambda>(n, m). length m) (waitingExecution r))"

lemma sum_list_put:
  "map_get w n = Some m \<Longrightarrow>
   sum_list (map (\<lambda>(n, m). length m) (map_put n m' w)) + length m =
   sum_list (map (\<lambda>(n, m). length m) w) + length m'"
  by (induction w) (auto split: if_splits)

lemma sum_list_del:
  "sum_list (map (\<lambda>(n, m). length m) (map_del n w)) \<le> sum_list (map (\<lambda>(n, m). length m) w)"
  by (induction w) (auto simp: AList.delete_eq)

lemma deleteEntry_count:
  assumes "map_get w n = Some m" and "map_get m i \<noteq> None"
  shows "sum_list (map (\<lambda>(n, m). length m) (deleteEntry n i w)) <
    sum_list (map (\<lambda>(n, m). length m) w)"
  using sum_list_put [OF assms(1), of "map_del i m"] length_map_del_less [OF assms(2)] assms(1)
  by (simp add: deleteEntry_def entriesOf_def)

lemma checkWaitingNode_decreases:
  assumes "checkWaitingNode k env w name r = Inr (Emptied r')"
  shows "waitingCount r' < waitingCount r"
proof -
  from assms obtain node inputs i main where
    main: "entryMain (waitingExecution r) name i = Inr main" and
    rel: "releaseEntry w node inputs name i main r = Inr (Emptied r')"
    by (auto simp: checkWaitingNode_def Let_def res_simps split: option.splits if_splits)
  from main obtain m where "map_get (waitingExecution r) name = Some m" "map_get m i \<noteq> None"
    by (auto simp: entryMain_def split: option.splits)
  from deleteEntry_count [OF this]
  have less: "sum_list (map (\<lambda>(n, m). length m) (deleteEntry name i (waitingExecution r))) < waitingCount r"
    by (simp add: waitingCount_def)
  have "waitingExecution r' \<in> {deleteEntry name i (waitingExecution r),
      map_del name (deleteEntry name i (waitingExecution r))}"
    using rel by (auto simp: releaseEntry_def Let_def split: if_splits option.splits)
  then show ?thesis
    using less sum_list_del [of name "deleteEntry name i (waitingExecution r)"]
    by (auto simp: waitingCount_def)
qed

lemma scanWaiting_Emptied:
  "scanWaiting check ns = Inr (Emptied r) \<Longrightarrow> \<exists>n \<in> set ns. check n = Inr (Emptied r)"
proof (induction ns)
  case (Cons n ns)
  then obtain x where "check n = Inr x" by (auto simp: res_simps)
  with Cons show ?case by (cases x) auto
qed simp

function releaseWaiting ::
  "nat \<Rightarrow> ExecutionEnv \<Rightarrow> Workflow \<Rightarrow> IRunExecutionData \<Rightarrow> IRunExecutionData res" where
  "releaseWaiting k env w r =
     (case scanWaiting (\<lambda>name. checkWaitingNode k env w name r) (map_keys (waitingExecution r)) of
        Inl e \<Rightarrow> Inl e
      | Inr Skipped \<Rightarrow> Inr r
      | Inr (Released r') \<Rightarrow> Inr r'
      | Inr (Emptied r') \<Rightarrow> releaseWaiting k env w r')"
  by pat_completeness auto

termination
  by (relation "measure (\<lambda>(k, env, w, r). waitingCount r)")
    (auto dest!: scanWaiting_Emptied checkWaitingNode_decreases)

declare releaseWaiting.simps [simp del]


section \<open>The loop\<close>

datatype IterationEnd = Continue | Stop

text \<open>What happens to the execution from outside before an iteration.\<close>

datatype Interrupt = NoInterrupt | TimedOut | CancelCalled

text \<open>The end of an iteration whose node has run, from the task data on.\<close>

definition afterHook :: "string \<Rightarrow> WorkflowExecute \<Rightarrow> WorkflowExecute" where
  "afterHook name st = executeHook (NodeExecuteAfter name) st"

text \<open>A failed node that does not continue: its run is recorded and it goes back on the stack.\<close>

definition stopWithError ::
  "IExecuteData \<Rightarrow> ITaskData \<Rightarrow> WorkflowExecute \<Rightarrow> WorkflowExecute" where
  "stopWithError d t st =
     (let name = nodeName (execNode d);
          r = pushTaskData name t (weRun st);
          st = st\<lparr>weRun := r\<lparr>nodeExecutionStack := d # nodeExecutionStack r\<rparr>\<rparr>
      in if weAborted st then st else afterHook name st)"

definition isDestination :: "IRunExecutionData \<Rightarrow> string \<Rightarrow> bool" where
  "isDestination r name \<longleftrightarrow> name \<noteq> [] \<and> startDestinationNode r = Some name"

text \<open>A node that has run: its data is recorded and the nodes after it are added.\<close>

definition recordOutput ::
  "nat \<Rightarrow> ExecutionEnv \<Rightarrow> Workflow \<Rightarrow> IExecuteData \<Rightarrow> nat \<Rightarrow> ITaskData \<Rightarrow> NodeOutput \<Rightarrow>
   WorkflowExecute \<Rightarrow> (IterationEnd \<times> WorkflowExecute) res" where
  "recordOutput k env w d runIndex t out st =
     (let name = nodeName (execNode d); pinned = pinnedItems (weRun st) (execNode d) \<noteq> None in
      res_bind (mergeErrors out) (\<lambda>merged.
        case merged of
          Data outs \<Rightarrow>
            (let t = t\<lparr>taskData := Some [(Main, outs)]\<rparr>;
                 r = (if pinned \<and> pinnedItems (weRun st) (execNode d) = slot_option
                            (outputSlot (slot_option out) 0)
                      then storePinned name merged (weRun st) else weRun st);
                 r = pushTaskData name t r
             in if waitTill r \<noteq> None then
                  Inr (Stop, (afterHook name st)\<lparr>weRun :=
                    r\<lparr>nodeExecutionStack := d # nodeExecutionStack r\<rparr>\<rparr>)
                else if isDestination r name then
                  Inr (Continue, (afterHook name st)\<lparr>weRun := r\<rparr>)
                else res_bind (addNextNodes k w name outs runIndex r) (\<lambda>r.
                  res_bind (if nodeExecutionStack r = [] \<and> waitingExecution r \<noteq> []
                            then releaseWaiting k env w r else Inr r)
                    (\<lambda>r. Inr (Continue, (afterHook name st)\<lparr>weRun := r\<rparr>))))
        | _ \<Rightarrow> Inl TypeError))"

text \<open>The tries of a node and what follows.\<close>

definition runItem ::
  "nat \<Rightarrow> ExecutionEnv \<Rightarrow> Workflow \<Rightarrow> IExecuteData \<Rightarrow> nat \<Rightarrow> WorkflowExecute \<Rightarrow>
   (IterationEnd \<times> WorkflowExecute) res" where
  "runItem k env w d runIndex st =
     (let node = execNode d; name = nodeName node;
          tries = nat (triesOf node);
          (skip, s) = runTries tries env w d tries
            \<lparr>tryRun = weRun st, tryCalls = weCalls st, tryOutput = Null, tryError = None\<rparr>;
          st = st\<lparr>weRun := tryRun s, weCalls := tryCalls s, executionError := tryError s\<rparr>
      in if skip then Inr (Continue, st)
         else (let t = newTaskData d (weRun st) in
           case tryError s of
             None \<Rightarrow> recordOutput k env w d runIndex t (tryOutput s) st
           | Some e \<Rightarrow>
               (let t = t\<lparr>taskError := Some e, taskStatus := Some StError\<rparr> in
                if continuesOnFail node
                then recordOutput k env w d runIndex t (failedOutput d (tryOutput s)) st
                else Inr (Stop, stopWithError d t st))))"

definition runIndexOf :: "IRunExecutionData \<Rightarrow> string \<Rightarrow> nat" where
  "runIndexOf r name = (case map_get (resultRunData r) name of None \<Rightarrow> 0 | Some runs \<Rightarrow> length runs)"

text \<open>One iteration with the item that was taken from the stack.\<close>

definition processItem ::
  "nat \<Rightarrow> ExecutionEnv \<Rightarrow> Workflow \<Rightarrow> IExecuteData \<Rightarrow> WorkflowExecute \<Rightarrow>
   (IterationEnd \<times> WorkflowExecute) res" where
  "processItem k env w item st =
     (let d = item\<lparr>execData := pairInputs (execData item)\<rparr>;
          name = nodeName (execNode d);
          st = executeHook (NodeExecuteBefore name) (st\<lparr>executionError := None\<rparr>);
          runIndex = runIndexOf (weRun st) name;
          currentExecutionTry = name @ '':'' @ show_nat runIndex
      in if currentExecutionTry = lastExecutionTry st
         then Inl (ApplicationError ''Stopped execution because it seems to be in an endless loop'')
         else if (case startRunNodeFilter (weRun st) of None \<Rightarrow> False | Some names \<Rightarrow> name \<notin> set names)
         then Inr (Continue, st)
         else res_bind (mustWait k w d) (\<lambda>missing.
           if missing then
             Inr (Continue, st\<lparr>lastExecutionTry := currentExecutionTry,
               weRun := (weRun st)\<lparr>nodeExecutionStack := nodeExecutionStack (weRun st) @ [d]\<rparr>\<rparr>)
           else runItem k env w d runIndex st))"

definition interrupted :: "Interrupt \<Rightarrow> WorkflowExecute \<Rightarrow> WorkflowExecute" where
  "interrupted i st =
     (case i of
        NoInterrupt \<Rightarrow> st
      | TimedOut \<Rightarrow> st\<lparr>weStatus := StCanceled\<rparr>
      | CancelCalled \<Rightarrow> cancelExecution st)"

text \<open>
  The loop; \<open>interrupts i\<close> is what happens before iteration \<open>i\<close>. \<open>None\<close>: the fuel was too
  small for the execution.
\<close>

primrec executionLoop ::
  "nat \<Rightarrow> nat \<Rightarrow> ExecutionEnv \<Rightarrow> Workflow \<Rightarrow> (nat \<Rightarrow> Interrupt) \<Rightarrow> nat \<Rightarrow> WorkflowExecute \<Rightarrow>
   WorkflowExecute res option" where
  "executionLoop 0 k env w interrupts i st =
     (if nodeExecutionStack (weRun st) = [] then Some (Inr st) else None)"
| "executionLoop (Suc fuel) k env w interrupts i st =
     (case nodeExecutionStack (weRun st) of
        [] \<Rightarrow> Some (Inr st)
      | item # items \<Rightarrow>
          (let st = interrupted (interrupts i) st
           in if weStatus st = StCanceled then Some (Inr st)
              else (case processItem k env w item
                       (st\<lparr>weRun := (weRun st)\<lparr>nodeExecutionStack := items\<rparr>\<rparr>) of
                  Inl e \<Rightarrow> Some (Inl e)
                | Inr (Stop, st) \<Rightarrow> Some (Inr st)
                | Inr (Continue, st) \<Rightarrow> executionLoop fuel k env w interrupts (Suc i) st)))"


section \<open>The result\<close>

record IRun =
  runData :: IRunExecutionData
  runStatus :: ExecutionStatus
  runFinished :: bool
  runWaitTill :: "nat option"

definition getFullRunData :: "WorkflowExecute \<Rightarrow> IRun" where
  "getFullRunData st =
     \<lparr>runData = weRun st, runStatus = weStatus st, runFinished = False, runWaitTill = None\<rparr>"

text \<open>
  Metadata of the runs of nodes moves to their recorded runs. A run that is not recorded is a
  TypeError; a hole in the metadata changes nothing but sets an empty object.
\<close>

definition moveRunMetadata ::
  "string \<Rightarrow> nat \<times> ITaskMetadata option \<Rightarrow> IRunData \<Rightarrow> IRunData res" where
  "moveRunMetadata name = (\<lambda>(i, meta) rd.
     case map_get rd name of
       None \<Rightarrow> Inl TypeError
     | Some runs \<Rightarrow> (case arr_get runs i of
         None \<Rightarrow> Inl TypeError
       | Some t \<Rightarrow>
           (let old = (case taskMetadata t of None \<Rightarrow> [] | Some x \<Rightarrow> x);
                new = (case meta of None \<Rightarrow> [] | Some x \<Rightarrow> x)
            in Inr (map_put name (runs[i := t\<lparr>taskMetadata := Some (spread old new)\<rparr>]) rd))))"

definition moveNodeMetadata :: "IRunExecutionData \<Rightarrow> IRunExecutionData res" where
  "moveNodeMetadata r =
     res_bind (res_fold (\<lambda>(name, metas). res_fold (moveRunMetadata name) (enumerate 0 metas))
         (executionMetadata r) (resultRunData r))
       (\<lambda>rd. Inr (r\<lparr>resultRunData := rd\<rparr>))"

text \<open>
  The final data; its \<open>data\<close> is the object's own execution data, so an error is stored there too.
  \<open>cancelMessage\<close> is the message of ExecutionCancelledError.
\<close>

definition includesSubstring :: "string \<Rightarrow> string \<Rightarrow> bool" where
  "includesSubstring s t \<longleftrightarrow> (\<exists>i \<in> {0..length s}. take (length t) (drop i s) = t)"

definition processSuccessExecution ::
  "WorkflowExecute \<Rightarrow> string option \<Rightarrow> (IRun \<times> WorkflowExecute) res" where
  "processSuccessExecution st err =
     (let st = (case err of None \<Rightarrow> st
            | Some e \<Rightarrow> st\<lparr>weRun := (weRun st)\<lparr>resultError := Some e\<rparr>\<rparr>)
      in res_bind (moveNodeMetadata (weRun st)) (\<lambda>r.
        let st = st\<lparr>weRun := r\<rparr>;
            full = getFullRunData st;
            full = (case err of
                Some e \<Rightarrow> if includesSubstring e ''canceled'' then full\<lparr>runStatus := StCanceled\<rparr> else full
              | None \<Rightarrow> if waitTill r \<noteq> None
                  then full\<lparr>runWaitTill := waitTill r, runStatus := StWaiting\<rparr>
                  else full\<lparr>runFinished := True, runStatus := StSuccess\<rparr>);
            st = (if weAborted st then st else executeHook (WorkflowExecuteAfter (runStatus full)) st)
        in Inr (full, st)))"

definition cancelMessage :: string where
  "cancelMessage = ''The execution was cancelled''"

text \<open>The handler of an error that the loop did not catch; \<open>st\<close> is the state it had last.\<close>

definition failExecution :: "WorkflowExecute \<Rightarrow> js_error \<Rightarrow> (IRun \<times> WorkflowExecute) res" where
  "failExecution st e =
     res_bind (moveNodeMetadata ((weRun st)\<lparr>resultError := Some (error_message e)\<rparr>)) (\<lambda>r.
       let st = st\<lparr>weRun := r\<rparr>; full = getFullRunData st
       in Inr (full, executeHook (WorkflowExecuteAfter (runStatus full)) st))"

text \<open>
  \<open>processRunExecutionData\<close>. A loop that throws is answered by \<open>failExecution\<close> on the state in
  which it threw; the model only tells the error, as an exception of the model has no state.
\<close>

datatype RunResult = Completed IRun WorkflowExecute | LoopThrew js_error

definition processRunExecutionData ::
  "nat \<Rightarrow> nat \<Rightarrow> ExecutionEnv \<Rightarrow> Workflow \<Rightarrow> (nat \<Rightarrow> Interrupt) \<Rightarrow> WorkflowExecute \<Rightarrow>
   RunResult res option" where
  "processRunExecutionData fuel k env w interrupts st =
     (let r = weRun st;
          st = st\<lparr>weStatus := StRunning\<rparr>;
          startNode = (case nodeExecutionStack r of [] \<Rightarrow> None | d # _ \<Rightarrow> Some (nodeName (execNode d)));
          pins = (case resultPinData r of None \<Rightarrow> [] | Some p \<Rightarrow> map_keys p)
      in case checkReadyForExecution k env w startNode (startDestinationNode r) pins of
           Inl e \<Rightarrow> Some (Inl e)
         | Inr (Some issues) \<Rightarrow> Some (Inl (ApplicationError ''WorkflowHasIssuesError''))
         | Inr None \<Rightarrow>
           (case resumeWaiting r of
              Inl e \<Rightarrow> Some (Inl e)
            | Inr r \<Rightarrow>
              (let st = st\<lparr>weRun := r\<rparr>;
                   st = (if restartExecution env then st else executeHook WorkflowExecuteBefore st)
               in map_option (\<lambda>loopEnd.
                    case loopEnd of
                      Inl e \<Rightarrow> Inr (LoopThrew e)
                    | Inr st' \<Rightarrow>
                        (case processSuccessExecution st'
                            (if weStatus st' = StCanceled \<and> executionError st' = None
                             then Some cancelMessage else executionError st') of
                           Inl e \<Rightarrow> Inr (LoopThrew e)
                         | Inr (run, st') \<Rightarrow> Inr (Completed run st')))
                  (executionLoop fuel k env w interrupts 0 st))))"


section \<open>Starting an execution\<close>

definition startItem :: "INode \<Rightarrow> IExecuteData" where
  "startItem node =
     \<lparr>execNode = node, execData = emptyItemData, execMetadata = None, execSource = None\<rparr>"

definition initialRunData ::
  "string option \<Rightarrow> string list option \<Rightarrow> IRunData \<Rightarrow> IPinData option \<Rightarrow> IExecuteData list \<Rightarrow>
   IWaitingForExecution \<Rightarrow> IWaitingForExecutionSource \<Rightarrow> IRunExecutionData" where
  "initialRunData destinationNode runNodeFilter rd pinData stack we ws =
     \<lparr>startDestinationNode = destinationNode, startRunNodeFilter = runNodeFilter,
      resultRunData = rd, resultPinData = pinData, resultError = None, lastNodeExecuted = None,
      nodeExecutionStack = stack, executionMetadata = [], waitingExecution = we,
      waitingExecutionSource = ws, waitTill = None\<rparr>"

text \<open>\<open>run\<close> up to the call of \<open>processRunExecutionData\<close>.\<close>

definition runWorkflow ::
  "nat \<Rightarrow> Workflow \<Rightarrow> INode option \<Rightarrow> string option \<Rightarrow> IPinData option \<Rightarrow> IRunExecutionData res" where
  "runWorkflow k w startNode destinationNode pinData =
     res_bind (case startNode of Some n \<Rightarrow> Inr (Some n) | None \<Rightarrow> getStartNode k w destinationNode)
       (\<lambda>start. case start of
          None \<Rightarrow> Inl (ApplicationError ''No node to start the workflow from could be found'')
        | Some node \<Rightarrow>
            res_bind (case destinationNode of
                Some n \<Rightarrow> if n = [] then Inr None
                  else res_bind (getParentNodes k w n (OfType Main) (-1)) (\<lambda>ns. Inr (Some (ns @ [n])))
              | None \<Rightarrow> Inr None)
              (\<lambda>runNodeFilter.
                 Inr (initialRunData destinationNode runNodeFilter [] pinData [startItem node] [] [])))"

record StartNodeData =
  startName :: string
  startSource :: "ISourceData option"

text \<open>\<open>runData[node]?.[runIndex]?.data?.[type]?.[index]\<close>.\<close>

definition recordedOutputOf ::
  "IRunData \<Rightarrow> string \<Rightarrow> nat \<Rightarrow> NodeConnectionType \<Rightarrow> nat \<Rightarrow> INodeExecutionData list slot" where
  "recordedOutputOf rd name runIndex type index =
     (case map_get rd name of None \<Rightarrow> Hole
      | Some runs \<Rightarrow> (case arr_get runs runIndex of None \<Rightarrow> Hole
        | Some t \<Rightarrow> (case taskData t of None \<Rightarrow> Hole
          | Some d \<Rightarrow> (case map_get d type of None \<Rightarrow> Hole
            | Some arr \<Rightarrow> (case arr_get arr index of None \<Rightarrow> Hole | Some x \<Rightarrow> x)))))"

text \<open>
  The loop over the incoming connections of a start node in \<open>runPartialWorkflow\<close>: the data of its
  inputs and their sources.
\<close>

definition startConnection ::
  "Workflow \<Rightarrow> IRunData \<Rightarrow> IPinData option \<Rightarrow> StartNodeData \<Rightarrow> IConnection \<Rightarrow>
   INodeExecutionData list list \<times> ISourceData list \<Rightarrow> INodeExecutionData list list \<times> ISourceData list"
  where
  "startConnection w rd pinData startNode c = (\<lambda>(incomingData, sources).
     let node = getNode w (connNode c);
         pinned = (case (node, pinData) of (Some n, Some p) \<Rightarrow> map_get p (nodeName n) | _ \<Rightarrow> None);
         sources' = sources @ [case startSource startNode of Some s \<Rightarrow> s
           | None \<Rightarrow> \<lparr>previousNode = connNode c, previousNodeOutput = None, previousNodeRun = None\<rparr>]
     in if (case node of None \<Rightarrow> False | Some n \<Rightarrow> disabled n = Some True) then (incomingData, sources)
        else (case pinned of
            Some items \<Rightarrow> (incomingData @ [items], sources')
          | None \<Rightarrow>
              if map_get rd (connNode c) = None then (incomingData, sources)
              else (case recordedOutputOf rd (connNode c) 0 (connType c) (connIndex c) of
                  Data items \<Rightarrow> (incomingData @ [items], sources')
                | _ \<Rightarrow> (incomingData, sources'))))"

text \<open>The body of the loop over the start nodes: the stack item of a start node.\<close>

definition startStackItem ::
  "Workflow \<Rightarrow> IRunData \<Rightarrow> IPinData option \<Rightarrow> StartNodeData \<Rightarrow> IExecuteData res" where
  "startStackItem w rd pinData startNode =
     (case getNode w (startName startNode) of
        None \<Rightarrow> Inl TypeError
      | Some node \<Rightarrow>
          (case map_get (connectionsByDestinationNode w) (startName startNode) of
             None \<Rightarrow> Inr (startItem node)
           | Some nc \<Rightarrow> (case map_get nc Main of
               None \<Rightarrow> Inl TypeError
             | Some arr \<Rightarrow>
                 (let (incomingData, sources) =
                        fold (startConnection w rd pinData startNode) (all_groups arr) ([], [])
                  in Inr \<lparr>execNode = node, execData = [(Main, map Data incomingData)],
                       execMetadata = None, execSource = Some [(Main, map Data sources)]\<rparr>))))"

text \<open>Filing the data of one connection of the destination node as waiting, in run 0.\<close>

definition pushWaiting ::
  "string \<Rightarrow> NodeConnectionType \<Rightarrow> 'a slot \<Rightarrow> 'a waiting \<Rightarrow> 'a waiting" where
  "pushWaiting name type v waiting =
     (let e = (case map_get (entriesOf waiting name) 0 of None \<Rightarrow> [] | Some e \<Rightarrow> e);
          arr = (case map_get e type of None \<Rightarrow> [] | Some a \<Rightarrow> a)
      in putEntry name 0 (map_put type (arr @ [v]) e) waiting)"

definition waitAtDestination ::
  "IRunData \<Rightarrow> string \<Rightarrow> IConnection \<Rightarrow> IWaitingForExecution \<times> IWaitingForExecutionSource \<Rightarrow>
   (IWaitingForExecution \<times> IWaitingForExecutionSource) res" where
  "waitAtDestination rd destinationNode c = (\<lambda>(we, ws).
     case map_get rd (connNode c) of
       None \<Rightarrow> Inr (pushWaiting destinationNode (connType c) Null we,
                   pushWaiting destinationNode (connType c) Null ws)
     | Some runs \<Rightarrow> (case arr_get runs 0 of None \<Rightarrow> Inl TypeError
       | Some t \<Rightarrow> (case taskData t of None \<Rightarrow> Inl TypeError
         | Some d \<Rightarrow> (case map_get d (connType c) of None \<Rightarrow> Inl TypeError
           | Some arr \<Rightarrow>
               Inr (pushWaiting destinationNode (connType c)
                      (case arr_get arr (connIndex c) of None \<Rightarrow> Hole | Some x \<Rightarrow> x) we,
                    pushWaiting destinationNode (connType c)
                      (Data (sourceOf (connNode c) (connIndex c) 0)) ws)))))"

definition destinationFilter :: "nat \<Rightarrow> Workflow \<Rightarrow> string \<Rightarrow> string list res" where
  "destinationFilter k w destinationNode =
     res_bind (getParentNodes k w destinationNode (OfType Main) (-1)) (\<lambda>ns.
       Inr (filter (\<lambda>n. case getNode w n of None \<Rightarrow> True | Some node \<Rightarrow> disabled node \<noteq> Some True) ns @
            [destinationNode]))"

definition startNodeStep ::
  "nat \<Rightarrow> Workflow \<Rightarrow> IRunData \<Rightarrow> IPinData option \<Rightarrow> string option \<Rightarrow> StartNodeData \<Rightarrow>
   IRunExecutionData \<Rightarrow> IRunExecutionData res" where
  "startNodeStep k w rd pinData destinationNode startNode r =
     res_bind (startStackItem w rd pinData startNode) (\<lambda>item.
       let r = r\<lparr>nodeExecutionStack := nodeExecutionStack r @ [item]\<rparr>
       in case destinationNode of
            None \<Rightarrow> Inr r
          | Some n \<Rightarrow>
              if n = [] then Inr r
              else res_bind (case map_get (connectionsByDestinationNode w) n of
                  None \<Rightarrow> Inr (waitingExecution r, waitingExecutionSource r)
                | Some nc \<Rightarrow> (case map_get nc Main of
                    None \<Rightarrow> Inl TypeError
                  | Some arr \<Rightarrow> res_fold (waitAtDestination rd n) (all_groups arr)
                      (waitingExecution r, waitingExecutionSource r)))
                (\<lambda>(we, ws). res_bind (destinationFilter k w n) (\<lambda>names.
                   Inr (r\<lparr>waitingExecution := we, waitingExecutionSource := ws,
                          startRunNodeFilter := Some names\<rparr>))))"

text \<open>\<open>runPartialWorkflow\<close> up to the call of \<open>processRunExecutionData\<close>.\<close>

definition runPartialWorkflow ::
  "nat \<Rightarrow> Workflow \<Rightarrow> IRunData \<Rightarrow> StartNodeData list \<Rightarrow> string option \<Rightarrow> IPinData option \<Rightarrow>
   IRunExecutionData res" where
  "runPartialWorkflow k w rd startNodes destinationNode pinData =
     res_fold (startNodeStep k w rd pinData destinationNode) startNodes
       (initialRunData destinationNode None rd pinData [] [] [])"

end
