(* ===== verification/Execution_Facts.thy ===== *)
theory Execution_Facts
  imports Execution_Loop
begin

text \<open>
  Facts about the execution of workflows: what the parts of an iteration leave unchanged, the
  invariants of the loop, and the tries of a node.
\<close>

section \<open>What the parts leave unchanged\<close>

text \<open>
  Parts that only touch the stack and the waiting area keep the recorded runs and the start data.
\<close>

definition same_record :: "IRunExecutionData \<Rightarrow> IRunExecutionData \<Rightarrow> bool" where
  "same_record r r' \<longleftrightarrow>
     resultRunData r' = resultRunData r \<and> startRunNodeFilter r' = startRunNodeFilter r \<and>
     startDestinationNode r' = startDestinationNode r"

named_theorems record_frame \<open>parts of an iteration that keep the recorded runs\<close>

lemma same_record_refl [simp]: "same_record r r"
  by (simp add: same_record_def)

lemma same_record_trans: "same_record r s \<Longrightarrow> same_record s t \<Longrightarrow> same_record r t"
  by (simp add: same_record_def)

lemma same_record_updates [simp]:
  "same_record r (r'\<lparr>nodeExecutionStack := x\<rparr>) = same_record r r'"
  "same_record r (r'\<lparr>waitingExecution := we\<rparr>) = same_record r r'"
  "same_record r (r'\<lparr>waitingExecutionSource := ws\<rparr>) = same_record r r'"
  "same_record r (r'\<lparr>lastNodeExecuted := l\<rparr>) = same_record r r'"
  "same_record r (r'\<lparr>resultPinData := p\<rparr>) = same_record r r'"
  "same_record r (r'\<lparr>waitTill := t\<rparr>) = same_record r r'"
  by (simp_all add: same_record_def)

text \<open>Adding forced nodes only changes the stack.\<close>

definition stack_only :: "IRunExecutionData \<Rightarrow> IRunExecutionData \<Rightarrow> bool" where
  "stack_only r r' \<longleftrightarrow> (\<exists>x. r' = r\<lparr>nodeExecutionStack := x\<rparr>)"

lemma stack_only_refl [simp]: "stack_only r r"
  unfolding stack_only_def by (rule exI [of _ "nodeExecutionStack r"]) simp

lemma stack_only_trans: "stack_only r s \<Longrightarrow> stack_only s t \<Longrightarrow> stack_only r t"
  by (auto simp: stack_only_def)

lemma stack_only_record [record_frame]: "stack_only r r' \<Longrightarrow> same_record r r'"
  by (auto simp: stack_only_def)

lemma enqueueItem_stack_only [simp]: "stack_only r (enqueueItem w item r)"
  unfolding stack_only_def enqueueItem_def by blast

lemma addForcedNode_stack_only [post_intros]:
  "stack_only r r' \<Longrightarrow> res_post (stack_only r) (addForcedNode w p out i n r')"
  unfolding addForcedNode_def
  by (intro post_intros) (auto split: option.split intro: stack_only_trans)

lemma forceInput_stack_only:
  "stack_only r r' \<Longrightarrow> res_post (stack_only r) (forceInput k w p outs d out i c r')"
  unfolding forceInput_def Let_def
  by (simp split: if_split option.split | intro conjI impI allI post_intros)+

lemma forceInputs_stack_only: "res_post (stack_only r) (forceInputs k w c p d out i r)"
  unfolding forceInputs_def by (intro post_intros res_post_fold) (auto intro: forceInput_stack_only)

lemma prepareWaiting_record [simp]: "same_record r (prepareWaitingToExecution n c i r') = same_record r r'"
  by (simp add: prepareWaitingToExecution_def)

lemma completeWaiting_record [post_intros]:
  "same_record r r' \<Longrightarrow> res_post (same_record r) (completeWaiting w n i r')"
  by (auto simp: completeWaiting_def enqueueItem_def Let_def split: option.split)

lemma keepWaiting_record [post_intros]:
  "same_record r r' \<Longrightarrow> res_post (same_record r) (keepWaiting n c i idx v s r')"
  unfolding keepWaiting_def Let_def by (intro post_intros) simp

lemma addToWaiting_record [post_intros]:
  "res_post (same_record r) (addToWaiting k w c out p d i n r)"
proof -
  have forced: "same_record r r2"
    if "(if b then Inr r1 else forceInputs k w c p d out i r1) = Inr r2" "same_record r r1" for b r1 r2
    using that res_postD [OF forceInputs_stack_only, of k w c p d out i r1 r2]
    by (auto split: if_splits intro: same_record_trans stack_only_record)
  show ?thesis
    unfolding addToWaiting_def Let_def
    by (intro post_intros) (auto split: if_split intro!: post_intros intro: forced)
qed

lemma addNodeToBeExecuted_record [post_intros]:
  "res_post (same_record r) (addNodeToBeExecuted k w c out p d i r)"
  unfolding addNodeToBeExecuted_def
  by (intro post_intros) (auto split: option.split intro: post_intros simp: enqueueItem_def)

lemma addFollowing_record [post_intros]:
  "same_record r r' \<Longrightarrow> res_post (same_record r) (addFollowing k w n d i x r')"
  unfolding addFollowing_def
  by (auto split: prod.split intro!: res_post_mono [OF addNodeToBeExecuted_record]
      intro: same_record_trans)

lemma addNextNodes_record [post_intros]:
  "res_post (same_record r) (addNextNodes k w n d i r)"
  unfolding addNextNodes_def Let_def
  by (auto split: option.split if_split intro!: post_intros res_post_fold
      res_post_mono [OF addNodeToBeExecuted_record] intro: same_record_trans)

lemma releaseEntry_record:
  "releaseEntry w node m n i main r = Inr s \<Longrightarrow>
   (case s of Skipped \<Rightarrow> True | Released r' \<Rightarrow> same_record r r' | Emptied r' \<Rightarrow> same_record r r')"
  by (auto simp: releaseEntry_def Let_def split: if_splits option.splits)

lemma checkWaitingNode_record:
  "checkWaitingNode k env w n r = Inr s \<Longrightarrow>
   (case s of Skipped \<Rightarrow> True | Released r' \<Rightarrow> same_record r r' | Emptied r' \<Rightarrow> same_record r r')"
  by (auto simp: checkWaitingNode_def Let_def res_simps dest: releaseEntry_record
      split: option.splits if_splits)

lemma scanWaiting_not_skipped:
  "scanWaiting check ns = Inr s \<Longrightarrow> s = Skipped \<or> (\<exists>n \<in> set ns. check n = Inr s)"
proof (induction ns)
  case (Cons n ns)
  then obtain x where "check n = Inr x" by (auto simp: res_simps)
  with Cons show ?case by (cases x) auto
qed simp

lemma releaseWaiting_record [post_intros]:
  "res_post (same_record r) (releaseWaiting k env w r)"
proof (induction k env w r rule: releaseWaiting.induct)
  case (1 k env w r)
  have step: "case s of Skipped \<Rightarrow> True | Released r' \<Rightarrow> same_record r r' | Emptied r' \<Rightarrow> same_record r r'"
    if "scanWaiting (\<lambda>name. checkWaitingNode k env w name r) (map_keys (waitingExecution r)) = Inr s" for s
    using scanWaiting_not_skipped [OF that] checkWaitingNode_record by (cases s) fastforce+
  show ?case
  proof (cases "scanWaiting (\<lambda>name. checkWaitingNode k env w name r) (map_keys (waitingExecution r))")
    case (Inl e)
    then show ?thesis by (simp add: releaseWaiting.simps [of k env w r])
  next
    case (Inr s)
    note s = step [OF Inr]
    show ?thesis
    proof (cases s)
      case (Emptied r')
      with s have "same_record r r'" by simp
      moreover have "res_post (same_record r') (releaseWaiting k env w r')"
        using 1 Inr Emptied by blast
      ultimately show ?thesis
        using Inr Emptied
        by (auto simp: releaseWaiting.simps [of k env w r] intro: same_record_trans
            elim!: res_post_mono)
    qed (use s Inr in \<open>simp_all add: releaseWaiting.simps [of k env w r]\<close>)
  qed
qed


section \<open>The tries\<close>

text \<open>The tries also leave the stack and the waiting area alone.\<close>

definition same_run :: "IRunExecutionData \<Rightarrow> IRunExecutionData \<Rightarrow> bool" where
  "same_run r r' \<longleftrightarrow> same_record r r' \<and> nodeExecutionStack r' = nodeExecutionStack r \<and>
     waitingExecution r' = waitingExecution r"

lemma same_run_record [record_frame]: "same_run r r' \<Longrightarrow> same_record r r'"
  by (simp add: same_run_def)

lemma same_run_refl [simp]: "same_run r r"
  by (simp add: same_run_def)

lemma same_run_trans: "same_run r s \<Longrightarrow> same_run s t \<Longrightarrow> same_run r t"
  by (auto simp: same_run_def intro: same_record_trans)

lemma same_run_updates [simp]:
  "same_run r (r'\<lparr>lastNodeExecuted := l\<rparr>) = same_run r r'"
  "same_run r (r'\<lparr>resultPinData := p\<rparr>) = same_run r r'"
  "same_run r (r'\<lparr>waitTill := t\<rparr>) = same_run r r'"
  by (simp_all add: same_run_def)

lemma storePinned_record [simp]: "same_record r (storePinned n out r') = same_record r r'"
  by (auto simp: storePinned_def split: slot.split list.split option.split)

lemma storePinned_record' [simp]: "same_record (storePinned n out r) r' = same_record r r'"
  by (auto simp: storePinned_def same_record_def split: slot.split list.split option.split)

lemma storePinned_queue [simp]:
  "nodeExecutionStack (storePinned n out r) = nodeExecutionStack r"
  "waitingExecution (storePinned n out r) = waitingExecution r"
  by (auto simp: storePinned_def split: slot.split list.split option.split)

lemma storePinned_same_run [simp]: "same_run r (storePinned n out r') = same_run r r'"
  by (simp add: same_run_def)

lemma storePinned_same_run' [simp]: "same_run (storePinned n out r) r' = same_run r r'"
  by (simp add: same_run_def)

text \<open>Running a node keeps all of this and calls the node at most once.\<close>

lemma callNode_frame:
  "callNode env node inp items r n = (x, r', n') \<Longrightarrow> same_run r r' \<and> n' = Suc n"
  by (auto simp: callNode_def Let_def split: option.splits)

lemma runNode_frame:
  "runNode env w d r n = (x, r', n') \<Longrightarrow> same_run r r' \<and> n \<le> n' \<and> n' \<le> Suc n"
  by (auto simp: runNode_def Let_def dest: callNode_frame
      split: option.splits if_splits slot.splits sum.splits)

lemma rerunNode_frame:
  "rerunNode env w d m c r n = (x, r', n') \<Longrightarrow> same_run r r' \<and> n \<le> n' \<and> n' \<le> n + m \<and>
   (\<forall>e j. x = Some (e, j) \<longrightarrow> c \<le> j \<and> j < c + m \<and> n' \<le> n + Suc (j - c))"
proof (induction m arbitrary: c r n)
  case (Suc m)
  obtain y r1 n1 where run: "runNode env w d r n = (y, r1, n1)" by (cases "runNode env w d r n")
  note frame = runNode_frame [OF run]
  show ?case
  proof (cases y)
    case (Inl e)
    with Suc.prems run frame show ?thesis by auto
  next
    case (Inr out)
    with Suc.prems run have "rerunNode env w d m (Suc c) r1 n1 = (x, r', n')" by simp
    from Suc.IH [OF this] frame show ?thesis by (fastforce intro: same_run_trans)
  qed
qed auto

lemma assignPairedItems_same_run:
  assumes "assignPairedItems out d r = Inr (out', r')"
  shows "same_run r r'"
proof -
  from assms obtain x where "(case x of Hole \<Rightarrow> (Null, r)
      | _ \<Rightarrow> (x, r\<lparr>lastNodeExecuted := Some (nodeName (execNode d))\<rparr>)) = (out', r')"
    unfolding assignPairedItems_def res_bind_Inr_iff by blast
  then show ?thesis by (cases x) auto
qed

lemma catchError_frame:
  "catchError d e used s = (t, s') \<Longrightarrow> same_run (tryRun s) (tryRun s') \<and> tryCalls s' = tryCalls s \<and>
   t = TryNext used \<and> tryError s' = Some e"
  by (auto simp: catchError_def)

lemma finishTry_frame:
  assumes "finishTry d used s = (t, s')"
  shows "same_run (tryRun s) (tryRun s') \<and> tryCalls s' = tryCalls s \<and>
    (\<forall>j. t = TryNext j \<longrightarrow> j = used)"
proof (cases "assignPairedItems (tryOutput s) d (tryRun s)")
  case (Inl e)
  with assms show ?thesis by (auto simp: finishTry_def dest: catchError_frame)
next
  case (Inr p)
  obtain out r where p: "p = (out, r)" by (cases p)
  from Inr p have "same_run (tryRun s) r" by (auto dest: assignPairedItems_same_run)
  moreover have "same_run r (tryRun s') \<and> tryCalls s' = tryCalls s \<and> (\<forall>j. t = TryNext j \<longrightarrow> j = used)"
    using assms Inr p
    by (auto simp: finishTry_def Let_def dest!: catchError_frame split: sum.splits if_splits)
  ultimately show ?thesis by (blast intro: same_run_trans)
qed

text \<open>
  A try that fails uses at least one try. It calls the node at most once for each try that it
  uses, and once more when a rerun throws, which leaves tries.
\<close>

lemma oneTry_frame:
  assumes "oneTry env w d m s = (t, s')"
  shows "same_run (tryRun s) (tryRun s') \<and> tryCalls s \<le> tryCalls s' \<and>
    tryCalls s' \<le> tryCalls s + Suc m \<and>
    (\<forall>j. t = TryNext j \<longrightarrow> 0 < j \<and> j \<le> Suc m \<and> tryCalls s' \<le> tryCalls s + Suc j)"
proof (cases "pinnedItems (tryRun s) (execNode d)")
  case (Some items)
  with assms have "finishTry d 1 (s\<lparr>tryError := None, tryOutput := Data [Data items]\<rparr>) = (t, s')"
    by (simp add: oneTry_def)
  from finishTry_frame [OF this] show ?thesis by auto
next
  case None
  obtain x r n where run: "runNode env w d (tryRun s) (tryCalls s) = (x, r, n)"
    by (cases "runNode env w d (tryRun s) (tryCalls s)")
  note frame = runNode_frame [OF run]
  show ?thesis
  proof (cases x)
    case (Inl e)
    with assms None run have "catchError d e 1 (s\<lparr>tryError := None, tryRun := r, tryCalls := n\<rparr>) = (t, s')"
      by (simp add: oneTry_def)
    from catchError_frame [OF this] frame show ?thesis by (auto intro: same_run_trans)
  next
    case (Inr out)
    define used where "used = (if didContinueOnFail out then Suc m else 1)"
    obtain failed r1 n1 where rer: "(if didContinueOnFail out then rerunNode env w d m 0 r n
        else (None, r, n)) = (failed, r1, n1)" by (cases "if didContinueOnFail out then rerunNode env w d m 0 r n
        else (None, r, n)")
    have rf: "same_run r r1 \<and> n \<le> n1 \<and> n1 \<le> n + (used - 1) \<and>
        (\<forall>e j. failed = Some (e, j) \<longrightarrow> j < used - 1 \<and> n1 \<le> n + Suc j)"
      using rer rerunNode_frame [of env w d m 0 r n failed r1 n1]
      by (auto simp: used_def split: if_splits)
    have us: "0 < used" "used \<le> Suc m" by (auto simp: used_def)
    define s1 where "s1 = s\<lparr>tryError := None, tryOutput := out, tryRun := r1, tryCalls := n1\<rparr>"
    have st: "oneTry env w d m s =
       (case failed of
          Some (e, completed) \<Rightarrow> catchError d e (Suc completed) s1
        | None \<Rightarrow> (case (out, onError (execNode d)) of
            (Data outs, Some continueErrorOutput) \<Rightarrow>
              (case handleNodeErrorOutput env w d outs of
                 Inl e \<Rightarrow> catchError d (error_message e) used s1
               | Inr outs \<Rightarrow> finishTry d used (s1\<lparr>tryOutput := Data outs\<rparr>))
          | _ \<Rightarrow> finishTry d used s1))"
      using None run Inr rer
      by (simp add: oneTry_def s1_def used_def Let_def split: option.split slot.split OnError.split sum.split)
    show ?thesis
    proof (cases failed)
      case (Some p)
      then obtain e j where "failed = Some (e, j)" by (cases p) auto
      with st assms have "catchError d e (Suc j) s1 = (t, s')" by simp
      from catchError_frame [OF this] frame rf us \<open>failed = Some (e, j)\<close> show ?thesis
        by (auto simp: s1_def intro: same_run_trans)
    next
      case None
      have fin: "same_run (tryRun s1) (tryRun s') \<and> tryCalls s' = tryCalls s1 \<and>
          (\<forall>j. t = TryNext j \<longrightarrow> j = used)"
        using assms unfolding st None
        by (auto dest!: finishTry_frame catchError_frame
            split: slot.splits option.splits OnError.splits sum.splits)
      with frame rf us show ?thesis by (auto simp: s1_def intro: same_run_trans)
    qed
  qed
qed

lemma runTries_frame:
  assumes "runTries k env w d m s = (b, s')"
  shows "same_run (tryRun s) (tryRun s') \<and> tryCalls s \<le> tryCalls s' \<and>
    tryCalls s' \<le> tryCalls s + (2 * m - 1)"
  using assms
proof (induction k arbitrary: m s)
  case (Suc k)
  show ?case
  proof (cases m)
    case (Suc m')
    obtain t s1 where one: "oneTry env w d m' s = (t, s1)" by (cases "oneTry env w d m' s")
    note frame = oneTry_frame [OF one]
    show ?thesis
    proof (cases t)
      case (TryNext j)
      with Suc.prems Suc one have "runTries k env w d (m - j) s1 = (b, s')" by simp
      from Suc.IH [OF this] have rest: "same_run (tryRun s1) (tryRun s')" "tryCalls s1 \<le> tryCalls s'"
        "tryCalls s' \<le> tryCalls s1 + (2 * (m - j) - 1)" by simp_all
      have j: "0 < j" "j \<le> m" "tryCalls s1 \<le> tryCalls s + Suc j" using frame TryNext Suc by auto
      have "tryCalls s' \<le> tryCalls s + (2 * m - 1)"
      proof (cases "j = m")
        case True
        then show ?thesis using rest(3) frame Suc by simp
      next
        case False
        then show ?thesis using rest(3) j by simp
      qed
      with rest frame show ?thesis by (auto intro: same_run_trans)
    qed (use Suc.prems Suc one frame in auto)
  qed (use Suc.prems in auto)
qed simp


section \<open>The recorded runs\<close>

text \<open>Runs are only appended, and only to nodes of the filter.\<close>

definition runs_of :: "IRunExecutionData \<Rightarrow> string \<Rightarrow> ITaskData list" where
  "runs_of r n = (case map_get (resultRunData r) n of None \<Rightarrow> [] | Some runs \<Rightarrow> runs)"

definition allowed :: "IRunExecutionData \<Rightarrow> string \<Rightarrow> bool" where
  "allowed r n \<longleftrightarrow> (case startRunNodeFilter r of None \<Rightarrow> True | Some names \<Rightarrow> n \<in> set names)"

definition grows :: "IRunExecutionData \<Rightarrow> IRunExecutionData \<Rightarrow> bool" where
  "grows r r' \<longleftrightarrow> startRunNodeFilter r' = startRunNodeFilter r \<and>
     startDestinationNode r' = startDestinationNode r \<and>
     (\<forall>n. \<exists>more. runs_of r' n = runs_of r n @ more \<and> (more \<noteq> [] \<longrightarrow> allowed r n))"

lemma grows_same: "same_record r r' \<Longrightarrow> grows r r'"
  by (auto simp: same_record_def grows_def runs_of_def)

lemma grows_trans: "grows r s \<Longrightarrow> grows s t \<Longrightarrow> grows r t"
  unfolding grows_def allowed_def by (metis append_assoc append_is_Nil_conv)

lemma grows_push:
  "same_record r r1 \<Longrightarrow> allowed r n \<Longrightarrow> grows r (pushTaskData n t r1)"
  by (auto simp: grows_def pushTaskData_def runs_of_def same_record_def split: option.split)

lemma grows_updates [simp]:
  "grows r (r'\<lparr>nodeExecutionStack := x\<rparr>) = grows r r'"
  by (simp add: grows_def runs_of_def)

lemma mergeErrors_Data: "mergeErrors out = Inr m \<Longrightarrow> \<exists>outs. m = Data outs"
  by (auto simp: mergeErrors_def res_simps split: slot.splits)

text \<open>The ways in which a node that has run ends an iteration.\<close>

lemma recordOutput_cases:
  assumes "recordOutput k env w d i t out st = Inr (x, st')"
  obtains (waits) t' m b where "x = Stop"
      "weRun st' = (pushTaskData (nodeName (execNode d)) t' (if b then storePinned (nodeName (execNode d)) m (weRun st) else weRun st))
        \<lparr>nodeExecutionStack := d # nodeExecutionStack (weRun st)\<rparr>"
    | (at_end) t' m b where "x = Continue"
      "weRun st' = pushTaskData (nodeName (execNode d)) t' (if b then storePinned (nodeName (execNode d)) m (weRun st) else weRun st)"
    | (goes_on) t' m b outs r c where "x = Continue"
      "addNextNodes k w (nodeName (execNode d)) outs i
        (pushTaskData (nodeName (execNode d)) t' (if b then storePinned (nodeName (execNode d)) m (weRun st) else weRun st)) = Inr r"
      "(if c then releaseWaiting k env w r else Inr r) = Inr (weRun st')"
proof -
  let ?name = "nodeName (execNode d)"
  from assms obtain outs where outs: "mergeErrors out = Inr (Data outs)"
    unfolding recordOutput_def Let_def res_bind_Inr_iff using mergeErrors_Data by blast
  define t' where "t' = t\<lparr>taskData := Some [(Main, outs)]\<rparr>"
  define b where "b = (pinnedItems (weRun st) (execNode d) \<noteq> None \<and> pinnedItems (weRun st) (execNode d) =
    slot_option (outputSlot (slot_option out) 0))"
  define r1 where "r1 = pushTaskData ?name t' (if b then storePinned ?name (Data outs) (weRun st) else weRun st)"
  have eq: "(if waitTill r1 \<noteq> None then Inr (Stop, (afterHook ?name st)\<lparr>weRun :=
          r1\<lparr>nodeExecutionStack := d # nodeExecutionStack r1\<rparr>\<rparr>)
      else if isDestination r1 ?name then Inr (Continue, (afterHook ?name st)\<lparr>weRun := r1\<rparr>)
      else res_bind (addNextNodes k w ?name outs i r1) (\<lambda>r.
        res_bind (if nodeExecutionStack r = [] \<and> waitingExecution r \<noteq> []
                  then releaseWaiting k env w r else Inr r)
          (\<lambda>r. Inr (Continue, (afterHook ?name st)\<lparr>weRun := r\<rparr>)))) = Inr (x, st')"
    using assms unfolding recordOutput_def Let_def outs r1_def t'_def b_def by simp
  have stack: "nodeExecutionStack r1 = nodeExecutionStack (weRun st)" by (simp add: r1_def pushTaskData_def)
  consider "waitTill r1 \<noteq> None" | "waitTill r1 = None" "isDestination r1 ?name"
    | "waitTill r1 = None" "\<not> isDestination r1 ?name" by blast
  then show ?thesis
  proof cases
    case 1
    then show ?thesis using eq waits [of t' b "Data outs"] unfolding r1_def [symmetric] stack [symmetric] by auto
  next
    case 2
    then show ?thesis using eq at_end [of t' b "Data outs"] unfolding r1_def [symmetric] by auto
  next
    case 3
    then obtain r c where "addNextNodes k w ?name outs i r1 = Inr r" "x = Continue"
      "(if c then releaseWaiting k env w r else Inr r) = Inr (weRun st')"
      using eq by (auto simp: res_bind_Inr_iff)
    then show ?thesis using goes_on [of outs t' b "Data outs" r c] unfolding r1_def [symmetric] by blast
  qed
qed

lemma runItem_cases:
  assumes "runItem k env w d i st = Inr (x, st')"
  obtains (skipped) "x = Continue" "same_run (weRun st) (weRun st')"
    | (ran) t out st1 where "same_run (weRun st) (weRun st1)" "recordOutput k env w d i t out st1 = Inr (x, st')"
    | (failed) t st1 where "x = Stop" "same_run (weRun st) (weRun st1)" "st' = stopWithError d t st1"
proof -
  obtain skip s where tries: "runTries (nat (triesOf (execNode d))) env w d (nat (triesOf (execNode d)))
      \<lparr>tryRun = weRun st, tryCalls = weCalls st, tryOutput = Null, tryError = None\<rparr> = (skip, s)"
    by (metis surj_pair)
  define st1 where "st1 = st\<lparr>weRun := tryRun s, weCalls := tryCalls s, executionError := tryError s\<rparr>"
  have same: "same_run (weRun st) (weRun st1)" using runTries_frame [OF tries] by (simp add: st1_def)
  have eq: "runItem k env w d i st = (if skip then Inr (Continue, st1)
      else (case tryError s of
          None \<Rightarrow> recordOutput k env w d i (newTaskData d (weRun st1)) (tryOutput s) st1
        | Some e \<Rightarrow> if continuesOnFail (execNode d)
            then recordOutput k env w d i ((newTaskData d (weRun st1))\<lparr>taskError := Some e,
                taskStatus := Some StError\<rparr>) (failedOutput d (tryOutput s)) st1
            else Inr (Stop, stopWithError d ((newTaskData d (weRun st1))\<lparr>taskError := Some e,
                taskStatus := Some StError\<rparr>) st1)))"
    by (simp add: runItem_def tries st1_def Let_def split: option.split)
  show ?thesis using assms same skipped ran failed unfolding eq by (auto split: if_splits option.splits)
qed

lemma recordOutput_grows:
  assumes "allowed (weRun st) (nodeName (execNode d))"
  shows "res_post (\<lambda>(x, st'). grows (weRun st) (weRun st')) (recordOutput k env w d i t out st)"
proof (rule res_postI, clarify)
  have pushed: "grows (weRun st) (pushTaskData (nodeName (execNode d)) t (if b then storePinned (nodeName (execNode d)) m (weRun st) else weRun st))"
    for b m t by (rule grows_push [OF _ assms]) simp
  fix x st' assume "recordOutput k env w d i t out st = Inr (x, st')"
  then show "grows (weRun st) (weRun st')"
  proof (cases rule: recordOutput_cases)
    case (goes_on t' m b outs r c)
    have "same_record (pushTaskData (nodeName (execNode d)) t' (if b then storePinned (nodeName (execNode d)) m (weRun st) else weRun st)) r"
      by (rule res_postD [OF addNextNodes_record goes_on(2)])
    moreover have "same_record r (weRun st')"
      using goes_on(3) res_postD [OF releaseWaiting_record, of k env w r "weRun st'"] by (auto split: if_splits)
    ultimately show ?thesis using pushed by (blast intro: grows_trans grows_same same_record_trans)
  qed (use pushed in simp_all)
qed

lemma runItem_grows:
  assumes "allowed (weRun st) (nodeName (execNode d))"
  shows "res_post (\<lambda>(x, st'). grows (weRun st) (weRun st')) (runItem k env w d i st)"
proof (rule res_postI, clarify)
  have ok: "allowed (weRun st1) (nodeName (execNode d))" "grows (weRun st) (weRun st1)" if "same_run (weRun st) (weRun st1)" for st1
    using assms same_run_record [OF that] by (auto simp: allowed_def same_record_def intro: grows_same)
  fix x st' assume "runItem k env w d i st = Inr (x, st')"
  then show "grows (weRun st) (weRun st')"
  proof (cases rule: runItem_cases)
    case skipped
    then show ?thesis by (auto intro: grows_same same_run_record)
  next
    case (ran t out st1)
    then show ?thesis using res_postD [OF recordOutput_grows [OF ok(1)] ran(2)] ok(2) [OF ran(1)] by (auto intro: grows_trans)
  next
    case (failed t st1)
    have "weRun st' = (pushTaskData (nodeName (execNode d)) t (weRun st1))
        \<lparr>nodeExecutionStack := d # nodeExecutionStack (pushTaskData (nodeName (execNode d)) t (weRun st1))\<rparr>"
      by (simp add: failed(3) stopWithError_def afterHook_def executeHook_def Let_def)
    then show ?thesis using grows_push [OF same_record_refl ok(1) [OF failed(2)], of t] ok(2) [OF failed(2)]
      by (simp add: grows_trans)
  qed
qed

lemma processItem_grows:
  "res_post (\<lambda>(x, st'). grows (weRun st) (weRun st')) (processItem k env w d st)"
proof -
  have refl: "grows r r" for r by (rule grows_same) simp
  define st1 where "st1 = executeHook (NodeExecuteBefore (nodeName (execNode d))) (st\<lparr>executionError := None\<rparr>)"
  define d1 where "d1 = d\<lparr>execData := pairInputs (execData d)\<rparr>"
  have st1: "weRun st1 = weRun st" by (simp add: st1_def executeHook_def)
  have node: "execNode d1 = execNode d" by (simp add: d1_def)
  have "res_post (\<lambda>(x, st'). grows (weRun st) (weRun st')) (runItem k env w d1 i st1)"
    if "\<not> (case startRunNodeFilter (weRun st) of None \<Rightarrow> False | Some names \<Rightarrow> nodeName (execNode d) \<notin> set names)" for i
    using runItem_grows [of st1 d1 k env w i] that st1 node by (auto simp: allowed_def split: option.splits)
  then show ?thesis
    unfolding processItem_def Let_def d1_def [symmetric] node st1_def [symmetric] st1
    by (auto intro!: post_intros simp: refl st1)
qed

lemma interrupted_run [simp]: "weRun (interrupted i st) = weRun st"
  by (cases i) (simp_all add: interrupted_def cancelExecution_def executeHook_def)

lemma executionLoop_grows:
  "executionLoop fuel k env w interrupts i st = Some (Inr st') \<Longrightarrow> grows (weRun st) (weRun st')"
proof (induction fuel arbitrary: i st)
  case 0
  then show ?case by (auto split: if_splits intro: grows_same)
next
  case (Suc fuel)
  show ?case
  proof (cases "nodeExecutionStack (weRun st)")
    case Nil
    with Suc.prems show ?thesis by (auto intro: grows_same)
  next
    case (Cons item items)
    define st1 where "st1 = (interrupted (interrupts i) st)
      \<lparr>weRun := (weRun st)\<lparr>nodeExecutionStack := items\<rparr>\<rparr>"
    have st1: "grows (weRun st) (weRun st1)" by (simp add: st1_def grows_same)
    show ?thesis
    proof (cases "weStatus (interrupted (interrupts i) st) = StCanceled")
      case True
      with Suc.prems Cons show ?thesis by (auto intro: grows_same)
    next
      case False
      with Suc.prems Cons obtain x st2 where p: "processItem k env w item st1 = Inr (x, st2)"
        by (auto simp: st1_def Let_def split: sum.splits)
      have g: "grows (weRun st) (weRun st2)"
        using res_postD [OF processItem_grows p] st1 by (auto intro: grows_trans)
      show ?thesis
      proof (cases x)
        case Continue
        with Suc.prems Cons False p have "executionLoop fuel k env w interrupts (Suc i) st2 = Some (Inr st')"
          by (simp add: st1_def Let_def)
        from Suc.IH [OF this] g show ?thesis by (blast intro: grows_trans)
      next
        case Stop
        with Suc.prems Cons False p g show ?thesis by (simp add: st1_def Let_def)
      qed
    qed
  qed
qed

text \<open>More fuel does not change a result.\<close>

lemma executionLoop_fuel:
  "executionLoop fuel k env w interrupts i st = Some x \<Longrightarrow> fuel \<le> fuel' \<Longrightarrow>
   executionLoop fuel' k env w interrupts i st = Some x"
proof (induction fuel arbitrary: fuel' i st)
  case 0
  then show ?case by (cases fuel') (auto split: if_splits)
next
  case (Suc fuel)
  then obtain fuel1 where fuel1: "fuel' = Suc fuel1" "fuel \<le> fuel1" by (cases fuel') auto
  with Suc show ?case
    by (auto simp: Let_def split: list.splits if_splits sum.splits prod.splits IterationEnd.splits)
qed

end
