(* ===== verification/Waiting_Facts.thy ===== *)
theory Waiting_Facts
  imports Execution_Facts
begin

text \<open>
  Facts about the waiting area: the entries of a node have one cell per input, and a node with
  several inputs reaches the execution stack exactly when the cells of an entry are filled.
\<close>


section \<open>Well-formed waiting areas\<close>

text \<open>An entry with \<open>n\<close> cells, each of which has data or \<open>null\<close>.\<close>

definition cells_ok :: "nat \<Rightarrow> 'a slot list \<Rightarrow> bool" where
  "cells_ok n main \<longleftrightarrow> length main = n \<and> Hole \<notin> set main"

definition waiting_ok :: "Workflow \<Rightarrow> IRunExecutionData \<Rightarrow> bool" where
  "waiting_ok w r \<longleftrightarrow>
     (\<forall>name m. map_get (waitingExecution r) name = Some m \<longrightarrow> distinct (map_keys m) \<and>
        (\<exists>ins. mainConnections (connectionsByDestinationNode w) name = Inr ins \<and>
          (\<forall>i e. map_get m i = Some e \<longrightarrow>
             (\<exists>main. e = [(Main, main)] \<and> cells_ok (length ins) main \<and> Null \<in> set main) \<and>
             (\<exists>sources. map_get (entriesOf (waitingExecutionSource r) name) i = Some [(Main, sources)]))))"

lemma entriesOf_put [simp]:
  "entriesOf (map_put n m w) n' = (if n' = n then m else entriesOf w n')"
  by (simp add: entriesOf_def)

lemma entriesOf_putEntry [simp]:
  "entriesOf (putEntry n i e w) n' = (if n' = n then map_put i e (entriesOf w n) else entriesOf w n')"
  by (simp add: putEntry_def)

lemma entriesOf_del [simp]:
  "entriesOf (map_del n w) n' = (if n' = n then [] else entriesOf w n')"
  by (simp add: entriesOf_def)

lemma entriesOf_deleteEntry [simp]:
  "entriesOf (deleteEntry n i w) n' = (if n' = n then map_del i (entriesOf w n) else entriesOf w n')"
  by (simp add: deleteEntry_def)

text \<open>The same in terms of the entries.\<close>

lemma waiting_ok_entries:
  "waiting_ok w r \<longleftrightarrow>
     (\<forall>name. map_get (waitingExecution r) name \<noteq> None \<longrightarrow>
        distinct (map_keys (entriesOf (waitingExecution r) name)) \<and>
        (\<exists>ins. mainConnections (connectionsByDestinationNode w) name = Inr ins \<and>
          (\<forall>i e. map_get (entriesOf (waitingExecution r) name) i = Some e \<longrightarrow>
             (\<exists>main. e = [(Main, main)] \<and> cells_ok (length ins) main \<and> Null \<in> set main) \<and>
             (\<exists>sources. map_get (entriesOf (waitingExecutionSource r) name) i = Some [(Main, sources)]))))"
  by (auto simp: waiting_ok_def entriesOf_def split: option.splits)

lemma waiting_okD:
  assumes "waiting_ok w r" and e: "map_get (entriesOf (waitingExecution r) name) i = Some e"
    and "mainConnections (connectionsByDestinationNode w) name = Inr ins"
  obtains main sources where "e = [(Main, main)]" "cells_ok (length ins) main" "Null \<in> set main"
    "map_get (entriesOf (waitingExecutionSource r) name) i = Some [(Main, sources)]"
proof -
  from e have "map_get (waitingExecution r) name \<noteq> None"
    by (auto simp: entriesOf_def split: option.splits)
  with assms(1) obtain ins' where ins': "mainConnections (connectionsByDestinationNode w) name = Inr ins'"
    and all: "\<And>i e. map_get (entriesOf (waitingExecution r) name) i = Some e \<Longrightarrow>
      (\<exists>main. e = [(Main, main)] \<and> cells_ok (length ins') main \<and> Null \<in> set main) \<and>
      (\<exists>sources. map_get (entriesOf (waitingExecutionSource r) name) i = Some [(Main, sources)])"
    unfolding waiting_ok_entries by blast
  from ins' assms(3) have "ins' = ins" by simp
  with all [OF e] that show ?thesis by blast
qed

lemma waiting_ok_stack [simp]:
  "waiting_ok w (r\<lparr>nodeExecutionStack := x\<rparr>) = waiting_ok w r"
  by (simp add: waiting_ok_def)

text \<open>The search for an open entry.\<close>

definition lacks :: "nat \<Rightarrow> (NodeConnectionType, 'a slot list) js_map \<Rightarrow> bool" where
  "lacks index e \<longleftrightarrow>
     (\<exists>main. map_get e Main = Some main \<and> \<not> (\<exists>x. arr_get main index = Some (Data x)))"

lemma findOpenEntry_Cons:
  "map_get e Main \<noteq> None \<Longrightarrow>
   findOpenEntry index ((i, e) # es) = (if lacks index e then Inr (Some i) else findOpenEntry index es)"
  by (auto simp: lacks_def split: option.split slot.split)

lemma findOpenEntry_Some:
  "(\<And>j e. (j, e) \<in> set es \<Longrightarrow> map_get e Main \<noteq> None) \<Longrightarrow>
   findOpenEntry index es = Inr (Some i) \<Longrightarrow> \<exists>e. (i, e) \<in> set es \<and> lacks index e"
proof (induction es)
  case (Cons p es)
  obtain j e where p: "p = (j, e)" by (cases p)
  have e: "map_get e Main \<noteq> None" by (rule Cons.prems(1) [of j]) (simp add: p)
  have IH: "findOpenEntry index es = Inr (Some i) \<Longrightarrow> \<exists>e. (i, e) \<in> set es \<and> lacks index e"
    by (rule Cons.IH, rule Cons.prems(1)) auto
  show ?case
    using Cons.prems(2) IH unfolding p findOpenEntry_Cons [OF e] by (auto split: if_splits)
qed simp

lemma findOpenEntry_total:
  "(\<And>j e. (j, e) \<in> set es \<Longrightarrow> map_get e Main \<noteq> None) \<Longrightarrow> \<exists>found. findOpenEntry index es = Inr found"
proof (induction es)
  case (Cons p es)
  obtain j e where p: "p = (j, e)" by (cases p)
  have e: "map_get e Main \<noteq> None" by (rule Cons.prems [of j]) (simp add: p)
  have "\<exists>found. findOpenEntry index es = Inr found"
    by (rule Cons.IH, rule Cons.prems) auto
  then show ?case unfolding p findOpenEntry_Cons [OF e] by auto
qed simp

lemma map_get_sort_key: "distinct (map_keys m) \<Longrightarrow> (i, e) \<in> set (sort_key fst m) \<longleftrightarrow> map_get m i = Some e"
  by (simp add: map_get_iff)

lemma arr_put_inside: "i < length xs \<Longrightarrow> arr_put h xs i v = xs[i := v]"
  by (simp add: arr_put_def)

lemma cells_ok_put: "cells_ok n main \<Longrightarrow> i < n \<Longrightarrow> v \<noteq> Hole \<Longrightarrow> cells_ok n (main[i := v])"
  by (auto simp: cells_ok_def dest!: subsetD [OF set_update_subset_insert])

lemma cells_ok_Null [simp]: "cells_ok n (replicate n Null)"
  by (simp add: cells_ok_def)


section \<open>Nodes that are not forced\<close>

text \<open>No recorded output is \<open>null\<close>, and the nodes after a node have inputs.\<close>

definition no_null_record :: "IRunData \<Rightarrow> bool" where
  "no_null_record rd \<longleftrightarrow> (\<forall>n i j. recordedOutput rd n i j \<noteq> Null)"

lemma incomingConnectionIsEmpty_total:
  "no_null_record rd \<Longrightarrow> \<exists>b. incomingConnectionIsEmpty rd i cs = Inr b"
  by (induction cs) (auto simp: no_null_record_def split: slot.split)

definition outputs_ok :: "Workflow \<Rightarrow> string \<Rightarrow> bool" where
  "outputs_ok w name \<longleftrightarrow>
     (\<exists>outs. mainConnections (connectionsBySourceNode w) name = Inr outs \<and>
       (\<forall>c \<in> set (all_groups outs).
          \<exists>ins. mainConnections (connectionsByDestinationNode w) (connNode c) = Inr ins))"

lemma forceInputs_v1:
  assumes v1: "isV1 w" and outs: "outputs_ok w parent" and rec: "no_null_record (resultRunData r)"
    and ins: "mainConnections (connectionsByDestinationNode w) (connNode c) = Inr ins"
  shows "forceInputs k w c parent d out i r = Inr r"
proof -
  obtain os where os: "mainConnections (connectionsBySourceNode w) parent = Inr os"
    "\<And>c. c \<in> set (all_groups os) \<Longrightarrow>
       \<exists>ins. mainConnections (connectionsByDestinationNode w) (connNode c) = Inr ins"
    using outs by (auto simp: outputs_ok_def)
  have "forceInput k w parent (map connNode (all_groups os)) d out i c' r = Inr r" for c'
  proof -
    have "\<exists>b. (if connNode c' \<in> set (map connNode (all_groups os))
        then res_bind (mainConnections (connectionsByDestinationNode w) (connNode c'))
            (\<lambda>arr. res_bind (incomingConnectionIsEmpty (resultRunData r) i (firstGroup arr))
              (\<lambda>empty. Inr (\<not> empty)))
        else Inr False) = Inr b"
      using os(2) incomingConnectionIsEmpty_total [OF rec] by (fastforce simp: res_bind_Inr_iff)
    then show ?thesis using v1 by (auto simp: forceInput_def Let_def forceInputNodeExecution_def)
  qed
  then have "res_fold (forceInput k w parent (map connNode (all_groups os)) d out i) cs r = Inr r" for cs
    by (induction cs) simp_all
  then show ?thesis by (simp add: forceInputs_def os(1) ins)
qed


section \<open>Adding data to a node that waits\<close>

text \<open>
  The entry that receives the data: the first that lacks it, or a new one at the index that is
  the number of entries.
\<close>

definition chosen_entry ::
  "Workflow \<Rightarrow> IRunExecutionData \<Rightarrow> string \<Rightarrow> nat \<Rightarrow> nat \<Rightarrow> nat \<Rightarrow> INodeExecutionData list slot list \<Rightarrow> bool"
  where
  "chosen_entry w r name n index i prev \<longleftrightarrow>
     (let entries = entriesOf (waitingExecution r) name in
      (findOpenEntry index (sort_key fst entries) = Inr (Some i) \<and>
         map_get entries i = Some [(Main, prev)]) \<or>
      (findOpenEntry index (sort_key fst entries) = Inr None \<and> i = length entries \<and>
         prev = replicate n Null))"

text \<open>The area after the data was written: an entry that is not complete yet.\<close>

definition entry_written ::
  "Workflow \<Rightarrow> IRunExecutionData \<Rightarrow> string \<Rightarrow> nat \<Rightarrow> INodeExecutionData list slot list \<Rightarrow>
   IRunExecutionData \<Rightarrow> bool" where
  "entry_written w r name i main r' \<longleftrightarrow>
     map_get (waitingExecution r') name \<noteq> None \<and>
     distinct (map_keys (entriesOf (waitingExecution r') name)) \<and>
     map_get (entriesOf (waitingExecution r') name) i = Some [(Main, main)] \<and>
     (\<exists>sources. map_get (entriesOf (waitingExecutionSource r') name) i = Some [(Main, sources)]) \<and>
     (\<forall>j. j \<noteq> i \<longrightarrow> map_get (entriesOf (waitingExecution r') name) j = map_get (entriesOf (waitingExecution r) name) j \<and>
        (map_get (entriesOf (waitingExecution r) name) j \<noteq> None \<longrightarrow>
           map_get (entriesOf (waitingExecutionSource r') name) j = map_get (entriesOf (waitingExecutionSource r) name) j)) \<and>
     (\<forall>m. m \<noteq> name \<longrightarrow> map_get (waitingExecution r') m = map_get (waitingExecution r) m \<and>
        map_get (waitingExecutionSource r') m = map_get (waitingExecutionSource r) m)"

lemma entry_written_ok:
  assumes ok: "waiting_ok w r" and new: "entry_written w r name i main r'"
    and ins: "mainConnections (connectionsByDestinationNode w) name = Inr ins"
    and main: "cells_ok (length ins) main" "Null \<in> set main"
  shows "waiting_ok w r'"
  unfolding waiting_ok_entries
proof (intro allI impI)
  fix m assume m: "map_get (waitingExecution r') m \<noteq> None"
  show "distinct (map_keys (entriesOf (waitingExecution r') m)) \<and>
    (\<exists>ins. mainConnections (connectionsByDestinationNode w) m = Inr ins \<and>
      (\<forall>i e. map_get (entriesOf (waitingExecution r') m) i = Some e \<longrightarrow>
         (\<exists>main. e = [(Main, main)] \<and> cells_ok (length ins) main \<and> Null \<in> set main) \<and>
         (\<exists>sources. map_get (entriesOf (waitingExecutionSource r') m) i = Some [(Main, sources)])))"
  proof (cases "m = name")
    case False
    then have "map_get (waitingExecution r') m = map_get (waitingExecution r) m"
      "map_get (waitingExecutionSource r') m = map_get (waitingExecutionSource r) m"
      using new unfolding entry_written_def by blast+
    then have "map_get (waitingExecution r) m \<noteq> None"
      "entriesOf (waitingExecution r') m = entriesOf (waitingExecution r) m"
      "entriesOf (waitingExecutionSource r') m = entriesOf (waitingExecutionSource r) m"
      using m by (simp_all add: entriesOf_def)
    then show ?thesis using ok unfolding waiting_ok_entries by metis
  next
    case True
    have "(\<exists>main. e = [(Main, main)] \<and> cells_ok (length ins) main \<and> Null \<in> set main) \<and>
        (\<exists>sources. map_get (entriesOf (waitingExecutionSource r') name) j = Some [(Main, sources)])"
      if e: "map_get (entriesOf (waitingExecution r') name) j = Some e" for j e
    proof (cases "j = i")
      case True
      with e new main show ?thesis unfolding entry_written_def by auto
    next
      case False
      then have "map_get (entriesOf (waitingExecution r) name) j = Some e"
        "map_get (entriesOf (waitingExecutionSource r') name) j = map_get (entriesOf (waitingExecutionSource r) name) j"
        using e new unfolding entry_written_def by (metis option.distinct(1))+
      with waiting_okD [OF ok this(1) ins] show ?thesis by metis
    qed
    with True ins new show ?thesis unfolding entry_written_def by blast
  qed
qed

text \<open>An area with fewer entries.\<close>

lemma waiting_ok_fewer:
  assumes ok: "waiting_ok w r"
    and dom: "\<And>m. map_get (waitingExecution r') m \<noteq> None \<Longrightarrow> map_get (waitingExecution r) m \<noteq> None"
    and dist: "\<And>m. distinct (map_keys (entriesOf (waitingExecution r') m))"
    and sub: "\<And>m j e. map_get (entriesOf (waitingExecution r') m) j = Some e \<Longrightarrow>
      map_get (entriesOf (waitingExecution r) m) j = Some e \<and>
      map_get (entriesOf (waitingExecutionSource r') m) j = map_get (entriesOf (waitingExecutionSource r) m) j"
  shows "waiting_ok w r'"
  unfolding waiting_ok_entries
proof (intro allI impI conjI dist)
  fix m assume "map_get (waitingExecution r') m \<noteq> None"
  with ok dom obtain ins where ins: "mainConnections (connectionsByDestinationNode w) m = Inr ins"
    unfolding waiting_ok_entries by blast
  have "(\<exists>main. e = [(Main, main)] \<and> cells_ok (length ins) main \<and> Null \<in> set main) \<and>
      (\<exists>sources. map_get (entriesOf (waitingExecutionSource r') m) j = Some [(Main, sources)])"
    if e: "map_get (entriesOf (waitingExecution r') m) j = Some e" for j e
  proof -
    obtain main sources where "e = [(Main, main)]" "cells_ok (length ins) main" "Null \<in> set main"
      "map_get (entriesOf (waitingExecutionSource r) m) j = Some [(Main, sources)]"
      by (rule waiting_okD [OF ok conjunct1 [OF sub [OF e]] ins])
    with sub [OF e] show ?thesis by simp
  qed
  with ins show "\<exists>ins. mainConnections (connectionsByDestinationNode w) m = Inr ins \<and>
      (\<forall>i e. map_get (entriesOf (waitingExecution r') m) i = Some e \<longrightarrow>
        (\<exists>main. e = [(Main, main)] \<and> cells_ok (length ins) main \<and> Null \<in> set main) \<and>
        (\<exists>sources. map_get (entriesOf (waitingExecutionSource r') m) i = Some [(Main, sources)]))" by blast
qed

lemma keepWaiting_written:
  assumes "entry_written w r name i main r1" and "index < length main"
  shows "\<exists>r2. keepWaiting name n i index (main ! index) source r1 = Inr r2 \<and>
    entry_written w r name i main r2 \<and> nodeExecutionStack r2 = nodeExecutionStack r1"
proof -
  have e: "map_get (waitingExecution r1) name \<noteq> None"
    "map_get (entriesOf (waitingExecution r1) name) i = Some [(Main, main)]"
    using assms(1) by (simp_all add: entry_written_def)
  then have main: "entryMain (waitingExecution r1) name i = Inr main"
    by (auto simp: entryMain_def entriesOf_def)
  have same: "arr_put Hole main index (main ! index) = main"
    using assms(2) by (simp add: arr_put_inside)
  define r2 where "r2 = r1\<lparr>
      waitingExecution := putEntry name i [(Main, main)]
        (putEntry name i [(Main, replicate n Null)] (waitingExecution r1)),
      waitingExecutionSource := putEntry name i
        (map_put Main (arr_put Hole (replicate n Null) index (Data source)) [(Main, replicate n Null)])
        (putEntry name i [(Main, replicate n Null)] (waitingExecutionSource r1))\<rparr>"
  have "keepWaiting name n i index (main ! index) source r1 = Inr r2"
    unfolding keepWaiting_def main by (simp add: same prepareWaitingToExecution_def putCell_def r2_def)
  moreover have "entry_written w r name i main r2"
    using assms(1) unfolding entry_written_def r2_def by (auto simp: putEntry_def)
  ultimately show ?thesis by (auto simp: r2_def)
qed

lemma waiting_ok_distinct: "waiting_ok w r \<Longrightarrow> distinct (map_keys (entriesOf (waitingExecution r) n))"
  by (cases "map_get (waitingExecution r) n") (auto simp: waiting_ok_def entriesOf_def)

lemma chosen_entry_ex:
  assumes ok: "waiting_ok w r" and ins: "mainConnections (connectionsByDestinationNode w) n = Inr ins"
  shows "\<exists>i prev. chosen_entry w r n (length ins) index i prev"
proof -
  let ?es = "entriesOf (waitingExecution r) n"
  have mem: "(j, e) \<in> set (sort_key fst ?es) \<longleftrightarrow> map_get ?es j = Some e" for j e
    by (rule map_get_sort_key [OF waiting_ok_distinct [OF ok]])
  have ne: "map_get e Main \<noteq> None" if e: "(j, e) \<in> set (sort_key fst ?es)" for j e
  proof -
    obtain main where "e = [(Main, main)]" by (rule waiting_okD [OF ok e [unfolded mem] ins])
    then show ?thesis by simp
  qed
  obtain found where found: "findOpenEntry index (sort_key fst ?es) = Inr found"
    using findOpenEntry_total [of "sort_key fst ?es" index] ne by blast
  show ?thesis
  proof (cases found)
    case None
    with found show ?thesis by (auto simp: chosen_entry_def Let_def)
  next
    case (Some i)
    then obtain e where e: "map_get ?es i = Some e"
      using findOpenEntry_Some [of "sort_key fst ?es" index i] ne found unfolding mem by blast
    moreover obtain main where "e = [(Main, main)]" by (rule waiting_okD [OF ok e ins])
    ultimately show ?thesis
      using found Some unfolding chosen_entry_def Let_def by blast
  qed
qed

lemma chosen_entry_cells:
  assumes "chosen_entry w r n (length ins) index i prev" and "waiting_ok w r"
    and "mainConnections (connectionsByDestinationNode w) n = Inr ins"
  shows "cells_ok (length ins) prev"
proof (cases "map_get (entriesOf (waitingExecution r) n) i = Some [(Main, prev)]")
  case True
  from waiting_okD [OF assms(2) this assms(3)] show ?thesis by auto
next
  case False
  with assms(1) show ?thesis unfolding chosen_entry_def Let_def by auto
qed

text \<open>The first half of \<open>addToWaiting\<close>: the cell is written.\<close>

lemma addToWaiting_write:
  fixes r :: IRunExecutionData and c :: IConnection
  defines "name \<equiv> connNode c" and "index \<equiv> connIndex c"
  assumes ok: "waiting_ok w r" and ins: "mainConnections (connectionsByDestinationNode w) name = Inr ins"
    and index: "index < length ins" and cell: "outputSlot d out = Data items"
    and chosen: "chosen_entry w r name (length ins) index i prev"
  shows "\<exists>r1. entry_written w r name i (prev[index := Data items]) r1 \<and>
    nodeExecutionStack r1 = nodeExecutionStack r \<and> resultRunData r1 = resultRunData r \<and>
    addToWaiting k w c out p d ri (length ins) r =
      (if Null \<notin> set (prev[index := Data items]) then completeWaiting w name i r1
       else res_bind (if map_get (waitingExecution r) name \<noteq> None then Inr r1
                      else forceInputs k w c p d out ri r1)
         (keepWaiting name (length ins) i index (Data items) (sourceOf p out ri)))"
proof -
  define r0 where "r0 = (if map_get (waitingExecution r) name \<noteq> None then r
      else r\<lparr>waitingExecution := map_put name [] (waitingExecution r),
             waitingExecutionSource := map_put name [] (waitingExecutionSource r)\<rparr>)"
  have entries: "entriesOf (waitingExecution r0) name = entriesOf (waitingExecution r) name"
    by (simp add: r0_def entriesOf_def)
  obtain found where found: "findOpenEntry index (sort_key fst (entriesOf (waitingExecution r) name)) = Inr found"
    using chosen by (auto simp: chosen_entry_def Let_def)
  define r2 where "r2 = (if found = None then prepareWaitingToExecution name (length ins) i r0 else r0)"
  have i: "i = (case found of Some i \<Rightarrow> i | None \<Rightarrow> length (entriesOf (waitingExecution r) name))"
    using chosen found by (auto simp: chosen_entry_def Let_def)
  have prev: "map_get (entriesOf (waitingExecution r2) name) i = Some [(Main, prev)]"
    using chosen found entries
    by (auto simp: chosen_entry_def Let_def r2_def prepareWaitingToExecution_def)
  have "\<exists>sources. map_get (entriesOf (waitingExecutionSource r2) name) i = Some [(Main, sources)]"
  proof (cases found)
    case None
    then show ?thesis by (simp add: r2_def prepareWaitingToExecution_def)
  next
    case (Some j)
    then have e: "map_get (entriesOf (waitingExecution r) name) i = Some [(Main, prev)]"
      using chosen found by (auto simp: chosen_entry_def Let_def)
    then have "r0 = r" by (auto simp: r0_def entriesOf_def split: option.splits)
    with waiting_okD [OF ok e ins] Some show ?thesis by (metis r2_def option.distinct(1))
  qed
  then obtain sources where sources: "map_get (entriesOf (waitingExecutionSource r2) name) i = Some [(Main, sources)]" ..
  have len: "length prev = length ins" using chosen_entry_cells [OF chosen ok ins] by (simp add: cells_ok_def)
  obtain src where src: "outputSource d p out ri = src" by simp
  define r1 where "r1 = r2\<lparr>
      waitingExecution := putEntry name i [(Main, prev[index := Data items])] (waitingExecution r2),
      waitingExecutionSource := putEntry name i [(Main, arr_put Hole sources index src)]
        (waitingExecutionSource r2)\<rparr>"
  have put: "putCell name i index (Data items) (waitingExecution r2) =
      Inr (putEntry name i [(Main, prev[index := Data items])] (waitingExecution r2))"
    "putCell name i index src (waitingExecutionSource r2) =
      Inr (putEntry name i [(Main, arr_put Hole sources index src)] (waitingExecutionSource r2))"
    using prev sources index len by (simp_all add: putCell_def arr_put_inside)
  have main: "entryMain (putEntry name i [(Main, prev[index := Data items])] (waitingExecution r2)) name i =
      Inr (prev[index := Data items])"
    by (simp add: entryMain_def putEntry_def)
  have init: "(if map_get (waitingExecution r) name \<noteq> None then r
      else r\<lparr>waitingExecution := map_put name [] (waitingExecution r),
             waitingExecutionSource := map_put name [] (waitingExecutionSource r)\<rparr>) = r0"
    by (simp add: r0_def)
  have index_of: "(case found of Some i \<Rightarrow> i | None \<Rightarrow> length (sort_key fst (entriesOf (waitingExecution r) name))) = i"
    unfolding i by (simp split: option.split)
  have eq: "addToWaiting k w c out p d ri (length ins) r =
      (if Null \<notin> set (prev[index := Data items]) then completeWaiting w name i r1
       else res_bind (if map_get (waitingExecution r) name \<noteq> None then Inr r1
                      else forceInputs k w c p d out ri r1)
         (keepWaiting name (length ins) i index (Data items) (sourceOf p out ri)))"
    unfolding addToWaiting_def Let_def name_def [symmetric] index_def [symmetric] init entries found
      res_bind_simps index_of r2_def [symmetric] cell src put main r1_def [symmetric] by (rule refl)
  have dist: "distinct (map_keys (entriesOf (waitingExecution r) name))" by (rule waiting_ok_distinct [OF ok])
  have "entry_written w r name i (prev[index := Data items]) r1"
    unfolding entry_written_def r1_def r2_def r0_def
    using dist by (auto simp: prepareWaitingToExecution_def putEntry_def entriesOf_def)
  moreover have "nodeExecutionStack r1 = nodeExecutionStack r" "resultRunData r1 = resultRunData r"
    by (simp_all add: r1_def r2_def r0_def prepareWaitingToExecution_def)
  ultimately show ?thesis using eq by blast
qed

text \<open>The second half, for a complete entry.\<close>

lemma completeWaiting_written:
  assumes ok: "waiting_ok w r" and new: "entry_written w r name i main r1"
    and node: "map_get (wfNodes w) name = Some node"
  shows "\<exists>r2 sources. completeWaiting w name i r1 = Inr r2 \<and> waiting_ok w r2 \<and>
    map_get (entriesOf (waitingExecution r2) name) i = None \<and>
    nodeExecutionStack r2 = nodeExecutionStack (enqueueItem w
      \<lparr>execNode = node, execData = [(Main, main)], execMetadata = None, execSource = Some sources\<rparr> r1)"
proof -
  obtain sources where e: "map_get (entriesOf (waitingExecution r1) name) i = Some [(Main, main)]"
    "map_get (entriesOf (waitingExecutionSource r1) name) i = Some [(Main, sources)]"
    using new by (auto simp: entry_written_def)
  define we where "we = deleteEntry name i (waitingExecution r1)"
  define ws where "ws = deleteEntry name i (waitingExecutionSource r1)"
  define r2 where "r2 = (enqueueItem w
      \<lparr>execNode = node, execData = [(Main, main)], execMetadata = None, execSource = Some [(Main, sources)]\<rparr> r1)
      \<lparr>waitingExecution := (if entriesOf we name = [] then map_del name we else we),
       waitingExecutionSource := (if entriesOf we name = [] then map_del name ws else ws)\<rparr>"
  have res: "completeWaiting w name i r1 = Inr r2"
    using e node by (simp add: completeWaiting_def r2_def we_def ws_def enqueueItem_def Let_def)
  have dist1: "distinct (map_keys (entriesOf (waitingExecution r1) name))" using new by (simp add: entry_written_def)
  have other: "map_get (waitingExecution r1) m = map_get (waitingExecution r) m"
    "map_get (waitingExecutionSource r1) m = map_get (waitingExecutionSource r) m" if "m \<noteq> name" for m
    using new that unfolding entry_written_def by blast+
  have eo: "entriesOf (waitingExecution r1) m = entriesOf (waitingExecution r) m"
    "entriesOf (waitingExecutionSource r1) m = entriesOf (waitingExecutionSource r) m" if "m \<noteq> name" for m
    using other [OF that] by (simp_all add: entriesOf_def)
  have wes: "entriesOf we m = (if m = name then map_del i (entriesOf (waitingExecution r1) name)
      else entriesOf (waitingExecution r) m)"
    "entriesOf ws m = (if m = name then map_del i (entriesOf (waitingExecutionSource r1) name)
      else entriesOf (waitingExecutionSource r) m)" for m
    using eo by (simp_all add: we_def ws_def)
  have r2w: "entriesOf (waitingExecution r2) m = entriesOf we m" for m
    by (auto simp: r2_def)
  have "waiting_ok w r2"
  proof (rule waiting_ok_fewer [OF ok])
    fix m j x assume x: "map_get (entriesOf (waitingExecution r2) m) j = Some x"
    show "map_get (entriesOf (waitingExecution r) m) j = Some x \<and>
        map_get (entriesOf (waitingExecutionSource r2) m) j = map_get (entriesOf (waitingExecutionSource r) m) j"
    proof (cases "m = name")
      case False
      with x show ?thesis unfolding r2w wes by (auto simp: r2_def wes)
    next
      case True
      then have ne: "entriesOf we name \<noteq> []" using x unfolding r2w by auto
      from True x have j: "j \<noteq> i" "map_get (entriesOf (waitingExecution r1) name) j = Some x"
        unfolding r2w wes by (auto split: if_splits simp del: map_of_eq_Some_iff)
      with new have "map_get (entriesOf (waitingExecution r) name) j = Some x"
        "map_get (entriesOf (waitingExecutionSource r1) name) j = map_get (entriesOf (waitingExecutionSource r) name) j"
        unfolding entry_written_def by (metis option.distinct(1))+
      with True j ne show ?thesis by (simp add: r2_def wes del: map_of_eq_Some_iff)
    qed
  next
    fix m show "distinct (map_keys (entriesOf (waitingExecution r2) m))"
      unfolding r2w wes using dist1 waiting_ok_distinct [OF ok] by simp
  next
    fix m assume m: "map_get (waitingExecution r2) m \<noteq> None"
    show "map_get (waitingExecution r) m \<noteq> None"
    proof (cases "m = name")
      case False
      with m other show ?thesis by (auto simp: r2_def we_def deleteEntry_def split: if_splits)
    next
      case True
      then have "entriesOf we name \<noteq> []" using m by (auto simp: r2_def)
      then obtain j x where "map_get (entriesOf we name) j = Some x"
        by (metis list.exhaust map_of_Cons_code(2) prod.collapse)
      then have "j \<noteq> i" "map_get (entriesOf (waitingExecution r1) name) j = Some x"
        unfolding wes by (auto split: if_splits simp del: map_of_eq_Some_iff)
      with new have "map_get (entriesOf (waitingExecution r) name) j \<noteq> None"
        unfolding entry_written_def by (metis option.distinct(1))
      with True show ?thesis by (auto simp: entriesOf_def split: option.splits)
    qed
  qed
  moreover have "map_get (entriesOf (waitingExecution r2) name) i = None"
    unfolding r2w wes by simp
  ultimately show ?thesis using res by (auto simp: r2_def enqueueItem_def)
qed

text \<open>Both halves.\<close>

lemma addToWaiting_spec:
  fixes r :: IRunExecutionData and c :: IConnection
  defines "name \<equiv> connNode c" and "index \<equiv> connIndex c"
  assumes ok: "waiting_ok w r" and ins: "mainConnections (connectionsByDestinationNode w) name = Inr ins"
    and index: "index < length ins" and cell: "outputSlot d out = Data items"
    and node: "map_get (wfNodes w) name = Some node"
    and forced: "\<And>r1. resultRunData r1 = resultRunData r \<Longrightarrow> forceInputs k w c p d out ri r1 = Inr r1"
  shows "\<exists>i prev r'. chosen_entry w r name (length ins) index i prev \<and>
    addToWaiting k w c out p d ri (length ins) r = Inr r' \<and> waiting_ok w r' \<and>
    (let main = prev[index := Data items] in
     if Null \<in> set main
     then entry_written w r name i main r' \<and> nodeExecutionStack r' = nodeExecutionStack r
     else map_get (entriesOf (waitingExecution r') name) i = None \<and>
       (\<exists>sources. nodeExecutionStack r' = nodeExecutionStack (enqueueItem w
         \<lparr>execNode = node, execData = [(Main, main)], execMetadata = None, execSource = Some sources\<rparr> r)))"
proof -
  obtain i prev where chosen: "chosen_entry w r name (length ins) index i prev"
    using chosen_entry_ex [OF ok ins] by blast
  let ?main = "prev[index := Data items]"
  have len: "length prev = length ins" and cells: "cells_ok (length ins) ?main"
    using chosen_entry_cells [OF chosen ok ins] index
    by (auto simp: cells_ok_def dest!: subsetD [OF set_update_subset_insert])
  from addToWaiting_write [OF ok ins [unfolded name_def] index [unfolded index_def] cell
      chosen [unfolded name_def index_def], of k p ri]
  obtain r1 where r1: "entry_written w r name i ?main r1" "nodeExecutionStack r1 = nodeExecutionStack r"
    "resultRunData r1 = resultRunData r" and eq: "addToWaiting k w c out p d ri (length ins) r =
      (if Null \<notin> set ?main then completeWaiting w name i r1
       else res_bind (if map_get (waitingExecution r) name \<noteq> None then Inr r1
                      else forceInputs k w c p d out ri r1)
         (keepWaiting name (length ins) i index (Data items) (sourceOf p out ri)))"
    unfolding name_def [symmetric] index_def [symmetric] by blast
  show ?thesis
  proof (cases "Null \<in> set ?main")
    case True
    have "index < length ?main" "?main ! index = Data items" using index len by simp_all
    with keepWaiting_written [OF r1(1), of index "length ins" "sourceOf p out ri"]
    obtain r2 where r2: "keepWaiting name (length ins) i index (Data items) (sourceOf p out ri) r1 = Inr r2"
      "entry_written w r name i ?main r2" "nodeExecutionStack r2 = nodeExecutionStack r1" by auto
    have "addToWaiting k w c out p d ri (length ins) r = Inr r2"
      unfolding eq using True forced [OF r1(3)] r2(1) by simp
    moreover have "waiting_ok w r2" by (rule entry_written_ok [OF ok r2(2) ins cells True])
    ultimately show ?thesis using chosen True r2 r1(2) by (auto simp: Let_def)
  next
    case False
    from completeWaiting_written [OF ok r1(1) node] obtain r2 sources where
      r2: "completeWaiting w name i r1 = Inr r2" "waiting_ok w r2"
        "map_get (entriesOf (waitingExecution r2) name) i = None"
        "nodeExecutionStack r2 = nodeExecutionStack (enqueueItem w
          \<lparr>execNode = node, execData = [(Main, ?main)], execMetadata = None, execSource = Some sources\<rparr> r1)"
      by blast
    have "addToWaiting k w c out p d ri (length ins) r = Inr r2" unfolding eq using False r2(1) by simp
    moreover have "nodeExecutionStack r2 = nodeExecutionStack (enqueueItem w
          \<lparr>execNode = node, execData = [(Main, ?main)], execMetadata = None, execSource = Some sources\<rparr> r)"
      using r2(4) r1(2) by (simp add: enqueueItem_def)
    ultimately show ?thesis
      using chosen False r2(2,3) by (intro exI [of _ i] exI [of _ prev] exI [of _ r2]) (auto simp: Let_def)
  qed
qed

end
