(* ===== verification/Execution_Properties.thy ===== *)
theory Execution_Properties
  imports Waiting_Facts
begin

text \<open>
  What the execution of workflows guarantees, and where it departs from what it means to do.
\<close>


section \<open>Example workflows\<close>

text \<open>A node type that executes, the workflow a \<open>\<rightarrow>\<close> b, and a node m with three inputs.\<close>

definition exec_type :: INodeType where
  "exec_type = \<lparr>ntName = ''t'', ntGroup = [], ntInputs = 3, ntRequiredInputs = None, ntExecute = True,
     ntPoll = False, ntTrigger = False, ntWebhook = False\<rparr>"

definition link :: "string \<Rightarrow> nat \<Rightarrow> IConnection" where
  "link n i = \<lparr>connNode = n, connType = Main, connIndex = i\<rparr>"

definition chain :: Workflow where
  "chain = \<lparr>
     wfNodes = [(''a'', plain_node 1 ''a'' ''t''), (''b'', plain_node 2 ''b'' ''t'')],
     connectionsBySourceNode = [(''a'', [(Main, [Some [link ''b'' 0]])])],
     connectionsByDestinationNode = [(''b'', [(Main, [Some [link ''a'' 0]])])],
     executionOrder = Some ''v1'', wfPinData = None, nodeTypes = (\<lambda>_ _. Some exec_type)\<rparr>"

definition some_item :: INodeExecutionData where
  "some_item = \<lparr>json = [(''v'', JBool True)], itemError = None, pairedItem = None\<rparr>"

definition answer :: "(string + NodeOutput) \<Rightarrow> NodeResponse" where
  "answer x = \<lparr>respOutput = x, respWaitTill = None\<rparr>"

definition env_of :: "node_behaviour \<Rightarrow> ExecutionEnv" where
  "env_of b = \<lparr>behaviour = b, outputTypes = (\<lambda>_. [Main]), getPairedItem = (\<lambda>_ _. Inr None),
     parametersIssues = (\<lambda>_ _ _. None), simpleParameterValue = (\<lambda>_ _. None),
     manualMode = False, restartExecution = False\<rparr>"

definition echo :: ExecutionEnv where
  "echo = env_of (\<lambda>_ _ _ _. answer (Inr (Data [Data [some_item]])))"

definition chain_start :: WorkflowExecute where
  "chain_start = newWorkflowExecute
     (initialRunData None (Some [''a'', ''b'']) [] None [startItem (plain_node 1 ''a'' ''t'')] [] [])"

lemma chain_result:
  "\<exists>st. executionLoop 3 3 echo chain (\<lambda>_. NoInterrupt) 0 chain_start = Some (Inr st) \<and>
     map_keys (resultRunData (weRun st)) = [''a'', ''b'']"
proof -
  have "(case executionLoop 3 3 echo chain (\<lambda>_. NoInterrupt) 0 chain_start of
      Some (Inr st) \<Rightarrow> map_keys (resultRunData (weRun st)) = [''a'', ''b''] | _ \<Rightarrow> False)"
    by code_simp
  then show ?thesis by (auto split: option.splits sum.splits)
qed


section \<open>The execution loop\<close>



text \<open>
  The number of iterations that an execution needs does not change its result: with enough
  iterations the result is the same however many more are allowed.
\<close>

theorem executionLoop_more_fuel:
  assumes "executionLoop fuel k env w interrupts i st = Some x"
  shows "executionLoop (fuel + extra) k env w interrupts i st = Some x"
  by (rule executionLoop_fuel [OF assms]) simp

theorem executionLoop_more_fuel_witness:
  "\<exists>x. executionLoop (3 + 100) 3 echo chain (\<lambda>_. NoInterrupt) 0 chain_start = Some x"
  using chain_result executionLoop_more_fuel by blast

text \<open>
  C0. A node is called at least never and at most \<open>2 * maxTries - 1\<close> times in one iteration; the
  recorded runs and the start data are not touched by the tries. The limit of five tries bounds
  the calls by nine.
\<close>

theorem runTries_calls:
  assumes "runTries (nat (triesOf (execNode d))) env w d (nat (triesOf (execNode d))) s = (skip, s')"
  shows "tryCalls s \<le> tryCalls s' \<and> tryCalls s' \<le> tryCalls s + (2 * nat (triesOf (execNode d)) - 1) \<and>
    tryCalls s' \<le> tryCalls s + 9 \<and> same_record (tryRun s) (tryRun s')"
proof -
  have "triesOf (execNode d) \<le> 5" by (simp add: triesOf_def)
  then show ?thesis using runTries_frame [OF assms] by (auto simp: same_run_record)
qed

definition retry_node :: INode where
  "retry_node = (plain_node 1 ''a'' ''t'')\<lparr>retryOnFail := Some True, maxTries := Some 3\<rparr>"

definition retry_item :: IExecuteData where
  "retry_item = startItem retry_node"

definition fresh_try :: TryState where
  "fresh_try = \<lparr>tryRun = initialRunData None None [] None [] [] [], tryCalls = 0, tryOutput = Null,
     tryError = None\<rparr>"

text \<open>A node that answers an error item and throws in turn: five calls with three tries.\<close>

definition error_item :: INodeExecutionData where
  "error_item = \<lparr>json = [(''error'', JStr ''e'')], itemError = None, pairedItem = None\<rparr>"

definition flaky :: ExecutionEnv where
  "flaky = env_of (\<lambda>_ n _ _. if even n then answer (Inr (Data [Data [error_item]])) else answer (Inl ''boom''))"

lemma flaky_calls:
  "\<exists>s. runTries (nat (triesOf (execNode retry_item))) flaky chain retry_item
     (nat (triesOf (execNode retry_item))) fresh_try = (False, s) \<and> tryCalls s = 5"
proof -
  have "(case runTries 3 flaky chain retry_item 3 fresh_try of (b, s) \<Rightarrow> \<not> b \<and> tryCalls s = 5)"
    by code_simp
  moreover have "nat (triesOf (execNode retry_item)) = 3"
    by (simp add: retry_item_def startItem_def retry_node_def triesOf_def or_default_def)
  ultimately show ?thesis by (auto split: prod.splits)
qed

theorem runTries_calls_witness:
  "\<exists>s :: TryState. tryCalls s = 5 \<and> tryCalls s \<le> tryCalls fresh_try + (2 * nat (triesOf (execNode retry_item)) - 1)"
proof -
  obtain s where s: "runTries (nat (triesOf (execNode retry_item))) flaky chain retry_item
     (nat (triesOf (execNode retry_item))) fresh_try = (False, s)" "tryCalls s = 5"
    using flaky_calls by blast
  from runTries_calls [OF s(1)] s(2) show ?thesis by (intro exI [of _ s]) simp
qed

text \<open>
  A node that answers with an error item is run again as often as tries are left, but what it
  returns then is not used: whatever the later calls answer, the output is that of the first call.
\<close>

theorem oneTry_ignores_retries:
  assumes "pinnedItems (tryRun s) (execNode d) = None"
    and "runNode env w d (tryRun s) (tryCalls s) = (Inr out, r, n)" and "didContinueOnFail out"
    and "rerunNode env w d remaining 0 r n = (None, r', n')"
    and "onError (execNode d) \<noteq> Some continueErrorOutput"
  shows "oneTry env w d remaining s =
    finishTry d (Suc remaining) (s\<lparr>tryError := None, tryOutput := out, tryRun := r', tryCalls := n'\<rparr>)"
  using assms by (simp add: oneTry_def Let_def split: slot.split option.split OnError.split)

definition recovering :: ExecutionEnv where
  "recovering = env_of (\<lambda>_ n _ _. if n = 0 then answer (Inr (Data [Data [error_item]]))
     else answer (Inr (Data [Data [some_item]])))"

theorem oneTry_ignores_retries_witness:
  "tryOutput (snd (oneTry recovering chain retry_item 2 fresh_try)) =
     Data [Data [error_item\<lparr>pairedItem := Some (pairedWith 0)\<rparr>]]"
proof -
  let ?r = "tryRun fresh_try"
  have run: "runNode recovering chain retry_item ?r (tryCalls fresh_try) =
      (Inr (Data [Data [error_item]]), ?r, 1)"
    "rerunNode recovering chain retry_item 2 0 ?r 1 = (None, ?r, 3)" by code_simp+
  have "snd (oneTry recovering chain retry_item 2 fresh_try) = snd (finishTry retry_item (Suc 2)
      (fresh_try\<lparr>tryError := None, tryOutput := Data [Data [error_item]], tryRun := ?r, tryCalls := 3\<rparr>))"
    by (subst oneTry_ignores_retries [OF _ run(1) _ run(2)])
      (simp_all add: pinnedItems_def fresh_try_def initialRunData_def didContinueOnFail_def error_item_def
        retry_item_def startItem_def retry_node_def plain_node_def)
  also have "tryOutput \<dots> = Data [Data [error_item\<lparr>pairedItem := Some (pairedWith 0)\<rparr>]]" by code_simp
  finally show ?thesis .
qed

text \<open>
  C10. A node that fails in all its tries and is not set to continue stops the execution: its run is
  recorded with the error after its earlier runs, the item is put back on top of the stack so that
  the execution can be restarted from it, and no node runs after it.
\<close>

theorem failed_node_stops:
  assumes "nodeExecutionStack (weRun st) = item # items"
    and "interrupts i = NoInterrupt" and "weStatus st \<noteq> StCanceled"
    and "processItem k env w item (st\<lparr>weRun := (weRun st)\<lparr>nodeExecutionStack := items\<rparr>\<rparr>) =
      runItem k env w d ri st1"
    and "runTries (nat (triesOf (execNode d))) env w d (nat (triesOf (execNode d)))
      \<lparr>tryRun = weRun st1, tryCalls = weCalls st1, tryOutput = Null, tryError = None\<rparr> = (False, s)"
    and "tryError s = Some e" and "\<not> continuesOnFail (execNode d)"
  shows "\<exists>st' t. executionLoop (Suc fuel) k env w interrupts i st = Some (Inr st') \<and>
    executionError st' = Some e \<and> taskError t = Some e \<and> taskStatus t = Some StError \<and>
    runs_of (weRun st') (nodeName (execNode d)) = runs_of (weRun st1) (nodeName (execNode d)) @ [t] \<and>
    nodeExecutionStack (weRun st') = d # nodeExecutionStack (tryRun s)"
proof -
  define st2 where "st2 = st1\<lparr>weRun := tryRun s, weCalls := tryCalls s, executionError := Some e\<rparr>"
  define t where "t = (newTaskData d (weRun st2))\<lparr>taskError := Some e, taskStatus := Some StError\<rparr>"
  have run: "runItem k env w d ri st1 = Inr (Stop, stopWithError d t st2)"
    using assms(5-7) by (simp add: runItem_def st2_def t_def Let_def)
  have same: "same_record (weRun st1) (tryRun s)" using runTries_frame [OF assms(5)] by (simp add: same_run_record)
  have "executionLoop (Suc fuel) k env w interrupts i st = Some (Inr (stopWithError d t st2))"
    using assms(1-4) run by (simp add: interrupted_def)
  moreover have "executionError (stopWithError d t st2) = Some e"
    "nodeExecutionStack (weRun (stopWithError d t st2)) = d # nodeExecutionStack (tryRun s)"
    "runs_of (weRun (stopWithError d t st2)) (nodeName (execNode d)) =
      runs_of (weRun st1) (nodeName (execNode d)) @ [t]"
    using same by (auto simp: stopWithError_def afterHook_def executeHook_def Let_def st2_def
        pushTaskData_def runs_of_def same_record_def)
  ultimately show ?thesis by (intro exI [of _ "stopWithError d t st2"] exI [of _ t]) (simp add: t_def)
qed

definition throwing :: ExecutionEnv where
  "throwing = env_of (\<lambda>node _ _ _. if nodeName node = ''a'' then answer (Inl ''boom'')
     else answer (Inr (Data [Data [some_item]])))"

theorem failed_node_stops_witness:
  "\<exists>st'. executionLoop (Suc 0) 3 throwing chain (\<lambda>_. NoInterrupt) 0 chain_start = Some (Inr st') \<and>
     executionError st' = Some ''boom''"
proof -
  define d where "d = (startItem (plain_node 1 ''a'' ''t''))
    \<lparr>execData := pairInputs (execData (startItem (plain_node 1 ''a'' ''t'')))\<rparr>"
  define st1 where "st1 = executeHook (NodeExecuteBefore ''a'')
    (chain_start\<lparr>weRun := (weRun chain_start)\<lparr>nodeExecutionStack := []\<rparr>, executionError := None\<rparr>)"
  obtain b s where s: "runTries (nat (triesOf (execNode d))) throwing chain d (nat (triesOf (execNode d)))
      \<lparr>tryRun = weRun st1, tryCalls = weCalls st1, tryOutput = Null, tryError = None\<rparr> = (b, s)"
    by (metis surj_pair)
  have tries: "nat (triesOf (execNode d)) = 1" "execNode d = plain_node 1 ''a'' ''t''"
    by (simp_all add: d_def startItem_def triesOf_def plain_node_def)
  have "case runTries 1 throwing chain d 1
      \<lparr>tryRun = weRun st1, tryCalls = weCalls st1, tryOutput = Null, tryError = None\<rparr> of
      (b, s) \<Rightarrow> \<not> b \<and> tryError s = Some ''boom''"
    unfolding d_def st1_def by code_simp
  then have bs: "\<not> b" "tryError s = Some ''boom''" using s tries by simp_all
  have proc: "processItem 3 throwing chain (startItem (plain_node 1 ''a'' ''t''))
      (chain_start\<lparr>weRun := (weRun chain_start)\<lparr>nodeExecutionStack := []\<rparr>\<rparr>) =
      runItem 3 throwing chain d 0 st1"
    by (simp add: processItem_def d_def st1_def chain_start_def newWorkflowExecute_def initialRunData_def
        startItem_def runIndexOf_def show_nat.simps [of 0] mustWait_def chain_def executeHook_def Let_def)
  have pre: "nodeExecutionStack (weRun chain_start) = [startItem (plain_node 1 ''a'' ''t'')]"
    "weStatus chain_start \<noteq> StCanceled" "\<not> continuesOnFail (execNode d)"
    by (simp_all add: chain_start_def newWorkflowExecute_def initialRunData_def tries continuesOnFail_def
        plain_node_def)
  have s': "runTries (nat (triesOf (execNode d))) throwing chain d (nat (triesOf (execNode d)))
      \<lparr>tryRun = weRun st1, tryCalls = weCalls st1, tryOutput = Null, tryError = None\<rparr> = (False, s)"
    using s bs by simp
  show ?thesis
    using failed_node_stops [where interrupts = "\<lambda>_. NoInterrupt" and i = 0 and fuel = 0,
        OF pre(1) refl pre(2) proc s' bs(2) pre(3)] by blast
qed


section \<open>Nodes with several inputs\<close>

text \<open>The node m has the inputs a, b and c.\<close>

definition fork :: Workflow where
  "fork = \<lparr>
     wfNodes = map (\<lambda>(i, n). (n, plain_node i n ''t'')) [(1, ''a''), (2, ''b''), (3, ''c''), (4, ''m'')],
     connectionsBySourceNode = [(''a'', [(Main, [Some [link ''m'' 0]])]),
       (''b'', [(Main, [Some [link ''m'' 1]])]), (''c'', [(Main, [Some [link ''m'' 2]])])],
     connectionsByDestinationNode = [(''m'', [(Main, [Some [link ''a'' 0], Some [link ''b'' 0],
       Some [link ''c'' 0]])])],
     executionOrder = Some ''v1'', wfPinData = None, nodeTypes = (\<lambda>_ _. Some exec_type)\<rparr>"

definition empty_run :: IRunExecutionData where
  "empty_run = initialRunData None None [] None [] [] []"

definition item_of :: "string \<Rightarrow> INodeExecutionData" where
  "item_of s = \<lparr>json = [(''v'', JStr s)], itemError = None, pairedItem = None\<rparr>"

text \<open>Delivering one item of a source node to an input of m.\<close>

definition deliverTo :: "Workflow \<Rightarrow> string \<times> nat \<times> string \<Rightarrow> IRunExecutionData \<Rightarrow> IRunExecutionData res" where
  "deliverTo w = (\<lambda>(source, index, s).
     addNodeToBeExecuted 5 w (link ''m'' index) 0 source (Some [Data [item_of s]]) 0)"

text \<open>
  C2. In a workflow of execution order v1, adding the output of a node to an input of a node with
  several inputs always succeeds and keeps the waiting area well-formed. The data fills the cell of
  the input in the first waiting entry that lacks it, or in a new one. As long as the entry lacks
  another input it waits and the stack is unchanged; with its last input the node is put on the
  stack with exactly the collected data, and the entry is gone.
\<close>

theorem addNodeToBeExecuted_inputs:
  assumes "isV1 w" and "outputs_ok w parent" and "no_null_record (resultRunData r)" and "waiting_ok w r"
    and "mainConnections (connectionsByDestinationNode w) (connNode c) = Inr ins" and "1 < length ins"
    and "connIndex c < length ins" and "outputSlot d out = Data items"
    and "map_get (wfNodes w) (connNode c) = Some node"
  shows "\<exists>i prev r'. addNodeToBeExecuted k w c out parent d ri r = Inr r' \<and> waiting_ok w r' \<and>
    chosen_entry w r (connNode c) (length ins) (connIndex c) i prev \<and>
    (let main = prev[connIndex c := Data items] in
     if Null \<in> set main
     then entry_written w r (connNode c) i main r' \<and> nodeExecutionStack r' = nodeExecutionStack r
     else map_get (entriesOf (waitingExecution r') (connNode c)) i = None \<and>
       (\<exists>sources. nodeExecutionStack r' =
         \<lparr>execNode = node, execData = [(Main, main)], execMetadata = None, execSource = Some sources\<rparr>
         # nodeExecutionStack r))"
proof -
  have forced: "forceInputs k w c parent d out ri r1 = Inr r1" if "resultRunData r1 = resultRunData r" for r1
    by (rule forceInputs_v1 [OF assms(1,2) _ assms(5)]) (use assms(3) that in simp)
  from addToWaiting_spec [OF assms(4,5,7,8,9) forced] obtain i prev r' where
    *: "chosen_entry w r (connNode c) (length ins) (connIndex c) i prev"
      "addToWaiting k w c out parent d ri (length ins) r = Inr r'" "waiting_ok w r'"
      "let main = prev[connIndex c := Data items] in
       if Null \<in> set main
       then entry_written w r (connNode c) i main r' \<and> nodeExecutionStack r' = nodeExecutionStack r
       else map_get (entriesOf (waitingExecution r') (connNode c)) i = None \<and>
         (\<exists>sources. nodeExecutionStack r' = nodeExecutionStack (enqueueItem w
           \<lparr>execNode = node, execData = [(Main, main)], execMetadata = None, execSource = Some sources\<rparr> r))"
    by metis
  have "addNodeToBeExecuted k w c out parent d ri r = Inr r'"
    using assms(5,6) *(2) by (simp add: addNodeToBeExecuted_def)
  with * assms(1) show ?thesis
    by (intro exI [of _ i] exI [of _ prev] exI [of _ r']) (simp add: enqueueItem_def Let_def split: if_splits)
qed

lemma waiting_ok_empty: "waitingExecution r = [] \<Longrightarrow> waiting_ok w r"
  by (simp add: waiting_ok_def)

theorem addNodeToBeExecuted_inputs_witness:
  "\<exists>r'. deliverTo fork (''a'', 0, ''x'') empty_run = Inr r' \<and> waiting_ok fork r' \<and> nodeExecutionStack r' = []"
proof -
  let ?c = "link ''m'' 0"
  have outs: "outputs_ok fork ''a''"
    by (auto simp: outputs_ok_def fork_def mainConnections_def all_groups_def link_def)
  have rec: "no_null_record (resultRunData empty_run)"
    by (simp add: no_null_record_def empty_run_def initialRunData_def recordedOutput_def)
  have ok: "waiting_ok fork empty_run"
    by (rule waiting_ok_empty) (simp add: empty_run_def initialRunData_def)
  have ins: "mainConnections (connectionsByDestinationNode fork) (connNode ?c) =
      Inr [Some [link ''a'' 0], Some [link ''b'' 0], Some [link ''c'' 0]]"
    by (simp add: mainConnections_def fork_def link_def)
  have node: "map_get (wfNodes fork) (connNode ?c) = Some (plain_node 4 ''m'' ''t'')"
    by (simp add: fork_def link_def)
  have cell: "outputSlot (Some [Data [item_of ''x'']]) 0 = Data [item_of ''x'']"
    by (simp add: outputSlot_def arr_get_def)
  have v1: "isV1 fork" by (simp add: isV1_def fork_def)
  have idx: "connIndex ?c < length [Some [link ''a'' 0], Some [link ''b'' 0], Some [link ''c'' 0]]"
    "1 < length [Some [link ''a'' 0], Some [link ''b'' 0], Some [link ''c'' 0]]" "connIndex ?c = 0"
    by (simp_all add: link_def)
  obtain i prev r' where r': "addNodeToBeExecuted 5 fork ?c 0 ''a'' (Some [Data [item_of ''x'']]) 0 empty_run = Inr r'"
      "waiting_ok fork r'"
    and prev: "chosen_entry fork empty_run (connNode ?c) 3 (connIndex ?c) i prev"
    and st: "let main = prev[connIndex ?c := Data [item_of ''x'']] in
     if Null \<in> set main
     then entry_written fork empty_run (connNode ?c) i main r' \<and>
       nodeExecutionStack r' = nodeExecutionStack empty_run
     else map_get (entriesOf (waitingExecution r') (connNode ?c)) i = None \<and>
       (\<exists>sources. nodeExecutionStack r' =
         \<lparr>execNode = plain_node 4 ''m'' ''t'', execData = [(Main, main)], execMetadata = None,
          execSource = Some sources\<rparr> # nodeExecutionStack empty_run)"
    using addNodeToBeExecuted_inputs [OF v1 outs rec ok ins idx(2,1) cell node, of 5 0] by (auto simp: numeral_3_eq_3)
  have "prev = replicate 3 Null"
    using prev by (simp add: chosen_entry_def empty_run_def initialRunData_def entriesOf_def)
  with st idx(3) have "nodeExecutionStack r' = []"
    by (simp add: Let_def numeral_3_eq_3 empty_run_def initialRunData_def)
  with r' show ?thesis by (simp add: deliverTo_def)
qed


text \<open>The same with two inputs, a and b.\<close>

definition join :: Workflow where
  "join = fork\<lparr>connectionsByDestinationNode := [(''m'', [(Main, [Some [link ''a'' 0], Some [link ''b'' 0]])])]\<rparr>"

text \<open>
  A node with three inputs that gets the data of a, b and c one after the other runs with all
  three, but the stack item has lost the source of the first: keeping the entry waiting prepares
  the array of its sources again and only writes the source of the current input.
\<close>

theorem waiting_loses_source:
  "case res_fold (deliverTo fork) [(''a'', 0, x), (''b'', 1, y), (''c'', 2, z)] empty_run of
     Inl e \<Rightarrow> False
   | Inr r \<Rightarrow> waitingExecution r = [] \<and>
       map (\<lambda>d. (execData d, execSource d)) (nodeExecutionStack r) =
         [([(Main, [Data [item_of x], Data [item_of y], Data [item_of z]])],
           Some [(Main, [Null, Data (sourceOf ''b'' 0 0), Data (sourceOf ''c'' 0 0)])])]"
  by code_simp

text \<open>
  An entry that waits can be overwritten: the index of a new entry is the number of entries,
  which an entry may have when an earlier one was completed and deleted. Of three items that a
  sends to the first input, with one of b between, the second is lost.
\<close>

theorem waiting_entry_overwritten:
  "case res_fold (deliverTo join) [(''a'', 0, x), (''a'', 0, x'), (''b'', 1, y), (''a'', 0, x'')] empty_run of
     Inl e \<Rightarrow> False
   | Inr r \<Rightarrow> waitingExecution r = [(''m'', [(1, [(Main, [Data [item_of x''], Null])])])] \<and>
       map execData (nodeExecutionStack r) = [[(Main, [Data [item_of x], Data [item_of y]])]]"
  by code_simp

end
