(* ===== verification/Execution_Outcomes.thy ===== *)
theory Execution_Outcomes
  imports Execution_Properties
begin

text \<open>
  The order in which nodes are put on the stack, the split of failed items, the release of nodes
  that wait, and how an execution is reported when its last node failed.
\<close>


section \<open>Facts\<close>

text \<open>The order of \<open>nodesToAdd\<close>: a is higher than b, or as high and not to the right of it.\<close>

definition top_left :: "NodeToAdd \<Rightarrow> NodeToAdd \<Rightarrow> bool" where
  "top_left a b \<longleftrightarrow> snd (addPosition a) < snd (addPosition b) \<or>
     snd (addPosition a) = snd (addPosition b) \<and> fst (addPosition a) \<le> fst (addPosition b)"

lemma compare_top_left: "compareNodesToAdd b a \<ge> 0 \<longleftrightarrow> top_left b a"
  by (auto simp: compareNodesToAdd_def top_left_def)

lemma top_left_trans: "top_left a b \<Longrightarrow> top_left b c \<Longrightarrow> top_left a c"
  by (auto simp: top_left_def)

lemma top_left_linear: "\<not> top_left a b \<Longrightarrow> top_left b a"
  by (auto simp: top_left_def)

lemma insert_sorted:
  "sorted_wrt (\<lambda>a b. top_left b a) xs \<Longrightarrow>
   sorted_wrt (\<lambda>a b. top_left b a) (insert_by (\<lambda>earlier later. - compareNodesToAdd later earlier) x xs)"
proof (induction xs)
  case (Cons y ys)
  show ?case
  proof (cases "top_left y x")
    case True
    then have "- compareNodesToAdd y x \<le> 0" by (simp add: compare_top_left)
    then show ?thesis using Cons.prems True by (auto intro: top_left_trans)
  next
    case False
    then have less: "\<not> - compareNodesToAdd y x \<le> 0" using compare_top_left [of y x] by linarith
    have in_set: "set (insert_by c x ys) = insert x (set ys)" for c :: "NodeToAdd \<Rightarrow> NodeToAdd \<Rightarrow> int"
      by (metis mset_insert_by set_mset_add_mset_insert set_mset_mset)
    show ?thesis using Cons less top_left_linear [OF False] by (simp add: in_set)
  qed
qed simp

lemma sortNodesToAdd_sorted: "sorted_wrt (\<lambda>a b. top_left b a) (sortNodesToAdd ns)"
  unfolding sortNodesToAdd_def by (induction ns) (simp_all add: insert_sorted)

text \<open>The stack item of a node with one input.\<close>

definition nextItem :: "Workflow \<Rightarrow> string \<Rightarrow> OutputData \<Rightarrow> nat \<Rightarrow> NodeToAdd \<Rightarrow> IExecuteData" where
  "nextItem w name outs runIndex n =
     (let c = addConnectionOf n in
      \<lparr>execNode = the (map_get (wfNodes w) (connNode c)),
       execData = [(Main, (replicate (Suc (connIndex c)) Null)
         [connIndex c := outputSlot (Some outs) (addOutputIndex n)])],
       execMetadata = None, execSource = Some (singleSource name (addOutputIndex n) runIndex)\<rparr>)"

definition single_input :: "Workflow \<Rightarrow> IConnection \<Rightarrow> bool" where
  "single_input w c \<longleftrightarrow> map_get (wfNodes w) (connNode c) \<noteq> None \<and>
     (case mainConnections (connectionsByDestinationNode w) (connNode c) of
        Inl e \<Rightarrow> False | Inr ins \<Rightarrow> length ins \<le> 1)"

text \<open>The nodes that follow, as the loop collects them.\<close>

definition following :: "Workflow \<Rightarrow> NodeInputConnections \<Rightarrow> OutputData \<Rightarrow> NodeToAdd list" where
  "following w outputs outs = map (\<lambda>(i, c, follow).
       \<lparr>addPosition = position (the (map_get (wfNodes w) (connNode c))), addConnectionOf = c,
        addOutputIndex = i\<rparr>)
     (filter (\<lambda>(i, c, follow). follow) (connectionsToFollow w outputs outs))"

lemma collect_following:
  "\<forall>(i, c, follow) \<in> set fs. map_get (wfNodes w) (connNode c) \<noteq> None \<Longrightarrow>
   res_fold (collectNode w) fs ns = Inr (ns @ map (\<lambda>(i, c, follow).
       \<lparr>addPosition = position (the (map_get (wfNodes w) (connNode c))), addConnectionOf = c,
        addOutputIndex = i\<rparr>) (filter (\<lambda>(i, c, follow). follow) fs))"
  by (induction fs arbitrary: ns) (auto simp: collectNode_def)

lemma add_single:
  assumes "single_input w (addConnectionOf n)" and "isV1 w"
  shows "addNodeToBeExecuted k w (addConnectionOf n) (addOutputIndex n) name (Some outs) runIndex r =
    Inr (r\<lparr>nodeExecutionStack := nextItem w name outs runIndex n # nodeExecutionStack r\<rparr>)"
  using assms by (auto simp: single_input_def addNodeToBeExecuted_def enqueueItem_def nextItem_def Let_def
      split: sum.splits)

lemma add_singles:
  assumes "isV1 w" and "\<forall>n \<in> set ns. single_input w (addConnectionOf n)"
  shows "res_fold (\<lambda>n. addNodeToBeExecuted k w (addConnectionOf n) (addOutputIndex n) name (Some outs) runIndex)
     ns r = Inr (r\<lparr>nodeExecutionStack := map (nextItem w name outs runIndex) (rev ns) @ nodeExecutionStack r\<rparr>)"
  using assms(2)
proof (induction ns arbitrary: r)
  case (Cons n ns)
  then show ?case using add_single [OF _ assms(1)] by simp
qed simp


section \<open>The order of the next nodes\<close>


text \<open>A node s with the next nodes a, b and c; c is above the others and b is to the left of a.\<close>

definition fan :: Workflow where
  "fan = \<lparr>
     wfNodes = [(''a'', (plain_node 1 ''a'' ''t'')\<lparr>position := (100, 50)\<rparr>),
       (''b'', (plain_node 2 ''b'' ''t'')\<lparr>position := (0, 50)\<rparr>),
       (''c'', (plain_node 3 ''c'' ''t'')\<lparr>position := (200, 0)\<rparr>)],
     connectionsBySourceNode = [(''s'', [(Main, [Some [link ''a'' 0, link ''b'' 0], Some [link ''c'' 0]])])],
     connectionsByDestinationNode = map (\<lambda>n. (n, [(Main, [Some [link ''s'' 0]])])) [''a'', ''b'', ''c''],
     executionOrder = Some ''v1'', wfPinData = None, nodeTypes = (\<lambda>_ _. Some exec_type)\<rparr>"



section \<open>Failed items\<close>

definition itemsAt :: "OutputData \<Rightarrow> nat \<Rightarrow> INodeExecutionData list" where
  "itemsAt outs i = (case arr_get outs i of Some (Data xs) \<Rightarrow> xs | _ \<Rightarrow> [])"

abbreviation is_failed :: "INodeExecutionData \<Rightarrow> bool" where
  "is_failed item \<equiv> fst (errorDataOf item)"

text \<open>An item of the error output and the item it comes from.\<close>

definition moved :: "ExecutionEnv \<Rightarrow> IExecuteData \<Rightarrow> INodeExecutionData \<Rightarrow> INodeExecutionData \<Rightarrow> bool" where
  "moved env d x e \<longleftrightarrow> errorItem env d (snd (errorDataOf x)) = Inr e"

lemma errorDataOf_kept: "\<not> is_failed x \<Longrightarrow> snd (errorDataOf x) = x"
  by (auto simp: errorDataOf_def)

lemma splitItem_step:
  "errorDataOf x = (True, y) \<Longrightarrow>
   splitItem env d x (s, es) = res_bind (errorItem env d y) (\<lambda>e. Inr (s, es @ [e]))"
  "errorDataOf x = (False, y) \<Longrightarrow> splitItem env d x (s, es) = Inr (s @ [y], es)"
  by (simp_all add: splitItem_def)

lemma splitItems:
  "res_fold (splitItem env d) items (succ, errs) = Inr (succ', errs') \<Longrightarrow>
   succ' = succ @ filter (\<lambda>x. \<not> is_failed x) items \<and>
   (\<exists>new. errs' = errs @ new \<and> list_all2 (moved env d) (filter is_failed items) new)"
proof (induction items arbitrary: succ errs)
  case (Cons x items)
  show ?case
  proof (cases "is_failed x")
    case True
    then obtain y where y: "errorDataOf x = (True, y)" by (metis prod.collapse)
    with Cons.prems obtain e where e: "errorItem env d y = Inr e"
      "res_fold (splitItem env d) items (succ, errs @ [e]) = Inr (succ', errs')"
      by (auto simp: splitItem_step res_simps)
    from Cons.IH [OF e(2)] obtain new where "succ' = succ @ filter (\<lambda>x. \<not> is_failed x) items"
      "errs' = (errs @ [e]) @ new" "list_all2 (moved env d) (filter is_failed items) new" by blast
    moreover have "moved env d x e" using y e(1) by (simp add: moved_def)
    ultimately show ?thesis using True by (intro conjI exI [of _ "e # new"]) auto
  next
    case False
    then have "errorDataOf x = (False, x)" using errorDataOf_kept [OF False] by (metis prod.collapse)
    with Cons.prems have "res_fold (splitItem env d) items (succ @ [x], errs) = Inr (succ', errs')"
      by (simp add: splitItem_step)
    from Cons.IH [OF this] show ?thesis using False by auto
  qed
qed simp

lemma splitOutputs:
  assumes "res_fold (splitOutput env d) [0..<m] (outs, []) = Inr (outs', errs)"
  shows "length outs' = max (length outs) m \<and>
    (\<forall>i. arr_get outs' i = (if i < m then Some (Data (filter (\<lambda>x. \<not> is_failed x) (itemsAt outs i)))
      else arr_get outs i)) \<and>
    list_all2 (moved env d) (concat (map (\<lambda>i. filter is_failed (itemsAt outs i)) [0..<m])) errs"
  using assms
proof (induction m arbitrary: outs' errs)
  case (Suc m)
  then obtain outs1 errs1 where m: "res_fold (splitOutput env d) [0..<m] (outs, []) = Inr (outs1, errs1)"
    and step: "splitOutput env d m (outs1, errs1) = Inr (outs', errs)"
    by (auto simp: res_fold_append res_simps)
  note IH = Suc.IH [OF m]
  have same: "itemsAt outs1 m = itemsAt outs m" using IH by (simp add: itemsAt_def)
  from step obtain s where
    split: "res_fold (splitItem env d) (itemsAt outs m) ([], errs1) = Inr (s, errs)"
    and outs': "outs' = arr_put Hole outs1 m (Data s)"
    unfolding same [symmetric] by (auto simp: splitOutput_def itemsAt_def res_simps)
  from splitItems [OF split] obtain new where
    s: "s = filter (\<lambda>x. \<not> is_failed x) (itemsAt outs m)" "errs = errs1 @ new"
      "list_all2 (moved env d) (filter is_failed (itemsAt outs m)) new" by auto
  have "arr_get outs' i = (if i < Suc m then Some (Data (filter (\<lambda>x. \<not> is_failed x) (itemsAt outs i)))
      else arr_get outs i)" for i
    using IH s(1) by (auto simp: outs' arr_get_put)
  with IH s(2,3) show ?case
    by (auto simp: outs' length_arr_put list_all2_appendI)
qed simp

text \<open>
  C32. The handling of the error output neither loses nor invents items: every main output but the
  last keeps exactly its items without an error, in their order; the last one, whatever the node put
  there, holds one item for each failed item, in the order of outputs and items.
\<close>

theorem errorOutput_splits:
  assumes "handleNodeErrorOutput env w d outs = Inr outs'"
    and "length (filter (\<lambda>t. t = Main) (outputTypes env (execNode d))) = Suc m"
  shows "(\<forall>i < m. arr_get outs' i = Some (Data (filter (\<lambda>x. \<not> is_failed x) (itemsAt outs i)))) \<and>
    (\<exists>es. arr_get outs' m = Some (Data es) \<and>
      list_all2 (moved env d) (concat (map (\<lambda>i. filter is_failed (itemsAt outs i)) [0..<m])) es) \<and>
    (\<forall>i > m. arr_get outs' i = arr_get outs i)"
proof -
  from assms obtain outs1 errs where split: "res_fold (splitOutput env d) [0..<m] (outs, []) = Inr (outs1, errs)"
    and outs': "outs' = arr_put Hole outs1 m (Data errs)"
    by (auto simp: handleNodeErrorOutput_def Let_def res_simps split: if_splits)
  from splitOutputs [OF split] show ?thesis by (auto simp: outs' arr_get_put)
qed

definition two_outputs :: ExecutionEnv where
  "two_outputs = echo\<lparr>outputTypes := (\<lambda>_. [Main, Main])\<rparr>"

theorem errorOutput_splits_witness:
  "\<exists>outs' es. handleNodeErrorOutput two_outputs chain (startItem (plain_node 1 ''a'' ''t''))
       [Data [some_item, error_item, some_item]] = Inr outs' \<and>
     arr_get outs' 0 = Some (Data [some_item, some_item]) \<and> arr_get outs' 1 = Some (Data es) \<and> length es = 1"
proof -
  let ?d = "startItem (plain_node 1 ''a'' ''t'')" and ?outs = "[Data [some_item, error_item, some_item]]"
  have "(case handleNodeErrorOutput two_outputs chain ?d ?outs of Inl e \<Rightarrow> False | Inr _ \<Rightarrow> True)"
    by code_simp
  then obtain outs' where outs': "handleNodeErrorOutput two_outputs chain ?d ?outs = Inr outs'"
    by (auto split: sum.splits)
  have types: "length (filter (\<lambda>t. t = Main) (outputTypes two_outputs (execNode ?d))) = Suc 1"
    by (simp add: two_outputs_def)
  have failed: "filter (\<lambda>x. \<not> is_failed x) (itemsAt ?outs 0) = [some_item, some_item]"
    "filter is_failed (itemsAt ?outs 0) = [error_item]" by code_simp+
  obtain es where "arr_get outs' 0 = Some (Data [some_item, some_item])" "arr_get outs' 1 = Some (Data es)"
    "list_all2 (moved two_outputs ?d) (concat (map (\<lambda>i. filter is_failed (itemsAt ?outs i)) [0..<1])) es"
    using errorOutput_splits [OF outs' types] failed(1) by force
  moreover from this(3) have "length es = 1" using failed(2) by (auto dest: list_all2_lengthD)
  ultimately show ?thesis using outs' by blast
qed


section \<open>The release of waiting nodes\<close>

lemma entryMain_entries:
  "entryMain waiting name i =
     (case map_get (entriesOf waiting name) i of None \<Rightarrow> Inl TypeError
      | Some e \<Rightarrow> (case map_get e Main of None \<Rightarrow> Inl TypeError | Some main \<Rightarrow> Inr main))"
  by (simp add: entryMain_def entriesOf_def split: option.splits)

text \<open>What an item that is released has of the entry it comes from.\<close>

definition released :: "INode \<Rightarrow> INodeExecutionData list slot list \<Rightarrow> IExecuteData \<Rightarrow> bool" where
  "released node main item \<longleftrightarrow> execNode item = node \<and>
     (\<exists>pads. execData item = [(Main, withoutNull main @ pads)] \<and> set pads \<subseteq> {Data []})"

definition entry_gone :: "string \<Rightarrow> nat \<Rightarrow> IRunExecutionData \<Rightarrow> IRunExecutionData \<Rightarrow> bool" where
  "entry_gone name i r r' \<longleftrightarrow>
     (\<forall>n j. entryMain (waitingExecution r') n j =
       (if n = name \<and> j = i then Inl TypeError else entryMain (waitingExecution r) n j))"

lemma entry_goneI:
  assumes "waitingExecution r' = (if entriesOf we name = [] then map_del name we else we)"
    and "we = deleteEntry name i (waitingExecution r)"
  shows "entry_gone name i r r'"
proof -
  have "entriesOf (waitingExecution r') n = entriesOf we n" for n
    using assms(1) by auto
  then show ?thesis
    by (simp add: entry_gone_def entryMain_entries assms(2))
qed

lemma releaseEntry_Emptied:
  assumes "releaseEntry w node m name i main r = Inr (Emptied r')"
  shows "nodeExecutionStack r' = nodeExecutionStack r \<and> \<not> list_ex hasItems main \<and> entry_gone name i r r'"
proof -
  have items: "list_ex hasItems (withoutNull main) = list_ex hasItems main"
    by (induction main) (auto simp: withoutNull_def hasItems_def)
  from assms have *: "\<not> list_ex hasItems (withoutNull main)" "nodeExecutionStack r' = nodeExecutionStack r"
    "waitingExecution r' = (let we = deleteEntry name i (waitingExecution r) in
       if entriesOf we name = [] then map_del name we else we)"
    by (auto simp: releaseEntry_def Let_def split: if_splits option.splits)
  with items entry_goneI [OF *(3) [unfolded Let_def] refl] show ?thesis by simp
qed

lemma releaseEntry_Released:
  assumes "releaseEntry w node m name i main r = Inr (Released r')"
  shows "entry_gone name i r r' \<and>
    (\<exists>item. nodeExecutionStack r' = nodeExecutionStack r @ [item] \<and> released node main item)"
proof -
  from assms have *: "waitingExecution r' = (let we = deleteEntry name i (waitingExecution r) in
       if entriesOf we name = [] then map_del name we else we)"
    "\<exists>item. nodeExecutionStack r' = nodeExecutionStack r @ [item] \<and> released node main item"
    by (auto simp: releaseEntry_def released_def Let_def set_replicate_conv_if split: if_splits option.splits)
  with entry_goneI [OF *(1) [unfolded Let_def] refl] show ?thesis by simp
qed

lemma checkWaitingNode_release:
  assumes "checkWaitingNode k env w name r = Inr s" and "s \<noteq> Skipped"
  shows "\<exists>node m i main. getNode w name = Some node \<and> entryMain (waitingExecution r) name i = Inr main \<and>
    releaseEntry w node m name i main r = Inr s"
proof -
  from assms obtain node where "getNode w name = Some node" by (auto simp: checkWaitingNode_def split: option.splits)
  with assms show ?thesis
    by (force simp: checkWaitingNode_def Let_def res_simps split: option.splits if_splits)
qed

lemma scanWaiting_Skipped:
  "scanWaiting check ns = Inr Skipped \<Longrightarrow> n \<in> set ns \<Longrightarrow> check n = Inr Skipped"
proof (induction ns)
  case (Cons a ns)
  then obtain x where "check a = Inr x" by (auto simp: res_simps)
  with Cons show ?case by (cases x) auto
qed simp

text \<open>
  C11. Releasing waiting nodes always ends. It puts at most one node on the stack, with the data of
  its entry and an empty list for each input that has none; when it puts none there, no node that
  still waits may run. No entry that has items is dropped: it waits on or is the one that was
  released.
\<close>

theorem releaseWaiting_result:
  assumes "releaseWaiting k env w r = Inr r'"
  shows "(nodeExecutionStack r' = nodeExecutionStack r \<and>
      (\<forall>n \<in> set (map_keys (waitingExecution r')). checkWaitingNode k env w n r' = Inr Skipped) \<or>
      (\<exists>item. nodeExecutionStack r' = nodeExecutionStack r @ [item])) \<and>
    (\<forall>name i main. entryMain (waitingExecution r) name i = Inr main \<and> list_ex hasItems main \<longrightarrow>
      entryMain (waitingExecution r') name i = Inr main \<or>
      (\<exists>node item. getNode w name = Some node \<and> nodeExecutionStack r' = nodeExecutionStack r @ [item] \<and>
        released node main item))"
  using assms
proof (induction k env w r rule: releaseWaiting.induct)
  case (1 k env w r)
  let ?scan = "scanWaiting (\<lambda>name. checkWaitingNode k env w name r) (map_keys (waitingExecution r))"
  from 1(2) obtain s where s: "?scan = Inr s"
    by (cases ?scan) (simp_all add: releaseWaiting.simps [of k env w r])
  show ?case
  proof (cases "s = Skipped")
    case True
    with 1(2) s have "r' = r" by (simp add: releaseWaiting.simps [of k env w r])
    with scanWaiting_Skipped [OF s [unfolded True]] show ?thesis by blast
  next
    case False
    then obtain name where "checkWaitingNode k env w name r = Inr s"
      using scanWaiting_not_skipped [OF s] by auto
    from checkWaitingNode_release [OF this False] obtain node m i main where
      node: "getNode w name = Some node" and main: "entryMain (waitingExecution r) name i = Inr main"
      and rel: "releaseEntry w node m name i main r = Inr s" by blast
    show ?thesis
    proof (cases s)
      case (Released r1)
      with 1(2) s have r1: "r1 = r'" by (simp add: releaseWaiting.simps [of k env w r])
      with rel Released have rel': "releaseEntry w node m name i main r = Inr (Released r')" by simp
      from releaseEntry_Released [OF rel'] node main show ?thesis
        unfolding entry_gone_def by (metis sum.inject(2))
    next
      case (Emptied r1)
      with 1(2) s have r1: "releaseWaiting k env w r1 = Inr r'" by (simp add: releaseWaiting.simps [of k env w r])
      from rel Emptied have "releaseEntry w node m name i main r = Inr (Emptied r1)" by simp
      from releaseEntry_Emptied [OF this] have
        e: "nodeExecutionStack r1 = nodeExecutionStack r" "\<not> list_ex hasItems main" "entry_gone name i r r1"
        by simp_all
      have keep: "entryMain (waitingExecution r1) n j = Inr mn"
        if "entryMain (waitingExecution r) n j = Inr mn" "list_ex hasItems mn" for n j mn
        using e(2,3) main that unfolding entry_gone_def by auto
      show ?thesis using 1(1) [OF s Emptied r1] keep unfolding e(1) by blast
    qed (use False in simp)
  qed
qed


definition half :: "IRunExecutionData res" where
  "half = deliverTo join (''a'', 0, ''x'') empty_run"

lemma half_run:
  obtains r r' where "half = Inr r" and "releaseWaiting 5 echo join r = Inr r'"
    and "entryMain (waitingExecution r) ''m'' 0 = Inr [Data [item_of ''x''], Null]"
    and "waitingExecution r' = []"
proof -
  have "case half of Inl e \<Rightarrow> False | Inr r \<Rightarrow>
      entryMain (waitingExecution r) ''m'' 0 = Inr [Data [item_of ''x''], Null] \<and>
      (case releaseWaiting 5 echo join r of Inl e \<Rightarrow> False | Inr r' \<Rightarrow> waitingExecution r' = [])"
    by code_simp
  then show ?thesis using that by (auto split: sum.splits)
qed

theorem releaseWaiting_result_witness:
  "\<exists>r r' node item. half = Inr r \<and> releaseWaiting 5 echo join r = Inr r' \<and>
     nodeExecutionStack r' = nodeExecutionStack r @ [item] \<and>
     released node [Data [item_of ''x''], Null] item"
proof -
  obtain r r' where r: "half = Inr r" "releaseWaiting 5 echo join r = Inr r'"
    "entryMain (waitingExecution r) ''m'' 0 = Inr [Data [item_of ''x''], Null]" "waitingExecution r' = []"
    by (rule half_run)
  have items: "list_ex hasItems [Data [item_of ''x''], Null]" by (simp add: hasItems_def)
  have "entryMain (waitingExecution r') ''m'' 0 \<noteq> Inr [Data [item_of ''x''], Null]"
    using r(4) by (simp add: entryMain_def)
  with releaseWaiting_result [OF r(2)] r(3) items
  obtain node item where "nodeExecutionStack r' = nodeExecutionStack r @ [item]"
    "released node [Data [item_of ''x''], Null] item" by blast
  with r(1,2) show ?thesis by blast
qed


section \<open>A last node that fails and continues\<close>

lemma recordOutput_error:
  assumes "recordOutput k env w d i t out st = Inr (e, st')"
  shows "executionError st' = executionError st \<and> weStatus st' = weStatus st"
proof -
  have "res_post (\<lambda>(e, st'). executionError st' = executionError st \<and> weStatus st' = weStatus st)
      (recordOutput k env w d i t out st)"
    unfolding recordOutput_def Let_def
    by (auto split: slot.split intro!: post_intros simp: afterHook_def executeHook_def)
  with assms show ?thesis by (auto dest: res_postD)
qed

text \<open>
  A node that fails but is set to continue only hides its error until the next node runs: when it
  is the last node of the execution, the execution is reported as failed with the error of the node,
  as the variable of the loop still holds it.
\<close>

theorem last_failure_fails_execution:
  assumes "nodeExecutionStack (weRun st) = [item]"
    and "interrupts i = NoInterrupt" and "weStatus st \<noteq> StCanceled"
    and "processItem k env w item (st\<lparr>weRun := (weRun st)\<lparr>nodeExecutionStack := []\<rparr>\<rparr>) = runItem k env w d ri st1"
    and "runTries (nat (triesOf (execNode d))) env w d (nat (triesOf (execNode d)))
      \<lparr>tryRun = weRun st1, tryCalls = weCalls st1, tryOutput = Null, tryError = None\<rparr> = (False, s)"
    and "tryError s = Some e" and "continuesOnFail (execNode d)"
    and "runItem k env w d ri st1 = Inr (Continue, st2)" and "nodeExecutionStack (weRun st2) = []"
  shows "executionLoop (Suc fuel) k env w interrupts i st = Some (Inr st2) \<and> executionError st2 = Some e \<and>
    (\<forall>run st3. processSuccessExecution st2 (executionError st2) = Inr (run, st3) \<longrightarrow>
      resultError (runData run) = Some e \<and> \<not> runFinished run)"
proof -
  have "executionError st2 = Some e"
    using assms(5-8) by (auto simp: runItem_def Let_def dest!: recordOutput_error)
  moreover have "executionLoop (Suc fuel) k env w interrupts i st = executionLoop fuel k env w interrupts (Suc i) st2"
    using assms(1-4,8) by (simp add: interrupted_def)
  moreover have "executionLoop fuel k env w interrupts (Suc i) st2 = Some (Inr st2)"
    using assms(9) by (cases fuel) simp_all
  ultimately show ?thesis
    by (auto simp: processSuccessExecution_def moveNodeMetadata_def getFullRunData_def Let_def res_simps
        split: if_splits)
qed

text \<open>The node b fails and continues; it runs as the last node.\<close>

definition tolerant :: INode where
  "tolerant = (plain_node 2 ''b'' ''t'')\<lparr>onError := Some continueRegularOutput\<rparr>"

definition last_start :: WorkflowExecute where
  "last_start = newWorkflowExecute (initialRunData None None [] None [startItem tolerant] [] [])"

definition breaking :: ExecutionEnv where
  "breaking = env_of (\<lambda>_ _ _ _. answer (Inl ''boom''))"

theorem last_failure_fails_execution_witness:
  "\<exists>st. executionLoop (Suc 0) 3 breaking chain (\<lambda>_. NoInterrupt) 0 last_start = Some (Inr st) \<and>
     executionError st = Some ''boom''"
proof -
  define d where "d = (startItem tolerant)\<lparr>execData := pairInputs (execData (startItem tolerant))\<rparr>"
  define st1 where "st1 = executeHook (NodeExecuteBefore ''b'')
    (last_start\<lparr>weRun := (weRun last_start)\<lparr>nodeExecutionStack := []\<rparr>, executionError := None\<rparr>)"
  have node: "execNode d = tolerant" "nodeName tolerant = ''b''" "triesOf tolerant = 1"
    by (simp_all add: d_def startItem_def triesOf_def plain_node_def tolerant_def)
  have "case runTries 1 breaking chain d 1
      \<lparr>tryRun = weRun st1, tryCalls = weCalls st1, tryOutput = Null, tryError = None\<rparr> of
      (b, s) \<Rightarrow> \<not> b \<and> tryError s = Some ''boom''"
    unfolding d_def st1_def by code_simp
  then obtain s where s: "runTries (nat (triesOf (execNode d))) breaking chain d (nat (triesOf (execNode d)))
      \<lparr>tryRun = weRun st1, tryCalls = weCalls st1, tryOutput = Null, tryError = None\<rparr> = (False, s)"
    "tryError s = Some ''boom''" using node by (auto split: prod.splits)
  have "case runItem 3 breaking chain d 0 st1 of Inl e \<Rightarrow> False
    | Inr (b, st) \<Rightarrow> b = Continue \<and> nodeExecutionStack (weRun st) = []"
    unfolding d_def st1_def by code_simp
  then obtain st2 where st2: "runItem 3 breaking chain d 0 st1 = Inr (Continue, st2)"
    "nodeExecutionStack (weRun st2) = []" by (auto split: sum.splits)
  have proc: "processItem 3 breaking chain (startItem tolerant)
      (last_start\<lparr>weRun := (weRun last_start)\<lparr>nodeExecutionStack := []\<rparr>\<rparr>) = runItem 3 breaking chain d 0 st1"
  proof -
    have "(case mustWait 3 chain d of Inr b \<Rightarrow> \<not> b | Inl e \<Rightarrow> False)" unfolding d_def by code_simp
    then have "mustWait 3 chain d = Inr False" by (auto split: sum.splits)
    then show ?thesis
      by (simp add: processItem_def d_def [symmetric] node st1_def last_start_def newWorkflowExecute_def
          initialRunData_def runIndexOf_def show_nat.simps [of 0] executeHook_def Let_def)
  qed
  have pre: "nodeExecutionStack (weRun last_start) = [startItem tolerant]" "weStatus last_start \<noteq> StCanceled"
    "continuesOnFail (execNode d)"
    by (simp_all add: last_start_def newWorkflowExecute_def initialRunData_def node continuesOnFail_def tolerant_def)
  show ?thesis
    using last_failure_fails_execution [where interrupts = "\<lambda>_. NoInterrupt" and i = 0 and fuel = 0,
        OF pre(1) refl pre(2) proc s pre(3) st2] by blast
qed

end
