(* ===== verification/Workflow_Rename.thy ===== *)
theory Workflow_Rename
  imports Workflow_Class
begin

text \<open>
  Renaming a node in the class Workflow: the node, the references to it in the parameters of all
  nodes, and the connections. The regular expressions of the code only consist of literal
  characters and a few alternatives, and are written out as such; the old name in them is escaped
  by \<open>backslashEscape\<close>, the new name in the replacement by \<open>dollarEscape\<close>, so both stand for
  themselves.
\<close>


section \<open>Replacing references in a string\<close>

text \<open>The rest of a string after a literal.\<close>

fun strip_prefix :: "string \<Rightarrow> string \<Rightarrow> string option" where
  "strip_prefix [] s = Some s"
| "strip_prefix (c # cs) [] = None"
| "strip_prefix (c # cs) (d # ds) = (if c = d then strip_prefix cs ds else None)"

lemma strip_prefix_Some: "strip_prefix p s = Some r \<longleftrightarrow> s = p @ r"
  by (induction p s rule: strip_prefix.induct) auto

text \<open>The first alternative that matches, with the rest.\<close>

fun strip_any :: "string list \<Rightarrow> string \<Rightarrow> (string \<times> string) option" where
  "strip_any [] s = None"
| "strip_any (p # ps) s =
     (case strip_prefix p s of Some r \<Rightarrow> Some (p, r) | None \<Rightarrow> strip_any ps s)"

lemma strip_any_Some: "strip_any ps s = Some (p, r) \<Longrightarrow> p \<in> set ps \<and> s = p @ r"
  by (induction ps) (auto simp: strip_prefix_Some split: option.splits)

text \<open>
  A match of the pattern \<open>(opening)name(closing)\<close> at the start of a string: the two groups and the
  rest. An opening that is followed by something else does not match, then the next is tried.
\<close>

fun matchReference ::
  "string list \<Rightarrow> string \<Rightarrow> string list \<Rightarrow> string \<Rightarrow> (string \<times> string \<times> string) option" where
  "matchReference [] name closings s = None"
| "matchReference (p # ps) name closings s =
     (case strip_prefix (p @ name) s of
        None \<Rightarrow> matchReference ps name closings s
      | Some r \<Rightarrow> (case strip_any closings r of
          None \<Rightarrow> matchReference ps name closings s
        | Some (q, r) \<Rightarrow> Some (p, q, r)))"

lemma matchReference_Some:
  "matchReference ps name qs s = Some (p, q, r) \<Longrightarrow>
   p \<in> set ps \<and> q \<in> set qs \<and> s = p @ name @ q @ r"
  by (induction ps) (auto simp: strip_prefix_Some dest: strip_any_Some split: option.splits)

lemma matchReference_length:
  assumes "matchReference (filter (\<lambda>p. p \<noteq> []) ps) name qs s = Some (p, q, r)"
  shows "length r < length s"
proof -
  have "p \<noteq> []" "s = p @ name @ q @ r" using matchReference_Some [OF assms] by auto
  then have "length s = length p + length name + length q + length r" "length p > 0" by simp_all
  then show ?thesis by linarith
qed

text \<open>
  \<open>replace\<close> with the flag \<open>g\<close>: matches from left to right that do not overlap. The measure counts
  the characters; an empty match cannot occur as no opening is empty.
\<close>

function replaceReferences ::
  "string list \<Rightarrow> string list \<Rightarrow> string \<Rightarrow> string \<Rightarrow> string \<Rightarrow> string" where
  "replaceReferences openings closings old new [] = []"
| "replaceReferences openings closings old new (c # cs) =
     (case matchReference (filter (\<lambda>p. p \<noteq> []) openings) old closings (c # cs) of
        Some (p, q, r) \<Rightarrow> p @ new @ q @ replaceReferences openings closings old new r
      | None \<Rightarrow> c # replaceReferences openings closings old new cs)"
  by pat_completeness auto

termination
  by (relation "measure (\<lambda>(openings, closings, old, new, s). length s)")
    (auto dest!: matchReference_length)

definition setNewName :: "string list \<Rightarrow> string list \<Rightarrow> string \<Rightarrow> string \<Rightarrow> string \<Rightarrow> string" where
  "setNewName openings closings old new expression =
     replaceReferences openings closings old new expression"

definition includesString :: "string \<Rightarrow> string \<Rightarrow> bool" where
  "includesString s t \<longleftrightarrow> (\<exists>i \<in> {0..length s}. strip_prefix t (drop i s) \<noteq> None)"

definition DOT_NOTATION_BANNED_CHARS :: string where
  "DOT_NOTATION_BANNED_CHARS =
     [CHR 0x5C, CHR 0x60, CHR 0x27, CHR 0x22] @ '' !@#$%^&*()_+-=[]{};:|,.<>?~''"

definition hasDotNotationBannedChar :: "string \<Rightarrow> bool" where
  "hasDotNotationBannedChar s \<longleftrightarrow>
     (case s of [] \<Rightarrow> False | c # _ \<Rightarrow> is_digit c) \<or> (\<exists>c \<in> set s. c \<in> set DOT_NOTATION_BANNED_CHARS)"

text \<open>
  The pattern \<open>.name( |\.)\<close> with the flag \<open>g\<close>: any character that does not end a line, the name,
  and a blank or a dot. It becomes \<open>["name"]\<close> and the last character.
\<close>

definition line_end :: "char \<Rightarrow> bool" where
  "line_end c \<longleftrightarrow> c = CHR 0x0A \<or> c = CHR 0x0D"

definition matchDotted :: "string \<Rightarrow> string \<Rightarrow> (string \<times> string) option" where
  "matchDotted name s =
     (case s of [] \<Rightarrow> None
      | c # cs \<Rightarrow> if line_end c then None
          else (case strip_prefix name cs of None \<Rightarrow> None
            | Some r \<Rightarrow> strip_any ['' '', ''.''] r))"

lemma matchDotted_length: "matchDotted name s = Some (q, r) \<Longrightarrow> length r < length s"
  by (auto simp: matchDotted_def strip_prefix_Some dest!: strip_any_Some
      split: list.splits if_splits option.splits)

function quoteDotted :: "string \<Rightarrow> string \<Rightarrow> string" where
  "quoteDotted name [] = []"
| "quoteDotted name (c # cs) =
     (case matchDotted name (c # cs) of
        Some (q, r) \<Rightarrow> [CHR ''['', CHR 0x22] @ name @ [CHR 0x22, CHR '']''] @ q @ quoteDotted name r
      | None \<Rightarrow> c # quoteDotted name cs)"
  by pat_completeness auto

termination
  by (relation "measure (\<lambda>(name, s). length s)") (auto dest!: matchDotted_length)

definition quoted_openings :: "string \<Rightarrow> string list" where
  "quoted_openings s = [s @ [CHR 0x27], s @ [CHR 0x22]]"

definition quoted_closings :: "string \<Rightarrow> string list" where
  "quoted_closings s = [CHR 0x27 # s, CHR 0x22 # s]"

text \<open>The four kinds of references, each only when the string contains its start.\<close>

definition renameExpression :: "string \<Rightarrow> string \<Rightarrow> string \<Rightarrow> string" where
  "renameExpression currentName newName e =
     (if \<not> includesString e currentName then e
      else (let
        e = (if includesString e ''$('' then
               setNewName (quoted_openings ''$('') (quoted_closings '')'') currentName newName e else e);
        e = (if includesString e ''$node['' then
               setNewName (quoted_openings ''$node['') (quoted_closings '']'') currentName newName e
             else e);
        e = (if includesString e ''$node.'' then
               (let e = setNewName [''$node.''] [''.'', ''''] currentName newName e
                in if hasDotNotationBannedChar newName then quoteDotted newName e else e) else e)
      in if includesString e ''$items('' then
           setNewName (quoted_openings ''$items('') (quoted_closings '','' @ quoted_closings '')'')
             currentName newName e
         else e))"


section \<open>Parameters\<close>

text \<open>
  Inside an array \<open>hasRenamableContent\<close> falls back to its default. \<open>null\<close> becomes an empty
  object, as the loop over its keys runs over \<open>{}\<close>.
\<close>

fun renameNodeInParameterValue :: "string \<Rightarrow> string \<Rightarrow> bool \<Rightarrow> jval \<Rightarrow> jval" where
  "renameNodeInParameterValue currentName newName hasRenamableContent (JStr s) =
     JStr (if (s \<noteq> [] \<and> hd s = CHR ''='') \<or> hasRenamableContent
           then renameExpression currentName newName s else s)"
| "renameNodeInParameterValue currentName newName hasRenamableContent (JArr vs) =
     JArr (map (renameNodeInParameterValue currentName newName False) vs)"
| "renameNodeInParameterValue currentName newName hasRenamableContent (JObj ps) =
     JObj (map (\<lambda>(k, v). (k, renameNodeInParameterValue currentName newName hasRenamableContent v)) ps)"
| "renameNodeInParameterValue currentName newName hasRenamableContent JNull = JObj []"
| "renameNodeInParameterValue currentName newName hasRenamableContent v = v"

definition NODES_WITH_RENAMABLE_CONTENT :: "string list" where
  "NODES_WITH_RENAMABLE_CONTENT =
     [''n8n-nodes-base.code'', ''n8n-nodes-base.function'', ''n8n-nodes-base.functionItem'',
      ''n8n-nodes-base.aiTransform'']"

text \<open>A parameter \<open>jsCode\<close> that is missing stays \<open>undefined\<close>.\<close>

definition renameInNode :: "string \<Rightarrow> string \<Rightarrow> INode \<Rightarrow> INode" where
  "renameInNode currentName newName node =
     (let ps = map (\<lambda>(k, v). (k, renameNodeInParameterValue currentName newName False v)) (parameters node);
          ps' = (if nodeType node \<in> set NODES_WITH_RENAMABLE_CONTENT then
                   (case map_get ps ''jsCode'' of
                      None \<Rightarrow> ps
                    | Some v \<Rightarrow> map_put ''jsCode'' (renameNodeInParameterValue currentName newName True v) ps)
                 else ps)
      in node\<lparr>parameters := ps'\<rparr>)"


section \<open>The workflow\<close>

definition renameTargets :: "string \<Rightarrow> string \<Rightarrow> IConnections \<Rightarrow> IConnections" where
  "renameTargets currentName newName conns =
     map (\<lambda>(s, nc). (s, map (\<lambda>(t, arr). (t, map (map_option (map (\<lambda>c.
       if connNode c = currentName then c\<lparr>connNode := newName\<rparr> else c))) arr)) nc)) conns"

text \<open>Moving the value of one key to another.\<close>

definition moveKey :: "string \<Rightarrow> string \<Rightarrow> 'v \<Rightarrow> (string, 'v) js_map \<Rightarrow> (string, 'v) js_map" where
  "moveKey currentName newName v m = map_del currentName (map_put newName v m)"

definition renameNode :: "string \<Rightarrow> string \<Rightarrow> Workflow \<Rightarrow> Workflow" where
  "renameNode currentName newName w =
     (let nodes = (case map_get (wfNodes w) currentName of
            None \<Rightarrow> wfNodes w
          | Some node \<Rightarrow> moveKey currentName newName (node\<lparr>nodeName := newName\<rparr>) (wfNodes w));
          nodes = map (\<lambda>(k, node). (k, renameInNode currentName newName node)) nodes;
          conns = (case map_get (connectionsBySourceNode w) currentName of
            None \<Rightarrow> connectionsBySourceNode w
          | Some nc \<Rightarrow> moveKey currentName newName nc (connectionsBySourceNode w));
          conns = renameTargets currentName newName conns
      in w\<lparr>wfNodes := nodes, connectionsBySourceNode := conns,
           connectionsByDestinationNode := getConnectionsByDestination conns\<rparr>)"

end
