(* ===== verification/Rename_Properties.thy ===== *)
theory Rename_Properties
  imports Workflow_Rename Workflow_Queries
begin

text \<open>
  Renaming nodes: the references in an expression, the connections and the nodes. An expression is
  seen as a sequence of plain text and quoted references.
\<close>


section \<open>Strings\<close>

lemma includesString_iff: "includesString s t \<longleftrightarrow> (\<exists>a b. s = a @ t @ b)"
proof
  assume "includesString s t"
  then obtain i r where "drop i s = t @ r" by (auto simp: includesString_def strip_prefix_Some)
  then have "s = take i s @ t @ r" by (metis append_take_drop_id)
  then show "\<exists>a b. s = a @ t @ b" by blast
next
  assume "\<exists>a b. s = a @ t @ b"
  then obtain a b where "s = a @ t @ b" by blast
  then have "length a \<in> {0..length s}" "strip_prefix t (drop (length a) s) \<noteq> None"
    by (auto simp: strip_prefix_Some)
  then show "includesString s t" unfolding includesString_def by blast
qed

definition is_quote :: "char \<Rightarrow> bool" where
  "is_quote c \<longleftrightarrow> c = CHR 0x27 \<or> c = CHR 0x22"

text \<open>Names without quotes and dollar signs, and text without dollar signs.\<close>

definition plain_name :: "string \<Rightarrow> bool" where
  "plain_name n \<longleftrightarrow> CHR ''$'' \<notin> set n \<and> (\<forall>c \<in> set n. \<not> is_quote c)"

lemma quote_splits:
  assumes "\<forall>c \<in> set a. \<not> is_quote c" and "\<forall>c \<in> set b. \<not> is_quote c"
    and "a @ c # xs = b @ d # ys" and "is_quote c" and "is_quote d"
  shows "a = b \<and> c # xs = d # ys"
proof -
  have "takeWhile (\<lambda>c. \<not> is_quote c) (a @ c # xs) = a"
    using assms(1,4) by (simp add: takeWhile_append2)
  moreover have "takeWhile (\<lambda>c. \<not> is_quote c) (b @ d # ys) = b"
    using assms(2,5) by (simp add: takeWhile_append2)
  ultimately have "a = b" using assms(3) by metis
  with assms(3) show ?thesis by simp
qed

lemma strip_prefix_append [simp]: "strip_prefix (p @ q) s =
    (case strip_prefix p s of None \<Rightarrow> None | Some r \<Rightarrow> strip_prefix q r)"
  by (induction p s rule: strip_prefix.induct) (auto split: option.splits)

lemma strip_prefix_self [simp]: "strip_prefix p (p @ r) = Some r"
  by (simp add: strip_prefix_Some)


section \<open>References in an expression\<close>

datatype segment = Plain string | Ref string string string

fun render :: "segment \<Rightarrow> string" where
  "render (Plain t) = t"
| "render (Ref p n q) = p @ n @ q"

abbreviation render_all :: "segment list \<Rightarrow> string" where
  "render_all segs \<equiv> concat (map render segs)"

text \<open>The openings of the three kinds of quoted references with their closings.\<close>

definition kinds :: "(string \<times> string list) list" where
  "kinds =
     [(''$('', quoted_closings '')''), (''$node['', quoted_closings '']''),
      (''$items('', quoted_closings '','' @ quoted_closings '')'')]"

fun valid_segment :: "segment \<Rightarrow> bool" where
  "valid_segment (Plain t) = (CHR ''$'' \<notin> set t)"
| "valid_segment (Ref p n q) =
     (plain_name n \<and> (\<exists>(s, closings) \<in> set kinds. p \<in> set (quoted_openings s) \<and> q \<in> set closings))"

fun rename_segment :: "string list \<Rightarrow> string \<Rightarrow> string \<Rightarrow> segment \<Rightarrow> segment" where
  "rename_segment openings old new (Plain t) = Plain t"
| "rename_segment openings old new (Ref p n q) =
     Ref p (if p \<in> set openings \<and> n = old then new else n) q"

abbreviation all_openings :: "string list" where
  "all_openings \<equiv> concat (map (\<lambda>(s, closings). quoted_openings s) kinds)"

lemma copy_plain:
  assumes "CHR ''$'' \<notin> set t"
  shows "replaceReferences (quoted_openings (CHR ''$'' # s)) closings old new (t @ rest) =
    t @ replaceReferences (quoted_openings (CHR ''$'' # s)) closings old new rest"
  using assms
proof (induction t)
  case (Cons c t)
  then have "c \<noteq> CHR ''$''" by auto
  then have "matchReference (filter (\<lambda>p. p \<noteq> []) (quoted_openings (CHR ''$'' # s))) old closings ((c # t) @ rest) = None"
    by (auto simp: quoted_openings_def)
  then show ?case using Cons by simp
qed simp

text \<open>A reference is matched by the pattern of its kind exactly when it has the old name.\<close>

lemma closing_quote: "q \<in> set (snd k) \<Longrightarrow> k \<in> set kinds \<Longrightarrow> \<exists>c q'. q = [c, q'] \<and> is_quote c \<and> q' \<noteq> CHR ''$''"
  by (auto simp: kinds_def quoted_closings_def is_quote_def)

lemma strip_closing:
  assumes "(s, closings) \<in> set kinds" and "q \<in> set closings"
  shows "strip_any closings (q @ rest) = Some (q, rest)"
  using assms by (auto simp: kinds_def quoted_closings_def)

lemma strip_name:
  assumes "(s, closings) \<in> set kinds" and "plain_name old" and "plain_name n" and "is_quote c"
    and "strip_prefix old (n @ c # rest) = Some r" and "strip_any closings r = Some (q, r')"
  shows "n = old"
proof -
  from strip_any_Some [OF assms(6)] have q: "q \<in> set closings" "r = q @ r'" by auto
  from closing_quote [of q "(s, closings)"] assms(1) q(1) obtain d q' where "q = [d, q']" "is_quote d" by auto
  with q(2) assms(5) have "n @ c # rest = old @ d # q' # r'" by (simp add: strip_prefix_Some)
  from quote_splits [OF _ _ this assms(4) \<open>is_quote d\<close>] assms(2,3) show ?thesis
    by (simp add: plain_name_def)
qed

lemma matchReference_Cons:
  "matchReference (x # xs) old closings s =
     (case matchReference [x] old closings s of None \<Rightarrow> matchReference xs old closings s | m \<Rightarrow> m)"
  by (simp split: option.splits)

lemma match_reference:
  assumes kind: "(s, closings) \<in> set kinds" and ref: "valid_segment (Ref p n q)" and old: "plain_name old"
  shows "matchReference (filter (\<lambda>p. p \<noteq> []) (quoted_openings s)) old closings (p @ n @ q @ rest) =
    (if p \<in> set (quoted_openings s) \<and> n = old then Some (p, q, rest) else None)"
proof (cases "p \<in> set (quoted_openings s)")
  case True
  from ref obtain s' closings' where s': "(s', closings') \<in> set kinds" "p \<in> set (quoted_openings s')"
    "q \<in> set closings'" by auto
  with True have "s' = s" by (auto simp: quoted_openings_def)
  with s'(1) kind have closings: "closings' = closings" by (auto simp: kinds_def)
  from closing_quote [of q "(s', closings')"] s' obtain c q' where q: "q = [c, q']" "is_quote c" by auto
  have name: "plain_name n" using ref by simp
  have other: "strip_any closings r = None" if "strip_prefix old (n @ q @ rest) = Some r" "n \<noteq> old" for r
    using strip_name [OF kind old name q(2), of "q' # rest" r] that q(1)
    by (cases "strip_any closings r") auto
  have one: "matchReference [x] old closings (p @ n @ q @ rest) =
      (if x = p \<and> n = old then Some (p, q, rest) else None)"
    if x: "x = s @ [a]" "p = s @ [b]" for x a b
    using other strip_closing [OF kind, of q rest] s'(3) closings x by (auto split: option.splits)
  obtain b where b: "p = s @ [b]" "b = CHR 0x27 \<or> b = CHR 0x22" using True by (auto simp: quoted_openings_def)
  have "filter (\<lambda>p. p \<noteq> []) (quoted_openings s) = [s @ [CHR 0x27], s @ [CHR 0x22]]"
    by (simp add: quoted_openings_def)
  moreover have "matchReference [s @ [CHR 0x27], s @ [CHR 0x22]] old closings (p @ n @ q @ rest) =
      (if n = old then Some (p, q, rest) else None)"
    unfolding matchReference_Cons [of "s @ [CHR 0x27]"] one [OF refl b(1)] using b by auto
  ultimately show ?thesis using True by simp
next
  case False
  then show ?thesis using kind ref by (auto simp: quoted_openings_def kinds_def)
qed

lemma kind_dollar: "(s, closings) \<in> set kinds \<Longrightarrow> \<exists>s'. s = CHR ''$'' # s' \<and> CHR ''$'' \<notin> set s'"
  by (auto simp: kinds_def)

lemma ref_dollar:
  assumes "valid_segment (Ref p n q)"
  shows "\<exists>p'. p = CHR ''$'' # p' \<and> CHR ''$'' \<notin> set (p' @ n @ q)"
  using assms by (auto simp: kinds_def quoted_openings_def quoted_closings_def plain_name_def)

lemma one_pass:
  assumes kind: "(s, closings) \<in> set kinds" and old: "plain_name old"
    and "\<forall>g \<in> set segs. valid_segment g"
  shows "replaceReferences (quoted_openings s) closings old new (render_all segs) =
    render_all (map (rename_segment (quoted_openings s) old new) segs)"
  using assms(3)
proof (induction segs)
  case (Cons g segs)
  let ?replace = "replaceReferences (quoted_openings s) closings old new"
  obtain s' where s: "s = CHR ''$'' # s'" using kind_dollar [OF kind] by blast
  have copy: "?replace (t @ rest) = t @ ?replace rest" if "CHR ''$'' \<notin> set t" for t rest
    unfolding s by (rule copy_plain [OF that])
  have IH: "?replace (render_all segs) = render_all (map (rename_segment (quoted_openings s) old new) segs)"
    using Cons by simp
  show ?case
  proof (cases g)
    case (Plain t)
    then have "CHR ''$'' \<notin> set t" using Cons.prems by simp
    from copy [OF this] show ?thesis using Plain IH by simp
  next
    case (Ref p n q)
    with Cons.prems have ref: "valid_segment (Ref p n q)" by simp
    obtain p' where p': "p = CHR ''$'' # p'" "CHR ''$'' \<notin> set (p' @ n @ q)"
      using ref_dollar [OF ref] by blast
    note m = match_reference [OF kind ref old, of "render_all segs"]
    have "?replace (p @ n @ q @ render_all segs) =
      (if p \<in> set (quoted_openings s) \<and> n = old then p @ new @ q @ ?replace (render_all segs)
       else CHR ''$'' # ?replace ((p' @ n @ q) @ render_all segs))"
      using m unfolding p'(1) by (auto split: option.splits)
    also have "?replace ((p' @ n @ q) @ render_all segs) = (p' @ n @ q) @ ?replace (render_all segs)"
      by (rule copy [OF p'(2)])
    finally show ?thesis using Ref IH p'(1) by simp
  qed
qed simp

lemma valid_renamed:
  assumes "valid_segment g" and "plain_name new"
  shows "valid_segment (rename_segment ops old new g)"
  using assms by (cases g) auto

text \<open>The guards of the passes do not change the result.\<close>

lemma includes_ref:
  assumes "Ref p n q \<in> set segs" and "p = s @ p'"
  shows "includesString (render_all segs) s" "includesString (render_all segs) n"
proof -
  from assms(1) obtain a b where "segs = a @ Ref p n q # b" by (meson split_list)
  then have "render_all segs = render_all a @ s @ (p' @ n @ q @ render_all b)"
    "render_all segs = (render_all a @ p) @ n @ (q @ render_all b)" using assms(2) by simp_all
  then show "includesString (render_all segs) s" "includesString (render_all segs) n"
    unfolding includesString_iff by blast+
qed

lemma map_rename_idem:
  assumes "\<And>p q. Ref p old q \<in> set segs \<Longrightarrow> p \<notin> set ops"
  shows "map (rename_segment ops old new) segs = segs"
proof (rule map_idI)
  fix g assume "g \<in> set segs"
  with assms show "rename_segment ops old new g = g" by (cases g) auto
qed

lemma guarded_pass:
  assumes "(s, closings) \<in> set kinds" and "plain_name old" and "\<forall>g \<in> set segs. valid_segment g"
  shows "(if includesString (render_all segs) s
      then setNewName (quoted_openings s) closings old new (render_all segs) else render_all segs) =
    render_all (map (rename_segment (quoted_openings s) old new) segs)"
proof (cases "includesString (render_all segs) s")
  case True
  then show ?thesis using one_pass [OF assms] by (simp add: setNewName_def)
next
  case False
  have "p \<notin> set (quoted_openings s)" if "Ref p old q \<in> set segs" for p q
    using includes_ref(1) [OF that] False by (auto simp: quoted_openings_def)
  from map_rename_idem [OF this] show ?thesis using False by simp
qed

lemma skip_plain:
  assumes "CHR ''$'' \<notin> set t" and "t @ u = a @ CHR ''$'' # b"
  shows "\<exists>a'. u = a' @ CHR ''$'' # b"
  using assms
proof (induction t arbitrary: a)
  case (Cons c t)
  then obtain a' where "a = c # a'" by (cases a) auto
  with Cons show ?case by auto
qed auto

lemma no_dotted:
  assumes "\<forall>g \<in> set segs. valid_segment g"
  shows "\<not> includesString (render_all segs) ''$node.''"
proof -
  have "render_all segs \<noteq> a @ ''$node.'' @ b" for a b
    using assms
  proof (induction segs arbitrary: a)
    case (Cons g segs)
    have IH: "render_all segs \<noteq> a @ ''$node.'' @ b" for a using Cons by simp
    show ?case
    proof (cases g)
      case (Plain t)
      with Cons.prems have "CHR ''$'' \<notin> set t" by simp
      from skip_plain [OF this, of "render_all segs" a "''node.'' @ b"] IH Plain show ?thesis by fastforce
    next
      case (Ref p n q)
      with Cons.prems have ref: "valid_segment (Ref p n q)" by simp
      obtain p' where p': "p = CHR ''$'' # p'" "CHR ''$'' \<notin> set (p' @ n @ q)"
        using ref_dollar [OF ref] by blast
      show ?thesis
      proof (cases a)
        case Nil
        then show ?thesis using ref Ref by (auto simp: kinds_def quoted_openings_def)
      next
        case (Cons c a')
        show ?thesis
        proof
          assume "render_all (g # segs) = a @ ''$node.'' @ b"
          then have "(p' @ n @ q) @ render_all segs = a' @ CHR ''$'' # (''node.'' @ b)"
            using Ref Cons p'(1) by simp
          from skip_plain [OF p'(2) this] IH show False by auto
        qed
      qed
    qed
  qed simp
  then show ?thesis unfolding includesString_iff by blast
qed

lemma rename_three:
  assumes "(s1, c1) \<in> set kinds" and "(s2, c2) \<in> set kinds" and "(s3, c3) \<in> set kinds"
    and "s1 \<noteq> s2" and "s1 \<noteq> s3" and "s2 \<noteq> s3"
  shows "map (rename_segment (quoted_openings s3) old new)
      (map (rename_segment (quoted_openings s2) old new)
        (map (rename_segment (quoted_openings s1) old new) segs)) =
    map (rename_segment (quoted_openings s1 @ quoted_openings s2 @ quoted_openings s3) old new) segs"
proof -
  have apart: "p \<in> set (quoted_openings a) \<Longrightarrow> p \<in> set (quoted_openings b) \<Longrightarrow> a = b" for a b p
    by (auto simp: quoted_openings_def)
  have "rename_segment (quoted_openings s3) old new (rename_segment (quoted_openings s2) old new
      (rename_segment (quoted_openings s1) old new g)) =
    rename_segment (quoted_openings s1 @ quoted_openings s2 @ quoted_openings s3) old new g" for g
    using apart [of _ s1 s2] apart [of _ s1 s3] apart [of _ s2 s3] assms(4-6) by (cases g) auto
  then show ?thesis by simp
qed




section \<open>The workflow\<close>

definition renamed :: "string \<Rightarrow> string \<Rightarrow> string \<Rightarrow> string" where
  "renamed old new n = (if n = old then new else n)"

definition renamed_conn :: "string \<Rightarrow> string \<Rightarrow> IConnection \<Rightarrow> IConnection" where
  "renamed_conn old new c = c\<lparr>connNode := renamed old new (connNode c)\<rparr>"

text \<open>A name that no node, no source and no target of a connection has.\<close>

definition fresh_name :: "string \<Rightarrow> Workflow \<Rightarrow> bool" where
  "fresh_name n w \<longleftrightarrow> map_get (wfNodes w) n = None \<and> map_get (connectionsBySourceNode w) n = None \<and>
     (\<forall>(s, nc) \<in> set (connectionsBySourceNode w). \<forall>(t, arr) \<in> set nc. \<forall>g \<in> set arr.
        case g of None \<Rightarrow> True | Some l \<Rightarrow> \<forall>c \<in> set l. connNode c \<noteq> n)"

definition rename_group :: "string \<Rightarrow> string \<Rightarrow> INodeConnections \<Rightarrow> INodeConnections" where
  "rename_group old new nc = map (\<lambda>(t, arr). (t, map (map_option (map (renamed_conn old new))) arr)) nc"

lemma renameTargets_get:
  "map_get (renameTargets old new conns) s = map_option (rename_group old new) (map_get conns s)"
proof -
  have same: "(\<lambda>c. if connNode c = old then c\<lparr>connNode := new\<rparr> else c) = renamed_conn old new"
    by (rule ext) (simp add: renamed_conn_def renamed_def)
  have "renameTargets old new conns = map (\<lambda>(s, nc). (s, rename_group old new nc)) conns"
    unfolding renameTargets_def rename_group_def same ..
  then show ?thesis by (simp add: map_of_map)
qed

lemma moveKey_get:
  "map_get (moveKey old new v m) s = (if s = old then None else if s = new then Some v else map_get m s)"
  by (simp add: moveKey_def)

lemma renameNode_sources:
  assumes "map_get (connectionsBySourceNode w) new = None" and "old \<noteq> new"
  shows "map_get (connectionsBySourceNode (renameNode old new w)) s =
    (if s = old then None
     else map_option (rename_group old new)
       (map_get (connectionsBySourceNode w) (if s = new then old else s)))"
  using assms by (auto simp: renameNode_def Let_def renameTargets_get moveKey_get split: option.splits)

lemma rename_group_back:
  assumes "\<forall>(t, arr) \<in> set nc. \<forall>g \<in> set arr. case g of None \<Rightarrow> True | Some l \<Rightarrow> \<forall>c \<in> set l. connNode c \<noteq> new"
  shows "rename_group new old (rename_group old new nc) = nc"
proof -
  have conn: "renamed_conn new old (renamed_conn old new c) = c" if "connNode c \<noteq> new" for c
    using that by (auto simp: renamed_conn_def renamed_def)
  have group: "map_option (map (renamed_conn new old)) (map_option (map (renamed_conn old new)) g) = g"
    if "case g of None \<Rightarrow> True | Some l \<Rightarrow> \<forall>c \<in> set l. connNode c \<noteq> new" for g
    using that by (cases g) (auto simp: conn intro: map_idI)
  show ?thesis
    unfolding rename_group_def map_map
  proof (rule map_idI)
    fix p assume "p \<in> set nc"
    with assms show "((\<lambda>(t, arr). (t, map (map_option (map (renamed_conn new old))) arr)) \<circ>
        (\<lambda>(t, arr). (t, map (map_option (map (renamed_conn old new))) arr))) p = p"
      by (cases p) (force simp: group intro: map_idI)
  qed
qed

lemma renamed_targets:
  assumes "(s, nc) \<in> set (renameTargets old new conns)" and "(t, arr) \<in> set nc" and "Some l \<in> set arr"
    and "c \<in> set l" and "old \<noteq> new"
  shows "connNode c \<noteq> old"
proof -
  from assms(1) obtain nc0 where nc: "nc = map (\<lambda>(t, arr). (t, map (map_option (map (\<lambda>c.
      if connNode c = old then c\<lparr>connNode := new\<rparr> else c))) arr)) nc0"
    by (auto simp: renameTargets_def)
  with assms(2) obtain arr0 where "arr = map (map_option (map (\<lambda>c.
      if connNode c = old then c\<lparr>connNode := new\<rparr> else c))) arr0" by auto
  with assms(3) obtain l0 where "l = map (\<lambda>c. if connNode c = old then c\<lparr>connNode := new\<rparr> else c) l0"
    by (auto simp: eq_commute [of "Some l"])
  with assms(4,5) show ?thesis by auto
qed

lemma fresh_after:
  assumes "old \<noteq> new"
  shows "fresh_name old (renameNode old new w)"
proof -
  have "map_get (map (\<lambda>(k, node). (k, renameInNode old new node)) m) old = None" if "map_get m old = None"
    for m :: "(string, INode) js_map"
    using that by (simp add: map_of_map)
  then have "map_get (wfNodes (renameNode old new w)) old = None"
    by (auto simp: renameNode_def Let_def moveKey_get split: option.splits)
  moreover have "map_get (connectionsBySourceNode (renameNode old new w)) old = None"
    by (auto simp: renameNode_def Let_def moveKey_get renameTargets_get split: option.splits)
  moreover have "connNode c \<noteq> old"
    if "(s, nc) \<in> set (connectionsBySourceNode (renameNode old new w))" "(t, arr) \<in> set nc"
      "Some l \<in> set arr" "c \<in> set l" for s nc t arr l c
    using that(1) renamed_targets [OF _ that(2-4) assms]
    by (auto simp: renameNode_def Let_def split: option.splits)
  ultimately show ?thesis unfolding fresh_name_def
    by (intro conjI ballI; clarsimp split: option.split; blast)
qed

lemma renameInNode_frame:
  "(renameInNode old new x)\<lparr>parameters := ps\<rparr> = x\<lparr>parameters := ps\<rparr>"
  by (simp add: renameInNode_def Let_def)

lemma renameNode_nodes:
  assumes "old \<noteq> new" and "map_get (wfNodes w) new = None"
  shows "map_option (\<lambda>x. x\<lparr>parameters := ps\<rparr>) (map_get (wfNodes (renameNode old new w)) n) =
    (if n = old then None
     else if n = new then map_option (\<lambda>x. x\<lparr>nodeName := new, parameters := ps\<rparr>) (map_get (wfNodes w) old)
     else map_option (\<lambda>x. x\<lparr>parameters := ps\<rparr>) (map_get (wfNodes w) n))"
  using assms
  by (auto simp: renameNode_def Let_def moveKey_get map_of_map option.map_comp comp_def renameInNode_frame
      split: option.splits)


definition pair_of_nodes :: Workflow where
  "pair_of_nodes = \<lparr>
     wfNodes = [(''a'', plain_node 1 ''a'' ''t''), (''b'', plain_node 2 ''b'' ''t'')],
     connectionsBySourceNode = [(''a'', [(Main, [Some [\<lparr>connNode = ''b'', connType = Main, connIndex = 0\<rparr>]])])],
     connectionsByDestinationNode = [(''b'', [(Main, [Some [\<lparr>connNode = ''a'', connType = Main, connIndex = 0\<rparr>]])])],
     executionOrder = Some ''v1'', wfPinData = None, nodeTypes = (\<lambda>_ _. None)\<rparr>"


text \<open>
  Renaming a node to the name that it already has deletes the node and the connections from it:
  the code assigns the new key and then deletes the old one, which is the same.
\<close>

theorem renameNode_same_name:
  "map_get (wfNodes (renameNode n n w)) n = None \<and>
   map_get (connectionsBySourceNode (renameNode n n w)) n = None"
proof -
  have "map_get (map (\<lambda>(k, node). (k, renameInNode n n node)) m) n = None" if "map_get m n = None"
    for m :: "(string, INode) js_map"
    using that by (simp add: map_of_map)
  then show ?thesis
    by (auto simp: renameNode_def Let_def moveKey_get renameTargets_get split: option.splits)
qed

lemma includesString_simps:
  "includesString [] t \<longleftrightarrow> t = []"
  "includesString (c # s) t \<longleftrightarrow> strip_prefix t (c # s) \<noteq> None \<or> includesString s t"
proof -
  show "includesString [] t \<longleftrightarrow> t = []" by (cases t) (auto simp: includesString_def)
  have "(\<exists>i \<in> {0..length (c # s)}. P i) \<longleftrightarrow> P 0 \<or> (\<exists>i \<in> {0..length s}. P (Suc i))" for P
    by (metis (no_types, lifting) atLeastAtMost_iff bot_nat_0.extremum length_Cons not0_implies_Suc not_less_eq_eq)
  then show "includesString (c # s) t \<longleftrightarrow> strip_prefix t (c # s) \<noteq> None \<or> includesString s t"
    by (simp add: includesString_def)
qed

text \<open>
  A new name with a blank turns references in dot notation into the bracket form, but the pattern
  for it matches any character before the name: text that only mentions the new name changes too, and
  the last character before it is lost.
\<close>

theorem renameExpression_touches_text:
  "renameExpression ''a'' ''b c'' ''=$node.a (b c )'' =
   ''=$node['' @ CHR 0x22 # ''b c'' @ CHR 0x22 # ''] ['' @ CHR 0x22 # ''b c'' @ CHR 0x22 # ''] )''"
proof -
  have "setNewName [''$node.''] [''.'', ''''] ''a'' ''b c'' ''=$node.a (b c )'' = ''=$node.b c (b c )''"
    by (simp add: setNewName_def)
  moreover have "hasDotNotationBannedChar ''b c''"
    by (simp add: hasDotNotationBannedChar_def DOT_NOTATION_BANNED_CHARS_def)
  moreover have "quoteDotted ''b c'' ''=$node.b c (b c )'' =
      ''=$node['' @ CHR 0x22 # ''b c'' @ CHR 0x22 # ''] ['' @ CHR 0x22 # ''b c'' @ CHR 0x22 # ''] )''"
    by (simp add: matchDotted_def line_end_def)
  ultimately show ?thesis
    by (simp add: renameExpression_def includesString_simps)
qed

end
