(* ===== verification/Task_Broker.thy ===== *)
theory Task_Broker
  imports N8n_Prelude
begin

text \<open>
  The class TaskBroker of packages/cli/src/task-runners/task-broker.service.ts, which matches the
  requests for tasks with the offers of task runners and passes messages between them.

  The callbacks that deliver messages are a parameter: what they are called with is collected in
  \<open>outbox\<close>. The asynchronous \<open>acceptOffer\<close> is split at its two awaited promises: \<open>startAccept\<close> runs
  up to the first, an entry of \<open>inFlight\<close> holds the promise that it awaits, and \<open>resumeAccept\<close> goes
  on once it is settled. A request is an object that the method keeps a reference to, so requests
  are stored by reference. Errors that leave an asynchronous method are collected in \<open>failures\<close>.
  Random task ids are numbers that were not used before. The contents of tasks are strings.
\<close>


section \<open>Messages\<close>

datatype ToRunner =
    InfoRequest
  | RunnerRegistered
  | TaskOfferAccept string nat
  | TaskCancel nat string
  | SettingsToRunner nat string
  | RpcResponseToRunner nat string bool string
  | DataToRunner nat string string
  | NodeTypesToRunner nat string string

datatype ToRequester =
    TaskReady string nat
  | TaskDone nat string
  | TaskFailed nat string
  | DataRequestToRequester nat string string
  | NodeTypesRequestToRequester nat string string
  | RpcToRequester nat string string

text \<open>What the broker sends, and the event that it emits when a task of an internal runner times out.\<close>

datatype Sent =
    SentToRunner string ToRunner
  | SentToRequester string ToRequester
  | TimedOutDuringTask

datatype RunnerMessage =
    RunnerInfo string "string list"
  | RunnerTaskAccepted nat
  | RunnerTaskRejected nat string
  | RunnerTaskDeferred nat
  | RunnerTaskOffer string string int
  | RunnerTaskDone nat string
  | RunnerTaskError nat string
  | RunnerDataRequest nat string string
  | RunnerNodeTypesRequest nat string string
  | RunnerRpc nat string string

datatype RequesterMessage =
    RequesterTaskSettings nat string
  | RequesterTaskCancel nat string
  | RequesterTaskRequest string string
  | RequesterDataResponse nat string string
  | RequesterNodeTypesResponse nat string string
  | RequesterRpcResponse nat string bool string


section \<open>State\<close>

record TaskRunner =
  trId :: string
  trTypes :: "string list"

record Task =
  taskRunner :: string
  taskRequester :: string
  taskTypeOf :: string

record TaskOffer =
  offerId :: string
  offerRunner :: string
  offerType :: string
  validFor :: int
  validUntil :: int

record TaskRequest =
  requestId :: string
  requestRequester :: string
  requestType :: string
  acceptInProgress :: bool

text \<open>The promises that \<open>acceptOffer\<close> awaits: for the runner, then for the requester's settings.\<close>

datatype 'a answer = Unsettled | Accepted 'a | RejectError string | DeferredError | TimeoutReason

datatype AcceptPhase = WaitRunner "unit answer" | WaitRequester "string answer"

record InFlight =
  flOffer :: TaskOffer
  flRequest :: nat
  flPhase :: AcceptPhase

record TaskBroker =
  knownRunners :: "(string, TaskRunner) js_map"
  requesters :: "string list"
  tasks :: "(nat, Task) js_map"
  runnerAcceptRejects :: "nat list"
  requesterAcceptRejects :: "nat list"
  pendingTaskOffers :: "TaskOffer list"
  requestObjects :: "TaskRequest list"
  pendingTaskRequests :: "nat list"
  inFlight :: "(nat, InFlight) js_map"
  timers :: "nat list"
  nextTaskId :: nat
  outbox :: "Sent list"
  failures :: "string list"
  internalMode :: bool

definition newTaskBroker :: "int \<Rightarrow> bool \<Rightarrow> TaskBroker res" where
  "newTaskBroker taskTimeout internal =
     (if taskTimeout \<le> 0 then Inl (ApplicationError ''Task timeout must be greater than 0'')
      else Inr \<lparr>knownRunners = [], requesters = [], tasks = [], runnerAcceptRejects = [],
        requesterAcceptRejects = [], pendingTaskOffers = [], requestObjects = [],
        pendingTaskRequests = [], inFlight = [], timers = [], nextTaskId = 0, outbox = [],
        failures = [], internalMode = internal\<rparr>)"


section \<open>Messages out\<close>

definition messageRunner :: "string \<Rightarrow> ToRunner \<Rightarrow> TaskBroker \<Rightarrow> TaskBroker" where
  "messageRunner runnerId m b =
     (if map_get (knownRunners b) runnerId = None then b
      else b\<lparr>outbox := outbox b @ [SentToRunner runnerId m]\<rparr>)"

definition messageRequester :: "string \<Rightarrow> ToRequester \<Rightarrow> TaskBroker \<Rightarrow> TaskBroker" where
  "messageRequester requesterId m b =
     (if requesterId \<in> set (requesters b) then b\<lparr>outbox := outbox b @ [SentToRequester requesterId m]\<rparr>
      else b)"

definition fail_with :: "string \<Rightarrow> TaskBroker \<Rightarrow> TaskBroker" where
  "fail_with e b = b\<lparr>failures := failures b @ [e]\<rparr>"


section \<open>Settling the promises of acceptOffer\<close>

fun settle_answer :: "'a answer \<Rightarrow> 'a answer \<Rightarrow> 'a answer" where
  "settle_answer v Unsettled = v"
| "settle_answer v p = p"

definition settleRunner :: "nat \<Rightarrow> unit answer \<Rightarrow> TaskBroker \<Rightarrow> TaskBroker" where
  "settleRunner taskId v b =
     (case map_get (inFlight b) taskId of
        Some f \<Rightarrow> (case flPhase f of
            WaitRunner p \<Rightarrow>
              b\<lparr>inFlight := map_put taskId (f\<lparr>flPhase := WaitRunner (settle_answer v p)\<rparr>) (inFlight b)\<rparr>
          | _ \<Rightarrow> b)
      | None \<Rightarrow> b)"

definition settleRequester :: "nat \<Rightarrow> string answer \<Rightarrow> TaskBroker \<Rightarrow> TaskBroker" where
  "settleRequester taskId v b =
     (case map_get (inFlight b) taskId of
        Some f \<Rightarrow> (case flPhase f of
            WaitRequester p \<Rightarrow>
              b\<lparr>inFlight := map_put taskId (f\<lparr>flPhase := WaitRequester (settle_answer v p)\<rparr>) (inFlight b)\<rparr>
          | _ \<Rightarrow> b)
      | None \<Rightarrow> b)"

text \<open>The entry of the callbacks is used once.\<close>

definition answerRunner :: "nat \<Rightarrow> unit answer \<Rightarrow> TaskBroker \<Rightarrow> TaskBroker" where
  "answerRunner taskId v b =
     (if taskId \<in> set (runnerAcceptRejects b)
      then (settleRunner taskId v b)\<lparr>runnerAcceptRejects := set_delete taskId (runnerAcceptRejects b)\<rparr>
      else b)"

definition handleRunnerAccept :: "nat \<Rightarrow> TaskBroker \<Rightarrow> TaskBroker" where
  "handleRunnerAccept taskId = answerRunner taskId (Accepted ())"

definition handleRunnerReject :: "nat \<Rightarrow> string \<Rightarrow> TaskBroker \<Rightarrow> TaskBroker" where
  "handleRunnerReject taskId reason = answerRunner taskId (RejectError reason)"

definition handleRunnerDeferred :: "nat \<Rightarrow> TaskBroker \<Rightarrow> TaskBroker" where
  "handleRunnerDeferred taskId = answerRunner taskId DeferredError"

definition answerRequester :: "nat \<Rightarrow> string answer \<Rightarrow> TaskBroker \<Rightarrow> TaskBroker" where
  "answerRequester taskId v b =
     (if taskId \<in> set (requesterAcceptRejects b)
      then (settleRequester taskId v b)
        \<lparr>requesterAcceptRejects := set_delete taskId (requesterAcceptRejects b)\<rparr>
      else b)"

definition handleRequesterAccept :: "nat \<Rightarrow> string \<Rightarrow> TaskBroker \<Rightarrow> TaskBroker" where
  "handleRequesterAccept taskId settings = answerRequester taskId (Accepted settings)"

definition handleRequesterReject :: "nat \<Rightarrow> string \<Rightarrow> TaskBroker \<Rightarrow> TaskBroker" where
  "handleRequesterReject taskId reason = answerRequester taskId (RejectError reason)"


section \<open>Ends of tasks\<close>

definition cancelTask :: "nat \<Rightarrow> string \<Rightarrow> TaskBroker \<Rightarrow> TaskBroker" where
  "cancelTask taskId reason b =
     (case map_get (tasks b) taskId of
        None \<Rightarrow> b
      | Some t \<Rightarrow> messageRunner (taskRunner t) (TaskCancel taskId reason)
          (b\<lparr>tasks := map_del taskId (tasks b)\<rparr>))"

definition failTask :: "nat \<Rightarrow> string \<Rightarrow> TaskBroker \<Rightarrow> TaskBroker" where
  "failTask taskId e b =
     (case map_get (tasks b) taskId of
        None \<Rightarrow> b
      | Some t \<Rightarrow> messageRequester (taskRequester t) (TaskFailed taskId e)
          (b\<lparr>tasks := map_del taskId (tasks b)\<rparr>))"

text \<open>A task that ends with a message to its requester; its timer is cleared first.\<close>

definition endTask :: "nat \<Rightarrow> ToRequester \<Rightarrow> TaskBroker \<Rightarrow> TaskBroker" where
  "endTask taskId m b =
     (case map_get (tasks b) taskId of
        None \<Rightarrow> b
      | Some t \<Rightarrow>
          (let b = messageRequester (taskRequester t) m (b\<lparr>timers := set_delete taskId (timers b)\<rparr>)
           in b\<lparr>tasks := map_del taskId (tasks b)\<rparr>))"

definition taskDoneHandler :: "nat \<Rightarrow> string \<Rightarrow> TaskBroker \<Rightarrow> TaskBroker" where
  "taskDoneHandler taskId data = endTask taskId (TaskDone taskId data)"

definition taskErrorHandler :: "nat \<Rightarrow> string \<Rightarrow> TaskBroker \<Rightarrow> TaskBroker" where
  "taskErrorHandler taskId e = endTask taskId (TaskFailed taskId e)"

definition handleTaskTimeout :: "nat \<Rightarrow> TaskBroker \<Rightarrow> TaskBroker" where
  "handleTaskTimeout taskId b =
     (case map_get (tasks b) taskId of
        None \<Rightarrow> b
      | Some t \<Rightarrow> taskErrorHandler taskId ''TaskRunnerTimeoutError''
          (if internalMode b then b\<lparr>outbox := outbox b @ [TimedOutDuringTask]\<rparr>
           else messageRunner (taskRunner t) (TaskCancel taskId ''Task execution timed out'') b))"


section \<open>Messages from requester to runner\<close>

text \<open>The runner of a task; a task whose runner is not known any more fails.\<close>

definition getRunnerOrFailTask :: "nat \<Rightarrow> TaskBroker \<Rightarrow> (string + TaskRunner) \<times> TaskBroker" where
  "getRunnerOrFailTask taskId b =
     (case map_get (tasks b) taskId of
        None \<Rightarrow> (Inl ''Cannot find runner, failed to find task'', b)
      | Some t \<Rightarrow> (case map_get (knownRunners b) (taskRunner t) of
          None \<Rightarrow> (let e = ''Cannot find runner, failed to find runner''
                  in (Inl e, failTask taskId e b))
        | Some r \<Rightarrow> (Inr r, b)))"

definition sendToRunnerOf :: "nat \<Rightarrow> ToRunner \<Rightarrow> TaskBroker \<Rightarrow> TaskBroker" where
  "sendToRunnerOf taskId m b =
     (case getRunnerOrFailTask taskId b of
        (Inl e, b) \<Rightarrow> fail_with e b
      | (Inr r, b) \<Rightarrow> messageRunner (trId r) m b)"

definition handleRequesterDataResponse :: "nat \<Rightarrow> string \<Rightarrow> string \<Rightarrow> TaskBroker \<Rightarrow> TaskBroker" where
  "handleRequesterDataResponse taskId request data = sendToRunnerOf taskId (DataToRunner taskId request data)"

definition handleRequesterNodeTypesResponse :: "nat \<Rightarrow> string \<Rightarrow> string \<Rightarrow> TaskBroker \<Rightarrow> TaskBroker"
  where
  "handleRequesterNodeTypesResponse taskId request types =
     sendToRunnerOf taskId (NodeTypesToRunner taskId request types)"

definition handleRequesterRpcResponse :: "nat \<Rightarrow> string \<Rightarrow> bool \<Rightarrow> string \<Rightarrow> TaskBroker \<Rightarrow> TaskBroker" where
  "handleRequesterRpcResponse taskId call success data =
     sendToRunnerOf taskId (RpcResponseToRunner taskId call success data)"

text \<open>The error of \<open>sendTaskSettings\<close> is handled by its caller.\<close>

definition sendTaskSettings :: "nat \<Rightarrow> string \<Rightarrow> TaskBroker \<Rightarrow> string option \<times> TaskBroker" where
  "sendTaskSettings taskId settings b =
     (case getRunnerOrFailTask taskId b of
        (Inl e, b) \<Rightarrow> (Some e, b)
      | (Inr r, b) \<Rightarrow>
          (None, messageRunner (trId r) (SettingsToRunner taskId settings)
            (b\<lparr>timers := set_add taskId (timers b)\<rparr>)))"


section \<open>Messages from runner to requester\<close>

definition sendToRequesterOf :: "nat \<Rightarrow> ToRequester \<Rightarrow> TaskBroker \<Rightarrow> TaskBroker" where
  "sendToRequesterOf taskId m b =
     (case map_get (tasks b) taskId of
        None \<Rightarrow> b
      | Some t \<Rightarrow> messageRequester (taskRequester t) m b)"

definition handleRpcRequest :: "nat \<Rightarrow> string \<Rightarrow> string \<Rightarrow> TaskBroker \<Rightarrow> TaskBroker" where
  "handleRpcRequest taskId call params = sendToRequesterOf taskId (RpcToRequester taskId call params)"

definition handleDataRequest :: "nat \<Rightarrow> string \<Rightarrow> string \<Rightarrow> TaskBroker \<Rightarrow> TaskBroker" where
  "handleDataRequest taskId request params =
     sendToRequesterOf taskId (DataRequestToRequester taskId request params)"

definition handleNodeTypesRequest :: "nat \<Rightarrow> string \<Rightarrow> string \<Rightarrow> TaskBroker \<Rightarrow> TaskBroker" where
  "handleNodeTypesRequest taskId request params =
     sendToRequesterOf taskId (NodeTypesRequestToRequester taskId request params)"

text \<open>\<open>handleResponse\<close> looks the runner up under the id of the requester.\<close>

definition handleResponse :: "nat \<Rightarrow> string \<Rightarrow> string \<Rightarrow> TaskBroker \<Rightarrow> TaskBroker" where
  "handleResponse taskId request data b =
     (case map_get (tasks b) taskId of
        None \<Rightarrow> b
      | Some t \<Rightarrow> messageRunner (taskRequester t) (DataToRunner taskId request data) b)"


section \<open>Matching offers and requests\<close>

definition expireTasks :: "int \<Rightarrow> TaskBroker \<Rightarrow> TaskBroker" where
  "expireTasks now b =
     b\<lparr>pendingTaskOffers := filter (\<lambda>o'. validFor o' = -1 \<or> now \<le> validUntil o') (pendingTaskOffers b)\<rparr>"

definition setProgress :: "nat \<Rightarrow> bool \<Rightarrow> TaskBroker \<Rightarrow> TaskBroker" where
  "setProgress ref v b =
     b\<lparr>requestObjects := (requestObjects b)[ref := (requestObjects b ! ref)\<lparr>acceptInProgress := v\<rparr>]\<rparr>"

text \<open>\<open>acceptOffer\<close> up to the promise of the runner.\<close>

definition startAccept :: "TaskOffer \<Rightarrow> nat \<Rightarrow> TaskBroker \<Rightarrow> TaskBroker" where
  "startAccept offer ref b =
     (let taskId = nextTaskId b
      in messageRunner (offerRunner offer) (TaskOfferAccept (offerId offer) taskId)
        (b\<lparr>nextTaskId := Suc taskId,
           runnerAcceptRejects := set_add taskId (runnerAcceptRejects b),
           inFlight := map_put taskId
             \<lparr>flOffer = offer, flRequest = ref, flPhase = WaitRunner Unsettled\<rparr> (inFlight b)\<rparr>))"

text \<open>The body of the loop over the pending requests.\<close>

definition settleRequest :: "nat \<Rightarrow> TaskBroker \<Rightarrow> TaskBroker" where
  "settleRequest ref b =
     (let request = requestObjects b ! ref in
      if acceptInProgress request then b
      else (case take_first (\<lambda>o'. offerType o' = requestType request) (pendingTaskOffers b) of
          None \<Rightarrow> b
        | Some (offer, offers) \<Rightarrow>
            startAccept offer ref ((setProgress ref True b)\<lparr>pendingTaskOffers := offers\<rparr>)))"

definition settleTasks :: "int \<Rightarrow> TaskBroker \<Rightarrow> TaskBroker" where
  "settleTasks now b = (let b = expireTasks now b in fold settleRequest (pendingTaskRequests b) b)"

definition taskRequested :: "int \<Rightarrow> TaskRequest \<Rightarrow> TaskBroker \<Rightarrow> TaskBroker" where
  "taskRequested now request b =
     settleTasks now
       (b\<lparr>requestObjects := requestObjects b @ [request],
          pendingTaskRequests := pendingTaskRequests b @ [length (requestObjects b)]\<rparr>)"

definition taskOffered :: "int \<Rightarrow> TaskOffer \<Rightarrow> TaskBroker \<Rightarrow> TaskBroker" where
  "taskOffered now offer b = settleTasks now (b\<lparr>pendingTaskOffers := pendingTaskOffers b @ [offer]\<rparr>)"

text \<open>The first pending request with the id of the request is removed.\<close>

definition dropPending :: "string \<Rightarrow> TaskBroker \<Rightarrow> nat list option" where
  "dropPending rid b =
     map_option snd
       (take_first (\<lambda>ref. requestId (requestObjects b ! ref) = rid) (pendingTaskRequests b))"

text \<open>\<open>acceptOffer\<close> after the runner has accepted: the task exists and its requester is told.\<close>

definition runnerAccepted :: "nat \<Rightarrow> InFlight \<Rightarrow> TaskBroker \<Rightarrow> TaskBroker" where
  "runnerAccepted taskId f b =
     (let request = requestObjects b ! flRequest f;
          b = b\<lparr>tasks := map_put taskId
                 \<lparr>taskRunner = offerRunner (flOffer f), taskRequester = requestRequester request,
                  taskTypeOf = offerType (flOffer f)\<rparr> (tasks b)\<rparr>
      in case dropPending (requestId request) b of
           None \<Rightarrow> b\<lparr>inFlight := map_del taskId (inFlight b)\<rparr>
         | Some pending \<Rightarrow>
             messageRequester (requestRequester request) (TaskReady (requestId request) taskId)
               (b\<lparr>pendingTaskRequests := pending,
                  requesterAcceptRejects := set_add taskId (requesterAcceptRejects b),
                  inFlight := map_put taskId (f\<lparr>flPhase := WaitRequester Unsettled\<rparr>) (inFlight b)\<rparr>))"

definition runnerDeclined :: "nat \<Rightarrow> InFlight \<Rightarrow> TaskBroker \<Rightarrow> TaskBroker" where
  "runnerDeclined taskId f b =
     (setProgress (flRequest f) False b)\<lparr>inFlight := map_del taskId (inFlight b)\<rparr>"

text \<open>\<open>acceptOffer\<close> after the requester has answered.\<close>

definition requesterAnswered :: "nat \<Rightarrow> string answer \<Rightarrow> TaskBroker \<Rightarrow> TaskBroker" where
  "requesterAnswered taskId v b =
     (case v of
        Accepted settings \<Rightarrow> (case sendTaskSettings taskId settings b of
            (None, b) \<Rightarrow> b
          | (Some e, b) \<Rightarrow> fail_with e (cancelTask taskId ''Unknown reason'' b))
      | RejectError reason \<Rightarrow> cancelTask taskId reason b
      | TimeoutReason \<Rightarrow> fail_with ''Requester timed out'' (cancelTask taskId ''Unknown reason'' b)
      | _ \<Rightarrow> fail_with '''' (cancelTask taskId ''Unknown reason'' b))"

text \<open>Going on after a settled promise; nothing happens while it is not settled.\<close>

definition resumeAccept :: "nat \<Rightarrow> TaskBroker \<Rightarrow> TaskBroker" where
  "resumeAccept taskId b =
     (case map_get (inFlight b) taskId of
        None \<Rightarrow> b
      | Some f \<Rightarrow> (case flPhase f of
          WaitRunner v \<Rightarrow> (case v of
              Unsettled \<Rightarrow> b
            | Accepted _ \<Rightarrow> runnerAccepted taskId f b
            | RejectError _ \<Rightarrow> runnerDeclined taskId f b
            | DeferredError \<Rightarrow>
                (let b = runnerDeclined taskId f b
                 in b\<lparr>pendingTaskRequests := pendingTaskRequests b @ [flRequest f]\<rparr>)
            | TimeoutReason \<Rightarrow> fail_with ''Runner timed out'' (runnerDeclined taskId f b))
        | WaitRequester v \<Rightarrow> (case v of
              Unsettled \<Rightarrow> b
            | _ \<Rightarrow> requesterAnswered taskId v (b\<lparr>inFlight := map_del taskId (inFlight b)\<rparr>))))"


section \<open>Runners and requesters\<close>

definition registerRunner :: "TaskRunner \<Rightarrow> TaskBroker \<Rightarrow> TaskBroker" where
  "registerRunner runner b =
     messageRunner (trId runner) RunnerRegistered
       (b\<lparr>knownRunners := map_put (trId runner) runner (knownRunners b)\<rparr>)"

definition failRunnerTask :: "string \<Rightarrow> string \<Rightarrow> nat \<Rightarrow> TaskBroker \<Rightarrow> TaskBroker" where
  "failRunnerTask runnerId e taskId b =
     (case map_get (tasks b) taskId of
        None \<Rightarrow> b
      | Some t \<Rightarrow>
          if taskRunner t = runnerId
          then handleRunnerReject taskId (''The Task Runner ('' @ runnerId @ '') has disconnected: '' @ e)
            (failTask taskId e b)
          else b)"

definition deregisterRunner :: "string \<Rightarrow> string \<Rightarrow> TaskBroker \<Rightarrow> TaskBroker" where
  "deregisterRunner runnerId e b =
     (let b = b\<lparr>knownRunners := map_del runnerId (knownRunners b),
                pendingTaskOffers := filter (\<lambda>o'. offerRunner o' \<noteq> runnerId) (pendingTaskOffers b)\<rparr>
      in fold (failRunnerTask runnerId e) (map_keys (tasks b)) b)"

definition registerRequester :: "string \<Rightarrow> TaskBroker \<Rightarrow> TaskBroker" where
  "registerRequester requesterId b = b\<lparr>requesters := set_add requesterId (requesters b)\<rparr>"

definition deregisterRequester :: "string \<Rightarrow> TaskBroker \<Rightarrow> TaskBroker" where
  "deregisterRequester requesterId b = b\<lparr>requesters := set_delete requesterId (requesters b)\<rparr>"


section \<open>Messages in\<close>

text \<open>Times are in nanoseconds, \<open>validFor\<close> in milliseconds; -1 does not expire.\<close>

definition offerOf :: "int \<Rightarrow> string \<Rightarrow> string \<Rightarrow> string \<Rightarrow> int \<Rightarrow> TaskOffer" where
  "offerOf now runnerId oid type valid =
     \<lparr>offerId = oid, offerRunner = runnerId, offerType = type, validFor = valid,
      validUntil = (if valid = -1 then 0 else now + valid * 1000000)\<rparr>"

definition onRunnerMessage :: "int \<Rightarrow> string \<Rightarrow> RunnerMessage \<Rightarrow> TaskBroker \<Rightarrow> TaskBroker" where
  "onRunnerMessage now runnerId m b =
     (if map_get (knownRunners b) runnerId = None then b
      else (case m of
          RunnerInfo name types \<Rightarrow> b
        | RunnerTaskAccepted taskId \<Rightarrow> handleRunnerAccept taskId b
        | RunnerTaskRejected taskId reason \<Rightarrow> handleRunnerReject taskId reason b
        | RunnerTaskDeferred taskId \<Rightarrow> handleRunnerDeferred taskId b
        | RunnerTaskOffer oid type valid \<Rightarrow> taskOffered now (offerOf now runnerId oid type valid) b
        | RunnerTaskDone taskId data \<Rightarrow> taskDoneHandler taskId data b
        | RunnerTaskError taskId e \<Rightarrow> taskErrorHandler taskId e b
        | RunnerDataRequest taskId request params \<Rightarrow> handleDataRequest taskId request params b
        | RunnerNodeTypesRequest taskId request params \<Rightarrow> handleNodeTypesRequest taskId request params b
        | RunnerRpc taskId call params \<Rightarrow> handleRpcRequest taskId call params b))"

definition onRequesterMessage :: "int \<Rightarrow> string \<Rightarrow> RequesterMessage \<Rightarrow> TaskBroker \<Rightarrow> TaskBroker" where
  "onRequesterMessage now requesterId m b =
     (case m of
        RequesterTaskSettings taskId settings \<Rightarrow> handleRequesterAccept taskId settings b
      | RequesterTaskCancel taskId reason \<Rightarrow> cancelTask taskId reason b
      | RequesterTaskRequest rid type \<Rightarrow>
          taskRequested now \<lparr>requestId = rid, requestRequester = requesterId, requestType = type,
            acceptInProgress = False\<rparr> b
      | RequesterDataResponse taskId request data \<Rightarrow> handleRequesterDataResponse taskId request data b
      | RequesterNodeTypesResponse taskId request types \<Rightarrow>
          handleRequesterNodeTypesResponse taskId request types b
      | RequesterRpcResponse taskId call success data \<Rightarrow>
          handleRequesterRpcResponse taskId call success data b)"

end
