(* ===== verification/Task_Broker_Facts.thy ===== *)
theory Task_Broker_Facts
  imports Task_Broker
begin

text \<open>
  The steps of the task broker and the invariant of its books: the requests that await a runner,
  the tasks, and the requests that a requester was told are ready.
\<close>


section \<open>Steps\<close>

text \<open>
  A request has an id that was not used before. A timer runs out at most once; the timeouts of the
  two promises of \<open>acceptOffer\<close> settle them, when they are not settled yet.
\<close>

inductive tb_step :: "TaskBroker \<Rightarrow> TaskBroker \<Rightarrow> bool" where
  tb_register: "tb_step b (registerRunner r b)"
| tb_deregister: "tb_step b (deregisterRunner i e b)"
| tb_requester: "tb_step b (registerRequester q b)"
| tb_leave: "tb_step b (deregisterRequester q b)"
| tb_runner: "tb_step b (onRunnerMessage now i m b)"
| tb_message: "(\<And>rid type. m = RequesterTaskRequest rid type \<Longrightarrow> rid \<notin> requestId ` set (requestObjects b)) \<Longrightarrow>
    tb_step b (onRequesterMessage now q m b)"
| tb_response: "tb_step b (handleResponse i rid data b)"
| tb_reject: "tb_step b (handleRequesterReject i reason b)"
| tb_resume: "tb_step b (resumeAccept i b)"
| tb_runner_timeout: "tb_step b (settleRunner i TimeoutReason b)"
| tb_requester_timeout: "tb_step b (settleRequester i TimeoutReason b)"
| tb_task_timeout: "i \<in> set (timers b) \<Longrightarrow>
    tb_step b (handleTaskTimeout i (b\<lparr>timers := set_delete i (timers b)\<rparr>))"

inductive tb_reachable :: "TaskBroker \<Rightarrow> bool" where
  tb_start: "newTaskBroker timeout internal = Inr b \<Longrightarrow> tb_reachable b"
| tb_next: "tb_reachable b \<Longrightarrow> tb_step b b' \<Longrightarrow> tb_reachable b'"


section \<open>The books\<close>

definition awaits :: "TaskBroker \<Rightarrow> nat \<Rightarrow> InFlight \<Rightarrow> bool" where
  "awaits b i f \<longleftrightarrow> map_get (inFlight b) i = Some f \<and> (\<exists>v. flPhase f = WaitRunner v)"

fun ready_of :: "Sent \<Rightarrow> string list" where
  "ready_of (SentToRequester q (TaskReady rid i)) = [rid]"
| "ready_of s = []"

definition ready_ids :: "TaskBroker \<Rightarrow> string list" where
  "ready_ids b = concat (map ready_of (outbox b))"

definition tasks_ok :: "TaskBroker \<Rightarrow> bool" where
  "tasks_ok b \<longleftrightarrow>
     (\<forall>i. i \<in> set (map_keys (tasks b)) \<longrightarrow> i < nextTaskId b \<and> i \<notin> set (runnerAcceptRejects b)) \<and>
     (\<forall>i \<in> set (runnerAcceptRejects b). i < nextTaskId b) \<and>
     (\<forall>i f. map_get (inFlight b) i = Some f \<longrightarrow> i < nextTaskId b) \<and>
     (\<forall>i f. awaits b i f \<longrightarrow> i \<notin> set (map_keys (tasks b))) \<and>
     (\<forall>i f. map_get (inFlight b) i = Some f \<and> flPhase f = WaitRunner (Accepted ()) \<longrightarrow>
        i \<notin> set (runnerAcceptRejects b))"

definition requests_ok :: "TaskBroker \<Rightarrow> bool" where
  "requests_ok b \<longleftrightarrow>
     distinct (map requestId (requestObjects b)) \<and>
     (\<forall>r \<in> set (pendingTaskRequests b). r < length (requestObjects b)) \<and>
     (\<forall>i f. map_get (inFlight b) i = Some f \<longrightarrow> flRequest f < length (requestObjects b) \<and>
        offerType (flOffer f) = requestType (requestObjects b ! flRequest f)) \<and>
     (\<forall>i f. awaits b i f \<longrightarrow> acceptInProgress (requestObjects b ! flRequest f) \<and>
        flRequest f \<in> set (pendingTaskRequests b)) \<and>
     (\<forall>i f i' f'. awaits b i f \<and> awaits b i' f' \<and> flRequest f = flRequest f' \<longrightarrow> i = i')"

definition ready_ok :: "TaskBroker \<Rightarrow> bool" where
  "ready_ok b \<longleftrightarrow> distinct (ready_ids b) \<and>
     (\<forall>rid \<in> set (ready_ids b). \<exists>r < length (requestObjects b). requestId (requestObjects b ! r) = rid \<and>
        acceptInProgress (requestObjects b ! r) \<and> (\<forall>i f. awaits b i f \<longrightarrow> flRequest f \<noteq> r))"

definition broker_ok :: "TaskBroker \<Rightarrow> bool" where
  "broker_ok b \<longleftrightarrow> tasks_ok b \<and> requests_ok b \<and> ready_ok b"


section \<open>Steps that only settle and remove\<close>

text \<open>
  Such a step keeps the requests, may drop tasks and entries, and may settle a promise: an entry
  that then is accepted is no longer listed as unanswered.
\<close>

definition entry_settles :: "nat list \<Rightarrow> nat \<Rightarrow> InFlight \<Rightarrow> InFlight \<Rightarrow> bool" where
  "entry_settles unanswered i f f' \<longleftrightarrow>
     flRequest f' = flRequest f \<and> flOffer f' = flOffer f \<and>
     ((\<exists>v. flPhase f' = WaitRunner v) \<longrightarrow> (\<exists>v. flPhase f = WaitRunner v)) \<and>
     (flPhase f' = WaitRunner (Accepted ()) \<longrightarrow> flPhase f = flPhase f' \<or> i \<notin> set unanswered)"

definition shrinks :: "TaskBroker \<Rightarrow> TaskBroker \<Rightarrow> bool" where
  "shrinks b b' \<longleftrightarrow>
     requestObjects b' = requestObjects b \<and> pendingTaskRequests b' = pendingTaskRequests b \<and>
     nextTaskId b' = nextTaskId b \<and> ready_ids b' = ready_ids b \<and>
     set (map_keys (tasks b')) \<subseteq> set (map_keys (tasks b)) \<and>
     set (runnerAcceptRejects b') \<subseteq> set (runnerAcceptRejects b) \<and>
     (\<forall>i f'. map_get (inFlight b') i = Some f' \<longrightarrow>
       (\<exists>f. map_get (inFlight b) i = Some f \<and> entry_settles (runnerAcceptRejects b') i f f'))"

lemma shrinks_fields:
  assumes "shrinks b b'"
  shows "requestObjects b' = requestObjects b" "pendingTaskRequests b' = pendingTaskRequests b"
    "nextTaskId b' = nextTaskId b" "ready_ids b' = ready_ids b"
    "i \<in> set (map_keys (tasks b')) \<Longrightarrow> i \<in> set (map_keys (tasks b))"
    "i \<in> set (runnerAcceptRejects b') \<Longrightarrow> i \<in> set (runnerAcceptRejects b)"
  using assms unfolding shrinks_def by blast+

lemma shrinks_entry:
  assumes "shrinks b b'" and "map_get (inFlight b') i = Some f'"
  obtains f where "map_get (inFlight b) i = Some f" "entry_settles (runnerAcceptRejects b') i f f'"
  using assms unfolding shrinks_def by blast

lemma entry_settles_refl [simp]: "entry_settles u i f f"
  by (simp add: entry_settles_def)

lemma shrinks_refl [simp]: "shrinks b b"
  by (simp add: shrinks_def)

lemma shrinks_trans:
  assumes "shrinks a b" and "shrinks b c"
  shows "shrinks a c"
proof -
  have "\<exists>f. map_get (inFlight a) i = Some f \<and> entry_settles (runnerAcceptRejects c) i f f''"
    if "map_get (inFlight c) i = Some f''" for i f''
  proof -
    from shrinks_entry [OF assms(2) that] obtain f' where
      f': "map_get (inFlight b) i = Some f'" "entry_settles (runnerAcceptRejects c) i f' f''" .
    from shrinks_entry [OF assms(1) f'(1)] obtain f where
      f: "map_get (inFlight a) i = Some f" "entry_settles (runnerAcceptRejects b) i f f'" .
    have "entry_settles (runnerAcceptRejects c) i f f''"
      using f(2) f'(2) shrinks_fields(6) [OF assms(2), of i] unfolding entry_settles_def by auto
    with f(1) show ?thesis by blast
  qed
  moreover have "set (map_keys (tasks c)) \<subseteq> set (map_keys (tasks a))"
    "set (runnerAcceptRejects c) \<subseteq> set (runnerAcceptRejects a)"
    using assms unfolding shrinks_def by blast+
  ultimately show ?thesis
    using shrinks_fields(1-4) [OF assms(1)] shrinks_fields(1-4) [OF assms(2)] unfolding shrinks_def by simp
qed

lemma shrinks_awaits:
  assumes "shrinks b b'" and "awaits b' i f'"
  obtains f where "awaits b i f" "flRequest f' = flRequest f" "flOffer f' = flOffer f"
proof -
  from assms(2) have "map_get (inFlight b') i = Some f'" by (simp add: awaits_def)
  from shrinks_entry [OF assms(1) this] obtain f where
    "map_get (inFlight b) i = Some f" "entry_settles (runnerAcceptRejects b') i f f'" .
  with assms(2) that show ?thesis by (auto simp: awaits_def entry_settles_def)
qed

lemma shrinks_ok:
  assumes s: "shrinks b b'" and "broker_ok b"
  shows "broker_ok b'"
proof -
  have t: "tasks_ok b" and r: "requests_ok b" and y: "ready_ok b" using assms(2) by (simp_all add: broker_ok_def)
  note fields = shrinks_fields [OF s]
  have entry: "\<exists>f. map_get (inFlight b) i = Some f \<and> flRequest f' = flRequest f \<and> flOffer f' = flOffer f \<and>
      (flPhase f' = WaitRunner (Accepted ()) \<longrightarrow> flPhase f = flPhase f' \<or> i \<notin> set (runnerAcceptRejects b'))"
    if "map_get (inFlight b') i = Some f'" for i f'
    using shrinks_entry [OF s that] unfolding entry_settles_def by metis
  have aw: "\<exists>f. awaits b i f \<and> flRequest f' = flRequest f" if "awaits b' i f'" for i f'
    using shrinks_awaits [OF s that] by metis
  have "tasks_ok b'"
    unfolding tasks_ok_def
  proof (intro conjI allI ballI impI)
    fix i assume "i \<in> set (map_keys (tasks b'))"
    with t fields show "i < nextTaskId b'" "i \<notin> set (runnerAcceptRejects b')" unfolding tasks_ok_def by metis+
  next
    fix i assume "i \<in> set (runnerAcceptRejects b')"
    with t fields show "i < nextTaskId b'" unfolding tasks_ok_def by metis
  next
    fix i f assume "map_get (inFlight b') i = Some f"
    from entry [OF this] t fields(3) show "i < nextTaskId b'" unfolding tasks_ok_def by metis
  next
    fix i f assume "awaits b' i f"
    from aw [OF this] t fields(5) show "i \<notin> set (map_keys (tasks b'))" unfolding tasks_ok_def by metis
  next
    fix i f assume "map_get (inFlight b') i = Some f \<and> flPhase f = WaitRunner (Accepted ())"
    with entry [of i f] t fields(6) show "i \<notin> set (runnerAcceptRejects b')" unfolding tasks_ok_def by metis
  qed
  moreover have "requests_ok b'"
    unfolding requests_ok_def fields(1,2)
  proof (intro conjI allI impI)
    fix i f assume "map_get (inFlight b') i = Some f"
    from entry [OF this] r show "flRequest f < length (requestObjects b)"
      "offerType (flOffer f) = requestType (requestObjects b ! flRequest f)" unfolding requests_ok_def by metis+
  next
    fix i f assume "awaits b' i f"
    from aw [OF this] r show "acceptInProgress (requestObjects b ! flRequest f)"
      "flRequest f \<in> set (pendingTaskRequests b)" unfolding requests_ok_def by metis+
  next
    fix i f i' f' assume "awaits b' i f \<and> awaits b' i' f' \<and> flRequest f = flRequest f'"
    with aw [of i f] aw [of i' f'] r show "i = i'" unfolding requests_ok_def by metis
  qed (use r in \<open>simp_all add: requests_ok_def\<close>)
  moreover have "ready_ok b'"
    unfolding ready_ok_def fields(1,4)
  proof (intro conjI ballI)
    fix rid assume "rid \<in> set (ready_ids b)"
    with y obtain r where "r < length (requestObjects b)" "requestId (requestObjects b ! r) = rid"
      "acceptInProgress (requestObjects b ! r)" "\<forall>i f. awaits b i f \<longrightarrow> flRequest f \<noteq> r"
      unfolding ready_ok_def by blast
    with aw show "\<exists>r < length (requestObjects b). requestId (requestObjects b ! r) = rid \<and>
        acceptInProgress (requestObjects b ! r) \<and> (\<forall>i f. awaits b' i f \<longrightarrow> flRequest f \<noteq> r)" by metis
  qed (use y in \<open>simp add: ready_ok_def\<close>)
  ultimately show ?thesis by (simp add: broker_ok_def)
qed



section \<open>Which steps shrink the books\<close>

named_theorems shrinking \<open>operations that only settle and remove\<close>

lemma ready_ids_append [simp]: "concat (map ready_of (xs @ ys)) = concat (map ready_of xs) @ concat (map ready_of ys)"
  by simp

lemma shrinks_plain:
  assumes "requestObjects b' = requestObjects b" and "pendingTaskRequests b' = pendingTaskRequests b"
    and "nextTaskId b' = nextTaskId b" and "ready_ids b' = ready_ids b" and "inFlight b' = inFlight b"
    and "set (map_keys (tasks b')) \<subseteq> set (map_keys (tasks b))"
    and "set (runnerAcceptRejects b') \<subseteq> set (runnerAcceptRejects b)"
  shows "shrinks b b'"
  using assms by (simp add: shrinks_def)

lemma messageRunner_shrinks [shrinking]: "shrinks b (messageRunner i m b)"
  by (rule shrinks_plain) (simp_all add: messageRunner_def ready_ids_def)

lemma messageRequester_shrinks [shrinking]:
  "(\<And>q. ready_of (SentToRequester q m) = []) \<Longrightarrow> shrinks b (messageRequester q m b)"
  by (rule shrinks_plain) (simp_all add: messageRequester_def ready_ids_def)

lemma drop_task_shrinks [shrinking]: "shrinks b (b\<lparr>tasks := map_del i (tasks b)\<rparr>)"
  by (rule shrinks_plain) (auto simp: ready_ids_def set_map_del)

lemma other_fields_shrink [shrinking]:
  "shrinks b (b\<lparr>timers := ts\<rparr>)" "shrinks b (b\<lparr>pendingTaskOffers := os\<rparr>)"
  "shrinks b (b\<lparr>knownRunners := rs\<rparr>)" "shrinks b (b\<lparr>requesters := qs\<rparr>)"
  "shrinks b (b\<lparr>requesterAcceptRejects := is\<rparr>)" "shrinks b (fail_with e b)"
  by (rule shrinks_plain; simp add: ready_ids_def fail_with_def)+

lemma then_messageRunner [shrinking]: "shrinks b b' \<Longrightarrow> shrinks b (messageRunner i m b')"
  by (erule shrinks_trans) (rule messageRunner_shrinks)

lemma then_messageRequester [shrinking]:
  "shrinks b b' \<Longrightarrow> (\<And>q. ready_of (SentToRequester q m) = []) \<Longrightarrow> shrinks b (messageRequester q m b')"
  by (erule shrinks_trans) (rule messageRequester_shrinks)

lemma cancelTask_shrinks [shrinking]: "shrinks b (cancelTask i reason b)"
  by (auto simp: cancelTask_def intro!: shrinking split: option.split)

lemma failTask_shrinks [shrinking]: "shrinks b (failTask i e b)"
  by (auto simp: failTask_def intro!: shrinking split: option.split)

lemma endTask_shrinks [shrinking]:
  assumes "\<And>q. ready_of (SentToRequester q m) = []"
  shows "shrinks b (endTask i m b)"
proof -
  have "shrinks b (messageRequester q m (b\<lparr>timers := ts\<rparr>))" for q ts
    using assms by (intro shrinking)
  from shrinks_trans [OF this drop_task_shrinks] show ?thesis
    by (auto simp: endTask_def Let_def split: option.split)
qed

lemma timeout_shrinks [shrinking]: "shrinks b (handleTaskTimeout i b)"
proof -
  have e: "shrinks b' (taskErrorHandler i m b')" for b' m
    by (simp add: taskErrorHandler_def shrinking)
  have "shrinks b (b\<lparr>outbox := outbox b @ [TimedOutDuringTask]\<rparr>)"
    by (rule shrinks_plain) (simp_all add: ready_ids_def)
  then have "shrinks b (if internalMode b then b\<lparr>outbox := outbox b @ [TimedOutDuringTask]\<rparr>
      else messageRunner r m b)" for r m
    by (simp add: shrinking)
  from shrinks_trans [OF this e] show ?thesis by (simp add: handleTaskTimeout_def split: option.split)
qed

lemma getRunner_shrinks: "getRunnerOrFailTask i b = (x, b') \<Longrightarrow> shrinks b b'"
  by (auto simp: getRunnerOrFailTask_def Let_def shrinking split: option.splits)

lemma sendToRunnerOf_shrinks [shrinking]: "shrinks b (sendToRunnerOf i m b)"
  by (auto simp: sendToRunnerOf_def split: prod.split sum.split
      intro!: shrinking dest!: getRunner_shrinks intro: shrinks_trans [OF _ other_fields_shrink(6)])

lemma sendToRequesterOf_shrinks [shrinking]:
  "(\<And>q. ready_of (SentToRequester q m) = []) \<Longrightarrow> shrinks b (sendToRequesterOf i m b)"
  by (auto simp: sendToRequesterOf_def intro!: shrinking split: option.split)

lemma settle_answer_cases: "settle_answer v p = v \<or> settle_answer v p = p"
  by (cases p) auto

lemma settleRunner_shrinks:
  assumes "v \<noteq> Accepted ()"
  shows "shrinks b (settleRunner i v b)"
  using assms settle_answer_cases [of v]
  by (auto simp: shrinks_def settleRunner_def ready_ids_def entry_settles_def split: option.split AcceptPhase.split)
    metis

lemma answerRunner_shrinks [shrinking]: "shrinks b (answerRunner i v b)"
  by (auto simp: shrinks_def answerRunner_def settleRunner_def ready_ids_def entry_settles_def
      split: option.split AcceptPhase.split)

lemma settleRequester_shrinks [shrinking]: "shrinks b (settleRequester i v b)"
  by (auto simp: shrinks_def settleRequester_def ready_ids_def entry_settles_def
      split: option.split AcceptPhase.split)

lemma answerRequester_shrinks [shrinking]: "shrinks b (answerRequester i v b)"
  by (auto simp: answerRequester_def intro: shrinks_trans [OF settleRequester_shrinks other_fields_shrink(5)])

lemma drop_entry_shrinks [shrinking]: "shrinks b (b\<lparr>inFlight := map_del i (inFlight b)\<rparr>)"
  by (auto simp: shrinks_def ready_ids_def)



section \<open>Steps that change the requests\<close>

lemma setProgress_objects [simp]:
  "length (requestObjects (setProgress r v b)) = length (requestObjects b)"
  "map requestId (requestObjects (setProgress r v b)) = map requestId (requestObjects b)"
  "s < length (requestObjects b) \<Longrightarrow> requestObjects (setProgress r v b) ! s =
    (if s = r then (requestObjects b ! s)\<lparr>acceptInProgress := v\<rparr> else requestObjects b ! s)"
proof -
  show "map requestId (requestObjects (setProgress r v b)) = map requestId (requestObjects b)"
  proof (cases "r < length (requestObjects b)")
    case True
    have "requestId ((requestObjects b ! r)\<lparr>acceptInProgress := v\<rparr>) = map requestId (requestObjects b) ! r"
      using True by simp
    then show ?thesis by (simp only: setProgress_def map_update TaskBroker.simps list_update_id)
      (simp add: map_update)
  qed (simp add: setProgress_def list_update_beyond)
qed (auto simp: setProgress_def nth_list_update)

lemma setProgress_fields [simp]:
  "tasks (setProgress r v b) = tasks b" "runnerAcceptRejects (setProgress r v b) = runnerAcceptRejects b"
  "pendingTaskRequests (setProgress r v b) = pendingTaskRequests b" "inFlight (setProgress r v b) = inFlight b"
  "nextTaskId (setProgress r v b) = nextTaskId b" "outbox (setProgress r v b) = outbox b"
  "pendingTaskOffers (setProgress r v b) = pendingTaskOffers b"
  by (simp_all add: setProgress_def)

lemma requests_okD:
  assumes "requests_ok b"
  shows "distinct (map requestId (requestObjects b))"
    "r \<in> set (pendingTaskRequests b) \<Longrightarrow> r < length (requestObjects b)"
    "map_get (inFlight b) i = Some f \<Longrightarrow> flRequest f < length (requestObjects b)"
    "map_get (inFlight b) i = Some f \<Longrightarrow> offerType (flOffer f) = requestType (requestObjects b ! flRequest f)"
    "awaits b i f \<Longrightarrow> acceptInProgress (requestObjects b ! flRequest f)"
    "awaits b i f \<Longrightarrow> flRequest f \<in> set (pendingTaskRequests b)"
    "awaits b i f \<Longrightarrow> awaits b i' f' \<Longrightarrow> flRequest f = flRequest f' \<Longrightarrow> i = i'"
  using assms unfolding requests_ok_def by blast+

lemma awaits_get: "awaits b i f \<Longrightarrow> map_get (inFlight b) i = Some f"
  by (simp add: awaits_def)

text \<open>Starting to accept an offer for a request that is pending and not in progress.\<close>

lemma start_ok:
  assumes ok: "broker_ok b" and r: "r \<in> set (pendingTaskRequests b)"
    and idle: "\<not> acceptInProgress (requestObjects b ! r)"
    and type: "offerType offer = requestType (requestObjects b ! r)"
  shows "broker_ok (startAccept offer r ((setProgress r True b)\<lparr>pendingTaskOffers := offers\<rparr>))"
proof -
  let ?f = "\<lparr>flOffer = offer, flRequest = r, flPhase = WaitRunner Unsettled\<rparr>"
  let ?n = "nextTaskId b"
  define b' where "b' = (setProgress r True b)\<lparr>pendingTaskOffers := offers, nextTaskId := Suc ?n,
    runnerAcceptRejects := set_add ?n (runnerAcceptRejects b), inFlight := map_put ?n ?f (inFlight b)\<rparr>"
  have t: "tasks_ok b" and q: "requests_ok b" and y: "ready_ok b" using ok by (simp_all add: broker_ok_def)
  note qd = requests_okD [OF q]
  have aw: "awaits b' i f \<longleftrightarrow> (if i = ?n then f = ?f else awaits b i f)" for i f
    by (auto simp: awaits_def b'_def)
  have other: "awaits b i f \<Longrightarrow> flRequest f \<noteq> r" for i f using qd(5) idle by metis
  have lt: "awaits b i f \<Longrightarrow> flRequest f < length (requestObjects b)" for i f
    using qd(3) awaits_get by metis
  have objs: "requestObjects b' = requestObjects (setProgress r True b)" by (simp add: b'_def)
  have len: "r < length (requestObjects b)" using qd(2) r .
  have "tasks_ok b'"
  proof -
    have "i < Suc ?n" if "i < ?n" for i using that by simp
    then show ?thesis
      using t unfolding tasks_ok_def aw by (auto simp: b'_def)
  qed
  moreover have "requests_ok b'"
    unfolding requests_ok_def aw objs
  proof (intro conjI allI ballI impI)
    fix i f assume "map_get (inFlight b') i = Some f"
    then have "(i = ?n \<and> f = ?f) \<or> map_get (inFlight b) i = Some f" by (auto simp: b'_def split: if_splits)
    with qd(3,4) len type show "flRequest f < length (requestObjects (setProgress r True b))"
      "offerType (flOffer f) = requestType (requestObjects (setProgress r True b) ! flRequest f)"
      by (auto dest: qd(3) qd(4))
  next
    fix i f assume "if i = ?n then f = ?f else awaits b i f"
    with len lt qd(5,6) r other show "acceptInProgress (requestObjects (setProgress r True b) ! flRequest f)"
      "flRequest f \<in> set (pendingTaskRequests b')"
      by (auto simp: b'_def split: if_splits)
  next
    fix i f i' f'
    assume "(if i = ?n then f = ?f else awaits b i f) \<and> (if i' = ?n then f' = ?f else awaits b i' f') \<and>
      flRequest f = flRequest f'"
    with other qd(7) show "i = i'" by (auto split: if_splits) metis+
  qed (use qd(1,2) in \<open>auto simp: b'_def\<close>)
  moreover have "ready_ok b'"
  proof -
    have ids: "ready_ids b' = ready_ids b" by (simp add: ready_ids_def b'_def)
    show ?thesis
      unfolding ready_ok_def ids aw objs
    proof (intro conjI ballI)
      fix rid assume "rid \<in> set (ready_ids b)"
      with y obtain s where s: "s < length (requestObjects b)" "requestId (requestObjects b ! s) = rid"
        "acceptInProgress (requestObjects b ! s)" "\<forall>i f. awaits b i f \<longrightarrow> flRequest f \<noteq> s"
        unfolding ready_ok_def by blast
      with idle have "s \<noteq> r" by blast
      with s show "\<exists>s < length (requestObjects (setProgress r True b)).
          requestId (requestObjects (setProgress r True b) ! s) = rid \<and>
          acceptInProgress (requestObjects (setProgress r True b) ! s) \<and>
          (\<forall>i f. (if i = ?n then f = ?f else awaits b i f) \<longrightarrow> flRequest f \<noteq> s)"
        by (intro exI [of _ s]) auto
    qed (use y in \<open>simp add: ready_ok_def\<close>)
  qed
  ultimately have "broker_ok b'" by (simp add: broker_ok_def)
  moreover have "startAccept offer r ((setProgress r True b)\<lparr>pendingTaskOffers := offers\<rparr>) =
      messageRunner (offerRunner offer) (TaskOfferAccept (offerId offer) ?n) b'"
    by (simp add: startAccept_def Let_def b'_def)
  ultimately show ?thesis using shrinks_ok [OF messageRunner_shrinks] by metis
qed

lemma startAccept_requests [simp]:
  "pendingTaskRequests (startAccept offer r b) = pendingTaskRequests b"
  "requestObjects (startAccept offer r b) = requestObjects b"
  "pendingTaskOffers (startAccept offer r b) = pendingTaskOffers b"
  by (simp_all add: startAccept_def messageRunner_def Let_def)

lemma settleRequest_pending [simp]: "pendingTaskRequests (settleRequest r b) = pendingTaskRequests b"
  by (simp add: settleRequest_def Let_def split: option.split)

lemma settleRequest_ok:
  assumes "broker_ok b" and "r \<in> set (pendingTaskRequests b)"
  shows "broker_ok (settleRequest r b)"
proof (cases "acceptInProgress (requestObjects b ! r)")
  case True
  with assms(1) show ?thesis by (simp add: settleRequest_def)
next
  case False
  show ?thesis
  proof (cases "take_first (\<lambda>o'. offerType o' = requestType (requestObjects b ! r)) (pendingTaskOffers b)")
    case None
    with False assms(1) show ?thesis by (simp add: settleRequest_def)
  next
    case (Some p)
    then obtain offer offers where p: "p = (offer, offers)" by (cases p)
    with Some have "offerType offer = requestType (requestObjects b ! r)"
      by (auto dest!: take_first_Some)
    from start_ok [OF assms False this] Some p False show ?thesis
      by (simp add: settleRequest_def Let_def)
  qed
qed

lemma settle_loop_ok:
  "broker_ok b \<Longrightarrow> set rs \<subseteq> set (pendingTaskRequests b) \<Longrightarrow> broker_ok (fold settleRequest rs b)"
proof (induction rs arbitrary: b)
  case (Cons r rs)
  then show ?case using settleRequest_ok [of b r] by simp
qed simp

lemma settleTasks_ok:
  assumes "broker_ok b"
  shows "broker_ok (settleTasks now b)"
proof -
  have "broker_ok (expireTasks now b)"
    using shrinks_ok [OF other_fields_shrink(2) assms] by (simp add: expireTasks_def)
  then show ?thesis by (simp add: settleTasks_def Let_def settle_loop_ok)
qed


text \<open>A runner that does not take the request: it is no longer in progress.\<close>

lemma declined_ok:
  assumes ok: "broker_ok b" and f: "awaits b i f"
  shows "broker_ok (runnerDeclined i f b)"
proof -
  let ?r = "flRequest f"
  define b' where "b' = runnerDeclined i f b"
  have t: "tasks_ok b" and q: "requests_ok b" and y: "ready_ok b" using ok by (simp_all add: broker_ok_def)
  note qd = requests_okD [OF q]
  have fields: "tasks b' = tasks b" "runnerAcceptRejects b' = runnerAcceptRejects b" "nextTaskId b' = nextTaskId b"
    "pendingTaskRequests b' = pendingTaskRequests b" "ready_ids b' = ready_ids b"
    "inFlight b' = map_del i (inFlight b)" "requestObjects b' = requestObjects (setProgress ?r False b)"
    by (simp_all add: b'_def runnerDeclined_def ready_ids_def)
  have get: "map_get (inFlight b') j = Some g \<longleftrightarrow> j \<noteq> i \<and> map_get (inFlight b) j = Some g" for j g
    by (simp add: fields)
  have aw: "awaits b' j g \<longleftrightarrow> j \<noteq> i \<and> awaits b j g" for j g
    by (auto simp: awaits_def get)
  have other: "flRequest g \<noteq> ?r" if "j \<noteq> i" "awaits b j g" for j g
    using qd(7) [OF that(2) f] that(1) by metis
  have lt: "awaits b j g \<Longrightarrow> flRequest g < length (requestObjects b)" for j g
    using qd(3) awaits_get by metis
  have "tasks_ok b'"
    using t unfolding tasks_ok_def fields(1-3) aw get by blast
  moreover have "requests_ok b'"
    unfolding requests_ok_def aw get fields(4,7)
  proof (intro conjI allI impI ballI)
    fix j g assume "j \<noteq> i \<and> map_get (inFlight b) j = Some g"
    with qd(3,4) show "flRequest g < length (requestObjects (setProgress ?r False b))"
      "offerType (flOffer g) = requestType (requestObjects (setProgress ?r False b) ! flRequest g)"
      by (auto dest: qd(3) qd(4))
  next
    fix j g assume "j \<noteq> i \<and> awaits b j g"
    with other lt qd(5,6) show "acceptInProgress (requestObjects (setProgress ?r False b) ! flRequest g)"
      "flRequest g \<in> set (pendingTaskRequests b)" by auto
  next
    fix j g j' g' assume "(j \<noteq> i \<and> awaits b j g) \<and> (j' \<noteq> i \<and> awaits b j' g') \<and> flRequest g = flRequest g'"
    with qd(7) show "j = j'" by blast
  qed (use qd(1,2) in auto)
  moreover have "ready_ok b'"
    unfolding ready_ok_def aw fields(5,7)
  proof (intro conjI ballI)
    fix rid assume "rid \<in> set (ready_ids b)"
    with y obtain s where s: "s < length (requestObjects b)" "requestId (requestObjects b ! s) = rid"
      "acceptInProgress (requestObjects b ! s)" "\<forall>j g. awaits b j g \<longrightarrow> flRequest g \<noteq> s"
      unfolding ready_ok_def by blast
    with f have "s \<noteq> ?r" by blast
    with s show "\<exists>s < length (requestObjects (setProgress ?r False b)).
        requestId (requestObjects (setProgress ?r False b) ! s) = rid \<and>
        acceptInProgress (requestObjects (setProgress ?r False b) ! s) \<and>
        (\<forall>j g. j \<noteq> i \<and> awaits b j g \<longrightarrow> flRequest g \<noteq> s)"
      by (intro exI [of _ s]) auto
  qed (use y in \<open>simp add: ready_ok_def\<close>)
  ultimately show ?thesis by (simp add: broker_ok_def b'_def)
qed

lemma push_pending_ok:
  assumes "broker_ok b" and "r < length (requestObjects b)"
  shows "broker_ok (b\<lparr>pendingTaskRequests := pendingTaskRequests b @ [r]\<rparr>)"
proof -
  have aw: "awaits (b\<lparr>pendingTaskRequests := ps\<rparr>) = awaits b" for ps
    by (intro ext) (simp add: awaits_def)
  have ids: "ready_ids (b\<lparr>pendingTaskRequests := ps\<rparr>) = ready_ids b" for ps by (simp add: ready_ids_def)
  from assms show ?thesis
    by (auto simp: broker_ok_def tasks_ok_def requests_ok_def ready_ok_def aw ids)
qed

text \<open>A new request.\<close>

lemma new_request_ok:
  assumes ok: "broker_ok b" and new: "requestId x \<notin> requestId ` set (requestObjects b)"
  shows "broker_ok (b\<lparr>requestObjects := requestObjects b @ [x],
    pendingTaskRequests := pendingTaskRequests b @ [length (requestObjects b)]\<rparr>)"
proof -
  let ?b = "b\<lparr>requestObjects := requestObjects b @ [x]\<rparr>"
  have t: "tasks_ok b" and q: "requests_ok b" and y: "ready_ok b" using ok by (simp_all add: broker_ok_def)
  note qd = requests_okD [OF q]
  have aw: "awaits ?b = awaits b" by (intro ext) (simp add: awaits_def)
  have lt: "awaits b j g \<Longrightarrow> flRequest g < length (requestObjects b)" for j g
    using qd(3) awaits_get by metis
  have "tasks_ok ?b" using t by (simp add: tasks_ok_def aw)
  moreover have "requests_ok ?b"
    unfolding requests_ok_def aw
  proof (intro conjI allI impI ballI)
    show "distinct (map requestId (requestObjects ?b))" using qd(1) new by simp
  next
    fix r assume "r \<in> set (pendingTaskRequests ?b)"
    with qd(2) [of r] show "r < length (requestObjects ?b)" by simp
  next
    fix i f assume "map_get (inFlight ?b) i = Some f"
    with qd(3,4) show "flRequest f < length (requestObjects ?b)"
      "offerType (flOffer f) = requestType (requestObjects ?b ! flRequest f)"
      by (auto simp: nth_append dest: qd(3))
  next
    fix i f assume "awaits b i f"
    with qd(5,6) lt [of i f] show "acceptInProgress (requestObjects ?b ! flRequest f)"
      "flRequest f \<in> set (pendingTaskRequests ?b)" by (auto simp: nth_append)
  next
    fix i f i' f' assume "awaits b i f \<and> awaits b i' f' \<and> flRequest f = flRequest f'"
    with qd(7) show "i = i'" by blast
  qed
  moreover have "ready_ok ?b"
  proof -
    have ids: "ready_ids ?b = ready_ids b" by (simp add: ready_ids_def)
    show ?thesis
      unfolding ready_ok_def aw ids
    proof (intro conjI ballI)
      fix rid assume "rid \<in> set (ready_ids b)"
      with y obtain s where "s < length (requestObjects b)" "requestId (requestObjects b ! s) = rid"
        "acceptInProgress (requestObjects b ! s)" "\<forall>j g. awaits b j g \<longrightarrow> flRequest g \<noteq> s"
        unfolding ready_ok_def by blast
      then show "\<exists>s < length (requestObjects ?b). requestId (requestObjects ?b ! s) = rid \<and>
          acceptInProgress (requestObjects ?b ! s) \<and> (\<forall>j g. awaits b j g \<longrightarrow> flRequest g \<noteq> s)"
        by (intro exI [of _ s]) (simp add: nth_append)
    qed (use y in \<open>simp add: ready_ok_def\<close>)
  qed
  ultimately have "broker_ok ?b" by (simp add: broker_ok_def)
  from push_pending_ok [OF this, of "length (requestObjects b)"] show ?thesis by simp
qed


text \<open>A request that a runner accepts is found among the pending ones, as ids are not shared.\<close>

lemma pending_found:
  assumes q: "requests_ok b" and f: "awaits b i f"
  shows "\<exists>rest. dropPending (requestId (requestObjects b ! flRequest f)) b = Some rest \<and>
    mset (pendingTaskRequests b) = add_mset (flRequest f) (mset rest)"
proof -
  note qd = requests_okD [OF q]
  let ?P = "\<lambda>ref. requestId (requestObjects b ! ref) = requestId (requestObjects b ! flRequest f)"
  have mem: "flRequest f \<in> set (pendingTaskRequests b)" using qd(6) f .
  then obtain r rest where first: "take_first ?P (pendingTaskRequests b) = Some (r, rest)"
    using take_first_None [of ?P "pendingTaskRequests b"]
    by (cases "take_first ?P (pendingTaskRequests b)") auto
  from take_first_Some [OF first] have r: "?P r" "mset (pendingTaskRequests b) = add_mset r (mset rest)" by auto
  then have "r \<in> set (pendingTaskRequests b)" by (metis set_mset_mset union_single_eq_member)
  with qd(2) mem have "r < length (requestObjects b)" "flRequest f < length (requestObjects b)" by auto
  with qd(1) r(1) have "r = flRequest f" by (simp add: nth_eq_iff_index_eq distinct_conv_nth)
    (metis length_map nth_map)
  with first r(2) show ?thesis by (simp add: dropPending_def)
qed

lemma accepted_ok:
  assumes ok: "broker_ok b" and f: "awaits b i f" and answered: "i \<notin> set (runnerAcceptRejects b)"
  shows "broker_ok (runnerAccepted i f b)"
proof -
  let ?q = "requestObjects b ! flRequest f"
  let ?task = "\<lparr>taskRunner = offerRunner (flOffer f), taskRequester = requestRequester ?q,
    taskTypeOf = offerType (flOffer f)\<rparr>"
  have t: "tasks_ok b" and q: "requests_ok b" and y: "ready_ok b" using ok by (simp_all add: broker_ok_def)
  note qd = requests_okD [OF q]
  obtain rest where rest: "dropPending (requestId ?q) b = Some rest"
    "mset (pendingTaskRequests b) = add_mset (flRequest f) (mset rest)" using pending_found [OF q f] by blast
  define b1 where "b1 = b\<lparr>tasks := map_put i ?task (tasks b), pendingTaskRequests := rest,
    requesterAcceptRejects := set_add i (requesterAcceptRejects b),
    inFlight := map_put i (f\<lparr>flPhase := WaitRequester Unsettled\<rparr>) (inFlight b)\<rparr>"
  define b' where "b' = messageRequester (requestRequester ?q) (TaskReady (requestId ?q) i) b1"
  have "dropPending (requestId ?q) (b\<lparr>tasks := ts\<rparr>) = Some rest" for ts
    using rest(1) by (simp add: dropPending_def)
  then have result: "runnerAccepted i f b = b'"
    by (simp add: runnerAccepted_def Let_def b'_def b1_def)
  have fields: "tasks b' = map_put i ?task (tasks b)" "runnerAcceptRejects b' = runnerAcceptRejects b"
    "nextTaskId b' = nextTaskId b" "pendingTaskRequests b' = rest" "requestObjects b' = requestObjects b"
    "inFlight b' = map_put i (f\<lparr>flPhase := WaitRequester Unsettled\<rparr>) (inFlight b)"
    by (simp_all add: b'_def b1_def messageRequester_def)
  have get: "map_get (inFlight b') j = (if j = i then Some (f\<lparr>flPhase := WaitRequester Unsettled\<rparr>)
      else map_get (inFlight b) j)" for j
    by (simp add: fields)
  have aw: "awaits b' j g \<longleftrightarrow> j \<noteq> i \<and> awaits b j g" for j g
    by (auto simp: awaits_def get)
  have old: "map_get (inFlight b) i = Some f" using f by (rule awaits_get)
  have other: "flRequest g \<noteq> flRequest f" if "j \<noteq> i" "awaits b j g" for j g
    using qd(7) [OF that(2) f] that(1) by metis
  have sub: "set rest \<subseteq> set (pendingTaskRequests b)" and
    kept: "r \<in> set (pendingTaskRequests b) \<Longrightarrow> r \<noteq> flRequest f \<Longrightarrow> r \<in> set rest" for r
    using rest(2) by (metis set_mset_add_mset_insert set_mset_mset subset_insertI)
      (metis insert_iff rest(2) set_mset_add_mset_insert set_mset_mset)
  have "tasks_ok b'"
    unfolding tasks_ok_def
  proof (intro conjI allI impI ballI)
    fix j assume "j \<in> set (map_keys (tasks b'))"
    then have j: "j = i \<or> j \<in> set (map_keys (tasks b))" unfolding fields keys_map_put by blast
    then show "j < nextTaskId b'" using t old unfolding fields tasks_ok_def by metis
    from j show "j \<notin> set (runnerAcceptRejects b')" using t answered unfolding fields tasks_ok_def by metis
  next
    fix j assume "j \<in> set (runnerAcceptRejects b')"
    with t show "j < nextTaskId b'" unfolding fields tasks_ok_def by metis
  next
    fix j g assume "map_get (inFlight b') j = Some g"
    with t old show "j < nextTaskId b'" unfolding get fields(3) tasks_ok_def by (metis (full_types))
  next
    fix j g assume "awaits b' j g"
    then have "j \<noteq> i" "awaits b j g" by (simp_all add: aw)
    with t show "j \<notin> set (map_keys (tasks b'))" unfolding tasks_ok_def fields keys_map_put by blast
  next
    fix j g assume "map_get (inFlight b') j = Some g \<and> flPhase g = WaitRunner (Accepted ())"
    then have "map_get (inFlight b) j = Some g \<and> flPhase g = WaitRunner (Accepted ())"
      unfolding get by (auto split: if_splits)
    with t show "j \<notin> set (runnerAcceptRejects b')" unfolding tasks_ok_def fields(2) by blast
  qed
  moreover have "requests_ok b'"
    unfolding requests_ok_def aw fields(4,5)
  proof (intro conjI allI impI ballI)
    fix r assume "r \<in> set rest" with sub qd(2) show "r < length (requestObjects b)" by auto
  next
    fix j g assume "map_get (inFlight b') j = Some g"
    then have "\<exists>g'. map_get (inFlight b) j = Some g' \<and> flRequest g = flRequest g' \<and> flOffer g = flOffer g'"
      using old unfolding get by (auto split: if_splits)
    with qd(3,4) show "flRequest g < length (requestObjects b)"
      "offerType (flOffer g) = requestType (requestObjects b ! flRequest g)" by metis+
  next
    fix j g assume "j \<noteq> i \<and> awaits b j g"
    with qd(5,6) other kept show "acceptInProgress (requestObjects b ! flRequest g)"
      "flRequest g \<in> set rest" by blast+
  next
    fix j g j' g' assume "(j \<noteq> i \<and> awaits b j g) \<and> (j' \<noteq> i \<and> awaits b j' g') \<and> flRequest g = flRequest g'"
    with qd(7) show "j = j'" by blast
  qed (use qd(1) in simp)
  moreover have "ready_ok b'"
  proof -
    have mine: "flRequest f < length (requestObjects b)" "acceptInProgress ?q" using qd(3,5) old f by blast+
    have fresh: "requestId ?q \<notin> set (ready_ids b)"
    proof
      assume "requestId ?q \<in> set (ready_ids b)"
      with y obtain s where s: "s < length (requestObjects b)" "requestId (requestObjects b ! s) = requestId ?q"
        "\<forall>j g. awaits b j g \<longrightarrow> flRequest g \<noteq> s" unfolding ready_ok_def by blast
      with qd(1) mine(1) have "s = flRequest f" by (metis length_map nth_eq_iff_index_eq nth_map)
      with s(3) f show False by blast
    qed
    have ids: "ready_ids b' = ready_ids b \<or> ready_ids b' = ready_ids b @ [requestId ?q]"
      by (simp add: b'_def b1_def messageRequester_def ready_ids_def)
    show ?thesis
      unfolding ready_ok_def aw fields(5)
    proof (intro conjI ballI)
      show "distinct (ready_ids b')" using ids fresh y unfolding ready_ok_def by auto
    next
      fix rid assume "rid \<in> set (ready_ids b')"
      with ids consider "rid = requestId ?q" | "rid \<in> set (ready_ids b)" by auto
      then show "\<exists>s < length (requestObjects b). requestId (requestObjects b ! s) = rid \<and>
          acceptInProgress (requestObjects b ! s) \<and> (\<forall>j g. j \<noteq> i \<and> awaits b j g \<longrightarrow> flRequest g \<noteq> s)"
      proof cases
        case 1
        with mine other show ?thesis by (intro exI [of _ "flRequest f"]) auto
      next
        case 2
        with y show ?thesis unfolding ready_ok_def by blast
      qed
    qed
  qed
  ultimately show ?thesis by (simp add: broker_ok_def result)
qed



section \<open>The invariant\<close>

lemma drop_entry_ok: "broker_ok b \<Longrightarrow> broker_ok (b\<lparr>inFlight := map_del i (inFlight b)\<rparr>)"
  by (rule shrinks_ok [OF drop_entry_shrinks])

lemma sendTaskSettings_shrinks: "sendTaskSettings i s b = (e, b') \<Longrightarrow> shrinks b b'"
  by (auto simp: sendTaskSettings_def split: prod.splits sum.splits dest!: getRunner_shrinks
      intro: shrinks_trans [OF _ then_messageRunner [OF other_fields_shrink(1)]])

lemma requesterAnswered_shrinks [shrinking]: "shrinks b (requesterAnswered i v b)"
proof -
  have c: "shrinks b (fail_with e (cancelTask i r b'))" if "shrinks b b'" for e r b'
    using shrinks_trans [OF that shrinks_trans [OF cancelTask_shrinks other_fields_shrink(6)]] .
  show ?thesis
    using c [OF sendTaskSettings_shrinks] c [OF shrinks_refl]
    by (cases v) (auto simp: requesterAnswered_def intro: shrinking dest: sendTaskSettings_shrinks
        split: prod.split option.split)
qed

lemma resumeAccept_ok:
  assumes ok: "broker_ok b"
  shows "broker_ok (resumeAccept i b)"
proof (cases "map_get (inFlight b) i")
  case (Some f)
  show ?thesis
  proof (cases "flPhase f")
    case (WaitRunner v)
    with Some have f: "awaits b i f" by (simp add: awaits_def)
    note declined = declined_ok [OF ok f]
    show ?thesis
    proof (cases v)
      case (Accepted u)
      then have "flPhase f = WaitRunner (Accepted ())" using WaitRunner by simp
      with ok Some have "i \<notin> set (runnerAcceptRejects b)" unfolding broker_ok_def tasks_ok_def by blast
      from accepted_ok [OF ok f this] show ?thesis using Some WaitRunner Accepted by (simp add: resumeAccept_def)
    next
      case DeferredError
      have "flRequest f < length (requestObjects b)"
        using ok Some unfolding broker_ok_def requests_ok_def by blast
      then have "flRequest f < length (requestObjects (runnerDeclined i f b))" by (simp add: runnerDeclined_def)
      from push_pending_ok [OF declined this] show ?thesis
        using Some WaitRunner DeferredError by (simp add: resumeAccept_def Let_def)
    next
      case TimeoutReason
      from shrinks_ok [OF other_fields_shrink(6) declined] show ?thesis
        using Some WaitRunner TimeoutReason by (simp add: resumeAccept_def)
    qed (use Some WaitRunner ok declined in \<open>simp_all add: resumeAccept_def\<close>)
  next
    case (WaitRequester v)
    have "broker_ok (requesterAnswered i v (b\<lparr>inFlight := map_del i (inFlight b)\<rparr>))"
      by (rule shrinks_ok [OF requesterAnswered_shrinks drop_entry_ok [OF ok]])
    then show ?thesis using Some WaitRequester ok by (cases v) (simp_all add: resumeAccept_def)
  qed
qed (use ok in \<open>simp add: resumeAccept_def\<close>)

lemma failRunnerTasks_shrink: "shrinks b (fold (failRunnerTask r e) is b)"
proof (induction "is" arbitrary: b)
  case (Cons i "is")
  have "shrinks b (failRunnerTask r e i b)"
    by (auto simp: failRunnerTask_def handleRunnerReject_def
        intro: shrinks_trans [OF failTask_shrinks answerRunner_shrinks] split: option.split)
  from shrinks_trans [OF this Cons.IH] show ?case by simp
qed simp

lemma deregister_shrinks: "shrinks b (deregisterRunner r e b)"
proof -
  have "shrinks b (b\<lparr>knownRunners := rs, pendingTaskOffers := os\<rparr>)" for rs os
    by (rule shrinks_trans [OF other_fields_shrink(3) other_fields_shrink(2)])
  from shrinks_trans [OF this failRunnerTasks_shrink] show ?thesis
    by (simp add: deregisterRunner_def Let_def)
qed

lemma push_offer_ok: "broker_ok b \<Longrightarrow> broker_ok (taskOffered now offer b)"
  unfolding taskOffered_def by (rule settleTasks_ok [OF shrinks_ok [OF other_fields_shrink(2)]])

lemma runner_message_ok:
  assumes "broker_ok b"
  shows "broker_ok (onRunnerMessage now i m b)"
proof (cases m)
  case (RunnerTaskOffer oid type valid)
  then show ?thesis using push_offer_ok assms by (simp add: onRunnerMessage_def)
qed (use assms in \<open>auto simp: onRunnerMessage_def handleRunnerAccept_def handleRunnerReject_def
      handleRunnerDeferred_def taskDoneHandler_def taskErrorHandler_def handleDataRequest_def
      handleNodeTypesRequest_def handleRpcRequest_def intro!: shrinks_ok [OF _ assms] shrinking\<close>)

lemma requester_message_ok:
  assumes "broker_ok b"
    and "\<And>rid type. m = RequesterTaskRequest rid type \<Longrightarrow> rid \<notin> requestId ` set (requestObjects b)"
  shows "broker_ok (onRequesterMessage now q m b)"
proof (cases m)
  case (RequesterTaskRequest rid type)
  let ?x = "\<lparr>requestId = rid, requestRequester = q, requestType = type, acceptInProgress = False\<rparr>"
  from assms(2) [OF RequesterTaskRequest] have "requestId ?x \<notin> requestId ` set (requestObjects b)" by simp
  from settleTasks_ok [OF new_request_ok [OF assms(1) this]] show ?thesis
    using RequesterTaskRequest by (simp add: onRequesterMessage_def taskRequested_def)
qed (use assms(1) in \<open>auto simp: onRequesterMessage_def handleRequesterAccept_def handleRequesterDataResponse_def
      handleRequesterNodeTypesResponse_def handleRequesterRpcResponse_def
      intro!: shrinks_ok [OF _ assms(1)] shrinking\<close>)

lemma tb_step_ok: "tb_step b b' \<Longrightarrow> broker_ok b \<Longrightarrow> broker_ok b'"
proof (induction rule: tb_step.induct)
  case (tb_register b r)
  have "shrinks b (b\<lparr>knownRunners := rs\<rparr>)" for rs by (rule shrinking)
  with tb_register show ?case unfolding registerRunner_def by (blast intro: shrinks_ok then_messageRunner)
next
  case (tb_response b i rid data)
  then show ?case
    by (auto simp: handleResponse_def intro!: shrinks_ok [OF _ tb_response] shrinking split: option.split)
next
  case (tb_task_timeout i b)
  have "shrinks b (handleTaskTimeout i (b\<lparr>timers := ts\<rparr>))" for ts
    by (rule shrinks_trans [OF other_fields_shrink(1) timeout_shrinks])
  from shrinks_ok [OF this tb_task_timeout(2)] show ?case .
next
  case (tb_runner_timeout b i)
  then show ?case using shrinks_ok [OF settleRunner_shrinks] by simp
qed (auto simp: registerRequester_def deregisterRequester_def handleRequesterReject_def
    intro: shrinks_ok [OF deregister_shrinks] shrinks_ok [OF other_fields_shrink(4)]
      shrinks_ok [OF answerRequester_shrinks] shrinks_ok [OF settleRequester_shrinks]
      runner_message_ok requester_message_ok resumeAccept_ok)

lemma tb_reachable_ok: "tb_reachable b \<Longrightarrow> broker_ok b"
proof (induction rule: tb_reachable.induct)
  case (tb_start timeout internal b)
  then show ?case
    by (auto simp: newTaskBroker_def broker_ok_def tasks_ok_def requests_ok_def ready_ok_def ready_ids_def
        awaits_def split: if_splits)
qed (rule tb_step_ok)

end
