(* ===== verification/Task_Broker_Properties.thy ===== *)
theory Task_Broker_Properties
  imports Task_Broker_Facts
begin

text \<open>
  What the task broker guarantees about requests and tasks, and what happens to a request whose
  runner declines or disappears.
\<close>


section \<open>An example\<close>

text \<open>One requester, two runners; the request goes to the runner that offered first.\<close>

definition runner_of :: "string \<Rightarrow> TaskRunner" where
  "runner_of i = \<lparr>trId = i, trTypes = [''js'']\<rparr>"

definition idle_broker :: TaskBroker where
  "idle_broker = \<lparr>knownRunners = [], requesters = [], tasks = [], runnerAcceptRejects = [],
     requesterAcceptRejects = [], pendingTaskOffers = [], requestObjects = [], pendingTaskRequests = [],
     inFlight = [], timers = [], nextTaskId = 0, outbox = [], failures = [], internalMode = False\<rparr>"

definition ask :: "TaskBroker \<Rightarrow> TaskBroker" where
  "ask b = onRequesterMessage 0 ''q'' (RequesterTaskRequest ''req'' ''js'') b"

definition offering :: "string \<Rightarrow> TaskBroker \<Rightarrow> TaskBroker" where
  "offering i b = onRunnerMessage 0 i (RunnerTaskOffer ''offer'' ''js'' (-1)) b"

definition asked :: TaskBroker where
  "asked = ask (offering ''r2'' (offering ''r1'' (registerRequester ''q''
     (registerRunner (runner_of ''r2'') (registerRunner (runner_of ''r1'') idle_broker)))))"

definition taken :: TaskBroker where
  "taken = onRunnerMessage 0 ''r1'' (RunnerTaskAccepted 0) asked"

lemma idle_reachable: "tb_reachable idle_broker"
  by (rule tb_start [of 1 False]) (simp add: newTaskBroker_def idle_broker_def)

lemma asked_reachable: "tb_reachable asked"
proof -
  let ?b = "offering ''r2'' (offering ''r1'' (registerRequester ''q''
     (registerRunner (runner_of ''r2'') (registerRunner (runner_of ''r1'') idle_broker))))"
  have "tb_reachable ?b"
    unfolding offering_def by (intro tb_next [OF _ tb_runner] tb_next [OF _ tb_requester]
        tb_next [OF _ tb_register] idle_reachable)
  moreover have "requestId ` set (requestObjects ?b) = {}" by code_simp
  ultimately show ?thesis
    unfolding asked_def ask_def by (intro tb_next [OF _ tb_message]) auto
qed

lemma taken_reachable: "tb_reachable taken"
  unfolding taken_def by (rule tb_next [OF asked_reachable tb_runner])


section \<open>Requests and tasks\<close>

text \<open>
  C13. However messages, timeouts and the continuations of accepted offers interleave, a request is
  never given to two runners: at any time at most one runner is asked to take it, its requester is
  told at most once that a task for it is ready, and it is only offered to a runner that offered its
  type.
\<close>

theorem one_task_per_request:
  assumes "tb_reachable b"
  shows "distinct (ready_ids b) \<and>
    (\<forall>i f i' f'. awaits b i f \<and> awaits b i' f' \<and> flRequest f = flRequest f' \<longrightarrow> i = i') \<and>
    (\<forall>i f. map_get (inFlight b) i = Some f \<longrightarrow>
      offerType (flOffer f) = requestType (requestObjects b ! flRequest f))"
  using tb_reachable_ok [OF assms] unfolding broker_ok_def requests_ok_def ready_ok_def by blast

theorem one_task_per_request_witness:
  "distinct (ready_ids (resumeAccept 0 taken)) \<and> ready_ids (resumeAccept 0 taken) = [''req'']"
proof -
  have "tb_reachable (resumeAccept 0 taken)" by (rule tb_next [OF taken_reachable tb_resume])
  moreover have "ready_ids (resumeAccept 0 taken) = [''req'']" by code_simp
  ultimately show ?thesis using one_task_per_request by blast
qed

text \<open>
  When a runner accepts, its request is always still pending, so the error that the code logs as
  one that should not happen never does: the task is created for the runner and the requester of the
  request, the request is removed, and the broker goes on to wait for the settings.
\<close>

theorem accepted_request_is_pending:
  assumes "tb_reachable b" and "map_get (inFlight b) i = Some f" and "flPhase f = WaitRunner (Accepted ())"
  shows "map_get (tasks (resumeAccept i b)) i = Some \<lparr>taskRunner = offerRunner (flOffer f),
      taskRequester = requestRequester (requestObjects b ! flRequest f), taskTypeOf = offerType (flOffer f)\<rparr> \<and>
    map_get (inFlight (resumeAccept i b)) i = Some (f\<lparr>flPhase := WaitRequester Unsettled\<rparr>) \<and>
    mset (pendingTaskRequests b) = add_mset (flRequest f) (mset (pendingTaskRequests (resumeAccept i b)))"
proof -
  have "requests_ok b" using tb_reachable_ok [OF assms(1)] by (simp add: broker_ok_def)
  moreover have "awaits b i f" using assms(2,3) by (simp add: awaits_def)
  ultimately obtain rest where rest:
    "dropPending (requestId (requestObjects b ! flRequest f)) b = Some rest"
    "mset (pendingTaskRequests b) = add_mset (flRequest f) (mset rest)" using pending_found by blast
  have "dropPending (requestId (requestObjects b ! flRequest f)) (b\<lparr>tasks := ts\<rparr>) = Some rest" for ts
    using rest(1) by (simp add: dropPending_def)
  with assms(2,3) rest(2) show ?thesis
    by (simp add: resumeAccept_def runnerAccepted_def Let_def messageRequester_def)
qed

theorem accepted_request_is_pending_witness:
  "map_get (tasks (resumeAccept 0 taken)) 0 = Some \<lparr>taskRunner = ''r1'', taskRequester = ''q'', taskTypeOf = ''js''\<rparr>"
proof -
  have "map_option (\<lambda>f. (flPhase f, offerRunner (flOffer f), offerType (flOffer f),
      requestRequester (requestObjects taken ! flRequest f))) (map_get (inFlight taken) 0) =
    Some (WaitRunner (Accepted ()), ''r1'', ''js'', ''q'')" by code_simp
  then obtain f where "map_get (inFlight taken) 0 = Some f" "flPhase f = WaitRunner (Accepted ())"
    "offerRunner (flOffer f) = ''r1''" "offerType (flOffer f) = ''js''"
    "requestRequester (requestObjects taken ! flRequest f) = ''q''" by auto
  with accepted_request_is_pending [OF taken_reachable this(1,2)] show ?thesis by simp
qed


section \<open>Matching\<close>

definition unmatched :: "TaskBroker \<Rightarrow> nat \<Rightarrow> bool" where
  "unmatched b r \<longleftrightarrow> acceptInProgress (requestObjects b ! r) \<or>
     (\<forall>x \<in> set (pendingTaskOffers b). offerType x \<noteq> requestType (requestObjects b ! r))"

lemma settleRequest_fields:
  assumes "r < length (requestObjects b)"
  shows "length (requestObjects (settleRequest r b)) = length (requestObjects b)"
    "set (pendingTaskOffers (settleRequest r b)) \<subseteq> set (pendingTaskOffers b)"
    "s < length (requestObjects b) \<Longrightarrow>
       requestType (requestObjects (settleRequest r b) ! s) = requestType (requestObjects b ! s) \<and>
       (acceptInProgress (requestObjects b ! s) \<longrightarrow> acceptInProgress (requestObjects (settleRequest r b) ! s))"
    "unmatched (settleRequest r b) r"
proof -
  let ?first = "take_first (\<lambda>x. offerType x = requestType (requestObjects b ! r)) (pendingTaskOffers b)"
  have "length (requestObjects (settleRequest r b)) = length (requestObjects b) \<and>
    set (pendingTaskOffers (settleRequest r b)) \<subseteq> set (pendingTaskOffers b) \<and>
    (\<forall>s < length (requestObjects b).
       requestType (requestObjects (settleRequest r b) ! s) = requestType (requestObjects b ! s) \<and>
       (acceptInProgress (requestObjects b ! s) \<longrightarrow> acceptInProgress (requestObjects (settleRequest r b) ! s))) \<and>
    unmatched (settleRequest r b) r"
  proof (cases "acceptInProgress (requestObjects b ! r)")
    case True
    then show ?thesis by (simp add: settleRequest_def unmatched_def)
  next
    case False
    show ?thesis
    proof (cases ?first)
      case None
      then have "\<forall>x \<in> set (pendingTaskOffers b). offerType x \<noteq> requestType (requestObjects b ! r)"
        by (simp add: take_first_None)
      moreover have "settleRequest r b = b" using False None by (simp add: settleRequest_def)
      ultimately show ?thesis by (simp add: unmatched_def)
    next
      case (Some p)
      then obtain x xs where p: "p = (x, xs)" by (cases p)
      with Some have "mset (pendingTaskOffers b) = add_mset x (mset xs)" by (auto dest: take_first_Some)
      then have "set xs \<subseteq> set (pendingTaskOffers b)"
        by (metis set_mset_add_mset_insert set_mset_mset subset_insertI)
      with Some p False assms show ?thesis by (simp add: settleRequest_def unmatched_def Let_def)
    qed
  qed
  then show "length (requestObjects (settleRequest r b)) = length (requestObjects b)"
    "set (pendingTaskOffers (settleRequest r b)) \<subseteq> set (pendingTaskOffers b)"
    "s < length (requestObjects b) \<Longrightarrow>
       requestType (requestObjects (settleRequest r b) ! s) = requestType (requestObjects b ! s) \<and>
       (acceptInProgress (requestObjects b ! s) \<longrightarrow> acceptInProgress (requestObjects (settleRequest r b) ! s))"
    "unmatched (settleRequest r b) r" by blast+
qed

lemma settle_loop_unmatched:
  "\<forall>r \<in> set rs. r < length (requestObjects b) \<Longrightarrow>
   \<forall>s \<in> done. s < length (requestObjects b) \<and> unmatched b s \<Longrightarrow>
   \<forall>s \<in> done \<union> set rs. unmatched (fold settleRequest rs b) s"
proof (induction rs arbitrary: b "done")
  case (Cons r rs)
  note f = settleRequest_fields [of r b]
  have r: "r < length (requestObjects b)" using Cons.prems(1) by simp
  have "s < length (requestObjects (settleRequest r b)) \<and> unmatched (settleRequest r b) s"
    if "s \<in> insert r done" for s
  proof (cases "s = r")
    case False
    with that Cons.prems(2) have "s < length (requestObjects b)" "unmatched b s" by auto
    with f(1-3) [OF r] show ?thesis unfolding unmatched_def by (metis subsetD)
  qed (use f r in simp)
  with Cons.IH [of "settleRequest r b" "insert r done"] Cons.prems(1) f(1) [OF r] show ?case by auto
qed simp

text \<open>
  C38. Settling leaves no match open: afterwards no pending request that is not in progress has a
  pending offer of its type, and every offer that is left has not expired.
\<close>

theorem settleTasks_maximal:
  assumes "tb_reachable b" and "r \<in> set (pendingTaskRequests (settleTasks now b))"
    and "\<not> acceptInProgress (requestObjects (settleTasks now b) ! r)"
    and "x \<in> set (pendingTaskOffers (settleTasks now b))"
  shows "offerType x \<noteq> requestType (requestObjects (settleTasks now b) ! r) \<and>
    (validFor x = -1 \<or> now \<le> validUntil x)"
proof -
  let ?b = "expireTasks now b"
  have pending: "pendingTaskRequests (fold settleRequest rs b) = pendingTaskRequests b" for rs b
    by (induction rs arbitrary: b) simp_all
  have ref: "s < length (requestObjects ?b)" if "s \<in> set (pendingTaskRequests ?b)" for s
    using tb_reachable_ok [OF assms(1)] that by (auto simp: broker_ok_def requests_ok_def expireTasks_def)
  have "set (pendingTaskOffers (fold settleRequest rs c)) \<subseteq> set (pendingTaskOffers c)"
    if "\<forall>s \<in> set rs. s < length (requestObjects c)" for rs c
    using that
  proof (induction rs arbitrary: c)
    case (Cons s rs)
    then have "set (pendingTaskOffers (fold settleRequest rs (settleRequest s c))) \<subseteq>
        set (pendingTaskOffers (settleRequest s c))" using settleRequest_fields(1) [of s c] by simp
    with settleRequest_fields(2) [of s c] Cons.prems show ?case by auto
  qed simp
  from this [of "pendingTaskRequests ?b" ?b] ref assms(4) have "x \<in> set (pendingTaskOffers ?b)"
    by (auto simp: settleTasks_def Let_def)
  moreover have "unmatched (settleTasks now b) r"
    using settle_loop_unmatched [of "pendingTaskRequests ?b" ?b "{}"] ref assms(2) pending
    by (simp add: settleTasks_def Let_def)
  ultimately show ?thesis using assms(3,4) by (auto simp: unmatched_def expireTasks_def)
qed

text \<open>A request of a type that nobody offers, next to an offer.\<close>

definition other_type :: TaskBroker where
  "other_type = onRequesterMessage 0 ''q'' (RequesterTaskRequest ''req2'' ''py'') asked"

theorem settleTasks_maximal_witness:
  "\<exists>r x. r \<in> set (pendingTaskRequests (settleTasks 0 other_type)) \<and> x \<in> set (pendingTaskOffers (settleTasks 0 other_type)) \<and>
     offerType x \<noteq> requestType (requestObjects (settleTasks 0 other_type) ! r)"
proof -
  have "requestId ` set (requestObjects asked) = {''req''}" by code_simp
  then have "tb_reachable other_type"
    unfolding other_type_def by (intro tb_next [OF asked_reachable tb_message]) auto
  moreover have "1 \<in> set (pendingTaskRequests (settleTasks 0 other_type))"
    "\<not> acceptInProgress (requestObjects (settleTasks 0 other_type) ! 1)"
    "length (pendingTaskOffers (settleTasks 0 other_type)) = 1" by code_simp+
  moreover from this(3) obtain x where "x \<in> set (pendingTaskOffers (settleTasks 0 other_type))"
    by (cases "pendingTaskOffers (settleTasks 0 other_type)") auto
  ultimately show ?thesis using settleTasks_maximal by blast
qed


section \<open>Declined requests\<close>

text \<open>
  A request that a runner rejects is not given to another runner, although one offers its type:
  nothing is matched until the next offer or request arrives.
\<close>

theorem declined_request_stalls:
  "let b = resumeAccept 0 (onRunnerMessage 0 ''r1'' (RunnerTaskRejected 0 ''busy'') asked) in
     pendingTaskRequests b = [0] \<and> \<not> acceptInProgress (requestObjects b ! 0) \<and> inFlight b = [] \<and>
     map (\<lambda>x. (offerRunner x, offerType x)) (pendingTaskOffers b) = [(''r2'', requestType (requestObjects b ! 0))]"
  by code_simp

lemma failRunnerTask_frame:
  assumes "set (map_keys (tasks b)) \<inter> set (runnerAcceptRejects b) = {}"
  shows "inFlight (failRunnerTask r e i b) = inFlight b"
    "runnerAcceptRejects (failRunnerTask r e i b) = runnerAcceptRejects b"
    "set (map_keys (tasks (failRunnerTask r e i b))) \<subseteq> set (map_keys (tasks b))"
proof -
  have none: "i \<notin> set (runnerAcceptRejects b)" if "map_get (tasks b) i = Some t" for t
    using assms map_of_SomeD [OF that] by force
  show "inFlight (failRunnerTask r e i b) = inFlight b"
    "runnerAcceptRejects (failRunnerTask r e i b) = runnerAcceptRejects b"
    "set (map_keys (tasks (failRunnerTask r e i b))) \<subseteq> set (map_keys (tasks b))"
    using none by (auto simp: failRunnerTask_def failTask_def handleRunnerReject_def answerRunner_def
        messageRequester_def set_map_del split: option.split)
qed


lemma failRunnerTasks_frame:
  assumes "set (map_keys (tasks b)) \<inter> set (runnerAcceptRejects b) = {}"
  shows "inFlight (fold (failRunnerTask r e) is b) = inFlight b"
  using assms
proof (induction "is" arbitrary: b)
  case (Cons i "is")
  note f = failRunnerTask_frame [OF Cons.prems, of r e i]
  have "set (map_keys (tasks (failRunnerTask r e i b))) \<inter> set (runnerAcceptRejects (failRunnerTask r e i b)) = {}"
    using f(2,3) Cons.prems by auto
  from Cons.IH [OF this] f(1) show ?case by simp
qed simp

text \<open>
  A runner that disconnects before it has answered leaves its request in progress: deregistering
  only rejects promises of tasks that exist, which no longer are open, so every entry that awaits a
  runner stays as it is until its timeout.
\<close>

theorem disconnect_keeps_requests:
  assumes "tb_reachable b"
  shows "inFlight (deregisterRunner r e b) = inFlight b"
proof -
  have "set (map_keys (tasks b)) \<inter> set (runnerAcceptRejects b) = {}"
    using tb_reachable_ok [OF assms] unfolding broker_ok_def tasks_ok_def by blast
  then show ?thesis by (simp add: deregisterRunner_def Let_def failRunnerTasks_frame)
qed

theorem disconnect_keeps_requests_witness:
  "\<exists>f. map_get (inFlight (deregisterRunner ''r1'' ''lost'' asked)) 0 = Some f \<and> flPhase f = WaitRunner Unsettled"
proof -
  have "map_option flPhase (map_get (inFlight asked) 0) = Some (WaitRunner Unsettled)" by code_simp
  then show ?thesis unfolding disconnect_keeps_requests [OF asked_reachable] by auto
qed

end
