(* ===== verification/Task_Runner.thy ===== *)
theory Task_Runner
  imports Task_Broker
begin

text \<open>
  The class TaskRunner of packages/@n8n/task-runner/src/task-runner.ts and the class TaskState of
  task-state.ts: the process that offers to run tasks, runs those that the broker assigns to it, and
  answers with their results.

  A TaskState is an object that the closures of its task keep a reference to, so task states are
  stored by reference. Code that runs later (the part after an \<open>await\<close>, a timer, a \<open>finally\<close> block
  behind an awaited promise) is an operation of its own. What a task executes is not part of the
  class: \<open>executeTask\<close> is abstract, and that it resolves or rejects is an input. Errors that leave an
  asynchronous method are collected in \<open>unhandled\<close>. The contents of messages are strings.

  Outside functions are an environment: the n-th call of any of them has the number n.
\<close>

record RunnerEnv =
  nanoid :: "nat \<Rightarrow> string"
  randomInt500 :: "nat \<Rightarrow> nat"
  hrtime :: "nat \<Rightarrow> int"
  serializable :: "string \<Rightarrow> bool"


section \<open>The state of a task\<close>

datatype TaskStatus = WaitingForSettings | Running | AbortingCancelled | AbortingTimeout

text \<open>
  How far the promise chain of \<open>receivedSettings\<close> is: the \<open>finally\<close> block of \<open>taskExecutionSucceeded\<close>
  or \<open>taskExecutionFailed\<close> is still to run, with the error that left the \<open>try\<close> block.
\<close>

datatype Execution =
    NotStarted
  | Executing string
  | FinishSuccess "string option"
  | FinishFailure "string option"
  | Over

text \<open>The message of the assertion of \<open>throwUnexpectedTaskStatus\<close>, without the task that it names.\<close>

definition unexpectedStatus :: string where "unexpectedStatus = ''Unexpected task status''"

record TaskState =
  tsTaskId :: nat
  tsStatus :: TaskStatus
  tsTimer :: bool
  tsAbort :: "string option"
  tsExecution :: Execution

definition newTaskState :: "nat \<Rightarrow> TaskState" where
  "newTaskState taskId = \<lparr>tsTaskId = taskId, tsStatus = WaitingForSettings, tsTimer = True,
     tsAbort = None, tsExecution = NotStarted\<rparr>"

definition cleanup :: "TaskState \<Rightarrow> TaskState" where
  "cleanup t = t\<lparr>tsTimer := False\<rparr>"

definition abortWith :: "TaskStatus \<Rightarrow> string \<Rightarrow> TaskState \<Rightarrow> TaskState" where
  "abortWith status reason t = t\<lparr>tsStatus := status, tsAbort := Some reason\<rparr>"


section \<open>Requests of a task\<close>

text \<open>
  The entries that the handlers of responses look up, and the promises that the requesting code
  awaits; a promise is settled at most once.
\<close>

datatype Promise = Pending | Resolved string | Rejected string

record 'a Registry =
  regEntries :: "(string, 'a) js_map"
  regPromises :: "(string, Promise) js_map"

definition emptyRegistry :: "'a Registry" where
  "emptyRegistry = \<lparr>regEntries = [], regPromises = []\<rparr>"

definition openRequest :: "string \<Rightarrow> 'a \<Rightarrow> 'a Registry \<Rightarrow> 'a Registry" where
  "openRequest rid x r =
     r\<lparr>regEntries := map_put rid x (regEntries r), regPromises := map_put rid Pending (regPromises r)\<rparr>"

definition settlePromise :: "string \<Rightarrow> Promise \<Rightarrow> 'a Registry \<Rightarrow> 'a Registry" where
  "settlePromise rid v r =
     (if map_get (regPromises r) rid = Some Pending
      then r\<lparr>regPromises := map_put rid v (regPromises r)\<rparr> else r)"

text \<open>A response to a request that is not listed is dropped.\<close>

definition answerRequest :: "string \<Rightarrow> Promise \<Rightarrow> 'a Registry \<Rightarrow> 'a Registry" where
  "answerRequest rid v r = (if map_get (regEntries r) rid = None then r else settlePromise rid v r)"

text \<open>The code behind the \<open>await\<close>: once the promise is settled, the entry is deleted.\<close>

definition resumeRequest :: "string \<Rightarrow> 'a Registry \<Rightarrow> (Promise \<times> 'a Registry) option" where
  "resumeRequest rid r =
     (case map_get (regPromises r) rid of
        None \<Rightarrow> None
      | Some Pending \<Rightarrow> None
      | Some v \<Rightarrow> Some (v, r\<lparr>regEntries := map_del rid (regEntries r),
                            regPromises := map_del rid (regPromises r)\<rparr>))"

definition cancelEntry :: "nat \<Rightarrow> string \<Rightarrow> string \<times> nat \<Rightarrow> nat Registry \<Rightarrow> nat Registry" where
  "cancelEntry taskId reason = (\<lambda>(rid, owner) r.
     if owner = taskId
     then (let r = settlePromise rid (Rejected (''Task cancelled: '' @ reason)) r
           in r\<lparr>regEntries := map_del rid (regEntries r)\<rparr>)
     else r)"

definition cancelRequestsOf :: "nat \<Rightarrow> string \<Rightarrow> nat Registry \<Rightarrow> nat Registry" where
  "cancelRequestsOf taskId reason r = fold (cancelEntry taskId reason) (regEntries r) r"


section \<open>The runner\<close>

record Runner =
  rnName :: string
  rnTaskType :: string
  maxConcurrency :: int
  rnTaskTimeout :: nat
  rnIdleTimeout :: nat
  canSendOffers :: bool
  offerInterval :: bool
  idleTimer :: bool
  openOffers :: "(string, int) js_map"
  taskObjects :: "TaskState list"
  runningTasks :: "(nat, nat) js_map"
  dataRequests :: "nat Registry"
  nodeTypesRequests :: "nat Registry"
  rpcCalls :: "unit Registry"
  calls :: nat
  sent :: "RunnerMessage list"
  unhandled :: "string list"
  idleEvents :: nat
  connected :: bool

definition resetIdleTimer :: "Runner \<Rightarrow> Runner" where
  "resetIdleTimer r = (if rnIdleTimeout r = 0 then r else r\<lparr>idleTimer := True\<rparr>)"

definition clearIdleTimer :: "Runner \<Rightarrow> Runner" where
  "clearIdleTimer r = r\<lparr>idleTimer := False\<rparr>"

definition newRunner :: "string \<Rightarrow> string option \<Rightarrow> int \<Rightarrow> nat \<Rightarrow> nat \<Rightarrow> Runner" where
  "newRunner type name concurrency taskTimeout idleTimeout =
     resetIdleTimer
       \<lparr>rnName = (case name of None \<Rightarrow> ''Node.js Task Runner SDK'' | Some n \<Rightarrow> n), rnTaskType = type,
        maxConcurrency = concurrency, rnTaskTimeout = taskTimeout, rnIdleTimeout = idleTimeout,
        canSendOffers = False, offerInterval = False, idleTimer = False, openOffers = [],
        taskObjects = [], runningTasks = [], dataRequests = emptyRegistry,
        nodeTypesRequests = emptyRegistry, rpcCalls = emptyRegistry, calls = 0, sent = [],
        unhandled = [], idleEvents = 0, connected = True\<rparr>"

definition send :: "RunnerMessage \<Rightarrow> Runner \<Rightarrow> Runner" where
  "send m r = r\<lparr>sent := sent r @ [m]\<rparr>"

definition throwUnhandled :: "string \<Rightarrow> Runner \<Rightarrow> Runner" where
  "throwUnhandled e r = r\<lparr>unhandled := unhandled r @ [e]\<rparr>"

definition setTask :: "nat \<Rightarrow> TaskState \<Rightarrow> Runner \<Rightarrow> Runner" where
  "setTask ref t r = r\<lparr>taskObjects := (taskObjects r)[ref := t]\<rparr>"


section \<open>Offers\<close>

definition stopTaskOffers :: "Runner \<Rightarrow> Runner" where
  "stopTaskOffers r = r\<lparr>canSendOffers := False, offerInterval := False\<rparr>"

definition startTaskOffers :: "Runner \<Rightarrow> Runner" where
  "startTaskOffers r = r\<lparr>canSendOffers := True, offerInterval := True\<rparr>"

text \<open>The clock is read for each offer.\<close>

definition deleteStaleOffer :: "RunnerEnv \<Rightarrow> string \<times> int \<Rightarrow> Runner \<Rightarrow> Runner" where
  "deleteStaleOffer env = (\<lambda>(key, until) r.
     (let now = hrtime env (calls r); r = r\<lparr>calls := Suc (calls r)\<rparr>
      in if until < now then r\<lparr>openOffers := map_del key (openOffers r)\<rparr> else r))"

definition deleteStaleOffers :: "RunnerEnv \<Rightarrow> Runner \<Rightarrow> Runner" where
  "deleteStaleOffers env r = fold (deleteStaleOffer env) (openOffers r) r"

definition OFFER_VALID_TIME_MS :: nat where "OFFER_VALID_TIME_MS = 5000"

definition OFFER_VALID_EXTRA_MS :: nat where "OFFER_VALID_EXTRA_MS = 100"

definition msToNs :: "nat \<Rightarrow> int" where "msToNs ms = int ms * 1000000"

text \<open>The body of the loop of \<open>sendOffers\<close>; it calls \<open>randomInt\<close>, the clock and \<open>nanoid\<close> in turn.\<close>

definition sendOffer :: "RunnerEnv \<Rightarrow> Runner \<Rightarrow> Runner" where
  "sendOffer env r =
     (let n = calls r;
          validForInMs = OFFER_VALID_TIME_MS + randomInt500 env n;
          until = hrtime env (n + 1) + msToNs (validForInMs + OFFER_VALID_EXTRA_MS);
          oid = nanoid env (n + 2)
      in send (RunnerTaskOffer oid (rnTaskType r) (int validForInMs))
           (r\<lparr>calls := n + 3, openOffers := map_put oid until (openOffers r)\<rparr>))"

definition offersToSend :: "Runner \<Rightarrow> nat" where
  "offersToSend r = nat (maxConcurrency r - int (length (openOffers r) + length (runningTasks r)))"

definition sendOffers :: "RunnerEnv \<Rightarrow> Runner \<Rightarrow> Runner" where
  "sendOffers env r =
     (let r = deleteStaleOffers env r
      in if \<not> canSendOffers r then r else (sendOffer env ^^ offersToSend r) r)"

text \<open>The interval timer of the offers.\<close>

definition offerTick :: "RunnerEnv \<Rightarrow> Runner \<Rightarrow> Runner" where
  "offerTick env r = (if offerInterval r then sendOffers env r else r)"

definition idleTick :: "Runner \<Rightarrow> Runner" where
  "idleTick r =
     (if \<not> idleTimer r then r
      else if length (runningTasks r) = 0 then r\<lparr>idleTimer := False, idleEvents := Suc (idleEvents r)\<rparr>
      else r\<lparr>idleTimer := False\<rparr>)"


section \<open>Tasks\<close>

text \<open>The task state is removed under its id, whichever object is stored there.\<close>

definition finishTask :: "RunnerEnv \<Rightarrow> nat \<Rightarrow> Runner \<Rightarrow> Runner" where
  "finishTask env ref r =
     (let t = taskObjects r ! ref;
          r = setTask ref (cleanup t) r;
          r = r\<lparr>runningTasks := map_del (tsTaskId t) (runningTasks r)\<rparr>
      in resetIdleTimer (sendOffers env r))"

definition hasOpenTasks :: "Runner \<Rightarrow> bool" where
  "hasOpenTasks r \<longleftrightarrow> int (length (runningTasks r)) < maxConcurrency r"

definition offerAccepted :: "string \<Rightarrow> nat \<Rightarrow> Runner \<Rightarrow> Runner" where
  "offerAccepted oid taskId r =
     (if \<not> hasOpenTasks r then
        send (RunnerTaskRejected taskId ''No open task slots'')
          (r\<lparr>openOffers := map_del oid (openOffers r)\<rparr>)
      else if map_get (openOffers r) oid = None then
        send (RunnerTaskRejected taskId ''Offer expired and no open task slots'') r
      else (let r = resetIdleTimer (r\<lparr>openOffers := map_del oid (openOffers r)\<rparr>)
            in send (RunnerTaskAccepted taskId)
                 (r\<lparr>runningTasks := map_put taskId (length (taskObjects r)) (runningTasks r),
                    taskObjects := taskObjects r @ [newTaskState taskId]\<rparr>)))"

definition cancelTaskRequests :: "nat \<Rightarrow> string \<Rightarrow> Runner \<Rightarrow> Runner" where
  "cancelTaskRequests taskId reason r =
     r\<lparr>dataRequests := cancelRequestsOf taskId reason (dataRequests r),
       nodeTypesRequests := cancelRequestsOf taskId reason (nodeTypesRequests r)\<rparr>"

definition taskCancelled :: "RunnerEnv \<Rightarrow> nat \<Rightarrow> string \<Rightarrow> Runner \<Rightarrow> Runner" where
  "taskCancelled env taskId reason r =
     (case map_get (runningTasks r) taskId of
        None \<Rightarrow> r
      | Some ref \<Rightarrow> (case tsStatus (taskObjects r ! ref) of
            WaitingForSettings \<Rightarrow> finishTask env ref r
          | AbortingTimeout \<Rightarrow> r
          | AbortingCancelled \<Rightarrow> r
          | Running \<Rightarrow> cancelTaskRequests taskId reason
              (setTask ref (abortWith AbortingCancelled ''cancelled'' (taskObjects r ! ref)) r)))"

definition timeoutMessage :: "nat \<Rightarrow> string" where
  "timeoutMessage s = ''Task execution timed out after '' @ show_nat s @
     (if s = 1 then '' second'' else '' seconds'')"

definition taskTimedOut :: "RunnerEnv \<Rightarrow> nat \<Rightarrow> Runner \<Rightarrow> Runner" where
  "taskTimedOut env taskId r =
     (case map_get (runningTasks r) taskId of
        None \<Rightarrow> r
      | Some ref \<Rightarrow> (case tsStatus (taskObjects r ! ref) of
            WaitingForSettings \<Rightarrow>
              finishTask env ref (send (RunnerTaskError taskId (timeoutMessage (rnTaskTimeout r))) r)
          | AbortingTimeout \<Rightarrow> throwUnhandled unexpectedStatus r
          | Running \<Rightarrow> cancelTaskRequests taskId ''timeout''
              (setTask ref (abortWith AbortingTimeout ''timeout'' (taskObjects r ! ref)) r)
          | AbortingCancelled \<Rightarrow> r))"

text \<open>The timeout timer of a task state: its callback looks the task up by id.\<close>

definition timerFires :: "RunnerEnv \<Rightarrow> nat \<Rightarrow> Runner \<Rightarrow> Runner" where
  "timerFires env ref r =
     (if ref < length (taskObjects r) \<and> tsTimer (taskObjects r ! ref)
      then taskTimedOut env (tsTaskId (taskObjects r ! ref))
             (setTask ref ((taskObjects r ! ref)\<lparr>tsTimer := False\<rparr>) r)
      else r)"

definition receivedSettings :: "nat \<Rightarrow> string \<Rightarrow> Runner \<Rightarrow> Runner" where
  "receivedSettings taskId settings r =
     (case map_get (runningTasks r) taskId of
        None \<Rightarrow> r
      | Some ref \<Rightarrow> (case tsStatus (taskObjects r ! ref) of
            WaitingForSettings \<Rightarrow>
              setTask ref ((taskObjects r ! ref)\<lparr>tsStatus := Running, tsExecution := Executing settings\<rparr>) r
          | _ \<Rightarrow> throwUnhandled unexpectedStatus r))"


section \<open>The end of an execution\<close>

text \<open>Sending throws when the contents cannot be written as JSON.\<close>

definition trySend :: "RunnerEnv \<Rightarrow> string \<Rightarrow> RunnerMessage \<Rightarrow> Runner \<Rightarrow> string option \<times> Runner" where
  "trySend env contents m r =
     (if serializable env contents then (None, send m r)
      else (Some ''Converting circular structure to JSON'', r))"

text \<open>\<open>taskExecutionSucceeded\<close> and \<open>taskExecutionFailed\<close> up to the \<open>finally\<close> block.\<close>

definition taskExecutionSucceeded :: "RunnerEnv \<Rightarrow> nat \<Rightarrow> string \<Rightarrow> Runner \<Rightarrow> Runner" where
  "taskExecutionSucceeded env ref data r =
     (let t = taskObjects r ! ref;
          (e, r) = (case tsStatus t of
              WaitingForSettings \<Rightarrow> (Some unexpectedStatus, r)
            | AbortingCancelled \<Rightarrow> (None, r)
            | _ \<Rightarrow> trySend env data (RunnerTaskDone (tsTaskId t) data) r)
      in setTask ref (t\<lparr>tsExecution := FinishSuccess e\<rparr>) r)"

definition taskExecutionFailed :: "RunnerEnv \<Rightarrow> nat \<Rightarrow> string \<Rightarrow> Runner \<Rightarrow> Runner" where
  "taskExecutionFailed env ref e r =
     (let t = taskObjects r ! ref;
          (e, r) = (case tsStatus t of
              WaitingForSettings \<Rightarrow> (Some unexpectedStatus, r)
            | AbortingCancelled \<Rightarrow> (None, r)
            | _ \<Rightarrow> trySend env e (RunnerTaskError (tsTaskId t) e) r)
      in setTask ref (t\<lparr>tsExecution := FinishFailure e\<rparr>) r)"

fun isExecuting :: "Execution \<Rightarrow> bool" where
  "isExecuting (Executing s) = True"
| "isExecuting e = False"

definition executionResolves :: "RunnerEnv \<Rightarrow> nat \<Rightarrow> string \<Rightarrow> Runner \<Rightarrow> Runner" where
  "executionResolves env ref data r =
     (if ref < length (taskObjects r) \<and> isExecuting (tsExecution (taskObjects r ! ref))
      then taskExecutionSucceeded env ref data r else r)"

definition executionRejects :: "RunnerEnv \<Rightarrow> nat \<Rightarrow> string \<Rightarrow> Runner \<Rightarrow> Runner" where
  "executionRejects env ref e r =
     (if ref < length (taskObjects r) \<and> isExecuting (tsExecution (taskObjects r ! ref))
      then taskExecutionFailed env ref e r else r)"

text \<open>
  The \<open>finally\<close> block: an error of \<open>taskExecutionSucceeded\<close> is handed to the \<open>catch\<close> handler, one of
  \<open>taskExecutionFailed\<close> leaves the promise chain.
\<close>

definition finishExecution :: "RunnerEnv \<Rightarrow> nat \<Rightarrow> Runner \<Rightarrow> Runner" where
  "finishExecution env ref r =
     (if ref < length (taskObjects r) then
        (case tsExecution (taskObjects r ! ref) of
           FinishSuccess None \<Rightarrow>
             finishTask env ref (setTask ref ((taskObjects r ! ref)\<lparr>tsExecution := Over\<rparr>) r)
         | FinishSuccess (Some e) \<Rightarrow> taskExecutionFailed env ref e (finishTask env ref r)
         | FinishFailure None \<Rightarrow>
             finishTask env ref (setTask ref ((taskObjects r ! ref)\<lparr>tsExecution := Over\<rparr>) r)
         | FinishFailure (Some e) \<Rightarrow>
             throwUnhandled e
               (finishTask env ref (setTask ref ((taskObjects r ! ref)\<lparr>tsExecution := Over\<rparr>) r))
         | _ \<Rightarrow> r)
      else r)"


section \<open>Requests\<close>

text \<open>The requests of a task, up to the \<open>await\<close>.\<close>

definition requestData :: "RunnerEnv \<Rightarrow> nat \<Rightarrow> string \<Rightarrow> Runner \<Rightarrow> Runner" where
  "requestData env taskId params r =
     (let rid = nanoid env (calls r)
      in send (RunnerDataRequest taskId rid params)
           (r\<lparr>calls := Suc (calls r), dataRequests := openRequest rid taskId (dataRequests r)\<rparr>))"

definition requestNodeTypes :: "RunnerEnv \<Rightarrow> nat \<Rightarrow> string \<Rightarrow> Runner \<Rightarrow> Runner" where
  "requestNodeTypes env taskId params r =
     (let rid = nanoid env (calls r)
      in send (RunnerNodeTypesRequest taskId rid params)
           (r\<lparr>calls := Suc (calls r), nodeTypesRequests := openRequest rid taskId (nodeTypesRequests r)\<rparr>))"

text \<open>The parameters may not be writable as JSON; then the call throws and the entry is deleted.\<close>

definition makeRpcCall :: "RunnerEnv \<Rightarrow> nat \<Rightarrow> string \<Rightarrow> Runner \<Rightarrow> Runner" where
  "makeRpcCall env taskId params r =
     (let callId = nanoid env (calls r);
          r = r\<lparr>calls := Suc (calls r)\<rparr>
      in if serializable env params
         then send (RunnerRpc taskId callId params) (r\<lparr>rpcCalls := openRequest callId () (rpcCalls r)\<rparr>)
         else r)"

definition processDataResponse :: "string \<Rightarrow> string \<Rightarrow> Runner \<Rightarrow> Runner" where
  "processDataResponse rid data r = r\<lparr>dataRequests := answerRequest rid (Resolved data) (dataRequests r)\<rparr>"

definition processNodeTypesResponse :: "string \<Rightarrow> string \<Rightarrow> Runner \<Rightarrow> Runner" where
  "processNodeTypesResponse rid types r =
     r\<lparr>nodeTypesRequests := answerRequest rid (Resolved types) (nodeTypesRequests r)\<rparr>"

definition handleRpcResponse :: "string \<Rightarrow> bool \<Rightarrow> string \<Rightarrow> Runner \<Rightarrow> Runner" where
  "handleRpcResponse callId success data r =
     r\<lparr>rpcCalls := answerRequest callId (if success then Resolved data else Rejected data) (rpcCalls r)\<rparr>"

text \<open>The code behind the \<open>await\<close> of the three kinds of requests, with the outcome if there is one.\<close>

definition resumeData :: "string \<Rightarrow> Runner \<Rightarrow> Promise option \<times> Runner" where
  "resumeData rid r =
     (case resumeRequest rid (dataRequests r) of
        None \<Rightarrow> (None, r)
      | Some (v, reg) \<Rightarrow> (Some v, r\<lparr>dataRequests := reg\<rparr>))"

definition resumeNodeTypes :: "string \<Rightarrow> Runner \<Rightarrow> Promise option \<times> Runner" where
  "resumeNodeTypes rid r =
     (case resumeRequest rid (nodeTypesRequests r) of
        None \<Rightarrow> (None, r)
      | Some (v, reg) \<Rightarrow> (Some v, r\<lparr>nodeTypesRequests := reg\<rparr>))"

definition resumeRpc :: "string \<Rightarrow> Runner \<Rightarrow> Promise option \<times> Runner" where
  "resumeRpc callId r =
     (case resumeRequest callId (rpcCalls r) of
        None \<Rightarrow> (None, r)
      | Some (v, reg) \<Rightarrow> (Some v, r\<lparr>rpcCalls := reg\<rparr>))"


section \<open>Messages and the end\<close>

definition onMessage :: "RunnerEnv \<Rightarrow> ToRunner \<Rightarrow> Runner \<Rightarrow> Runner" where
  "onMessage env m r =
     (case m of
        InfoRequest \<Rightarrow> send (RunnerInfo (rnName r) [rnTaskType r]) r
      | RunnerRegistered \<Rightarrow> startTaskOffers r
      | TaskOfferAccept oid taskId \<Rightarrow> offerAccepted oid taskId r
      | TaskCancel taskId reason \<Rightarrow> taskCancelled env taskId reason r
      | SettingsToRunner taskId settings \<Rightarrow> receivedSettings taskId settings r
      | DataToRunner taskId rid data \<Rightarrow> processDataResponse rid data r
      | RpcResponseToRunner taskId callId success data \<Rightarrow> handleRpcResponse callId success data r
      | NodeTypesToRunner taskId rid types \<Rightarrow> processNodeTypesResponse rid types r)"

text \<open>\<open>stop\<close> up to its first \<open>await\<close>, and the loop that polls until the tasks are done.\<close>

definition stop :: "Runner \<Rightarrow> Runner" where
  "stop r = stopTaskOffers (clearIdleTimer r)"

datatype Stopping = KeepWaiting | StopFailed js_error | ConnectionClosed

definition waitUntilAllTasksAreDone :: "nat \<Rightarrow> Runner \<Rightarrow> Stopping \<times> Runner" where
  "waitUntilAllTasksAreDone waitedMs r =
     (if length (runningTasks r) > 0 then
        (if waitedMs > 30000
         then (StopFailed (ApplicationError ''Timeout while waiting for tasks to finish''), r)
         else (KeepWaiting, r))
      else (ConnectionClosed, r\<lparr>connected := False\<rparr>))"

end
