(* ===== verification/Task_Runner_Facts.thy ===== *)
theory Task_Runner_Facts
  imports Task_Runner
begin

text \<open>
  The steps of a task runner, what the operations leave alone, and the invariant of its books: the
  slots that tasks and offers take, the tasks that it holds, and the answers that it has sent.
\<close>


section \<open>Steps\<close>

inductive rn_step :: "RunnerEnv \<Rightarrow> Runner \<Rightarrow> Runner \<Rightarrow> bool" for env where
  rn_message: "rn_step env r (onMessage env m r)"
| rn_close: "rn_step env r (stopTaskOffers r)"
| rn_tick: "rn_step env r (offerTick env r)"
| rn_idle: "rn_step env r (idleTick r)"
| rn_timer: "rn_step env r (timerFires env ref r)"
| rn_resolves: "rn_step env r (executionResolves env ref data r)"
| rn_rejects: "rn_step env r (executionRejects env ref e r)"
| rn_finish: "rn_step env r (finishExecution env ref r)"
| rn_data: "rn_step env r (requestData env i params r)"
| rn_types: "rn_step env r (requestNodeTypes env i params r)"
| rn_rpc: "rn_step env r (makeRpcCall env i params r)"
| rn_resume_data: "rn_step env r (snd (resumeData rid r))"
| rn_resume_types: "rn_step env r (snd (resumeNodeTypes rid r))"
| rn_resume_rpc: "rn_step env r (snd (resumeRpc rid r))"
| rn_stop: "rn_step env r (stop r)"
| rn_wait: "rn_step env r (snd (waitUntilAllTasksAreDone ms r))"

inductive rn_reachable :: "RunnerEnv \<Rightarrow> Runner \<Rightarrow> bool" for env where
  rn_start: "rn_reachable env (newRunner type name concurrency taskTimeout idleTimeout)"
| rn_next: "rn_reachable env r \<Longrightarrow> rn_step env r r' \<Longrightarrow> rn_reachable env r'"


section \<open>Offers\<close>

text \<open>Sending offers changes the offers, the calls of outside functions and what was sent, only.\<close>

definition is_offer :: "RunnerMessage \<Rightarrow> bool" where
  "is_offer m \<longleftrightarrow> (\<exists>oid type valid. m = RunnerTaskOffer oid type valid)"

definition offers_only :: "Runner \<Rightarrow> Runner \<Rightarrow> bool" where
  "offers_only r r' \<longleftrightarrow> (\<exists>os n ms. (\<forall>m \<in> set ms. is_offer m) \<and>
     r' = r\<lparr>openOffers := os, calls := n, sent := sent r @ ms\<rparr>)"

lemma offers_onlyI:
  "r' = r\<lparr>openOffers := openOffers r', calls := calls r', sent := sent r @ ms\<rparr> \<Longrightarrow>
   \<forall>m \<in> set ms. is_offer m \<Longrightarrow> offers_only r r'"
  unfolding offers_only_def by blast

lemma offers_only_refl [simp]: "offers_only r r"
  by (rule offers_onlyI [of _ _ "[]"]) simp_all

lemma offers_only_fields:
  assumes "offers_only r r'"
  shows "taskObjects r' = taskObjects r" "runningTasks r' = runningTasks r"
    "maxConcurrency r' = maxConcurrency r" "canSendOffers r' = canSendOffers r"
    "dataRequests r' = dataRequests r" "nodeTypesRequests r' = nodeTypesRequests r"
    "rpcCalls r' = rpcCalls r" "unhandled r' = unhandled r" "rnTaskType r' = rnTaskType r"
  using assms unfolding offers_only_def by auto

lemma offers_only_trans: "offers_only r s \<Longrightarrow> offers_only s t \<Longrightarrow> offers_only r t"
  unfolding offers_only_def by (elim exE conjE) (simp, metis Un_iff set_append)

lemma offers_only_fold:
  "(\<And>x s. offers_only s (f x s)) \<Longrightarrow> offers_only r (fold f xs r)"
proof (induction xs arbitrary: r)
  case (Cons x xs)
  then show ?case by (metis fold_simps(2) offers_only_trans)
qed simp

lemma offers_only_funpow: "(\<And>s. offers_only s (f s)) \<Longrightarrow> offers_only r ((f ^^ n) r)"
  by (induction n) (auto intro: offers_only_trans)

lemma deleteStaleOffers_only: "offers_only r (deleteStaleOffers env r)"
proof -
  have "offers_only s (deleteStaleOffer env p s)" for p s
    by (rule offers_onlyI [of _ _ "[]"]) (simp_all add: deleteStaleOffer_def Let_def split: prod.split)
  then show ?thesis unfolding deleteStaleOffers_def by (rule offers_only_fold)
qed

lemma sendOffer_only: "offers_only r (sendOffer env r)"
  by (rule offers_onlyI [of _ _ "[RunnerTaskOffer (nanoid env (calls r + 2)) (rnTaskType r)
        (int (OFFER_VALID_TIME_MS + randomInt500 env (calls r)))]"])
     (simp_all add: sendOffer_def send_def is_offer_def Let_def)

lemma sendOffers_only: "offers_only r (sendOffers env r)"
proof -
  let ?s = "deleteStaleOffers env r"
  have "offers_only ?s ((sendOffer env ^^ offersToSend ?s) ?s)"
    by (rule offers_only_funpow) (rule sendOffer_only)
  then show ?thesis
    using deleteStaleOffers_only [of r env] offers_only_trans by (simp add: sendOffers_def Let_def)
qed

text \<open>The messages that the books count: acceptances and answers.\<close>

definition is_accept :: "nat \<Rightarrow> RunnerMessage \<Rightarrow> bool" where
  "is_accept i m \<longleftrightarrow> m = RunnerTaskAccepted i"

definition is_answer :: "nat \<Rightarrow> RunnerMessage \<Rightarrow> bool" where
  "is_answer i m \<longleftrightarrow> (\<exists>x. m = RunnerTaskDone i x \<or> m = RunnerTaskError i x)"

definition accepts :: "Runner \<Rightarrow> nat \<Rightarrow> nat" where
  "accepts r i = length (filter (is_accept i) (sent r))"

definition answers :: "Runner \<Rightarrow> nat \<Rightarrow> nat" where
  "answers r i = length (filter (is_answer i) (sent r))"

lemma counted_simps [simp]:
  "is_accept i (RunnerTaskAccepted j) \<longleftrightarrow> i = j" "is_answer i (RunnerTaskDone j x) \<longleftrightarrow> i = j"
  "is_answer i (RunnerTaskError j x) \<longleftrightarrow> i = j" "\<not> is_accept i (RunnerTaskDone j x)"
  "\<not> is_accept i (RunnerTaskError j x)" "\<not> is_answer i (RunnerTaskAccepted j)"
  "\<not> is_accept i (RunnerTaskRejected j x)" "\<not> is_answer i (RunnerTaskRejected j x)"
  "\<not> is_accept i (RunnerInfo n ts)" "\<not> is_answer i (RunnerInfo n ts)"
  "\<not> is_accept i (RunnerDataRequest j x y)" "\<not> is_answer i (RunnerDataRequest j x y)"
  "\<not> is_accept i (RunnerNodeTypesRequest j x y)" "\<not> is_answer i (RunnerNodeTypesRequest j x y)"
  "\<not> is_accept i (RunnerRpc j x y)" "\<not> is_answer i (RunnerRpc j x y)"
  by (auto simp: is_accept_def is_answer_def)

lemma offers_uncounted:
  "\<forall>m \<in> set ms. is_offer m \<Longrightarrow> filter (is_accept i) ms = []"
  "\<forall>m \<in> set ms. is_offer m \<Longrightarrow> filter (is_answer i) ms = []"
  by (auto simp: filter_empty_conv is_offer_def is_accept_def is_answer_def)

lemma counted_send [simp]:
  "accepts (send m r) i = accepts r i + (if is_accept i m then 1 else 0)"
  "answers (send m r) i = answers r i + (if is_answer i m then 1 else 0)"
  by (simp_all add: accepts_def answers_def send_def)


section \<open>Operations that leave the tasks alone\<close>

text \<open>
  The id, status and execution of every task state stay, a task may be dropped, and nothing that is
  counted is sent.
\<close>

definition task_core :: "TaskState \<Rightarrow> nat \<times> TaskStatus \<times> Execution" where
  "task_core t = (tsTaskId t, tsStatus t, tsExecution t)"

definition quiet :: "Runner \<Rightarrow> Runner \<Rightarrow> bool" where
  "quiet r r' \<longleftrightarrow>
     map task_core (taskObjects r') = map task_core (taskObjects r) \<and>
     set (runningTasks r') \<subseteq> set (runningTasks r) \<and>
     (distinct (map_keys (runningTasks r)) \<longrightarrow> distinct (map_keys (runningTasks r'))) \<and>
     accepts r' = accepts r \<and> answers r' = answers r"

lemma quiet_refl [simp]: "quiet r r"
  by (simp add: quiet_def)

lemma quiet_trans: "quiet r s \<Longrightarrow> quiet s t \<Longrightarrow> quiet r t"
  unfolding quiet_def by auto

lemma quietI:
  assumes "taskObjects r' = taskObjects r" "runningTasks r' = runningTasks r"
    "accepts r' = accepts r" "answers r' = answers r"
  shows "quiet r r'"
  using assms by (simp add: quiet_def)

lemma quiet_offers: "offers_only r r' \<Longrightarrow> quiet r r'"
  unfolding offers_only_def by (auto intro!: quietI simp: accepts_def answers_def offers_uncounted fun_eq_iff)

lemma quiet_fields:
  "accepts (resetIdleTimer r) = accepts r" "answers (resetIdleTimer r) = answers r"
  "taskObjects (resetIdleTimer r) = taskObjects r" "runningTasks (resetIdleTimer r) = runningTasks r"
  "openOffers (resetIdleTimer r) = openOffers r" "maxConcurrency (resetIdleTimer r) = maxConcurrency r"
  by (simp_all add: resetIdleTimer_def accepts_def answers_def fun_eq_iff)

lemma setTask_core:
  "task_core t = task_core (taskObjects r ! ref) \<Longrightarrow>
   map task_core (taskObjects (setTask ref t r)) = map task_core (taskObjects r)"
  by (cases "ref < length (taskObjects r)") 
     (simp_all add: setTask_def map_update list_update_same_conv list_update_beyond)

lemma quiet_dropTask:
  assumes "task_core t = task_core (taskObjects r ! ref)"
  shows "quiet r ((setTask ref t r)\<lparr>runningTasks := map_del i (runningTasks r)\<rparr>)"
proof -
  have "map task_core ((taskObjects r)[ref := t]) = map task_core (taskObjects r)"
    using setTask_core [OF assms] by (simp add: setTask_def)
  moreover have "set (map_del i (runningTasks r)) \<subseteq> set (runningTasks r)" by (simp add: set_map_del)
  ultimately show ?thesis by (simp add: quiet_def setTask_def accepts_def answers_def fun_eq_iff)
qed

lemma quiet_resetIdleTimer: "quiet r (resetIdleTimer r)"
  by (rule quietI) (simp_all add: quiet_fields)

lemma quiet_sendOffers: "quiet r (sendOffers env r)"
  by (rule quiet_offers [OF sendOffers_only])

lemma quiet_finishTask: "quiet r (finishTask env ref r)"
proof -
  let ?s = "(setTask ref (cleanup (taskObjects r ! ref)) r)
    \<lparr>runningTasks := map_del (tsTaskId (taskObjects r ! ref)) (runningTasks r)\<rparr>"
  have "quiet r ?s" by (rule quiet_dropTask) (simp add: task_core_def cleanup_def)
  then have "quiet r (resetIdleTimer (sendOffers env ?s))"
    using quiet_sendOffers quiet_resetIdleTimer quiet_trans by blast
  moreover have "finishTask env ref r = resetIdleTimer (sendOffers env ?s)"
    by (simp add: finishTask_def setTask_def Let_def)
  ultimately show ?thesis by simp
qed


section \<open>The books\<close>

text \<open>The tasks that may still be answered.\<close>

fun owes :: "(nat, nat) js_map \<Rightarrow> nat \<Rightarrow> nat \<Rightarrow> nat \<times> TaskStatus \<times> Execution \<Rightarrow> bool" where
  "owes running i ref (j, status, execution) \<longleftrightarrow> j = i \<and>
     (case execution of
        NotStarted \<Rightarrow> (i, ref) \<in> set running
      | Executing s \<Rightarrow> True
      | FinishSuccess e \<Rightarrow> e \<noteq> None
      | FinishFailure e \<Rightarrow> False
      | Over \<Rightarrow> False)"

definition owing :: "Runner \<Rightarrow> nat \<Rightarrow> nat set" where
  "owing r i = {ref. ref < length (taskObjects r) \<and>
     owes (runningTasks r) i ref (task_core (taskObjects r ! ref))}"

lemma finite_owing [simp]: "finite (owing r i)"
  by (simp add: owing_def)

definition tasks_held :: "Runner \<Rightarrow> bool" where
  "tasks_held r \<longleftrightarrow> distinct (map_keys (runningTasks r)) \<and>
     (\<forall>(i, ref) \<in> set (runningTasks r). ref < length (taskObjects r) \<and>
        tsTaskId (taskObjects r ! ref) = i \<and> tsExecution (taskObjects r ! ref) \<noteq> Over) \<and>
     (\<forall>ref < length (taskObjects r).
        tsStatus (taskObjects r ! ref) = WaitingForSettings \<longleftrightarrow>
        tsExecution (taskObjects r ! ref) = NotStarted)"

definition answers_ok :: "Runner \<Rightarrow> bool" where
  "answers_ok r \<longleftrightarrow> (\<forall>i. answers r i + card (owing r i) \<le> accepts r i)"

lemma quiet_core:
  assumes "quiet r r'"
  shows "length (taskObjects r') = length (taskObjects r)"
    "ref < length (taskObjects r) \<Longrightarrow> task_core (taskObjects r' ! ref) = task_core (taskObjects r ! ref)"
proof -
  have "map task_core (taskObjects r') = map task_core (taskObjects r)" using assms by (simp add: quiet_def)
  then show "length (taskObjects r') = length (taskObjects r)"
    "ref < length (taskObjects r) \<Longrightarrow> task_core (taskObjects r' ! ref) = task_core (taskObjects r ! ref)"
    by (metis length_map, metis length_map nth_map)
qed

lemma quiet_state:
  assumes "quiet r r'" and "ref < length (taskObjects r)"
  shows "tsTaskId (taskObjects r' ! ref) = tsTaskId (taskObjects r ! ref)"
    "tsStatus (taskObjects r' ! ref) = tsStatus (taskObjects r ! ref)"
    "tsExecution (taskObjects r' ! ref) = tsExecution (taskObjects r ! ref)"
  using quiet_core(2) [OF assms] by (simp_all add: task_core_def)

lemma owes_mono: "set running' \<subseteq> set running \<Longrightarrow> owes running' i ref c \<Longrightarrow> owes running i ref c"
  by (cases c) (auto split: Execution.splits)

lemma quiet_owing: "quiet r r' \<Longrightarrow> owing r' i \<subseteq> owing r i"
proof
  fix ref assume q: "quiet r r'" and m: "ref \<in> owing r' i"
  then have l: "ref < length (taskObjects r)" by (simp add: owing_def quiet_core(1))
  moreover have "set (runningTasks r') \<subseteq> set (runningTasks r)" using q by (simp add: quiet_def)
  ultimately show "ref \<in> owing r i"
    using m owes_mono by (simp only: owing_def mem_Collect_eq quiet_core(2) [OF q l])
qed

lemma quiet_held:
  assumes "quiet r r'" and "tasks_held r"
  shows "tasks_held r'"
proof -
  have sub: "set (runningTasks r') \<subseteq> set (runningTasks r)" using assms(1) by (simp add: quiet_def)
  show ?thesis
    unfolding tasks_held_def
  proof (intro conjI allI impI ballI)
    show "distinct (map_keys (runningTasks r'))"
      using assms by (simp add: quiet_def tasks_held_def)
  next
    fix p assume "p \<in> set (runningTasks r')"
    with sub have p: "p \<in> set (runningTasks r)" by blast
    with assms(2) have "case p of (i, ref) \<Rightarrow> ref < length (taskObjects r) \<and>
        tsTaskId (taskObjects r ! ref) = i \<and> tsExecution (taskObjects r ! ref) \<noteq> Over"
      by (simp add: tasks_held_def)
    then show "case p of (i, ref) \<Rightarrow> ref < length (taskObjects r') \<and>
        tsTaskId (taskObjects r' ! ref) = i \<and> tsExecution (taskObjects r' ! ref) \<noteq> Over"
      using quiet_core(1) [OF assms(1)] quiet_state [OF assms(1)] by (cases p) simp
  next
    fix ref assume "ref < length (taskObjects r')"
    with assms(2) quiet_core(1) [OF assms(1)] quiet_state [OF assms(1)]
    show "tsStatus (taskObjects r' ! ref) = WaitingForSettings \<longleftrightarrow>
        tsExecution (taskObjects r' ! ref) = NotStarted" by (simp add: tasks_held_def)
  qed
qed

lemma quiet_answers:
  assumes "quiet r r'" and "answers_ok r"
  shows "answers_ok r'"
  unfolding answers_ok_def
proof
  fix i
  have "card (owing r' i) \<le> card (owing r i)"
    by (rule card_mono [OF finite_owing quiet_owing [OF assms(1)]])
  moreover have "answers r' i = answers r i" "accepts r' i = accepts r i" using assms(1) by (simp_all add: quiet_def)
  moreover have "answers r i + card (owing r i) \<le> accepts r i" using assms(2) by (simp add: answers_ok_def)
  ultimately show "answers r' i + card (owing r' i) \<le> accepts r' i" by linarith
qed

definition books :: "Runner \<Rightarrow> bool" where
  "books r \<longleftrightarrow> tasks_held r \<and> answers_ok r"

lemma quiet_books: "quiet r r' \<Longrightarrow> books r \<Longrightarrow> books r'"
  using quiet_held quiet_answers by (simp add: books_def)

lemma running_task:
  assumes "books r" and "map_get (runningTasks r) i = Some ref"
  shows "(i, ref) \<in> set (runningTasks r)" "ref < length (taskObjects r)"
    "tsTaskId (taskObjects r ! ref) = i" "tsExecution (taskObjects r ! ref) \<noteq> Over"
    "tsStatus (taskObjects r ! ref) = WaitingForSettings \<longleftrightarrow> tsExecution (taskObjects r ! ref) = NotStarted"
proof -
  show m: "(i, ref) \<in> set (runningTasks r)" using assms(2) by (rule map_of_SomeD)
  from m assms(1) show l: "ref < length (taskObjects r)" and "tsTaskId (taskObjects r ! ref) = i"
    and "tsExecution (taskObjects r ! ref) \<noteq> Over"
    by (auto simp: books_def tasks_held_def)
  show "tsStatus (taskObjects r ! ref) = WaitingForSettings \<longleftrightarrow> tsExecution (taskObjects r ! ref) = NotStarted"
    using l assms(1) by (simp add: books_def tasks_held_def)
qed


section \<open>Updates of one task\<close>

text \<open>
  A task state gets another status or stage; answers are sent only where the task is owed one and no
  longer is.
\<close>

definition owes_now :: "Runner \<Rightarrow> nat \<Rightarrow> bool" where
  "owes_now r ref \<longleftrightarrow> ref \<in> owing r (tsTaskId (taskObjects r ! ref))"

lemma setTask_nth [simp]:
  "length (taskObjects (setTask ref t r)) = length (taskObjects r)"
  "ref < length (taskObjects r) \<Longrightarrow> taskObjects (setTask ref t r) ! ref = t"
  "s \<noteq> ref \<Longrightarrow> taskObjects (setTask ref t r) ! s = taskObjects r ! s"
  "runningTasks (setTask ref t r) = runningTasks r" "sent (setTask ref t r) = sent r"
  "accepts (setTask ref t r) = accepts r" "answers (setTask ref t r) = answers r"
  by (simp_all add: setTask_def accepts_def answers_def fun_eq_iff)

lemma setTask_held:
  assumes "tasks_held r" and "ref < length (taskObjects r)" and "tsTaskId t = tsTaskId (taskObjects r ! ref)"
    and "tsStatus t = WaitingForSettings \<longleftrightarrow> tsExecution t = NotStarted"
    and "tsExecution t = Over \<Longrightarrow> \<forall>i. (i, ref) \<notin> set (runningTasks r)"
  shows "tasks_held (setTask ref t r)"
  unfolding tasks_held_def
proof (intro conjI allI impI ballI)
  show "distinct (map_keys (runningTasks (setTask ref t r)))"
    using assms(1) by (simp add: tasks_held_def)
next
  fix p assume "p \<in> set (runningTasks (setTask ref t r))"
  then have p: "p \<in> set (runningTasks r)" by simp
  obtain i s where is': "p = (i, s)" by (cases p)
  from assms(1) p have "s < length (taskObjects r) \<and> tsTaskId (taskObjects r ! s) = i \<and>
      tsExecution (taskObjects r ! s) \<noteq> Over" by (auto simp: tasks_held_def is')
  with assms(2,3,5) p show "case p of (i, s) \<Rightarrow> s < length (taskObjects (setTask ref t r)) \<and>
      tsTaskId (taskObjects (setTask ref t r) ! s) = i \<and>
      tsExecution (taskObjects (setTask ref t r) ! s) \<noteq> Over"
    by (cases "s = ref") (auto simp: is')
next
  fix s assume "s < length (taskObjects (setTask ref t r))"
  with assms(1,2,4) show "tsStatus (taskObjects (setTask ref t r) ! s) = WaitingForSettings \<longleftrightarrow>
      tsExecution (taskObjects (setTask ref t r) ! s) = NotStarted"
    by (cases "s = ref") (simp_all add: tasks_held_def)
qed

lemma setTask_owing:
  assumes "ref < length (taskObjects r)" and "tsTaskId t = tsTaskId (taskObjects r ! ref)"
  shows "owing (setTask ref t r) i - {ref} = owing r i - {ref}"
    "ref \<in> owing (setTask ref t r) i \<longleftrightarrow> owes (runningTasks r) i ref (task_core t)"
proof -
  have "taskObjects (setTask ref t r) ! s = (if s = ref then t else taskObjects r ! s)"
    if "s < length (taskObjects r)" for s using that by simp
  then show "owing (setTask ref t r) i - {ref} = owing r i - {ref}"
    "ref \<in> owing (setTask ref t r) i \<longleftrightarrow> owes (runningTasks r) i ref (task_core t)"
    using assms by (auto simp: owing_def)
qed


lemma card_owing_step:
  assumes "A - {x} \<subseteq> B - {x}" and "finite B" and "x \<in> A \<Longrightarrow> x \<in> B"
  shows "card A \<le> card B" "x \<in> B \<Longrightarrow> x \<notin> A \<Longrightarrow> Suc (card A) \<le> card B"
proof -
  have "A \<subseteq> B" using assms(1,3) by blast
  then show "card A \<le> card B" by (rule card_mono [OF assms(2)])
  assume "x \<in> B" and "x \<notin> A"
  with \<open>A \<subseteq> B\<close> have "A \<subset> B" by blast
  then have "card A < card B" by (rule psubset_card_mono [OF assms(2)])
  then show "Suc (card A) \<le> card B" by simp
qed

lemma setTask_books:
  assumes "books r" and "ref < length (taskObjects r)" and "tsTaskId t = tsTaskId (taskObjects r ! ref)"
    and "tsStatus t = WaitingForSettings \<longleftrightarrow> tsExecution t = NotStarted"
    and "tsExecution t = Over \<Longrightarrow> \<forall>i. (i, ref) \<notin> set (runningTasks r)"
    and "\<And>i. owes (runningTasks r) i ref (task_core t) \<Longrightarrow>
      owes (runningTasks r) i ref (task_core (taskObjects r ! ref))"
  shows "books (setTask ref t r)"
  unfolding books_def
proof
  show "tasks_held (setTask ref t r)"
    by (rule setTask_held) (use assms in \<open>simp_all add: books_def\<close>)
  show "answers_ok (setTask ref t r)"
    unfolding answers_ok_def
  proof
    fix i
    have "ref \<in> owing (setTask ref t r) i \<Longrightarrow> ref \<in> owing r i"
      using assms(2,3,6) by (simp add: setTask_owing(2)) (simp add: owing_def)
    then have "card (owing (setTask ref t r) i) \<le> card (owing r i)"
      using setTask_owing(1) [OF assms(2,3)] by (intro card_owing_step(1) [of _ ref]) auto
    moreover have "answers r i + card (owing r i) \<le> accepts r i"
      using assms(1) by (simp add: books_def answers_ok_def)
    ultimately show "answers (setTask ref t r) i + card (owing (setTask ref t r) i) \<le> accepts (setTask ref t r) i"
      by simp
  qed
qed

text \<open>A task that is owed an answer gets it and is no longer owed one.\<close>

definition settles :: "Runner \<Rightarrow> nat \<Rightarrow> Runner \<Rightarrow> bool" where
  "settles r ref r' \<longleftrightarrow>
     (\<forall>i. accepts r' i = accepts r i \<and> owing r' i \<subseteq> owing r i \<and> ref \<notin> owing r' i \<and>
        answers r' i \<le> answers r i + (if ref \<in> owing r i then 1 else 0))"

lemma settles_answers: "settles r ref r' \<Longrightarrow> answers_ok r \<Longrightarrow> answers_ok r'"
  unfolding answers_ok_def
proof
  fix i assume s: "settles r ref r'" and "\<forall>i. answers r i + card (owing r i) \<le> accepts r i"
  then have a: "answers r i + card (owing r i) \<le> accepts r i" by blast
  from s have b: "accepts r' i = accepts r i" "owing r' i \<subseteq> owing r i" "ref \<notin> owing r' i"
    "answers r' i \<le> answers r i + (if ref \<in> owing r i then 1 else 0)" by (simp_all add: settles_def)
  show "answers r' i + card (owing r' i) \<le> accepts r' i"
  proof (cases "ref \<in> owing r i")
    case True
    with b(2,3) have "Suc (card (owing r' i)) \<le> card (owing r i)"
      by (intro card_owing_step(2) [of _ ref]) auto
    with a b(1,4) True show ?thesis by simp
  next
    case False
    have "card (owing r' i) \<le> card (owing r i)" by (rule card_mono [OF finite_owing b(2)])
    with a b(1,4) False show ?thesis by simp
  qed
qed

lemma finishTask_fields:
  "runningTasks (finishTask env ref r) = map_del (tsTaskId (taskObjects r ! ref)) (runningTasks r)"
  "taskObjects (finishTask env ref r) = (taskObjects r)[ref := cleanup (taskObjects r ! ref)]"
  "maxConcurrency (finishTask env ref r) = maxConcurrency r"
  "unhandled (finishTask env ref r) = unhandled r"
  "canSendOffers (finishTask env ref r) = canSendOffers r"
  "dataRequests (finishTask env ref r) = dataRequests r"
  "nodeTypesRequests (finishTask env ref r) = nodeTypesRequests r"
  by (simp_all add: finishTask_def Let_def resetIdleTimer_def setTask_def
      offers_only_fields [OF sendOffers_only])


section \<open>The operations keep the books\<close>

lemma send_fields [simp]:
  "taskObjects (send m r) = taskObjects r" "runningTasks (send m r) = runningTasks r"
  "owing (send m r) i = owing r i" "tasks_held (send m r) = tasks_held r"
  by (simp_all add: send_def owing_def tasks_held_def)

lemma quiet_send: "(\<And>i. \<not> is_accept i m) \<Longrightarrow> (\<And>i. \<not> is_answer i m) \<Longrightarrow> quiet r (send m r)"
  by (rule quietI) (simp_all add: fun_eq_iff)

lemma quiet_throw: "quiet r (throwUnhandled e r)"
  by (rule quietI) (simp_all add: throwUnhandled_def accepts_def answers_def fun_eq_iff)

lemma quiet_cancelTaskRequests: "quiet r (cancelTaskRequests i reason r)"
  by (rule quietI) (simp_all add: cancelTaskRequests_def accepts_def answers_def fun_eq_iff)

lemma books_receivedSettings: "books r \<Longrightarrow> books (receivedSettings i settings r)"
proof (cases "map_get (runningTasks r) i")
  case (Some ref)
  assume b: "books r"
  note run = running_task [OF b Some]
  show ?thesis
  proof (cases "tsStatus (taskObjects r ! ref) = WaitingForSettings")
    case True
    with run(5) have "tsExecution (taskObjects r ! ref) = NotStarted" by simp
    with run(1,3) have "owes (runningTasks r) j ref (task_core
        ((taskObjects r ! ref)\<lparr>tsStatus := Running, tsExecution := Executing settings\<rparr>)) \<Longrightarrow>
        owes (runningTasks r) j ref (task_core (taskObjects r ! ref))" for j
      by (auto simp: task_core_def)
    with True Some b run(2) show ?thesis
      by (auto simp: receivedSettings_def intro!: setTask_books)
  next
    case False
    then have "receivedSettings i settings r = throwUnhandled unexpectedStatus r"
      using Some by (simp add: receivedSettings_def split: TaskStatus.splits)
    then show ?thesis using quiet_books [OF quiet_throw b] by simp
  qed
qed (simp add: receivedSettings_def)

lemma books_abort:
  assumes "books r" and "map_get (runningTasks r) i = Some ref"
    and "tsStatus (taskObjects r ! ref) = Running" and "status \<noteq> WaitingForSettings"
  shows "books (cancelTaskRequests i reason (setTask ref (abortWith status s (taskObjects r ! ref)) r))"
proof -
  note run = running_task [OF assms(1,2)]
  from assms(3) run(5) have ns: "tsExecution (taskObjects r ! ref) \<noteq> NotStarted" by simp
  have o': "owes (runningTasks r) j ref (task_core (abortWith status s (taskObjects r ! ref))) \<Longrightarrow>
      owes (runningTasks r) j ref (task_core (taskObjects r ! ref))" for j
    by (simp add: task_core_def abortWith_def)
  have "books (setTask ref (abortWith status s (taskObjects r ! ref)) r)"
    by (rule setTask_books [OF assms(1) run(2) _ _ _ o'])
      (use run(4) ns assms(4) in \<open>simp_all add: abortWith_def\<close>)
  then show ?thesis using quiet_books quiet_cancelTaskRequests by blast
qed

lemma books_taskCancelled: "books r \<Longrightarrow> books (taskCancelled env i reason r)"
  by (auto simp: taskCancelled_def books_abort quiet_books [OF quiet_finishTask]
      split: option.splits TaskStatus.splits)

lemma finishTask_books_waiting:
  assumes "books r" and "map_get (runningTasks r) i = Some ref"
    and "tsStatus (taskObjects r ! ref) = WaitingForSettings"
  shows "books (finishTask env ref (send (RunnerTaskError i x) r))"
proof -
  note run = running_task [OF assms(1,2)]
  let ?s = "send (RunnerTaskError i x) r" and ?f = "finishTask env ref (send (RunnerTaskError i x) r)"
  have q: "quiet ?s ?f" by (rule quiet_finishTask)
  have "tasks_held ?f" using quiet_held [OF q] assms(1) by (simp add: books_def)
  moreover have "settles r ref ?f"
    unfolding settles_def
  proof (intro allI conjI)
    fix j
    have ns: "tsExecution (taskObjects r ! ref) = NotStarted" using run(5) assms(3) by simp
    show "accepts ?f j = accepts r j" using q by (simp add: quiet_def)
    show "owing ?f j \<subseteq> owing r j" using quiet_owing [OF q, of j] by simp
    have "(j, ref) \<notin> set (runningTasks ?f)" if "j = i"
      using that run(3) by (simp add: finishTask_fields set_map_del)
    then show "ref \<notin> owing ?f j"
      using run(2,3) ns by (auto simp: owing_def finishTask_fields task_core_def cleanup_def)
    have "answers ?f j = answers r j + (if j = i then 1 else 0)" using q by (simp add: quiet_def)
    moreover have "ref \<in> owing r i" using run(1,2,3) ns by (simp add: owing_def task_core_def)
    ultimately show "answers ?f j \<le> answers r j + (if ref \<in> owing r j then 1 else 0)" by simp
  qed
  ultimately show ?thesis using settles_answers assms(1) by (simp add: books_def)
qed

lemma books_taskTimedOut: "books r \<Longrightarrow> books (taskTimedOut env i r)"
  by (auto simp: taskTimedOut_def books_abort finishTask_books_waiting quiet_books [OF quiet_throw]
      split: option.splits TaskStatus.splits)

lemma books_timerFires: "books r \<Longrightarrow> books (timerFires env ref r)"
proof -
  assume b: "books r"
  have "books (setTask ref ((taskObjects r ! ref)\<lparr>tsTimer := False\<rparr>) r)" if "ref < length (taskObjects r)"
    using b that by (intro quiet_books [OF _ b])
      (simp add: quiet_def setTask_core task_core_def fun_eq_iff)
  with b show ?thesis by (simp add: timerFires_def books_taskTimedOut)
qed


text \<open>The end of an execution: the answer is sent, or it is not owed any more.\<close>

lemma books_settle:
  assumes "books r" and "ref < length (taskObjects r)" and "tsExecution (taskObjects r ! ref) \<noteq> NotStarted"
    and "owes_now r ref" and "f \<in> {FinishSuccess None, FinishFailure e}"
    and "r' = r \<or> r' = send (RunnerTaskDone (tsTaskId (taskObjects r ! ref)) x) r \<or>
      r' = send (RunnerTaskError (tsTaskId (taskObjects r ! ref)) x) r"
  shows "books (setTask ref ((taskObjects r ! ref)\<lparr>tsExecution := f\<rparr>) r')"
proof -
  let ?t = "(taskObjects r ! ref)\<lparr>tsExecution := f\<rparr>"
  have same: "taskObjects r' = taskObjects r" "runningTasks r' = runningTasks r" "owing r' = owing r"
    "tasks_held r' = tasks_held r" "accepts r' = accepts r"
    and ans: "answers r' i \<le> answers r i + (if i = tsTaskId (taskObjects r ! ref) then 1 else 0)" for i
    using assms(6) by (auto simp: fun_eq_iff)
  have "tsStatus (taskObjects r ! ref) \<noteq> WaitingForSettings"
    using assms(1,2,3) by (simp add: books_def tasks_held_def)
  then have "tasks_held (setTask ref ?t r')"
    using assms(1,2,5) by (intro setTask_held) (auto simp: same books_def)
  moreover have "settles r ref (setTask ref ?t r')"
    unfolding settles_def
  proof (intro allI conjI)
    fix i
    note own = setTask_owing [of ref r' ?t i, unfolded same, OF assms(2)]
    show no: "ref \<notin> owing (setTask ref ?t r') i" using own(2) assms(5) by (auto simp: task_core_def)
    with own(1) show "owing (setTask ref ?t r') i \<subseteq> owing r i" by auto
    show "accepts (setTask ref ?t r') i = accepts r i" by (simp add: same)
    show "answers (setTask ref ?t r') i \<le> answers r i + (if ref \<in> owing r i then 1 else 0)"
      using ans [of i] assms(4) by (auto simp: owes_now_def split: if_splits)
  qed
  ultimately show ?thesis using settles_answers assms(1) by (simp add: books_def)
qed

lemma owes_nowI:
  assumes "ref < length (taskObjects r)"
    and "(\<exists>s. tsExecution (taskObjects r ! ref) = Executing s) \<or>
      (\<exists>e. tsExecution (taskObjects r ! ref) = FinishSuccess (Some e))"
  shows "owes_now r ref"
  using assms by (auto simp: owes_now_def owing_def task_core_def)

text \<open>What is sent by the end of an execution, and the error of the \<open>try\<close> block.\<close>

lemma taskExecutionSucceeded_cases:
  obtains r' e where
    "taskExecutionSucceeded env ref x r = setTask ref ((taskObjects r ! ref)\<lparr>tsExecution := FinishSuccess e\<rparr>) r'"
    "(r' = r \<and> (e = None \<longrightarrow> tsStatus (taskObjects r ! ref) = AbortingCancelled)) \<or>
     (e = None \<and> r' = send (RunnerTaskDone (tsTaskId (taskObjects r ! ref)) x) r)"
  by (cases "tsStatus (taskObjects r ! ref)"; cases "serializable env x")
     (auto simp: taskExecutionSucceeded_def trySend_def Let_def)

lemma taskExecutionFailed_cases:
  obtains r' e where
    "taskExecutionFailed env ref x r = setTask ref ((taskObjects r ! ref)\<lparr>tsExecution := FinishFailure e\<rparr>) r'"
    "r' = r \<or> r' = send (RunnerTaskError (tsTaskId (taskObjects r ! ref)) x) r"
  by (cases "tsStatus (taskObjects r ! ref)"; cases "serializable env x")
     (auto simp: taskExecutionFailed_def trySend_def Let_def)

lemma books_taskExecutionFailed:
  assumes "books r" and "ref < length (taskObjects r)"
    and "(\<exists>s. tsExecution (taskObjects r ! ref) = Executing s) \<or>
      (\<exists>e. tsExecution (taskObjects r ! ref) = FinishSuccess (Some e))"
  shows "books (taskExecutionFailed env ref x r)"
proof -
  obtain r' e where eq: "taskExecutionFailed env ref x r =
      setTask ref ((taskObjects r ! ref)\<lparr>tsExecution := FinishFailure e\<rparr>) r'"
    "r' = r \<or> r' = send (RunnerTaskError (tsTaskId (taskObjects r ! ref)) x) r"
    by (rule taskExecutionFailed_cases)
  show ?thesis
    unfolding eq(1)
    by (rule books_settle [OF assms(1,2) _ owes_nowI [OF assms(2,3)], where e = e and x = x])
      (use assms(3) eq(2) in auto)
qed

lemma books_taskExecutionSucceeded:
  assumes "books r" and "ref < length (taskObjects r)"
    and "tsExecution (taskObjects r ! ref) = Executing s"
  shows "books (taskExecutionSucceeded env ref x r)"
proof -
  obtain r' e where eq: "taskExecutionSucceeded env ref x r =
      setTask ref ((taskObjects r ! ref)\<lparr>tsExecution := FinishSuccess e\<rparr>) r'"
    "(r' = r \<and> (e = None \<longrightarrow> tsStatus (taskObjects r ! ref) = AbortingCancelled)) \<or>
     (e = None \<and> r' = send (RunnerTaskDone (tsTaskId (taskObjects r ! ref)) x) r)"
    by (rule taskExecutionSucceeded_cases)
  show ?thesis
  proof (cases e)
    case None
    show ?thesis
      unfolding eq(1) None
      by (rule books_settle [OF assms(1,2) _ owes_nowI [OF assms(2)], where x = x])
        (use assms(3) eq(2) in auto)
  next
    case (Some x)
    with eq(2) have r': "r' = r" by simp
    have "tsStatus (taskObjects r ! ref) \<noteq> WaitingForSettings"
      using assms by (simp add: books_def tasks_held_def)
    then show ?thesis
      unfolding eq(1) r' Some
      by (intro setTask_books [OF assms(1,2)]) (auto simp: task_core_def assms(3))
  qed
qed


lemma books_finishTask_over:
  assumes "books r" and "ref < length (taskObjects r)" and "tsExecution (taskObjects r ! ref) \<noteq> NotStarted"
  shows "books (finishTask env ref (setTask ref ((taskObjects r ! ref)\<lparr>tsExecution := Over\<rparr>) r))"
proof -
  let ?i = "tsTaskId (taskObjects r ! ref)"
  let ?t = "cleanup ((taskObjects r ! ref)\<lparr>tsExecution := Over\<rparr>)"
  let ?d = "r\<lparr>runningTasks := map_del ?i (runningTasks r)\<rparr>"
  have "quiet r ?d" by (auto simp: quiet_def set_map_del accepts_def answers_def fun_eq_iff)
  then have d: "books ?d" using assms(1) by (rule quiet_books)
  have "(i, ref) \<notin> set (runningTasks ?d)" for i
    using assms(1) by (auto simp: set_map_del books_def tasks_held_def)
  moreover have "tsStatus (taskObjects r ! ref) \<noteq> WaitingForSettings"
    using assms by (simp add: books_def tasks_held_def)
  ultimately have "books (setTask ref ?t ?d)"
    by (intro setTask_books [OF d]) (use assms(2) in \<open>auto simp: cleanup_def task_core_def\<close>)
  then have "books (resetIdleTimer (sendOffers env (setTask ref ?t ?d)))"
    using quiet_books quiet_sendOffers quiet_resetIdleTimer by blast
  moreover have "finishTask env ref (setTask ref ((taskObjects r ! ref)\<lparr>tsExecution := Over\<rparr>) r) =
      resetIdleTimer (sendOffers env (setTask ref ?t ?d))"
  proof -
    have "(setTask ref ?t r)\<lparr>runningTasks := map_del ?i (runningTasks r)\<rparr> = setTask ref ?t ?d"
      by (simp add: setTask_def)
    moreover have "setTask ref ?t (setTask ref t' r) = setTask ref ?t r" for t' by (simp add: setTask_def)
    ultimately show ?thesis using assms(2) by (simp add: finishTask_def Let_def)
  qed
  ultimately show ?thesis by simp
qed

lemma books_finishExecution:
  assumes "books r"
  shows "books (finishExecution env ref r)"
proof (cases "ref < length (taskObjects r)")
  case True
  show ?thesis
  proof (cases "tsExecution (taskObjects r ! ref)")
    case (FinishSuccess e)
    have "books (taskExecutionFailed env ref x (finishTask env ref r))" if "e = Some x" for x
      by (rule books_taskExecutionFailed [OF quiet_books [OF quiet_finishTask assms]])
        (use True FinishSuccess that in \<open>simp_all add: finishTask_fields cleanup_def\<close>)
    with FinishSuccess True assms show ?thesis
      by (auto simp: finishExecution_def books_finishTask_over split: option.splits)
  next
    case (FinishFailure e)
    with True assms show ?thesis
      by (auto simp: finishExecution_def books_finishTask_over quiet_books [OF quiet_throw] split: option.splits)
  qed (use True assms in \<open>simp_all add: finishExecution_def\<close>)
qed (simp add: assms finishExecution_def)

lemma books_offerAccepted:
  assumes "books r"
  shows "books (offerAccepted oid i r)"
proof (cases "hasOpenTasks r \<and> map_get (openOffers r) oid \<noteq> None")
  case False
  have q: "quiet r (r\<lparr>openOffers := os\<rparr>)" for os
    by (rule quietI) (simp_all add: accepts_def answers_def fun_eq_iff)
  have "quiet r (send (RunnerTaskRejected i x) (r\<lparr>openOffers := os\<rparr>))" for os x
    using q quiet_send [of "RunnerTaskRejected i x"] quiet_trans by (metis counted_simps(7,8))
  moreover have "quiet r (send (RunnerTaskRejected i x) r)" for x by (rule quiet_send) simp_all
  ultimately have "quiet r (offerAccepted oid i r)" using False by (simp add: offerAccepted_def)
  then show ?thesis using assms by (rule quiet_books)
next
  case True
  let ?n = "length (taskObjects r)" and ?r = "offerAccepted oid i r"
  have os: "taskObjects ?r = taskObjects r @ [newTaskState i]"
    "runningTasks ?r = map_put i ?n (runningTasks r)"
    using True by (auto simp: offerAccepted_def Let_def quiet_fields)
  have cnt: "answers ?r j = answers r j" "accepts ?r j = accepts r j + (if j = i then 1 else 0)" for j
    using True by (auto simp: offerAccepted_def Let_def quiet_fields resetIdleTimer_def accepts_def answers_def
        send_def)
  have sub: "set (runningTasks ?r) \<subseteq> insert (i, ?n) (set (runningTasks r))"
    using assms os(2) set_map_put [of "runningTasks r" i ?n] by (auto simp: books_def tasks_held_def)
  have "tasks_held ?r"
    unfolding tasks_held_def
  proof (intro conjI allI impI ballI)
    show "distinct (map_keys (runningTasks ?r))"
      using assms os(2) by (simp add: books_def tasks_held_def)
  next
    fix p assume "p \<in> set (runningTasks ?r)"
    with sub have "p = (i, ?n) \<or> p \<in> set (runningTasks r)" by blast
    then show "case p of (i, ref) \<Rightarrow> ref < length (taskObjects ?r) \<and>
        tsTaskId (taskObjects ?r ! ref) = i \<and> tsExecution (taskObjects ?r ! ref) \<noteq> Over"
    proof
      assume "p \<in> set (runningTasks r)"
      with assms show ?thesis by (auto simp: books_def tasks_held_def os nth_append)
    qed (simp add: os newTaskState_def)
  next
    fix ref assume "ref < length (taskObjects ?r)"
    with assms show "tsStatus (taskObjects ?r ! ref) = WaitingForSettings \<longleftrightarrow>
        tsExecution (taskObjects ?r ! ref) = NotStarted"
      by (auto simp: os nth_append newTaskState_def books_def tasks_held_def less_Suc_eq)
  qed
  moreover have "answers_ok ?r"
    unfolding answers_ok_def
  proof
    fix j
    have own: "x \<in> owing r j" if "x \<in> owing ?r j" "x \<noteq> ?n" for x
    proof -
      from that have x: "x < ?n" and "owes (runningTasks ?r) j x (task_core (taskObjects r ! x))"
        by (auto simp: owing_def os nth_append)
      moreover have "(j, x) \<in> set (runningTasks ?r) \<Longrightarrow> (j, x) \<in> set (runningTasks r)" using sub that(2) by blast
      ultimately show ?thesis by (auto simp: owing_def task_core_def split: Execution.splits)
    qed
    have "?n \<notin> owing ?r j" if "j \<noteq> i" using that by (simp add: owing_def os task_core_def newTaskState_def)
    with own have "owing ?r j \<subseteq> (if j = i then insert ?n (owing r j) else owing r j)" by auto
    then have "card (owing ?r j) \<le> card (if j = i then insert ?n (owing r j) else owing r j)"
      by (rule card_mono [rotated]) simp
    also have "\<dots> \<le> card (owing r j) + (if j = i then 1 else 0)"
      by (simp add: card_insert_if)
    finally have "card (owing ?r j) \<le> card (owing r j) + (if j = i then 1 else 0)" .
    moreover have "answers r j + card (owing r j) \<le> accepts r j" using assms by (simp add: books_def answers_ok_def)
    ultimately show "answers ?r j + card (owing ?r j) \<le> accepts ?r j" by (simp add: cnt)
  qed
  ultimately show ?thesis by (simp add: books_def)
qed


text \<open>Everything else is quiet.\<close>

lemma quiet_rest:
  "quiet r (stopTaskOffers r)" "quiet r (startTaskOffers r)" "quiet r (clearIdleTimer r)"
  "quiet r (offerTick env r)" "quiet r (idleTick r)" "quiet r (processDataResponse rid x r)"
  "quiet r (processNodeTypesResponse rid x r)" "quiet r (handleRpcResponse rid s x r)"
  "quiet r (snd (resumeData rid r))" "quiet r (snd (resumeNodeTypes rid r))" "quiet r (snd (resumeRpc rid r))"
  "quiet r (stop r)" "quiet r (snd (waitUntilAllTasksAreDone ms r))" "quiet r (requestData env i x r)"
  "quiet r (requestNodeTypes env i x r)" "quiet r (makeRpcCall env i x r)"
proof -
  have keep: "quiet r (r\<lparr>canSendOffers := a, offerInterval := b\<rparr>)" "quiet r (r\<lparr>idleTimer := a\<rparr>)"
    "quiet r (r\<lparr>idleTimer := a, idleEvents := n\<rparr>)" "quiet r (r\<lparr>dataRequests := d\<rparr>)"
    "quiet r (r\<lparr>nodeTypesRequests := d\<rparr>)" "quiet r (r\<lparr>rpcCalls := c\<rparr>)" "quiet r (r\<lparr>connected := a\<rparr>)"
    "quiet r (r\<lparr>calls := n\<rparr>)" "quiet r (r\<lparr>calls := n, dataRequests := d\<rparr>)"
    "quiet r (r\<lparr>calls := n, nodeTypesRequests := d\<rparr>)" "quiet r (r\<lparr>calls := n, rpcCalls := c\<rparr>)"
    "quiet r (r\<lparr>idleTimer := a, canSendOffers := b, offerInterval := b\<rparr>)"
    for a b n d c
    by (simp_all add: quiet_def accepts_def answers_def fun_eq_iff)
  show "quiet r (stopTaskOffers r)" "quiet r (startTaskOffers r)" "quiet r (clearIdleTimer r)"
    "quiet r (idleTick r)" "quiet r (processDataResponse rid x r)"
    "quiet r (processNodeTypesResponse rid x r)" "quiet r (handleRpcResponse rid s x r)"
    "quiet r (snd (waitUntilAllTasksAreDone ms r))" "quiet r (stop r)"
    by (simp_all add: stopTaskOffers_def startTaskOffers_def clearIdleTimer_def idleTick_def
        processDataResponse_def processNodeTypesResponse_def handleRpcResponse_def stop_def
        waitUntilAllTasksAreDone_def keep)
  show "quiet r (offerTick env r)" by (simp add: offerTick_def quiet_sendOffers)
  show "quiet r (snd (resumeData rid r))" "quiet r (snd (resumeNodeTypes rid r))" "quiet r (snd (resumeRpc rid r))"
    by (auto simp: resumeData_def resumeNodeTypes_def resumeRpc_def keep split: option.splits)
  show "quiet r (requestData env i x r)" "quiet r (requestNodeTypes env i x r)" "quiet r (makeRpcCall env i x r)"
    by (simp_all add: requestData_def requestNodeTypes_def makeRpcCall_def Let_def keep
        quiet_trans [OF _ quiet_send])
qed

lemma books_onMessage: "books r \<Longrightarrow> books (onMessage env m r)"
  by (cases m)
    (simp_all add: onMessage_def quiet_books [OF quiet_rest(2)] quiet_books [OF quiet_rest(6)]
      quiet_books [OF quiet_rest(7)] quiet_books [OF quiet_rest(8)] quiet_books [OF quiet_send]
      books_offerAccepted books_taskCancelled books_receivedSettings)

lemma isExecuting_iff: "isExecuting x \<longleftrightarrow> (\<exists>s. x = Executing s)"
  by (cases x) auto

lemma books_ends:
  "books r \<Longrightarrow> books (executionResolves env ref x r)" "books r \<Longrightarrow> books (executionRejects env ref x r)"
  by (auto simp: executionResolves_def executionRejects_def isExecuting_iff books_taskExecutionSucceeded
      books_taskExecutionFailed)

lemma rn_step_books: "rn_step env r r' \<Longrightarrow> books r \<Longrightarrow> books r'"
  by (induction rule: rn_step.induct)
    (simp_all add: books_onMessage books_timerFires books_ends books_finishExecution quiet_books [OF quiet_rest(1)]
      quiet_books [OF quiet_rest(4)] quiet_books [OF quiet_rest(5)] quiet_books [OF quiet_rest(9)]
      quiet_books [OF quiet_rest(10)] quiet_books [OF quiet_rest(11)] quiet_books [OF quiet_rest(12)]
      quiet_books [OF quiet_rest(13)] quiet_books [OF quiet_rest(14)] quiet_books [OF quiet_rest(15)]
      quiet_books [OF quiet_rest(16)])

lemma rn_reachable_books: "rn_reachable env r \<Longrightarrow> books r"
proof (induction rule: rn_reachable.induct)
  case (rn_start type name concurrency taskTimeout idleTimeout)
  let ?r = "newRunner type name concurrency taskTimeout idleTimeout"
  have "runningTasks ?r = []" "taskObjects ?r = []" "sent ?r = []"
    by (simp_all add: newRunner_def resetIdleTimer_def)
  then show ?case by (simp add: books_def tasks_held_def answers_ok_def owing_def answers_def)
qed (rule rn_step_books)



section \<open>Slots\<close>

text \<open>
  Offers and tasks share the slots of a runner. The operations keep within them, use new ids for
  offers only, and send no offer while offers are stopped.
\<close>

definition slots :: "Runner \<Rightarrow> nat" where
  "slots r = length (openOffers r) + length (runningTasks r)"

definition offers_sent :: "Runner \<Rightarrow> RunnerMessage list" where
  "offers_sent r = filter is_offer (sent r)"

definition offer_ids :: "Runner \<Rightarrow> string set" where
  "offer_ids r = set (map_keys (openOffers r))"

lemma offer_ids_put: "openOffers r' = map_put k v (openOffers r) \<Longrightarrow> offer_ids r' = insert k (offer_ids r)"
  unfolding offer_ids_def by (simp only: keys_map_put)

lemma offer_ids_del: "openOffers r' = map_del k (openOffers r) \<Longrightarrow> offer_ids r' = offer_ids r - {k}"
  unfolding offer_ids_def by (simp only: keys_map_del)

lemma offer_ids_same: "openOffers r' = openOffers r \<Longrightarrow> offer_ids r' = offer_ids r"
  by (simp add: offer_ids_def)

definition slotwise :: "RunnerEnv \<Rightarrow> Runner \<Rightarrow> Runner \<Rightarrow> bool" where
  "slotwise env r r' \<longleftrightarrow>
     maxConcurrency r' = maxConcurrency r \<and> canSendOffers r' = canSendOffers r \<and> calls r \<le> calls r' \<and>
     int (slots r') \<le> max (int (slots r)) (maxConcurrency r) \<and>
     offer_ids r' \<subseteq> offer_ids r \<union> nanoid env ` {calls r..<calls r'} \<and>
     (distinct (map_keys (openOffers r)) \<longrightarrow> distinct (map_keys (openOffers r'))) \<and>
     (\<not> canSendOffers r \<longrightarrow> slots r' \<le> slots r \<and> offers_sent r' = offers_sent r)"

lemma slotwise_refl [simp]: "slotwise env r r"
  by (simp add: slotwise_def)

lemma slotwise_trans: "slotwise env r s \<Longrightarrow> slotwise env s t \<Longrightarrow> slotwise env r t"
proof -
  assume a: "slotwise env r s" "slotwise env s t"
  have "{calls r..<calls s} \<union> {calls s..<calls t} = {calls r..<calls t}"
    using a by (auto simp: slotwise_def)
  then have "nanoid env ` {calls r..<calls s} \<union> nanoid env ` {calls s..<calls t} =
      nanoid env ` {calls r..<calls t}" by (metis image_Un)
  with a show ?thesis unfolding slotwise_def by (elim conjE, intro conjI impI) (simp, simp, simp, linarith, blast, blast, simp, simp)
qed

lemma length_map_put_le: "length (map_put k v m) \<le> Suc (length m)"
  by (induction m) auto

text \<open>Steps that keep or give back slots and send no offer.\<close>

lemma slotwiseI:
  assumes "maxConcurrency r' = maxConcurrency r" "canSendOffers r' = canSendOffers r" "calls r \<le> calls r'"
    and "openOffers r' = openOffers r \<or> (\<exists>k. openOffers r' = map_del k (openOffers r))"
    and "slots r' \<le> slots r" and "offers_sent r' = offers_sent r"
  shows "slotwise env r r'"
proof -
  have "offer_ids r' \<subseteq> offer_ids r"
    using assms(4) offer_ids_same offer_ids_del by (metis Diff_subset subset_refl)
  then show ?thesis using assms unfolding slotwise_def by auto
qed

lemma slotwise_same:
  assumes "maxConcurrency r' = maxConcurrency r" "canSendOffers r' = canSendOffers r" "calls r \<le> calls r'"
    and "openOffers r' = openOffers r" and "length (runningTasks r') \<le> length (runningTasks r)"
    and "offers_sent r' = offers_sent r"
  shows "slotwise env r r'"
  by (rule slotwiseI) (use assms in \<open>simp_all add: slots_def\<close>)

lemma slotwise_send: "\<not> is_offer m \<Longrightarrow> slotwise env r (send m r)"
  by (rule slotwise_same) (simp_all add: send_def offers_sent_def)

lemma slotwise_setTask: "slotwise env r (setTask ref t r)"
  by (rule slotwise_same) (simp_all add: setTask_def offers_sent_def)

lemma slotwise_deleteStaleOffers: "slotwise env r (deleteStaleOffers env r)"
proof -
  have one: "slotwise env s (deleteStaleOffer env p s)" for p s
    by (rule slotwiseI)
      (auto simp: deleteStaleOffer_def Let_def slots_def offers_sent_def length_map_del split: prod.split)
  have "slotwise env r (fold (deleteStaleOffer env) ps r)" for ps
  proof (induction ps arbitrary: r)
    case (Cons p ps)
    then show ?case using one slotwise_trans by (metis fold_simps(2))
  qed simp
  then show ?thesis by (simp add: deleteStaleOffers_def)
qed

lemma sendOffer_fields:
  "maxConcurrency (sendOffer env r) = maxConcurrency r" "canSendOffers (sendOffer env r) = canSendOffers r"
  "calls (sendOffer env r) = calls r + 3" "runningTasks (sendOffer env r) = runningTasks r"
  "\<exists>u. openOffers (sendOffer env r) = map_put (nanoid env (calls r + 2)) u (openOffers r)"
  by (auto simp: sendOffer_def send_def Let_def)

lemma slotwise_offer_loop:
  "canSendOffers r \<Longrightarrow> int (slots r + n) \<le> max (int (slots r)) (maxConcurrency r) \<Longrightarrow>
   slotwise env r ((sendOffer env ^^ n) r) \<and> slots ((sendOffer env ^^ n) r) \<le> slots r + n"
proof (induction n)
  case (Suc n)
  let ?s = "(sendOffer env ^^ n) r"
  have ih: "slotwise env r ?s" "slots ?s \<le> slots r + n" using Suc by simp_all
  obtain u where u: "openOffers (sendOffer env ?s) = map_put (nanoid env (calls ?s + 2)) u (openOffers ?s)"
    using sendOffer_fields(5) by blast
  have le: "slots (sendOffer env ?s) \<le> Suc (slots ?s)"
    using length_map_put_le [of "nanoid env (calls ?s + 2)" u "openOffers ?s"] u
    by (simp add: slots_def sendOffer_fields)
  have ids: "offer_ids (sendOffer env ?s) = insert (nanoid env (calls ?s + 2)) (offer_ids ?s)"
    using u by (rule offer_ids_put)
  have "offer_ids ?s \<subseteq> offer_ids r \<union> nanoid env ` {calls r..<calls ?s}" and "calls r \<le> calls ?s"
    using ih(1) by (simp_all add: slotwise_def)
  moreover have "{calls r..<calls ?s} \<subseteq> {calls r..<calls ?s + 3}" by auto
  ultimately have "offer_ids (sendOffer env ?s) \<subseteq> offer_ids r \<union> nanoid env ` {calls r..<calls ?s + 3}"
    unfolding ids by (intro insert_subsetI) auto
  moreover have "int (slots (sendOffer env ?s)) \<le> max (int (slots r)) (maxConcurrency r)"
    using le ih(2) Suc.prems(2) by linarith
  ultimately have "slotwise env r (sendOffer env ?s)"
    using ih(1) u Suc.prems(1) by (auto simp: slotwise_def sendOffer_fields)
  with le ih(2) show ?case by simp
qed simp

lemma slotwise_sendOffers: "slotwise env r (sendOffers env r)"
proof -
  let ?s = "deleteStaleOffers env r"
  have "int (slots ?s + offersToSend ?s) \<le> max (int (slots ?s)) (maxConcurrency ?s)"
    by (simp add: offersToSend_def slots_def)
  then show ?thesis
    using slotwise_trans [OF slotwise_deleteStaleOffers] slotwise_offer_loop [of ?s "offersToSend ?s" env]
    by (auto simp: sendOffers_def Let_def slotwise_deleteStaleOffers)
qed


lemma slotwise_finishTask: "slotwise env r (finishTask env ref r)"
proof -
  let ?s = "(setTask ref (cleanup (taskObjects r ! ref)) r)
    \<lparr>runningTasks := map_del (tsTaskId (taskObjects r ! ref)) (runningTasks r)\<rparr>"
  have "slotwise env r ?s"
    by (rule slotwise_same) (simp_all add: setTask_def offers_sent_def length_map_del)
  then have "slotwise env r (sendOffers env ?s)" by (rule slotwise_trans) (rule slotwise_sendOffers)
  moreover have "slotwise env s (resetIdleTimer s)" for s
    by (rule slotwise_same) (simp_all add: resetIdleTimer_def offers_sent_def)
  ultimately have "slotwise env r (resetIdleTimer (sendOffers env ?s))" using slotwise_trans by blast
  moreover have "finishTask env ref r = resetIdleTimer (sendOffers env ?s)"
    by (simp add: finishTask_def setTask_def Let_def)
  ultimately show ?thesis by simp
qed

lemma slotwise_cancelTaskRequests: "slotwise env r (cancelTaskRequests i reason r)"
  by (rule slotwise_same) (simp_all add: cancelTaskRequests_def offers_sent_def)

lemma slotwise_throw: "slotwise env r (throwUnhandled e r)"
  by (rule slotwise_same) (simp_all add: throwUnhandled_def offers_sent_def)

lemma slotwise_offerAccepted: "slotwise env r (offerAccepted oid i r)"
proof (cases "hasOpenTasks r \<and> map_get (openOffers r) oid \<noteq> None")
  case False
  have "slotwise env r (r\<lparr>openOffers := map_del oid (openOffers r)\<rparr>)"
    by (rule slotwiseI) (auto simp: slots_def offers_sent_def length_map_del)
  moreover have "slotwise env s (send (RunnerTaskRejected i x) s)" for s x
    by (rule slotwise_send) (simp add: is_offer_def)
  ultimately show ?thesis
    using False slotwise_trans by (auto simp: offerAccepted_def)
next
  case True
  let ?r = "offerAccepted oid i r"
  have os: "openOffers ?r = map_del oid (openOffers r)"
    "runningTasks ?r = map_put i (length (taskObjects r)) (runningTasks r)"
    using True by (auto simp: offerAccepted_def Let_def quiet_fields send_def)
  have "length (openOffers ?r) < length (openOffers r)"
    using True by (simp add: os length_map_del_less)
  moreover have "length (runningTasks ?r) \<le> Suc (length (runningTasks r))"
    by (simp add: os length_map_put_le)
  ultimately have "slots ?r \<le> slots r" by (simp add: slots_def)
  then show ?thesis
    using True os by (intro slotwiseI)
      (auto simp: offerAccepted_def Let_def resetIdleTimer_def send_def offers_sent_def is_offer_def)
qed

lemmas slotwise_steps = slotwise_refl slotwise_finishTask slotwise_setTask slotwise_cancelTaskRequests
  slotwise_throw slotwise_offerAccepted slotwise_sendOffers

lemma slotwise_handlers:
  "slotwise env r (taskCancelled env i reason r)" "slotwise env r (taskTimedOut env i r)"
  "slotwise env r (receivedSettings i x r)"
proof -
  have a: "slotwise env r (cancelTaskRequests i y (setTask ref t r))" for y ref t
    by (rule slotwise_trans [OF slotwise_setTask slotwise_cancelTaskRequests])
  have b: "slotwise env r (finishTask env ref (send (RunnerTaskError i y) r))" for ref y
    by (rule slotwise_trans [OF slotwise_send slotwise_finishTask]) (simp add: is_offer_def)
  show "slotwise env r (taskCancelled env i reason r)" "slotwise env r (taskTimedOut env i r)"
    "slotwise env r (receivedSettings i x r)"
    by (simp_all add: taskCancelled_def taskTimedOut_def receivedSettings_def slotwise_steps a b
        split: option.split TaskStatus.split)
qed

lemma slotwise_trySend:
  "\<not> is_offer m \<Longrightarrow> trySend env x m r = (e, r') \<Longrightarrow> slotwise env r r'"
  by (auto simp: trySend_def slotwise_send split: if_splits)

lemma slotwise_executions:
  "slotwise env r (taskExecutionSucceeded env ref x r)" "slotwise env r (taskExecutionFailed env ref x r)"
proof -
  obtain r' e where eq: "taskExecutionSucceeded env ref x r =
      setTask ref ((taskObjects r ! ref)\<lparr>tsExecution := FinishSuccess e\<rparr>) r'"
    "(r' = r \<and> (e = None \<longrightarrow> tsStatus (taskObjects r ! ref) = AbortingCancelled)) \<or>
     (e = None \<and> r' = send (RunnerTaskDone (tsTaskId (taskObjects r ! ref)) x) r)"
    by (rule taskExecutionSucceeded_cases)
  then have "slotwise env r r'" using slotwise_send by (auto simp: is_offer_def)
  then show "slotwise env r (taskExecutionSucceeded env ref x r)"
    unfolding eq(1) using slotwise_setTask slotwise_trans by blast
  obtain r' e where eq: "taskExecutionFailed env ref x r =
      setTask ref ((taskObjects r ! ref)\<lparr>tsExecution := FinishFailure e\<rparr>) r'"
    "r' = r \<or> r' = send (RunnerTaskError (tsTaskId (taskObjects r ! ref)) x) r"
    by (rule taskExecutionFailed_cases)
  then have "slotwise env r r'" using slotwise_send by (auto simp: is_offer_def)
  then show "slotwise env r (taskExecutionFailed env ref x r)"
    unfolding eq(1) using slotwise_setTask slotwise_trans by blast
qed

lemma slotwise_finishExecution: "slotwise env r (finishExecution env ref r)"
proof -
  have f: "slotwise env r (finishTask env ref (setTask ref t r))" for t
    by (rule slotwise_trans [OF slotwise_setTask slotwise_finishTask])
  moreover have "slotwise env r (throwUnhandled e (finishTask env ref (setTask ref t r)))" for e t
    by (rule slotwise_trans [OF f slotwise_throw])
  moreover have "slotwise env r (taskExecutionFailed env ref e (finishTask env ref r))" for e
    by (rule slotwise_trans [OF slotwise_finishTask slotwise_executions(2)])
  ultimately show ?thesis
    by (simp add: finishExecution_def split: Execution.split option.split)
qed

lemma slotwise_requests:
  "slotwise env r (requestData env i x r)" "slotwise env r (requestNodeTypes env i x r)"
  "slotwise env r (makeRpcCall env i x r)" "slotwise env r (processDataResponse rid x r)"
  "slotwise env r (processNodeTypesResponse rid x r)" "slotwise env r (handleRpcResponse rid s x r)"
  "slotwise env r (snd (resumeData rid r))" "slotwise env r (snd (resumeNodeTypes rid r))"
  "slotwise env r (snd (resumeRpc rid r))" "slotwise env r (idleTick r)"
  "slotwise env r (snd (waitUntilAllTasksAreDone ms r))"
  by (rule slotwise_same;
      simp add: requestData_def requestNodeTypes_def makeRpcCall_def Let_def send_def offers_sent_def is_offer_def
        processDataResponse_def processNodeTypesResponse_def handleRpcResponse_def idleTick_def
        resumeData_def resumeNodeTypes_def resumeRpc_def waitUntilAllTasksAreDone_def split: option.split prod.split)+

text \<open>Registration, stopping and closing are the steps that switch offers.\<close>

lemma rn_step_slotwise:
  "rn_step env r r' \<Longrightarrow> slotwise env r r' \<or> r' = startTaskOffers r \<or> r' = stopTaskOffers r \<or> r' = stop r"
proof (induction rule: rn_step.induct)
  case (rn_message r m)
  have "slotwise env r (send (RunnerInfo n ts) r)" for n ts by (rule slotwise_send) (simp add: is_offer_def)
  then show ?case
    by (cases m) (simp_all add: onMessage_def slotwise_handlers slotwise_offerAccepted slotwise_requests)
next
  case (rn_timer r ref)
  show ?case
    using slotwise_trans [OF slotwise_setTask slotwise_handlers(2)] by (simp add: timerFires_def)
qed (simp_all add: offerTick_def slotwise_sendOffers executionResolves_def executionRejects_def
    slotwise_executions slotwise_finishExecution slotwise_requests)

end
