(* ===== verification/Task_Runner_Properties.thy ===== *)
theory Task_Runner_Properties
  imports Task_Runner_Facts
begin

text \<open>
  The properties of the task runner: the slots it gives out, its answers, the life of a task, what is
  left when it stops, and the requests of its tasks.
\<close>


section \<open>A concrete runner\<close>

text \<open>Ids are numbered, every offer is valid 5 s, the clock stands still, and all contents can be sent.\<close>

definition plain_env :: RunnerEnv where
  "plain_env = \<lparr>nanoid = show_nat, randomInt500 = (\<lambda>n. 0), hrtime = (\<lambda>n. 0), serializable = (\<lambda>s. True)\<rparr>"

text \<open>A runner with two slots that was registered, sent offers, and got the task 7.\<close>

definition fresh_runner :: Runner where
  "fresh_runner = newRunner ''javascript'' None 2 60 0"

definition offering_runner :: Runner where
  "offering_runner = offerTick plain_env (onMessage plain_env RunnerRegistered fresh_runner)"

definition busy_runner :: Runner where
  "busy_runner = onMessage plain_env (TaskOfferAccept ''2'' 7) offering_runner"

lemma offering_reachable: "rn_reachable plain_env offering_runner"
  unfolding offering_runner_def fresh_runner_def
  using rn_next [OF rn_next [OF rn_start rn_message] rn_tick] .

lemma busy_reachable: "rn_reachable plain_env busy_runner"
  unfolding busy_runner_def using rn_next [OF offering_reachable rn_message] .


section \<open>Slots\<close>

lemma rn_reachable_slots:
  "rn_reachable env r \<Longrightarrow> int (slots r) \<le> max 0 (maxConcurrency r) \<and>
     distinct (map_keys (openOffers r)) \<and> offer_ids r \<subseteq> nanoid env ` {..<calls r}"
proof (induction rule: rn_reachable.induct)
  case (rn_start type name concurrency taskTimeout idleTimeout)
  then show ?case by (simp add: newRunner_def resetIdleTimer_def slots_def offer_ids_def)
next
  case (rn_next r r')
  from rn_step_slotwise [OF rn_next.hyps(2)] show ?case
  proof
    assume s: "slotwise env r r'"
    have "{..<calls r} \<union> {calls r..<calls r'} = {..<calls r'}" using s by (auto simp: slotwise_def)
    then have "nanoid env ` {..<calls r} \<union> nanoid env ` {calls r..<calls r'} = nanoid env ` {..<calls r'}"
      by (metis image_Un)
    with s rn_next.IH show ?thesis
      unfolding slotwise_def by (intro conjI) (linarith, blast, blast)
  next
    assume "r' = startTaskOffers r \<or> r' = stopTaskOffers r \<or> r' = stop r"
    with rn_next.IH show ?thesis
      by (elim disjE) (simp_all add: startTaskOffers_def stopTaskOffers_def stop_def clearIdleTimer_def slots_def offer_ids_def)
  qed
qed

text \<open>
  C14. The runner never has more tasks and open offers together than its concurrency allows, so every
  offer that is still open has a slot for its task.
\<close>

theorem runner_capacity:
  assumes "rn_reachable env r"
  shows "int (length (runningTasks r) + length (openOffers r)) \<le> max 0 (maxConcurrency r)"
  using rn_reachable_slots [OF assms] by (simp add: slots_def add.commute)

theorem runner_capacity_witness:
  "length (runningTasks busy_runner) + length (openOffers busy_runner) = 2 \<and>
   int (length (runningTasks busy_runner) + length (openOffers busy_runner)) \<le> 2"
proof -
  have "length (runningTasks busy_runner) + length (openOffers busy_runner) = 2"
    "max 0 (maxConcurrency busy_runner) = 2" by code_simp+
  with runner_capacity [OF busy_reachable] show ?thesis by simp
qed


section \<open>Answers\<close>

text \<open>
  C27. A task is answered, with a result or an error, at most as often as it was accepted, so a task
  that was accepted once is answered at most once; a task that takes a slot is never over, so no slot
  is lost.
\<close>

theorem one_answer_per_task:
  assumes "rn_reachable env r"
  shows "length (filter (is_answer i) (sent r)) \<le> length (filter (is_accept i) (sent r)) \<and>
    (\<forall>ref. map_get (runningTasks r) i = Some ref \<longrightarrow>
       tsTaskId (taskObjects r ! ref) = i \<and> tsExecution (taskObjects r ! ref) \<noteq> Over)"
proof (intro conjI allI impI)
  have b: "books r" by (rule rn_reachable_books [OF assms])
  then have "answers r i + card (owing r i) \<le> accepts r i" by (simp add: books_def answers_ok_def)
  then show "length (filter (is_answer i) (sent r)) \<le> length (filter (is_accept i) (sent r))"
    by (simp add: answers_def accepts_def)
  fix ref assume "map_get (runningTasks r) i = Some ref"
  from running_task [OF b this] show "tsTaskId (taskObjects r ! ref) = i"
    "tsExecution (taskObjects r ! ref) \<noteq> Over" by blast+
qed

definition answered_runner :: Runner where
  "answered_runner = executionResolves plain_env 0 ''out'' (onMessage plain_env (SettingsToRunner 7 ''code'') busy_runner)"

lemma answered_reachable: "rn_reachable plain_env answered_runner"
  unfolding answered_runner_def using rn_next [OF rn_next [OF busy_reachable rn_message] rn_resolves] .

theorem one_answer_per_task_witness:
  "length (filter (is_answer 7) (sent answered_runner)) = 1 \<and>
   length (filter (is_answer 7) (sent answered_runner)) \<le> length (filter (is_accept 7) (sent answered_runner)) \<and>
   tsExecution (taskObjects answered_runner ! 0) \<noteq> Over"
proof -
  have n: "filter (\<lambda>m. case m of RunnerTaskDone i x \<Rightarrow> i = 7 | RunnerTaskError i x \<Rightarrow> i = 7 | _ \<Rightarrow> False)
      (sent answered_runner) = [RunnerTaskDone 7 ''out'']"
    and m: "map_get (runningTasks answered_runner) 7 = Some 0" by code_simp+
  have "is_answer 7 = (\<lambda>m. case m of RunnerTaskDone i x \<Rightarrow> i = 7 | RunnerTaskError i x \<Rightarrow> i = 7 | _ \<Rightarrow> False)"
    by (auto simp: is_answer_def fun_eq_iff split: RunnerMessage.split)
  with n have "length (filter (is_answer 7) (sent answered_runner)) = 1" by simp
  with one_answer_per_task [OF answered_reachable, of 7] m show ?thesis by simp
qed



section \<open>The life of a task\<close>

inductive status_step :: "TaskStatus \<Rightarrow> TaskStatus \<Rightarrow> bool" where
  "status_step s s"
| "status_step WaitingForSettings Running"
| "status_step Running AbortingCancelled"
| "status_step Running AbortingTimeout"

inductive execution_step :: "Execution \<Rightarrow> Execution \<Rightarrow> bool" where
  "execution_step x x"
| "execution_step NotStarted (Executing settings)"
| "execution_step (Executing settings) (FinishSuccess e)"
| "execution_step (Executing settings) (FinishFailure e)"
| "execution_step (FinishSuccess None) Over"
| "execution_step (FinishSuccess (Some e)) (FinishFailure e')"
| "execution_step (FinishFailure e) Over"

inductive_simps status_step_from [simp]:
  "status_step AbortingCancelled s" "status_step AbortingTimeout s"

inductive_simps execution_step_from [simp]:
  "execution_step Over x" "execution_step NotStarted x"

text \<open>A step changes at most one task state, along one of these arrows.\<close>

definition lives :: "Runner \<Rightarrow> Runner \<Rightarrow> bool" where
  "lives r r' \<longleftrightarrow> length (taskObjects r) \<le> length (taskObjects r') \<and>
     (\<forall>ref < length (taskObjects r).
        tsTaskId (taskObjects r' ! ref) = tsTaskId (taskObjects r ! ref) \<and>
        status_step (tsStatus (taskObjects r ! ref)) (tsStatus (taskObjects r' ! ref)) \<and>
        execution_step (tsExecution (taskObjects r ! ref)) (tsExecution (taskObjects r' ! ref)))"

lemma lives_quiet: "quiet r r' \<Longrightarrow> lives r r'"
  unfolding lives_def using quiet_core(1) [of r r'] quiet_state [of r r']
  by (auto intro: status_step.intros execution_step.intros)

lemma lives_same: "quiet r s \<Longrightarrow> lives s t \<Longrightarrow> lives r t"
  unfolding lives_def using quiet_core(1) [of r s] quiet_state [of r s] by (metis order_trans eq_refl)

lemma lives_then: "lives r s \<Longrightarrow> quiet s t \<Longrightarrow> lives r t"
  unfolding lives_def using quiet_core(1) [of s t] quiet_state [of s t] by (metis order.strict_trans2)

lemma lives_setTask:
  assumes "taskObjects r' = taskObjects r" and "tsTaskId t = tsTaskId (taskObjects r ! ref)"
    and "status_step (tsStatus (taskObjects r ! ref)) (tsStatus t)"
    and "execution_step (tsExecution (taskObjects r ! ref)) (tsExecution t)"
  shows "lives r (setTask ref t r')"
  unfolding lives_def
proof (intro conjI allI impI)
  fix s assume s: "s < length (taskObjects r)"
  show "tsTaskId (taskObjects (setTask ref t r') ! s) = tsTaskId (taskObjects r ! s)"
    "status_step (tsStatus (taskObjects r ! s)) (tsStatus (taskObjects (setTask ref t r') ! s))"
    "execution_step (tsExecution (taskObjects r ! s)) (tsExecution (taskObjects (setTask ref t r') ! s))"
    using assms s by (cases "s = ref"; simp add: status_step.intros(1) execution_step.intros(1))+
qed (simp add: assms(1))


lemmas lives_intros = status_step.intros execution_step.intros

lemma lives_refl [simp]: "lives r r"
  by (rule lives_quiet) simp

lemma lives_offerAccepted: "lives r (offerAccepted oid i r)"
proof -
  have "taskObjects (offerAccepted oid i r) = taskObjects r \<or>
      taskObjects (offerAccepted oid i r) = taskObjects r @ [newTaskState i]"
    by (auto simp: offerAccepted_def Let_def quiet_fields)
  then show ?thesis
    by (elim disjE) (simp_all add: lives_def nth_append lives_intros(1,5))
qed

lemma lives_abort:
  assumes "tsStatus (taskObjects r ! ref) = Running" and "status \<in> {AbortingCancelled, AbortingTimeout}"
  shows "lives r (cancelTaskRequests i reason (setTask ref (abortWith status s (taskObjects r ! ref)) r))"
  by (rule lives_then [OF lives_setTask quiet_cancelTaskRequests])
    (use assms in \<open>auto simp: abortWith_def intro: lives_intros\<close>)

lemma lives_handlers:
  "lives r (taskCancelled env i reason r)" "lives r (taskTimedOut env i r)"
proof -
  have "lives r (finishTask env ref (send m r))" if "\<And>j. \<not> is_accept j m" for ref m
    by (rule lives_then [OF _ quiet_finishTask]) (simp add: lives_def lives_intros(1,5))
  then show "lives r (taskCancelled env i reason r)" "lives r (taskTimedOut env i r)"
    by (simp_all add: taskCancelled_def taskTimedOut_def lives_abort lives_quiet [OF quiet_finishTask]
        lives_quiet [OF quiet_throw] split: option.split TaskStatus.split)
qed

lemma lives_receivedSettings:
  assumes "books r"
  shows "lives r (receivedSettings i x r)"
proof (cases "map_get (runningTasks r) i")
  case (Some ref)
  have "lives r (setTask ref ((taskObjects r ! ref)\<lparr>tsStatus := Running, tsExecution := Executing x\<rparr>) r)"
    if "tsStatus (taskObjects r ! ref) = WaitingForSettings"
    using that running_task(5) [OF assms Some] by (intro lives_setTask) (auto intro: lives_intros)
  with Some show ?thesis
    by (simp add: receivedSettings_def lives_quiet [OF quiet_throw] split: TaskStatus.split)
qed (simp add: receivedSettings_def)

lemma lives_taskExecutionFailed:
  assumes "isExecuting (tsExecution (taskObjects r ! ref)) \<or>
    (\<exists>e. tsExecution (taskObjects r ! ref) = FinishSuccess (Some e))"
  shows "lives r (taskExecutionFailed env ref x r)"
proof -
  obtain r' e where eq: "taskExecutionFailed env ref x r =
      setTask ref ((taskObjects r ! ref)\<lparr>tsExecution := FinishFailure e\<rparr>) r'"
    "r' = r \<or> r' = send (RunnerTaskError (tsTaskId (taskObjects r ! ref)) x) r"
    by (rule taskExecutionFailed_cases)
  show ?thesis
    unfolding eq(1)
    by (rule lives_setTask) (use eq(2) assms in \<open>auto simp: isExecuting_iff intro: lives_intros\<close>)
qed

lemma lives_taskExecutionSucceeded:
  assumes "isExecuting (tsExecution (taskObjects r ! ref))"
  shows "lives r (taskExecutionSucceeded env ref x r)"
proof -
  obtain r' e where eq: "taskExecutionSucceeded env ref x r =
      setTask ref ((taskObjects r ! ref)\<lparr>tsExecution := FinishSuccess e\<rparr>) r'"
    "(r' = r \<and> (e = None \<longrightarrow> tsStatus (taskObjects r ! ref) = AbortingCancelled)) \<or>
     (e = None \<and> r' = send (RunnerTaskDone (tsTaskId (taskObjects r ! ref)) x) r)"
    by (rule taskExecutionSucceeded_cases)
  show ?thesis
    unfolding eq(1)
    by (rule lives_setTask) (use eq(2) assms in \<open>auto simp: isExecuting_iff intro: lives_intros\<close>)
qed

lemma lives_finishExecution: "lives r (finishExecution env ref r)"
proof (cases "ref < length (taskObjects r)")
  case True
  have over: "lives r (finishTask env ref (setTask ref ((taskObjects r ! ref)\<lparr>tsExecution := Over\<rparr>) r))"
    if "execution_step (tsExecution (taskObjects r ! ref)) Over"
    by (rule lives_then [OF lives_setTask quiet_finishTask]) (simp_all add: that lives_intros)
  then have thrown: "lives r (throwUnhandled e
      (finishTask env ref (setTask ref ((taskObjects r ! ref)\<lparr>tsExecution := Over\<rparr>) r)))"
    if "execution_step (tsExecution (taskObjects r ! ref)) Over" for e
    using that quiet_throw lives_then by blast
  have failed: "lives r (taskExecutionFailed env ref e (finishTask env ref r))"
    if "tsExecution (taskObjects r ! ref) = FinishSuccess (Some e')" for e e'
    by (rule lives_same [OF quiet_finishTask lives_taskExecutionFailed])
      (use that True in \<open>simp add: finishTask_fields cleanup_def\<close>)
  show ?thesis
    by (cases "tsExecution (taskObjects r ! ref)")
      (auto simp: finishExecution_def True over thrown failed lives_intros split: option.split)
qed (simp add: finishExecution_def)

lemma rn_step_lives: "rn_step env r r' \<Longrightarrow> books r \<Longrightarrow> lives r r'"
proof (induction rule: rn_step.induct)
  case (rn_message r m)
  then show ?case
    by (cases m)
      (simp_all add: onMessage_def lives_handlers lives_offerAccepted lives_receivedSettings
        lives_quiet [OF quiet_rest(2)] lives_quiet [OF quiet_rest(6)] lives_quiet [OF quiet_rest(7)]
        lives_quiet [OF quiet_rest(8)] lives_quiet [OF quiet_send])
next
  case (rn_timer r ref)
  have "quiet r (setTask ref ((taskObjects r ! ref)\<lparr>tsTimer := False\<rparr>) r)"
    by (simp add: quiet_def setTask_core task_core_def fun_eq_iff)
  then show ?case using lives_same lives_handlers(2) by (simp add: timerFires_def)
qed (simp_all add: executionResolves_def executionRejects_def lives_taskExecutionSucceeded
    lives_taskExecutionFailed lives_finishExecution lives_quiet quiet_rest)

text \<open>
  C33. A task goes from waiting for its settings to running and from there at most to one of the two
  aborting states, as the diagram of TaskState has it; it is executed once, when its settings come, and
  its promise chain ends once.
\<close>

theorem task_lifecycle:
  assumes "rn_reachable env r" and "rn_step env r r'" and "ref < length (taskObjects r)"
  shows "tsTaskId (taskObjects r' ! ref) = tsTaskId (taskObjects r ! ref) \<and>
    status_step (tsStatus (taskObjects r ! ref)) (tsStatus (taskObjects r' ! ref)) \<and>
    execution_step (tsExecution (taskObjects r ! ref)) (tsExecution (taskObjects r' ! ref)) \<and>
    (tsStatus (taskObjects r' ! ref) = WaitingForSettings \<longleftrightarrow> tsExecution (taskObjects r' ! ref) = NotStarted)"
proof -
  have b: "books r" by (rule rn_reachable_books [OF assms(1)])
  have l: "lives r r'" by (rule rn_step_lives [OF assms(2) b])
  have "books r'" by (rule rn_step_books [OF assms(2) b])
  moreover have "ref < length (taskObjects r')" using l assms(3) by (simp add: lives_def)
  ultimately show ?thesis using l assms(3) by (simp add: lives_def books_def tasks_held_def)
qed

theorem task_lifecycle_witness:
  "status_step (tsStatus (taskObjects busy_runner ! 0))
    (tsStatus (taskObjects (onMessage plain_env (SettingsToRunner 7 ''code'') busy_runner) ! 0)) \<and>
   tsStatus (taskObjects (onMessage plain_env (SettingsToRunner 7 ''code'') busy_runner) ! 0) = Running"
proof -
  have "0 < length (taskObjects busy_runner)"
    "tsStatus (taskObjects (onMessage plain_env (SettingsToRunner 7 ''code'') busy_runner) ! 0) = Running"
    by code_simp+
  with task_lifecycle [OF busy_reachable rn_message this(1)] show ?thesis by blast
qed


lemma settlePromise_get:
  "map_get (regPromises (settlePromise rid v r)) k =
     (if k = rid \<and> map_get (regPromises r) rid = Some Pending then Some v else map_get (regPromises r) k)"
  "regEntries (settlePromise rid v r) = regEntries r"
  by (auto simp: settlePromise_def)

lemma cancelEntry_get:
  "map_get (regEntries (cancelEntry i reason p g)) k =
     (if snd p = i \<and> k = fst p then None else map_get (regEntries g) k)"
  "map_get (regPromises (cancelEntry i reason p g)) k =
     (if snd p = i \<and> k = fst p \<and> map_get (regPromises g) k = Some Pending
      then Some (Rejected (''Task cancelled: '' @ reason)) else map_get (regPromises g) k)"
  by (cases p; auto simp: cancelEntry_def Let_def settlePromise_get)+

lemma cancelEntries_get:
  "map_get (regEntries (fold (cancelEntry i reason) ps g)) k =
     (if (k, i) \<in> set ps then None else map_get (regEntries g) k)"
  "map_get (regPromises (fold (cancelEntry i reason) ps g)) k =
     (if (k, i) \<in> set ps \<and> map_get (regPromises g) k = Some Pending
      then Some (Rejected (''Task cancelled: '' @ reason)) else map_get (regPromises g) k)"
  by (induction ps arbitrary: g) (auto simp: cancelEntry_get)

lemma cancelRequestsOf_get:
  assumes "distinct (map_keys (regEntries g))"
  shows "map_get (regEntries (cancelRequestsOf i reason g)) k =
      (if map_get (regEntries g) k = Some i then None else map_get (regEntries g) k)"
    "map_get (regPromises (cancelRequestsOf i reason g)) k =
      (if map_get (regEntries g) k = Some i \<and> map_get (regPromises g) k = Some Pending
       then Some (Rejected (''Task cancelled: '' @ reason)) else map_get (regPromises g) k)"
  unfolding cancelRequestsOf_def cancelEntries_get using map_get_iff [OF assms, of k i] by simp_all


definition regs_ok :: "Runner \<Rightarrow> bool" where
  "regs_ok r \<longleftrightarrow> distinct (map_keys (regEntries (dataRequests r))) \<and>
     distinct (map_keys (regEntries (nodeTypesRequests r)))"

lemma regs_same:
  "dataRequests r' = dataRequests r \<Longrightarrow> nodeTypesRequests r' = nodeTypesRequests r \<Longrightarrow> regs_ok r' = regs_ok r"
  by (simp add: regs_ok_def)

lemma regs_frames [simp]:
  "regs_ok (send m r) = regs_ok r" "regs_ok (setTask ref t r) = regs_ok r"
  "regs_ok (throwUnhandled e r) = regs_ok r" "regs_ok (finishTask env ref r) = regs_ok r"
  "regs_ok (sendOffers env r) = regs_ok r" "regs_ok (resetIdleTimer r) = regs_ok r"
  by (rule regs_same; simp add: send_def setTask_def throwUnhandled_def finishTask_fields
      offers_only_fields [OF sendOffers_only] resetIdleTimer_def)+

lemma cancelEntries_distinct:
  "distinct (map_keys (regEntries g)) \<Longrightarrow> distinct (map_keys (regEntries (fold (cancelEntry i reason) ps g)))"
proof (induction ps arbitrary: g)
  case (Cons p ps)
  then show ?case
    by (cases p) (simp add: cancelEntry_def Let_def settlePromise_get)
qed simp

lemma regs_cancelTaskRequests: "regs_ok r \<Longrightarrow> regs_ok (cancelTaskRequests i reason r)"
  by (simp add: regs_ok_def cancelTaskRequests_def cancelRequestsOf_def cancelEntries_distinct)

lemma regs_answer: "regEntries (answerRequest rid v g) = regEntries g"
  by (simp add: answerRequest_def settlePromise_get)

lemma regs_resume: "resumeRequest rid g = Some (v, g') \<Longrightarrow> regEntries g' = map_del rid (regEntries g)"
  by (auto simp: resumeRequest_def split: option.splits Promise.splits)

lemma regs_open: "regEntries (openRequest rid x g) = map_put rid x (regEntries g)"
  by (simp add: openRequest_def)

lemma regs_executions:
  "regs_ok (taskExecutionSucceeded env ref x r) = regs_ok r" "regs_ok (taskExecutionFailed env ref x r) = regs_ok r"
  by (rule taskExecutionSucceeded_cases [of env ref x r], force)
     (rule taskExecutionFailed_cases [of env ref x r], force)

lemma regs_handlers:
  "regs_ok r \<Longrightarrow> regs_ok (taskCancelled env i reason r)" "regs_ok r \<Longrightarrow> regs_ok (taskTimedOut env i r)"
  "regs_ok (receivedSettings i x r) = regs_ok r" "regs_ok (offerAccepted oid i r) = regs_ok r"
proof -
  show "regs_ok r \<Longrightarrow> regs_ok (taskCancelled env i reason r)" "regs_ok r \<Longrightarrow> regs_ok (taskTimedOut env i r)"
    "regs_ok (receivedSettings i x r) = regs_ok r"
    by (simp_all add: taskCancelled_def taskTimedOut_def receivedSettings_def regs_cancelTaskRequests
        split: option.split TaskStatus.split)
  show "regs_ok (offerAccepted oid i r) = regs_ok r"
    by (rule regs_same; simp add: offerAccepted_def Let_def send_def resetIdleTimer_def)
qed

lemma rn_step_regs: "rn_step env r r' \<Longrightarrow> regs_ok r \<Longrightarrow> regs_ok r'"
proof (induction rule: rn_step.induct)
  case (rn_message r m)
  then show ?case
    by (cases m) (simp_all add: onMessage_def regs_handlers, simp_all add: regs_ok_def startTaskOffers_def
      processDataResponse_def processNodeTypesResponse_def handleRpcResponse_def regs_answer)
next
  case (rn_finish r ref)
  then show ?case
    by (simp add: finishExecution_def regs_executions split: Execution.split option.split)
next
  case (rn_resume_data r rid)
  then show ?case
    by (auto simp: resumeData_def regs_ok_def regs_resume split: option.split)
next
  case (rn_resume_types r rid)
  then show ?case
    by (auto simp: resumeNodeTypes_def regs_ok_def regs_resume split: option.split)
qed (simp_all add: offerTick_def timerFires_def regs_handlers executionResolves_def executionRejects_def
    regs_executions, simp_all add: regs_ok_def stopTaskOffers_def idleTick_def stop_def clearIdleTimer_def
    requestData_def requestNodeTypes_def makeRpcCall_def resumeRpc_def waitUntilAllTasksAreDone_def Let_def
    send_def regs_open split: option.split prod.split)

lemma rn_reachable_regs: "rn_reachable env r \<Longrightarrow> regs_ok r"
proof (induction rule: rn_reachable.induct)
  case (rn_start type name concurrency taskTimeout idleTimeout)
  show ?case by (simp add: newRunner_def regs_ok_def resetIdleTimer_def emptyRegistry_def)
qed (rule rn_step_regs)

definition requests_cancelled :: "nat \<Rightarrow> string \<Rightarrow> nat Registry \<Rightarrow> nat Registry \<Rightarrow> bool" where
  "requests_cancelled i reason g g' \<longleftrightarrow>
     (\<forall>k. if map_get (regEntries g) k = Some i
       then map_get (regEntries g') k = None \<and>
         (map_get (regPromises g) k = Some Pending \<longrightarrow>
            map_get (regPromises g') k = Some (Rejected (''Task cancelled: '' @ reason)))
       else map_get (regEntries g') k = map_get (regEntries g) k \<and>
         map_get (regPromises g') k = map_get (regPromises g) k)"

lemma cancelRequestsOf_cancelled:
  "distinct (map_keys (regEntries g)) \<Longrightarrow> requests_cancelled i reason g (cancelRequestsOf i reason g)"
  unfolding requests_cancelled_def by (simp add: cancelRequestsOf_get)

text \<open>
  When a running task is cancelled, its execution is told to stop, all its open data and node type
  requests are rejected and no longer listed while those of other tasks stay as they are, and whatever
  the execution then ends with, nothing is sent about the task and its slot is given back.
\<close>

theorem cancelled_task_is_silent:
  assumes "rn_reachable env r" and "map_get (runningTasks r) i = Some ref"
    and "tsStatus (taskObjects r ! ref) = Running" and "isExecuting (tsExecution (taskObjects r ! ref))"
    and "r1 = onMessage env (TaskCancel i reason) r"
    and "r2 = executionResolves env ref x r1 \<or> r2 = executionRejects env ref x r1"
  shows "tsAbort (taskObjects r1 ! ref) = Some ''cancelled'' \<and>
    requests_cancelled i reason (dataRequests r) (dataRequests r1) \<and>
    requests_cancelled i reason (nodeTypesRequests r) (nodeTypesRequests r1) \<and>
    sent r2 = sent r \<and> map_get (runningTasks (finishExecution env ref r2)) i = None \<and>
    length (filter (is_answer i) (sent (finishExecution env ref r2))) = length (filter (is_answer i) (sent r))"
proof -
  let ?t = "abortWith AbortingCancelled ''cancelled'' (taskObjects r ! ref)"
  let ?r1 = "cancelTaskRequests i reason (setTask ref ?t r)"
  note run = running_task [OF rn_reachable_books [OF assms(1)] assms(2)]
  have r1: "r1 = ?r1"
    using assms(2,3,5) by (simp add: onMessage_def taskCancelled_def)
  have f1: "taskObjects ?r1 = (taskObjects r)[ref := ?t]" "runningTasks ?r1 = runningTasks r" "sent ?r1 = sent r"
    "dataRequests ?r1 = cancelRequestsOf i reason (dataRequests r)"
    "nodeTypesRequests ?r1 = cancelRequestsOf i reason (nodeTypesRequests r)"
    by (simp_all add: cancelTaskRequests_def setTask_def)
  have d: "distinct (map_keys (regEntries (dataRequests r)))" "distinct (map_keys (regEntries (nodeTypesRequests r)))"
    using rn_reachable_regs [OF assms(1)] by (simp_all add: regs_ok_def)
  have ends: "sent r2 = sent r \<and> map_get (runningTasks (finishExecution env ref r2)) i = None \<and>
      answers (finishExecution env ref r2) i = answers r i"
    if e: "r2 = setTask ref (?t\<lparr>tsExecution := f\<rparr>) ?r1" "f \<in> {FinishSuccess None, FinishFailure None}" for r2 f
  proof (intro conjI)
    show s2: "sent r2 = sent r" by (simp add: e(1) f1)
    let ?s = "setTask ref ((taskObjects r2 ! ref)\<lparr>tsExecution := Over\<rparr>) r2"
    have obj: "taskObjects r2 ! ref = ?t\<lparr>tsExecution := f\<rparr>" "ref < length (taskObjects r2)"
      using run(2) by (simp_all add: e(1) f1)
    then have fin: "finishExecution env ref r2 = finishTask env ref ?s"
      using e(2) by (auto simp: finishExecution_def)
    have "tsTaskId (taskObjects ?s ! ref) = i" using obj run(3) by (simp add: abortWith_def)
    then show "map_get (runningTasks (finishExecution env ref r2)) i = None"
      unfolding fin finishTask_fields by simp
    have "answers (finishTask env ref ?s) i = answers ?s i"
      using quiet_finishTask [of ?s env ref] by (simp add: quiet_def)
    then show "answers (finishExecution env ref r2) i = answers r i"
      unfolding fin by (simp add: answers_def s2)
  qed
  have "executionResolves env ref x ?r1 = setTask ref (?t\<lparr>tsExecution := FinishSuccess None\<rparr>) ?r1"
    "executionRejects env ref x ?r1 = setTask ref (?t\<lparr>tsExecution := FinishFailure None\<rparr>) ?r1"
  proof -
    have "tsStatus ?t = AbortingCancelled" "isExecuting (tsExecution ?t)"
      using assms(4) by (simp_all add: abortWith_def)
    then show "executionResolves env ref x ?r1 = setTask ref (?t\<lparr>tsExecution := FinishSuccess None\<rparr>) ?r1"
      "executionRejects env ref x ?r1 = setTask ref (?t\<lparr>tsExecution := FinishFailure None\<rparr>) ?r1"
      using run(2) by (simp_all add: executionResolves_def executionRejects_def taskExecutionSucceeded_def
          taskExecutionFailed_def f1 Let_def)
  qed
  note r2 = this
  have e: "sent r2 = sent r \<and> map_get (runningTasks (finishExecution env ref r2)) i = None \<and>
      answers (finishExecution env ref r2) i = answers r i"
    using assms(6) unfolding r1
    by (elim disjE; intro ends) (simp_all only: r2, simp_all)
  moreover have "requests_cancelled i reason (dataRequests r) (dataRequests r1)"
    unfolding r1 f1 by (rule cancelRequestsOf_cancelled [OF d(1)])
  moreover have "requests_cancelled i reason (nodeTypesRequests r) (nodeTypesRequests r1)"
    unfolding r1 f1 by (rule cancelRequestsOf_cancelled [OF d(2)])
  moreover have "tsAbort (taskObjects r1 ! ref) = Some ''cancelled''"
    unfolding r1 f1 using run(2) by (simp add: abortWith_def)
  ultimately show ?thesis unfolding answers_def by simp
qed

definition asking_runner :: Runner where
  "asking_runner = requestData plain_env 7 ''input'' (onMessage plain_env (SettingsToRunner 7 ''code'') busy_runner)"

lemma asking_reachable: "rn_reachable plain_env asking_runner"
  unfolding asking_runner_def using rn_next [OF rn_next [OF busy_reachable rn_message] rn_data] .

theorem cancelled_task_is_silent_witness:
  "sent (executionResolves plain_env 0 ''out'' (onMessage plain_env (TaskCancel 7 ''stop'') asking_runner)) =
     sent asking_runner \<and>
   map_get (regEntries (dataRequests (onMessage plain_env (TaskCancel 7 ''stop'') asking_runner))) ''6'' = None"
proof -
  have c: "map_get (runningTasks asking_runner) 7 = Some 0" "tsStatus (taskObjects asking_runner ! 0) = Running"
    "isExecuting (tsExecution (taskObjects asking_runner ! 0))"
    "map_get (regEntries (dataRequests asking_runner)) ''6'' = Some 7" by code_simp+
  show ?thesis
    using cancelled_task_is_silent [OF asking_reachable c(1,2,3) refl disjI1 [OF refl], of "''stop''" "''out''"] c(4)
    by (simp add: requests_cancelled_def)
qed


section \<open>Offers and stopping\<close>

lemma deleteStale_kept:
  assumes "\<And>n. hrtime env n = now"
  shows "openOffers (deleteStaleOffers env r) = filter (\<lambda>(k, u). now \<le> u) (openOffers r) \<or>
    \<not> distinct (map_keys (openOffers r))"
proof -
  have "openOffers (fold (deleteStaleOffer env) ps r) =
      filter (\<lambda>p. \<not> (\<exists>q \<in> set ps. snd q < now \<and> fst q = fst p)) (openOffers r)" for ps r
  proof (induction ps arbitrary: r)
    case (Cons p ps)
    have "openOffers (deleteStaleOffer env p r) = filter (\<lambda>q. \<not> (snd p < now \<and> fst p = fst q)) (openOffers r)"
      by (cases p) (auto simp: deleteStaleOffer_def Let_def assms AList.delete_eq intro!: filter_cong)
    then show ?case by (auto simp: Cons.IH intro!: filter_cong)
  qed simp
  then have eq: "openOffers (deleteStaleOffers env r) =
      filter (\<lambda>p. \<not> (\<exists>q \<in> set (openOffers r). snd q < now \<and> fst q = fst p)) (openOffers r)"
    by (simp add: deleteStaleOffers_def)
  show ?thesis
  proof (cases "distinct (map_keys (openOffers r))")
    case True
    then have same: "q = p" if "p \<in> set (openOffers r)" "q \<in> set (openOffers r)" "fst q = fst p" for p q
      using that by (simp add: distinct_map inj_on_def)
    have "(\<not> (\<exists>q \<in> set (openOffers r). snd q < now \<and> fst q = fst p)) \<longleftrightarrow> now \<le> snd p"
      if "p \<in> set (openOffers r)" for p
      using same [OF that] that by (metis not_less)
    then have "openOffers (deleteStaleOffers env r) = filter (\<lambda>(k, u). now \<le> u) (openOffers r)"
      unfolding eq by (intro filter_cong) (auto simp: case_prod_beta)
    then show ?thesis ..
  qed simp
qed


lemma offer_loop_fills:
  assumes "inj (nanoid env)"
  shows "distinct (map_keys (openOffers r)) \<Longrightarrow> offer_ids r \<subseteq> nanoid env ` {..<calls r} \<Longrightarrow>
    length (openOffers ((sendOffer env ^^ n) r)) = length (openOffers r) + n \<and>
    {p \<in> set (openOffers ((sendOffer env ^^ n) r)). fst p \<in> nanoid env ` {..<calls r}} = set (openOffers r) \<and>
    calls r \<le> calls ((sendOffer env ^^ n) r) \<and> runningTasks ((sendOffer env ^^ n) r) = runningTasks r \<and>
    offer_ids ((sendOffer env ^^ n) r) \<subseteq> nanoid env ` {..<calls ((sendOffer env ^^ n) r)}"
proof (induction n)
  case (Suc n)
  let ?s = "(sendOffer env ^^ n) r"
  let ?old = "nanoid env ` {..<calls r}"
  have ih: "length (openOffers ?s) = length (openOffers r) + n"
    "{p \<in> set (openOffers ?s). fst p \<in> ?old} = set (openOffers r)" "calls r \<le> calls ?s" "runningTasks ?s = runningTasks r" "offer_ids ?s \<subseteq> nanoid env ` {..<calls ?s}" using Suc by blast+
  obtain u where u: "openOffers (sendOffer env ?s) = map_put (nanoid env (calls ?s + 2)) u (openOffers ?s)"
    using sendOffer_fields(5) by blast
  have "nanoid env (calls ?s + 2) \<notin> nanoid env ` {..<calls ?s}"
    using assms(1) by (auto dest: injD)
  then have "nanoid env (calls ?s + 2) \<notin> set (map_keys (openOffers ?s))"
    using ih(5) unfolding offer_ids_def by blast
  then have put: "openOffers (sendOffer env ?s) = openOffers ?s @ [(nanoid env (calls ?s + 2), u)]"
    unfolding u by (rule map_put_fresh)
  have "offer_ids (sendOffer env ?s) = insert (nanoid env (calls ?s + 2)) (offer_ids ?s)"
    using u by (rule offer_ids_put)
  moreover have "nanoid env ` {..<calls ?s} \<subseteq> nanoid env ` {..<calls ?s + 3}" by (rule image_mono) auto
  ultimately have "offer_ids (sendOffer env ?s) \<subseteq> nanoid env ` {..<calls ?s + 3}" using ih(5) by auto
  moreover have "nanoid env (calls ?s + 2) \<notin> ?old"
    using assms(1) ih(3) by (auto dest: injD)
  then have "{p \<in> set (openOffers (sendOffer env ?s)). fst p \<in> ?old} = set (openOffers r)"
    unfolding put ih(2) [symmetric] by auto
  ultimately show ?case using ih put by (simp add: sendOffer_fields)
next
  case 0
  then have "fst p \<in> nanoid env ` {..<calls r}" if "p \<in> set (openOffers r)" for p
    using that unfolding offer_ids_def by auto
  with 0 show ?case by auto
qed

text \<open>
  Sending offers removes the stale ones and, while offers are allowed, fills the free slots: with
  ids that are all different, the tasks and the open offers then take exactly all slots, and every
  offer that was not stale is kept.
\<close>

theorem sendOffers_refills:
  assumes "rn_reachable env r" and "inj (nanoid env)" and "\<And>n. hrtime env n = now" and "canSendOffers r"
    and "0 \<le> maxConcurrency r"
  shows "int (length (openOffers (sendOffers env r)) + length (runningTasks (sendOffers env r))) = maxConcurrency r \<and>
    runningTasks (sendOffers env r) = runningTasks r \<and>
    (\<forall>k u. (k, u) \<in> set (openOffers r) \<longrightarrow> ((k, u) \<in> set (openOffers (sendOffers env r)) \<longleftrightarrow> now \<le> u))"
proof -
  let ?s = "deleteStaleOffers env r"
  have reach: "int (slots r) \<le> maxConcurrency r" "distinct (map_keys (openOffers r))"
    "offer_ids r \<subseteq> nanoid env ` {..<calls r}" using rn_reachable_slots [OF assms(1)] assms(5) by auto
  have os: "openOffers ?s = filter (\<lambda>(k, u). now \<le> u) (openOffers r)"
    using deleteStale_kept [OF assms(3)] reach(2) by blast
  have sw: "slotwise env r ?s" by (rule slotwise_deleteStaleOffers)
  note eqs = offers_only_fields [OF deleteStaleOffers_only [of r env]]
  have ids: "offer_ids ?s \<subseteq> nanoid env ` {..<calls ?s}"
  proof -
    have "offer_ids ?s \<subseteq> offer_ids r" unfolding offer_ids_def os by auto
    moreover have "nanoid env ` {..<calls r} \<subseteq> nanoid env ` {..<calls ?s}"
      using sw by (intro image_mono) (auto simp: slotwise_def)
    ultimately show ?thesis using reach(3) by blast
  qed
  have "distinct (map_keys (openOffers ?s))" unfolding os by (rule distinct_map_filter) (rule reach(2))
  note fill = offer_loop_fills [OF assms(2) this ids, of "offersToSend ?s"]
  have send: "sendOffers env r = (sendOffer env ^^ offersToSend ?s) ?s"
    using assms(4) by (simp add: sendOffers_def Let_def eqs)
  have "length (openOffers ?s) \<le> length (openOffers r)" unfolding os by simp
  then have "int (length (openOffers ?s) + offersToSend ?s + length (runningTasks ?s)) = maxConcurrency r"
    using reach(1) by (simp add: offersToSend_def eqs slots_def)
  moreover have "(k, u) \<in> set (openOffers (sendOffers env r)) \<longleftrightarrow> now \<le> u" if "(k, u) \<in> set (openOffers r)" for k u
  proof -
    have "k \<in> offer_ids r" using that unfolding offer_ids_def by force
    moreover have "nanoid env ` {..<calls r} \<subseteq> nanoid env ` {..<calls ?s}"
      using sw by (intro image_mono) (auto simp: slotwise_def)
    ultimately have k: "k \<in> nanoid env ` {..<calls ?s}" using reach(3) by blast
    have "(k, u) \<in> set (openOffers (sendOffers env r)) \<longleftrightarrow>
        (k, u) \<in> {p \<in> set (openOffers (sendOffers env r)). fst p \<in> nanoid env ` {..<calls ?s}}" using k by simp
    also have "\<dots> \<longleftrightarrow> (k, u) \<in> set (openOffers ?s)" unfolding send using fill by simp
    also have "\<dots> \<longleftrightarrow> now \<le> u" unfolding os using that by simp
    finally show ?thesis .
  qed
  ultimately show ?thesis using fill eqs by (simp add: send)
qed


lemma plain_env_facts:
  "inj (nanoid plain_env)" "hrtime plain_env n = 0" "serializable plain_env s"
  by (simp_all add: plain_env_def inj_def)

theorem sendOffers_refills_witness:
  "let r = onMessage plain_env RunnerRegistered fresh_runner in
   length (openOffers (sendOffers plain_env r)) = 2"
proof -
  let ?r = "onMessage plain_env RunnerRegistered fresh_runner"
  have reach: "rn_reachable plain_env ?r"
    unfolding fresh_runner_def using rn_next [OF rn_start rn_message] .
  have c: "canSendOffers ?r" "maxConcurrency ?r = 2" "runningTasks ?r = []" by code_simp+
  have "0 \<le> maxConcurrency ?r" using c(2) by simp
  from sendOffers_refills [OF reach plain_env_facts(1,2) c(1) this] show ?thesis
    unfolding c(2,3) Let_def by (elim conjE) simp
qed

text \<open>
  Once a runner stops, it makes no offer any more and the slots that tasks and open offers take only
  become fewer, until the broker registers it again; tasks for offers that are still open are accepted.
\<close>

theorem stopped_runner_drains:
  assumes "(\<lambda>s s'. rn_step env s s' \<and> \<not> canSendOffers s')\<^sup>*\<^sup>* (stop r) r'"
  shows "filter is_offer (sent r') = filter is_offer (sent r) \<and>
    length (openOffers r') + length (runningTasks r') \<le> length (openOffers r) + length (runningTasks r)"
proof -
  have "\<not> canSendOffers r' \<and> slots r' \<le> slots r \<and> offers_sent r' = offers_sent r"
    using assms
  proof (induction rule: rtranclp_induct)
    case base
    show ?case by (simp add: stop_def stopTaskOffers_def clearIdleTimer_def slots_def offers_sent_def)
  next
    case (step s s')
    then have can: "\<not> canSendOffers s" "slots s \<le> slots r" "offers_sent s = offers_sent r"
      and st: "rn_step env s s'" "\<not> canSendOffers s'" by blast+
    from rn_step_slotwise [OF st(1)] have "slots s' \<le> slots s \<and> offers_sent s' = offers_sent s"
    proof (elim disjE)
      assume "slotwise env s s'"
      then show ?thesis using can(1) by (simp add: slotwise_def)
    next
      assume "s' = startTaskOffers s"
      with st(2) show ?thesis by (simp add: startTaskOffers_def)
    qed (simp_all add: stop_def stopTaskOffers_def clearIdleTimer_def slots_def offers_sent_def)
    with can st(2) show ?case by simp
  qed
  then show ?thesis by (simp add: slots_def offers_sent_def)
qed

theorem stopped_runner_drains_witness:
  "let r' = offerTick plain_env (onMessage plain_env (TaskCancel 7 ''stop'') (stop busy_runner)) in
   filter is_offer (sent r') = filter is_offer (sent busy_runner) \<and>
   length (openOffers r') + length (runningTasks r') \<le> 2"
proof -
  let ?a = "onMessage plain_env (TaskCancel 7 ''stop'') (stop busy_runner)"
  let ?b = "offerTick plain_env ?a"
  have c: "\<not> canSendOffers ?a" "\<not> canSendOffers ?b"
    "length (openOffers busy_runner) + length (runningTasks busy_runner) = 2" by code_simp+
  have "(\<lambda>s s'. rn_step plain_env s s' \<and> \<not> canSendOffers s')\<^sup>*\<^sup>* (stop busy_runner) ?b"
  proof (rule converse_rtranclp_into_rtranclp)
    show "rn_step plain_env (stop busy_runner) ?a \<and> \<not> canSendOffers ?a" using c(1) rn_message by blast
    show "(\<lambda>s s'. rn_step plain_env s s' \<and> \<not> canSendOffers s')\<^sup>*\<^sup>* ?a ?b"
      by (rule r_into_rtranclp) (use c(2) rn_tick in blast)
  qed
  from stopped_runner_drains [OF this] show ?thesis unfolding c(3) Let_def .
qed


section \<open>Requests\<close>

text \<open>
  The three kinds of requests share a protocol: a request gets a new id, a response settles it, and the
  code that waits for it goes on with the response.
\<close>

locale request_channel =
  fixes registry :: "Runner \<Rightarrow> 'a Registry"
    and issue :: "RunnerEnv \<Rightarrow> nat \<Rightarrow> string \<Rightarrow> Runner \<Rightarrow> Runner"
    and respond :: "string \<Rightarrow> Promise \<Rightarrow> Runner \<Rightarrow> Runner"
    and resume :: "string \<Rightarrow> Runner \<Rightarrow> Promise option \<times> Runner"
    and owner :: "nat \<Rightarrow> 'a"
  assumes issue_registry: "serializable env params \<Longrightarrow>
      registry (issue env i params r) = openRequest (nanoid env (calls r)) (owner i) (registry r)"
    and respond_registry: "registry (respond rid v r) = answerRequest rid v (registry r)"
    and resume_settled: "resumeRequest rid (registry r) = Some (v, reg) \<Longrightarrow>
      fst (resume rid r) = Some v \<and> registry (snd (resume rid r)) = reg"
    and resume_pending: "resumeRequest rid (registry r) = None \<Longrightarrow> resume rid r = (None, r)"
begin

definition pending :: "string \<Rightarrow> Runner \<Rightarrow> bool" where
  "pending rid r \<longleftrightarrow> map_get (regEntries (registry r)) rid \<noteq> None \<and>
     map_get (regPromises (registry r)) rid = Some Pending"

lemma issued_pending:
  "serializable env params \<Longrightarrow> pending (nanoid env (calls r)) (issue env i params r)"
  by (simp add: pending_def issue_registry openRequest_def)

lemma pending_waits: "pending rid r \<Longrightarrow> resume rid r = (None, r)"
  by (rule resume_pending) (simp add: pending_def resumeRequest_def)

lemma response_resumes:
  assumes "pending rid r" and "v \<noteq> Pending" and "r' = respond rid v r"
  shows "fst (resume rid r') = Some v" "\<not> pending rid (snd (resume rid r'))"
    "resume rid (respond rid w (snd (resume rid r'))) = (None, respond rid w (snd (resume rid r')))"
    "registry (respond rid w r') = registry r'"
proof -
  obtain x where x: "map_get (regEntries (registry r)) rid = Some x"
    "map_get (regPromises (registry r)) rid = Some Pending" using assms(1) by (auto simp: pending_def)
  then have reg: "registry r' = (registry r)\<lparr>regPromises := map_put rid v (regPromises (registry r))\<rparr>"
    by (simp add: assms(3) respond_registry answerRequest_def settlePromise_def)
  then have "resumeRequest rid (registry r') = Some (v, (registry r')
      \<lparr>regEntries := map_del rid (regEntries (registry r')), regPromises := map_del rid (regPromises (registry r'))\<rparr>)"
    using assms(2) by (cases v) (simp_all add: resumeRequest_def)
  note res = resume_settled [OF this]
  from res show "fst (resume rid r') = Some v" by simp
  from res have gone: "map_get (regEntries (registry (snd (resume rid r')))) rid = None"
    "map_get (regPromises (registry (snd (resume rid r')))) rid = None" by simp_all
  then show "\<not> pending rid (snd (resume rid r'))" by (simp add: pending_def)
  have "registry (respond rid w (snd (resume rid r'))) = registry (snd (resume rid r'))"
    by (simp add: respond_registry answerRequest_def gone(1))
  with gone(2) show "resume rid (respond rid w (snd (resume rid r'))) =
      (None, respond rid w (snd (resume rid r')))"
    by (intro resume_pending) (simp add: resumeRequest_def)
  show "registry (respond rid w r') = registry r'"
    using reg x(1) assms(2) by (simp add: respond_registry answerRequest_def settlePromise_def)
qed

end

definition respondRpc :: "string \<Rightarrow> Promise \<Rightarrow> Runner \<Rightarrow> Runner" where
  "respondRpc callId v r = r\<lparr>rpcCalls := answerRequest callId v (rpcCalls r)\<rparr>"

definition respondData :: "string \<Rightarrow> Promise \<Rightarrow> Runner \<Rightarrow> Runner" where
  "respondData rid v r = r\<lparr>dataRequests := answerRequest rid v (dataRequests r)\<rparr>"

definition respondNodeTypes :: "string \<Rightarrow> Promise \<Rightarrow> Runner \<Rightarrow> Runner" where
  "respondNodeTypes rid v r = r\<lparr>nodeTypesRequests := answerRequest rid v (nodeTypesRequests r)\<rparr>"

interpretation data_channel: request_channel dataRequests requestData respondData resumeData "\<lambda>i. i"
  by unfold_locales (simp_all add: requestData_def respondData_def resumeData_def Let_def send_def)

interpretation types_channel: request_channel nodeTypesRequests requestNodeTypes respondNodeTypes resumeNodeTypes "\<lambda>i. i"
  by unfold_locales (simp_all add: requestNodeTypes_def respondNodeTypes_def resumeNodeTypes_def Let_def send_def)

interpretation rpc_channel: request_channel rpcCalls makeRpcCall respondRpc resumeRpc "\<lambda>i. ()"
  by unfold_locales (simp_all add: makeRpcCall_def respondRpc_def resumeRpc_def Let_def send_def)

lemma responses:
  "processDataResponse rid x r = respondData rid (Resolved x) r"
  "processNodeTypesResponse rid x r = respondNodeTypes rid (Resolved x) r"
  "handleRpcResponse rid s x r = respondRpc rid (if s then Resolved x else Rejected x) r"
  by (simp_all add: processDataResponse_def respondData_def processNodeTypesResponse_def
      respondNodeTypes_def handleRpcResponse_def respondRpc_def)


text \<open>
  Each of the three kinds of requests works as a call: the code that made the request waits until
  a response comes, goes on with the first response, and the request is then forgotten, so that later
  responses have no effect.
\<close>

theorem requests_round_trip:
  assumes "serializable env params"
  shows "(let rid = nanoid env (calls r); r1 = requestData env i params r; r2 = processDataResponse rid x r1 in
      resumeData rid r1 = (None, r1) \<and> fst (resumeData rid r2) = Some (Resolved x) \<and>
      dataRequests (processDataResponse rid y r2) = dataRequests r2 \<and>
      fst (resumeData rid (processDataResponse rid y (snd (resumeData rid r2)))) = None) \<and>
    (let rid = nanoid env (calls r); r1 = requestNodeTypes env i params r; r2 = processNodeTypesResponse rid x r1 in
      resumeNodeTypes rid r1 = (None, r1) \<and> fst (resumeNodeTypes rid r2) = Some (Resolved x) \<and>
      nodeTypesRequests (processNodeTypesResponse rid y r2) = nodeTypesRequests r2 \<and>
      fst (resumeNodeTypes rid (processNodeTypesResponse rid y (snd (resumeNodeTypes rid r2)))) = None) \<and>
    (let rid = nanoid env (calls r); r1 = makeRpcCall env i params r; r2 = handleRpcResponse rid success x r1 in
      resumeRpc rid r1 = (None, r1) \<and>
      fst (resumeRpc rid r2) = Some (if success then Resolved x else Rejected x) \<and>
      rpcCalls (handleRpcResponse rid success' y r2) = rpcCalls r2 \<and>
      fst (resumeRpc rid (handleRpcResponse rid success' y (snd (resumeRpc rid r2)))) = None)"
  unfolding Let_def responses
  using data_channel.pending_waits [OF data_channel.issued_pending [OF assms]]
    data_channel.response_resumes [OF data_channel.issued_pending [OF assms] _ refl]
    types_channel.pending_waits [OF types_channel.issued_pending [OF assms]]
    types_channel.response_resumes [OF types_channel.issued_pending [OF assms] _ refl]
    rpc_channel.pending_waits [OF rpc_channel.issued_pending [OF assms]]
    rpc_channel.response_resumes [OF rpc_channel.issued_pending [OF assms] _ refl]
  by simp

theorem requests_round_trip_witness:
  "fst (resumeData ''6'' (processDataResponse ''6'' ''rows'' (requestData plain_env 7 ''input'' busy_runner))) =
     Some (Resolved ''rows'')"
proof -
  have "nanoid plain_env (calls busy_runner) = ''6''" by code_simp
  with requests_round_trip [OF plain_env_facts(3), where r = busy_runner and x = "''rows''"]
  show ?thesis by (simp add: Let_def)
qed

end
