(* ===== verification/Task_Protocol.thy ===== *)
theory Task_Protocol
  imports Task_Broker_Properties Task_Runner_Properties
begin

text \<open>
  The task broker and a task runner together: what the runner sends in answer to a message is handed
  to the broker, which takes up the promises that it settles.
\<close>


section \<open>Exchanging messages\<close>

text \<open>What a runner has sent between two states, and its delivery to the broker.\<close>

definition replies :: "Runner \<Rightarrow> Runner \<Rightarrow> RunnerMessage list" where
  "replies r r' = drop (length (sent r)) (sent r')"

definition deliver :: "int \<Rightarrow> string \<Rightarrow> RunnerMessage list \<Rightarrow> TaskBroker \<Rightarrow> TaskBroker" where
  "deliver now rid ms b = fold (onRunnerMessage now rid) ms b"

lemma replies_send [simp]: "sent r' = sent r \<Longrightarrow> replies r (send m r') = [m]"
  by (simp add: replies_def send_def)

lemma deliver_simps [simp]: "deliver now rid [] b = b" "deliver now rid (m # ms) b = deliver now rid ms (onRunnerMessage now rid m b)"
  by (simp_all add: deliver_def)

text \<open>A runner answers the acceptance of an offer by exactly one message.\<close>

definition has_room :: "Runner \<Rightarrow> string \<Rightarrow> bool" where
  "has_room r oid \<longleftrightarrow> hasOpenTasks r \<and> map_get (openOffers r) oid \<noteq> None"

lemma offerAccepted_yes:
  assumes "has_room r oid"
  shows "replies r (offerAccepted oid i r) = [RunnerTaskAccepted i]"
    "runningTasks (offerAccepted oid i r) = map_put i (length (taskObjects r)) (runningTasks r)"
    "taskObjects (offerAccepted oid i r) = taskObjects r @ [newTaskState i]"
  using assms by (auto simp: has_room_def offerAccepted_def Let_def resetIdleTimer_def replies_send)

lemma offerAccepted_no:
  assumes "\<not> has_room r oid"
  shows "\<exists>reason. replies r (offerAccepted oid i r) = [RunnerTaskRejected i reason]"
    "runningTasks (offerAccepted oid i r) = runningTasks r"
  using assms by (auto simp: has_room_def offerAccepted_def)



section \<open>What the broker relies on\<close>

text \<open>
  A runner answers the acceptance of one of its offers by one message: it accepts and holds the task,
  or it rejects and holds what it held before.
\<close>

locale runner_contract =
  fixes holds :: "'r \<Rightarrow> nat set"
    and accept :: "string \<Rightarrow> nat \<Rightarrow> 'r \<Rightarrow> RunnerMessage list \<times> 'r"
    and willing :: "'r \<Rightarrow> string \<Rightarrow> bool"
  assumes accepts_offer: "willing r oid \<Longrightarrow>
      fst (accept oid i r) = [RunnerTaskAccepted i] \<and> holds (snd (accept oid i r)) = insert i (holds r)"
    and rejects_offer: "\<not> willing r oid \<Longrightarrow>
      (\<exists>reason. fst (accept oid i r) = [RunnerTaskRejected i reason]) \<and> holds (snd (accept oid i r)) = holds r"
begin

text \<open>The broker after the answer: the promise is settled and its continuation has run.\<close>

definition settled :: "int \<Rightarrow> string \<Rightarrow> nat \<Rightarrow> string \<Rightarrow> 'r \<Rightarrow> TaskBroker \<Rightarrow> TaskBroker" where
  "settled now rid i oid r b = resumeAccept i (deliver now rid (fst (accept oid i r)) b)"

lemma handshake:
  assumes ok: "broker_ok b" and known: "map_get (knownRunners b) rid \<noteq> None"
    and fl: "map_get (inFlight b) i = Some f" "flPhase f = WaitRunner Unsettled"
    and un: "i \<in> set (runnerAcceptRejects b)" and new: "i \<notin> holds r"
  shows "i \<in> set (map_keys (tasks (settled now rid i oid r b))) \<longleftrightarrow> i \<in> holds (snd (accept oid i r))"
    "willing r oid \<Longrightarrow> map_get (tasks (settled now rid i oid r b)) i = Some
       \<lparr>taskRunner = offerRunner (flOffer f), taskRequester = requestRequester (requestObjects b ! flRequest f),
        taskTypeOf = offerType (flOffer f)\<rparr>"
    "\<not> willing r oid \<Longrightarrow> \<not> acceptInProgress (requestObjects (settled now rid i oid r b) ! flRequest f) \<and>
       flRequest f \<in> set (pendingTaskRequests (settled now rid i oid r b)) \<and>
       map_get (inFlight (settled now rid i oid r b)) i = None"
proof -
  have aw: "awaits b i f" using fl by (simp add: awaits_def)
  have req: "requests_ok b" and tsk: "tasks_ok b" using ok by (simp_all add: broker_ok_def)
  have no: "i \<notin> set (map_keys (tasks b))" using tsk aw unfolding tasks_ok_def by blast
  let ?b = "settled now rid i oid r b"
  have yes: "map_get (tasks ?b) i = Some
       \<lparr>taskRunner = offerRunner (flOffer f), taskRequester = requestRequester (requestObjects b ! flRequest f),
        taskTypeOf = offerType (flOffer f)\<rparr>" if w: "willing r oid"
  proof -
    let ?f = "f\<lparr>flPhase := WaitRunner (Accepted ())\<rparr>"
    have "deliver now rid (fst (accept oid i r)) b = b\<lparr>inFlight := map_put i ?f (inFlight b),
        runnerAcceptRejects := set_delete i (runnerAcceptRejects b)\<rparr>"
      using accepts_offer [OF w] known fl un
      by (auto simp: onRunnerMessage_def handleRunnerAccept_def answerRunner_def settleRunner_def)
    then show ?thesis
      by (simp add: settled_def resumeAccept_def runnerAccepted_def Let_def messageRequester_def split: option.split)
  qed
  have no_task: "tasks ?b = tasks b \<and> \<not> acceptInProgress (requestObjects ?b ! flRequest f) \<and>
      flRequest f \<in> set (pendingTaskRequests ?b) \<and> map_get (inFlight ?b) i = None" if w: "\<not> willing r oid"
  proof -
    obtain reason where m: "fst (accept oid i r) = [RunnerTaskRejected i reason]"
      using rejects_offer [OF w] by blast
    let ?f = "f\<lparr>flPhase := WaitRunner (RejectError reason)\<rparr>"
    have "deliver now rid (fst (accept oid i r)) b = b\<lparr>inFlight := map_put i ?f (inFlight b),
        runnerAcceptRejects := set_delete i (runnerAcceptRejects b)\<rparr>"
      using m known fl un
      by (auto simp: onRunnerMessage_def handleRunnerReject_def answerRunner_def settleRunner_def)
    moreover have "flRequest f \<in> set (pendingTaskRequests b)" "flRequest f < length (requestObjects b)"
      using req aw fl(1) by (simp_all add: requests_ok_def)
    ultimately show ?thesis
      by (simp add: settled_def resumeAccept_def runnerDeclined_def setProgress_def)
  qed
  show "i \<in> set (map_keys (tasks ?b)) \<longleftrightarrow> i \<in> holds (snd (accept oid i r))"
  proof (cases "willing r oid")
    case True
    have "i \<in> set (map_keys (tasks ?b))" using map_of_SomeD [OF yes [OF True]] by force
    then show ?thesis using accepts_offer [OF True] by simp
  next
    case False
    then show ?thesis using no_task [OF False] rejects_offer [OF False] no new by simp
  qed
  show "willing r oid \<Longrightarrow> map_get (tasks ?b) i = Some
       \<lparr>taskRunner = offerRunner (flOffer f), taskRequester = requestRequester (requestObjects b ! flRequest f),
        taskTypeOf = offerType (flOffer f)\<rparr>" by (rule yes)
  show "\<not> willing r oid \<Longrightarrow> \<not> acceptInProgress (requestObjects ?b ! flRequest f) \<and>
       flRequest f \<in> set (pendingTaskRequests ?b) \<and> map_get (inFlight ?b) i = None"
    using no_task by blast
qed

end

definition held_tasks :: "Runner \<Rightarrow> nat set" where
  "held_tasks r = set (map_keys (runningTasks r))"

definition take_offer :: "string \<Rightarrow> nat \<Rightarrow> Runner \<Rightarrow> RunnerMessage list \<times> Runner" where
  "take_offer oid i r = (let r' = offerAccepted oid i r in (replies r r', r'))"

lemma held_tasks_put: "runningTasks r' = map_put i ref (runningTasks r) \<Longrightarrow> held_tasks r' = insert i (held_tasks r)"
  unfolding held_tasks_def by (simp only: keys_map_put)

interpretation javascript_runner: runner_contract held_tasks take_offer has_room
proof
  fix r oid i
  assume y: "has_room r oid"
  from held_tasks_put [OF offerAccepted_yes(2) [OF y]] offerAccepted_yes(1) [OF y]
  show "fst (take_offer oid i r) = [RunnerTaskAccepted i] \<and>
      held_tasks (snd (take_offer oid i r)) = insert i (held_tasks r)"
    by (simp add: take_offer_def Let_def)
next
  fix r oid i
  assume "\<not> has_room r oid"
  from offerAccepted_no [OF this, of i]
  show "(\<exists>reason. fst (take_offer oid i r) = [RunnerTaskRejected i reason]) \<and>
      held_tasks (snd (take_offer oid i r)) = held_tasks r"
    by (simp add: take_offer_def Let_def held_tasks_def)
qed



section \<open>Broker and runner together\<close>

text \<open>
  C9. The broker asks a runner to take a task for an offer, the runner answers, and the broker goes on:
  then both agree on whether the runner has the task. A runner with a free slot and the offer still
  open has it, waiting for its settings, and the broker has it under the runner and the requester; else
  the request is pending again and can be offered to another runner.
\<close>

theorem broker_and_runner_agree:
  assumes "tb_reachable b" and "map_get (knownRunners b) rid \<noteq> None"
    and "map_get (inFlight b) i = Some f" and "flPhase f = WaitRunner Unsettled"
    and "i \<in> set (runnerAcceptRejects b)" and "map_get (runningTasks r) i = None"
    and "r' = onMessage env (TaskOfferAccept oid i) r"
    and "b' = resumeAccept i (fold (onRunnerMessage now rid) (drop (length (sent r)) (sent r')) b)"
  shows "(map_get (tasks b') i \<noteq> None \<longleftrightarrow> map_get (runningTasks r') i \<noteq> None) \<and>
    (if hasOpenTasks r \<and> map_get (openOffers r) oid \<noteq> None
     then map_get (tasks b') i = Some \<lparr>taskRunner = offerRunner (flOffer f),
         taskRequester = requestRequester (requestObjects b ! flRequest f), taskTypeOf = offerType (flOffer f)\<rparr> \<and>
       (\<exists>ref. map_get (runningTasks r') i = Some ref \<and>
          tsStatus (taskObjects r' ! ref) = WaitingForSettings)
     else runningTasks r' = runningTasks r \<and> flRequest f \<in> set (pendingTaskRequests b') \<and>
       \<not> acceptInProgress (requestObjects b' ! flRequest f) \<and> map_get (inFlight b') i = None)"
proof -
  have r': "r' = offerAccepted oid i r" using assms(7) by (simp add: onMessage_def)
  then have take: "take_offer oid i r = (drop (length (sent r)) (sent r'), r')"
    by (simp add: take_offer_def Let_def replies_def)
  then have b': "b' = javascript_runner.settled now rid i oid r b"
    using assms(8) by (simp add: javascript_runner.settled_def deliver_def)
  have new: "i \<notin> held_tasks r" using assms(6) by (simp add: held_tasks_def map_of_eq_None_iff)
  note hs = javascript_runner.handshake [OF tb_reachable_ok [OF assms(1)] assms(2-5) new, where now = now and oid = oid, folded b']
  have "map_get (tasks b') i \<noteq> None \<longleftrightarrow> map_get (runningTasks r') i \<noteq> None"
    using hs(1) unfolding take held_tasks_def by (simp add: map_of_eq_None_iff)
  moreover have "map_get (tasks b') i = Some \<lparr>taskRunner = offerRunner (flOffer f),
         taskRequester = requestRequester (requestObjects b ! flRequest f), taskTypeOf = offerType (flOffer f)\<rparr> \<and>
       (\<exists>ref. map_get (runningTasks r') i = Some ref \<and> tsStatus (taskObjects r' ! ref) = WaitingForSettings)"
    if "has_room r oid"
    using hs(2) [OF that] offerAccepted_yes(2,3) [OF that, of i] by (simp add: r' newTaskState_def)
  moreover have "runningTasks r' = runningTasks r \<and> flRequest f \<in> set (pendingTaskRequests b') \<and>
       \<not> acceptInProgress (requestObjects b' ! flRequest f) \<and> map_get (inFlight b') i = None"
    if "\<not> has_room r oid"
    using hs(3) [OF that] offerAccepted_no(2) [OF that, of i] by (simp add: r')
  ultimately show ?thesis by (simp add: has_room_def)
qed

theorem broker_and_runner_agree_witness:
  "map_get (tasks (resumeAccept 0 (fold (onRunnerMessage 0 ''r1'')
      (drop (length (sent offering_runner)) (sent (onMessage plain_env (TaskOfferAccept ''2'' 0) offering_runner))) asked))) 0 =
    Some \<lparr>taskRunner = ''r1'', taskRequester = ''q'', taskTypeOf = ''js''\<rparr>"
proof -
  have c: "map_get (knownRunners asked) ''r1'' = Some (runner_of ''r1'')" "0 \<in> set (runnerAcceptRejects asked)"
    "map_get (runningTasks offering_runner) 0 = None" "hasOpenTasks offering_runner"
    "map_option (\<lambda>u. ()) (map_get (openOffers offering_runner) ''2'') = Some ()" by code_simp+
  have "map_option (\<lambda>f. (flPhase f, offerRunner (flOffer f), offerType (flOffer f),
      requestRequester (requestObjects asked ! flRequest f))) (map_get (inFlight asked) 0) =
    Some (WaitRunner Unsettled, ''r1'', ''js'', ''q'')" by code_simp
  then obtain f where f: "map_get (inFlight asked) 0 = Some f" "flPhase f = WaitRunner Unsettled"
    "offerRunner (flOffer f) = ''r1''" "offerType (flOffer f) = ''js''"
    "requestRequester (requestObjects asked ! flRequest f) = ''q''" by auto
  have "map_get (knownRunners asked) ''r1'' \<noteq> None" using c(1) by simp
  from broker_and_runner_agree [OF asked_reachable this f(1,2) c(2,3) refl refl, where oid = "''2''" and env = plain_env and now = 0] c(4,5) f(3-5)
  show ?thesis by auto
qed

lemma result_delivered:
  assumes "rn_reachable env r" and "map_get (runningTasks r) i = Some ref"
    and "tsStatus (taskObjects r ! ref) = WaitingForSettings"
    and "map_get (tasks b) i = Some t" and "taskRequester t \<in> set (requesters b)"
    and "map_get (knownRunners b) rid \<noteq> None"
    and "serializable env data \<or> serializable env ''Converting circular structure to JSON''"
    and "r' = finishExecution env ref (executionResolves env ref data (onMessage env (SettingsToRunner i settings) r))"
    and "b' = fold (onRunnerMessage now rid) (filter (\<lambda>m. \<not> is_offer m) (drop (length (sent r)) (sent r'))) b"
  shows "outbox b' = outbox b @ [SentToRequester (taskRequester t)
      (if serializable env data then TaskDone i data
       else TaskFailed i ''Converting circular structure to JSON'')] \<and>
    map_get (tasks b') i = None \<and> i \<notin> set (timers b') \<and> map_get (runningTasks r') i = None"
proof -
  note run = running_task [OF rn_reachable_books [OF assms(1)] assms(2)]
  let ?circular = "''Converting circular structure to JSON''"
  let ?t1 = "(taskObjects r ! ref)\<lparr>tsStatus := Running, tsExecution := Executing settings\<rparr>"
  let ?r1 = "setTask ref ?t1 r"
  have r1: "onMessage env (SettingsToRunner i settings) r = ?r1"
    using assms(2,3) by (simp add: onMessage_def receivedSettings_def)
  have handled: "fold (onRunnerMessage now rid) [m] b = endTask i n b"
    if "m = RunnerTaskDone i data \<and> n = TaskDone i data \<or> m = RunnerTaskError i x \<and> n = TaskFailed i x" for m n x
    using that assms(6) by (auto simp: onRunnerMessage_def taskDoneHandler_def taskErrorHandler_def)
  have ended: "outbox (endTask i n b) = outbox b @ [SentToRequester (taskRequester t) n] \<and>
      map_get (tasks (endTask i n b)) i = None \<and> i \<notin> set (timers (endTask i n b))" for n
    using assms(4,5) by (simp add: endTask_def messageRequester_def Let_def)
  have offers: "\<exists>ms. sent (finishTask env ref s) = sent s @ ms \<and> (\<forall>m \<in> set ms. is_offer m)" for s
  proof -
    obtain s' where "finishTask env ref s = resetIdleTimer (sendOffers env s')" "sent s' = sent s"
      by (simp add: finishTask_def Let_def setTask_def)
    then show ?thesis using sendOffers_only [of s' env] by (auto simp: offers_only_def resetIdleTimer_def)
  qed
  have obj: "taskObjects ?r1 ! ref = ?t1" "length (taskObjects ?r1) = length (taskObjects r)" using run(2) by simp_all
  show ?thesis
  proof (cases "serializable env data")
    case True
    let ?r2 = "setTask ref (?t1\<lparr>tsExecution := FinishSuccess None\<rparr>) (send (RunnerTaskDone i data) ?r1)"
    let ?r3 = "setTask ref ((taskObjects ?r2 ! ref)\<lparr>tsExecution := Over\<rparr>) ?r2"
    have r2: "executionResolves env ref data ?r1 = ?r2"
      using run(2,3) True by (simp add: executionResolves_def taskExecutionSucceeded_def obj trySend_def)
    have r3: "r' = finishTask env ref ?r3"
      unfolding assms(8) r1 r2 using run(2) by (simp add: finishExecution_def)
    obtain ms where ms: "sent r' = sent ?r3 @ ms" "\<forall>m \<in> set ms. is_offer m" using offers r3 by blast
    have "filter (\<lambda>m. \<not> is_offer m) (drop (length (sent r)) (sent r')) = [RunnerTaskDone i data]"
      using ms(2) unfolding ms(1) by (simp add: send_def is_offer_def filter_empty_conv)
    then have "b' = endTask i (TaskDone i data) b"
      using assms(9) handled [of "RunnerTaskDone i data"] by simp
    moreover have "map_get (runningTasks r') i = None"
      unfolding r3 finishTask_fields using run(2,3) by simp
    ultimately show ?thesis using ended True by simp
  next
    case False
    let ?r2 = "setTask ref (?t1\<lparr>tsExecution := FinishSuccess (Some ?circular)\<rparr>) ?r1"
    let ?r3 = "finishTask env ref ?r2"
    have r2: "executionResolves env ref data ?r1 = ?r2"
      using run(2,3) False by (simp add: executionResolves_def taskExecutionSucceeded_def obj trySend_def)
    have obj3: "taskObjects ?r3 ! ref = cleanup (?t1\<lparr>tsExecution := FinishSuccess (Some ?circular)\<rparr>)"
      using run(2) by (simp add: finishTask_fields)
    have r3: "r' = taskExecutionFailed env ref ?circular ?r3"
      unfolding assms(8) r1 r2 using run(2) by (simp add: finishExecution_def)
    have "r' = setTask ref (cleanup (?t1\<lparr>tsExecution := FinishSuccess (Some ?circular)\<rparr>)\<lparr>tsExecution := FinishFailure None\<rparr>)
        (send (RunnerTaskError i ?circular) ?r3)"
      unfolding r3 taskExecutionFailed_def obj3 using False assms(7) run(3) by (simp add: cleanup_def trySend_def Let_def)
    then have s: "sent r' = sent ?r3 @ [RunnerTaskError i ?circular]" "runningTasks r' = runningTasks ?r3"
      by (simp_all add: send_def)
    obtain ms where ms: "sent ?r3 = sent ?r2 @ ms" "\<forall>m \<in> set ms. is_offer m" using offers by blast
    have "filter (\<lambda>m. \<not> is_offer m) (drop (length (sent r)) (sent r')) = [RunnerTaskError i ?circular]"
      using ms(2) unfolding s(1) ms(1) by (simp add: is_offer_def filter_empty_conv)
    then have "b' = endTask i (TaskFailed i ?circular) b"
      using assms(9) handled [of "RunnerTaskError i ?circular"] by simp
    moreover have "map_get (runningTasks r') i = None"
      unfolding s(2) finishTask_fields using run(2,3) by simp
    ultimately show ?thesis using ended False by simp
  qed
qed

text \<open>
  When the settings of a task reach its runner and the execution resolves, the requester is told the
  result and the broker forgets the task and its timer; a result that cannot be sent reaches the
  requester as an error; after that the runner no longer has the task.
\<close>

theorem result_reaches_requester:
  assumes "rn_reachable env r" and "map_get (runningTasks r) i = Some ref"
    and "tsStatus (taskObjects r ! ref) = WaitingForSettings"
    and "map_get (tasks b) i = Some t" and "taskRequester t \<in> set (requesters b)"
    and "map_get (knownRunners b) rid \<noteq> None"
    and "serializable env data \<or> serializable env ''Converting circular structure to JSON''"
    and "r' = finishExecution env ref (executionResolves env ref data (onMessage env (SettingsToRunner i settings) r))"
    and "b' = fold (onRunnerMessage now rid) (filter (\<lambda>m. \<not> is_offer m) (drop (length (sent r)) (sent r'))) b"
  shows "outbox b' = outbox b @ [SentToRequester (taskRequester t)
      (if serializable env data then TaskDone i data
       else TaskFailed i ''Converting circular structure to JSON'')] \<and>
    map_get (tasks b') i = None \<and> i \<notin> set (timers b') \<and> map_get (runningTasks r') i = None"
  by (rule result_delivered [OF assms])

definition ready_runner :: Runner where
  "ready_runner = onMessage plain_env (TaskOfferAccept ''2'' 0) offering_runner"

definition finished_runner :: Runner where
  "finished_runner = finishExecution plain_env 0 (executionResolves plain_env 0 ''rows''
     (onMessage plain_env (SettingsToRunner 0 ''code'') ready_runner))"

lemma ready_reachable: "rn_reachable plain_env ready_runner"
  unfolding ready_runner_def using rn_next [OF offering_reachable rn_message] .

theorem result_reaches_requester_witness:
  "outbox (fold (onRunnerMessage 0 ''r1'')
      (filter (\<lambda>m. \<not> is_offer m) (drop (length (sent ready_runner)) (sent finished_runner))) (resumeAccept 0 taken)) =
    outbox (resumeAccept 0 taken) @ [SentToRequester ''q'' (TaskDone 0 ''rows'')]"
proof -
  let ?b = "resumeAccept 0 taken"
  let ?t = "\<lparr>taskRunner = ''r1'', taskRequester = ''q'', taskTypeOf = ''js''\<rparr>"
  have c: "map_get (runningTasks ready_runner) 0 = Some 0"
    "tsStatus (taskObjects ready_runner ! 0) = WaitingForSettings"
    "map_get (tasks ?b) 0 = Some ?t" "''q'' \<in> set (requesters ?b)"
    "map_get (knownRunners ?b) ''r1'' = Some (runner_of ''r1'')" by code_simp+
  have q: "taskRequester ?t \<in> set (requesters ?b)" and k: "map_get (knownRunners ?b) ''r1'' \<noteq> None"
    using c(4,5) by simp_all
  have s: "serializable plain_env ''rows'' \<or> serializable plain_env ''Converting circular structure to JSON''"
    by (simp add: plain_env_facts)
  from result_reaches_requester [OF ready_reachable c(1,2,3) q k s refl refl, where settings = "''code''" and now = 0]
  show ?thesis unfolding finished_runner_def by (simp add: plain_env_facts)
qed

end
