(* ===== verification/Task_Requester.thy ===== *)
theory Task_Requester
  imports Task_Broker
begin

text \<open>
  The class TaskRequester of packages/cli/src/task-runners/task-managers/task-requester.ts, which an
  execution uses to have a task run, in the variant LocalTaskRequester that hands its messages to the
  broker of the same process.

  \<open>startTask\<close> is split at its two awaited promises: a call is in one of three phases, and
  \<open>resumeTask\<close> goes on once the promise of the phase is settled. The data of a task, the response
  that is built from it and the outcome of a remote call are parameters. The merging of custom data
  and static data into the execution is not modelled.
\<close>

datatype TaskOutcome = ResultOk string | ResultError string

datatype CallPhase =
    AwaitTaskId "nat option"
  | AwaitResult nat "TaskOutcome option"
  | Returned TaskOutcome

record TaskCall =
  callSettings :: string
  callData :: string
  callPhase :: CallPhase

text \<open>
  The promises of the calls are named by the id of their request; \<open>taskAcceptRejects\<close> holds the call
  that waits for the result of a task.
\<close>

record Requester =
  rqId :: string
  requestAcceptRejects :: "string list"
  taskAcceptRejects :: "(nat, string) js_map"
  pendingRequests :: "(string, string) js_map"
  rqTasks :: "(nat, string) js_map"
  taskCalls :: "(string, TaskCall) js_map"
  rqSent :: "RequesterMessage list"

definition newRequester :: "string \<Rightarrow> Requester" where
  "newRequester i = \<lparr>rqId = i, requestAcceptRejects = [], taskAcceptRejects = [], pendingRequests = [],
     rqTasks = [], taskCalls = [], rqSent = []\<rparr>"

definition sendMessage :: "RequesterMessage \<Rightarrow> Requester \<Rightarrow> Requester" where
  "sendMessage m q = q\<lparr>rqSent := rqSent q @ [m]\<rparr>"

definition setPhase :: "string \<Rightarrow> CallPhase \<Rightarrow> Requester \<Rightarrow> Requester" where
  "setPhase rid ph q =
     (case map_get (taskCalls q) rid of
        None \<Rightarrow> q
      | Some c \<Rightarrow> q\<lparr>taskCalls := map_put rid (c\<lparr>callPhase := ph\<rparr>) (taskCalls q)\<rparr>)"

text \<open>A new call; the id of its request is new.\<close>

definition startTask :: "string \<Rightarrow> string \<Rightarrow> string \<Rightarrow> string \<Rightarrow> Requester \<Rightarrow> Requester" where
  "startTask rid taskType settings data q =
     sendMessage (RequesterTaskRequest rid taskType)
       (q\<lparr>pendingRequests := map_put rid data (pendingRequests q),
          requestAcceptRejects := set_add rid (requestAcceptRejects q),
          taskCalls := map_put rid \<lparr>callSettings = settings, callData = data, callPhase = AwaitTaskId None\<rparr>
            (taskCalls q)\<rparr>)"

definition resumeTask :: "string \<Rightarrow> Requester \<Rightarrow> Requester" where
  "resumeTask rid q =
     (case map_get (taskCalls q) rid of
        None \<Rightarrow> q
      | Some c \<Rightarrow> (case callPhase c of
          AwaitTaskId (Some taskId) \<Rightarrow>
            sendMessage (RequesterTaskSettings taskId (callSettings c))
              (setPhase rid (AwaitResult taskId None)
                (q\<lparr>rqTasks := map_put taskId (callData c) (rqTasks q),
                   taskAcceptRejects := map_put taskId rid (taskAcceptRejects q)\<rparr>))
        | AwaitResult taskId (Some outcome) \<Rightarrow>
            (setPhase rid (Returned outcome) q)\<lparr>rqTasks := map_del taskId (rqTasks q)\<rparr>
        | _ \<Rightarrow> q))"

definition rejectTask :: "nat \<Rightarrow> string \<Rightarrow> Requester \<Rightarrow> Requester" where
  "rejectTask taskId reason = sendMessage (RequesterTaskCancel taskId reason)"

definition requestNotFound :: string where
  "requestNotFound = ''Request ID not found. In multi-main setup, it is possible for one of the mains to have reported ready state already.''"

definition taskReady :: "string \<Rightarrow> nat \<Rightarrow> Requester \<Rightarrow> Requester" where
  "taskReady rid taskId q =
     (if rid \<notin> set (requestAcceptRejects q) then rejectTask taskId requestNotFound q
      else (setPhase rid (AwaitTaskId (Some taskId)) q)
             \<lparr>requestAcceptRejects := set_delete rid (requestAcceptRejects q)\<rparr>)"

text \<open>The answer to a task settles the promise of the call that waits for it.\<close>

definition settleTask :: "nat \<Rightarrow> TaskOutcome \<Rightarrow> Requester \<Rightarrow> Requester" where
  "settleTask taskId outcome q =
     (case map_get (taskAcceptRejects q) taskId of
        None \<Rightarrow> q
      | Some rid \<Rightarrow> (setPhase rid (AwaitResult taskId (Some outcome)) q)
          \<lparr>taskAcceptRejects := map_del taskId (taskAcceptRejects q)\<rparr>)"

definition taskDone :: "nat \<Rightarrow> string \<Rightarrow> Requester \<Rightarrow> Requester" where
  "taskDone taskId data = settleTask taskId (ResultOk data)"

definition taskError :: "nat \<Rightarrow> string \<Rightarrow> Requester \<Rightarrow> Requester" where
  "taskError taskId e = settleTask taskId (ResultError e)"

definition sendTaskData :: "(string \<Rightarrow> string \<Rightarrow> string) \<Rightarrow> nat \<Rightarrow> string \<Rightarrow> string \<Rightarrow> Requester \<Rightarrow> Requester" where
  "sendTaskData response taskId rid params q =
     (case map_get (rqTasks q) taskId of
        None \<Rightarrow> q
      | Some data \<Rightarrow> sendMessage (RequesterDataResponse taskId rid (response data params)) q)"

definition sendNodeTypes :: "(string \<Rightarrow> string) \<Rightarrow> nat \<Rightarrow> string \<Rightarrow> string \<Rightarrow> Requester \<Rightarrow> Requester" where
  "sendNodeTypes descriptions taskId rid needed =
     sendMessage (RequesterNodeTypesResponse taskId rid (descriptions needed))"

text \<open>A remote call; its outcome is a status and a result.\<close>

definition handleRpc :: "(string \<Rightarrow> string \<Rightarrow> bool \<times> string) \<Rightarrow> nat \<Rightarrow> string \<Rightarrow> string \<Rightarrow> Requester \<Rightarrow> Requester" where
  "handleRpc outcome taskId callId params q =
     (case map_get (rqTasks q) taskId of
        None \<Rightarrow> q
      | Some data \<Rightarrow> (case outcome data params of
          (success, result) \<Rightarrow> sendMessage (RequesterRpcResponse taskId callId success result) q))"

record RequesterEnv =
  dataResponse :: "string \<Rightarrow> string \<Rightarrow> string"
  nodeTypeDescriptions :: "string \<Rightarrow> string"
  rpcOutcome :: "string \<Rightarrow> string \<Rightarrow> bool \<times> string"

definition onBrokerMessage :: "RequesterEnv \<Rightarrow> ToRequester \<Rightarrow> Requester \<Rightarrow> Requester" where
  "onBrokerMessage env m =
     (case m of
        TaskReady rid taskId \<Rightarrow> taskReady rid taskId
      | TaskDone taskId data \<Rightarrow> taskDone taskId data
      | TaskFailed taskId e \<Rightarrow> taskError taskId e
      | DataRequestToRequester taskId rid params \<Rightarrow> sendTaskData (dataResponse env) taskId rid params
      | NodeTypesRequestToRequester taskId rid needed \<Rightarrow> sendNodeTypes (nodeTypeDescriptions env) taskId rid needed
      | RpcToRequester taskId callId params \<Rightarrow> handleRpc (rpcOutcome env) taskId callId params)"

end
