(* ===== verification/Task_Round_Trip.thy ===== *)
theory Task_Round_Trip
  imports Task_Protocol Task_Requester
begin

text \<open>
  A task from the call that starts it to its result: the requester, the broker and a runner, each
  taking what the others have sent.
\<close>


section \<open>Messages between the three\<close>

fun for_requester :: "string \<Rightarrow> Sent \<Rightarrow> ToRequester list" where
  "for_requester q (SentToRequester q' m) = (if q' = q then [m] else [])"
| "for_requester q s = []"

fun for_runner :: "string \<Rightarrow> Sent \<Rightarrow> ToRunner list" where
  "for_runner rn (SentToRunner rn' m) = (if rn' = rn then [m] else [])"
| "for_runner rn s = []"

definition news :: "TaskBroker \<Rightarrow> TaskBroker \<Rightarrow> Sent list" where
  "news b b' = drop (length (outbox b)) (outbox b')"

text \<open>The broker takes what a requester, or what a runner has sent; these take what the broker has sent.\<close>

definition broker_takes :: "int \<Rightarrow> Requester \<Rightarrow> Requester \<Rightarrow> TaskBroker \<Rightarrow> TaskBroker" where
  "broker_takes now q q' b = fold (onRequesterMessage now (rqId q)) (drop (length (rqSent q)) (rqSent q')) b"

definition broker_hears :: "int \<Rightarrow> string \<Rightarrow> Runner \<Rightarrow> Runner \<Rightarrow> TaskBroker \<Rightarrow> TaskBroker" where
  "broker_hears now rn r r' b =
     fold (onRunnerMessage now rn) (filter (\<lambda>m. \<not> is_offer m) (drop (length (sent r)) (sent r'))) b"

definition requester_takes :: "RequesterEnv \<Rightarrow> TaskBroker \<Rightarrow> TaskBroker \<Rightarrow> Requester \<Rightarrow> Requester" where
  "requester_takes env b b' q = fold (onBrokerMessage env) (concat (map (for_requester (rqId q)) (news b b'))) q"

definition runner_takes :: "RunnerEnv \<Rightarrow> string \<Rightarrow> TaskBroker \<Rightarrow> TaskBroker \<Rightarrow> Runner \<Rightarrow> Runner" where
  "runner_takes env rn b b' r = fold (onMessage env) (concat (map (for_runner rn) (news b b'))) r"

lemma news_append: "outbox b' = outbox b @ ms \<Longrightarrow> news b b' = ms"
  by (simp add: news_def)


section \<open>The stages\<close>

text \<open>The broker gets the request and offers it to the runner.\<close>

lemma request_offered:
  assumes "pendingTaskRequests b = []" and "map_get (knownRunners b) (offerRunner o') \<noteq> None"
    and "take_first (\<lambda>x. offerType x = type)
      (filter (\<lambda>x. validFor x = -1 \<or> now \<le> validUntil x) (pendingTaskOffers b)) = Some (o', rest)"
    and "b1 = onRequesterMessage now q (RequesterTaskRequest rid type) b"
  shows "outbox b1 = outbox b @ [SentToRunner (offerRunner o') (TaskOfferAccept (offerId o') (nextTaskId b))]"
    "map_get (inFlight b1) (nextTaskId b) =
       Some \<lparr>flOffer = o', flRequest = length (requestObjects b), flPhase = WaitRunner Unsettled\<rparr>"
    "nextTaskId b \<in> set (runnerAcceptRejects b1)"
    "requestObjects b1 = requestObjects b @
       [\<lparr>requestId = rid, requestRequester = q, requestType = type, acceptInProgress = True\<rparr>]"
    "pendingTaskRequests b1 = [length (requestObjects b)]"
    "knownRunners b1 = knownRunners b" "requesters b1 = requesters b" "tasks b1 = tasks b"
  using assms(1-3) unfolding assms(4)
  by (auto simp: onRequesterMessage_def taskRequested_def settleTasks_def expireTasks_def Let_def
      settleRequest_def setProgress_def startAccept_def messageRunner_def)

text \<open>The runner has accepted: the requester is told.\<close>

lemma acceptance_told:
  assumes "map_get (knownRunners b1) rn \<noteq> None" and "i \<in> set (runnerAcceptRejects b1)"
    and "map_get (inFlight b1) i = Some \<lparr>flOffer = o', flRequest = n, flPhase = WaitRunner Unsettled\<rparr>"
    and "pendingTaskRequests b1 = [n]" and "requestObjects b1 ! n = req" and "requestRequester req \<in> set (requesters b1)"
    and "b2 = resumeAccept i (onRunnerMessage now rn (RunnerTaskAccepted i) b1)"
  shows "outbox b2 = outbox b1 @ [SentToRequester (requestRequester req) (TaskReady (requestId req) i)]"
    "map_get (tasks b2) i = Some \<lparr>taskRunner = offerRunner o', taskRequester = requestRequester req,
       taskTypeOf = offerType o'\<rparr>"
    "pendingTaskRequests b2 = []" "i \<in> set (requesterAcceptRejects b2)"
    "map_get (inFlight b2) i = Some \<lparr>flOffer = o', flRequest = n, flPhase = WaitRequester Unsettled\<rparr>"
    "knownRunners b2 = knownRunners b1" "requesters b2 = requesters b1"
  using assms(1-6) unfolding assms(7)
  by (auto simp: onRunnerMessage_def handleRunnerAccept_def answerRunner_def settleRunner_def resumeAccept_def
      runnerAccepted_def Let_def dropPending_def messageRequester_def)

text \<open>The requester has sent the settings: the runner gets them.\<close>

lemma settings_sent:
  assumes "map_get (tasks b2) i = Some t" and "map_get (knownRunners b2) (taskRunner t) = Some tr"
    and "trId tr = taskRunner t" and "i \<in> set (requesterAcceptRejects b2)"
    and "map_get (inFlight b2) i = Some f" and "flPhase f = WaitRequester Unsettled"
    and "b3 = resumeAccept i (onRequesterMessage now q (RequesterTaskSettings i settings) b2)"
  shows "outbox b3 = outbox b2 @ [SentToRunner (taskRunner t) (SettingsToRunner i settings)]"
    "map_get (tasks b3) i = Some t" "knownRunners b3 = knownRunners b2" "requesters b3 = requesters b2"
    "pendingTaskRequests b3 = pendingTaskRequests b2"
  using assms(1-6) unfolding assms(7)
  by (auto simp: onRequesterMessage_def handleRequesterAccept_def answerRequester_def settleRequester_def
      resumeAccept_def requesterAnswered_def sendTaskSettings_def getRunnerOrFailTask_def messageRunner_def)


text \<open>The requester on its way.\<close>

lemma task_started:
  assumes "q1 = startTask rid type settings data q"
  shows "drop (length (rqSent q)) (rqSent q1) = [RequesterTaskRequest rid type]" "rqId q1 = rqId q"
    "rid \<in> set (requestAcceptRejects q1)"
    "map_get (taskCalls q1) rid = Some \<lparr>callSettings = settings, callData = data, callPhase = AwaitTaskId None\<rparr>"
  using assms by (simp_all add: startTask_def sendMessage_def)

lemma call_ready:
  assumes "rid \<in> set (requestAcceptRejects q1)" and "map_get (taskCalls q1) rid = Some c"
    and "q2 = resumeTask rid (onBrokerMessage env (TaskReady rid i) q1)"
  shows "drop (length (rqSent q1)) (rqSent q2) = [RequesterTaskSettings i (callSettings c)]" "rqId q2 = rqId q1"
    "map_get (taskCalls q2) rid = Some (c\<lparr>callPhase := AwaitResult i None\<rparr>)"
    "map_get (taskAcceptRejects q2) i = Some rid" "map_get (rqTasks q2) i = Some (callData c)"
  using assms(1,2) unfolding assms(3)
  by (simp_all add: onBrokerMessage_def taskReady_def setPhase_def resumeTask_def sendMessage_def)

lemma call_returns:
  assumes "map_get (taskAcceptRejects q2) i = Some rid" and "map_get (taskCalls q2) rid = Some c"
    and "m = TaskDone i x \<and> outcome = ResultOk x \<or> m = TaskFailed i x \<and> outcome = ResultError x"
    and "q3 = resumeTask rid (onBrokerMessage env m q2)"
  shows "map_get (taskCalls q3) rid = Some (c\<lparr>callPhase := Returned outcome\<rparr>)" "map_get (rqTasks q3) i = None"
    "map_get (taskAcceptRejects q3) i = None"
  using assms(1-3) unfolding assms(4)
  by (auto simp: onBrokerMessage_def taskDone_def taskError_def settleTask_def setPhase_def resumeTask_def)


section \<open>The round trip\<close>



text \<open>A broker with one requester, one runner and its open offer.\<close>

definition ready_broker :: TaskBroker where
  "ready_broker = onRunnerMessage 0 ''r1'' (RunnerTaskOffer ''2'' ''js'' (-1))
     (registerRequester ''q'' (registerRunner (runner_of ''r1'') idle_broker))"

definition plain_requester_env :: RequesterEnv where
  "plain_requester_env = \<lparr>dataResponse = (\<lambda>d p. d), nodeTypeDescriptions = (\<lambda>n. n), rpcOutcome = (\<lambda>d p. (True, p))\<rparr>"


end
