(* ===== verification/Runner_Monitoring.thy ===== *)
theory Runner_Monitoring
  imports Workflow_Rename
begin

text \<open>
  What watches the process of the internal task runner (packages/cli/src/task-runners): the detector of
  restart loops, the sliding window over the exit event, the analyzer that turns it into the error of a
  disconnected runner, and the process that restarts itself.

  Times are milliseconds. A handler reads the clock once; its time is an argument.
\<close>


section \<open>TaskRunnerProcessRestartLoopDetector\<close>

definition MAX_RESTARTS :: nat where "MAX_RESTARTS = 5"

definition RESTARTS_WINDOW :: int where "RESTARTS_WINDOW = 2 * 1000"

record RestartLoopDetector =
  numRestarts :: nat
  firstRestartedAt :: int

definition newDetector :: "int \<Rightarrow> RestartLoopDetector" where
  "newDetector now = \<lparr>numRestarts = 0, firstRestartedAt = now\<rparr>"

definition resetDetector :: "int \<Rightarrow> RestartLoopDetector \<Rightarrow> RestartLoopDetector" where
  "resetDetector now d = \<lparr>numRestarts = 0, firstRestartedAt = now\<rparr>"

definition increment :: "int \<Rightarrow> RestartLoopDetector \<Rightarrow> RestartLoopDetector" where
  "increment now d =
     (let d = (if now > firstRestartedAt d + RESTARTS_WINDOW then resetDetector now d else d)
      in d\<lparr>numRestarts := Suc (numRestarts d)\<rparr>)"

definition isMaxCountExceeded :: "RestartLoopDetector \<Rightarrow> bool" where
  "isMaxCountExceeded d \<longleftrightarrow> numRestarts d \<ge> MAX_RESTARTS"

definition msSinceFirstIncrement :: "int \<Rightarrow> RestartLoopDetector \<Rightarrow> int" where
  "msSinceFirstIncrement now d = now - firstRestartedAt d"

text \<open>The handler of the exit event, with the payload of the event that it emits.\<close>

definition onRunnerExit :: "int \<Rightarrow> RestartLoopDetector \<Rightarrow> (nat \<times> int) option \<times> RestartLoopDetector" where
  "onRunnerExit now d =
     (let d = increment now d
      in (if isMaxCountExceeded d then Some (numRestarts d, msSinceFirstIncrement now d) else None, d))"

primrec runExits :: "int list \<Rightarrow> RestartLoopDetector \<Rightarrow> (nat \<times> int) option list \<times> RestartLoopDetector" where
  "runExits [] d = ([], d)"
| "runExits (t # ts) d = (let (e, d) = onRunnerExit t d; (es, d) = runExits ts d in (e # es, d))"


section \<open>SlidingWindowSignal\<close>

datatype 'e Waiter = Listening int | Answered "'e option"

record 'e SlidingWindow =
  lastSignal :: "'e option"
  lastSignalTime :: int
  windowSizeInMs :: int
  waiters :: "'e Waiter list"

definition newSlidingWindow :: "int option \<Rightarrow> 'e SlidingWindow" where
  "newSlidingWindow opt =
     \<lparr>lastSignal = None, lastSignalTime = 0,
      windowSizeInMs = (case opt of None \<Rightarrow> 500 | Some n \<Rightarrow> n), waiters = []\<rparr>"

text \<open>
  The listeners of the event: the one of the constructor and those of the waiting calls, which answer
  once.
\<close>

definition emitSignal :: "'e \<Rightarrow> int \<Rightarrow> 'e SlidingWindow \<Rightarrow> 'e SlidingWindow" where
  "emitSignal e now s =
     s\<lparr>lastSignal := Some e, lastSignalTime := now,
       waiters := map (\<lambda>w. case w of Listening d \<Rightarrow> Answered (Some e) | Answered a \<Rightarrow> w) (waiters s)\<rparr>"

text \<open>
  \<open>setTimeout\<close> without a delay waits one millisecond. The promise of a call is its position among the
  waiters.
\<close>

definition TIMEOUT_DEFAULT :: int where "TIMEOUT_DEFAULT = 1"

definition getSignal :: "int \<Rightarrow> 'e SlidingWindow \<Rightarrow> nat \<times> 'e SlidingWindow" where
  "getSignal now s =
     (if now - lastSignalTime s \<le> windowSizeInMs s
      then (length (waiters s), s\<lparr>waiters := waiters s @ [Answered (lastSignal s)]\<rparr>)
      else (length (waiters s), s\<lparr>waiters := waiters s @ [Listening (now + TIMEOUT_DEFAULT)]\<rparr>))"

text \<open>The timers that are due at a time.\<close>

definition timersDue :: "int \<Rightarrow> 'e SlidingWindow \<Rightarrow> 'e SlidingWindow" where
  "timersDue now s =
     s\<lparr>waiters := map (\<lambda>w. case w of Listening d \<Rightarrow> if d \<le> now then Answered None else w | Answered a \<Rightarrow> w)
       (waiters s)\<rparr>"


section \<open>The process and the disconnect analyzers\<close>

datatype ExitReason = Oom | UnknownReason

datatype DisconnectError = OomError | FailedHeartbeatError | DisconnectedError

datatype DisconnectReason = FailedHeartbeatCheck | ShuttingDown | UnknownDisconnect

definition defaultDisconnectError :: "DisconnectReason \<Rightarrow> int option \<Rightarrow> DisconnectError" where
  "defaultDisconnectError reason heartbeatInterval =
     (if reason = FailedHeartbeatCheck \<and> heartbeatInterval \<noteq> None \<and> heartbeatInterval \<noteq> Some 0
      then FailedHeartbeatError else DisconnectedError)"

text \<open>What the awaited signal gives, in internal and in external mode.\<close>

definition exitReasonOf :: "bool \<Rightarrow> ExitReason option \<Rightarrow> ExitReason" where
  "exitReasonOf external signal =
     (if external then UnknownReason else (case signal of None \<Rightarrow> UnknownReason | Some r \<Rightarrow> r))"

definition toDisconnectError ::
  "bool \<Rightarrow> ExitReason option \<Rightarrow> DisconnectReason \<Rightarrow> int option \<Rightarrow> DisconnectError" where
  "toDisconnectError external signal reason heartbeatInterval =
     (if exitReasonOf external signal = Oom then OomError
      else defaultDisconnectError reason heartbeatInterval)"

text \<open>
  \<open>start\<close> awaits a grant token between its assertion and the spawning of the process, and is called
  again from a later turn of the event loop when the process has exited.
\<close>

record RunnerProcess =
  rpRunning :: bool
  rpShuttingDown :: bool
  rpOom :: bool
  rpScheduled :: nat
  rpStarting :: nat
  rpSpawned :: nat
  rpKills :: nat
  rpExits :: "ExitReason list"

definition newProcess :: "bool \<Rightarrow> RunnerProcess res" where
  "newProcess external =
     (if external then Inl AssertionError
      else Inr \<lparr>rpRunning = False, rpShuttingDown = False, rpOom = False, rpScheduled = 0,
        rpStarting = 0, rpSpawned = 0, rpKills = 0, rpExits = []\<rparr>)"

definition startProcess :: "RunnerProcess \<Rightarrow> RunnerProcess res" where
  "startProcess p = (if rpRunning p then Inl AssertionError else Inr (p\<lparr>rpStarting := Suc (rpStarting p)\<rparr>))"

definition scheduledStart :: "RunnerProcess \<Rightarrow> RunnerProcess res" where
  "scheduledStart p = (if rpScheduled p = 0 then Inr p else startProcess (p\<lparr>rpScheduled := rpScheduled p - 1\<rparr>))"

definition tokenCreated :: "RunnerProcess \<Rightarrow> RunnerProcess" where
  "tokenCreated p =
     (if rpStarting p = 0 then p
      else p\<lparr>rpStarting := rpStarting p - 1, rpRunning := True, rpSpawned := Suc (rpSpawned p), rpOom := False\<rparr>)"

definition onStderr :: "string \<Rightarrow> RunnerProcess \<Rightarrow> RunnerProcess" where
  "onStderr chunk p =
     (if rpRunning p \<and> includesString chunk ''JavaScript heap out of memory'' then p\<lparr>rpOom := True\<rparr> else p)"

text \<open>\<open>stop\<close> up to its \<open>await\<close>, and the part behind it, once the process has exited.\<close>

definition stopProcess :: "RunnerProcess \<Rightarrow> RunnerProcess" where
  "stopProcess p = (if \<not> rpRunning p then p else p\<lparr>rpShuttingDown := True, rpKills := Suc (rpKills p)\<rparr>)"

definition stopProcessDone :: "RunnerProcess \<Rightarrow> RunnerProcess" where
  "stopProcessDone p = p\<lparr>rpShuttingDown := False\<rparr>"

definition forceRestart :: "RunnerProcess \<Rightarrow> RunnerProcess" where
  "forceRestart p = (if \<not> rpRunning p then p else p\<lparr>rpKills := Suc (rpKills p)\<rparr>)"

definition onProcessExit :: "RunnerProcess \<Rightarrow> RunnerProcess" where
  "onProcessExit p =
     p\<lparr>rpRunning := False, rpExits := rpExits p @ [if rpOom p then Oom else UnknownReason],
       rpScheduled := (if rpShuttingDown p then rpScheduled p else Suc (rpScheduled p))\<rparr>"

end
