(* ===== verification/Monitoring_Properties.thy ===== *)
theory Monitoring_Properties
  imports Runner_Monitoring
begin

text \<open>
  When restart loops are detected, what the sliding window answers, and whether a stopped runner process
  stays stopped.
\<close>


section \<open>Restart loops\<close>

lemma onRunnerExit_state: "snd (onRunnerExit t d) = increment t d"
  by (simp add: onRunnerExit_def Let_def)

lemma runExits_step [simp]:
  "fst (runExits (t # ts) d) = fst (onRunnerExit t d) # fst (runExits ts (increment t d))"
  "snd (runExits (t # ts) d) = snd (runExits ts (increment t d))"
  unfolding onRunnerExit_state [symmetric] by (simp_all add: Let_def case_prod_beta)

declare runExits.simps(2) [simp del]

lemma runExits_append:
  "fst (runExits (ts @ us) d) = fst (runExits ts d) @ fst (runExits us (snd (runExits ts d)))"
  "snd (runExits (ts @ us) d) = snd (runExits us (snd (runExits ts d)))"
  by (induction ts arbitrary: d) simp_all

lemma runExits_length: "length (fst (runExits ts d)) = length ts"
  by (induction ts arbitrary: d) simp_all

lemma onRunnerExit_event: "fst (onRunnerExit t d) \<noteq> None \<longleftrightarrow> numRestarts (increment t d) \<ge> 5"
  by (simp add: onRunnerExit_def Let_def isMaxCountExceeded_def MAX_RESTARTS_def)

text \<open>The restarts that are counted all lie in the window that began with the last reset.\<close>

definition counted :: "int list \<Rightarrow> RestartLoopDetector \<Rightarrow> bool" where
  "counted ts d \<longleftrightarrow> numRestarts d \<le> length ts \<and>
     (\<forall>t \<in> set (drop (length ts - numRestarts d) ts). firstRestartedAt d \<le> t \<and> t \<le> firstRestartedAt d + 2000)"

lemma countedD:
  "counted ts d \<Longrightarrow> t \<in> set (drop (length ts - numRestarts d) ts) \<Longrightarrow>
   firstRestartedAt d \<le> t \<and> t \<le> firstRestartedAt d + 2000"
  by (simp add: counted_def)

lemma counted_increment:
  assumes "counted ts d" and "firstRestartedAt d \<le> t"
  shows "counted (ts @ [t]) (increment t d)"
proof (cases "t > firstRestartedAt d + RESTARTS_WINDOW")
  case True
  then show ?thesis by (simp add: counted_def increment_def resetDetector_def)
next
  case False
  have "Suc (length ts) - Suc (numRestarts d) = length ts - numRestarts d" by simp
  with False assms show ?thesis
    by (auto simp: counted_def increment_def RESTARTS_WINDOW_def)
qed

lemma counted_run:
  assumes "\<forall>t \<in> set ts. t0 \<le> t" and "sorted ts"
  shows "counted ts (snd (runExits ts (newDetector t0))) \<and>
    (ts \<noteq> [] \<longrightarrow> firstRestartedAt (snd (runExits ts (newDetector t0))) \<le> last ts) \<and>
    (ts = [] \<longrightarrow> firstRestartedAt (snd (runExits ts (newDetector t0))) = t0)"
  using assms
proof (induction ts rule: rev_induct)
  case (snoc t ts)
  let ?d = "snd (runExits ts (newDetector t0))"
  have ih: "counted ts ?d" "ts \<noteq> [] \<longrightarrow> firstRestartedAt ?d \<le> last ts" "ts = [] \<longrightarrow> firstRestartedAt ?d = t0"
    using snoc by (simp_all add: sorted_append)
  have d': "snd (runExits (ts @ [t]) (newDetector t0)) = increment t ?d"
    by (simp add: runExits_append)
  have "firstRestartedAt ?d \<le> t"
  proof (cases "ts = []")
    case True
    with ih(3) snoc.prems(1) show ?thesis by simp
  next
    case False
    with snoc.prems(2) have "last ts \<le> t" by (simp add: sorted_append)
    with ih(2) False show ?thesis by simp
  qed
  then have "counted (ts @ [t]) (increment t ?d)" "firstRestartedAt (increment t ?d) \<le> t"
    using counted_increment [OF ih(1)] by (simp, simp add: increment_def resetDetector_def Let_def)
  then show ?case unfolding d' by simp
qed (simp add: counted_def newDetector_def)

text \<open>Without a reset five counted restarts suffice; there is at most one reset within a window.\<close>

lemma detected_without_reset:
  "\<forall>t \<in> set ts. t \<le> a + 2000 \<Longrightarrow> a \<le> firstRestartedAt d \<Longrightarrow> 5 \<le> numRestarts d + length ts \<Longrightarrow> ts \<noteq> [] \<Longrightarrow>
   \<exists>e \<in> set (fst (runExits ts d)). e \<noteq> None"
proof (induction ts arbitrary: d)
  case (Cons t ts)
  have inc: "increment t d = d\<lparr>numRestarts := Suc (numRestarts d)\<rparr>"
    using Cons.prems(1,2) by (simp add: increment_def RESTARTS_WINDOW_def)
  show ?case
  proof (cases "5 \<le> Suc (numRestarts d)")
    case True
    then have "fst (onRunnerExit t d) \<noteq> None" unfolding onRunnerExit_event by (simp add: inc)
    then show ?thesis by simp
  next
    case False
    with Cons.prems(3) have "ts \<noteq> []" by auto
    with Cons.prems inc have "\<exists>e \<in> set (fst (runExits ts (increment t d))). e \<noteq> None"
      by (intro Cons.IH) auto
    then show ?thesis by simp
  qed
qed simp

lemma detected_in_window:
  "\<forall>t \<in> set ts. a \<le> t \<and> t \<le> a + 2000 \<Longrightarrow> 9 \<le> min (numRestarts d) 4 + length ts \<Longrightarrow>
   \<exists>e \<in> set (fst (runExits ts d)). e \<noteq> None"
proof (induction ts arbitrary: d)
  case (Cons t ts)
  show ?case
  proof (cases "5 \<le> numRestarts (increment t d)")
    case True
    then have "fst (onRunnerExit t d) \<noteq> None" unfolding onRunnerExit_event .
    then show ?thesis by simp
  next
    case False
    have "\<exists>e \<in> set (fst (runExits ts (increment t d))). e \<noteq> None"
    proof (cases "t > firstRestartedAt d + RESTARTS_WINDOW")
      case True
      then have "firstRestartedAt (increment t d) = t" "numRestarts (increment t d) = 1"
        by (simp_all add: increment_def resetDetector_def)
      moreover have "4 \<le> length ts" using Cons.prems(2) by auto
      ultimately show ?thesis using Cons.prems(1) by (intro detected_without_reset [of _ a]) auto
    next
      case no: False
      then have n: "numRestarts (increment t d) = Suc (numRestarts d)" by (simp add: increment_def)
      with False have "numRestarts d < 4" by simp
      with n Cons.prems show ?thesis by (intro Cons.IH) auto
    qed
    then show ?thesis by simp
  qed
qed simp

text \<open>
  A restart loop is only reported when the last five exits lie within two seconds, and it is
  reported at the latest when nine exits lie within two seconds, whatever happened before.
\<close>

theorem restart_loop_detection:
  assumes "sorted (ts @ us)" and "\<forall>t \<in> set (ts @ us). t0 \<le> t"
  shows "(us = [t] \<longrightarrow> fst (onRunnerExit t (snd (runExits ts (newDetector t0)))) \<noteq> None \<longrightarrow>
      4 \<le> length ts \<and> t - (ts @ [t]) ! (length ts - 4) \<le> 2000) \<and>
    (length us = 9 \<longrightarrow> last us - hd us \<le> 2000 \<longrightarrow>
      (\<exists>e \<in> set (drop (length ts) (fst (runExits (ts @ us) (newDetector t0)))). e \<noteq> None))"
proof (intro conjI impI)
  let ?d = "snd (runExits ts (newDetector t0))"
  assume us: "us = [t]" and ev: "fst (onRunnerExit t ?d) \<noteq> None"
  have "snd (runExits (ts @ [t]) (newDetector t0)) = increment t ?d"
    by (simp add: runExits_append)
  then have cnt: "counted (ts @ [t]) (increment t ?d)"
    using counted_run [of "ts @ [t]" t0] assms us by metis
  have n: "5 \<le> numRestarts (increment t ?d)" using ev unfolding onRunnerExit_event .
  with cnt show len: "4 \<le> length ts" by (simp add: counted_def)
  let ?k = "length (ts @ [t]) - numRestarts (increment t ?d)"
  have fifth: "(ts @ [t]) ! (length ts - 4) \<in> set (drop ?k (ts @ [t]))"
  proof -
    let ?j = "length ts - 4"
    have "?k \<le> ?j" using n len by simp
    then have "?k + (?j - ?k) = ?j" by simp
    then have "drop ?k (ts @ [t]) ! (?j - ?k) = (ts @ [t]) ! ?j"
      using nth_drop [of ?k "ts @ [t]" "?j - ?k"] by simp
    moreover have "?j - ?k < length (drop ?k (ts @ [t]))" using \<open>?k \<le> ?j\<close> by simp
    ultimately show ?thesis by (metis nth_mem)
  qed
  have latest: "t \<in> set (drop ?k (ts @ [t]))"
  proof -
    have "?k < length (ts @ [t])" using n by simp
    then have "drop ?k (ts @ [t]) \<noteq> []" by simp
    then have "last (drop ?k (ts @ [t])) \<in> set (drop ?k (ts @ [t]))" by (rule last_in_set)
    then show ?thesis using \<open>?k < length (ts @ [t])\<close> by (simp add: last_drop)
  qed
  from countedD [OF cnt fifth] countedD [OF cnt latest]
  show "t - (ts @ [t]) ! (length ts - 4) \<le> 2000" by linarith
next
  let ?d = "snd (runExits ts (newDetector t0))"
  assume us: "length us = 9" "last us - hd us \<le> 2000"
  then have ne: "us \<noteq> []" by auto
  have "sorted us" using assms(1) by (simp add: sorted_append)
  have "hd us \<le> u \<and> u \<le> last us" if u: "u \<in> set us" for u
  proof -
    obtain k where k: "k < length us" "u = us ! k" using u in_set_conv_nth by metis
    have "us ! 0 \<le> us ! k" "us ! k \<le> us ! (length us - 1)"
      using sorted_nth_mono [OF \<open>sorted us\<close>] k(1) by simp_all
    then show ?thesis using k(2) ne by (simp add: hd_conv_nth last_conv_nth)
  qed
  then have "\<forall>u \<in> set us. hd us \<le> u \<and> u \<le> hd us + 2000" using us(2) by fastforce
  then have "\<exists>e \<in> set (fst (runExits us ?d)). e \<noteq> None"
    by (rule detected_in_window) (simp add: us(1))
  moreover have "drop (length ts) (fst (runExits (ts @ us) (newDetector t0))) = fst (runExits us ?d)"
    by (simp add: runExits_append runExits_length)
  ultimately show "\<exists>e \<in> set (drop (length ts) (fst (runExits (ts @ us) (newDetector t0)))). e \<noteq> None"
    by simp
qed


theorem restart_loop_detection_witness:
  "fst (onRunnerExit 900 (snd (runExits [100, 300, 500, 700] (newDetector 0)))) = Some (5, 900) \<and>
   900 - ([100, 300, 500, 700] @ [900]) ! (length [100, 300, 500, 700 :: int] - 4) \<le> (2000 :: int)"
proof -
  have e: "fst (onRunnerExit 900 (snd (runExits [100, 300, 500, 700] (newDetector 0)))) = Some (5, 900)" by code_simp
  from restart_loop_detection [of "[100, 300, 500, 700]" "[900]" 0 900] e show ?thesis by simp
qed

text \<open>
  The window of the detector starts with the start of n8n or the last reset, not with the first
  restart of a loop: eight restarts within two milliseconds are not detected when the window ends
  between them, although five within two seconds should be.
\<close>

theorem restart_loop_missed:
  "MAX_RESTARTS = 5 \<and> RESTARTS_WINDOW = 2000 \<and>
   fst (runExits [1999, 1999, 2000, 2000, 2001, 2001, 2001, 2001] (newDetector 0)) = replicate 8 None"
  by code_simp


section \<open>The sliding window\<close>

text \<open>
  A caller gets the last event when it is not older than the window. Otherwise it gets the next
  event only when that comes within the one millisecond that a timer without a delay waits, whatever
  the size of the window, and no event else: an out-of-memory exit that is seen two milliseconds after
  the disconnection is not reported as one.
\<close>

theorem sliding_window_answer:
  assumes "0 \<le> delay" and "getSignal now s = (i, s1)"
    and "s2 = emitSignal e (now + delay) (timersDue (now + delay) s1)"
  shows "waiters s2 ! i =
    Answered (if now - lastSignalTime s \<le> windowSizeInMs s then lastSignal s
              else if delay < 1 then Some e else None)"
proof -
  have i: "i = length (waiters s)" using assms(2) by (auto simp: getSignal_def split: if_splits)
  show ?thesis
  proof (cases "now - lastSignalTime s \<le> windowSizeInMs s")
    case True
    then have "waiters s1 = waiters s @ [Answered (lastSignal s)]" using assms(2) by (auto simp: getSignal_def)
    then show ?thesis using True by (simp add: assms(3) emitSignal_def timersDue_def i nth_append)
  next
    case False
    then have "waiters s1 = waiters s @ [Listening (now + 1)]"
      using assms(2) by (auto simp: getSignal_def TIMEOUT_DEFAULT_def)
    then show ?thesis using False by (simp add: assms(3) emitSignal_def timersDue_def i nth_append)
  qed
qed

theorem sliding_window_answer_witness:
  "toDisconnectError False (case waiters (emitSignal Oom 10002 (timersDue 10002 (snd (getSignal 10000 (newSlidingWindow (Some 500)))))) ! 0
     of Answered a \<Rightarrow> a | Listening d \<Rightarrow> None) UnknownDisconnect None = DisconnectedError"
proof -
  let ?s = "newSlidingWindow (Some 500) :: ExitReason SlidingWindow"
  have g: "fst (getSignal 10000 ?s) = 0" "\<not> 10000 - lastSignalTime ?s \<le> windowSizeInMs ?s" by code_simp+
  have "waiters (emitSignal Oom (10000 + 2) (timersDue (10000 + 2) (snd (getSignal 10000 ?s)))) ! 0 = Answered None"
    using sliding_window_answer [of 2 10000 ?s 0 "snd (getSignal 10000 ?s)" _ Oom, OF _ _ refl] g
    by (simp add: prod_eq_iff)
  then show ?thesis by (simp add: toDisconnectError_def exitReasonOf_def defaultDisconnectError_def)
qed


section \<open>Stopping the process\<close>

text \<open>
  A running process that is stopped is not started again when it exits. A process that has just
  exited and is about to be started again cannot be stopped: stop does nothing, and the process that
  is then started keeps running.
\<close>

theorem stop_during_restart_ignored:
  assumes "rpRunning p" and "\<not> rpShuttingDown p"
  shows "rpScheduled (stopProcessDone (onProcessExit (stopProcess p))) = rpScheduled p \<and>
    stopProcess (onProcessExit p) = onProcessExit p \<and>
    (case scheduledStart (stopProcess (onProcessExit p)) of
       Inl e \<Rightarrow> False
     | Inr q \<Rightarrow> rpRunning (tokenCreated q) \<and> \<not> rpShuttingDown (tokenCreated q))"
  using assms
  by (simp add: stopProcessDone_def onProcessExit_def stopProcess_def scheduledStart_def startProcess_def
      tokenCreated_def)

theorem stop_during_restart_ignored_witness:
  "case res_bind (newProcess False) (\<lambda>p. Inr (tokenCreated (p\<lparr>rpStarting := 1\<rparr>))) of
     Inl e \<Rightarrow> False | Inr p \<Rightarrow> stopProcess (onProcessExit p) = onProcessExit p"
  using stop_during_restart_ignored by (simp add: newProcess_def tokenCreated_def)

end
