(* ===== verification/Leader_Election.thy ===== *)
theory Leader_Election
  imports N8n_Prelude
begin

text \<open>
  The class MultiMainSetup of packages/cli/src/scaling/multi-main-setup.ee.ts, by which several main
  processes agree on a leader through a key in Redis, with the methods of Publisher
  (scaling/pubsub/publisher.service.ts) that it uses and the role in InstanceSettings.

  Every call of Redis is awaited, so a method is split at its calls: a pending call is an entry of
  \<open>calls\<close>; Redis performs it at once and for itself (\<open>perform\<close>), and the method goes on later with the
  reply (\<open>continue\<close>). Several calls of one instance may be pending, as the interval does not wait for
  the check before. The Redis commands have their documented meaning: SETNX sets a key without expiry
  if it does not exist, EXPIRE gives an existing key a time to live, DEL deletes.
\<close>

datatype InstanceRole = Unset | Leader | Follower

datatype LeaderEvent = LeaderStepdown | LeaderTakeover

text \<open>What an instance waits for, and the replies that it goes on with.\<close>

datatype Call =
    GetLeader
  | GotLeader "nat option"
  | SetLeader
  | LeaderSet bool
  | RenewKey
  | ExpireNewKey
  | KeyExpiring
  | ClearKey

record Cluster =
  leaderKey :: "(nat \<times> bool) option"
  roles :: "nat \<Rightarrow> InstanceRole"
  running :: "nat set"
  pendingCalls :: "(nat \<times> Call) list"
  emitted :: "(nat \<times> LeaderEvent) list"

definition newCluster :: Cluster where
  "newCluster = \<lparr>leaderKey = None, roles = (\<lambda>i. Unset), running = {}, pendingCalls = [], emitted = []\<rparr>"

definition holder :: "Cluster \<Rightarrow> nat option" where
  "holder s = map_option fst (leaderKey s)"

definition mark :: "nat \<Rightarrow> InstanceRole \<Rightarrow> Cluster \<Rightarrow> Cluster" where
  "mark i role s = s\<lparr>roles := (roles s)(i := role)\<rparr>"

definition emit :: "nat \<Rightarrow> LeaderEvent \<Rightarrow> Cluster \<Rightarrow> Cluster" where
  "emit i e s = s\<lparr>emitted := emitted s @ [(i, e)]\<rparr>"

definition call :: "nat \<Rightarrow> Call \<Rightarrow> Cluster \<Rightarrow> Cluster" where
  "call i c s = s\<lparr>pendingCalls := pendingCalls s @ [(i, c)]\<rparr>"


section \<open>Redis\<close>

text \<open>The call at a position is performed; its entry becomes the reply, or is gone when none is used.\<close>

definition perform :: "nat \<Rightarrow> Cluster \<Rightarrow> Cluster" where
  "perform n s =
     (if n \<ge> length (pendingCalls s) then s
      else (let (i, c) = pendingCalls s ! n;
                reply = (\<lambda>c s. s\<lparr>pendingCalls := (pendingCalls s)[n := (i, c)]\<rparr>);
                noReply = (\<lambda>s. s\<lparr>pendingCalls := take n (pendingCalls s) @ drop (Suc n) (pendingCalls s)\<rparr>);
                expiring = (\<lambda>s. s\<lparr>leaderKey := map_option (\<lambda>(j, ttl). (j, True)) (leaderKey s)\<rparr>)
            in case c of
                 GetLeader \<Rightarrow> reply (GotLeader (holder s)) s
               | SetLeader \<Rightarrow>
                   (if leaderKey s = None then reply (LeaderSet True) (s\<lparr>leaderKey := Some (i, False)\<rparr>)
                    else reply (LeaderSet False) s)
               | RenewKey \<Rightarrow> noReply (expiring s)
               | ExpireNewKey \<Rightarrow> reply KeyExpiring (expiring s)
               | ClearKey \<Rightarrow> noReply (s\<lparr>leaderKey := None\<rparr>)
               | _ \<Rightarrow> s))"

text \<open>The time to live of the key is over.\<close>

definition expireKey :: "Cluster \<Rightarrow> Cluster" where
  "expireKey s = (case leaderKey s of Some (i, True) \<Rightarrow> s\<lparr>leaderKey := None\<rparr> | _ \<Rightarrow> s)"


section \<open>The methods\<close>

definition tryBecomeLeader :: "nat \<Rightarrow> Cluster \<Rightarrow> Cluster" where
  "tryBecomeLeader i s = call i SetLeader s"

definition init :: "nat \<Rightarrow> Cluster \<Rightarrow> Cluster" where
  "init i s = (if i \<in> running s then s else tryBecomeLeader i (s\<lparr>running := insert i (running s)\<rparr>))"

text \<open>The interval starts a check; it does not after the shutdown.\<close>

definition checkLeader :: "nat \<Rightarrow> Cluster \<Rightarrow> Cluster" where
  "checkLeader i s = (if i \<in> running s then call i GetLeader s else s)"

definition shutdownSetup :: "nat \<Rightarrow> Cluster \<Rightarrow> Cluster" where
  "shutdownSetup i s =
     (if i \<notin> running s then s
      else (let s = s\<lparr>running := running s - {i}\<rparr>
            in if roles s i = Leader then call i ClearKey s else s))"

text \<open>A method goes on with the reply to its call.\<close>

definition continue :: "nat \<Rightarrow> Cluster \<Rightarrow> Cluster" where
  "continue n s =
     (if n \<ge> length (pendingCalls s) then s
      else (let (i, c) = pendingCalls s ! n;
                rest = s\<lparr>pendingCalls := take n (pendingCalls s) @ drop (Suc n) (pendingCalls s)\<rparr>
            in case c of
                 GotLeader leaderId \<Rightarrow>
                   (if leaderId = Some i then call i RenewKey rest
                    else if leaderId \<noteq> None then
                      (if roles s i = Leader then emit i LeaderStepdown (mark i Follower rest) else rest)
                    else tryBecomeLeader i (emit i LeaderStepdown (mark i Follower rest)))
               | LeaderSet True \<Rightarrow> call i ExpireNewKey (mark i Leader rest)
               | LeaderSet False \<Rightarrow> mark i Follower rest
               | KeyExpiring \<Rightarrow> emit i LeaderTakeover rest
               | _ \<Rightarrow> s))"

end
