(* ===== verification/Wait_Tracker.thy ===== *)
theory Wait_Tracker
  imports Leader_Election
begin

text \<open>
  The class WaitTracker of packages/cli/src/wait-tracker.ts, which starts executions again when the
  time that they wait for has come, and its subscription to the leader events of MultiMainSetup.

  Timers and intervals are numbered. What the database answers is an argument of the operation that
  goes on with it; an execution that is handed to WorkflowRunner is recorded in \<open>resumed\<close>.
\<close>

text \<open>What is found for an execution that is to be started: errors, or its parent execution if any.\<close>

datatype Fetched = NotFound | Finished | NotSaved | Found "string option"

record WaitTracker =
  waitingExecutions :: "(string, nat) js_map"
  activeTimers :: "(nat, string \<times> int) js_map"
  mainTimer :: "nat option"
  intervals :: "nat list"
  nextTimer :: nat
  queries :: nat
  fetching :: "string list"
  resumed :: "string list"
  childrenOf :: "(string \<times> string) list"
  trackerErrors :: "js_error list"

definition newTracker :: WaitTracker where
  "newTracker = \<lparr>waitingExecutions = [], activeTimers = [], mainTimer = None, intervals = [], nextTimer = 0,
     queries = 0, fetching = [], resumed = [], childrenOf = [], trackerErrors = []\<rparr>"

definition hasWaiting :: "string \<Rightarrow> WaitTracker \<Rightarrow> bool" where
  "hasWaiting i w \<longleftrightarrow> map_get (waitingExecutions w) i \<noteq> None"

text \<open>\<open>getWaitingExecutions\<close> up to the query, and from its rows on.\<close>

definition getWaitingExecutions :: "WaitTracker \<Rightarrow> WaitTracker" where
  "getWaitingExecutions w = w\<lparr>queries := Suc (queries w)\<rparr>"

definition timeoutDelay :: "int \<Rightarrow> int" where
  "timeoutDelay ms = (if ms < 1 \<or> ms > 2147483647 then 1 else ms)"

definition addWaitingTimer :: "int \<Rightarrow> string \<times> int \<Rightarrow> WaitTracker \<Rightarrow> WaitTracker" where
  "addWaitingTimer now = (\<lambda>(executionId, waitTill) w.
     if map_get (waitingExecutions w) executionId = None
     then w\<lparr>waitingExecutions := map_put executionId (nextTimer w) (waitingExecutions w),
            activeTimers := map_put (nextTimer w) (executionId, now + timeoutDelay (waitTill - now)) (activeTimers w),
            nextTimer := Suc (nextTimer w)\<rparr>
     else w)"

definition rowsArrived :: "int \<Rightarrow> (string \<times> int) list \<Rightarrow> WaitTracker \<Rightarrow> WaitTracker" where
  "rowsArrived now rows w =
     (if queries w = 0 then w else fold (addWaitingTimer now) rows (w\<lparr>queries := queries w - 1\<rparr>))"

definition startTracking :: "WaitTracker \<Rightarrow> WaitTracker" where
  "startTracking w =
     getWaitingExecutions
       (w\<lparr>mainTimer := Some (nextTimer w), intervals := intervals w @ [nextTimer w], nextTimer := Suc (nextTimer w)\<rparr>)"

definition intervalTick :: "nat \<Rightarrow> WaitTracker \<Rightarrow> WaitTracker" where
  "intervalTick t w = (if t \<in> set (intervals w) then getWaitingExecutions w else w)"

definition stopWaiting :: "string \<Rightarrow> WaitTracker \<Rightarrow> WaitTracker" where
  "stopWaiting executionId w =
     (case map_get (waitingExecutions w) executionId of
        None \<Rightarrow> w
      | Some t \<Rightarrow> w\<lparr>activeTimers := map_del t (activeTimers w),
                    waitingExecutions := map_del executionId (waitingExecutions w)\<rparr>)"

text \<open>\<open>startExecution\<close> up to its query, as the callback of a timer and for the parent of an execution.\<close>

definition startExecution :: "string \<Rightarrow> WaitTracker \<Rightarrow> WaitTracker" where
  "startExecution executionId w =
     w\<lparr>waitingExecutions := map_del executionId (waitingExecutions w), fetching := fetching w @ [executionId]\<rparr>"

definition waitTimerFires :: "nat \<Rightarrow> WaitTracker \<Rightarrow> WaitTracker" where
  "waitTimerFires t w =
     (case map_get (activeTimers w) t of
        None \<Rightarrow> w
      | Some (executionId, due) \<Rightarrow> startExecution executionId (w\<lparr>activeTimers := map_del t (activeTimers w)\<rparr>))"

definition executionFetched :: "string \<Rightarrow> Fetched \<Rightarrow> WaitTracker \<Rightarrow> WaitTracker" where
  "executionFetched executionId found w =
     (if executionId \<notin> set (fetching w) then w
      else (let w = w\<lparr>fetching := remove1 executionId (fetching w)\<rparr>;
                fails = (\<lambda>msg. w\<lparr>trackerErrors := trackerErrors w @ [ApplicationError msg]\<rparr>)
            in case found of
                 NotFound \<Rightarrow> fails ''Execution does not exist.''
               | Finished \<Rightarrow> fails ''The execution did succeed and can so not be started again.''
               | NotSaved \<Rightarrow> fails ''Only saved workflows can be resumed.''
               | Found parent \<Rightarrow>
                   (let w = w\<lparr>resumed := resumed w @ [executionId]\<rparr>
                    in case parent of None \<Rightarrow> w
                       | Some p \<Rightarrow> w\<lparr>childrenOf := childrenOf w @ [(executionId, p)]\<rparr>)))"

text \<open>An execution with a parent completes: its parent is started.\<close>

definition childCompleted :: "string \<times> string \<Rightarrow> WaitTracker \<Rightarrow> WaitTracker" where
  "childCompleted cp w =
     (if cp \<in> set (childrenOf w) then startExecution (snd cp) (w\<lparr>childrenOf := remove1 cp (childrenOf w)\<rparr>) else w)"

text \<open>The timers are cleared; the entries stay.\<close>

definition stopTracking :: "WaitTracker \<Rightarrow> WaitTracker" where
  "stopTracking w =
     w\<lparr>intervals := (case mainTimer w of None \<Rightarrow> intervals w | Some t \<Rightarrow> set_delete t (intervals w)),
       activeTimers := filter (\<lambda>(t, x). t \<notin> set (map_values (waitingExecutions w))) (activeTimers w)\<rparr>"

definition initTracker :: "bool \<Rightarrow> WaitTracker \<Rightarrow> WaitTracker" where
  "initTracker isLeader w = (if isLeader then startTracking w else w)"

definition onLeaderEvent :: "LeaderEvent \<Rightarrow> WaitTracker \<Rightarrow> WaitTracker" where
  "onLeaderEvent e = (case e of LeaderTakeover \<Rightarrow> startTracking | LeaderStepdown \<Rightarrow> stopTracking)"

end
