(* ===== verification/Wait_Properties.thy ===== *)
theory Wait_Properties
  imports Wait_Tracker
begin

text \<open>
  Whether waiting executions are started: exactly one timer for each while they are tracked, none after
  the leadership was lost and regained, and two starts of a parent that also waits.
\<close>


section \<open>Steps\<close>

inductive wt_step :: "WaitTracker \<Rightarrow> WaitTracker \<Rightarrow> bool" where
  wt_start: "wt_step w (startTracking w)"
| wt_rows: "wt_step w (rowsArrived now rows w)"
| wt_tick: "wt_step w (intervalTick t w)"
| wt_stop: "wt_step w (stopWaiting i w)"
| wt_fires: "wt_step w (waitTimerFires t w)"
| wt_fetched: "wt_step w (executionFetched i found w)"

inductive wt_reachable :: "WaitTracker \<Rightarrow> bool" where
  wt_new: "wt_reachable newTracker"
| wt_next: "wt_reachable w \<Longrightarrow> wt_step w w' \<Longrightarrow> wt_reachable w'"


section \<open>One timer for each execution\<close>

definition timed :: "WaitTracker \<Rightarrow> bool" where
  "timed w \<longleftrightarrow>
     (\<forall>i t. map_get (waitingExecutions w) i = Some t \<longleftrightarrow> (\<exists>d. map_get (activeTimers w) t = Some (i, d))) \<and>
     (\<forall>t x. map_get (activeTimers w) t = Some x \<longrightarrow> t < nextTimer w)"

lemma timedD:
  assumes "timed w"
  shows "map_get (waitingExecutions w) i = Some t \<longleftrightarrow> (\<exists>d. map_get (activeTimers w) t = Some (i, d))"
    "map_get (activeTimers w) t = Some x \<Longrightarrow> t < nextTimer w"
  using assms unfolding timed_def by blast+

lemma timedI:
  assumes "\<And>i t. map_get (waitingExecutions w) i = Some t \<longleftrightarrow> (\<exists>d. map_get (activeTimers w) t = Some (i, d))"
    and "\<And>t x. map_get (activeTimers w) t = Some x \<Longrightarrow> t < nextTimer w"
  shows "timed w"
  using assms unfolding timed_def by blast

lemma timed_same:
  "timed w \<Longrightarrow> waitingExecutions w' = waitingExecutions w \<Longrightarrow> activeTimers w' = activeTimers w \<Longrightarrow>
   nextTimer w \<le> nextTimer w' \<Longrightarrow> timed w'"
  by (rule timedI) (simp add: timedD(1), metis timedD(2) order_less_le_trans)

lemma timed_add:
  assumes "timed w"
  shows "timed (addWaitingTimer now p w)"
proof -
  obtain i till where p: "p = (i, till)" by (cases p)
  let ?w = "addWaitingTimer now p w" and ?n = "nextTimer w"
  show ?thesis
  proof (cases "map_get (waitingExecutions w) i")
    case None
    obtain e where eq: "map_get (activeTimers ?w) t = (if t = ?n then Some (i, e) else map_get (activeTimers w) t)"
      "map_get (waitingExecutions ?w) j = (if j = i then Some ?n else map_get (waitingExecutions w) j)"
      "nextTimer ?w = Suc ?n" for t j
      using None by (simp add: addWaitingTimer_def p)
    show ?thesis
    proof (rule timedI)
      fix j t
      show "map_get (waitingExecutions ?w) j = Some t \<longleftrightarrow> (\<exists>d. map_get (activeTimers ?w) t = Some (j, d))"
      proof (cases "t = ?n")
        case True
        then have "map_get (waitingExecutions w) j \<noteq> Some t" for j
          using timedD [OF assms] by (metis less_irrefl)
        then show ?thesis using True by (auto simp: eq)
      next
        case False
        have "\<not> (\<exists>d. map_get (activeTimers w) t = Some (i, d))" using timedD(1) [OF assms, of i t] None by simp
        then show ?thesis using False timedD(1) [OF assms, of j t] by (auto simp: eq)
      qed
    next
      fix t x
      show "map_get (activeTimers ?w) t = Some x \<Longrightarrow> t < nextTimer ?w"
        using timedD(2) [OF assms, of t x] by (simp add: eq split: if_splits)
    qed
  qed (simp add: addWaitingTimer_def p assms)
qed

lemma timed_removed:
  assumes "timed w" and "map_get (waitingExecutions w) i = Some t"
    and "waitingExecutions w' = map_del i (waitingExecutions w)" and "activeTimers w' = map_del t (activeTimers w)"
    and "nextTimer w' = nextTimer w"
  shows "timed w'"
proof (rule timedI)
  fix j s
  have eq: "map_get (waitingExecutions w') j = (if j = i then None else map_get (waitingExecutions w) j)"
    "map_get (activeTimers w') s = (if s = t then None else map_get (activeTimers w) s)"
    for j s by (simp_all add: assms(3,4))
  obtain d where d: "map_get (activeTimers w) t = Some (i, d)" using timedD(1) [OF assms(1)] assms(2) by blast
  show "map_get (waitingExecutions w') j = Some s \<longleftrightarrow> (\<exists>d. map_get (activeTimers w') s = Some (j, d))"
  proof (cases "j = i")
    case True
    have "map_get (activeTimers w) s = Some (i, d) \<Longrightarrow> s = t" for d
      using timedD(1) [OF assms(1), of i s] assms(2) by auto
    then show ?thesis using True by (auto simp: eq)
  next
    case False
    then have "s = t \<Longrightarrow> map_get (waitingExecutions w) j \<noteq> Some s"
      using timedD(1) [OF assms(1), of j t] d by auto
    then show ?thesis using False timedD(1) [OF assms(1), of j s] by (auto simp: eq)
  qed
next
  fix s x
  show "map_get (activeTimers w') s = Some x \<Longrightarrow> s < nextTimer w'"
    using timedD(2) [OF assms(1), of s x] by (simp add: assms(4,5) split: if_splits)
qed

lemma wt_step_timed: "wt_step w w' \<Longrightarrow> timed w \<Longrightarrow> timed w'"
proof (induction rule: wt_step.induct)
  case (wt_rows w now rows)
  have "timed u \<Longrightarrow> timed (fold (addWaitingTimer now) rows u)" for u
    by (induction rows arbitrary: u) (simp_all add: timed_add)
  moreover have "timed (w\<lparr>queries := queries w - 1\<rparr>)" by (rule timed_same [OF wt_rows]) simp_all
  ultimately show ?case using wt_rows by (simp add: rowsArrived_def)
next
  case (wt_stop w i)
  then show ?case
    by (cases "map_get (waitingExecutions w) i") (auto simp: stopWaiting_def intro: timed_removed)
next
  case (wt_fires w t)
  show ?case
  proof (cases "map_get (activeTimers w) t")
    case (Some p)
    then obtain i d where p: "map_get (activeTimers w) t = Some (i, d)" by (cases p) auto
    then have "map_get (waitingExecutions w) i = Some t" using timedD(1) [OF wt_fires] by blast
    then show ?thesis
      using p by (intro timed_removed [OF wt_fires]) (simp_all add: waitTimerFires_def startExecution_def)
  qed (simp add: waitTimerFires_def wt_fires)
next
  case (wt_fetched w i found)
  show ?case
    by (rule timed_same [OF wt_fetched]) (simp_all add: executionFetched_def Let_def split: Fetched.split option.split)
qed (auto simp: startTracking_def getWaitingExecutions_def intervalTick_def intro: timed_same)

lemma wt_reachable_timed: "wt_reachable w \<Longrightarrow> timed w"
proof (induction rule: wt_reachable.induct)
  case wt_new
  show ?case by (rule timedI) (simp_all add: newTracker_def)
qed (rule wt_step_timed)


text \<open>A tracker that found two executions.\<close>

definition tracking :: WaitTracker where
  "tracking = rowsArrived 1000 [(''7'', 1500), (''8'', 61000)] (initTracker True newTracker)"

lemma tracking_reachable: "wt_reachable tracking"
  unfolding tracking_def initTracker_def if_True
  by (rule wt_next [OF wt_next [OF wt_new wt_start] wt_rows])




section \<open>After a change of the leader\<close>

text \<open>Steps that do not concern an execution directly: it is not stopped, and not started as a parent.\<close>

inductive wt_aside :: "string \<Rightarrow> WaitTracker \<Rightarrow> WaitTracker \<Rightarrow> bool" for i where
  wa_event: "wt_aside i w (onLeaderEvent e w)"
| wa_rows: "wt_aside i w (rowsArrived now rows w)"
| wa_tick: "wt_aside i w (intervalTick t w)"
| wa_stop: "j \<noteq> i \<Longrightarrow> wt_aside i w (stopWaiting j w)"
| wa_fires: "wt_aside i w (waitTimerFires t w)"
| wa_fetched: "wt_aside i w (executionFetched j found w)"
| wa_child: "snd cp \<noteq> i \<Longrightarrow> wt_aside i w (childCompleted cp w)"

definition starts :: "string \<Rightarrow> WaitTracker \<Rightarrow> nat" where
  "starts i w = count_list (fetching w) i + count_list (resumed w) i"

definition lost :: "string \<Rightarrow> WaitTracker \<Rightarrow> bool" where
  "lost i w \<longleftrightarrow> hasWaiting i w \<and> (\<forall>t j d. map_get (activeTimers w) t = Some (j, d) \<longrightarrow> j \<noteq> i)"

lemma lostI:
  "hasWaiting i w \<Longrightarrow> (\<And>t d. map_get (activeTimers w) t \<noteq> Some (i, d)) \<Longrightarrow> lost i w"
  by (auto simp: lost_def)

lemma lost_same:
  "lost i w \<Longrightarrow> map_get (waitingExecutions w') i = map_get (waitingExecutions w) i \<Longrightarrow>
   (\<And>t x. map_get (activeTimers w') t = Some x \<Longrightarrow> map_get (activeTimers w) t = Some x) \<Longrightarrow> lost i w'"
  unfolding lost_def hasWaiting_def by metis

lemma lost_add: "lost i w \<Longrightarrow> lost i (addWaitingTimer now p w) \<and> starts i (addWaitingTimer now p w) = starts i w"
  by (cases p) (auto simp: lost_def hasWaiting_def addWaitingTimer_def starts_def split: if_splits)

lemma map_get_filter_key:
  "map_get (filter (\<lambda>(k, v). P k) m) k = (if P k then map_get m k else None)"
  by (induction m) (auto split: if_splits)

lemma count_list_remove1: "x \<in> set xs \<Longrightarrow> count_list xs y = count_list (remove1 x xs) y + (if x = y then 1 else 0)"
  by (induction xs) auto

lemma lost_aside: "wt_aside i w w' \<Longrightarrow> lost i w \<Longrightarrow> lost i w' \<and> starts i w' \<le> starts i w"
proof (induction rule: wt_aside.induct)
  case (wa_event w e)
  show ?case
  proof (cases e)
    case LeaderStepdown
    have "lost i (stopTracking w)"
      by (rule lost_same [OF wa_event]) (auto simp: stopTracking_def map_get_filter_key split: if_splits)
    with LeaderStepdown show ?thesis by (simp add: onLeaderEvent_def starts_def stopTracking_def)
  next
    case LeaderTakeover
    have "lost i (startTracking w)"
      by (rule lost_same [OF wa_event]) (simp_all add: startTracking_def getWaitingExecutions_def)
    with LeaderTakeover show ?thesis
      by (simp add: onLeaderEvent_def starts_def startTracking_def getWaitingExecutions_def)
  qed
next
  case (wa_rows w now rows)
  have fold: "lost i u \<Longrightarrow> lost i (fold (addWaitingTimer now) rows u) \<and>
      starts i (fold (addWaitingTimer now) rows u) = starts i u" for u
    by (induction rows arbitrary: u) (simp_all add: lost_add)
  have "lost i (w\<lparr>queries := queries w - 1\<rparr>)" by (rule lost_same [OF wa_rows]) simp_all
  from fold [OF this] wa_rows show ?case by (simp add: rowsArrived_def starts_def)
next
  case (wa_tick w t)
  then show ?case by (auto simp: intervalTick_def getWaitingExecutions_def lost_def hasWaiting_def starts_def)
next
  case (wa_stop j w)
  have "lost i (stopWaiting j w)"
    by (rule lost_same [OF wa_stop(2)]) (use wa_stop(1) in \<open>auto simp: stopWaiting_def split: option.splits if_splits\<close>)
  then show ?case by (simp add: starts_def stopWaiting_def split: option.split)
next
  case (wa_fires w t)
  show ?case
  proof (cases "map_get (activeTimers w) t")
    case (Some p)
    then obtain j d where p: "map_get (activeTimers w) t = Some (j, d)" by (cases p) auto
    then have "j \<noteq> i" using wa_fires by (auto simp: lost_def)
    moreover from this have "lost i (waitTimerFires t w)"
      by (intro lost_same [OF wa_fires]) (auto simp: waitTimerFires_def startExecution_def p split: if_splits)
    ultimately show ?thesis by (simp add: waitTimerFires_def startExecution_def p starts_def)
  qed (simp add: waitTimerFires_def wa_fires)
next
  case (wa_fetched w j found)
  have "lost i (executionFetched j found w)"
    by (rule lost_same [OF wa_fetched])
      (simp_all add: executionFetched_def Let_def split: Fetched.splits option.splits if_splits)
  then show ?case
    using count_list_remove1 [of j "fetching w" i]
    by (auto simp: executionFetched_def Let_def starts_def split: Fetched.split option.split)
next
  case (wa_child cp w)
  have "lost i (childCompleted cp w)"
    by (rule lost_same [OF wa_child(2)]) (use wa_child(1) in \<open>simp_all add: childCompleted_def startExecution_def split: if_splits\<close>)
  then show ?case using wa_child(1) by (simp add: childCompleted_def startExecution_def starts_def)
qed

text \<open>
  When a main process loses the leadership, the timers of its waiting executions are cleared but the
  entries stay. So when it leads again and finds such an execution in the database, it sets no timer,
  and the execution is not started, however long it tracks.
\<close>

theorem lost_after_stepdown:
  assumes "wt_reachable w" and "hasWaiting i w" and "(wt_aside i)\<^sup>*\<^sup>* (onLeaderEvent LeaderStepdown w) w'"
  shows "hasWaiting i w' \<and> (\<forall>t d. map_get (activeTimers w') t \<noteq> Some (i, d)) \<and>
    count_list (fetching w') i + count_list (resumed w') i \<le> count_list (fetching w) i + count_list (resumed w) i"
proof -
  have t: "timed w" by (rule wt_reachable_timed [OF assms(1)])
  have "map_get (activeTimers (stopTracking w)) s \<noteq> Some (i, d)" for s d
  proof
    assume "map_get (activeTimers (stopTracking w)) s = Some (i, d)"
    then have "s \<notin> set (map_values (waitingExecutions w))" and "map_get (activeTimers w) s = Some (i, d)"
      by (auto simp: stopTracking_def map_get_filter_key split: if_splits)
    moreover from this(2) have "map_get (waitingExecutions w) i = Some s" using timedD(1) [OF t] by blast
    then have "(i, s) \<in> set (waitingExecutions w)" by (rule map_of_SomeD)
    then have "s \<in> set (map_values (waitingExecutions w))" by force
    ultimately show False by blast
  qed
  moreover have "hasWaiting i (stopTracking w)" using assms(2) by (simp add: hasWaiting_def stopTracking_def)
  ultimately have start: "lost i (onLeaderEvent LeaderStepdown w)"
    "starts i (onLeaderEvent LeaderStepdown w) = starts i w"
    by (simp_all add: lostI onLeaderEvent_def) (simp add: starts_def stopTracking_def)
  have "lost i w' \<and> starts i w' \<le> starts i w"
    using assms(3)
  proof (induction rule: rtranclp_induct)
    case base
    show ?case using start by simp
  next
    case (step u v)
    with lost_aside [OF step.hyps(2)] show ?case by force
  qed
  then show ?thesis by (auto simp: lost_def starts_def)
qed

theorem lost_after_stepdown_witness:
  "let w' = rowsArrived 62000 [(''8'', 61000)] (onLeaderEvent LeaderTakeover (onLeaderEvent LeaderStepdown tracking)) in
   hasWaiting ''8'' w' \<and> (\<forall>t d. map_get (activeTimers w') t \<noteq> Some (''8'', d))"
proof -
  let ?i = "''8''"
  let ?a = "onLeaderEvent LeaderStepdown tracking"
  have h: "hasWaiting ?i tracking" by code_simp
  have "(wt_aside ?i)\<^sup>*\<^sup>* ?a (rowsArrived 62000 [(?i, 61000)] (onLeaderEvent LeaderTakeover ?a))"
    by (rule converse_rtranclp_into_rtranclp [where r = "wt_aside ?i", OF wa_event r_into_rtranclp [where r = "wt_aside ?i", OF wa_rows]])
  from lost_after_stepdown [OF tracking_reachable h this] show ?thesis by (simp only: Let_def) blast
qed

text \<open>
  When a child execution completes while its parent still waits with a timer, the parent is started
  and its entry deleted, but the timer goes on and starts the parent a second time.
\<close>

theorem parent_started_twice:
  assumes "wt_reachable w" and "map_get (waitingExecutions w) p = Some t" and "(c, p) \<in> set (childrenOf w)"
    and "w' = childCompleted (c, p) w"
  shows "\<not> hasWaiting p w' \<and> (\<exists>due. map_get (activeTimers w') t = Some (p, due)) \<and>
    count_list (fetching (waitTimerFires t w')) p = count_list (fetching w) p + 2"
proof -
  obtain d where d: "map_get (activeTimers w) t = Some (p, d)"
    using timedD(1) [OF wt_reachable_timed [OF assms(1)]] assms(2) by blast
  then show ?thesis
    using assms(3) by (simp add: assms(4) childCompleted_def startExecution_def hasWaiting_def waitTimerFires_def)
qed

definition tracking_child :: WaitTracker where
  "tracking_child = executionFetched ''7'' (Found (Some ''8'')) (waitTimerFires 1 tracking)"

theorem parent_started_twice_witness:
  "count_list (fetching (waitTimerFires 2 (childCompleted (''7'', ''8'') tracking_child))) ''8'' = 2"
proof -
  have r: "wt_reachable tracking_child"
    unfolding tracking_child_def by (rule wt_next [OF wt_next [OF tracking_reachable wt_fires] wt_fetched])
  have c: "map_get (waitingExecutions tracking_child) ''8'' = Some 2" "fetching tracking_child = []"
    "childrenOf tracking_child = [(''7'', ''8'')]" by code_simp+
  have "(''7'', ''8'') \<in> set (childrenOf tracking_child)" by (simp add: c(3))
  from parent_started_twice [OF r c(1) this refl] c(2) show ?thesis by simp
qed

end
