(* ===== verification/Leader_Properties.thy ===== *)
theory Leader_Properties
  imports Leader_Election
begin

text \<open>
  Whether there is one leader: while the key does not expire, when it does, and when the checks of one
  instance overlap.
\<close>


section \<open>Steps\<close>

text \<open>An instance starts with an id that was not used before.\<close>

inductive le_step :: "Cluster \<Rightarrow> Cluster \<Rightarrow> bool" where
  le_init: "roles s i = Unset \<Longrightarrow> i \<notin> fst ` set (pendingCalls s) \<Longrightarrow> le_step s (init i s)"
| le_check: "le_step s (checkLeader i s)"
| le_shutdown: "le_step s (shutdownSetup i s)"
| le_perform: "le_step s (perform n s)"
| le_continue: "le_step s (continue n s)"

inductive le_reachable :: "Cluster \<Rightarrow> bool" where
  le_start: "le_reachable newCluster"
| le_next: "le_reachable s \<Longrightarrow> le_step s s' \<Longrightarrow> le_reachable s'"

text \<open>With the expiry of the key.\<close>

inductive expiring_reachable :: "Cluster \<Rightarrow> bool" where
  ex_start: "expiring_reachable newCluster"
| ex_next: "expiring_reachable s \<Longrightarrow> le_step s s' \<Longrightarrow> expiring_reachable s'"
| ex_expire: "expiring_reachable s \<Longrightarrow> expiring_reachable (expireKey s)"


section \<open>One leader\<close>

definition clears :: "Cluster \<Rightarrow> nat" where
  "clears s = length (filter (\<lambda>p. snd p = ClearKey) (pendingCalls s))"

definition one_leader :: "Cluster \<Rightarrow> bool" where
  "one_leader s \<longleftrightarrow>
     (\<forall>i \<in> running s. roles s i = Leader \<longrightarrow> holder s = Some i) \<and>
     (\<forall>i \<in> running s. (i, LeaderSet True) \<in> set (pendingCalls s) \<longrightarrow> holder s = Some i) \<and>
     (\<forall>i. (i, ClearKey) \<in> set (pendingCalls s) \<longrightarrow> i \<notin> running s \<and> holder s = Some i) \<and>
     clears s \<le> 1"

lemma one_leaderD:
  assumes "one_leader s"
  shows "i \<in> running s \<Longrightarrow> roles s i = Leader \<Longrightarrow> holder s = Some i"
    "i \<in> running s \<Longrightarrow> (i, LeaderSet True) \<in> set (pendingCalls s) \<Longrightarrow> holder s = Some i"
    "(i, ClearKey) \<in> set (pendingCalls s) \<Longrightarrow> i \<notin> running s \<and> holder s = Some i" "clears s \<le> 1"
  using assms unfolding one_leader_def by blast+

text \<open>A state with fewer leaders and calls, or with calls that do not matter.\<close>

lemma one_leader_mono:
  assumes "one_leader s" and "holder s' = holder s" and "running s' = running s"
    and "\<And>i. i \<in> running s \<Longrightarrow> roles s' i = Leader \<Longrightarrow> roles s i = Leader \<or> holder s = Some i"
    and "\<And>i b. (i, LeaderSet True) \<in> set (pendingCalls s') \<Longrightarrow> (i, LeaderSet True) \<in> set (pendingCalls s)"
    and "\<And>i. (i, ClearKey) \<in> set (pendingCalls s') \<Longrightarrow> (i, ClearKey) \<in> set (pendingCalls s)"
    and "clears s' \<le> clears s"
  shows "one_leader s'"
  using assms one_leaderD [OF assms(1)] unfolding one_leader_def by (metis order_trans)

lemma pending_update:
  assumes "n < length xs"
  shows "set (xs[n := y]) \<subseteq> insert y (set xs)"
    "set (take n xs @ drop (Suc n) xs) \<subseteq> set xs"
    "length (filter P (take n xs @ drop (Suc n) xs)) + (if P (xs ! n) then 1 else 0) = length (filter P xs)"
    "length (filter P (xs[n := y])) + (if P (xs ! n) then 1 else 0) =
       length (filter P xs) + (if P y then 1 else 0)"
proof -
  have x: "xs = take n xs @ xs ! n # drop (Suc n) xs" using assms by (rule id_take_nth_drop)
  show "set (xs[n := y]) \<subseteq> insert y (set xs)" by (rule set_update_subset_insert)
  show "set (take n xs @ drop (Suc n) xs) \<subseteq> set xs"
    by (metis Un_subset_iff set_append set_drop_subset set_take_subset)
  have "filter P xs = filter P (take n xs @ xs ! n # drop (Suc n) xs)" using x by simp
  then have f: "length (filter P xs) = length (filter P (take n xs)) + (if P (xs ! n) then 1 else 0) +
      length (filter P (drop (Suc n) xs))" by simp
  then show "length (filter P (take n xs @ drop (Suc n) xs)) + (if P (xs ! n) then 1 else 0) = length (filter P xs)"
    by simp
  have "xs[n := y] = take n xs @ y # drop (Suc n) xs" by (rule upd_conv_take_nth_drop [OF assms])
  then have "filter P (xs[n := y]) = filter P (take n xs) @ (if P y then [y] else []) @ filter P (drop (Suc n) xs)"
    by simp
  with f show "length (filter P (xs[n := y])) + (if P (xs ! n) then 1 else 0) =
       length (filter P xs) + (if P y then 1 else 0)" by simp
qed

lemma one_leader_call:
  assumes "one_leader s" and "c \<noteq> ClearKey" and "c \<noteq> LeaderSet True"
  shows "one_leader (call i c s)"
  by (rule one_leader_mono [OF assms(1)]) (use assms(2,3) in \<open>auto simp: call_def holder_def clears_def\<close>)

lemma one_leader_mark:
  "one_leader s \<Longrightarrow> role \<noteq> Leader \<Longrightarrow> one_leader (mark i role s)" "one_leader s \<Longrightarrow> one_leader (emit i e s)"
  by (rule one_leader_mono; auto simp: mark_def emit_def holder_def clears_def split: if_splits)+

lemma one_leader_dropped:
  assumes "one_leader s" and "n < length (pendingCalls s)"
  shows "one_leader (s\<lparr>pendingCalls := take n (pendingCalls s) @ drop (Suc n) (pendingCalls s)\<rparr>)"
proof (rule one_leader_mono [OF assms(1)])
  let ?s = "s\<lparr>pendingCalls := take n (pendingCalls s) @ drop (Suc n) (pendingCalls s)\<rparr>"
  have sub: "set (pendingCalls ?s) \<subseteq> set (pendingCalls s)" using pending_update(2) [OF assms(2)] by simp
  then show "(i, LeaderSet True) \<in> set (pendingCalls ?s) \<Longrightarrow> (i, LeaderSet True) \<in> set (pendingCalls s)"
    "(i, ClearKey) \<in> set (pendingCalls ?s) \<Longrightarrow> (i, ClearKey) \<in> set (pendingCalls s)" for i by blast+
  show "clears ?s \<le> clears s"
    using pending_update(3) [OF assms(2), of "\<lambda>p. snd p = ClearKey"] by (simp add: clears_def)
qed (simp_all add: holder_def)

lemma one_leader_replied:
  assumes "one_leader s" and "n < length (pendingCalls s)" and "c \<noteq> ClearKey" and "c \<noteq> LeaderSet True"
    and "map_option fst k = holder s"
  shows "one_leader (s\<lparr>leaderKey := k, pendingCalls := (pendingCalls s)[n := (i, c)]\<rparr>)"
proof (rule one_leader_mono [OF assms(1)])
  have "set ((pendingCalls s)[n := (i, c)]) \<subseteq> insert (i, c) (set (pendingCalls s))"
    by (rule pending_update(1) [OF assms(2)])
  with assms(3,4) show "(j, LeaderSet True) \<in> set (pendingCalls (s\<lparr>leaderKey := k, pendingCalls := (pendingCalls s)[n := (i, c)]\<rparr>)) \<Longrightarrow>
      (j, LeaderSet True) \<in> set (pendingCalls s)"
    "(j, ClearKey) \<in> set (pendingCalls (s\<lparr>leaderKey := k, pendingCalls := (pendingCalls s)[n := (i, c)]\<rparr>)) \<Longrightarrow>
      (j, ClearKey) \<in> set (pendingCalls s)" for j by auto
  show "clears (s\<lparr>leaderKey := k, pendingCalls := (pendingCalls s)[n := (i, c)]\<rparr>) \<le> clears s"
    using pending_update(4) [OF assms(2), of "\<lambda>p. snd p = ClearKey" "(i, c)"] assms(3) by (simp add: clears_def)
qed (use assms(5) in \<open>simp_all add: holder_def\<close>)

lemma one_leader_reply:
  assumes "one_leader s" and "n < length (pendingCalls s)" and "c \<noteq> ClearKey" and "c \<noteq> LeaderSet True"
  shows "one_leader (s\<lparr>pendingCalls := (pendingCalls s)[n := (i, c)]\<rparr>)"
  using one_leader_replied [OF assms, of "leaderKey s" i] by (simp add: holder_def)

lemma perform_eq:
  assumes "n < length (pendingCalls s)" and "pendingCalls s ! n = (i, c)"
  shows "perform n s =
    (case c of
       GetLeader \<Rightarrow> s\<lparr>leaderKey := leaderKey s, pendingCalls := (pendingCalls s)[n := (i, GotLeader (holder s))]\<rparr>
     | SetLeader \<Rightarrow>
         (if leaderKey s = None
          then s\<lparr>leaderKey := Some (i, False), pendingCalls := (pendingCalls s)[n := (i, LeaderSet True)]\<rparr>
          else s\<lparr>leaderKey := leaderKey s, pendingCalls := (pendingCalls s)[n := (i, LeaderSet False)]\<rparr>)
     | RenewKey \<Rightarrow> s\<lparr>leaderKey := map_option (\<lambda>(j, ttl). (j, True)) (leaderKey s),
         pendingCalls := take n (pendingCalls s) @ drop (Suc n) (pendingCalls s)\<rparr>
     | ExpireNewKey \<Rightarrow> s\<lparr>leaderKey := map_option (\<lambda>(j, ttl). (j, True)) (leaderKey s),
         pendingCalls := (pendingCalls s)[n := (i, KeyExpiring)]\<rparr>
     | ClearKey \<Rightarrow> s\<lparr>leaderKey := None, pendingCalls := take n (pendingCalls s) @ drop (Suc n) (pendingCalls s)\<rparr>
     | _ \<Rightarrow> s)"
  using assms by (cases c) (simp_all add: perform_def Let_def)


lemma holder_ttl [simp]: "map_option fst (map_option (\<lambda>(j, ttl). (j, True)) k) = map_option fst k"
  by (cases k) auto

lemma one_leader_perform:
  assumes "one_leader s"
  shows "one_leader (perform n s)"
proof (cases "n < length (pendingCalls s)")
  case True
  obtain i c where c: "pendingCalls s ! n = (i, c)" by (cases "pendingCalls s ! n")
  have mem: "(i, c) \<in> set (pendingCalls s)" using True c by (metis nth_mem)
  have ttl: "one_leader (s\<lparr>leaderKey := map_option (\<lambda>(j, ttl). (j, True)) (leaderKey s)\<rparr>)"
    by (rule one_leader_mono [OF assms]) (auto simp: holder_def clears_def)
  show ?thesis
  proof (cases c)
    case SetLeader
    show ?thesis
    proof (cases "leaderKey s = None")
      case none: True
      then have "holder s = None" by (simp add: holder_def)
      note D = one_leaderD [OF assms, unfolded this, simplified]
      have sub: "set ((pendingCalls s)[n := (i, LeaderSet True)]) \<subseteq> insert (i, LeaderSet True) (set (pendingCalls s))"
        by (rule pending_update(1) [OF True])
      have "clears (perform n s) \<le> clears s"
        using pending_update(4) [OF True, of "\<lambda>p. snd p = ClearKey" "(i, LeaderSet True)"] none SetLeader c
        by (simp add: clears_def perform_eq [OF True c])
      with D sub none SetLeader show ?thesis
        unfolding one_leader_def by (auto simp: perform_eq [OF True c] holder_def)
    next
      case False
      then show ?thesis using SetLeader assms True
        by (auto simp: perform_eq [OF True c] one_leader_reply)
    qed
  next
    case RenewKey
    have "n < length (pendingCalls (s\<lparr>leaderKey := map_option (\<lambda>(j, ttl). (j, True)) (leaderKey s)\<rparr>))"
      using True by simp
    from one_leader_dropped [OF ttl this] RenewKey show ?thesis by (simp add: perform_eq [OF True c])
  next
    case ExpireNewKey
    have "map_option fst (map_option (\<lambda>(j, ttl). (j, True)) (leaderKey s)) = holder s"
      by (simp add: holder_def)
    with ExpireNewKey show ?thesis
      using one_leader_replied [OF assms True, of KeyExpiring] by (simp add: perform_eq [OF True c])
  next
    case ClearKey
    note D = one_leaderD [OF assms]
    have own: "i \<notin> running s" "holder s = Some i" using D(3) mem ClearKey by blast+
    have none: "clears (perform n s) = 0"
    proof -
      have "clears (perform n s) + 1 = clears s"
        using pending_update(3) [OF True, of "\<lambda>p. snd p = ClearKey"] ClearKey c
        by (simp add: perform_eq [OF True c] clears_def)
      with D(4) show ?thesis by simp
    qed
    then have no: "(j, ClearKey) \<notin> set (pendingCalls (perform n s))" for j
      by (auto simp: clears_def filter_empty_conv)
    have same: "running (perform n s) = running s" "roles (perform n s) = roles s"
      using ClearKey by (simp_all add: perform_eq [OF True c])
    have sub: "set (pendingCalls (perform n s)) \<subseteq> set (pendingCalls s)"
      using pending_update(2) [OF True] ClearKey by (simp add: perform_eq [OF True c])
    have "j \<noteq> i" if "j \<in> running s" for j using that own(1) by blast
    then have "roles s j \<noteq> Leader" "(j, LeaderSet True) \<notin> set (pendingCalls s)" if "j \<in> running s" for j
      using that D(1,2) [of j] own(2) by auto
    with none no same sub show ?thesis unfolding one_leader_def by auto
  qed (use assms True in \<open>simp_all add: perform_eq [OF True c] one_leader_reply\<close>)
qed (simp add: assms perform_def)

lemma one_leader_continue:
  assumes "one_leader s"
  shows "one_leader (continue n s)"
proof (cases "n < length (pendingCalls s)")
  case True
  obtain i c where c: "pendingCalls s ! n = (i, c)" by (cases "pendingCalls s ! n")
  have mem: "(i, c) \<in> set (pendingCalls s)" using True c by (metis nth_mem)
  let ?rest = "s\<lparr>pendingCalls := take n (pendingCalls s) @ drop (Suc n) (pendingCalls s)\<rparr>"
  have rest: "one_leader ?rest" by (rule one_leader_dropped [OF assms True])
  show ?thesis
  proof (cases c)
    case (GotLeader leaderId)
    with rest True c show ?thesis
      by (simp add: continue_def Let_def one_leader_call one_leader_mark tryBecomeLeader_def)
  next
    case (LeaderSet ok)
    show ?thesis
    proof (cases ok)
      case yes: True
      have "i \<in> running s \<Longrightarrow> holder s = Some i" using one_leaderD(2) [OF assms, of i] mem LeaderSet yes by simp
      then have "one_leader (mark i Leader ?rest)"
        by (intro one_leader_mono [OF rest]) (auto simp: mark_def holder_def clears_def split: if_splits)
      with LeaderSet yes True c show ?thesis by (simp add: continue_def one_leader_call)
    next
      case False
      with LeaderSet rest True c show ?thesis by (simp add: continue_def one_leader_mark)
    qed
  next
    case KeyExpiring
    with rest True c show ?thesis by (simp add: continue_def one_leader_mark)
  qed (use assms True c in \<open>simp_all add: continue_def\<close>)
qed (simp add: assms continue_def)

lemma one_leader_init:
  assumes "one_leader s" and "roles s i = Unset" and "i \<notin> fst ` set (pendingCalls s)"
  shows "one_leader (init i s)"
proof (cases "i \<in> running s")
  case False
  have "(i, c) \<notin> set (pendingCalls s)" for c using assms(3) by force
  with assms(1,2) have "one_leader (s\<lparr>running := insert i (running s)\<rparr>)"
    unfolding one_leader_def by (auto simp: holder_def clears_def)
  with False show ?thesis by (simp add: init_def tryBecomeLeader_def one_leader_call)
qed (simp add: assms init_def)

lemma one_leader_shutdown:
  assumes "one_leader s"
  shows "one_leader (shutdownSetup i s)"
proof (cases "i \<in> running s")
  case True
  let ?s = "s\<lparr>running := running s - {i}\<rparr>"
  note D = one_leaderD [OF assms]
  have s: "one_leader ?s"
    using D unfolding one_leader_def by (auto simp: holder_def clears_def)
  show ?thesis
  proof (cases "roles s i = Leader")
    case lead: True
    then have h: "holder s = Some i" using D(1) True by blast
    then have "(j, ClearKey) \<notin> set (pendingCalls s)" for j using D(3) [of j] True by auto
    then have "filter (\<lambda>p. snd p = ClearKey) (pendingCalls s) = []"
      by (auto simp: filter_empty_conv)
    with s h lead True show ?thesis
      unfolding one_leader_def by (auto simp: shutdownSetup_def call_def holder_def clears_def)
  next
    case False
    with s True show ?thesis by (simp add: shutdownSetup_def)
  qed
qed (simp add: assms shutdownSetup_def)

lemma le_step_one_leader: "le_step s s' \<Longrightarrow> one_leader s \<Longrightarrow> one_leader s'"
  by (induction rule: le_step.induct)
    (simp_all add: one_leader_init one_leader_shutdown one_leader_perform one_leader_continue checkLeader_def
      one_leader_call)

lemma le_reachable_one_leader: "le_reachable s \<Longrightarrow> one_leader s"
proof (induction rule: le_reachable.induct)
  case le_start
  show ?case by (simp add: one_leader_def newCluster_def clears_def)
qed (rule le_step_one_leader)



text \<open>
  C12. While the key does not expire, there is at most one leader among the running instances, however
  their checks, shutdowns and replies interleave, and the key names it.
\<close>

theorem single_leader:
  assumes "le_reachable s" and "i \<in> running s" and "roles s i = Leader"
  shows "map_option fst (leaderKey s) = Some i \<and> (\<forall>j \<in> running s. roles s j = Leader \<longrightarrow> j = i)"
proof -
  note lead = one_leaderD(1) [OF le_reachable_one_leader [OF assms(1)], unfolded holder_def]
  have "map_option fst (leaderKey s) = Some i" by (rule lead [OF assms(2,3)])
  moreover from this lead have "j = i" if "j \<in> running s" "roles s j = Leader" for j
    using that by (metis option.inject)
  ultimately show ?thesis by blast
qed

text \<open>Instance 1 became the leader, instance 2 follows.\<close>

definition one_led :: Cluster where
  "one_led = (continue 0 \<circ> perform 0 \<circ> init 2 \<circ> continue 0 \<circ> perform 0 \<circ> continue 0 \<circ> perform 0 \<circ> init 1) newCluster"

lemma one_led_reachable: "le_reachable one_led"
proof -
  have "le_reachable (init 1 newCluster)"
    by (rule le_next [OF le_start le_init]) (simp_all add: newCluster_def)
  then have led: "le_reachable ((continue 0 \<circ> perform 0 \<circ> continue 0 \<circ> perform 0 \<circ> init 1) newCluster)" (is "le_reachable ?s")
    unfolding comp_def by (intro le_next [OF _ le_continue] le_next [OF _ le_perform])
  have "roles ?s 2 = Unset" "pendingCalls ?s = []" by code_simp+
  then have "le_reachable (init 2 ?s)" by (intro le_next [OF led le_init]) simp_all
  then have "le_reachable (continue 0 (perform 0 (init 2 ?s)))"
    by (intro le_next [OF _ le_continue] le_next [OF _ le_perform])
  then show ?thesis by (simp add: one_led_def comp_def)
qed

theorem single_leader_witness:
  "map_option fst (leaderKey one_led) = Some 1 \<and> roles one_led 2 = Follower"
proof -
  have c: "roles one_led 1 = Leader" "roles one_led 2 = Follower" by code_simp+
  have "running one_led = {2, 1}" unfolding one_led_def by code_simp
  with single_leader [OF one_led_reachable _ c(1)] c(2) show ?thesis by simp
qed



section \<open>When the key expires\<close>

text \<open>
  A leader that is late to renew its key does not notice: when the key has expired, another instance
  becomes the leader while the first still is one, and when the first then shuts down it deletes the
  key of the other.
\<close>

definition two_led :: Cluster where
  "two_led = (continue 0 \<circ> perform 0 \<circ> continue 0 \<circ> perform 0 \<circ> checkLeader 2 \<circ> expireKey) one_led"

theorem two_leaders_after_expiry:
  "expiring_reachable two_led \<and> {1, 2} \<subseteq> running two_led \<and>
   roles two_led 1 = Leader \<and> roles two_led 2 = Leader \<and> map_option fst (leaderKey two_led) = Some 2 \<and>
   leaderKey (perform 1 (shutdownSetup 1 two_led)) = None \<and> roles (perform 1 (shutdownSetup 1 two_led)) 2 = Leader"
proof (intro conjI)
  have "le_reachable s \<Longrightarrow> expiring_reachable s" for s
    by (induction rule: le_reachable.induct) (auto intro: expiring_reachable.intros)
  then have "expiring_reachable one_led" using one_led_reachable by blast
  then show "expiring_reachable two_led"
    unfolding two_led_def comp_def
    by (intro ex_next [OF _ le_continue] ex_next [OF _ le_perform] ex_next [OF _ le_check] ex_expire)
  have "1 \<in> running two_led \<and> 2 \<in> running two_led" by code_simp
  then show "{1, 2} \<subseteq> running two_led" by simp
qed code_simp+


section \<open>Overlapping checks\<close>

text \<open>No instance leads, one holds the key, and no pending call can change that.\<close>

definition harmless :: "Call \<Rightarrow> bool" where
  "harmless c \<longleftrightarrow> c \<notin> {GotLeader None, LeaderSet True, ExpireNewKey, KeyExpiring, ClearKey}"

definition stuck :: "nat \<Rightarrow> Cluster \<Rightarrow> bool" where
  "stuck i s \<longleftrightarrow> holder s = Some i \<and> (\<forall>k \<in> running s. roles s k \<noteq> Leader) \<and> (\<forall>p \<in> set (pendingCalls s). harmless (snd p))"

lemma stuck_simps:
  "stuck i s \<Longrightarrow> harmless c \<Longrightarrow> stuck i (call k c s)" "stuck i s \<Longrightarrow> role \<noteq> Leader \<Longrightarrow> stuck i (mark k role s)"
  "stuck i s \<Longrightarrow> stuck i (emit k e s)" "stuck i s \<Longrightarrow> stuck i (s\<lparr>running := running s - R\<rparr>)"
  "stuck i s \<Longrightarrow> roles s k \<noteq> Leader \<Longrightarrow> stuck i (s\<lparr>running := insert k (running s)\<rparr>)"
  by (auto simp: stuck_def call_def mark_def emit_def holder_def)

lemma stuck_dropped:
  assumes "stuck i s" and "n < length (pendingCalls s)" and "map_option fst k = holder s"
  shows "stuck i (s\<lparr>leaderKey := k, pendingCalls := take n (pendingCalls s) @ drop (Suc n) (pendingCalls s)\<rparr>)"
proof -
  have "\<forall>p \<in> set (take n (pendingCalls s) @ drop (Suc n) (pendingCalls s)). harmless (snd p)"
    using pending_update(2) [OF assms(2)] assms(1) unfolding stuck_def by blast
  with assms(1,3) show ?thesis by (simp add: stuck_def holder_def)
qed

lemma stuck_replied:
  assumes "stuck i s" and "n < length (pendingCalls s)" and "harmless c"
  shows "stuck i (s\<lparr>pendingCalls := (pendingCalls s)[n := (j, c)]\<rparr>)"
proof -
  have "\<forall>p \<in> set ((pendingCalls s)[n := (j, c)]). harmless (snd p)"
    using pending_update(1) [OF assms(2), of "(j, c)"] assms(1,3) unfolding stuck_def by auto
  with assms(1) show ?thesis by (simp add: stuck_def holder_def)
qed

lemma stuck_perform:
  assumes "stuck i s"
  shows "stuck i (perform n s)"
proof (cases "n < length (pendingCalls s)")
  case True
  obtain j c where c: "pendingCalls s ! n = (j, c)" by (cases "pendingCalls s ! n")
  have h: "harmless c" using assms True c unfolding stuck_def by (metis nth_mem snd_conv)
  have key: "holder s = Some i" "leaderKey s \<noteq> None" using assms by (auto simp: stuck_def holder_def)
  have got: "harmless (GotLeader (Some i))" "harmless (LeaderSet False)" by (simp_all add: harmless_def)
  show ?thesis
  proof (cases c)
    case RenewKey
    then show ?thesis using stuck_dropped [OF assms True] by (simp add: perform_eq [OF True c] holder_def)
  qed (use assms True h key got in \<open>auto simp: perform_eq [OF True c] stuck_replied harmless_def\<close>)
qed (simp add: assms perform_def)

lemma stuck_continue:
  assumes "stuck i s"
  shows "stuck i (continue n s) \<and> (\<forall>k. (k, LeaderTakeover) \<in> set (emitted (continue n s)) \<longrightarrow>
    (k, LeaderTakeover) \<in> set (emitted s))"
proof (cases "n < length (pendingCalls s)")
  case True
  obtain j c where c: "pendingCalls s ! n = (j, c)" by (cases "pendingCalls s ! n")
  have h: "harmless c" using assms True c unfolding stuck_def by (metis nth_mem snd_conv)
  have rest: "stuck i (s\<lparr>pendingCalls := take n (pendingCalls s) @ drop (Suc n) (pendingCalls s)\<rparr>)"
    using stuck_dropped [OF assms True, of "leaderKey s"] by (simp add: holder_def)
  have ok: "harmless RenewKey" by (simp add: harmless_def)
  show ?thesis
    by (cases c)
      (use rest True c h ok assms in \<open>auto simp: continue_def Let_def stuck_simps harmless_def emit_def mark_def call_def
        split: bool.splits, auto simp: stuck_def holder_def harmless_def split: if_splits\<close>)
qed (simp add: assms continue_def)

lemma stuck_step:
  "le_step s s' \<Longrightarrow> stuck i s \<Longrightarrow> stuck i s' \<and>
   (\<forall>k. (k, LeaderTakeover) \<in> set (emitted s') \<longrightarrow> (k, LeaderTakeover) \<in> set (emitted s))"
proof (induction rule: le_step.induct)
  case (le_continue s n)
  then show ?case by (rule stuck_continue)
next
  case (le_perform s n)
  have "emitted (perform n s) = emitted s" by (auto simp: perform_def Let_def split: prod.split Call.split)
  with le_perform show ?case by (simp add: stuck_perform)
next
  case (le_shutdown s k)
  then have "k \<in> running s \<Longrightarrow> roles s k \<noteq> Leader" by (simp add: stuck_def)
  with le_shutdown show ?case by (simp add: shutdownSetup_def stuck_simps)
qed (auto simp: init_def checkLeader_def tryBecomeLeader_def stuck_simps harmless_def call_def,
    auto simp: stuck_def holder_def harmless_def)


definition overlapped :: Cluster where
  "overlapped = (continue 0 \<circ> perform 0 \<circ> continue 0 \<circ> continue 0 \<circ> perform 1 \<circ> perform 0 \<circ> continue 0 \<circ> continue 0 \<circ>
     perform 1 \<circ> checkLeader 1 \<circ> perform 0 \<circ> checkLeader 1 \<circ> perform 0 \<circ> shutdownSetup 2 \<circ>
     continue 0 \<circ> perform 0 \<circ> init 1 \<circ> continue 0 \<circ> perform 0 \<circ> continue 0 \<circ> perform 0 \<circ> init 2) newCluster"

lemma overlapped_reachable: "le_reachable overlapped"
proof -
  have "le_reachable (init 2 newCluster)"
    by (rule le_next [OF le_start le_init]) (simp_all add: newCluster_def)
  then have led: "le_reachable ((continue 0 \<circ> perform 0 \<circ> continue 0 \<circ> perform 0 \<circ> init 2) newCluster)" (is "le_reachable ?s")
    unfolding comp_def by (intro le_next [OF _ le_continue] le_next [OF _ le_perform])
  have "roles ?s 1 = Unset" "pendingCalls ?s = []" by code_simp+
  then have "le_reachable (init 1 ?s)" by (intro le_next [OF led le_init]) simp_all
  then show ?thesis
    unfolding overlapped_def comp_def
    by (intro le_next [OF _ le_continue] le_next [OF _ le_perform] le_next [OF _ le_check] le_next [OF _ le_shutdown])
qed

text \<open>
  The interval starts a check although the one before still waits for Redis. When two checks of one
  instance overlap while the leadership is vacant, the instance takes the key and announces that it
  leads, but is then marked as a follower; from then on it renews the key as its own, and as long as the
  key does not expire no running instance is the leader and none takes over.
\<close>

theorem overlapping_checks_without_leader:
  assumes "le_step\<^sup>*\<^sup>* overlapped s"
  shows "le_reachable overlapped \<and> (1, LeaderTakeover) \<in> set (emitted overlapped) \<and>
    roles overlapped 1 = Follower \<and> running overlapped = {1} \<and>
    map_option fst (leaderKey s) = Some 1 \<and> (\<forall>k \<in> running s. roles s k \<noteq> Leader) \<and>
    (\<forall>k. (k, LeaderTakeover) \<in> set (emitted s) \<longrightarrow> (k, LeaderTakeover) \<in> set (emitted overlapped))"
proof (intro conjI)
  show "le_reachable overlapped" by (rule overlapped_reachable)
  have c: "holder overlapped = Some 1" "pendingCalls overlapped = []" "roles overlapped 1 = Follower"
    "last (emitted overlapped) = (1, LeaderTakeover)" "emitted overlapped \<noteq> []" by code_simp+
  have run: "running overlapped = {1}" by code_simp
  show "(1, LeaderTakeover) \<in> set (emitted overlapped)" using last_in_set [OF c(5)] c(4) by simp
  show "roles overlapped 1 = Follower" "running overlapped = {1}" using c(3) run by simp_all
  have start: "stuck 1 overlapped" using c(1-3) run by (simp add: stuck_def)
  have all: "stuck 1 s \<and> (\<forall>k. (k, LeaderTakeover) \<in> set (emitted s) \<longrightarrow> (k, LeaderTakeover) \<in> set (emitted overlapped))"
    using assms
  proof (induction rule: rtranclp_induct)
    case base
    show ?case using start by simp
  next
    case (step u v)
    with stuck_step [OF step.hyps(2)] show ?case by blast
  qed
  then show "map_option fst (leaderKey s) = Some 1" "\<forall>k \<in> running s. roles s k \<noteq> Leader"
    by (auto simp: stuck_def holder_def)
  from all show "\<forall>k. (k, LeaderTakeover) \<in> set (emitted s) \<longrightarrow> (k, LeaderTakeover) \<in> set (emitted overlapped)"
    by blast
qed

theorem overlapping_checks_without_leader_witness:
  "holder (checkLeader 1 overlapped) = Some 1 \<and> roles (checkLeader 1 overlapped) 1 \<noteq> Leader"
proof -
  have "le_step\<^sup>*\<^sup>* overlapped (checkLeader 1 overlapped)"
    by (rule r_into_rtranclp [where r = le_step, OF le_check])
  note o = overlapping_checks_without_leader [OF this]
  then have "running overlapped = {1}" by blast
  then have "running (checkLeader 1 overlapped) = {1}" by (simp add: checkLeader_def call_def)
  with o show ?thesis unfolding holder_def by simp
qed

end
