(* ===== verification/Task_Data.thy ===== *)
theory Task_Data
  imports Workflow_Types
begin

text \<open>
  The data that a code task gets: which data its code may access (built-ins-parser.ts and
  built-ins-parser-state.ts of packages/@n8n/task-runner/src/js-task-runner/built-ins-parser), what
  is sent for such a request (data-request-response-builder.ts and data-request-response-stripper.ts of
  packages/cli/src/task-runners/task-managers) and how the runner rebuilds the input items from it
  (data-request-response-reconstruct.ts of packages/@n8n/task-runner/src/data-request).

  The code is parsed and walked by the libraries acorn and acorn-walk: what they visit, a call or an
  identifier with its direct parent, is the argument of the model.
\<close>


section \<open>What the code accesses\<close>

record InputDataChunkDefinition =
  startIndex :: nat
  chunkCount :: nat

datatype DataOfNodes = AllNodes | OnlyNodes "string list"

record TaskDataRequestParams =
  dataOfNodes :: DataOfNodes
  needPrevNode :: bool
  includeInput :: bool
  inputChunk :: "InputDataChunkDefinition option"
  needEnv :: bool

record BuiltInsParserState =
  neededNodeNames :: "string list"
  needsAllNodes :: bool
  needsEnv :: bool
  needsInput :: bool
  needsExecution :: bool
  needsPrevNode :: bool

definition newBuiltInsState :: BuiltInsParserState where
  "newBuiltInsState = \<lparr>neededNodeNames = [], needsAllNodes = False, needsEnv = False, needsInput = False,
     needsExecution = False, needsPrevNode = False\<rparr>"

definition markNeedsAllNodes :: "BuiltInsParserState \<Rightarrow> BuiltInsParserState" where
  "markNeedsAllNodes s = s\<lparr>needsAllNodes := True, needsInput := True, neededNodeNames := []\<rparr>"

definition markNodeAsNeeded :: "string \<Rightarrow> BuiltInsParserState \<Rightarrow> BuiltInsParserState" where
  "markNodeAsNeeded n s =
     (if needsAllNodes s then s else s\<lparr>neededNodeNames := set_add n (neededNodeNames s)\<rparr>)"

definition toDataRequestParams ::
  "InputDataChunkDefinition option \<Rightarrow> BuiltInsParserState \<Rightarrow> TaskDataRequestParams" where
  "toDataRequestParams chunk s =
     \<lparr>dataOfNodes = (if needsAllNodes s then AllNodes else OnlyNodes (neededNodeNames s)),
      needPrevNode = needsPrevNode s, includeInput = needsInput s, inputChunk = chunk, needEnv = needsEnv s\<rparr>"

definition newNeedsAllDataState :: BuiltInsParserState where
  "newNeedsAllDataState =
     (markNeedsAllNodes newBuiltInsState)
       \<lparr>needsEnv := True, needsInput := True, needsExecution := True, needsPrevNode := True\<rparr>"

text \<open>Nodes of the syntax tree, as far as the visitors look at them.\<close>

datatype ast =
    AstIdentifier string
  | AstString string
  | AstLiteral
  | AstOther

datatype ast_parent =
    MemberOf bool ast
  | DeclaratorOf
  | AssignmentOf
  | OtherParent

datatype ast_visit =
    VisitCall ast "ast list" ast_parent
  | VisitIdentifier string

definition isPairedItemProperty :: "string \<Rightarrow> bool" where
  "isPairedItemProperty p \<longleftrightarrow> p = ''item'' \<or> p = ''pairedItem'' \<or> p = ''itemMatching''"

fun handlePrevNodeCall :: "ast_parent \<Rightarrow> BuiltInsParserState \<Rightarrow> BuiltInsParserState" where
  "handlePrevNodeCall (MemberOf True (AstString p)) s =
     (if isPairedItemProperty p then markNeedsAllNodes s else s)"
| "handlePrevNodeCall (MemberOf True (AstIdentifier v)) s = markNeedsAllNodes s"
| "handlePrevNodeCall (MemberOf False (AstIdentifier p)) s =
     (if isPairedItemProperty p then markNeedsAllNodes s else s)"
| "handlePrevNodeCall (MemberOf computed property) s = s"
| "handlePrevNodeCall DeclaratorOf s = markNeedsAllNodes s"
| "handlePrevNodeCall AssignmentOf s = markNeedsAllNodes s"
| "handlePrevNodeCall OtherParent s = markNeedsAllNodes s"

fun visitCallExpression :: "ast \<Rightarrow> ast list \<Rightarrow> ast_parent \<Rightarrow> BuiltInsParserState \<Rightarrow> BuiltInsParserState" where
  "visitCallExpression callee [] parent s = s"
| "visitCallExpression callee (firstArg # args) parent s =
     (if callee \<noteq> AstIdentifier ''$'' then s
      else case firstArg of
             AstString n \<Rightarrow> handlePrevNodeCall parent (markNodeAsNeeded n s)
           | AstLiteral \<Rightarrow> s
           | _ \<Rightarrow> markNeedsAllNodes s)"

definition visitIdentifier :: "string \<Rightarrow> BuiltInsParserState \<Rightarrow> BuiltInsParserState" where
  "visitIdentifier name s =
     (if name = ''$env'' then s\<lparr>needsEnv := True\<rparr>
      else if name = ''$item'' then markNeedsAllNodes s
      else if name = ''$input'' \<or> name = ''$json'' \<or> name = ''items'' \<or> name = ''item'' then s\<lparr>needsInput := True\<rparr>
      else if name = ''$node'' then markNeedsAllNodes s
      else if name = ''$execution'' then s\<lparr>needsExecution := True\<rparr>
      else if name = ''$prevNode'' then s\<lparr>needsPrevNode := True\<rparr>
      else s)"

fun visit :: "ast_visit \<Rightarrow> BuiltInsParserState \<Rightarrow> BuiltInsParserState" where
  "visit (VisitCall callee args parent) s = visitCallExpression callee args parent s"
| "visit (VisitIdentifier name) s = visitIdentifier name s"

definition identifyBuiltIns :: "ast_visit list \<Rightarrow> BuiltInsParserState" where
  "identifyBuiltIns visits = fold visit visits newBuiltInsState"

text \<open>Code that cannot be parsed is taken to need all data.\<close>

definition neededBuiltIns :: "ast_visit list option \<Rightarrow> BuiltInsParserState" where
  "neededBuiltIns parsed = (case parsed of None \<Rightarrow> newNeedsAllDataState | Some visits \<Rightarrow> identifyBuiltIns visits)"


section \<open>What is sent\<close>

record EnvProviderState =
  envVars :: "(string, string) js_map"
  isEnvAccessBlocked :: bool
  isProcessAvailable :: bool

text \<open>The response; fields that are copied as they are and never read are left out.\<close>

record DataRequestResponse =
  drConnections :: IConnections
  drNodes :: "INode list"
  drPinData :: "IPinData option"
  drInputData :: ITaskDataConnections
  drInputSource :: "ITaskDataConnectionsSource option"
  drNode :: INode
  drItemIndex :: nat
  drRunIndex :: nat
  drEnv :: EnvProviderState
  drRunData :: IRunExecutionData

text \<open>The data of the task that the requester keeps.\<close>

record TaskDataOfNode =
  tdWorkflow :: Workflow
  tdInputData :: ITaskDataConnections
  tdExecuteData :: "IExecuteData option"
  tdNode :: INode
  tdItemIndex :: nat
  tdRunIndex :: nat
  tdEnv :: EnvProviderState
  tdRunData :: IRunExecutionData

definition buildRunExecutionData :: "IRunExecutionData \<Rightarrow> IRunExecutionData" where
  "buildRunExecutionData r =
     r\<lparr>nodeExecutionStack := [], waitingExecution := [], waitingExecutionSource := [], waitTill := None\<rparr>"

definition buildFromTaskData :: "TaskDataOfNode \<Rightarrow> DataRequestResponse" where
  "buildFromTaskData t =
     \<lparr>drConnections = connectionsBySourceNode (tdWorkflow t), drNodes = map_values (wfNodes (tdWorkflow t)),
      drPinData = wfPinData (tdWorkflow t), drInputData = tdInputData t,
      drInputSource = (case tdExecuteData t of None \<Rightarrow> None | Some d \<Rightarrow> execSource d),
      drNode = tdNode t, drItemIndex = tdItemIndex t, drRunIndex = tdRunIndex t, drEnv = tdEnv t,
      drRunData = buildRunExecutionData (tdRunData t)\<rparr>"

definition firstMain :: "(NodeConnectionType, 'a slot list) js_map \<Rightarrow> 'a option" where
  "firstMain m = (case map_get m Main of Some (Data x # rest) \<Rightarrow> Some x | _ \<Rightarrow> None)"

definition determinePrevNodeName :: "DataRequestResponse \<Rightarrow> string" where
  "determinePrevNodeName dr =
     (case drInputSource dr of
        None \<Rightarrow> []
      | Some source \<Rightarrow> (case firstMain source of None \<Rightarrow> [] | Some sourceData \<Rightarrow> previousNode sourceData))"

definition requestedNodeNames :: "TaskDataRequestParams \<Rightarrow> string list \<Rightarrow> DataRequestResponse \<Rightarrow> string list" where
  "requestedNodeNames p names dr = (if needPrevNode p then set_add (determinePrevNodeName dr) names else names)"

definition stripChunkedInputData :: "InputDataChunkDefinition \<Rightarrow> ITaskDataConnections \<Rightarrow> ITaskDataConnections" where
  "stripChunkedInputData chunk inputData =
     (case firstMain inputData of
        None \<Rightarrow> inputData
      | Some items \<Rightarrow> map_put Main [Data (take (chunkCount chunk) (drop (startIndex chunk) items))] inputData)"

definition stripInputData :: "TaskDataRequestParams \<Rightarrow> ITaskDataConnections \<Rightarrow> ITaskDataConnections" where
  "stripInputData p inputData =
     (if \<not> includeInput p then []
      else case inputChunk p of None \<Rightarrow> inputData | Some chunk \<Rightarrow> stripChunkedInputData chunk inputData)"

definition stripEnvProviderState :: "TaskDataRequestParams \<Rightarrow> EnvProviderState \<Rightarrow> EnvProviderState" where
  "stripEnvProviderState p e = (if needEnv p then e else e\<lparr>envVars := []\<rparr>)"

definition filterObjectByNodeNames :: "string list \<Rightarrow> (string, 'a) js_map \<Rightarrow> (string, 'a) js_map" where
  "filterObjectByNodeNames names obj = filter (\<lambda>(nodeName, x). nodeName \<in> set names) obj"

definition stripRunExecutionData ::
  "TaskDataRequestParams \<Rightarrow> DataRequestResponse \<Rightarrow> IRunExecutionData \<Rightarrow> IRunExecutionData" where
  "stripRunExecutionData p dr r =
     (case dataOfNodes p of
        AllNodes \<Rightarrow> r
      | OnlyNodes names \<Rightarrow>
          (let names = requestedNodeNames p names dr
           in r\<lparr>resultRunData := filterObjectByNodeNames names (resultRunData r),
                resultPinData := map_option (filterObjectByNodeNames names) (resultPinData r),
                waitTill := None\<rparr>))"

definition strip :: "TaskDataRequestParams \<Rightarrow> DataRequestResponse \<Rightarrow> DataRequestResponse" where
  "strip p dr =
     dr\<lparr>drInputData := stripInputData p (drInputData dr), drEnv := stripEnvProviderState p (drEnv dr),
        drRunData := stripRunExecutionData p dr (drRunData dr)\<rparr>"


section \<open>What the runner rebuilds\<close>

text \<open>\<open>Array.from\<close> takes a negative length as zero, as the subtraction of natural numbers does.\<close>

definition reconstructConnectionInputItems ::
  "ITaskDataConnections \<Rightarrow> InputDataChunkDefinition option \<Rightarrow> INodeExecutionData option list" where
  "reconstructConnectionInputItems inputData chunk =
     (let inputItems = (case firstMain inputData of None \<Rightarrow> [] | Some items \<Rightarrow> items)
      in case chunk of
           None \<Rightarrow> map Some inputItems
         | Some c \<Rightarrow> replicate (startIndex c) None @ map Some inputItems @
             replicate (length inputItems - startIndex c - chunkCount c) None)"

end
