(* ===== verification/Code_Node.thy ===== *)
theory Code_Node
  imports Task_Data
begin

text \<open>
  The Code node in the mode \<open>Run Once for Each Item\<close>: JsTaskRunnerSandbox of
  packages/nodes-base/nodes/Code, which runs one task for each chunk of items, and what the JavaScript
  runner (js-task-runner.ts, result-validation.ts) does for the items of a chunk. The user's code, run
  in a context of its own, is a parameter: from the array of input items and the index of the current
  item it gives a value or throws.
\<close>

datatype CodeResult = CodeReturns "jval option" | CodeThrows string

record CodeEnv =
  userCode :: "INodeExecutionData option list \<Rightarrow> nat \<Rightarrow> CodeResult"
  continueCode :: bool

record CodeItem =
  codeJson :: jval
  codeBinary :: "jval option"
  codePaired :: nat

type_synonym 'a code_res = "string + 'a"

text \<open>The messages of a ValidationError end with the index of the item.\<close>

definition validationError :: "string \<Rightarrow> nat \<Rightarrow> string" where
  "validationError msg itemIndex = msg @ '' [item '' @ show_nat itemIndex @ '']''"

definition isObject :: "jval \<Rightarrow> bool" where
  "isObject v = (case v of JObj x \<Rightarrow> True | _ \<Rightarrow> False)"

text \<open>\<open>normalizeItems\<close> for an array of one object.\<close>

definition normalizeItem :: "(string \<times> jval) list \<Rightarrow> (string \<times> jval) list" where
  "normalizeItem item =
     (if map_get item ''json'' \<noteq> None then item
      else case map_get item ''binary'' of
             Some binary \<Rightarrow> [(''json'', JObj (map_del ''binary'' item)), (''binary'', binary)]
           | None \<Rightarrow> [(''json'', JObj item)])"

definition REQUIRED_N8N_ITEM_KEYS :: "string list" where
  "REQUIRED_N8N_ITEM_KEYS = [''json'', ''binary'', ''pairedItem'', ''error'', ''index'']"

definition validateItem :: "(string \<times> jval) list \<Rightarrow> nat \<Rightarrow> unit code_res" where
  "validateItem item itemIndex =
     (if (case map_get item ''json'' of None \<Rightarrow> True | Some j \<Rightarrow> \<not> isObject j)
      then Inl (validationError ''A 'json' property isn't an object'' itemIndex)
      else if (case map_get item ''binary'' of None \<Rightarrow> False | Some binary \<Rightarrow> \<not> isObject binary)
      then Inl (validationError ''A 'binary' property isn't an object'' itemIndex)
      else Inr ())"

definition validateTopLevelKeys :: "(string \<times> jval) list \<Rightarrow> nat \<Rightarrow> unit code_res" where
  "validateTopLevelKeys item itemIndex =
     (case filter (\<lambda>key. key \<notin> set REQUIRED_N8N_ITEM_KEYS) (map_keys item) of
        [] \<Rightarrow> Inr ()
      | key # rest \<Rightarrow> Inl (validationError (''Unknown top-level item key: '' @ key) itemIndex))"

definition validateRunForEachItemOutput :: "jval option \<Rightarrow> nat \<Rightarrow> (string \<times> jval) list code_res" where
  "validateRunForEachItemOutput result itemIndex =
     (case result of
        Some (JObj item) \<Rightarrow>
          (let returnData = normalizeItem item
           in case validateItem returnData itemIndex of
                Inl e \<Rightarrow> Inl e
              | Inr u \<Rightarrow> (case validateTopLevelKeys returnData itemIndex of
                            Inl e \<Rightarrow> Inl e | Inr u \<Rightarrow> Inr returnData))
      | Some (JArr xs) \<Rightarrow> Inl (validationError ''Code doesn't return a single object'' itemIndex)
      | _ \<Rightarrow> Inl (validationError ''Code doesn't return an object'' itemIndex))"

text \<open>
  One turn of the loop of \<open>runForEachItem\<close>: no item for \<open>null\<close>, an item for a valid object, and for an
  error either an item with its message or the end of the task.
\<close>

definition runItemCode :: "CodeEnv \<Rightarrow> INodeExecutionData option list \<Rightarrow> nat \<Rightarrow> CodeItem list code_res" where
  "runItemCode env items index =
     (let outcome = (case userCode env items index of
            CodeThrows msg \<Rightarrow> Inl msg
          | CodeReturns (Some JNull) \<Rightarrow> Inr []
          | CodeReturns result \<Rightarrow>
              (case validateRunForEachItemOutput result index of
                 Inl msg \<Rightarrow> Inl msg
               | Inr item \<Rightarrow> Inr [\<lparr>codeJson = (case map_get item ''json'' of None \<Rightarrow> JNull | Some j \<Rightarrow> j),
                               codeBinary = map_get item ''binary'', codePaired = index\<rparr>]))
      in case outcome of
           Inr returned \<Rightarrow> Inr returned
         | Inl msg \<Rightarrow> (if continueCode env
             then Inr [\<lparr>codeJson = JObj [(''error'', JStr msg)], codeBinary = None, codePaired = index\<rparr>]
             else Inl msg))"

fun runIndices :: "CodeEnv \<Rightarrow> INodeExecutionData option list \<Rightarrow> nat list \<Rightarrow> CodeItem list code_res" where
  "runIndices env items [] = Inr []"
| "runIndices env items (i # is) =
     (case runItemCode env items i of
        Inl e \<Rightarrow> Inl e
      | Inr xs \<Rightarrow> (case runIndices env items is of Inl e \<Rightarrow> Inl e | Inr ys \<Rightarrow> Inr (xs @ ys)))"

definition runForEachItem ::
  "CodeEnv \<Rightarrow> InputDataChunkDefinition option \<Rightarrow> INodeExecutionData option list \<Rightarrow> CodeItem list code_res" where
  "runForEachItem env chunk inputItems =
     (let chunkStartIdx = (case chunk of None \<Rightarrow> 0 | Some c \<Rightarrow> startIndex c);
          chunkEndIdx = (case chunk of None \<Rightarrow> length inputItems | Some c \<Rightarrow> startIndex c + chunkCount c)
      in runIndices env inputItems [chunkStartIdx..<chunkEndIdx])"

text \<open>\<open>executeTask\<close>: the data is requested, stripped by the requester, rebuilt, and the code is run.\<close>

definition executeTask ::
  "CodeEnv \<Rightarrow> ast_visit list option \<Rightarrow> DataRequestResponse \<Rightarrow> InputDataChunkDefinition option \<Rightarrow> CodeItem list code_res" where
  "executeTask env parsed dr chunk =
     (let params = toDataRequestParams chunk (neededBuiltIns parsed);
          response = strip params dr
      in runForEachItem env chunk (reconstructConnectionInputItems (drInputData response) chunk))"


section \<open>The sandbox of the node\<close>

definition ceil_div :: "nat \<Rightarrow> nat \<Rightarrow> nat" where
  "ceil_div n d = (n + d - 1) div d"

definition chunkInputItems :: "nat \<Rightarrow> nat \<Rightarrow> InputDataChunkDefinition list" where
  "chunkInputItems chunkSize numInputItems =
     (let numChunks = ceil_div numInputItems chunkSize
      in map (\<lambda>i. let startIdx = i * chunkSize; isLastChunk = (Suc i = numChunks)
                 in \<lparr>startIndex = startIdx, chunkCount = (if isLastChunk then numInputItems - startIdx else chunkSize)\<rparr>)
           [0..<numChunks])"

text \<open>A task for each chunk, one after the other; the first that fails ends the run.\<close>

fun runChunks ::
  "(InputDataChunkDefinition \<Rightarrow> CodeItem list code_res) \<Rightarrow> InputDataChunkDefinition list \<Rightarrow> CodeItem list code_res" where
  "runChunks startJob [] = Inr []"
| "runChunks startJob (chunk # chunks) =
     (case startJob chunk of
        Inl e \<Rightarrow> Inl e
      | Inr xs \<Rightarrow> (case runChunks startJob chunks of Inl e \<Rightarrow> Inl e | Inr ys \<Rightarrow> Inr (xs @ ys)))"

definition runCodeForEachItem ::
  "CodeEnv \<Rightarrow> ast_visit list option \<Rightarrow> DataRequestResponse \<Rightarrow> nat \<Rightarrow> nat \<Rightarrow> CodeItem list code_res" where
  "runCodeForEachItem env parsed dr chunkSize numInputItems =
     runChunks (\<lambda>chunk. executeTask env parsed dr (Some chunk)) (chunkInputItems chunkSize numInputItems)"

end
