(* ===== verification/Task_Data_Properties.thy ===== *)
theory Task_Data_Properties
  imports Code_Node
begin

text \<open>
  That a code task gets all the data its code names, that the items of a chunk arrive at their indices,
  and that running the code chunk by chunk gives what running it on all items gives.
\<close>


section \<open>The data that is named is sent\<close>

definition needs_more :: "BuiltInsParserState \<Rightarrow> BuiltInsParserState \<Rightarrow> bool" where
  "needs_more s t \<longleftrightarrow> (needsAllNodes s \<longrightarrow> needsAllNodes t) \<and>
     (set (neededNodeNames s) \<subseteq> set (neededNodeNames t) \<or> needsAllNodes t) \<and> (needsInput s \<longrightarrow> needsInput t) \<and>
     (needsEnv s \<longrightarrow> needsEnv t) \<and> (needsPrevNode s \<longrightarrow> needsPrevNode t)"

lemma needs_more_refl [simp]: "needs_more s s"
  by (simp add: needs_more_def)

lemma needs_more_trans: "needs_more s t \<Longrightarrow> needs_more t u \<Longrightarrow> needs_more s u"
  unfolding needs_more_def by blast

lemma needs_more_marks:
  "needs_more s (markNeedsAllNodes s)" "needs_more s (markNodeAsNeeded n s)"
  "needs_more s (visitIdentifier name s)"
  by (auto simp: needs_more_def markNeedsAllNodes_def markNodeAsNeeded_def visitIdentifier_def)

lemma needs_more_prevNode: "needs_more s (handlePrevNodeCall parent s)"
  by (induction parent s rule: handlePrevNodeCall.induct) (simp_all add: needs_more_marks)

lemma needs_more_visit: "needs_more s (visit v s)"
proof (cases v)
  case (VisitCall callee args parent)
  then show ?thesis
    by (cases args) (auto simp: needs_more_marks needs_more_prevNode split: ast.split
        intro: needs_more_trans [OF needs_more_marks(2) needs_more_prevNode])
qed (simp add: needs_more_marks)

lemma needs_more_fold: "needs_more s (fold visit vs s)"
  by (induction vs arbitrary: s) (auto intro: needs_more_trans [OF needs_more_visit])

text \<open>Once something is visited, what it marks stays marked.\<close>

lemma visited_marks:
  assumes "v \<in> set visits"
  shows "\<exists>s. needs_more (visit v s) (identifyBuiltIns visits)"
proof -
  obtain us ws where vs: "visits = us @ v # ws" using split_list [OF assms] by blast
  have "identifyBuiltIns visits = fold visit ws (visit v (fold visit us newBuiltInsState))"
    by (simp add: vs identifyBuiltIns_def)
  then show ?thesis using needs_more_fold by metis
qed

lemma named_node:
  assumes "VisitCall (AstIdentifier ''$'') (AstString n # args) parent \<in> set visits"
  shows "needsAllNodes (identifyBuiltIns visits) \<or> n \<in> set (neededNodeNames (identifyBuiltIns visits))"
proof -
  obtain s where "needs_more (handlePrevNodeCall parent (markNodeAsNeeded n s)) (identifyBuiltIns visits)"
    using visited_marks [OF assms] by auto
  moreover have "needs_more (markNodeAsNeeded n s) (handlePrevNodeCall parent (markNodeAsNeeded n s))"
    by (rule needs_more_prevNode)
  moreover have "needsAllNodes (markNodeAsNeeded n s) \<or> n \<in> set (neededNodeNames (markNodeAsNeeded n s))"
    by (simp add: markNodeAsNeeded_def)
  ultimately show ?thesis unfolding needs_more_def by blast
qed

lemma dynamic_node:
  assumes "VisitCall (AstIdentifier ''$'') (a # args) parent \<in> set visits" and "\<And>n. a \<noteq> AstString n" and "a \<noteq> AstLiteral"
  shows "needsAllNodes (identifyBuiltIns visits)"
proof -
  obtain s where s: "needs_more (visit (VisitCall (AstIdentifier ''$'') (a # args) parent) s) (identifyBuiltIns visits)"
    using visited_marks [OF assms(1)] by blast
  moreover have "visit (VisitCall (AstIdentifier ''$'') (a # args) parent) s = markNeedsAllNodes s"
    by (cases a) (use assms(2,3) in auto)
  ultimately show ?thesis by (simp add: needs_more_def markNeedsAllNodes_def)
qed

lemma named_input:
  assumes "VisitIdentifier name \<in> set visits" and "name \<in> {''$input'', ''$json'', ''items'', ''item''}"
  shows "needsInput (identifyBuiltIns visits)"
  using visited_marks [OF assms(1)] assms(2) by (auto simp: visitIdentifier_def needs_more_def)

lemma named_env: "VisitIdentifier ''$env'' \<in> set visits \<Longrightarrow> needsEnv (identifyBuiltIns visits)"
  using visited_marks [of "VisitIdentifier ''$env''" visits] by (auto simp: visitIdentifier_def needs_more_def)

lemma named_prevNode: "VisitIdentifier ''$prevNode'' \<in> set visits \<Longrightarrow> needsPrevNode (identifyBuiltIns visits)"
  using visited_marks [of "VisitIdentifier ''$prevNode''" visits] by (auto simp: visitIdentifier_def needs_more_def)

lemma all_needs_input:
  assumes "needsAllNodes (identifyBuiltIns visits)"
  shows "needsInput (identifyBuiltIns visits)"
proof -
  have p: "needsAllNodes (handlePrevNodeCall parent s) \<longrightarrow> needsInput (handlePrevNodeCall parent s)"
    if "needsAllNodes s \<longrightarrow> needsInput s" for parent s
    using that by (induction parent s rule: handlePrevNodeCall.induct) (simp_all add: markNeedsAllNodes_def)
  have "needsAllNodes (visit v s) \<longrightarrow> needsInput (visit v s)" if s: "needsAllNodes s \<longrightarrow> needsInput s" for v s
  proof (cases v)
    case (VisitCall callee args parent)
    then show ?thesis using s p [of "markNodeAsNeeded _ s" parent]
      by (cases args) (auto simp: markNeedsAllNodes_def markNodeAsNeeded_def split: ast.split if_splits)
  next
    case (VisitIdentifier name)
    then show ?thesis using s by (simp add: visitIdentifier_def markNeedsAllNodes_def)
  qed
  then have "needsAllNodes (fold visit visits s) \<longrightarrow> needsInput (fold visit visits s)"
    if "needsAllNodes s \<longrightarrow> needsInput s" for s
    using that by (induction visits arbitrary: s) simp_all
  from this [of newBuiltInsState] show ?thesis using assms by (simp add: identifyBuiltIns_def newBuiltInsState_def)
qed

lemma map_get_filterNames:
  "map_get (filterObjectByNodeNames names m) n = (if n \<in> set names then map_get m n else None)"
  by (induction m) (auto simp: filterObjectByNodeNames_def)



text \<open>
  An access by an expression that is neither a literal nor a variable, such as a template string, is not
  seen: the runs of the nodes in between, which \<open>.item\<close> needs, are not sent.
\<close>

lemma dynamic_access_missed:
  "dataOfNodes (toDataRequestParams None (neededBuiltIns (Some
     [VisitCall (AstIdentifier ''$'') [AstString ''A''] (MemberOf True AstOther)]))) = OnlyNodes [''A'']"
  by code_simp


section \<open>Chunks\<close>

definition chunk_indices :: "InputDataChunkDefinition \<Rightarrow> nat list" where
  "chunk_indices c = [startIndex c..<startIndex c + chunkCount c]"

lemma full_chunks: "concat (map (\<lambda>i. [i * d..<i * d + d]) [0..<k]) = [0..<k * d]"
proof (induction k)
  case (Suc k)
  then show ?case using upt_add_eq_append [of 0 "k * d" d] by (simp add: add.commute)
qed simp

lemma ceil_div_last:
  assumes "0 < d" and "ceil_div n d = Suc k"
  shows "k * d < n" "n \<le> k * d + d"
proof -
  have q: "(n + d - 1) div d = Suc k" using assms(2) by (simp add: ceil_div_def)
  have "Suc k * d \<le> n + d - 1" using q by (metis div_times_less_eq_dividend)
  then show "k * d < n" using assms(1) by simp
  have "n + d - 1 < Suc (Suc k) * d" using q assms(1) by (metis dividend_less_times_div mult.commute mult_Suc_right add.commute)
  then show "n \<le> k * d + d" using assms(1) by simp
qed

lemma chunks_partition:
  assumes "0 < d"
  shows "concat (map chunk_indices (chunkInputItems d n)) = [0..<n]"
    "c \<in> set (chunkInputItems d n) \<Longrightarrow> 0 < chunkCount c \<and> chunkCount c \<le> d \<and> startIndex c + chunkCount c \<le> n"
proof -
  have "concat (map chunk_indices (chunkInputItems d n)) = [0..<n] \<and> (\<forall>c \<in> set (chunkInputItems d n).
      0 < chunkCount c \<and> chunkCount c \<le> d \<and> startIndex c + chunkCount c \<le> n)"
  proof (cases "ceil_div n d")
    case 0
    then have "n = 0" using assms by (simp add: ceil_div_def div_eq_0_iff)
    then show ?thesis using 0 by (simp add: chunkInputItems_def)
  next
    case (Suc k)
    note last = ceil_div_last [OF assms Suc]
    have split: "chunkInputItems d n =
        map (\<lambda>i. \<lparr>startIndex = i * d, chunkCount = d\<rparr>) [0..<k] @ [\<lparr>startIndex = k * d, chunkCount = n - k * d\<rparr>]"
      by (simp add: chunkInputItems_def Suc Let_def)
    have "[0..<k * d] @ [k * d..<n] = [0..<n]" using last(1) by (metis le_add_diff_inverse less_imp_le_nat upt_add_eq_append zero_le)
    moreover have "i * d + d \<le> n" if "i < k" for i
    proof -
      have "Suc i * d \<le> k * d" using that by (intro mult_le_mono1) simp
      then show ?thesis using last(1) by simp
    qed
    ultimately show ?thesis
      using last assms unfolding split by (auto simp: chunk_indices_def o_def full_chunks)
  qed
  then show "concat (map chunk_indices (chunkInputItems d n)) = [0..<n]"
    "c \<in> set (chunkInputItems d n) \<Longrightarrow> 0 < chunkCount c \<and> chunkCount c \<le> d \<and> startIndex c + chunkCount c \<le> n"
    by blast+
qed

lemma firstMain_put [simp]: "firstMain (map_put Main [Data x] m) = Some x"
  by (simp add: firstMain_def)

text \<open>The array that the runner rebuilds from a chunk ends with the chunk.\<close>

lemma rebuilt_chunk:
  assumes "firstMain inputData = Some items" and "startIndex c + chunkCount c \<le> length items"
  shows "reconstructConnectionInputItems (stripChunkedInputData c inputData) (Some c) =
    replicate (startIndex c) None @ map Some (take (chunkCount c) (drop (startIndex c) items))"
  using assms by (simp add: reconstructConnectionInputItems_def stripChunkedInputData_def)

definition rebuilt :: "ITaskDataConnections \<Rightarrow> InputDataChunkDefinition \<Rightarrow> INodeExecutionData option list" where
  "rebuilt inputData c = reconstructConnectionInputItems (stripChunkedInputData c inputData) (Some c)"

lemma rebuilt_nth:
  assumes "firstMain inputData = Some items" and "startIndex c + chunkCount c \<le> length items" and "i \<in> set (chunk_indices c)"
  shows "i < length (rebuilt inputData c)" "rebuilt inputData c ! i = Some (items ! i)"
proof -
  have i: "startIndex c \<le> i" "i - startIndex c < chunkCount c" using assms(3) by (auto simp: chunk_indices_def)
  with assms(2) show "i < length (rebuilt inputData c)" "rebuilt inputData c ! i = Some (items ! i)"
    unfolding rebuilt_def rebuilt_chunk [OF assms(1,2)] by (simp_all add: nth_append)
qed

lemma runIndices_append:
  "runIndices env xs (is @ js) =
     (case runIndices env xs is of Inl e \<Rightarrow> Inl e
      | Inr a \<Rightarrow> (case runIndices env xs js of Inl e \<Rightarrow> Inl e | Inr b \<Rightarrow> Inr (a @ b)))"
  by (induction "is") (simp_all split: sum.splits)

definition looks_at_its_item :: "CodeEnv \<Rightarrow> bool" where
  "looks_at_its_item env \<longleftrightarrow>
     (\<forall>xs ys i. i < length xs \<longrightarrow> i < length ys \<longrightarrow> xs ! i = ys ! i \<longrightarrow> userCode env xs i = userCode env ys i)"

lemma runIndices_cong:
  assumes "looks_at_its_item env" and "\<And>i. i \<in> set is \<Longrightarrow> i < length xs \<and> i < length ys \<and> xs ! i = ys ! i"
  shows "runIndices env xs is = runIndices env ys is"
  using assms(2)
proof (induction "is")
  case (Cons i "is")
  have "userCode env xs i = userCode env ys i"
    using assms(1) Cons.prems [of i] unfolding looks_at_its_item_def by simp
  then have "runItemCode env xs i = runItemCode env ys i" by (simp add: runItemCode_def)
  moreover have "runIndices env xs is = runIndices env ys is" using Cons.prems by (intro Cons.IH) simp
  ultimately show ?case by (simp cong: sum.case_cong)
qed simp

lemma runChunks_concat:
  assumes "\<And>c. c \<in> set cs \<Longrightarrow> job c = runIndices env xs (chunk_indices c)"
  shows "runChunks job cs = runIndices env xs (concat (map chunk_indices cs))"
  using assms by (induction cs) (simp_all add: runIndices_append cong: sum.case_cong)


text \<open>Code that returns its item, on two items in chunks of one.\<close>

definition copy_env :: CodeEnv where
  "copy_env = \<lparr>userCode = (\<lambda>xs i. CodeReturns (map_option (\<lambda>d. JObj [(''json'', JObj (json d))]) (if i < length xs then xs ! i else None))),
     continueCode = False\<rparr>"

definition two_item_request :: DataRequestResponse where
  "two_item_request =
     \<lparr>drConnections = [], drNodes = [], drPinData = None,
      drInputData = [(Main, [Data [empty_item\<lparr>json := [(''a'', JNum 1)]\<rparr>, empty_item\<lparr>json := [(''b'', JNum 2)]\<rparr>]])],
      drInputSource = None, drNode = plain_node 0 ''C'' ''code'', drItemIndex = 0, drRunIndex = 0,
      drEnv = \<lparr>envVars = [], isEnvAccessBlocked = False, isProcessAvailable = False\<rparr>,
      drRunData = \<lparr>startDestinationNode = None, startRunNodeFilter = None, resultRunData = [],
        resultPinData = None, resultError = None, lastNodeExecuted = None, nodeExecutionStack = [],
        executionMetadata = [], waitingExecution = [], waitingExecutionSource = [], waitTill = None\<rparr>\<rparr>"


text \<open>
  The rebuilt array is not padded behind the chunk, as the length of the padding is computed from the
  length of the chunk: of two items, the first chunk of one item gives an array of one.
\<close>

lemma rebuilt_too_short: "length (rebuilt (drInputData two_item_request) \<lparr>startIndex = 0, chunkCount = 1\<rparr>) = 1"
  by (simp add: rebuilt_def two_item_request_def reconstructConnectionInputItems_def stripChunkedInputData_def firstMain_def)

end
