(* ===== verification/Loop_Node.thy ===== *)
theory Loop_Node
  imports Workflow_Types
begin

text \<open>
  The node Loop Over Items, \<open>execute\<close> of packages/nodes-base/nodes/SplitInBatches/v3/SplitInBatchesV3.node.ts,
  whose context is kept between its runs, and the loop that a workflow makes with it. Items are values:
  that later runs change the paired item of objects that the run data of another node may share is
  not modelled.
\<close>

record LoopPair =
  lpItem :: nat
  lpInput :: "nat option"
  sourceOverwrite :: "ISourceData option"

datatype LoopPaired = LpOne LoopPair | LpMany "LoopPair list" | LpNumber nat

record LoopItem =
  loopJson :: IDataObject
  loopPaired :: "LoopPaired option"

text \<open>\<open>maxRunIndex\<close> is \<open>None\<close> where a division by zero makes it no number.\<close>

record LoopContext =
  ctxItems :: "LoopItem list option"
  currentRunIndex :: nat
  maxRunIndex :: "int option"
  ctxSourceData :: ISourceData
  processedItems :: "LoopItem list"
  noItemsLeft :: bool
  ctxDone :: bool

record LoopParams =
  batchSize :: int
  resetOption :: bool

definition emptySource :: ISourceData where
  "emptySource = \<lparr>previousNode = [], previousNodeOutput = None, previousNodeRun = None\<rparr>"

definition newContext :: LoopContext where
  "newContext = \<lparr>ctxItems = None, currentRunIndex = 0, maxRunIndex = None, ctxSourceData = emptySource,
     processedItems = [], noItemsLeft = False, ctxDone = False\<rparr>"

text \<open>\<open>splice(0, n)\<close>: what it removes and what it leaves.\<close>

definition splice :: "int \<Rightarrow> 'a list \<Rightarrow> 'a list \<times> 'a list" where
  "splice n xs = (take (nat n) xs, drop (nat n) xs)"

definition addSourceOverwrite :: "ISourceData \<Rightarrow> LoopPair \<Rightarrow> LoopPair" where
  "addSourceOverwrite source p = p\<lparr>sourceOverwrite := Some source\<rparr>"

definition getPairedItemInformation :: "ISourceData \<Rightarrow> LoopItem \<Rightarrow> LoopPaired" where
  "getPairedItemInformation source item =
     (case loopPaired item of
        None \<Rightarrow> LpOne \<lparr>lpItem = 0, lpInput = None, sourceOverwrite = Some source\<rparr>
      | Some (LpMany ps) \<Rightarrow> LpMany (map (addSourceOverwrite source) ps)
      | Some (LpOne p) \<Rightarrow> LpOne (addSourceOverwrite source p)
      | Some (LpNumber n) \<Rightarrow> LpOne \<lparr>lpItem = n, lpInput = None, sourceOverwrite = Some source\<rparr>)"

definition tagItems :: "ISourceData \<Rightarrow> LoopItem list \<Rightarrow> LoopItem list" where
  "tagItems source items =
     map (\<lambda>(index, item). item\<lparr>loopPaired := Some (LpOne \<lparr>lpItem = index, lpInput = None, sourceOverwrite = Some source\<rparr>)\<rparr>)
       (enumerate 0 items)"

text \<open>The outputs are \<open>done\<close> and \<open>loop\<close>.\<close>

definition executeLoop ::
  "LoopParams \<Rightarrow> ISourceData \<Rightarrow> LoopItem list \<Rightarrow> LoopContext \<Rightarrow> (LoopItem list \<times> LoopItem list) \<times> LoopContext" where
  "executeLoop params sourceData items ctx =
     (let (returnItems, ctx) =
        (case (if resetOption params then None else ctxItems ctx) of
           None \<Rightarrow>
             (let (returnItems, rest) = splice (batchSize params) items
              in (returnItems, ctx\<lparr>currentRunIndex := 0,
                   maxRunIndex := (if batchSize params = 0 then None
                     else Some \<lceil>rat_of_nat (length items) / rat_of_int (batchSize params)\<rceil>),
                   ctxSourceData := sourceData, ctxItems := Some rest, processedItems := []\<rparr>))
         | Some left \<Rightarrow>
             (let (returnItems, rest) = splice (batchSize params) left
              in (map (\<lambda>item. item\<lparr>loopPaired := Some (getPairedItemInformation (ctxSourceData ctx) item)\<rparr>) returnItems,
                  ctx\<lparr>currentRunIndex := Suc (currentRunIndex ctx), ctxItems := Some rest,
                      processedItems := processedItems ctx @ tagItems sourceData items\<rparr>)));
        ctx = ctx\<lparr>noItemsLeft := (ctxItems ctx = Some [])\<rparr>
      in if returnItems = [] then ((processedItems ctx, []), ctx\<lparr>ctxDone := True\<rparr>)
         else (([], returnItems), ctx\<lparr>ctxDone := False\<rparr>))"

text \<open>
  The loop of a workflow: what the node puts on the output \<open>loop\<close> goes through the nodes of the loop
  body, with whatever source and items they end in, and back into the node. The result is the
  batches, and what is put on the output \<open>done\<close> in the end, if it ends within the given number of runs.
\<close>

fun runLoop ::
  "nat \<Rightarrow> (LoopItem list \<Rightarrow> ISourceData \<times> LoopItem list) \<Rightarrow> LoopParams \<Rightarrow> ISourceData \<Rightarrow> LoopItem list \<Rightarrow> LoopContext
     \<Rightarrow> LoopItem list list \<times> (LoopItem list \<times> LoopContext) option" where
  "runLoop 0 body params source items ctx = ([], None)"
| "runLoop (Suc n) body params source items ctx =
     (let ((doneItems, batch), ctx') = executeLoop params source items ctx
      in if batch = [] then ([], Some (doneItems, ctx'))
         else (let (source', results) = body batch;
                   (batches, result) = runLoop n body params source' results ctx'
               in (batch # batches, result)))"

end
