(* ===== verification/Loop_Properties.thy ===== *)
theory Loop_Properties
  imports Loop_Node
begin

text \<open>
  The loop that a workflow makes with the node Loop Over Items ends, and gives every item to its body
  once.
\<close>

definition results_of :: "(LoopItem list \<Rightarrow> ISourceData \<times> LoopItem list) \<Rightarrow> LoopItem list \<Rightarrow> LoopItem list" where
  "results_of body batch = tagItems (fst (body batch)) (snd (body batch))"

text \<open>All batches but the last are full.\<close>

definition batched :: "nat \<Rightarrow> LoopItem list list \<Rightarrow> bool" where
  "batched k batches \<longleftrightarrow> (\<forall>b \<in> set batches. b \<noteq> [] \<and> length b \<le> k) \<and> (\<forall>b \<in> set (butlast batches). length b = k)"

lemma batched_simps [simp]:
  "batched k []"
  "batched k (b # batches) \<longleftrightarrow> b \<noteq> [] \<and> length b \<le> k \<and> (batches \<noteq> [] \<longrightarrow> length b = k) \<and> batched k batches"
  by (auto simp: batched_def)

lemma length_batched:
  assumes "0 < k" and "batched k batches"
  shows "length batches = (length (concat batches) + k - 1) div k"
  using assms(2)
proof (induction batches)
  case (Cons b batches)
  show ?case
  proof (cases batches)
    case Nil
    then have "0 < length b" "length b \<le> k" using Cons.prems by simp_all
    then have "k \<le> length b + k - 1" "length b + k - 1 < k + k" by linarith+
    then have "(length b + k - 1) div k = 1" by (intro div_nat_eqI) simp_all
    then show ?thesis by (simp add: Nil)
  next
    case (Cons c cs)
    then have "length b = k" "batched k batches" "concat batches \<noteq> []" using Cons.prems by auto
    then have e: "length (concat (b # batches)) + k - 1 = k + (length (concat batches) + k - 1)"
      by (cases "concat batches") simp_all
    have "(length (concat (b # batches)) + k - 1) div k = Suc ((length (concat batches) + k - 1) div k)"
      unfolding e using assms(1) by (subst div_add_self1) simp_all
    then show ?thesis using Cons.IH \<open>batched k batches\<close> by simp
  qed
qed (use assms(1) in simp)

lemma executeLoop_next:
  assumes "\<not> resetOption p" and "ctxItems ctx = Some left" and "1 \<le> batchSize p"
    and "executeLoop p source items ctx = ((doneItems, batch), ctx')"
  shows "map loopJson batch = map loopJson (take (nat (batchSize p)) left)"
    "ctxItems ctx' = Some (drop (nat (batchSize p)) left)"
    "processedItems ctx' = processedItems ctx @ tagItems source items"
    "batch = [] \<Longrightarrow> doneItems = processedItems ctx' \<and> ctxDone ctx'"
    "noItemsLeft ctx' \<longleftrightarrow> length left \<le> nat (batchSize p)"
  using assms by (auto simp: executeLoop_def splice_def Let_def split: if_splits)

lemma runLoop_continues:
  assumes "\<not> resetOption p" and "1 \<le> batchSize p" and "ctxItems ctx = Some left" and "length left < n"
  shows "\<exists>batches ctx'. runLoop n body p source items ctx =
      (batches, Some (processedItems ctx @ tagItems source items @ concat (map (results_of body) batches), ctx')) \<and>
    map loopJson (concat batches) = map loopJson left \<and> batched (nat (batchSize p)) batches \<and>
    ctxItems ctx' = Some [] \<and> ctxDone ctx' \<and> noItemsLeft ctx'"
  using assms(3,4)
proof (induction n arbitrary: source items ctx left)
  case (Suc n)
  obtain doneItems batch ctx' where ex: "executeLoop p source items ctx = ((doneItems, batch), ctx')"
    by (metis prod.exhaust)
  note nxt = executeLoop_next [OF assms(1) Suc.prems(1) assms(2) ex]
  show ?case
  proof (cases "batch = []")
    case True
    then have "take (nat (batchSize p)) left = []" using nxt(1) by simp
    then have "left = []" using assms(2) by auto
    then show ?thesis using nxt(2,3,5) nxt(4) [OF True] True ex by simp
  next
    case False
    let ?k = "nat (batchSize p)"
    obtain source' results where b: "body batch = (source', results)" by (cases "body batch")
    have left: "left \<noteq> []" using nxt(1) False by auto
    then have "length (drop ?k left) < n" using Suc.prems(2) assms(2) by (cases left) auto
    from Suc.IH [OF nxt(2) this] obtain batches ctx'' where run: "runLoop n body p source' results ctx' =
        (batches, Some (processedItems ctx' @ tagItems source' results @ concat (map (results_of body) batches), ctx''))"
      and js: "map loopJson (concat batches) = map loopJson (drop ?k left)" and bat: "batched ?k batches"
      and fin: "ctxItems ctx'' = Some []" "ctxDone ctx''" "noItemsLeft ctx''"
      by blast
    have len: "length batch = min (length left) ?k" using nxt(1) by (metis length_map length_take)
    have "length batch = ?k" if "batches \<noteq> []"
    proof -
      have "concat batches \<noteq> []" using that bat by (cases batches) auto
      then have "drop ?k left \<noteq> []" using js by auto
      then show ?thesis using len by simp
    qed
    then have "batched ?k (batch # batches)" using False len bat by simp
    moreover have "map loopJson (concat (batch # batches)) = map loopJson left"
      using nxt(1) js by (metis concat.simps(2) map_append append_take_drop_id)
    moreover have "runLoop (Suc n) body p source items ctx = (batch # batches,
        Some (processedItems ctx @ tagItems source items @ concat (map (results_of body) (batch # batches)), ctx''))"
      using False by (simp add: ex b run nxt(3) results_of_def)
    ultimately show ?thesis using fin by blast
  qed
qed simp



text \<open>
  A node that finished a loop and runs again without the option \<open>reset\<close>, as in a loop inside a loop,
  takes the new items for results and puts all processed items on the output \<open>done\<close>.
\<close>

lemma finished_loop_runs_again:
  assumes "\<not> resetOption p" and "ctxItems ctx = Some []"
  shows "fst (executeLoop p source items ctx) = (processedItems ctx @ tagItems source items, [])"
  using assms by (simp add: executeLoop_def splice_def Let_def)

text \<open>With a batch size below one, the items go to neither output.\<close>

lemma no_batch_loses_items:
  assumes "batchSize p < 1" and "ctxItems ctx = None"
  shows "fst (executeLoop p source items ctx) = ([], [])"
  using assms by (simp add: executeLoop_def splice_def Let_def)

end
