(* ===== verification/Execution_Recovery.thy ===== *)
theory Execution_Recovery
  imports Workflow_Types
begin

text \<open>
  ExecutionRecoveryService of packages/cli/src/executions/execution-recovery.service.ts: an execution
  that was cut off by a crash is amended from the event log. Times are milliseconds. The database is a
  map from ids to executions, with the operations of ExecutionRepository
  (databases/repositories/execution.repository.ts) that are used; the hooks and the message to the
  editor that follow are recorded.
\<close>

record TimedTaskData = ITaskData +
  startTime :: int
  executionTime :: int

record ResultData =
  recRunData :: "(string, TimedTaskData list) js_map"
  recError :: "string option"
  recLastNode :: "string option"

record ExecutionResponse =
  erStatus :: ExecutionStatus
  erStoppedAt :: "int option"
  erData :: "ResultData option"
  erNodes :: "string list"

record EventMessage =
  eventName :: string
  eventNode :: "string option"
  eventTs :: int

record RecoveryState =
  dbExecutions :: "(string, ExecutionResponse) js_map"
  hooksRun :: "(string \<times> ExecutionResponse) list"
  onEditorConnected :: "string list"

definition startsWith :: "string \<Rightarrow> string \<Rightarrow> bool" where
  "startsWith p s \<longleftrightarrow> take (length p) s = p"

definition toRelevantMessages :: "EventMessage list \<Rightarrow> EventMessage list \<times> EventMessage list" where
  "toRelevantMessages messages =
     fold (\<lambda>cur (nodeMessages, workflowMessages).
        if startsWith ''n8n.node.'' (eventName cur) then (nodeMessages @ [cur], workflowMessages)
        else if startsWith ''n8n.workflow.'' (eventName cur) then (nodeMessages, workflowMessages @ [cur])
        else (nodeMessages, workflowMessages)) messages ([], [])"

definition WORKFLOW_END_EVENTS :: "string list" where
  "WORKFLOW_END_EVENTS = [''n8n.workflow.success'', ''n8n.workflow.crashed'', ''n8n.workflow.failed'']"

definition toStoppedAt :: "int option \<Rightarrow> EventMessage list \<Rightarrow> int option" where
  "toStoppedAt timestamp messages =
     (case timestamp of
        Some t \<Rightarrow> Some t
      | None \<Rightarrow> (case List.find (\<lambda>m. eventName m \<in> set WORKFLOW_END_EVENTS) messages of
                  Some m \<Rightarrow> Some (eventTs m)
                | None \<Rightarrow> map_option eventTs (List.find (\<lambda>m. eventName m = ''n8n.workflow.started'') messages)))"

definition findNodeMessage :: "string \<Rightarrow> string \<Rightarrow> EventMessage list \<Rightarrow> EventMessage option" where
  "findNodeMessage event node messages = List.find (\<lambda>m. eventNode m = Some node \<and> eventName m = event) messages"

definition ARTIFICIAL_TASK_DATA :: ITaskDataConnections where
  "ARTIFICIAL_TASK_DATA =
     [(Main, [Data [empty_item\<lparr>json := [(''isArtificialRecoveredEventItem'', JBool True)]\<rparr>]])]"

definition nodeCrashedMessage :: string where
  "nodeCrashedMessage = ''Execution stopped at this node''"

definition workflowCrashedMessage :: string where
  "workflowCrashedMessage = ''Workflow did not finish, possible out-of-memory issue''"

definition artificialTask :: "EventMessage \<Rightarrow> EventMessage option \<Rightarrow> TimedTaskData" where
  "artificialTask started finished =
     (let task = \<lparr>taskData = None, taskStatus = None, taskError = None, taskSource = [Null], taskMetadata = None,
                   startTime = eventTs started div 1000, executionTime = -1\<rparr>
      in case finished of
           Some m \<Rightarrow> task\<lparr>taskStatus := Some StSuccess, taskData := Some ARTIFICIAL_TASK_DATA,
                         executionTime := eventTs m - eventTs started\<rparr>
         | None \<Rightarrow> task\<lparr>taskStatus := Some StCrashed, taskError := Some nodeCrashedMessage, executionTime := 0\<rparr>)"

text \<open>One turn of the loop over the nodes of the workflow.\<close>

definition amendNode :: "EventMessage list \<Rightarrow> string \<Rightarrow> ResultData \<times> int option \<Rightarrow> ResultData \<times> int option" where
  "amendNode nodeMessages node = (\<lambda>(run, lastNodeRunTimestamp).
     case findNodeMessage ''n8n.node.started'' node nodeMessages of
       None \<Rightarrow> (run, lastNodeRunTimestamp)
     | Some started \<Rightarrow>
         (if map_get (recRunData run) node \<noteq> None then (run, lastNodeRunTimestamp)
          else (let finished = findNodeMessage ''n8n.node.finished'' node nodeMessages;
                    run = (if finished = None then run\<lparr>recError := Some workflowCrashedMessage\<rparr> else run)
                in (run\<lparr>recLastNode := Some node,
                        recRunData := map_put node [artificialTask started finished] (recRunData run)\<rparr>,
                    Some (case finished of Some m \<Rightarrow> eventTs m | None \<Rightarrow> eventTs started)))))"

definition emptyResult :: ResultData where
  "emptyResult = \<lparr>recRunData = [], recError = None, recLastNode = None\<rparr>"

definition amendWithoutLogs :: "int \<Rightarrow> string \<Rightarrow> RecoveryState \<Rightarrow> ExecutionResponse option \<times> RecoveryState" where
  "amendWithoutLogs now executionId s =
     (case map_get (dbExecutions s) executionId of
        None \<Rightarrow> (None, s)
      | Some e \<Rightarrow>
          (let crashed = e\<lparr>erStatus := StCrashed, erStoppedAt := Some now\<rparr>
           in (Some crashed, s\<lparr>dbExecutions := map_put executionId crashed (dbExecutions s)\<rparr>)))"

definition amend :: "int \<Rightarrow> string \<Rightarrow> EventMessage list \<Rightarrow> RecoveryState \<Rightarrow> ExecutionResponse option \<times> RecoveryState" where
  "amend now executionId messages s =
     (if messages = [] then amendWithoutLogs now executionId s
      else (let (nodeMessages, workflowMessages) = toRelevantMessages messages
            in if nodeMessages = [] then (None, s)
               else case map_get (dbExecutions s) executionId of
                      None \<Rightarrow> (None, s)
                    | Some execution \<Rightarrow>
                        (if erStatus execution = StSuccess \<and> erData execution \<noteq> None then (None, s)
                         else (let (run, lastNodeRunTimestamp) = fold (amendNode nodeMessages) (erNodes execution)
                                     (case erData execution of None \<Rightarrow> emptyResult | Some d \<Rightarrow> d, None)
                               in (Some (execution\<lparr>erStatus := (if erStatus execution = StError then StError else StCrashed),
                                     erStoppedAt := toStoppedAt lastNodeRunTimestamp workflowMessages,
                                     erData := Some run\<rparr>), s)))))"

text \<open>A field that is not set is not updated.\<close>

definition updateExistingExecution :: "string \<Rightarrow> ExecutionResponse \<Rightarrow> RecoveryState \<Rightarrow> RecoveryState" where
  "updateExistingExecution executionId e s =
     (case map_get (dbExecutions s) executionId of
        None \<Rightarrow> s
      | Some old \<Rightarrow>
          s\<lparr>dbExecutions := map_put executionId
              (e\<lparr>erStoppedAt := (case erStoppedAt e of None \<Rightarrow> erStoppedAt old | Some t \<Rightarrow> Some t),
                 erData := (case erData e of None \<Rightarrow> erData old | Some d \<Rightarrow> Some d)\<rparr>) (dbExecutions s)\<rparr>)"

definition runHooks :: "string \<Rightarrow> ExecutionResponse \<Rightarrow> RecoveryState \<Rightarrow> ExecutionResponse \<times> RecoveryState" where
  "runHooks executionId e s =
     (let e = e\<lparr>erData := Some (case erData e of None \<Rightarrow> emptyResult | Some d \<Rightarrow> d)\<rparr>
      in (e, s\<lparr>hooksRun := hooksRun s @ [(executionId, e)]\<rparr>))"

definition recoverFromLogs ::
  "bool \<Rightarrow> int \<Rightarrow> string \<Rightarrow> EventMessage list \<Rightarrow> RecoveryState \<Rightarrow> ExecutionResponse option \<times> RecoveryState" where
  "recoverFromLogs isFollower now executionId messages s =
     (if isFollower then (None, s)
      else case amend now executionId messages s of
             (None, s) \<Rightarrow> (None, s)
           | (Some amended, s) \<Rightarrow>
               (let (amended, s) = runHooks executionId amended (updateExistingExecution executionId amended s)
                in (Some amended, s\<lparr>onEditorConnected := onEditorConnected s @ [executionId]\<rparr>)))"

end
