(* ===== verification/Recovery_Properties.thy ===== *)
theory Recovery_Properties
  imports Execution_Recovery
begin

text \<open>What the recovery of an execution from its event log adds, and what it leaves as it is.\<close>

definition recovered_run ::
  "EventMessage list \<Rightarrow> string list \<Rightarrow> ResultData \<Rightarrow> string \<Rightarrow> TimedTaskData list option" where
  "recovered_run nodeMessages nodes run n =
     (case map_get (recRunData run) n of
        Some runs \<Rightarrow> Some runs
      | None \<Rightarrow> (if n \<in> set nodes
          then map_option (\<lambda>started. [artificialTask started (findNodeMessage ''n8n.node.finished'' n nodeMessages)])
                 (findNodeMessage ''n8n.node.started'' n nodeMessages)
          else None))"

definition crashes :: "EventMessage list \<Rightarrow> ResultData \<Rightarrow> string \<Rightarrow> bool" where
  "crashes nodeMessages run n \<longleftrightarrow> map_get (recRunData run) n = None \<and>
     findNodeMessage ''n8n.node.started'' n nodeMessages \<noteq> None \<and>
     findNodeMessage ''n8n.node.finished'' n nodeMessages = None"

lemma amendNode_run:
  "map_get (recRunData (fst (amendNode ms node (run, t)))) n = recovered_run ms [node] run n"
  by (auto simp: amendNode_def recovered_run_def Let_def split: option.split)

lemma amendNode_error:
  "recError (fst (amendNode ms node (run, t))) =
     (if crashes ms run node then Some workflowCrashedMessage else recError run)"
  by (auto simp: amendNode_def crashes_def Let_def split: option.split)

lemma amend_nodes_both:
  "(\<forall>n. map_get (recRunData (fst (fold (amendNode ms) nodes (run, t)))) n = recovered_run ms nodes run n) \<and>
   recError (fst (fold (amendNode ms) nodes (run, t))) =
     (if \<exists>m \<in> set nodes. crashes ms run m then Some workflowCrashedMessage else recError run)"
proof (induction nodes arbitrary: run t)
  case (Cons node nodes)
  obtain run' t' where step: "amendNode ms node (run, t) = (run', t')" by (metis prod.exhaust)
  have run': "map_get (recRunData run') k = recovered_run ms [node] run k" for k
    using amendNode_run [of ms node run t k] by (simp add: step)
  have err: "recError run' = (if crashes ms run node then Some workflowCrashedMessage else recError run)"
    using amendNode_error [of ms node run t] by (simp add: step)
  have "crashes ms run' m \<longleftrightarrow> crashes ms run m \<and> m \<noteq> node" for m
    by (auto simp: crashes_def run' recovered_run_def split: option.split)
  moreover have "recovered_run ms nodes run' k = recovered_run ms (node # nodes) run k" for k
    by (auto simp: recovered_run_def run' split: option.split)
  ultimately show ?case using Cons.IH [of run' t'] by (auto simp: step err)
qed (auto simp: recovered_run_def split: option.split)

lemmas amend_nodes = amend_nodes_both [THEN conjunct1, rule_format] amend_nodes_both [THEN conjunct2]

definition result_of :: "ExecutionResponse \<Rightarrow> ResultData" where
  "result_of e = (case erData e of None \<Rightarrow> emptyResult | Some d \<Rightarrow> d)"

text \<open>
  C24. Recovering an execution from its log keeps all recorded runs, adds exactly one run for every node
  of the workflow that the log says was started and that has none, successful with its duration when it
  also finished and else crashed, and adds nothing else; the execution counts as crashed, or failed as
  before, the workflow as crashed when a node crashed, and all of this is stored. Recovering it again
  changes no run.
\<close>

theorem recovery_completes_runs:
  assumes "map_get (dbExecutions s) i = Some old" and "messages \<noteq> []"
    and "recoverFromLogs False now i messages s = (Some e, s')"
    and "ms = fst (toRelevantMessages messages)"
  shows "map_get (recRunData (result_of e)) n = recovered_run ms (erNodes old) (result_of old) n \<and>
    erStatus e = (if erStatus old = StError then StError else StCrashed) \<and>
    recError (result_of e) = (if \<exists>m \<in> set (erNodes old). crashes ms (result_of old) m
      then Some workflowCrashedMessage else recError (result_of old)) \<and>
    map_option erData (map_get (dbExecutions s') i) = Some (erData e) \<and>
    map_option erStatus (map_get (dbExecutions s') i) = Some (erStatus e) \<and>
    (\<forall>e2 s2. recoverFromLogs False later i messages s' = (Some e2, s2) \<longrightarrow>
       map_get (recRunData (result_of e2)) n = map_get (recRunData (result_of e)) n)"
proof -
  obtain wms where split: "toRelevantMessages messages = (ms, wms)" using assms(4) by (metis prod.collapse)
  have rec: "e' = old'\<lparr>erStatus := (if erStatus old' = StError then StError else StCrashed),
        erStoppedAt := toStoppedAt (snd (fold (amendNode ms) (erNodes old') (result_of old', None))) wms,
        erData := Some (fst (fold (amendNode ms) (erNodes old') (result_of old', None)))\<rparr> \<and>
      map_option erData (map_get (dbExecutions u') i) = Some (erData e') \<and>
      map_option erStatus (map_get (dbExecutions u') i) = Some (erStatus e') \<and>
      map_option erNodes (map_get (dbExecutions u') i) = Some (erNodes old')"
    if "map_get (dbExecutions u) i = Some old'" "recoverFromLogs False now' i messages u = (Some e', u')" for u u' old' e' now'
    using that assms(2)
    by (auto simp: recoverFromLogs_def amend_def split runHooks_def updateExistingExecution_def Let_def result_of_def
        case_prod_beta split: if_splits)
  note first = rec [OF assms(1,3)]
  have run: "map_get (recRunData (result_of e)) k = recovered_run ms (erNodes old) (result_of old) k" for k
    using first amend_nodes(1) [of ms "erNodes old" "result_of old" None k] by (simp add: result_of_def)
  have again: "map_get (recRunData (result_of e2)) n = map_get (recRunData (result_of e)) n"
    if "recoverFromLogs False later i messages s' = (Some e2, s2)" for e2 s2
  proof -
    obtain mid where mid: "map_get (dbExecutions s') i = Some mid" "erData mid = erData e" "erNodes mid = erNodes old"
      using first by auto
    have "map_get (recRunData (result_of e2)) n = recovered_run ms (erNodes old) (result_of mid) n"
      using rec [OF mid(1) that] amend_nodes(1) [of ms "erNodes old" "result_of mid" None n] mid(3)
      by (simp add: result_of_def)
    also have "\<dots> = recovered_run ms (erNodes old) (result_of e) n"
      using mid(2) by (simp add: result_of_def)
    finally show ?thesis unfolding run by (auto simp: recovered_run_def run split: option.split)
  qed
  have err: "recError (result_of e) = (if \<exists>m \<in> set (erNodes old). crashes ms (result_of old) m
      then Some workflowCrashedMessage else recError (result_of old))"
    using first amend_nodes(2) [of ms "erNodes old" "result_of old" None] by (simp add: result_of_def)
  show ?thesis using first run err again by auto
qed

text \<open>A workflow of two nodes: the first finished, the second was started.\<close>

definition crashed_state :: RecoveryState where
  "crashed_state = \<lparr>dbExecutions = [(''1'', \<lparr>erStatus = StRunning, erStoppedAt = None, erData = None,
     erNodes = [''A'', ''B'']\<rparr>)], hooksRun = [], onEditorConnected = []\<rparr>"

definition crash_log :: "EventMessage list" where
  "crash_log = [\<lparr>eventName = ''n8n.node.started'', eventNode = Some ''A'', eventTs = 1000\<rparr>,
     \<lparr>eventName = ''n8n.node.finished'', eventNode = Some ''A'', eventTs = 3000\<rparr>,
     \<lparr>eventName = ''n8n.node.started'', eventNode = Some ''B'', eventTs = 4000\<rparr>]"

theorem recovery_completes_runs_witness:
  "case recoverFromLogs False 0 ''1'' crash_log crashed_state of
     (None, s) \<Rightarrow> False
   | (Some e, s) \<Rightarrow> recError (result_of e) = Some workflowCrashedMessage \<and> erStatus e = StCrashed"
proof -
  obtain e s where r: "recoverFromLogs False 0 ''1'' crash_log crashed_state = (Some e, s)"
  proof -
    have "fst (recoverFromLogs False 0 ''1'' crash_log crashed_state) \<noteq> None" by code_simp
    then show ?thesis using that by (metis not_None_eq prod.collapse)
  qed
  have old: "map_get (dbExecutions crashed_state) ''1'' = Some \<lparr>erStatus = StRunning, erStoppedAt = None,
      erData = None, erNodes = [''A'', ''B'']\<rparr>" by (simp add: crashed_state_def)
  have "crashes (fst (toRelevantMessages crash_log)) emptyResult ''B''" by code_simp
  then show ?thesis
    using recovery_completes_runs [OF old _ r refl] r by (auto simp: crash_log_def result_of_def)
qed

text \<open>
  The time at which the execution stopped and its last node are taken from the order of the nodes in
  the workflow, not of the log: here node A, which is listed last, was the first to run.
\<close>

lemma stopped_too_early:
  "case recoverFromLogs False 0 ''1'' crash_log (crashed_state\<lparr>dbExecutions := [(''1'', \<lparr>erStatus = StRunning,
      erStoppedAt = None, erData = None, erNodes = [''B'', ''A'']\<rparr>)]\<rparr>) of
     (None, s) \<Rightarrow> False
   | (Some e, s) \<Rightarrow> erStoppedAt e = Some 3000 \<and> recLastNode (result_of e) = Some ''A''"
  by code_simp

end
