(* ===== verification/DI_Container.thy ===== *)
theory DI_Container
  imports Workflow_Rename
begin

text \<open>
  The dependency injection container of packages/@n8n/di/src/di.ts. Classes are their names. What the
  compiler emitted as the parameter types of a class (\<open>undefined\<close> for a class that was not loaded
  yet), whether its constructor throws, and its factory are parameters; a factory may use the container.
  A class that is constructed gives an object that is numbered by \<open>constructed\<close>, which records its class and
  the arguments that its constructor got.
\<close>

datatype di_value = Undefined | Falsy | Object nat

datatype di_error = DIError string | DITypeError string | DIRangeError | DIOther string

record Metadata =
  instance_of :: di_value
  hasFactory :: bool

record Container =
  instances :: "(string, Metadata) js_map"
  resolutionStack :: "string list"
  constructed :: "(string \<times> di_value list) list"

type_synonym 'a di_result = "(di_error + 'a) \<times> Container"

record DIEnv =
  paramTypes :: "string \<Rightarrow> string option list"
  constructorError :: "string \<Rightarrow> di_error option"
  factory :: "string \<Rightarrow> Container \<Rightarrow> di_value di_result"

definition emptyContainer :: Container where
  "emptyContainer = \<lparr>instances = [], resolutionStack = [], constructed = []\<rparr>"

definition Service :: "bool \<Rightarrow> string \<Rightarrow> Container \<Rightarrow> Container" where
  "Service withFactory target c =
     c\<lparr>instances := map_put target \<lparr>instance_of = Undefined, hasFactory = withFactory\<rparr> (instances c)\<rparr>"

definition truthy :: "di_value \<Rightarrow> bool" where
  "truthy v = (case v of Object n \<Rightarrow> True | _ \<Rightarrow> False)"

definition diError :: "string \<Rightarrow> di_error" where
  "diError msg = DIError (''[DI] '' @ msg)"

fun joinArrow :: "string list \<Rightarrow> string" where
  "joinArrow [] = []"
| "joinArrow [x] = x"
| "joinArrow (x # xs) = x @ '' -> '' @ joinArrow xs"

definition circularMessage :: "string \<Rightarrow> nat \<Rightarrow> string list \<Rightarrow> string" where
  "circularMessage type index stack =
     ''Circular dependency detected in '' @ type @ '' at index '' @ show_nat index @ ''.'' @ [CHR 0x0A] @
     joinArrow stack @ [CHR 0x0A]"

text \<open>The handler of errors of \<open>get\<close>.\<close>

definition rethrow :: "string \<Rightarrow> di_error \<Rightarrow> di_error" where
  "rethrow type e =
     (case e of
        DITypeError msg \<Rightarrow>
          (if includesString (toLowerCase msg) ''abstract''
           then diError (type @ '' is an abstract class, and cannot be instantiated'') else e)
      | _ \<Rightarrow> e)"

definition construct :: "DIEnv \<Rightarrow> string \<Rightarrow> di_value list \<Rightarrow> Container \<Rightarrow> di_value di_result" where
  "construct env type dependencies c =
     (case constructorError env type of
        Some e \<Rightarrow> (Inl e, c)
      | None \<Rightarrow> (Inr (Object (length (constructed c))), c\<lparr>constructed := constructed c @ [(type, dependencies)]\<rparr>))"

text \<open>
  What follows the resolution in the \<open>try\<close>: the instance is stored, an error is rethrown, and finally the
  class is taken from the stack.
\<close>

definition settleGet :: "string \<Rightarrow> Metadata \<Rightarrow> di_value di_result \<Rightarrow> di_value di_result" where
  "settleGet type metadata res =
     (let (r, c) = res;
          (r, c) = (case r of
              Inr v \<Rightarrow> (Inr v, c\<lparr>instances := map_put type (metadata\<lparr>instance_of := v\<rparr>) (instances c)\<rparr>)
            | Inl e \<Rightarrow> (Inl (rethrow type e), c))
      in (r, c\<lparr>resolutionStack := butlast (resolutionStack c)\<rparr>))"

text \<open>\<open>get\<close> with the depth of the call stack that is left, and its loop over the parameter types.\<close>

fun getInstance :: "nat \<Rightarrow> DIEnv \<Rightarrow> string \<Rightarrow> Container \<Rightarrow> di_value di_result"
  and resolveParams :: "nat \<Rightarrow> DIEnv \<Rightarrow> string \<Rightarrow> nat \<Rightarrow> string option list \<Rightarrow> Container \<Rightarrow> di_value list di_result" where
  "getInstance 0 env type c = (Inl DIRangeError, c)"
| "getInstance (Suc k) env type c =
     (case map_get (instances c) type of
        None \<Rightarrow>
          (if resolutionStack c \<noteq> [] then (Inr Undefined, c)
           else (Inl (diError (type @ '' is not decorated with Service'')), c))
      | Some metadata \<Rightarrow>
          (if truthy (instance_of metadata) then (Inr (instance_of metadata), c)
           else (let c = c\<lparr>resolutionStack := resolutionStack c @ [type]\<rparr>
                 in settleGet type metadata
                      (if hasFactory metadata then factory env type c
                       else (case resolveParams k env type 0 (paramTypes env type) c of
                               (Inl e, c) \<Rightarrow> (Inl e, c)
                             | (Inr dependencies, c) \<Rightarrow> construct env type dependencies c)))))"
| "resolveParams k env type index [] c = (Inr [], c)"
| "resolveParams k env type index (None # ps) c =
     (Inl (diError (circularMessage type index (resolutionStack c))), c)"
| "resolveParams k env type index (Some p # ps) c =
     (case getInstance k env p c of
        (Inl e, c) \<Rightarrow> (Inl e, c)
      | (Inr v, c) \<Rightarrow>
          (case resolveParams k env type (Suc index) ps c of
             (Inl e, c) \<Rightarrow> (Inl e, c)
           | (Inr vs, c) \<Rightarrow> (Inr (v # vs), c)))"

definition hasType :: "string \<Rightarrow> Container \<Rightarrow> bool" where
  "hasType type c \<longleftrightarrow> map_get (instances c) type \<noteq> None"

definition setInstance :: "string \<Rightarrow> di_value \<Rightarrow> Container \<Rightarrow> Container" where
  "setInstance type v c =
     (let metadata = (case map_get (instances c) type of None \<Rightarrow> \<lparr>instance_of = Undefined, hasFactory = False\<rparr> | Some m \<Rightarrow> m)
      in c\<lparr>instances := map_put type (metadata\<lparr>instance_of := v\<rparr>) (instances c)\<rparr>)"

definition resetContainer :: "Container \<Rightarrow> Container" where
  "resetContainer c = c\<lparr>instances := map (\<lambda>(t, m). (t, m\<lparr>instance_of := Undefined\<rparr>)) (instances c)\<rparr>"

end
