(* ===== verification/DI_Properties.thy ===== *)
theory DI_Properties
  imports DI_Container
begin

text \<open>
  What the container promises: a class whose dependencies can be resolved gets one instance, which every
  later request gives again, and classes that depend on each other in a cycle never get one.
\<close>

definition inst :: "Container \<Rightarrow> string \<Rightarrow> di_value" where
  "inst c t = (case map_get (instances c) t of None \<Rightarrow> Undefined | Some m \<Rightarrow> instance_of m)"

text \<open>What holds between the container before and after an operation.\<close>

definition keeps_instances :: "Container \<Rightarrow> Container \<Rightarrow> bool" where
  "keeps_instances c c' \<longleftrightarrow> resolutionStack c' = resolutionStack c \<and> (\<exists>xs. constructed c' = constructed c @ xs) \<and>
     (\<forall>t. map_option hasFactory (map_get (instances c') t) = map_option hasFactory (map_get (instances c) t)) \<and>
     (\<forall>t. truthy (inst c t) \<longrightarrow> inst c' t = inst c t)"

lemma keeps_refl [simp]: "keeps_instances c c"
  by (simp add: keeps_instances_def)

lemma keeps_trans: "keeps_instances c d \<Longrightarrow> keeps_instances d e \<Longrightarrow> keeps_instances c e"
  unfolding keeps_instances_def by (metis append_assoc)

lemma keeps_inst: "keeps_instances c d \<Longrightarrow> truthy (inst c t) \<Longrightarrow> inst d t = inst c t"
  by (simp add: keeps_instances_def)

lemma keeps_hasType: "keeps_instances c d \<Longrightarrow> hasType t d \<longleftrightarrow> hasType t c"
  unfolding keeps_instances_def hasType_def by (metis map_option_is_None)

lemma keeps_factory:
  "keeps_instances c d \<Longrightarrow> map_option hasFactory (map_get (instances d) t) = map_option hasFactory (map_get (instances c) t)"
  by (simp add: keeps_instances_def)

lemma keeps_nth: "keeps_instances c d \<Longrightarrow> n < length (constructed c) \<Longrightarrow> constructed d ! n = constructed c ! n \<and> n < length (constructed d)"
  by (auto simp: keeps_instances_def nth_append)

lemma keeps_construct: "keeps_instances c (snd (construct env t vs c))"
  by (simp add: construct_def keeps_instances_def inst_def split: option.split)

text \<open>Factories may use the container, but leave its instances and its stack as they are.\<close>

definition well_behaved :: "DIEnv \<Rightarrow> bool" where
  "well_behaved env \<longleftrightarrow> (\<forall>t c. keeps_instances c (snd (factory env t c)))"

lemma well_behavedD: "well_behaved env \<Longrightarrow> keeps_instances c (snd (factory env t c))"
  by (simp add: well_behaved_def)

lemma settleGet_keeps:
  assumes "map_get (instances c) t = Some m" and "\<not> truthy (instance_of m)"
    and "keeps_instances (c\<lparr>resolutionStack := resolutionStack c @ [t]\<rparr>) (snd res)"
  shows "keeps_instances c (snd (settleGet t m res))"
proof -
  obtain r d where res: "res = (r, d)" by (cases res)
  have "inst d u = inst c u" if "truthy (inst c u)" for u
    using assms(3) that by (simp add: keeps_instances_def res inst_def)
  moreover have "u = t \<Longrightarrow> \<not> truthy (inst c u)" for u using assms(1,2) by (simp add: inst_def)
  ultimately show ?thesis
    using assms by (auto simp: settleGet_def res keeps_instances_def inst_def Let_def split: sum.split)
qed

lemma getInstance_keeps:
  shows "well_behaved env \<Longrightarrow> keeps_instances c (snd (getInstance k env t c))"
    "well_behaved env \<Longrightarrow> keeps_instances c (snd (resolveParams k env t i ps c))"
proof (induction k env t c and k env t i ps c rule: getInstance_resolveParams.induct)
  case (2 k env type c)
  show ?case
  proof (cases "map_get (instances c) type")
    case (Some m)
    show ?thesis
    proof (cases "truthy (instance_of m)")
      case False
      let ?c = "c\<lparr>resolutionStack := resolutionStack c @ [type]\<rparr>"
      let ?res = "if hasFactory m then factory env type ?c
        else (case resolveParams k env type 0 (paramTypes env type) ?c of
               (Inl e, c) \<Rightarrow> (Inl e, c)
             | (Inr dependencies, c) \<Rightarrow> construct env type dependencies c)"
      have "keeps_instances ?c (snd ?res)"
      proof (cases "hasFactory m")
        case True
        have "keeps_instances ?c (snd (factory env type ?c))" by (rule well_behavedD [OF "2.prems"])
        then show ?thesis using True by simp
      next
        case no: False
        show ?thesis
          using "2.IH" [OF Some False refl no "2.prems"] no
          by (auto split: sum.split prod.split intro: keeps_trans [OF _ keeps_construct])
      qed
      from settleGet_keeps [OF Some False this] show ?thesis using Some False by (simp add: Let_def)
    qed (simp add: Some)
  qed simp
qed (auto split: sum.split prod.split dest: keeps_trans)

declare getInstance.simps(2) [simp del]

lemma getInstance_unknown:
  "map_get (instances c) t = None \<Longrightarrow> resolutionStack c \<noteq> [] \<Longrightarrow> getInstance (Suc k) env t c = (Inr Undefined, c)"
  by (simp add: getInstance.simps)


section \<open>Dependencies without a cycle\<close>

text \<open>
  The classes that have no instance yet can be ordered: each comes after the classes that its parameters
  name, all of which are loaded; constructors do not throw and factories give an object.
\<close>

definition resolvable :: "(string \<Rightarrow> nat) \<Rightarrow> DIEnv \<Rightarrow> Container \<Rightarrow> bool" where
  "resolvable rank env c \<longleftrightarrow> (\<forall>t m. map_get (instances c) t = Some m \<longrightarrow>
     (if hasFactory m then \<forall>d. \<exists>v. fst (factory env t d) = Inr v \<and> truthy v
      else constructorError env t = None \<and>
        (\<forall>p \<in> set (paramTypes env t). p \<noteq> None \<and> (\<forall>q. p = Some q \<longrightarrow> hasType q c \<longrightarrow> rank q < rank t))))"

lemma resolvable_keeps: "resolvable rank env c \<Longrightarrow> keeps_instances c d \<Longrightarrow> resolvable rank env d"
proof -
  assume a: "resolvable rank env c" "keeps_instances c d"
  show "resolvable rank env d"
    unfolding resolvable_def
  proof (intro allI impI)
    fix t m assume m: "map_get (instances d) t = Some m"
    then obtain m' where "map_get (instances c) t = Some m'" "hasFactory m' = hasFactory m"
      using keeps_factory [OF a(2), of t] by (cases "map_get (instances c) t") auto
    then show "if hasFactory m then \<forall>d. \<exists>v. fst (factory env t d) = Inr v \<and> truthy v
      else constructorError env t = None \<and>
        (\<forall>p \<in> set (paramTypes env t). p \<noteq> None \<and> (\<forall>q. p = Some q \<longrightarrow> hasType q d \<longrightarrow> rank q < rank t))"
      using a(1) keeps_hasType [OF a(2)] unfolding resolvable_def by metis
  qed
qed

definition argument :: "Container \<Rightarrow> string option \<Rightarrow> di_value" where
  "argument c p = (case p of None \<Rightarrow> Undefined | Some q \<Rightarrow> inst c q)"

text \<open>The loop over the parameters, when every class that they name can be resolved.\<close>

lemma resolveParams_total:
  assumes wb: "well_behaved env" and "resolvable rank env c" and "resolutionStack c \<noteq> []" and "None \<notin> set ps"
    and ok: "\<And>q d. Some q \<in> set ps \<Longrightarrow> hasType q d \<Longrightarrow> hasType q c \<Longrightarrow> resolvable rank env d \<Longrightarrow>
      \<exists>v e. getInstance (Suc k) env q d = (Inr v, e) \<and> truthy v \<and> inst e q = v"
  shows "\<exists>vs d. resolveParams (Suc k) env t i ps c = (Inr vs, d) \<and> vs = map (argument d) ps"
  using assms(2-)
proof (induction ps arbitrary: c i)
  case (Cons p ps)
  obtain q where p: "p = Some q" using Cons.prems(3) by (cases p) auto
  note kept_get = getInstance_keeps(1) [OF wb, of _ "Suc k" q]
  have "\<exists>v d. getInstance (Suc k) env q c = (Inr v, d) \<and> inst d q = v \<and> (truthy v \<or> \<not> hasType q d \<and> v = Undefined)"
  proof (cases "hasType q c")
    case True
    then show ?thesis using Cons.prems(4) [of q c] Cons.prems(1) p by auto
  next
    case False
    then show ?thesis using Cons.prems(2) by (simp add: hasType_def inst_def getInstance_unknown)
  qed
  then obtain v d where get: "getInstance (Suc k) env q c = (Inr v, d)" "inst d q = v"
    "truthy v \<or> \<not> hasType q d \<and> v = Undefined" by blast
  have g: "keeps_instances c d" using kept_get [of c] get(1) by simp
  have "\<exists>vs e. resolveParams (Suc k) env t (Suc i) ps d = (Inr vs, e) \<and> vs = map (argument e) ps"
  proof (rule Cons.IH)
    show "resolvable rank env d" by (rule resolvable_keeps [OF Cons.prems(1) g])
    show "resolutionStack d \<noteq> []" using Cons.prems(2) g by (simp add: keeps_instances_def)
    show "None \<notin> set ps" using Cons.prems(3) by simp
    show "\<exists>v e. getInstance (Suc k) env q' d' = (Inr v, e) \<and> truthy v \<and> inst e q' = v"
      if "Some q' \<in> set ps" "hasType q' d'" "hasType q' d" "resolvable rank env d'" for q' d'
      using Cons.prems(4) [of q' d'] that keeps_hasType [OF g] by auto
  qed
  then obtain vs e where rest: "resolveParams (Suc k) env t (Suc i) ps d = (Inr vs, e)" "vs = map (argument e) ps"
    by blast
  have "keeps_instances d e" using getInstance_keeps(2) [OF wb, of d "Suc k" t "Suc i" ps] rest(1) by simp
  then have "inst e q = v"
    using get(2,3) keeps_inst [of d e q] keeps_hasType [of d e q] by (auto simp: inst_def hasType_def split: option.split)
  then show ?case using get(1) rest by (simp add: p argument_def)
qed simp

lemma argument_cong: "(\<And>q. p = Some q \<Longrightarrow> inst c q = inst d q) \<Longrightarrow> argument c p = argument d p"
  by (simp add: argument_def split: option.split)

lemma getInstance_known:
  assumes "truthy (inst c t)"
  shows "getInstance (Suc k) env t c = (Inr (inst c t), c)"
  using assms by (auto simp: inst_def getInstance.simps(2) truthy_def split: option.splits)

definition made_with :: "DIEnv \<Rightarrow> string \<Rightarrow> Container \<Rightarrow> Container \<Rightarrow> di_value \<Rightarrow> bool" where
  "made_with env t c d v \<longleftrightarrow> (\<exists>n. v = Object n \<and> length (constructed c) \<le> n \<and> n < length (constructed d) \<and>
     constructed d ! n = (t, map (argument d) (paramTypes env t)))"

lemma getInstance_total:
  assumes "well_behaved env" and "resolvable rank env c" and "map_get (instances c) t = Some m" and "Suc (rank t) < k"
  shows "\<exists>v d. getInstance k env t c = (Inr v, d) \<and> truthy v \<and> inst d t = v \<and>
    (\<not> truthy (instance_of m) \<and> \<not> hasFactory m \<longrightarrow> made_with env t c d v)"
  using assms(2-)
proof (induction "rank t" arbitrary: t c m k rule: less_induct)
  case less
  obtain k' where k: "k = Suc (Suc k')" using less_imp_Suc_add [OF less.prems(3)] by auto
  have m: "(if hasFactory m then \<forall>d. \<exists>v. fst (factory env t d) = Inr v \<and> truthy v
      else constructorError env t = None \<and>
        (\<forall>p \<in> set (paramTypes env t). p \<noteq> None \<and> (\<forall>q. p = Some q \<longrightarrow> hasType q c \<longrightarrow> rank q < rank t)))"
    using less.prems(1,2) unfolding resolvable_def by blast
  show ?case
  proof (cases "truthy (instance_of m)")
    case True
    then show ?thesis using less.prems(2) getInstance_known [of c t "Suc k'" env] by (simp add: k inst_def)
  next
    case new: False
    let ?c = "c\<lparr>resolutionStack := resolutionStack c @ [t]\<rparr>"
    have unfold: "getInstance k env t c = settleGet t m
        (if hasFactory m then factory env t ?c
         else (case resolveParams (Suc k') env t 0 (paramTypes env t) ?c of
                 (Inl e, c) \<Rightarrow> (Inl e, c) | (Inr dependencies, c) \<Rightarrow> construct env t dependencies c))"
      using less.prems(2) new by (simp add: k getInstance.simps(2) Let_def)
    show ?thesis
    proof (cases "hasFactory m")
      case True
      with m obtain v where "fst (factory env t ?c) = Inr v" "truthy v" by auto
      then obtain d where "factory env t ?c = (Inr v, d)" by (metis prod.collapse)
      then show ?thesis using unfold True \<open>truthy v\<close> by (simp add: settleGet_def inst_def)
    next
      case False
      have res: "resolvable rank env ?c" using less.prems(1) by (simp add: resolvable_def hasType_def)
      have "\<exists>vs d. resolveParams (Suc k') env t 0 (paramTypes env t) ?c = (Inr vs, d) \<and> vs = map (argument d) (paramTypes env t)"
      proof (rule resolveParams_total [OF assms(1) res])
        show "None \<notin> set (paramTypes env t)" using m False by auto
        show "\<exists>v e. getInstance (Suc k') env q d = (Inr v, e) \<and> truthy v \<and> inst e q = v"
          if q: "Some q \<in> set (paramTypes env t)" "hasType q d" "hasType q ?c" "resolvable rank env d" for q d
        proof -
          have "rank q < rank t" using m False q(1,3) by (auto simp: hasType_def)
          moreover obtain mq where "map_get (instances d) q = Some mq" using q(2) by (auto simp: hasType_def)
          moreover have "Suc (rank q) < Suc k'" using calculation(1) less.prems(3) k by simp
          ultimately show ?thesis using less.hyps [of q d mq "Suc k'"] q(4) by blast
        qed
      qed simp
      then obtain vs d where d: "resolveParams (Suc k') env t 0 (paramTypes env t) ?c = (Inr vs, d)"
        "vs = map (argument d) (paramTypes env t)" by blast
      have g: "keeps_instances ?c d" using getInstance_keeps(2) [OF assms(1), of ?c "Suc k'" t 0 "paramTypes env t"] d(1) by simp
      let ?v = "Object (length (constructed d))"
      let ?d = "d\<lparr>constructed := constructed d @ [(t, vs)], instances := map_put t (m\<lparr>instance_of := ?v\<rparr>) (instances d),
        resolutionStack := butlast (resolutionStack d)\<rparr>"
      have run: "getInstance k env t c = (Inr ?v, ?d)"
        unfolding unfold using False m d(1) by (simp add: construct_def settleGet_def)
      have "argument d p = argument ?d p" if "p \<in> set (paramTypes env t)" for p
      proof (rule argument_cong)
        fix q assume "p = Some q"
        then have "q \<noteq> t" using that m False less.prems(2) by (auto simp: hasType_def)
        then show "inst d q = inst ?d q" by (simp add: inst_def)
      qed
      then have "map (argument d) (paramTypes env t) = map (argument ?d) (paramTypes env t)" by simp
      moreover have "length (constructed c) \<le> length (constructed d)" using g by (auto simp: keeps_instances_def)
      ultimately have "made_with env t c ?d ?v" unfolding made_with_def d(2) by (auto simp: nth_append)
      then show ?thesis using run by (simp add: truthy_def inst_def)
    qed
  qed
qed

text \<open>
  C17. A class whose dependencies can be resolved without a cycle gets an instance: its constructor is
  called with the instances of the classes of its parameters, and undefined for a class that is not
  registered; the stack is as before, and every later request, whatever else is requested in between,
  gives the same instance and constructs nothing.
\<close>

theorem container_singleton:
  assumes "well_behaved env" and "resolvable rank env c" and "map_get (instances c) t = Some m" and "Suc (rank t) < k"
  shows "\<exists>v d. getInstance k env t c = (Inr v, d) \<and> truthy v \<and> resolutionStack d = resolutionStack c \<and>
    (\<not> truthy (instance_of m) \<and> \<not> hasFactory m \<longrightarrow> (\<exists>n. v = Object n \<and> length (constructed c) \<le> n \<and>
       constructed d ! n = (t, map (argument d) (paramTypes env t)))) \<and>
    (\<forall>j l u. let e = snd (getInstance l env u d) in getInstance (Suc j) env t e = (Inr v, e))"
proof -
  obtain v d where d: "getInstance k env t c = (Inr v, d)" "truthy v" "inst d t = v"
    "\<not> truthy (instance_of m) \<and> \<not> hasFactory m \<longrightarrow> made_with env t c d v"
    using getInstance_total [OF assms] by blast
  have "resolutionStack d = resolutionStack c"
    using getInstance_keeps(1) [OF assms(1), of c k t] d(1) by (simp add: keeps_instances_def)
  moreover have "getInstance (Suc j) env t (snd (getInstance l env u d)) = (Inr v, snd (getInstance l env u d))" for j l u
    using getInstance_known keeps_inst [OF getInstance_keeps(1) [OF assms(1), of d l u]] d(2,3) by simp
  ultimately show ?thesis using d(1,2,4) unfolding made_with_def Let_def by blast
qed

text \<open>Two classes, of which the second needs the first.\<close>

definition pair_env :: DIEnv where
  "pair_env = \<lparr>paramTypes = (\<lambda>t. if t = ''B'' then [Some ''A''] else []), constructorError = (\<lambda>t. None),
     factory = (\<lambda>t c. (Inr Undefined, c))\<rparr>"

definition pair_container :: Container where
  "pair_container = Service False ''B'' (Service False ''A'' emptyContainer)"

theorem container_singleton_witness:
  "\<exists>v d. getInstance 3 pair_env ''B'' pair_container = (Inr v, d) \<and> truthy v \<and> resolutionStack d = []"
proof -
  have w: "well_behaved pair_env" by (simp add: well_behaved_def pair_env_def)
  have r: "resolvable (\<lambda>t. if t = ''B'' then 1 else 0) pair_env pair_container"
    by (auto simp: resolvable_def pair_env_def pair_container_def Service_def emptyContainer_def hasType_def split: if_splits)
  have m: "map_get (instances pair_container) ''B'' = Some \<lparr>instance_of = Undefined, hasFactory = False\<rparr>"
    by (simp add: pair_container_def Service_def)
  have "resolutionStack pair_container = []" by (simp add: pair_container_def Service_def emptyContainer_def)
  then show ?thesis using container_singleton [OF w r m, of 3] by auto
qed


section \<open>Cycles\<close>

definition unset :: "string set \<Rightarrow> Container \<Rightarrow> bool" where
  "unset S c \<longleftrightarrow> (\<forall>t \<in> S. \<exists>m. map_get (instances c) t = Some m \<and> \<not> hasFactory m \<and> \<not> truthy (instance_of m))"

lemma unset_stack [simp]: "unset S (c\<lparr>resolutionStack := st\<rparr>) = unset S c"
  by (simp add: unset_def)

lemma unset_settle:
  assumes "unset S (snd res)" and "t \<in> S \<Longrightarrow> \<exists>e. fst res = Inl e"
  shows "unset S (snd (settleGet t m res))" "t \<in> S \<Longrightarrow> \<exists>e. fst (settleGet t m res) = Inl e"
  using assms by (cases res; auto simp: settleGet_def unset_def Let_def split: sum.splits)+

text \<open>Every class of the set needs another one of it, and factories leave the classes of the set alone.\<close>

definition cyclic :: "string set \<Rightarrow> DIEnv \<Rightarrow> bool" where
  "cyclic S env \<longleftrightarrow> (\<forall>t \<in> S. \<exists>p \<in> S. Some p \<in> set (paramTypes env t)) \<and>
     (\<forall>t c. unset S c \<longrightarrow> unset S (snd (factory env t c)))"

lemma unset_construct: "unset S c \<Longrightarrow> unset S (snd (construct env t vs c))"
  by (simp add: construct_def unset_def split: option.split)

lemma cyclic_get:
  shows "cyclic S env \<Longrightarrow> unset S c \<Longrightarrow>
      unset S (snd (getInstance k env t c)) \<and> (t \<in> S \<longrightarrow> (\<exists>e. fst (getInstance k env t c) = Inl e))"
    "cyclic S env \<Longrightarrow> unset S c \<Longrightarrow> unset S (snd (resolveParams k env t i ps c)) \<and>
      ((\<exists>p \<in> S. Some p \<in> set ps) \<longrightarrow> (\<exists>e. fst (resolveParams k env t i ps c) = Inl e))"
proof (induction k env t c and k env t i ps c rule: getInstance_resolveParams.induct)
  case (2 k env type c)
  show ?case
  proof (cases "map_get (instances c) type")
    case (Some m)
    show ?thesis
    proof (cases "truthy (instance_of m)")
      case True
      then show ?thesis using Some "2.prems"(2) by (auto simp: getInstance.simps(2) unset_def)
    next
      case False
      let ?c = "c\<lparr>resolutionStack := resolutionStack c @ [type]\<rparr>"
      let ?res = "if hasFactory m then factory env type ?c
        else (case resolveParams k env type 0 (paramTypes env type) ?c of
               (Inl e, c) \<Rightarrow> (Inl e, c)
             | (Inr dependencies, c) \<Rightarrow> construct env type dependencies c)"
      have u: "unset S ?c" using "2.prems"(2) by simp
      have "unset S (snd ?res) \<and> (type \<in> S \<longrightarrow> (\<exists>e. fst ?res = Inl e))"
      proof (cases "hasFactory m")
        case True
        then have "type \<notin> S" using "2.prems"(2) Some by (auto simp: unset_def)
        then show ?thesis using True u "2.prems"(1) unfolding cyclic_def by simp
      next
        case no: False
        note ih = "2.IH" [OF Some False refl no "2.prems"(1) u]
        moreover have "type \<in> S \<Longrightarrow> \<exists>p \<in> S. Some p \<in> set (paramTypes env type)"
          using "2.prems"(1) by (simp add: cyclic_def)
        ultimately show ?thesis using no by (auto simp: unset_construct split: sum.split prod.split)
      qed
      then show ?thesis
        using unset_settle [of S ?res type m] Some False by (simp add: getInstance.simps(2) Let_def)
    qed
  next
    case None
    then have "type \<notin> S" using "2.prems"(2) by (auto simp: unset_def)
    then show ?thesis using None "2.prems"(2) by (simp add: getInstance.simps(2))
  qed
next
  case (5 k env type index p ps c)
  then show ?case by (auto split: sum.split prod.split)
qed simp_all

text \<open>
  Classes that need each other in a cycle are never resolved: each request of one fails, and none of
  them gets an instance. The error is not the one about circular dependencies, which is thrown only for
  a class that was not loaded: a class that needs itself exhausts the call stack, however deep it is.
\<close>

theorem cyclic_dependency_fails:
  assumes "\<forall>t \<in> S. \<exists>p \<in> S. Some p \<in> set (paramTypes env t)"
    and "\<forall>t c. unset S c \<longrightarrow> unset S (snd (factory env t c))" and "unset S c" and "t \<in> S"
  shows "(\<exists>e. fst (getInstance k env t c) = Inl e) \<and> unset S (snd (getInstance k env t c)) \<and>
    (paramTypes env t = [Some t] \<longrightarrow> fst (getInstance k env t c) = Inl DIRangeError)"
proof -
  have cyc: "cyclic S env" using assms(1,2) by (simp add: cyclic_def)
  have "fst (getInstance k env t c) = Inl DIRangeError" if "paramTypes env t = [Some t]"
    using assms(3)
  proof (induction k arbitrary: c)
    case (Suc k)
    obtain m where m: "map_get (instances c) t = Some m" "\<not> hasFactory m" "\<not> truthy (instance_of m)"
      using Suc.prems assms(4) by (auto simp: unset_def)
    have "unset S (c\<lparr>resolutionStack := resolutionStack c @ [t]\<rparr>)" using Suc.prems by simp
    from Suc.IH [OF this] show ?case using m that
      by (auto simp: getInstance.simps(2) settleGet_def rethrow_def Let_def split: sum.split prod.split)
  qed simp
  then show ?thesis using cyclic_get(1) [OF cyc assms(3), of k t] assms(4) by blast
qed

theorem cyclic_dependency_fails_witness:
  "let env = pair_env\<lparr>paramTypes := (\<lambda>t. if t = ''A'' then [Some ''B''] else [Some ''A''])\<rparr>
   in \<exists>e. fst (getInstance 9 env ''A'' pair_container) = Inl e"
proof -
  let ?env = "pair_env\<lparr>paramTypes := (\<lambda>t. if t = ''A'' then [Some ''B''] else [Some ''A''])\<rparr>"
  have "unset {''A'', ''B''} pair_container"
    by (simp add: unset_def pair_container_def Service_def truthy_def)
  then show ?thesis
    using cyclic_dependency_fails [of "{''A'', ''B''}" ?env pair_container "''A''" 9] by (simp add: pair_env_def)
qed

end
