(* ===== verification/Static_Data.thy ===== *)
theory Static_Data
  imports Workflow_Types
begin

text \<open>
  The static data of a workflow: observable objects (packages/workflow/src/ObservableObject.ts), the method
  getStaticData of Workflow.ts, and saving it when it changed
  (packages/cli/src/workflows/workflow-static-data.service.ts).

  Objects are a tree, of which each object is a proxy made by \<open>create\<close> or not; arrays are objects with
  their indices as keys. Code that sets or deletes a property does so in the object at a path. The
  flag \<open>__dataChanged\<close> is the one of the root, which all proxies below it share.
\<close>

datatype sdata = SVal jval | SObj (observed: bool) (sfields: "(string \<times> sdata) list")
  where "observed (SVal v) = True" | "sfields (SVal v) = []"

text \<open>\<open>create\<close> makes all objects of a tree proxies.\<close>

fun observe :: "sdata \<Rightarrow> sdata" where
  "observe (SVal v) = SVal v"
| "observe (SObj b fs) = SObj True (map (\<lambda>(k, x). (k, observe x)) fs)"

fun plain :: "sdata \<Rightarrow> jval" where
  "plain (SVal v) = v"
| "plain (SObj b fs) = JObj (map (\<lambda>(k, x). (k, plain x)) fs)"

record StaticData =
  sdRoot :: "(string \<times> sdata) list"
  dataChanged :: bool
  ignoreEmptyOnFirstChild :: bool
  testStaticData :: "(string \<times> jval) list option"
  dbStaticData :: jval

text \<open>The constructor of Workflow takes the static data from the database; new data counts as changed.\<close>

definition newStaticData :: "(string \<times> sdata) list \<Rightarrow> StaticData" where
  "newStaticData fs =
     \<lparr>sdRoot = sfields (observe (SObj False fs)), dataChanged = False, ignoreEmptyOnFirstChild = True,
      testStaticData = None, dbStaticData = plain (SObj False fs)\<rparr>"

definition overrideStaticData :: "(string \<times> sdata) list \<Rightarrow> StaticData \<Rightarrow> StaticData" where
  "overrideStaticData fs s =
     s\<lparr>sdRoot := sfields (observe (SObj False fs)), dataChanged := True, ignoreEmptyOnFirstChild := True\<rparr>"

definition setTestStaticData :: "(string \<times> jval) list \<Rightarrow> StaticData \<Rightarrow> StaticData" where
  "setTestStaticData d s = s\<lparr>testStaticData := Some d\<rparr>"

text \<open>The object at a path below the root, and a change of it.\<close>

fun objectAt :: "(string \<times> sdata) list \<Rightarrow> string list \<Rightarrow> sdata option" where
  "objectAt fs [] = None"
| "objectAt fs [k] = (case map_get fs k of Some (SObj b gs) \<Rightarrow> Some (SObj b gs) | _ \<Rightarrow> None)"
| "objectAt fs (k # ks) = (case map_get fs k of Some (SObj b gs) \<Rightarrow> objectAt gs ks | _ \<Rightarrow> None)"

fun changeAt ::
  "((string \<times> sdata) list \<Rightarrow> (string \<times> sdata) list) \<Rightarrow> (string \<times> sdata) list \<Rightarrow> string list \<Rightarrow> (string \<times> sdata) list" where
  "changeAt f fs [] = f fs"
| "changeAt f fs (k # ks) =
     (case map_get fs k of Some (SObj b gs) \<Rightarrow> map_put k (SObj b (changeAt f gs ks)) fs | _ \<Rightarrow> fs)"

text \<open>
  Setting a property. For the root, \<open>Object.keys\<close> of a value that is no object is not asked for, and of
  \<open>null\<close> it is a TypeError.
\<close>

definition setProperty :: "string list \<Rightarrow> string \<Rightarrow> sdata \<Rightarrow> StaticData \<Rightarrow> StaticData res" where
  "setProperty path key value s =
     (let written = s\<lparr>sdRoot := changeAt (map_put key value) (sdRoot s) path\<rparr>
      in if path = [] then
           (if ignoreEmptyOnFirstChild s \<and> map_get (sdRoot s) key = None \<and> value = SVal JNull then Inl TypeError
            else if ignoreEmptyOnFirstChild s \<and> map_get (sdRoot s) key = None \<and> plain value = JObj [] then Inr written
            else Inr (written\<lparr>dataChanged := True\<rparr>))
         else case objectAt (sdRoot s) path of
                None \<Rightarrow> Inl TypeError
              | Some obj \<Rightarrow> Inr (written\<lparr>dataChanged := dataChanged s \<or> observed obj\<rparr>))"

definition deleteProperty :: "string list \<Rightarrow> string \<Rightarrow> StaticData \<Rightarrow> StaticData res" where
  "deleteProperty path key s =
     (let written = s\<lparr>sdRoot := changeAt (map_del key) (sdRoot s) path\<rparr>
      in if path = [] then Inr (written\<lparr>dataChanged := True\<rparr>)
         else case objectAt (sdRoot s) path of
                None \<Rightarrow> Inl TypeError
              | Some obj \<Rightarrow> Inr (written\<lparr>dataChanged := dataChanged s \<or> observed obj\<rparr>))"

text \<open>What \<open>getStaticData\<close> gives: an object of the test data, or the object at a key of the static data.\<close>

datatype StaticRef = TestData jval | AtKey string

definition staticKey :: "string \<Rightarrow> string option \<Rightarrow> string res" where
  "staticKey type node =
     (if type = ''global'' then Inr ''global''
      else if type = ''node'' then
        (case node of
           None \<Rightarrow> Inl (ApplicationError
             ''The request data of context type \"node\" the node parameter has to be set!'')
         | Some n \<Rightarrow> Inr (''node:'' @ n))
      else Inl (ApplicationError ''Unknown context type. Only `global` and `node` are supported.''))"

definition getStaticData :: "string \<Rightarrow> string option \<Rightarrow> StaticData \<Rightarrow> (StaticRef \<times> StaticData) res" where
  "getStaticData type node s =
     res_bind (staticKey type node) (\<lambda>key.
       case Option.bind (testStaticData s) (\<lambda>d. map_get d key) of
         Some v \<Rightarrow> Inr (TestData v, s)
       | None \<Rightarrow>
           (if map_get (sdRoot s) key = None
            then res_bind (setProperty [] key (SObj True []) s) (\<lambda>s. Inr (AtKey key, s))
            else Inr (AtKey key, s)))"

text \<open>\<open>saveStaticData\<close> up to the database call that it awaits, and from there on.\<close>

definition beginSave :: "StaticData \<Rightarrow> StaticData" where
  "beginSave s = (if dataChanged s then s\<lparr>dbStaticData := plain (SObj True (sdRoot s))\<rparr> else s)"

definition endSave :: "StaticData \<Rightarrow> StaticData" where
  "endSave s = s\<lparr>dataChanged := False\<rparr>"

definition saveStaticData :: "StaticData \<Rightarrow> StaticData" where
  "saveStaticData s = (if dataChanged s then endSave (beginSave s) else s)"

end
