(* ===== verification/Static_Data_Properties.thy ===== *)
theory Static_Data_Properties
  imports Static_Data
begin

text \<open>
  When changes of the static data are noticed and saved, and when they are lost.
\<close>

fun all_observed :: "sdata \<Rightarrow> bool" where
  "all_observed (SVal v) = True"
| "all_observed (SObj b fs) = (b \<and> (\<forall>x \<in> set fs. all_observed (snd x)))"

lemma all_observed_observe: "all_observed (observe d)"
  by (induction d rule: observe.induct) auto

lemma plain_observe [simp]: "plain (observe d) = plain d"
  by (induction d rule: observe.induct) auto

definition fields_observed :: "(string \<times> sdata) list \<Rightarrow> bool" where
  "fields_observed fs \<longleftrightarrow> (\<forall>x \<in> set fs. all_observed (snd x))"

lemma all_observed_object [simp]: "all_observed (SObj b fs) \<longleftrightarrow> b \<and> fields_observed fs"
  by (simp add: fields_observed_def)

declare all_observed.simps(2) [simp del]

lemma fields_observed_get: "fields_observed fs \<Longrightarrow> map_get fs k = Some x \<Longrightarrow> all_observed x"
  by (fastforce simp: fields_observed_def dest: map_of_SomeD)

lemma fields_observed_put: "fields_observed fs \<Longrightarrow> all_observed x \<Longrightarrow> fields_observed (map_put k x fs)"
  by (induction fs) (auto simp: fields_observed_def split: if_splits)

lemma fields_observed_del: "fields_observed fs \<Longrightarrow> fields_observed (map_del k fs)"
  by (induction fs) (auto simp: fields_observed_def)

lemma objectAt_observed: "fields_observed fs \<Longrightarrow> objectAt fs path = Some obj \<Longrightarrow> observed obj"
  by (induction fs path rule: objectAt.induct) (fastforce dest: fields_observed_get split: option.splits sdata.splits)+

lemma changeAt_observed:
  "(\<And>gs. fields_observed gs \<Longrightarrow> fields_observed (f gs)) \<Longrightarrow> fields_observed fs \<Longrightarrow> fields_observed (changeAt f fs path)"
proof (induction f fs path rule: changeAt.induct)
  case (2 f fs k ks)
  show ?case
  proof (cases "\<exists>b gs. map_get fs k = Some (SObj b gs)")
    case True
    then obtain b gs where g: "map_get fs k = Some (SObj b gs)" by blast
    then have "b" "fields_observed gs" using fields_observed_get [OF "2.prems"(2) g] by auto
    then show ?thesis using g "2.IH" [OF g refl "2.prems"(1)] "2.prems"(2) by (simp add: fields_observed_put)
  next
    case False
    then show ?thesis using "2.prems"(2) by (auto split: option.split sdata.split)
  qed
qed simp

text \<open>The data without the contexts that are still empty.\<close>

definition shown :: "jval \<Rightarrow> (string \<times> jval) list" where
  "shown v = (case v of JObj fs \<Rightarrow> filter (\<lambda>(k, x). x \<noteq> JObj []) fs | _ \<Rightarrow> [])"

text \<open>Code that sets values other than objects, deletes, asks for the data of a context and saves.\<close>

inductive sd_step :: "StaticData \<Rightarrow> StaticData \<Rightarrow> bool" where
  sd_set: "setProperty path key (SVal v) s = Inr s' \<Longrightarrow> sd_step s s'"
| sd_delete: "deleteProperty path key s = Inr s' \<Longrightarrow> sd_step s s'"
| sd_get: "getStaticData type node s = Inr (r, s') \<Longrightarrow> sd_step s s'"
| sd_save: "sd_step s (saveStaticData s)"
| sd_override: "sd_step s (overrideStaticData fs s)"

definition noticed :: "StaticData \<Rightarrow> bool" where
  "noticed s \<longleftrightarrow> fields_observed (sdRoot s) \<and>
     (\<not> dataChanged s \<longrightarrow> shown (plain (SObj True (sdRoot s))) = shown (dbStaticData s))"

lemma shown_put_empty:
  assumes "map_get fs k = None" and "plain v = JObj []"
  shows "shown (plain (SObj True (map_put k v fs))) = shown (plain (SObj True fs))"
  using assms by (induction fs) (auto simp: shown_def split: if_splits)

lemma noticed_set:
  assumes "noticed s" and "all_observed v" and "setProperty path key v s = Inr s'"
  shows "noticed s'"
proof -
  have obs: "fields_observed (changeAt (map_put key v) (sdRoot s) path)"
    using assms(1,2) by (intro changeAt_observed) (simp_all add: noticed_def fields_observed_put)
  show ?thesis
  proof (cases path)
    case Nil
    then show ?thesis using assms obs
      by (auto simp: setProperty_def noticed_def Let_def shown_put_empty [simplified] split: if_splits)
  next
    case (Cons k ks)
    then obtain obj where "objectAt (sdRoot s) path = Some obj" "s' = s\<lparr>sdRoot := changeAt (map_put key v) (sdRoot s) path,
        dataChanged := dataChanged s \<or> observed obj\<rparr>"
      using assms(3) by (auto simp: setProperty_def Let_def split: option.splits)
    moreover have "observed obj" using objectAt_observed assms(1) calculation(1) by (auto simp: noticed_def)
    ultimately show ?thesis using obs by (simp add: noticed_def)
  qed
qed

lemma noticed_create: "noticed s \<Longrightarrow> setProperty [] k (SObj True []) s = Inr s' \<Longrightarrow> noticed s'"
  by (rule noticed_set) (simp_all add: fields_observed_def)

lemma noticed_delete:
  assumes "noticed s" and "deleteProperty path key s = Inr s'"
  shows "noticed s'"
proof -
  have obs: "fields_observed (changeAt (map_del key) (sdRoot s) path)"
    using assms(1) by (intro changeAt_observed) (simp_all add: noticed_def fields_observed_del)
  show ?thesis using assms obs
    by (auto simp: deleteProperty_def noticed_def Let_def dest: objectAt_observed split: if_splits option.splits)
qed

lemma noticed_step: "sd_step s s' \<Longrightarrow> noticed s \<Longrightarrow> noticed s'"
proof (induction rule: sd_step.induct)
  case (sd_get type node s r s')
  then show ?case
    by (auto simp: getStaticData_def res_bind_Inr_iff split: option.splits if_splits intro: noticed_create)
next
  case (sd_save s)
  then show ?case by (simp add: saveStaticData_def beginSave_def endSave_def noticed_def)
next
  case (sd_set path key v s s')
  then show ?case by (rule noticed_set [rotated 2]) simp_all
next
  case (sd_override s fs)
  then show ?case using all_observed_observe [of "SObj False fs"] by (simp add: noticed_def overrideStaticData_def)
qed (rule noticed_delete)

lemma noticed_new: "noticed (newStaticData fs)"
proof -
  have "plain (SObj True (sfields (observe (SObj False fs)))) = plain (SObj False fs)"
    by (subst plain_observe [of "SObj False fs", symmetric]) (simp del: plain_observe)
  moreover have "fields_observed (sfields (observe (SObj False fs)))"
    using all_observed_observe [of "SObj False fs"] by simp
  ultimately show ?thesis unfolding noticed_def newStaticData_def by (simp del: plain.simps observe.simps)
qed



text \<open>
  Changes inside an object that code put into the static data are not noticed after it was saved
  once, and neither are changes while the data is being saved: the data does not count as changed, so
  the next save does nothing, although the database has another value.
\<close>

theorem static_data_changes_lost:
  assumes "objectAt (sdRoot s) [k] = Some (SObj True gs)" and "map_get hs b \<noteq> Some (SVal v)"
    and "setProperty [k] a (SObj False hs) s = Inr s1" and "setProperty [k, a] b (SVal v) (saveStaticData s1) = Inr s2"
    and "setProperty [k] a (SVal v) (beginSave s1) = Inr s3"
  shows "saveStaticData s2 = s2 \<and> dbStaticData s2 = plain (SObj True (sdRoot s1)) \<and>
    objectAt (sdRoot s2) [k, a] = Some (SObj False (map_put b (SVal v) hs)) \<and>
    saveStaticData (endSave s3) = endSave s3 \<and> dbStaticData (endSave s3) = plain (SObj True (sdRoot s1)) \<and>
    (\<exists>fs. objectAt (sdRoot (endSave s3)) [k] = Some (SObj True fs) \<and> map_get fs a = Some (SVal v))"
proof -
  have k: "map_get (sdRoot s) k = Some (SObj True gs)"
    using assms(1) by (auto split: option.splits sdata.splits)
  have s1: "s1 = s\<lparr>sdRoot := map_put k (SObj True (map_put a (SObj False hs) gs)) (sdRoot s), dataChanged := True\<rparr>"
    using assms(3) k by (simp add: setProperty_def)
  have s2: "s2 = s1\<lparr>dbStaticData := plain (SObj True (sdRoot s1)),
      sdRoot := map_put k (SObj True (map_put a (SObj False (map_put b (SVal v) hs)) (map_put a (SObj False hs) gs))) (sdRoot s1),
      dataChanged := False\<rparr>"
    using assms(4) by (simp add: setProperty_def saveStaticData_def beginSave_def endSave_def s1)
  have s3: "s3 = s1\<lparr>dbStaticData := plain (SObj True (sdRoot s1)),
      sdRoot := map_put k (SObj True (map_put a (SVal v) (map_put a (SObj False hs) gs))) (sdRoot s1), dataChanged := True\<rparr>"
    using assms(5) by (simp add: setProperty_def beginSave_def s1)
  show ?thesis by (simp add: s2 s3 saveStaticData_def endSave_def)
qed

text \<open>A polling node that keeps the last item as an object.\<close>

definition polled :: StaticData where
  "polled = newStaticData [(''node:P'', SObj False [])]"

theorem static_data_changes_lost_witness:
  "case res_bind (setProperty [''node:P''] ''last'' (SObj False [(''id'', SVal (JNum 1))]) polled)
      (\<lambda>s. setProperty [''node:P'', ''last''] ''id'' (SVal (JNum 2)) (saveStaticData s)) of
     Inl e \<Rightarrow> False
   | Inr s \<Rightarrow> saveStaticData s = s"
proof -
  let ?hs = "[(''id'', SVal (JNum 1))]"
  obtain s1 where s1: "setProperty [''node:P''] ''last'' (SObj False ?hs) polled = Inr s1"
    by (simp add: setProperty_def polled_def newStaticData_def)
  obtain s2 where s2: "setProperty [''node:P'', ''last''] ''id'' (SVal (JNum 2)) (saveStaticData s1) = Inr s2"
    using s1 by (auto simp: setProperty_def polled_def newStaticData_def saveStaticData_def beginSave_def endSave_def)
  obtain s3 where s3: "setProperty [''node:P''] ''last'' (SVal (JNum 2)) (beginSave s1) = Inr s3"
    using s1 by (auto simp: setProperty_def polled_def newStaticData_def beginSave_def)
  have "objectAt (sdRoot polled) [''node:P''] = Some (SObj True [])"
    by (simp add: polled_def newStaticData_def)
  from static_data_changes_lost [OF this _ s1 s2 s3] show ?thesis using s1 s2 by simp
qed

end
