(* ===== verification/Node_Parameters.thy ===== *)
theory Node_Parameters
  imports Workflow_Types
begin

text \<open>
  The parameters of a node, from packages/workflow/src/NodeHelpers.ts: on which other parameters a
  parameter depends and in which order they are resolved, when a parameter is displayed, and which values
  a node has.

  \<open>get\<close> and \<open>isEqual\<close> of lodash, regular expressions and the conversion of strings to numbers are
  parameters. A value that is \<open>undefined\<close> is \<open>None\<close>.
\<close>

type_synonym INodeParameters = "(string \<times> jval) list"

datatype DisplayCondition = CondValue jval | Cond string jval

type_synonym DisplayRules = "(string, DisplayCondition list) js_map"

text \<open>The parts \<open>show\<close> and \<open>hide\<close> of the display options.\<close>

record IDisplayOptions =
  showRules :: "DisplayRules option"
  hideRules :: "DisplayRules option"

text \<open>
  A property of a node type. The options of a collection are properties, those of a fixed collection are
  named lists of properties; the options of other types are not looked at.
\<close>

datatype INodeProperties = NodeProperty
  (propName: string) (propType: string) (propDefault: "jval option") (displayOptions: "IDisplayOptions option")
  (multipleValues: "bool option") (propOptions: "INodeProperties list")
  (propCollections: "(string \<times> INodeProperties list) list")


section \<open>The order of parameters\<close>

type_synonym IParameterDependencies = "(string, string list) js_map"

definition addDependency :: "string \<Rightarrow> string list \<Rightarrow> string list" where
  "addDependency parameterName deps =
     (if parameterName \<in> set deps then deps
      else if take 1 parameterName = ''@'' then deps
      else deps @ [parameterName])"

definition ruleNames :: "IDisplayOptions \<Rightarrow> string list" where
  "ruleNames d = (case showRules d of None \<Rightarrow> [] | Some r \<Rightarrow> map_keys r) @
     (case hideRules d of None \<Rightarrow> [] | Some r \<Rightarrow> map_keys r)"

definition propertyDependencies :: "INodeProperties \<Rightarrow> IParameterDependencies \<Rightarrow> IParameterDependencies" where
  "propertyDependencies p dependencies =
     (let before = (case map_get dependencies (propName p) of None \<Rightarrow> [] | Some ds \<Rightarrow> ds)
      in map_put (propName p)
           (case displayOptions p of None \<Rightarrow> before | Some d \<Rightarrow> fold addDependency (ruleNames d) before) dependencies)"

definition getParameterDependencies :: "INodeProperties list \<Rightarrow> IParameterDependencies" where
  "getParameterDependencies props = fold propertyDependencies props []"

record ResolveState =
  executionOrder_ix :: "nat list"
  indexToResolve :: "nat list"
  resolvedParameters :: "string list"
  lastIndexLength :: nat
  lastIndexReduction :: int
  iterations :: int

definition maxIterationsMessage :: string where
  "maxIterationsMessage = ''Could not resolve parameter dependencies. Max iterations reached! '' @
     ''Hint: If `displayOptions` are specified in any child parameter of a parent `collection` or '' @
     ''`fixedCollection`, remove the `displayOptions` from the child parameter.''"

text \<open>The dependencies that are neither resolved nor on the root level: the index is put back for each.\<close>

definition missingDependencies :: "string list \<Rightarrow> string list \<Rightarrow> string list" where
  "missingDependencies resolved deps = filter (\<lambda>d. d \<notin> set resolved \<and> take 1 d \<noteq> ''/'') deps"

text \<open>One turn of the loop, for a queue that is not empty.\<close>

definition resolveStep ::
  "INodeProperties list \<Rightarrow> IParameterDependencies \<Rightarrow> ResolveState \<Rightarrow> ResolveState res" where
  "resolveStep props dependencies s =
     (let s = s\<lparr>iterations := iterations s + 1\<rparr>;
          index = hd (indexToResolve s);
          name = propName (props ! index);
          rest = s\<lparr>indexToResolve := tl (indexToResolve s)\<rparr>;
          added = (\<lambda>s. s\<lparr>executionOrder_ix := executionOrder_ix s @ [index], resolvedParameters := resolvedParameters s @ [name]\<rparr>)
      in case map_get dependencies name of
           None \<Rightarrow> Inl TypeError
         | Some deps \<Rightarrow>
             (if deps = [] then Inr (added rest)
              else (let missing = missingDependencies (resolvedParameters s) deps;
                        s = added (rest\<lparr>indexToResolve := indexToResolve rest @ replicate (length missing) index\<rparr>);
                        s = (if length (indexToResolve s) < lastIndexLength s then s\<lparr>lastIndexReduction := iterations s\<rparr> else s)
                    in if iterations s > lastIndexReduction s + int (length props)
                       then Inl (ApplicationError maxIterationsMessage)
                       else Inr (s\<lparr>lastIndexLength := length (indexToResolve s)\<rparr>))))"

partial_function (option) resolveLoop ::
  "INodeProperties list \<Rightarrow> IParameterDependencies \<Rightarrow> ResolveState \<Rightarrow> nat list res option" where
  "resolveLoop props dependencies s =
     (if indexToResolve s = [] then Some (Inr (executionOrder_ix s))
      else (case resolveStep props dependencies s of
              Inl e \<Rightarrow> Some (Inl e)
            | Inr s' \<Rightarrow> resolveLoop props dependencies s'))"

definition startResolve :: "INodeProperties list \<Rightarrow> ResolveState" where
  "startResolve props =
     \<lparr>executionOrder_ix = [], indexToResolve = [0..<length props], resolvedParameters = [],
      lastIndexLength = length props, lastIndexReduction = -1, iterations = 0\<rparr>"

definition getParameterResolveOrder ::
  "INodeProperties list \<Rightarrow> IParameterDependencies \<Rightarrow> nat list res option" where
  "getParameterResolveOrder props dependencies = resolveLoop props dependencies (startResolve props)"

end
