(* ===== verification/Parameter_Order.thy ===== *)
theory Parameter_Order
  imports Node_Parameters
begin

text \<open>
  The order in which parameters are resolved: the search for it ends, and what an order that it finds
  guarantees.
\<close>

abbreviation pname :: "INodeProperties list \<Rightarrow> nat \<Rightarrow> string" where
  "pname props i \<equiv> propName (props ! i)"

section \<open>One turn of the loop\<close>

text \<open>What a turn that does not end the loop does with the queue, the order and the counters.\<close>

lemma resolveStep_Inr:
  assumes "resolveStep props dependencies s = Inr s'"
  obtains deps missing where "map_get dependencies (pname props (hd (indexToResolve s))) = Some deps"
    "missing = missingDependencies (resolvedParameters s) deps"
    "executionOrder_ix s' = executionOrder_ix s @ [hd (indexToResolve s)]"
    "resolvedParameters s' = resolvedParameters s @ [pname props (hd (indexToResolve s))]"
    "indexToResolve s' = tl (indexToResolve s) @ replicate (length missing) (hd (indexToResolve s))"
    "iterations s' = iterations s + 1"
    "deps = [] \<and> lastIndexLength s' = lastIndexLength s \<and> lastIndexReduction s' = lastIndexReduction s \<or>
     deps \<noteq> [] \<and> lastIndexLength s' = length (indexToResolve s') \<and>
       lastIndexReduction s' = (if length (indexToResolve s') < lastIndexLength s then iterations s' else lastIndexReduction s) \<and>
       iterations s' \<le> lastIndexReduction s' + int (length props)"
proof -
  from assms obtain deps where d: "map_get dependencies (pname props (hd (indexToResolve s))) = Some deps"
    by (auto simp: resolveStep_def Let_def split: option.splits)
  show thesis
  proof (cases "deps = []")
    case True
    then show thesis
      using assms d by (intro that [of deps "[]"]) (auto simp: resolveStep_def Let_def missingDependencies_def)
  next
    case False
    then show thesis
      using assms d by (intro that [of deps "missingDependencies (resolvedParameters s) deps"])
        (auto simp: resolveStep_def Let_def split: if_splits)
  qed
qed


section \<open>What an order guarantees\<close>

text \<open>At some position of the order the index stands after all its dependencies.\<close>

definition placed :: "INodeProperties list \<Rightarrow> IParameterDependencies \<Rightarrow> nat list \<Rightarrow> nat \<Rightarrow> bool" where
  "placed props dependencies order i \<longleftrightarrow>
     (\<exists>p < length order. order ! p = i \<and>
        (\<forall>deps d. map_get dependencies (pname props i) = Some deps \<longrightarrow> d \<in> set deps \<longrightarrow> take 1 d \<noteq> ''/'' \<longrightarrow>
           (\<exists>q < p. pname props (order ! q) = d)))"

lemma placed_append: "placed props dependencies order i \<Longrightarrow> placed props dependencies (order @ xs) i"
proof -
  assume "placed props dependencies order i"
  then obtain p where p: "p < length order" "order ! p = i"
    "\<And>deps d. map_get dependencies (pname props i) = Some deps \<Longrightarrow> d \<in> set deps \<Longrightarrow> take 1 d \<noteq> ''/'' \<Longrightarrow>
       \<exists>q < p. pname props (order ! q) = d"
    unfolding placed_def by blast
  have same: "(order @ xs) ! q = order ! q" if "q \<le> p" for q using that p(1) by (simp add: nth_append)
  show ?thesis unfolding placed_def
  proof (rule exI [of _ p], intro conjI allI impI)
    show "p < length (order @ xs)" "(order @ xs) ! p = i" using p(1,2) same [of p] by simp_all
    fix deps d assume "map_get dependencies (pname props i) = Some deps" "d \<in> set deps" "take 1 d \<noteq> ''/''"
    from p(3) [OF this] obtain q where "q < p" "pname props (order ! q) = d" by blast
    then show "\<exists>q < p. pname props ((order @ xs) ! q) = d" using same [of q] by auto
  qed
qed

definition ro_ok :: "INodeProperties list \<Rightarrow> IParameterDependencies \<Rightarrow> ResolveState \<Rightarrow> bool" where
  "ro_ok props dependencies s \<longleftrightarrow> set (indexToResolve s) \<union> set (executionOrder_ix s) = {..<length props} \<and>
     resolvedParameters s = map (pname props) (executionOrder_ix s) \<and>
     (\<forall>i < length props. i \<in> set (indexToResolve s) \<or> placed props dependencies (executionOrder_ix s) i)"

lemma ro_ok_start: "ro_ok props dependencies (startResolve props)"
  by (auto simp: ro_ok_def startResolve_def)

lemma ro_ok_step:
  assumes "ro_ok props dependencies s" and "indexToResolve s \<noteq> []" and "resolveStep props dependencies s = Inr s'"
  shows "ro_ok props dependencies s'"
proof -
  obtain i rest where q: "indexToResolve s = i # rest" using assms(2) by (cases "indexToResolve s") auto
  from assms(3) obtain deps missing where st: "map_get dependencies (pname props i) = Some deps"
    "missing = missingDependencies (resolvedParameters s) deps" "executionOrder_ix s' = executionOrder_ix s @ [i]"
    "resolvedParameters s' = resolvedParameters s @ [pname props i]"
    "indexToResolve s' = rest @ replicate (length missing) i"
    by (rule resolveStep_Inr) (simp add: q)
  note ok = assms(1) [unfolded ro_ok_def q]
  have "i \<in> set (indexToResolve s') \<or> placed props dependencies (executionOrder_ix s') i"
  proof (cases "missing = []")
    case True
    have "\<exists>p < length (executionOrder_ix s). pname props ((executionOrder_ix s @ [i]) ! p) = d"
      if "d \<in> set deps" "take 1 d \<noteq> ''/''" for d
    proof -
      have "d \<in> set (resolvedParameters s)" using True that st(2) by (auto simp: missingDependencies_def filter_empty_conv)
      then obtain p where "p < length (executionOrder_ix s)" "pname props (executionOrder_ix s ! p) = d"
        using ok by (auto simp: in_set_conv_nth)
      then show ?thesis by (auto simp: nth_append)
    qed
    then have "placed props dependencies (executionOrder_ix s') i"
      unfolding placed_def st(3) by (intro exI [of _ "length (executionOrder_ix s)"]) (simp add: st(1))
    then show ?thesis by blast
  next
    case False
    then show ?thesis by (simp add: st(5))
  qed
  then have "j \<in> set (indexToResolve s') \<or> placed props dependencies (executionOrder_ix s') j" if "j < length props" for j
    using ok that placed_append [of props dependencies "executionOrder_ix s" j "[i]"] by (auto simp: st(3,5))
  moreover have "set (indexToResolve s') \<union> set (executionOrder_ix s') = {..<length props}"
    using ok by (auto simp: st(3,5))
  ultimately show ?thesis using ok by (simp add: ro_ok_def st(3,4))
qed

definition ends_ok :: "INodeProperties list \<Rightarrow> IParameterDependencies \<Rightarrow> ResolveState \<Rightarrow> nat list res \<Rightarrow> bool" where
  "ends_ok props dependencies s r \<longleftrightarrow> (ro_ok props dependencies s \<longrightarrow> (\<forall>order. r = Inr order \<longrightarrow>
     set order = {..<length props} \<and> (\<forall>i < length props. placed props dependencies order i)))"

lemma resolveLoop_ok:
  assumes "resolveLoop props dependencies s = Some r"
  shows "ends_ok props dependencies s r"
proof (rule resolveLoop.raw_induct [OF _ assms, where P = ends_ok])
  fix loop props dependencies s r
  assume IH: "\<And>props dependencies s r. loop props dependencies s = Some r \<Longrightarrow> ends_ok props dependencies s r"
    and body: "(if indexToResolve s = [] then Some (Inr (executionOrder_ix s))
      else case resolveStep props dependencies s of Inl e \<Rightarrow> Some (Inl e) | Inr s' \<Rightarrow> loop props dependencies s') = Some r"
  show "ends_ok props dependencies s r"
  proof (cases "indexToResolve s = []")
    case True
    then show ?thesis using body by (auto simp: ends_ok_def ro_ok_def)
  next
    case False
    then show ?thesis using body ro_ok_step [of props dependencies s] IH [of props dependencies]
      by (cases "resolveStep props dependencies s") (auto simp: ends_ok_def)
  qed
qed


section \<open>The search ends\<close>

text \<open>
  While a name in the queue is not resolved yet, the first index with such a name moves forward. When
  all are resolved, only dependencies that are no parameters are missing, and indices without one are not
  put back; the rest keeps the queue from becoming shorter, until the limit of turns is reached.
\<close>

definition unresolved :: "INodeProperties list \<Rightarrow> ResolveState \<Rightarrow> nat \<Rightarrow> bool" where
  "unresolved props s i \<longleftrightarrow> pname props i \<notin> set (resolvedParameters s)"

definition stuck_index :: "INodeProperties list \<Rightarrow> IParameterDependencies \<Rightarrow> ResolveState \<Rightarrow> nat \<Rightarrow> bool" where
  "stuck_index props dependencies s i \<longleftrightarrow>
     (\<exists>deps. map_get dependencies (pname props i) = Some deps \<and> missingDependencies (resolvedParameters s) deps \<noteq> [])"

definition pending_names :: "INodeProperties list \<Rightarrow> ResolveState \<Rightarrow> nat" where
  "pending_names props s = length (filter (unresolved props s) (indexToResolve s))"

definition resolve_measures :: "INodeProperties list \<Rightarrow> IParameterDependencies \<Rightarrow> (ResolveState \<times> ResolveState) set" where
  "resolve_measures props dependencies = measures
     [pending_names props,
      \<lambda>s. if pending_names props s = 0 then 0 else length (takeWhile (\<lambda>i. \<not> unresolved props s i) (indexToResolve s)),
      \<lambda>s. length (filter (\<lambda>i. \<not> stuck_index props dependencies s i) (indexToResolve s)),
      \<lambda>s. if length (indexToResolve s) < lastIndexLength s then 1 else 0,
      \<lambda>s. nat (lastIndexReduction s + int (length props) + 1 - iterations s)]"

lemma filter_Nil_iff: "length (filter P xs) = 0 \<longleftrightarrow> (\<forall>x \<in> set xs. \<not> P x)"
  by (simp add: filter_empty_conv)

lemma resolveStep_decreases:
  assumes "indexToResolve s \<noteq> []" and "resolveStep props dependencies s = Inr s'"
  shows "(s', s) \<in> resolve_measures props dependencies"
proof -
  obtain i rest where q: "indexToResolve s = i # rest" using assms(1) by (cases "indexToResolve s") auto
  from assms(2) obtain deps missing where st: "map_get dependencies (pname props i) = Some deps"
    "missing = missingDependencies (resolvedParameters s) deps"
    "resolvedParameters s' = resolvedParameters s @ [pname props i]"
    "indexToResolve s' = rest @ replicate (length missing) i" "iterations s' = iterations s + 1"
    and counters: "deps = [] \<and> lastIndexLength s' = lastIndexLength s \<and> lastIndexReduction s' = lastIndexReduction s \<or>
     deps \<noteq> [] \<and> lastIndexLength s' = length (indexToResolve s') \<and>
       lastIndexReduction s' = (if length (indexToResolve s') < lastIndexLength s then iterations s' else lastIndexReduction s) \<and>
       iterations s' \<le> lastIndexReduction s' + int (length props)"
    by (rule resolveStep_Inr) (simp add: q)
  have now: "\<not> unresolved props s' i" by (simp add: unresolved_def st(3))
  have still: "unresolved props s' j \<Longrightarrow> unresolved props s j" for j by (auto simp: unresolved_def st(3))
  have shrink: "pending_names props s' = length (filter (unresolved props s') rest)"
    using now by (simp add: pending_names_def st(4))
  have le: "length (filter (unresolved props s') xs) \<le> length (filter (unresolved props s) xs)" for xs
    using still by (induction xs) auto
  show ?thesis
  proof (cases "unresolved props s i")
    case True
    then have "pending_names props s' < pending_names props s"
      using le [of rest] by (simp add: shrink) (simp add: pending_names_def q)
    then show ?thesis by (simp add: resolve_measures_def)
  next
    case known: False
    then have same: "unresolved props s' = unresolved props s" by (auto simp: unresolved_def st(3) fun_eq_iff)
    then have pend: "pending_names props s' = pending_names props s"
      using known by (simp add: shrink) (simp add: pending_names_def q)
    show ?thesis
    proof (cases "pending_names props s = 0")
      case False
      then obtain x where x: "x \<in> set rest" "unresolved props s x"
        using known by (auto simp: pending_names_def q filter_empty_conv)
      have "takeWhile (\<lambda>i. \<not> unresolved props s i) (rest @ replicate (length missing) i) =
          takeWhile (\<lambda>i. \<not> unresolved props s i) rest"
        using x by (intro takeWhile_append1) simp_all
      then show ?thesis using False pend known by (simp add: resolve_measures_def q st(4) same)
    next
      case True
      then have all: "\<not> unresolved props s j" if "j \<in> set (indexToResolve s)" for j
        using that by (auto simp: pending_names_def filter_empty_conv)
      have zero: "pending_names props s' = 0" using True pend by simp
      have resolved: "set (resolvedParameters s') = set (resolvedParameters s)"
        using known by (auto simp: st(3) unresolved_def)
      then have stuck: "stuck_index props dependencies s' = stuck_index props dependencies s"
        by (simp add: stuck_index_def missingDependencies_def fun_eq_iff)
      show ?thesis
      proof (cases "missing = []")
        case True
        then have "\<not> stuck_index props dependencies s i" using st(1,2) by (simp add: stuck_index_def)
        then have "length (filter (\<lambda>i. \<not> stuck_index props dependencies s' i) (indexToResolve s')) <
            length (filter (\<lambda>i. \<not> stuck_index props dependencies s i) (indexToResolve s))"
          using True by (simp add: stuck st(4) q)
        then show ?thesis using zero \<open>pending_names props s = 0\<close> by (simp add: resolve_measures_def)
      next
        case False
        then have deps: "deps \<noteq> []" using st(2) by (auto simp: missingDependencies_def)
        have "stuck_index props dependencies s i" using st(1,2) False by (simp add: stuck_index_def)
        then have third: "filter (\<lambda>i. \<not> stuck_index props dependencies s' i) (indexToResolve s') =
            filter (\<lambda>i. \<not> stuck_index props dependencies s i) (indexToResolve s)"
          by (simp add: stuck st(4) q)
        have longer: "length (indexToResolve s) \<le> length (indexToResolve s')"
          using False by (cases missing) (simp_all add: st(4) q)
        have last: "lastIndexLength s' = length (indexToResolve s')" using counters deps by simp
        show ?thesis
        proof (cases "length (indexToResolve s) < lastIndexLength s")
          case True
          then show ?thesis using zero \<open>pending_names props s = 0\<close> third last by (simp add: resolve_measures_def)
        next
          case False
          then have "\<not> length (indexToResolve s') < lastIndexLength s" using longer by simp
          then have "lastIndexReduction s' = lastIndexReduction s" "iterations s' \<le> lastIndexReduction s + int (length props)"
            using counters deps by simp_all
          then have "nat (lastIndexReduction s' + int (length props) + 1 - iterations s') <
              nat (lastIndexReduction s + int (length props) + 1 - iterations s)"
            using st(5) by simp
          then show ?thesis using zero \<open>pending_names props s = 0\<close> third last False by (simp add: resolve_measures_def)
        qed
      qed
    qed
  qed
qed

lemma resolveLoop_ends: "\<exists>r. resolveLoop props dependencies s = Some r"
proof -
  have "wf (resolve_measures props dependencies)" by (simp add: resolve_measures_def)
  then show ?thesis
  proof (induction s rule: wf_induct_rule)
  case (less s)
  show ?case
  proof (cases "indexToResolve s = []")
    case True
    then show ?thesis by (simp add: resolveLoop.simps)
  next
    case False
    then show ?thesis using less [OF resolveStep_decreases [OF False]]
      by (cases "resolveStep props dependencies s") (auto simp: resolveLoop.simps [of props dependencies s])
  qed
  qed
qed


text \<open>
  A parameter that waits for another is also added at once, before what it depends on, as the inner
  \<open>continue\<close> does not leave the turn; it is added again later.
\<close>

definition shown_when :: "string \<Rightarrow> string \<Rightarrow> INodeProperties" where
  "shown_when name other = NodeProperty name ''string'' None
     (Some \<lparr>showRules = Some [(other, [CondValue (JBool True)])], hideRules = None\<rparr>) None [] []"

definition always_shown :: "string \<Rightarrow> INodeProperties" where
  "always_shown name = NodeProperty name ''boolean'' (Some (JBool True)) None None [] []"

definition two_params :: "INodeProperties list" where
  "two_params = [shown_when ''a'' ''b'', always_shown ''b'']"

lemma resolveLoop_turn:
  "resolveStep props dependencies s = Inr s' \<Longrightarrow> indexToResolve s \<noteq> [] \<Longrightarrow>
   resolveLoop props dependencies s = resolveLoop props dependencies s'"
  by (simp add: resolveLoop.simps [of props dependencies s])

lemma two_params_order:
  "getParameterResolveOrder two_params (getParameterDependencies two_params) = Some (Inr [0, 1, 0])"
proof -
  let ?d = "getParameterDependencies two_params"
  let ?s1 = "\<lparr>executionOrder_ix = [0], indexToResolve = [1, 0], resolvedParameters = [''a''],
    lastIndexLength = 2, lastIndexReduction = -1, iterations = 1\<rparr>"
  let ?s2 = "\<lparr>executionOrder_ix = [0, 1], indexToResolve = [0], resolvedParameters = [''a'', ''b''],
    lastIndexLength = 2, lastIndexReduction = -1, iterations = 2\<rparr>"
  let ?s3 = "\<lparr>executionOrder_ix = [0, 1, 0], indexToResolve = [], resolvedParameters = [''a'', ''b'', ''a''],
    lastIndexLength = 0, lastIndexReduction = 3, iterations = 3\<rparr>"
  have "resolveLoop two_params ?d (startResolve two_params) = resolveLoop two_params ?d ?s1"
    by (rule resolveLoop_turn) code_simp+
  also have "\<dots> = resolveLoop two_params ?d ?s2" by (rule resolveLoop_turn) code_simp+
  also have "\<dots> = resolveLoop two_params ?d ?s3" by (rule resolveLoop_turn) code_simp+
  also have "\<dots> = Some (Inr [0, 1, 0])" by (simp add: resolveLoop.simps)
  finally show ?thesis by (simp add: getParameterResolveOrder_def)
qed


end
