(* ===== verification/Augment_Object.thy ===== *)
theory Augment_Object
  imports Workflow_Types
begin

text \<open>
  Augmented objects, packages/workflow/src/AugmentObject.ts: code gets a proxy of the data of an
  execution, which it may change without changing the data. Objects and arrays, and the proxies of them,
  are cells of a heap; an address is an index of it. The data is JSON: the cases for dates, regular
  expressions, byte arrays and objects with \<open>toJSON\<close>, the property \<open>constructor\<close> and the prototypes
  are left out, and so is setting the length of an array.
\<close>

datatype js_value = Prim jval | Ref nat

text \<open>
  The value \<open>undefined\<close> is \<open>None\<close>, and so is a hole of an array. A proxy holds its target, the value of
  \<open>newData\<close>, and for objects \<open>deletedProperties\<close>.
\<close>

datatype cell =
    PlainObject "(string, js_value option) js_map"
  | PlainArray "js_value option list"
  | ObjectProxy nat "(string, js_value) js_map" "string list"
  | ArrayProxy nat "js_value option list option"

type_synonym heap = "cell list"

definition cell_at :: "heap \<Rightarrow> nat \<Rightarrow> cell option" where
  "cell_at h a = (if a < length h then Some (h ! a) else None)"

text \<open>The own properties of a plain object, and the elements of a plain array.\<close>

definition fieldsOf :: "heap \<Rightarrow> nat \<Rightarrow> (string, js_value option) js_map" where
  "fieldsOf h a = (case cell_at h a of Some (PlainObject fs) \<Rightarrow> fs | _ \<Rightarrow> [])"

definition elementsOf :: "heap \<Rightarrow> nat \<Rightarrow> js_value option list" where
  "elementsOf h a = (case cell_at h a of Some (PlainArray xs) \<Rightarrow> xs | _ \<Rightarrow> [])"

definition element :: "js_value option list \<Rightarrow> nat \<Rightarrow> js_value option" where
  "element xs i = (if i < length xs then xs ! i else None)"

definition setElement :: "nat \<Rightarrow> js_value option \<Rightarrow> js_value option list \<Rightarrow> js_value option list" where
  "setElement i v xs = (xs @ replicate (Suc i - length xs) None)[i := v]"

definition alloc :: "cell \<Rightarrow> heap \<Rightarrow> js_value \<times> heap" where
  "alloc c h = (Ref (length h), h @ [c])"

text \<open>\<open>augment\<close>, \<open>augmentObject\<close> and \<open>augmentArray\<close>: what is a proxy already is kept.\<close>

definition augment :: "js_value \<Rightarrow> heap \<Rightarrow> js_value \<times> heap" where
  "augment v h =
     (case v of
        Prim p \<Rightarrow> (v, h)
      | Ref a \<Rightarrow>
          (case cell_at h a of
             Some (PlainObject fs) \<Rightarrow> alloc (ObjectProxy a [] []) h
           | Some (PlainArray xs) \<Rightarrow> alloc (ArrayProxy a None) h
           | _ \<Rightarrow> (v, h)))"


section \<open>Objects\<close>

text \<open>The traps \<open>get\<close>, \<open>set\<close>, \<open>deleteProperty\<close>, \<open>has\<close> and \<open>ownKeys\<close>, and what they are for a plain object.\<close>

definition getProp :: "nat \<Rightarrow> string \<Rightarrow> heap \<Rightarrow> js_value option \<times> heap" where
  "getProp p key h =
     (case cell_at h p of
        Some (PlainObject fs) \<Rightarrow> (case map_get fs key of Some v \<Rightarrow> (v, h) | None \<Rightarrow> (None, h))
      | Some (ObjectProxy t newData deleted) \<Rightarrow>
          (if key \<in> set deleted then (None, h)
           else case map_get newData key of
                  Some v \<Rightarrow> (Some v, h)
                | None \<Rightarrow>
                    (case map_get (fieldsOf h t) key of
                       Some (Some value) \<Rightarrow>
                         (let (newValue, h') = augment value h
                          in if newValue = value then (Some value, h')
                             else (Some newValue, h'[p := ObjectProxy t (map_put key newValue newData) deleted]))
                     | _ \<Rightarrow> (None, h)))
      | _ \<Rightarrow> (None, h))"

definition setProp :: "nat \<Rightarrow> string \<Rightarrow> js_value option \<Rightarrow> heap \<Rightarrow> heap" where
  "setProp p key newValue h =
     (case cell_at h p of
        Some (PlainObject fs) \<Rightarrow> h[p := PlainObject (map_put key newValue fs)]
      | Some (ObjectProxy t newData deleted) \<Rightarrow>
          (case newValue of
             Some v \<Rightarrow> h[p := ObjectProxy t (map_put key v newData) (set_delete key deleted)]
           | None \<Rightarrow> h[p := ObjectProxy t (map_del key newData)
                        (if map_get (fieldsOf h t) key \<noteq> None then set_add key deleted else deleted)])
      | _ \<Rightarrow> h)"

definition deleteProp :: "nat \<Rightarrow> string \<Rightarrow> heap \<Rightarrow> heap" where
  "deleteProp p key h =
     (case cell_at h p of
        Some (PlainObject fs) \<Rightarrow> h[p := PlainObject (map_del key fs)]
      | Some (ObjectProxy t newData deleted) \<Rightarrow>
          h[p := ObjectProxy t (map_del key newData)
                   (if map_get (fieldsOf h t) key \<noteq> None then set_add key deleted else deleted)]
      | _ \<Rightarrow> h)"

definition hasProp :: "nat \<Rightarrow> string \<Rightarrow> heap \<Rightarrow> bool" where
  "hasProp p key h =
     (case cell_at h p of
        Some (PlainObject fs) \<Rightarrow> map_get fs key \<noteq> None
      | Some (ObjectProxy t newData deleted) \<Rightarrow>
          (if key \<in> set deleted then False
           else if map_get newData key \<noteq> None then True
           else map_get (fieldsOf h t) key \<noteq> None)
      | _ \<Rightarrow> False)"

definition ownKeys :: "nat \<Rightarrow> heap \<Rightarrow> string list" where
  "ownKeys p h =
     (case cell_at h p of
        Some (PlainObject fs) \<Rightarrow> map_keys fs
      | Some (ObjectProxy t newData deleted) \<Rightarrow>
          filter (\<lambda>key. key \<notin> set deleted) (fold set_add (map_keys newData) (map_keys (fieldsOf h t)))
      | _ \<Rightarrow> [])"


section \<open>Arrays\<close>

definition getData :: "heap \<Rightarrow> nat \<Rightarrow> js_value option list option \<Rightarrow> js_value option list" where
  "getData h t newData = (case newData of None \<Rightarrow> elementsOf h t | Some xs \<Rightarrow> xs)"

definition getIndex :: "nat \<Rightarrow> nat \<Rightarrow> heap \<Rightarrow> js_value option \<times> heap" where
  "getIndex p i h =
     (case cell_at h p of
        Some (PlainArray xs) \<Rightarrow> (element xs i, h)
      | Some (ArrayProxy t newData) \<Rightarrow>
          (case element (getData h t newData) i of
             None \<Rightarrow> (None, h)
           | Some value \<Rightarrow>
               (let (newValue, h') = augment value h
                in if newValue = value then (Some value, h')
                   else (Some newValue, h'[p := ArrayProxy t (Some (setElement i (Some newValue) (getData h t newData)))])))
      | _ \<Rightarrow> (None, h))"

definition setIndex :: "nat \<Rightarrow> nat \<Rightarrow> js_value option \<Rightarrow> heap \<Rightarrow> heap" where
  "setIndex p i newValue h =
     (case cell_at h p of
        Some (PlainArray xs) \<Rightarrow> h[p := PlainArray (setElement i newValue xs)]
      | Some (ArrayProxy t newData) \<Rightarrow>
          (case newValue of
             None \<Rightarrow> h[p := ArrayProxy t (Some (setElement i None (getData h t newData)))]
           | Some v \<Rightarrow>
               (let (v', h') = augment v h
                in h'[p := ArrayProxy t (Some (setElement i (Some v') (getData h t newData)))]))
      | _ \<Rightarrow> h)"

definition deleteIndex :: "nat \<Rightarrow> nat \<Rightarrow> heap \<Rightarrow> heap" where
  "deleteIndex p i h =
     (case cell_at h p of
        Some (PlainArray xs) \<Rightarrow> (if i < length xs then h[p := PlainArray (xs[i := None])] else h)
      | Some (ArrayProxy t newData) \<Rightarrow>
          (let xs = getData h t newData
           in h[p := ArrayProxy t (Some (if i < length xs then xs[i := None] else xs))])
      | _ \<Rightarrow> h)"

definition arrayLength :: "nat \<Rightarrow> heap \<Rightarrow> nat" where
  "arrayLength p h =
     (case cell_at h p of
        Some (PlainArray xs) \<Rightarrow> length xs
      | Some (ArrayProxy t newData) \<Rightarrow> length (getData h t newData)
      | _ \<Rightarrow> 0)"

end
