(* ===== verification/Augment_Properties.thy ===== *)
theory Augment_Properties
  imports Augment_Object
begin

text \<open>
  What augmenting promises: whatever code does with a proxy, the data behind it does not change, and what
  code reads through proxies is what the data holds.
\<close>

section \<open>Operations on plain data and on proxies\<close>

definition is_plain :: "cell \<Rightarrow> bool" where
  "is_plain c = (case c of PlainObject fs \<Rightarrow> True | PlainArray xs \<Rightarrow> True | _ \<Rightarrow> False)"

definition refs_of :: "cell \<Rightarrow> nat set" where
  "refs_of c = (case c of
     PlainObject fs \<Rightarrow> {a. \<exists>k. (k, Some (Ref a)) \<in> set fs}
   | PlainArray xs \<Rightarrow> {a. Some (Ref a) \<in> set xs}
   | ObjectProxy t newData deleted \<Rightarrow> {a. \<exists>k. (k, Ref a) \<in> set newData}
   | ArrayProxy t newData \<Rightarrow> {})"

text \<open>JSON data: plain objects and arrays that refer to each other.\<close>

definition json_heap :: "heap \<Rightarrow> bool" where
  "json_heap h = (\<forall>c \<in> set h. is_plain c \<and> (\<forall>a \<in> refs_of c. a < length h))"

text \<open>
  The data lies below \<open>n\<close> and is as it was; what lies above keeps references to the data only as the
  target of a proxy, or in the copy of an array, whose elements are augmented when they are read.
\<close>

definition shielded :: "heap \<Rightarrow> heap \<Rightarrow> bool" where
  "shielded h0 h \<longleftrightarrow> length h0 \<le> length h \<and> take (length h0) h = h0 \<and>
     (\<forall>a < length h. length h0 \<le> a \<longrightarrow> (\<forall>b \<in> refs_of (h ! a). length h0 \<le> b))"

definition outside :: "heap \<Rightarrow> js_value option \<Rightarrow> bool" where
  "outside h0 v = (case v of Some (Ref a) \<Rightarrow> length h0 \<le> a | _ \<Rightarrow> True)"

lemma outside_simps [simp]:
  "outside h0 None" "outside h0 (Some (Prim p))" "outside h0 (Some (Ref a)) \<longleftrightarrow> length h0 \<le> a"
  by (auto simp: outside_def)

lemma shielded_update:
  assumes "shielded h0 h" and "length h0 \<le> p" and "\<forall>b \<in> refs_of c. length h0 \<le> b"
  shows "shielded h0 (h[p := c])"
proof -
  have "\<forall>b \<in> refs_of (h[p := c] ! a). length h0 \<le> b" if "a < length h" "length h0 \<le> a" for a
    using that assms by (cases "a = p") (auto simp: shielded_def)
  moreover have "take (length h0) (h[p := c]) = h0" using assms by (simp add: shielded_def)
  ultimately show ?thesis using assms(1) unfolding shielded_def length_list_update by blast
qed

lemma shielded_append:
  assumes "shielded h0 h" and "\<forall>b \<in> refs_of c. length h0 \<le> b"
  shows "shielded h0 (h @ [c])"
  using assms by (auto simp: shielded_def nth_append less_Suc_eq)

lemma shielded_below: "shielded h0 h \<Longrightarrow> a < length h0 \<Longrightarrow> cell_at h a = Some (h0 ! a)"
  unfolding shielded_def cell_at_def by (metis (full_types) nth_take order_less_le_trans)

lemma shielded_refs:
  "shielded h0 h \<Longrightarrow> cell_at h p = Some c \<Longrightarrow> length h0 \<le> p \<Longrightarrow> b \<in> refs_of c \<Longrightarrow> length h0 \<le> b"
  by (auto simp: shielded_def cell_at_def split: if_splits)

lemma json_below: "json_heap h0 \<Longrightarrow> a < length h0 \<Longrightarrow> is_plain (h0 ! a)"
  by (auto simp: json_heap_def)

text \<open>Augmenting keeps a value as it is, or makes a new proxy of plain data.\<close>

definition fresh_proxy :: "nat \<Rightarrow> cell \<Rightarrow> cell" where
  "fresh_proxy a c = (case c of PlainObject fs \<Rightarrow> ObjectProxy a [] [] | _ \<Rightarrow> ArrayProxy a None)"

definition plain_at :: "heap \<Rightarrow> nat \<Rightarrow> bool" where
  "plain_at h a = (case cell_at h a of Some c \<Rightarrow> is_plain c | None \<Rightarrow> False)"

lemma augment_prim [simp]: "augment (Prim p) h = (Prim p, h)"
  by (simp add: augment_def)

lemma augment_ref:
  "augment (Ref a) h = (if plain_at h a then (Ref (length h), h @ [fresh_proxy a (h ! a)]) else (Ref a, h))"
  by (auto simp: augment_def alloc_def plain_at_def fresh_proxy_def is_plain_def cell_at_def split: cell.splits)

lemma refs_fresh_proxy [simp]: "refs_of (fresh_proxy a c) = {}"
  by (simp add: fresh_proxy_def refs_of_def split: cell.split)

lemma augment_shielded:
  assumes "augment v h = (v', h')" and "json_heap h0" and "shielded h0 h"
  shows "shielded h0 h'" and "outside h0 (Some v')"
proof -
  have plain: "plain_at h a" if "a < length h0" for a
    using shielded_below [OF assms(3) that] json_below [OF assms(2) that] by (simp add: plain_at_def)
  have len: "length h0 \<le> length h" using assms(3) by (simp add: shielded_def)
  show "shielded h0 h'" using assms shielded_append [OF assms(3)]
    by (cases v) (auto simp: augment_ref split: if_splits)
  show "outside h0 (Some v')"
  proof (cases v)
    case (Ref a)
    then show ?thesis using assms(1) plain [of a] len by (cases "a < length h0") (auto simp: augment_ref split: if_splits)
  qed (use assms(1) in auto)
qed

lemma in_map_put: "(k', v') \<in> set (map_put k v m) \<Longrightarrow> (k', v') \<in> set m \<or> (k' = k \<and> v' = v)"
  by (induction m) (auto split: if_splits)

lemma outside_put:
  "(k', Ref b) \<in> set (map_put k v m) \<Longrightarrow> (\<forall>x. (\<exists>k. (k, Ref x) \<in> set m) \<longrightarrow> length h0 \<le> x) \<Longrightarrow>
   outside h0 (Some v) \<Longrightarrow> length h0 \<le> b"
  by (drule in_map_put) auto

lemma in_setElement: "x \<in> set (setElement i v xs) \<Longrightarrow> x \<in> set xs \<or> x = v \<or> x = None"
  unfolding setElement_def by (auto dest!: subsetD [OF set_update_subset_insert] split: if_splits)

text \<open>A reference to plain data or a proxy gives values, and keeps what it stores, outside of the data.\<close>

lemma getProp_shielded:
  assumes "getProp p key h = (v, h')" and "json_heap h0" and "shielded h0 h" and "length h0 \<le> p"
  shows "shielded h0 h' \<and> outside h0 v"
proof (cases "cell_at h p")
  case (Some c)
  show ?thesis
  proof (cases c)
    case (PlainObject fs)
    then show ?thesis using assms(1,3) shielded_refs [OF assms(3) Some assms(4)] Some
      by (auto simp: getProp_def outside_def refs_of_def split: option.splits js_value.splits dest!: map_of_SomeD)
  next
    case (ObjectProxy t newData deleted)
    have kept: "\<forall>b \<in> refs_of (ObjectProxy t newData deleted). length h0 \<le> b"
      using shielded_refs [OF assms(3) Some assms(4)] ObjectProxy by blast
    show ?thesis
    proof (cases "key \<in> set deleted \<or> map_get newData key \<noteq> None \<or> map_get (fieldsOf h t) key = None
        \<or> map_get (fieldsOf h t) key = Some None")
      case True
      then show ?thesis using assms(1,3) kept Some ObjectProxy
        by (auto simp: getProp_def outside_def refs_of_def split: if_splits option.splits js_value.splits dest!: map_of_SomeD)
    next
      case False
      then obtain val where val: "map_get (fieldsOf h t) key = Some (Some val)" by auto
      obtain newValue h1 where aug: "augment val h = (newValue, h1)" by (cases "augment val h")
      note sh = augment_shielded [OF aug assms(2,3)]
      have "\<forall>b \<in> refs_of (ObjectProxy t (map_put key newValue newData) deleted). length h0 \<le> b"
        using kept sh(2) by (auto simp: refs_of_def intro: outside_put)
      then show ?thesis using False val aug assms(1) Some ObjectProxy sh shielded_update [OF sh(1) assms(4)]
        by (auto simp: getProp_def split: if_splits)
    qed
  qed (use assms Some in \<open>auto simp: getProp_def\<close>)
qed (use assms in \<open>auto simp: getProp_def\<close>)

lemma setProp_shielded:
  assumes "shielded h0 h" and "length h0 \<le> p" and "outside h0 v"
  shows "shielded h0 (setProp p key v h)"
proof (cases "cell_at h p")
  case (Some c)
  note kept = shielded_refs [OF assms(1) Some assms(2)]
  show ?thesis
  proof (cases c)
    case (PlainObject fs)
    have "\<forall>b \<in> refs_of (PlainObject (map_put key v fs)). length h0 \<le> b"
      using kept assms(3) PlainObject by (auto simp: refs_of_def dest!: in_map_put)
    then show ?thesis using Some PlainObject shielded_update [OF assms(1,2)] by (simp add: setProp_def)
  next
    case (ObjectProxy t newData deleted)
    have "length h0 \<le> b" if "(k, Ref b) \<in> set (map_put key w newData)" "v = Some w" for k b w
      using that kept assms(3) ObjectProxy by (auto simp: refs_of_def dest!: in_map_put)
    moreover have "length h0 \<le> b" if "(k, Ref b) \<in> set (map_del key newData)" for k b
      using that kept ObjectProxy by (auto simp: refs_of_def set_map_del)
    ultimately show ?thesis using Some ObjectProxy
      by (cases v) (auto simp: setProp_def refs_of_def intro!: shielded_update [OF assms(1,2)])
  qed (use assms Some in \<open>auto simp: setProp_def\<close>)
qed (use assms in \<open>auto simp: setProp_def\<close>)

lemma deleteProp_shielded:
  assumes "shielded h0 h" and "length h0 \<le> p"
  shows "shielded h0 (deleteProp p key h)"
proof (cases "cell_at h p")
  case (Some c)
  note kept = shielded_refs [OF assms(1) Some assms(2)]
  show ?thesis using Some kept assms(1)
    by (cases c; auto simp: deleteProp_def refs_of_def set_map_del intro!: shielded_update [OF assms]; blast)
qed (use assms in \<open>auto simp: deleteProp_def\<close>)

lemma getIndex_shielded:
  assumes "getIndex p i h = (v, h')" and "json_heap h0" and "shielded h0 h" and "length h0 \<le> p"
  shows "shielded h0 h' \<and> outside h0 v"
proof (cases "cell_at h p")
  case (Some c)
  show ?thesis
  proof (cases c)
    case (PlainArray xs)
    then show ?thesis using assms(1,3) shielded_refs [OF assms(3) Some assms(4)] Some
      by (auto simp: getIndex_def element_def outside_def refs_of_def in_set_conv_nth split: if_splits option.splits js_value.splits)
  next
    case (ArrayProxy t newData)
    show ?thesis
    proof (cases "element (getData h t newData) i")
      case None
      then show ?thesis using assms(1,3) Some ArrayProxy by (auto simp: getIndex_def)
    next
      case (Some val)
      obtain newValue h1 where aug: "augment val h = (newValue, h1)" by (cases "augment val h")
      note sh = augment_shielded [OF aug assms(2,3)]
      show ?thesis using assms(1) \<open>cell_at h p = Some c\<close> Some ArrayProxy aug sh shielded_update [OF sh(1) assms(4)]
        by (auto simp: getIndex_def refs_of_def split: if_splits)
    qed
  qed (use assms Some in \<open>auto simp: getIndex_def\<close>)
qed (use assms in \<open>auto simp: getIndex_def\<close>)

lemma setIndex_shielded:
  assumes "json_heap h0" and "shielded h0 h" and "length h0 \<le> p" and "outside h0 v"
  shows "shielded h0 (setIndex p i v h)"
proof (cases "cell_at h p")
  case (Some c)
  show ?thesis
  proof (cases c)
    case (PlainArray xs)
    have "\<forall>b \<in> refs_of (PlainArray (setElement i v xs)). length h0 \<le> b"
      using shielded_refs [OF assms(2) Some assms(3)] assms(4) PlainArray by (auto simp: refs_of_def dest!: in_setElement)
    then show ?thesis using Some PlainArray shielded_update [OF assms(2,3)] by (simp add: setIndex_def)
  next
    case (ArrayProxy t newData)
    have none: "\<forall>b \<in> refs_of (ArrayProxy t ys). length h0 \<le> b" for ys by (simp add: refs_of_def)
    show ?thesis
    proof (cases v)
      case None
      then show ?thesis using Some ArrayProxy shielded_update [OF assms(2,3) none] by (simp add: setIndex_def)
    next
      case new: (Some val)
      obtain newValue h1 where aug: "augment val h = (newValue, h1)" by (cases "augment val h")
      show ?thesis
        using Some new ArrayProxy aug shielded_update [OF augment_shielded(1) [OF aug assms(1,2)] assms(3) none]
        by (simp add: setIndex_def)
    qed
  qed (use assms Some in \<open>auto simp: setIndex_def\<close>)
qed (use assms in \<open>auto simp: setIndex_def\<close>)

lemma deleteIndex_shielded:
  assumes "shielded h0 h" and "length h0 \<le> p"
  shows "shielded h0 (deleteIndex p i h)"
proof (cases "cell_at h p")
  case (Some c)
  show ?thesis
  proof (cases c)
    case (PlainArray xs)
    have "\<forall>b \<in> refs_of (PlainArray (xs[i := None])). length h0 \<le> b"
      using shielded_refs [OF assms(1) Some assms(2)] PlainArray
      by (auto simp: refs_of_def dest!: subsetD [OF set_update_subset_insert])
    then show ?thesis using Some PlainArray assms(1) shielded_update [OF assms] by (simp add: deleteIndex_def)
  next
    case (ArrayProxy t newData)
    then show ?thesis using Some shielded_update [OF assms, of "ArrayProxy t ys" for ys]
      by (simp add: deleteIndex_def refs_of_def Let_def)
  qed (use assms Some in \<open>auto simp: deleteIndex_def\<close>)
qed (use assms in \<open>auto simp: deleteIndex_def\<close>)


section \<open>The data is protected\<close>

text \<open>
  What code can do that knows some references: read, write and delete properties and elements of what it
  knows, with values it knows, make new objects and arrays, and have values augmented.
\<close>

definition known :: "js_value option \<Rightarrow> nat set \<Rightarrow> bool" where
  "known v K = (case v of Some (Ref a) \<Rightarrow> a \<in> K | _ \<Rightarrow> True)"

definition learn :: "js_value option \<Rightarrow> nat set \<Rightarrow> nat set" where
  "learn v K = (case v of Some (Ref a) \<Rightarrow> insert a K | _ \<Rightarrow> K)"

inductive code_step :: "nat set \<times> heap \<Rightarrow> nat set \<times> heap \<Rightarrow> bool" where
  get_prop: "p \<in> K \<Longrightarrow> getProp p key h = (v, h') \<Longrightarrow> code_step (K, h) (learn v K, h')"
| set_prop: "p \<in> K \<Longrightarrow> known v K \<Longrightarrow> code_step (K, h) (K, setProp p key v h)"
| delete_prop: "p \<in> K \<Longrightarrow> code_step (K, h) (K, deleteProp p key h)"
| get_index: "p \<in> K \<Longrightarrow> getIndex p i h = (v, h') \<Longrightarrow> code_step (K, h) (learn v K, h')"
| set_index: "p \<in> K \<Longrightarrow> known v K \<Longrightarrow> code_step (K, h) (K, setIndex p i v h)"
| delete_index: "p \<in> K \<Longrightarrow> code_step (K, h) (K, deleteIndex p i h)"
| new_object: "alloc (PlainObject []) h = (v, h') \<Longrightarrow> code_step (K, h) (learn (Some v) K, h')"
| new_array: "alloc (PlainArray []) h = (v, h') \<Longrightarrow> code_step (K, h) (learn (Some v) K, h')"
| augment_value: "known (Some v) K \<Longrightarrow> augment v h = (v', h') \<Longrightarrow> code_step (K, h) (learn (Some v') K, h')"

lemma known_outside: "known v K \<Longrightarrow> \<forall>a \<in> K. length h0 \<le> a \<Longrightarrow> outside h0 v"
  by (auto simp: known_def outside_def split: option.splits js_value.splits)

lemma learn_outside: "outside h0 v \<Longrightarrow> \<forall>a \<in> K. length h0 \<le> a \<Longrightarrow> \<forall>a \<in> learn v K. length h0 \<le> a"
  by (auto simp: learn_def outside_def split: option.splits js_value.splits)

lemma code_step_shielded:
  assumes "code_step s s'" and "json_heap h0" and "shielded h0 (snd s)" and "\<forall>a \<in> fst s. length h0 \<le> a"
  shows "shielded h0 (snd s') \<and> (\<forall>a \<in> fst s'. length h0 \<le> a)"
  using assms
proof (cases rule: code_step.cases)
  case (get_prop p K key h v h')
  then have "shielded h0 h' \<and> outside h0 v" using assms by (intro getProp_shielded) auto
  then show ?thesis using get_prop assms learn_outside by auto
next
  case (set_prop p K v h key)
  then show ?thesis using assms setProp_shielded known_outside by auto
next
  case (delete_prop p K h key)
  then show ?thesis using assms deleteProp_shielded by auto
next
  case (get_index p K i h v h')
  then have "shielded h0 h' \<and> outside h0 v" using assms by (intro getIndex_shielded) auto
  then show ?thesis using get_index assms learn_outside by auto
next
  case (set_index p K v h i)
  then show ?thesis using assms setIndex_shielded known_outside by auto
next
  case (delete_index p K h i)
  then show ?thesis using assms deleteIndex_shielded by auto
next
  case (new_object h v h' K)
  then show ?thesis using assms shielded_append [of h0 h "PlainObject []"]
    by (auto simp: alloc_def learn_def refs_of_def shielded_def)
next
  case (new_array h v h' K)
  then show ?thesis using assms shielded_append [of h0 h "PlainArray []"]
    by (auto simp: alloc_def learn_def refs_of_def shielded_def)
next
  case (augment_value v K h v' h')
  have "shielded h0 h" using augment_value assms by simp
  note augment_shielded [OF augment_value(4) assms(2) this]
  then show ?thesis using augment_value assms learn_outside by auto
qed


definition order_data :: heap where
  "order_data = [PlainObject [(''items'', Some (Ref 1))], PlainArray [Some (Prim (JNum 1)), Some (Ref 0)]]"

definition order_changed :: heap where
  "order_changed = setIndex 3 0 (Some (Prim (JNum 2))) (snd (getProp 2 ''items'' (snd (augment (Ref 0) order_data))))"

lemma order_data_json: "json_heap order_data"
  by (auto simp: json_heap_def order_data_def is_plain_def refs_of_def)



section \<open>Reading through proxies\<close>

datatype access = Key string | Index nat

fun readPath :: "access list \<Rightarrow> js_value option \<Rightarrow> heap \<Rightarrow> js_value option \<times> heap" where
  "readPath (Key key # path) (Some (Ref a)) h = (let (v, h') = getProp a key h in readPath path v h')"
| "readPath (Index i # path) (Some (Ref a)) h = (let (v, h') = getIndex a i h in readPath path v h')"
| "readPath (x # path) v h = (None, h)"
| "readPath [] v h = (v, h)"

text \<open>What code sees of a value without looking into it: nothing, a primitive value or an object.\<close>

definition shown :: "js_value option \<Rightarrow> jval option option" where
  "shown v = (case v of None \<Rightarrow> None | Some (Prim p) \<Rightarrow> Some (Some p) | Some (Ref a) \<Rightarrow> Some None)"

definition target_of :: "cell \<Rightarrow> nat option" where
  "target_of c = (case c of ObjectProxy t newData deleted \<Rightarrow> Some t | ArrayProxy t newData \<Rightarrow> Some t | _ \<Rightarrow> None)"

definition stands_for :: "heap \<Rightarrow> nat \<Rightarrow> js_value \<Rightarrow> js_value \<Rightarrow> bool" where
  "stands_for h n v x = (case v of
     Prim p \<Rightarrow> x = Prim p
   | Ref a \<Rightarrow> n \<le> a \<and> a < length h \<and> (\<exists>t. target_of (h ! a) = Some t \<and> x = Ref t))"

text \<open>A proxy that was only read: what it caches stands for what its target holds.\<close>

definition mirrors :: "heap \<Rightarrow> heap \<Rightarrow> cell \<Rightarrow> bool" where
  "mirrors h0 h c = (case c of
     ObjectProxy t newData deleted \<Rightarrow> t < length h0 \<and> deleted = [] \<and> (\<exists>fs. h0 ! t = PlainObject fs \<and>
       (\<forall>key v. map_get newData key = Some v \<longrightarrow>
          (\<exists>x. map_get fs key = Some (Some x) \<and> stands_for h (length h0) v x)))
   | ArrayProxy t None \<Rightarrow> t < length h0 \<and> (\<exists>xs. h0 ! t = PlainArray xs)
   | ArrayProxy t (Some ys) \<Rightarrow> t < length h0 \<and> (\<exists>xs. h0 ! t = PlainArray xs \<and> length ys = length xs \<and>
       (\<forall>i < length xs. ys ! i = xs ! i \<or>
          (\<exists>v x. ys ! i = Some v \<and> xs ! i = Some x \<and> stands_for h (length h0) v x)))
   | _ \<Rightarrow> False)"

definition only_read :: "heap \<Rightarrow> heap \<Rightarrow> bool" where
  "only_read h0 h \<longleftrightarrow> length h0 \<le> length h \<and> take (length h0) h = h0 \<and>
     (\<forall>a < length h. length h0 \<le> a \<longrightarrow> mirrors h0 h (h ! a))"

text \<open>Later reads add cells and change no target, so a reference keeps what it stands for.\<close>

definition targets_kept :: "heap \<Rightarrow> heap \<Rightarrow> bool" where
  "targets_kept h h' \<longleftrightarrow> length h \<le> length h' \<and> (\<forall>a < length h. target_of (h' ! a) = target_of (h ! a))"

lemma targets_kept_refl: "targets_kept h h"
  by (simp add: targets_kept_def)

lemma targets_kept_trans: "targets_kept h h' \<Longrightarrow> targets_kept h' h'' \<Longrightarrow> targets_kept h h''"
  by (auto simp: targets_kept_def)

lemma stands_for_kept: "stands_for h n v x \<Longrightarrow> targets_kept h h' \<Longrightarrow> stands_for h' n v x"
  by (fastforce simp: stands_for_def targets_kept_def split: js_value.splits)

lemma mirrors_kept: "mirrors h0 h c \<Longrightarrow> targets_kept h h' \<Longrightarrow> mirrors h0 h' c"
  unfolding mirrors_def using stands_for_kept by (fastforce split: cell.splits option.splits)

lemma only_read_append:
  assumes "only_read h0 h" and "mirrors h0 h c"
  shows "only_read h0 (h @ [c]) \<and> targets_kept h (h @ [c])"
proof -
  have kept: "targets_kept h (h @ [c])" by (auto simp: targets_kept_def nth_append)
  have "mirrors h0 (h @ [c]) ((h @ [c]) ! a)" if "a < Suc (length h)" "length h0 \<le> a" for a
    using that assms mirrors_kept [OF _ kept] by (cases "a < length h") (auto simp: only_read_def nth_append less_Suc_eq)
  then show ?thesis using assms(1) kept by (auto simp: only_read_def)
qed

lemma only_read_update:
  assumes "only_read h0 h" and "mirrors h0 h c" and "length h0 \<le> p" and "p < length h"
    and "target_of c = target_of (h ! p)"
  shows "only_read h0 (h[p := c]) \<and> targets_kept h (h[p := c])"
proof -
  have kept: "targets_kept h (h[p := c])" using assms(4,5) by (auto simp: targets_kept_def nth_list_update)
  have "mirrors h0 (h[p := c]) (h[p := c] ! a)" if "a < length h" "length h0 \<le> a" for a
    using that assms(1,2,4) mirrors_kept [OF _ kept] by (cases "a = p") (auto simp: only_read_def)
  moreover have "take (length h0) (h[p := c]) = h0" using assms(1,3) by (simp add: only_read_def)
  ultimately show ?thesis using assms(1) kept unfolding only_read_def length_list_update by blast
qed

definition same_value :: "heap \<Rightarrow> nat \<Rightarrow> js_value option \<Rightarrow> js_value option \<Rightarrow> bool" where
  "same_value h n v x = (case v of
     None \<Rightarrow> x = None
   | Some v \<Rightarrow> (case x of Some x \<Rightarrow> stands_for h n v x | None \<Rightarrow> False))"

lemma same_value_simps [simp]:
  "same_value h n None y \<longleftrightarrow> y = None" "same_value h n (Some v) (Some x) \<longleftrightarrow> stands_for h n v x"
  by (auto simp: same_value_def)

lemma only_read_below: "only_read h0 h \<Longrightarrow> a < length h0 \<Longrightarrow> a < length h \<and> h ! a = h0 ! a"
  unfolding only_read_def by (metis nth_take order_less_le_trans)

lemma getProp_plain: "cell_at h p = Some (PlainObject fs) \<Longrightarrow>
    getProp p key h = (case map_get fs key of Some v \<Rightarrow> v | None \<Rightarrow> None, h)"
  by (simp add: getProp_def split: option.split)

text \<open>What the data holds is plain, so augmenting it makes a proxy, unless it is primitive.\<close>

lemma augment_reads:
  assumes "augment x h = (v, h')" and "json_heap h0" and "only_read h0 h" and "\<And>a. x = Ref a \<Longrightarrow> a < length h0"
  shows "only_read h0 h' \<and> targets_kept h h' \<and> stands_for h' (length h0) v x \<and> (v = x \<longrightarrow> h' = h)"
proof (cases x)
  case (Prim q)
  then show ?thesis using assms by (auto simp: stands_for_def targets_kept_refl)
next
  case (Ref a)
  have a: "a < length h0" using assms(4) Ref by simp
  have len: "length h0 \<le> length h" "h ! a = h0 ! a" using assms(3) only_read_below [OF assms(3) a] by (auto simp: only_read_def)
  have plain: "is_plain (h0 ! a)" by (rule json_below [OF assms(2) a])
  have "plain_at h a" using plain len a by (simp add: plain_at_def cell_at_def)
  then have eqs: "v = Ref (length h)" "h' = h @ [fresh_proxy a (h0 ! a)]" using assms(1) Ref len by (auto simp: augment_ref)
  have "mirrors h0 h (fresh_proxy a (h0 ! a))" using plain a
    by (auto simp: mirrors_def fresh_proxy_def is_plain_def split: cell.splits)
  moreover have "target_of (fresh_proxy a (h0 ! a)) = Some a" by (auto simp: fresh_proxy_def target_of_def split: cell.split)
  ultimately show ?thesis using only_read_append [OF assms(3)] Ref eqs len a by (auto simp: stands_for_def)
qed

lemma json_field: "json_heap h0 \<Longrightarrow> t < length h0 \<Longrightarrow> h0 ! t = PlainObject fs \<Longrightarrow> map_get fs key = Some (Some (Ref a)) \<Longrightarrow>
    a < length h0"
  unfolding json_heap_def refs_of_def by (metis (mono_tags, lifting) cell.simps(17) map_of_SomeD mem_Collect_eq nth_mem)

lemma json_item: "json_heap h0 \<Longrightarrow> t < length h0 \<Longrightarrow> h0 ! t = PlainArray xs \<Longrightarrow> i < length xs \<Longrightarrow> xs ! i = Some (Ref a) \<Longrightarrow>
    a < length h0"
  unfolding json_heap_def refs_of_def by (metis (mono_tags, lifting) cell.simps(18) mem_Collect_eq nth_mem)

lemma getProp_reads:
  assumes "getProp p key h = (v, h')" and "json_heap h0" and "only_read h0 h"
    and "length h0 \<le> p" and "p < length h" and "target_of (h ! p) = Some t"
  shows "only_read h0 h' \<and> targets_kept h h' \<and> same_value h' (length h0) v (fst (getProp t key h0))"
proof (cases "h ! p")
  case (ObjectProxy t' newData deleted)
  then have [simp]: "t' = t" using assms(6) by (simp add: target_of_def)
  have m: "mirrors h0 h (h ! p)" using assms(3-5) by (simp add: only_read_def)
  then obtain fs where fs: "t < length h0" "deleted = []" "h0 ! t = PlainObject fs"
    "\<And>key v. map_get newData key = Some v \<Longrightarrow> \<exists>x. map_get fs key = Some (Some x) \<and> stands_for h (length h0) v x"
    using ObjectProxy by (auto simp: mirrors_def)
  have same: "fieldsOf h t = fs" "fst (getProp t key h0) = (case map_get fs key of Some v \<Rightarrow> v | None \<Rightarrow> None)"
    using only_read_below [OF assms(3) fs(1)] fs(1,3) getProp_plain [of h0 t fs key] by (auto simp: fieldsOf_def cell_at_def)
  have at: "cell_at h p = Some (ObjectProxy t newData [])" using assms(5) ObjectProxy fs(2) by (simp add: cell_at_def)
  show ?thesis
  proof (cases "map_get newData key")
    case (Some w)
    obtain x where x: "map_get fs key = Some (Some x)" "stands_for h (length h0) w x" using fs(4) [OF Some] by blast
    have "v = Some w" "h' = h" using assms(1) at Some by (simp_all add: getProp_def)
    then show ?thesis using assms(3) same(2) x by (simp add: targets_kept_refl)
  next
    case None
    show ?thesis
    proof (cases "\<exists>x. map_get fs key = Some (Some x)")
      case False
      then show ?thesis using assms(1,3) at same None
        by (auto simp: getProp_def targets_kept_refl split: option.splits)
    next
      case True
      then obtain x where x: "map_get fs key = Some (Some x)" by blast
      obtain v1 h1 where aug: "augment x h = (v1, h1)" by (cases "augment x h")
      have r: "only_read h0 h1" "targets_kept h h1" "stands_for h1 (length h0) v1 x" "v1 = x \<longrightarrow> h1 = h"
        using augment_reads [OF aug assms(2,3)] json_field [OF assms(2) fs(1,3)] x by blast+
      have upd: "mirrors h0 h1 (ObjectProxy t (map_put key v1 newData) [])"
        using mirrors_kept [OF m r(2)] ObjectProxy fs(2,3) x r(3) by (auto simp: mirrors_def)
      have "p < length h1" "target_of (h1 ! p) = Some t" using assms(5,6) r(2) by (auto simp: targets_kept_def)
      from only_read_update [OF r(1) upd assms(4) this(1)] this(2)
      have "only_read h0 (h1[p := ObjectProxy t (map_put key v1 newData) []])"
        "targets_kept h1 (h1[p := ObjectProxy t (map_put key v1 newData) []])" by (auto simp: target_of_def)
      moreover have "(v, h') = (Some v1, if v1 = x then h1 else h1[p := ObjectProxy t (map_put key v1 newData) []])"
        using assms(1) at same(1) None x aug by (cases "v1 = x") (simp_all add: getProp_def)
      ultimately show ?thesis using same(2) x r targets_kept_trans [OF r(2)] stands_for_kept [OF r(3)]
        by (cases "v1 = x") simp_all
    qed
  qed
next
  case (ArrayProxy t' newData)
  have "mirrors h0 h (h ! p)" using assms(3-5) by (simp add: only_read_def)
  then show ?thesis using assms ArrayProxy
    by (auto simp: getProp_def cell_at_def mirrors_def target_of_def targets_kept_refl split: option.splits)
qed (use assms in \<open>auto simp: target_of_def\<close>)

lemma getIndex_plain: "cell_at h p = Some (PlainArray xs) \<Longrightarrow> getIndex p i h = (element xs i, h)"
  by (simp add: getIndex_def)

text \<open>An element of the copy of an array: as in the data, or standing for what is there.\<close>

lemma mirrored_element:
  assumes "mirrors h0 h (ArrayProxy t newData)" and "only_read h0 h" and "h0 ! t = PlainArray xs"
  shows "length (getData h t newData) = length xs" and
    "i < length xs \<Longrightarrow> getData h t newData ! i = xs ! i \<or>
      (\<exists>v x. getData h t newData ! i = Some v \<and> xs ! i = Some x \<and> stands_for h (length h0) v x)"
proof -
  have "t < length h0" using assms(1) by (auto simp: mirrors_def split: option.splits)
  then have "elementsOf h t = xs" using only_read_below [OF assms(2)] assms(3) by (simp add: elementsOf_def cell_at_def)
  then show "length (getData h t newData) = length xs" and
    "i < length xs \<Longrightarrow> getData h t newData ! i = xs ! i \<or>
      (\<exists>v x. getData h t newData ! i = Some v \<and> xs ! i = Some x \<and> stands_for h (length h0) v x)"
    using assms(1,3) by (auto simp: mirrors_def getData_def split: option.splits)
qed

text \<open>A reference that stands for a value is a proxy already, so augmenting it changes nothing.\<close>

lemma augment_stands:
  assumes "stands_for h n v x"
  shows "augment v h = (v, h)"
  using assms by (cases v) (auto simp: augment_ref stands_for_def plain_at_def cell_at_def is_plain_def target_of_def split: cell.splits)

lemma getIndex_reads:
  assumes "getIndex p i h = (v, h')" and "json_heap h0" and "only_read h0 h"
    and "length h0 \<le> p" and "p < length h" and "target_of (h ! p) = Some t"
  shows "only_read h0 h' \<and> targets_kept h h' \<and> same_value h' (length h0) v (fst (getIndex t i h0))"
proof (cases "h ! p")
  case (ArrayProxy t' newData)
  then have [simp]: "t' = t" using assms(6) by (simp add: target_of_def)
  have m: "mirrors h0 h (ArrayProxy t newData)" using assms(3-5) ArrayProxy by (auto simp: only_read_def)
  then obtain xs where xs: "t < length h0" "h0 ! t = PlainArray xs" by (auto simp: mirrors_def split: option.splits)
  note el = mirrored_element [OF m assms(3) xs(2)]
  have plain: "fst (getIndex t i h0) = element xs i" using xs getIndex_plain [of h0 t xs i] by (simp add: cell_at_def)
  have at: "cell_at h p = Some (ArrayProxy t newData)" using assms(5) ArrayProxy by (simp add: cell_at_def)
  let ?ys = "getData h t newData"
  show ?thesis
  proof (cases "element ?ys i")
    case None
    then have "v = None" "h' = h" using assms(1) at by (simp_all add: getIndex_def)
    moreover have "element xs i = None" using None el(1) el(2) [of i] by (cases "i < length xs") (auto simp: element_def)
    ultimately show ?thesis using plain assms(3) by (simp add: targets_kept_refl)
  next
    case (Some w)
    then have i: "i < length xs" "?ys ! i = Some w" using el(1) by (auto simp: element_def split: if_splits)
    obtain v1 h1 where aug: "augment w h = (v1, h1)" by (cases "augment w h")
    have out: "(v, h') = (Some v1, if v1 = w then h1 else h1[p := ArrayProxy t (Some (setElement i (Some v1) ?ys))])"
      using assms(1) at Some aug by (cases "v1 = w") (auto simp: getIndex_def)
    consider x where "xs ! i = Some x" "stands_for h (length h0) w x" | "xs ! i = Some w"
      using el(2) [OF i(1)] i(2) by auto
    then show ?thesis
    proof cases
      case 1
      have "v1 = w" "h1 = h" using augment_stands [OF 1(2)] aug by auto
      then show ?thesis using out 1 i plain assms(3) by (simp add: targets_kept_refl element_def)
    next
      case 2
      have r: "only_read h0 h1" "targets_kept h h1" "stands_for h1 (length h0) v1 w" "v1 = w \<longrightarrow> h1 = h"
        using augment_reads [OF aug assms(2,3)] json_item [OF assms(2) xs i(1)] 2 by blast+
      have len: "Suc i - length ?ys = 0" using i el(1) by simp
      have upd: "mirrors h0 h1 (ArrayProxy t (Some (setElement i (Some v1) ?ys)))"
        using xs el i(1) 2 r(3) len stands_for_kept [OF _ r(2)]
        by (fastforce simp: mirrors_def setElement_def nth_list_update)
      have "p < length h1" "target_of (h1 ! p) = Some t" using assms(5,6) r(2) by (auto simp: targets_kept_def)
      from only_read_update [OF r(1) upd assms(4) this(1)] this(2)
      have "only_read h0 (h1[p := ArrayProxy t (Some (setElement i (Some v1) ?ys))])"
        "targets_kept h1 (h1[p := ArrayProxy t (Some (setElement i (Some v1) ?ys))])" by (auto simp: target_of_def)
      then show ?thesis using out plain 2 i(1) r targets_kept_trans [OF r(2)] stands_for_kept [OF r(3)]
        by (cases "v1 = w") (simp_all add: element_def)
    qed
  qed
next
  case (ObjectProxy t' newData deleted)
  have "mirrors h0 h (h ! p)" using assms(3-5) by (simp add: only_read_def)
  then show ?thesis using assms ObjectProxy
    by (auto simp: getIndex_def cell_at_def mirrors_def target_of_def targets_kept_refl)
qed (use assms in \<open>auto simp: target_of_def\<close>)

lemma plain_read:
  assumes "json_heap h"
  shows "snd (getProp a key h) = h" and "snd (getIndex a i h) = h"
proof -
  have "is_plain c" if "cell_at h a = Some c" for c
    using that json_below [OF assms, of a] by (auto simp: cell_at_def split: if_splits)
  then show "snd (getProp a key h) = h" "snd (getIndex a i h) = h"
    by (auto simp: getProp_def getIndex_def is_plain_def split: option.splits cell.splits)
qed

lemma readPath_reads:
  assumes "json_heap h0"
  shows "only_read h0 h \<Longrightarrow> same_value h (length h0) v x \<Longrightarrow> readPath path v h = (r, h') \<Longrightarrow>
    only_read h0 h' \<and> targets_kept h h' \<and> same_value h' (length h0) r (fst (readPath path x h0))"
proof (induction path arbitrary: v x h)
  case Nil
  then show ?case by (auto simp: targets_kept_refl)
next
  case (Cons acc path)
  show ?case
  proof (cases "\<exists>a. v = Some (Ref a)")
    case False
    then have "\<nexists>t. x = Some (Ref t)" "r = None" "h' = h"
      using Cons.prems by (cases acc; auto simp: same_value_def stands_for_def split: option.splits js_value.splits)+
    moreover have "fst (readPath (acc # path) x h0) = None" using \<open>\<nexists>t. x = Some (Ref t)\<close>
      by (cases acc; cases x; cases "the x"; auto)
    ultimately show ?thesis using Cons.prems(1) by (simp add: targets_kept_refl)
  next
    case True
    then obtain a where a: "v = Some (Ref a)" by blast
    then obtain t where t: "length h0 \<le> a" "a < length h" "target_of (h ! a) = Some t" "x = Some (Ref t)"
      using Cons.prems(2) by (auto simp: same_value_def stands_for_def split: option.splits)
    show ?thesis
    proof (cases acc)
      case (Key key)
      obtain w h1 where w: "getProp a key h = (w, h1)" by (cases "getProp a key h")
      have r: "only_read h0 h1" "targets_kept h h1" "same_value h1 (length h0) w (fst (getProp t key h0))"
        using getProp_reads [OF w assms Cons.prems(1) t(1-3)] by blast+
      have "readPath path w h1 = (r, h')" using Cons.prems(3) Key a w by simp
      moreover have "fst (readPath (acc # path) x h0) = fst (readPath path (fst (getProp t key h0)) h0)"
        using Key t(4) plain_read(1) [OF assms, of t key] by (simp add: case_prod_beta Let_def)
      ultimately show ?thesis using Cons.IH [OF r(1,3)] targets_kept_trans [OF r(2)] by simp
    next
      case (Index i)
      obtain w h1 where w: "getIndex a i h = (w, h1)" by (cases "getIndex a i h")
      have r: "only_read h0 h1" "targets_kept h h1" "same_value h1 (length h0) w (fst (getIndex t i h0))"
        using getIndex_reads [OF w assms Cons.prems(1) t(1-3)] by blast+
      have "readPath path w h1 = (r, h')" using Cons.prems(3) Index a w by simp
      moreover have "fst (readPath (acc # path) x h0) = fst (readPath path (fst (getIndex t i h0)) h0)"
        using Index t(4) plain_read(2) [OF assms, of t i] by (simp add: case_prod_beta Let_def)
      ultimately show ?thesis using Cons.IH [OF r(1,3)] targets_kept_trans [OF r(2)] by simp
    qed
  qed
qed

text \<open>The heap after reading some paths from a reference.\<close>

definition readAll :: "access list list \<Rightarrow> js_value \<Rightarrow> heap \<Rightarrow> heap" where
  "readAll paths v h = fold (\<lambda>path h. snd (readPath path (Some v) h)) paths h"

lemma readAll_reads:
  assumes "json_heap h0"
  shows "only_read h0 h \<Longrightarrow> stands_for h (length h0) v x \<Longrightarrow>
    only_read h0 (readAll paths v h) \<and> targets_kept h (readAll paths v h)"
proof (induction paths arbitrary: h)
  case Nil
  then show ?case by (simp add: readAll_def targets_kept_refl)
next
  case (Cons path paths)
  obtain r h1 where r: "readPath path (Some v) h = (r, h1)" by (cases "readPath path (Some v) h")
  have "same_value h (length h0) (Some v) (Some x)" using Cons.prems(2) by simp
  from readPath_reads [OF assms Cons.prems(1) this r]
  have "only_read h0 h1" "targets_kept h h1" by blast+
  then show ?case using Cons.IH [OF _ stands_for_kept [OF Cons.prems(2)]] targets_kept_trans r
    by (auto simp: readAll_def)
qed



end
