(* ===== verification/Workflow_Outputs.thy ===== *)
theory Workflow_Outputs
  imports Workflow_Queries
begin

text \<open>
  The outputs of a node, \<open>getNodeOutputs\<close> of packages/workflow/src/NodeHelpers.ts, and the method
  getParentMainInputNode of Workflow.ts, which goes from a sub-node to the node of the main flow
  that it belongs to.

  The outputs that a node type declares, given by an expression if need be (an expression that fails gives none),
  are a parameter.
\<close>

definition getNodeOutputs :: "(INode \<Rightarrow> NodeConnectionType list) \<Rightarrow> INode \<Rightarrow> NodeConnectionType list" where
  "getNodeOutputs declared node =
     (if onError node = Some continueErrorOutput then declared node @ [Main] else declared node)"

fun childrenOfOutputs :: "nat \<Rightarrow> Workflow \<Rightarrow> string \<Rightarrow> NodeConnectionType list \<Rightarrow> string list res" where
  "childrenOfOutputs k w name [] = Inr []"
| "childrenOfOutputs k w name (t # ts) =
     res_bind (getChildNodes k w name (OfType t) (-1)) (\<lambda>parentNodes.
       res_bind (childrenOfOutputs k w name ts) (\<lambda>rest. Inr (parentNodes @ rest)))"

fun getParentMainInputNode :: "nat \<Rightarrow> Workflow \<Rightarrow> (INode \<Rightarrow> NodeConnectionType list) \<Rightarrow> INode \<Rightarrow> INode res" where
  "getParentMainInputNode 0 w declared node = Inl RangeError"
| "getParentMainInputNode (Suc k) w declared node =
     (case nodeTypes w (nodeType node) (typeVersion node) of
        None \<Rightarrow> Inl TypeError
      | Some nt \<Rightarrow>
          (let outputs = getNodeOutputs declared node
           in if list_all (\<lambda>t. t = Main) outputs then Inr node
              else res_bind (childrenOfOutputs k w (nodeName node) outputs) (\<lambda>connected.
                case connected of
                  [] \<Rightarrow> Inr node
                | name # rest \<Rightarrow>
                    (case getNode w name of
                       None \<Rightarrow> Inl (ApplicationError (''Node \"'' @ name @ ''\" not found''))
                     | Some returnNode \<Rightarrow> getParentMainInputNode k w declared returnNode))))"

text \<open>The types of connections that nodes with an output other than Main have.\<close>

definition sub_types :: "(INode \<Rightarrow> NodeConnectionType list) \<Rightarrow> NodeConnectionType set" where
  "sub_types declared = {t. \<exists>n. \<not> list_all (\<lambda>t. t = Main) (getNodeOutputs declared n) \<and> t \<in> set (getNodeOutputs declared n)}"

text \<open>The nodes that are connected to an output, directly or over other nodes.\<close>

definition served :: "Workflow \<Rightarrow> (INode \<Rightarrow> NodeConnectionType list) \<Rightarrow> INode \<Rightarrow> string set" where
  "served w declared n = {y. y \<noteq> nodeName n \<and>
     (\<exists>t \<in> set (getNodeOutputs declared n). (nodeName n, y) \<in> (conn_rel (connectionsBySourceNode w) (OfType t))\<^sup>+)}"

lemma childrenOfOutputs_reach:
  assumes "length (connectionsBySourceNode w) < k"
  shows "\<exists>ret. childrenOfOutputs k w name ts = Inr ret \<and>
    set ret = {y. y \<noteq> name \<and> (\<exists>t \<in> set ts. (name, y) \<in> (conn_rel (connectionsBySourceNode w) (OfType t))\<^sup>+)}"
proof (induction ts)
  case (Cons t ts)
  obtain xs where "getChildNodes k w name (OfType t) (-1) = Inr xs"
    "set xs = {y. y \<noteq> name \<and> (name, y) \<in> (conn_rel (connectionsBySourceNode w) (OfType t))\<^sup>+}"
    using getConnectedNodes_reach [OF assms, of name "OfType t"] by (auto simp: getChildNodes_def)
  with Cons.IH show ?case by auto
qed simp

lemma trancl_rank:
  assumes "(a, b) \<in> r\<^sup>+" and "\<And>a b. (a, b) \<in> r \<Longrightarrow> rank b < (rank a :: nat)"
  shows "rank b < rank a"
  using assms(1) by (induction rule: trancl_induct) (auto dest: assms(2) intro: less_trans)

text \<open>
  When the connections of sub-nodes have no cycle, their ends are nodes and all types are known, the
  search returns a node that is reached over the outputs of sub-nodes, and that has only Main outputs or
  nothing connected to its outputs.
\<close>

theorem getParentMainInputNode_found:
  assumes "\<And>t a b. t \<in> sub_types declared \<Longrightarrow> (a, b) \<in> conn_rel (connectionsBySourceNode w) (OfType t) \<Longrightarrow> rank b < (rank a :: nat)"
    and "\<And>t a b. t \<in> sub_types declared \<Longrightarrow> (a, b) \<in> conn_rel (connectionsBySourceNode w) (OfType t) \<Longrightarrow> getNode w b \<noteq> None"
    and "\<And>n :: INode. nodeTypes w (nodeType n) (typeVersion n) \<noteq> None"
    and "\<And>name n. getNode w name = Some n \<Longrightarrow> nodeName n = name"
    and "rank (nodeName node) + length (connectionsBySourceNode w) + 1 < k"
  shows "\<exists>res. getParentMainInputNode k w declared node = Inr res \<and>
    (node, res) \<in> {(m, n). nodeName n \<in> served w declared m}\<^sup>* \<and>
    (list_all (\<lambda>t. t = Main) (getNodeOutputs declared res) \<or> served w declared res = {})"
  using assms(5)
proof (induction k arbitrary: node)
  case (Suc k)
  obtain nt where nt: "nodeTypes w (nodeType node) (typeVersion node) = Some nt" using assms(3) [of node] by auto
  show ?case
  proof (cases "list_all (\<lambda>t. t = Main) (getNodeOutputs declared node)")
    case True
    then show ?thesis using nt by auto
  next
    case sub: False
    obtain ret where ret: "childrenOfOutputs k w (nodeName node) (getNodeOutputs declared node) = Inr ret"
      "set ret = served w declared node"
      using childrenOfOutputs_reach [of w k "nodeName node" "getNodeOutputs declared node"] Suc.prems
      unfolding served_def by auto
    show ?thesis
    proof (cases ret)
      case Nil
      then show ?thesis using nt sub ret by auto
    next
      case (Cons name rest)
      then have "name \<in> served w declared node" using ret(2) by auto
      then obtain t where t: "t \<in> sub_types declared" "(nodeName node, name) \<in> (conn_rel (connectionsBySourceNode w) (OfType t))\<^sup>+"
        using sub by (auto simp: served_def sub_types_def)
      have "rank name < rank (nodeName node)" by (rule trancl_rank [OF t(2)]) (rule assms(1) [OF t(1)])
      moreover obtain m where m: "getNode w name = Some m"
        using t assms(2) by (metis option.exhaust trancl.cases)
      ultimately have "rank (nodeName m) + length (connectionsBySourceNode w) + 1 < k"
        using Suc.prems assms(4) [OF m] by simp
      from Suc.IH [OF this] obtain res where res: "getParentMainInputNode k w declared m = Inr res"
        "(m, res) \<in> {(m, n). nodeName n \<in> served w declared m}\<^sup>*"
        "list_all (\<lambda>t. t = Main) (getNodeOutputs declared res) \<or> served w declared res = {}" by blast
      have "(node, m) \<in> {(m, n). nodeName n \<in> served w declared m}"
        using assms(4) [OF m] \<open>name \<in> served w declared node\<close> by simp
      then show ?thesis using nt sub ret(1) Cons m res by (auto intro: converse_rtrancl_into_rtrancl)
    qed
  qed
qed simp

end
