(* ===== verification/Execution_Ends.thy ===== *)
theory Execution_Ends
  imports Execution_Properties
begin

text \<open>
  An execution in the order v1 of a workflow without cycles ends. Every item of the stack and every entry
  that waits has a load that exceeds the load of all that it can lead to, so each iteration makes the load
  of the execution smaller.
\<close>

section \<open>The load of an execution\<close>

definition waitingLoad :: "(string \<Rightarrow> nat) \<Rightarrow> 'a waiting \<Rightarrow> nat" where
  "waitingLoad W we = sum_list (map (\<lambda>(n, m). length m * W n) we)"

definition stackLoad :: "(string \<Rightarrow> nat) \<Rightarrow> IExecuteData list \<Rightarrow> nat" where
  "stackLoad W items = sum_list (map (\<lambda>d. W (nodeName (execNode d))) items)"

definition load :: "(string \<Rightarrow> nat) \<Rightarrow> IRunExecutionData \<Rightarrow> nat" where
  "load W r = stackLoad W (nodeExecutionStack r) + waitingLoad W (waitingExecution r)"

definition with_main :: "IExecuteData list \<Rightarrow> bool" where
  "with_main items = (\<forall>d \<in> set items. map_get (execData d) Main \<noteq> None)"

lemma stackLoad_simps [simp]:
  "stackLoad W [] = 0" "stackLoad W (d # ds) = W (nodeName (execNode d)) + stackLoad W ds"
  "stackLoad W (xs @ ys) = stackLoad W xs + stackLoad W ys"
  by (simp_all add: stackLoad_def)

lemma with_main_simps [simp]:
  "with_main []" "with_main (d # ds) \<longleftrightarrow> map_get (execData d) Main \<noteq> None \<and> with_main ds"
  "with_main (xs @ ys) \<longleftrightarrow> with_main xs \<and> with_main ys"
  by (auto simp: with_main_def)

lemma waitingLoad_put:
  "waitingLoad W (map_put n m we) + length (entriesOf we n) * W n = waitingLoad W we + length m * W n"
  by (induction we) (auto simp: waitingLoad_def entriesOf_def split: option.splits)

lemma waitingLoad_del: "waitingLoad W (map_del n we) \<le> waitingLoad W we"
  by (induction we) (auto simp: waitingLoad_def AList.delete_eq)

lemma waitingLoad_putEntry:
  "waitingLoad W (putEntry n i e we) \<le> waitingLoad W we + W n"
  "map_get (entriesOf we n) i \<noteq> None \<Longrightarrow> waitingLoad W (putEntry n i e we) = waitingLoad W we"
  using waitingLoad_put [of W n "map_put i e (entriesOf we n)" we]
  by (auto simp: putEntry_def length_map_put map_of_eq_None_iff split: if_splits)

lemma waitingLoad_deleteEntry:
  assumes "map_get (entriesOf we n) i \<noteq> None"
  shows "waitingLoad W (deleteEntry n i we) + W n \<le> waitingLoad W we"
proof -
  have "Suc (length (map_del i (entriesOf we n))) \<le> length (entriesOf we n)"
    using length_map_del_less [OF assms] by simp
  from mult_le_mono1 [OF this, of "W n"]
  have "length (map_del i (entriesOf we n)) * W n + W n \<le> length (entriesOf we n) * W n" by simp
  then show ?thesis using waitingLoad_put [of W n "map_del i (entriesOf we n)" we] by (simp add: deleteEntry_def)
qed

lemma putCell_load:
  "res_post (\<lambda>we'. waitingLoad W we' = waitingLoad W we \<and>
     (\<exists>e. map_get (entriesOf we' n) i = Some e \<and> map_get e Main \<noteq> None)) (putCell n i idx v we)"
  by (auto simp: putCell_def putEntry_def intro!: waitingLoad_putEntry(2) [unfolded putEntry_def] split: option.split)

text \<open>\<open>adds W n r r'\<close>: from \<open>r\<close> to \<open>r'\<close> the load grows by at most \<open>n\<close>.\<close>

definition adds :: "(string \<Rightarrow> nat) \<Rightarrow> nat \<Rightarrow> IRunExecutionData \<Rightarrow> IRunExecutionData \<Rightarrow> bool" where
  "adds W n r r' \<longleftrightarrow> load W r' \<le> load W r + n \<and>
     (with_main (nodeExecutionStack r) \<longrightarrow> with_main (nodeExecutionStack r'))"

lemma adds_trans: "adds W m r s \<Longrightarrow> adds W n s t \<Longrightarrow> adds W (m + n) r t"
  by (auto simp: adds_def)

lemma adds_mono: "adds W m r s \<Longrightarrow> m \<le> n \<Longrightarrow> adds W n r s"
  by (auto simp: adds_def)

lemma adds_refl [simp]: "adds W n r r"
  by (simp add: adds_def)


section \<open>Adding nodes\<close>

text \<open>Names of nodes are the keys under which the workflow has them.\<close>

definition named :: "Workflow \<Rightarrow> bool" where
  "named w = (\<forall>(n, node) \<in> set (wfNodes w). nodeName node = n)"

lemma named_get: "named w \<Longrightarrow> map_get (wfNodes w) n = Some node \<Longrightarrow> nodeName node = n"
  by (auto simp: named_def dest: map_of_SomeD)

lemma completeWaiting_adds:
  assumes "named w" and "\<exists>e. map_get (entriesOf (waitingExecution r) n) i = Some e \<and> map_get e Main \<noteq> None"
  shows "res_post (adds W 0 r) (completeWaiting w n i r)"
proof (cases "map_get (wfNodes w) n")
  case (Some node)
  obtain e where e: "map_get (entriesOf (waitingExecution r) n) i = Some e" "map_get e Main \<noteq> None" using assms(2) by blast
  have del: "waitingLoad W (deleteEntry n i (waitingExecution r)) + W n \<le> waitingLoad W (waitingExecution r)"
    using waitingLoad_deleteEntry [of "waitingExecution r" n i W] e by simp
  have del': "waitingLoad W (map_del n (deleteEntry n i (waitingExecution r))) + W n \<le> waitingLoad W (waitingExecution r)"
    using waitingLoad_del [of W n "deleteEntry n i (waitingExecution r)"] del by simp
  show ?thesis using e Some del del' named_get [OF assms(1) Some]
    by (auto simp: completeWaiting_def adds_def load_def enqueueItem_def Let_def)
qed (simp add: completeWaiting_def)

lemma entryMain_get: "entryMain we n i = Inr main \<Longrightarrow>
    \<exists>e. map_get (entriesOf we n) i = Some e \<and> map_get e Main = Some main"
  by (auto simp: entryMain_def entriesOf_def split: option.splits)

lemma keepWaiting_adds: "res_post (adds W 0 r) (keepWaiting n c i idx v s r)"
proof -
  have "waitingLoad W (putEntry n i e2 (putEntry n i e1 (waitingExecution r))) = waitingLoad W (waitingExecution r)"
    if "entryMain (waitingExecution r) n i = Inr main" for main e1 e2
    using entryMain_get [OF that] waitingLoad_putEntry(2) [of "waitingExecution r" n i W e1]
      waitingLoad_putEntry(2) [of "putEntry n i e1 (waitingExecution r)" n i W e2]
    by (auto simp: putEntry_def)
  then show ?thesis
    by (auto simp: keepWaiting_def res_post_def res_simps Let_def adds_def load_def prepareWaitingToExecution_def)
qed

text \<open>In this order no other nodes are forced to run.\<close>

lemma forceInput_same: "isV1 w \<Longrightarrow> res_post ((=) r) (forceInput k w p outs d out i c r)"
  by (auto simp: forceInput_def res_post_def res_simps forceInputNodeExecution_def Let_def split: if_splits)

lemma forceInputs_same: "isV1 w \<Longrightarrow> res_post ((=) r) (forceInputs k w c p d out i r)"
  unfolding forceInputs_def by (intro post_intros res_post_fold) (auto intro: forceInput_same)

lemma findOpenEntry_in: "findOpenEntry idx es = Inr (Some i) \<Longrightarrow> i \<in> fst ` set es"
  by (induction idx es rule: findOpenEntry.induct) (auto split: option.splits slot.splits)

lemma addToWaiting_adds:
  assumes "isV1 w" and "named w"
  shows "res_post (adds W (W (connNode c)) r) (addToWaiting k w c out p d run n r)"
proof (rule res_postI)
  fix r' assume r': "addToWaiting k w c out p d run n r = Inr r'"
  let ?name = "connNode c" and ?idx = "connIndex c"
  define was where "was = (map_get (waitingExecution r) ?name \<noteq> None)"
  define r1 where "r1 = (if was then r else r\<lparr>waitingExecution := map_put ?name [] (waitingExecution r),
      waitingExecutionSource := map_put ?name [] (waitingExecutionSource r)\<rparr>)"
  define entries where "entries = sort_key fst (entriesOf (waitingExecution r1) ?name)"
  obtain found where found: "findOpenEntry ?idx entries = Inr found"
    using r' by (auto simp: addToWaiting_def Let_def res_simps was_def r1_def entries_def)
  define i where "i = (case found of Some i \<Rightarrow> i | None \<Rightarrow> length entries)"
  define r2 where "r2 = (if found = None then prepareWaitingToExecution ?name n i r1 else r1)"
  obtain we ws main where steps:
    "putCell ?name i ?idx (outputSlot d out) (waitingExecution r2) = Inr we"
    "putCell ?name i ?idx (outputSource d p out run) (waitingExecutionSource r2) = Inr ws"
    "entryMain we ?name i = Inr main"
    "(if Null \<notin> set main then completeWaiting w ?name i (r2\<lparr>waitingExecution := we, waitingExecutionSource := ws\<rparr>)
      else res_bind (if was then Inr (r2\<lparr>waitingExecution := we, waitingExecutionSource := ws\<rparr>)
          else forceInputs k w c p d out run (r2\<lparr>waitingExecution := we, waitingExecutionSource := ws\<rparr>))
        (keepWaiting ?name n i ?idx (outputSlot d out) (sourceOf p out run))) = Inr r'"
    using r' unfolding addToWaiting_def Let_def was_def [symmetric] r1_def [symmetric] entries_def [symmetric]
      found res_bind_simps i_def [symmetric] r2_def [symmetric] res_bind_Inr_iff by blast
  have r1: "adds W 0 r r1"
    using waitingLoad_put [of W ?name "[]" "waitingExecution r"] by (simp add: r1_def adds_def load_def)
  have r2: "adds W (W ?name) r1 r2"
    using waitingLoad_putEntry(1) [of W ?name i _ "waitingExecution r1"]
    by (auto simp: r2_def adds_def load_def prepareWaitingToExecution_def)
  define r3 where "r3 = r2\<lparr>waitingExecution := we, waitingExecutionSource := ws\<rparr>"
  have cell: "waitingLoad W we = waitingLoad W (waitingExecution r2)"
    "\<exists>e. map_get (entriesOf we ?name) i = Some e \<and> map_get e Main \<noteq> None"
    using res_postD [OF putCell_load steps(1)] by blast+
  have r3: "adds W 0 r2 r3" using cell(1) by (simp add: r3_def adds_def load_def)
  have "adds W 0 r3 r'"
  proof (cases "Null \<in> set main")
    case False
    then have "completeWaiting w ?name i r3 = Inr r'" using steps(4) by (simp add: r3_def)
    then show ?thesis using res_postD [OF completeWaiting_adds [OF assms(2)]] cell(2) by (simp add: r3_def)
  next
    case True
    then have "keepWaiting ?name n i ?idx (outputSlot d out) (sourceOf p out run) r3 = Inr r'"
      using steps(4) res_postD [OF forceInputs_same [OF assms(1)]] by (fastforce simp: r3_def res_simps split: if_splits)
    then show ?thesis by (rule res_postD [OF keepWaiting_adds])
  qed
  then show "adds W (W ?name) r r'"
    using adds_trans [OF r1 adds_trans [OF r2 adds_trans [OF r3]], of 0 r'] by simp
qed

lemma addNodeToBeExecuted_adds:
  assumes "isV1 w" and "named w"
  shows "res_post (adds W (W (connNode c)) r) (addNodeToBeExecuted k w c out p d run r)"
  unfolding addNodeToBeExecuted_def
  by (intro post_intros) (auto split: option.split intro: addToWaiting_adds [OF assms] simp: adds_def load_def enqueueItem_def
      dest: named_get [OF assms(2)])

text \<open>What a node leads to has a smaller load than the node.\<close>

definition falling :: "(string \<Rightarrow> nat) \<Rightarrow> Workflow \<Rightarrow> bool" where
  "falling W w \<longleftrightarrow> (\<forall>n. 0 < W n) \<and>
     (\<forall>n nc outputs. map_get (connectionsBySourceNode w) n = Some nc \<and> map_get nc Main = Some outputs \<longrightarrow>
        (\<Sum>(i, c) \<leftarrow> output_entries outputs. W (connNode c)) < W n)"

lemma res_fold_adds:
  assumes "\<And>x r. res_post (adds W (g x) r) (f x r)"
  shows "res_post (adds W (\<Sum>x \<leftarrow> xs. g x) r) (res_fold f xs r)"
proof (induction xs arbitrary: r)
  case (Cons x xs)
  show ?case
    by (rule res_postI) (auto simp: res_simps dest!: res_postD [OF assms] res_postD [OF Cons.IH] intro: adds_trans)
qed simp

lemma collectNode_sum:
  "res_fold (collectNode w) follow ns = Inr ns' \<Longrightarrow>
   (\<Sum>n \<leftarrow> ns'. (W :: string \<Rightarrow> nat) (connNode (addConnectionOf n))) \<le>
     (\<Sum>n \<leftarrow> ns. W (connNode (addConnectionOf n))) + (\<Sum>(i, c, b) \<leftarrow> follow. W (connNode c))"
proof (induction follow arbitrary: ns)
  case (Cons x follow)
  obtain i c b where x: "x = (i, c, b)" by (cases x)
  obtain ns1 where ns1: "collectNode w x ns = Inr ns1" "res_fold (collectNode w) follow ns1 = Inr ns'"
    using Cons.prems by (auto simp: res_simps)
  have "(\<Sum>n \<leftarrow> ns1. W (connNode (addConnectionOf n))) \<le> (\<Sum>n \<leftarrow> ns. W (connNode (addConnectionOf n))) + W (connNode c)"
    using ns1(1) by (auto simp: collectNode_def x split: option.splits if_splits)
  with Cons.IH [OF ns1(2)] show ?case by (simp add: x)
qed simp

lemma sum_sort_by: "(\<Sum>x \<leftarrow> sort_by cmp xs. f x) = (\<Sum>x \<leftarrow> xs. (f x :: nat))"
  by (metis mset_map mset_sort_by sum_mset_sum_list)

lemma addNextNodes_adds:
  assumes "isV1 w" and "named w" and "falling W w"
  shows "res_post (adds W (W n - 1) r) (addNextNodes k w n outs run r)"
proof (cases "map_get (connectionsBySourceNode w) n")
  case (Some nc)
  show ?thesis
  proof (cases "map_get nc Main")
    case (Some outputs)
    have small: "(\<Sum>(i, c) \<leftarrow> output_entries outputs. W (connNode c)) \<le> W n - 1"
      using assms(3) \<open>map_get (connectionsBySourceNode w) n = Some nc\<close> Some by (fastforce simp: falling_def)
    have follow: "(\<Sum>(i, c, b) \<leftarrow> connectionsToFollow w outputs outs. W (connNode c)) =
        (\<Sum>(i, c) \<leftarrow> output_entries outputs. W (connNode c))"
      by (simp add: connectionsToFollow_def comp_def case_prod_unfold)
    have "adds W (W n - 1) r r'"
      if "res_fold (collectNode w) (connectionsToFollow w outputs outs) [] = Inr ns"
        "res_fold (\<lambda>m. addNodeToBeExecuted k w (addConnectionOf m) (addOutputIndex m) n (Some outs) run)
           (sortNodesToAdd ns) r = Inr r'" for ns r'
    proof -
      have "adds W (\<Sum>m \<leftarrow> sortNodesToAdd ns. W (connNode (addConnectionOf m))) r r'"
        by (rule res_postD [OF res_fold_adds that(2)]) (rule addNodeToBeExecuted_adds [OF assms(1,2)])
      moreover have "(\<Sum>m \<leftarrow> sortNodesToAdd ns. W (connNode (addConnectionOf m))) \<le> W n - 1"
        using collectNode_sum [OF that(1), of W] small follow by (simp add: sortNodesToAdd_def sum_sort_by)
      ultimately show ?thesis by (rule adds_mono)
    qed
    then show ?thesis using Some \<open>map_get (connectionsBySourceNode w) n = Some nc\<close> assms(1)
      by (auto simp: addNextNodes_def Let_def res_post_def res_simps)
  qed (use Some in \<open>simp add: addNextNodes_def\<close>)
qed (simp add: addNextNodes_def)


section \<open>Nodes that wait\<close>

lemma releaseEntry_adds:
  assumes "releaseEntry w node m n i main r = Inr s" and "entryMain (waitingExecution r) n i = Inr main" and "nodeName node = n"
  shows "case s of Skipped \<Rightarrow> True | Released r' \<Rightarrow> adds W 0 r r' | Emptied r' \<Rightarrow> adds W 0 r r'"
proof -
  have del: "waitingLoad W (deleteEntry n i (waitingExecution r)) + W n \<le> waitingLoad W (waitingExecution r)"
    using waitingLoad_deleteEntry [of "waitingExecution r" n i W] entryMain_get [OF assms(2)] by auto
  moreover have "waitingLoad W (map_del n (deleteEntry n i (waitingExecution r))) \<le> waitingLoad W (deleteEntry n i (waitingExecution r))"
    by (rule waitingLoad_del)
  ultimately show ?thesis using assms(1,3)
    by (auto simp: releaseEntry_def Let_def adds_def load_def split: if_splits option.splits)
qed

lemma checkWaitingNode_adds:
  assumes "named w" and "checkWaitingNode k env w n r = Inr s"
  shows "case s of Skipped \<Rightarrow> True | Released r' \<Rightarrow> adds W 0 r r' | Emptied r' \<Rightarrow> adds W 0 r r'"
  using assms(2) named_get [OF assms(1)]
  by (auto simp: checkWaitingNode_def getNode_def Let_def res_simps dest: releaseEntry_adds
      split: option.splits if_splits)

lemma releaseWaiting_adds:
  assumes "named w"
  shows "res_post (adds W 0 r) (releaseWaiting k env w r)"
  using assms
proof (induction k env w r rule: releaseWaiting.induct)
  case (1 k env w r)
  let ?scan = "scanWaiting (\<lambda>name. checkWaitingNode k env w name r) (map_keys (waitingExecution r))"
  have step: "case s of Skipped \<Rightarrow> True | Released r' \<Rightarrow> adds W 0 r r' | Emptied r' \<Rightarrow> adds W 0 r r'" if "?scan = Inr s" for s
    using scanWaiting_not_skipped [OF that] checkWaitingNode_adds [OF 1(2), where W = W] by (cases s) fastforce+
  show ?case
  proof (cases ?scan)
    case (Inl e)
    then show ?thesis by (simp add: releaseWaiting.simps [of k env w r])
  next
    case (Inr s)
    note s = step [OF Inr]
    show ?thesis
    proof (cases s)
      case (Emptied r')
      with s have "adds W 0 r r'" by simp
      moreover have "res_post (adds W 0 r') (releaseWaiting k env w r')" using 1 Inr Emptied by blast
      ultimately show ?thesis using Inr Emptied adds_trans [of W 0 r r' 0]
        by (auto simp: releaseWaiting.simps [of k env w r] elim!: res_post_mono)
    qed (use s Inr in \<open>simp_all add: releaseWaiting.simps [of k env w r]\<close>)
  qed
qed


section \<open>The iterations\<close>

lemma mustWait_main:
  assumes "isV1 w" and "map_get (execData d) Main \<noteq> None"
  shows "res_post (\<lambda>missing. \<not> missing) (mustWait k w d)"
proof -
  have "res_post (\<lambda>missing. \<not> missing) (inputsMissing k w d is)" for "is"
    using assms by (induction "is") (auto simp: res_post_def res_simps forceInputNodeExecution_def split: if_splits option.splits)
  then show ?thesis by (auto simp: mustWait_def split: option.split)
qed

lemma adds_push_task [simp]: "adds W n r (pushTaskData m t r') = adds W n r r'"
  by (simp add: adds_def load_def pushTaskData_def)

lemma adds_pinned [simp]: "adds W n (storePinned m out r) r' = adds W n r r'" "adds W n r (storePinned m out r') = adds W n r r'"
  by (simp_all add: adds_def load_def)

lemma adds_pushed [simp]: "adds W n (pushTaskData m t r) r' = adds W n r r'"
  by (simp add: adds_def load_def pushTaskData_def)

text \<open>A node that has run makes room for less than its own load.\<close>

definition iteration :: "(string \<Rightarrow> nat) \<Rightarrow> nat \<Rightarrow> IRunExecutionData \<Rightarrow> IterationEnd \<times> WorkflowExecute \<Rightarrow> bool" where
  "iteration W n r = (\<lambda>(e, st'). e = Continue \<longrightarrow> adds W n r (weRun st'))"

lemma recordOutput_iteration:
  assumes "isV1 w" and "named w" and "falling W w" and "recordOutput k env w d i t out st = Inr (x, st')"
  shows "iteration W (W (nodeName (execNode d)) - 1) (weRun st) (x, st')"
  using assms(4)
proof (cases rule: recordOutput_cases)
  case (goes_on t' m b outs r c)
  have "adds W (W (nodeName (execNode d)) - 1) (weRun st) r"
    using res_postD [OF addNextNodes_adds [OF assms(1-3)] goes_on(2)] by (cases b) simp_all
  moreover have "adds W 0 r (weRun st')"
    using goes_on(3) res_postD [OF releaseWaiting_adds [OF assms(2)]] by (cases c) auto
  ultimately show ?thesis using adds_trans [of W _ "weRun st" r 0 "weRun st'"] by (simp add: iteration_def)
qed (auto simp: iteration_def)

lemma runItem_iteration:
  assumes "isV1 w" and "named w" and "falling W w" and "runItem k env w d i st = Inr (x, st')"
  shows "iteration W (W (nodeName (execNode d)) - 1) (weRun st) (x, st')"
  using assms(4)
proof (cases rule: runItem_cases)
  case skipped
  then show ?thesis by (simp add: iteration_def same_run_def adds_def load_def)
next
  case (ran t out st1)
  then show ?thesis using recordOutput_iteration [OF assms(1-3) ran(2)]
    by (simp add: iteration_def same_run_def adds_def load_def)
qed (simp add: iteration_def)

lemma pairInputs_main: "map_get (pairInputs m) Main = None \<longleftrightarrow> map_get m Main = None"
  by (induction m) (auto simp: pairInputs_def)

lemma processItem_iteration:
  assumes "isV1 w" and "named w" and "falling W w" and "map_get (execData d) Main \<noteq> None"
    and "processItem k env w d st = Inr (x, st')"
  shows "iteration W (W (nodeName (execNode d)) - 1) (weRun st) (x, st')"
proof -
  define d1 where "d1 = d\<lparr>execData := pairInputs (execData d)\<rparr>"
  define st1 where "st1 = executeHook (NodeExecuteBefore (nodeName (execNode d))) (st\<lparr>executionError := None\<rparr>)"
  have st1: "weRun st1 = weRun st" by (simp add: st1_def executeHook_def)
  have "\<not> missing" if "mustWait k w d1 = Inr missing" for missing
    using res_postD [OF mustWait_main [OF assms(1)] that] assms(4) pairInputs_main by (simp add: d1_def)
  then have "(x = Continue \<and> st' = st1) \<or> runItem k env w d1 (runIndexOf (weRun st) (nodeName (execNode d))) st1 = Inr (x, st')"
    using assms(5) st1 unfolding d1_def st1_def
    by (auto simp: processItem_def Let_def res_simps split: if_splits option.splits)
  then show ?thesis using runItem_iteration [OF assms(1-3), of k env d1 _ st1 x st'] st1
    by (auto simp: d1_def iteration_def)
qed

text \<open>So the load of an execution bounds the number of its iterations.\<close>

lemma executionLoop_ends:
  assumes "isV1 w" and "named w" and "falling W w"
  shows "load W (weRun st) \<le> fuel \<Longrightarrow> with_main (nodeExecutionStack (weRun st)) \<Longrightarrow>
    executionLoop fuel k env w interrupts i st \<noteq> None"
proof (induction fuel arbitrary: i st)
  case 0
  have pos: "W n \<noteq> 0" for n using assms(3) by (simp add: falling_def)
  from 0 show ?case by (cases "nodeExecutionStack (weRun st)") (simp_all add: load_def pos)
next
  case (Suc fuel)
  show ?case
  proof (cases "nodeExecutionStack (weRun st)")
    case (Cons d items)
    define st1 where "st1 = (interrupted (interrupts i) st)\<lparr>weRun := (weRun st)\<lparr>nodeExecutionStack := items\<rparr>\<rparr>"
    have pos: "0 < W (nodeName (execNode d))" using assms(3) by (simp add: falling_def)
    have load: "load W (weRun st1) + W (nodeName (execNode d)) = load W (weRun st)"
      using Cons by (simp add: st1_def load_def)
    have main: "map_get (execData d) Main \<noteq> None" "with_main (nodeExecutionStack (weRun st1))"
      using Suc.prems(2) Cons by (simp_all add: st1_def)
    show ?thesis
    proof (cases "weStatus (interrupted (interrupts i) st) = StCanceled")
      case False
      have "executionLoop fuel k env w interrupts (Suc i) st' \<noteq> None"
        if "processItem k env w d st1 = Inr (Continue, st')" for st'
      proof -
        have "adds W (W (nodeName (execNode d)) - 1) (weRun st1) (weRun st')"
          using processItem_iteration [OF assms main(1) that] by (simp add: iteration_def)
        then have "load W (weRun st') < load W (weRun st)" "with_main (nodeExecutionStack (weRun st'))"
          using load pos main(2) by (auto simp: adds_def)
        then show ?thesis using Suc.IH [of st' "Suc i"] Suc.prems(1) by simp
      qed
      moreover have "executionLoop (Suc fuel) k env w interrupts i st =
          (case processItem k env w d st1 of
             Inl e \<Rightarrow> Some (Inl e)
           | Inr (Stop, st') \<Rightarrow> Some (Inr st')
           | Inr (Continue, st') \<Rightarrow> executionLoop fuel k env w interrupts (Suc i) st')"
        using Cons False by (simp add: st1_def Let_def)
      ultimately show ?thesis by (simp split: sum.split IterationEnd.split prod.split)
    qed (use Cons in simp)
  qed simp
qed


section \<open>Workflows without cycles\<close>

lemma finite_conn_rel: "finite (conn_rel conns sel)"
proof -
  have "conn_rel conns sel \<subseteq> (\<Union>a \<in> set (map_keys conns). {a} \<times> (connNode ` set (selected_conns conns sel a)))"
  proof (clarify)
    fix a b assume "(a, b) \<in> conn_rel conns sel"
    then obtain c where c: "c \<in> set (selected_conns conns sel a)" "connNode c = b" by (auto simp: conn_rel_def)
    then have "map_get conns a \<noteq> None" by (cases "map_get conns a") (simp_all add: selected_conns_def)
    then have "a \<in> set (map_keys conns)" by (simp add: map_of_eq_None_iff)
    then show "(a, b) \<in> (\<Union>a \<in> set (map_keys conns). {a} \<times> (connNode ` set (selected_conns conns sel a)))"
      using c by blast
  qed
  then show ?thesis by (rule finite_subset) auto
qed

text \<open>In a finite graph without cycles each node has a rank above the nodes behind it.\<close>

lemma acyclic_rank:
  assumes "finite r" and "acyclic r"
  shows "\<exists>rank. \<forall>(a, b) \<in> r. rank b < (rank a :: nat)"
proof (rule exI, clarify)
  fix a b assume ab: "(a, b) \<in> r"
  have "finite (r\<^sup>+)" using assms(1) by simp
  then have "finite (r\<^sup>+ `` {a})" by (rule finite_Image)
  moreover have "r\<^sup>+ `` {b} \<subset> r\<^sup>+ `` {a}" using ab assms(2) unfolding acyclic_def by (blast intro: trancl_into_trancl2)
  ultimately show "card (r\<^sup>+ `` {b}) < card (r\<^sup>+ `` {a})" by (rule psubset_card_mono)
qed

lemma output_entries_conn:
  assumes "map_get conns n = Some nc" and "map_get nc Main = Some outputs" and "(i, c) \<in> set (output_entries outputs)"
  shows "(n, connNode c) \<in> conn_rel conns (OfType Main)"
proof -
  have "c \<in> set (all_groups outputs)" using assms(3)
    by (auto simp: output_entries_def all_groups_def in_set_enumerate_eq split: option.splits) (metis nth_mem option.simps(5))
  then show ?thesis using assms(1,2) by (auto simp: conn_rel_def selected_conns_def selectedTypes_def)
qed

definition outDegree :: "INodeConnections \<Rightarrow> nat" where
  "outDegree nc = (case map_get nc Main of None \<Rightarrow> 0 | Some outputs \<Rightarrow> length (output_entries outputs))"

lemma acyclic_falling:
  assumes "acyclic (conn_rel (connectionsBySourceNode w) (OfType Main))"
  shows "\<exists>W. falling W w"
proof -
  let ?conns = "connectionsBySourceNode w"
  obtain rank where rank: "\<And>a b. (a, b) \<in> conn_rel ?conns (OfType Main) \<Longrightarrow> rank b < (rank a :: nat)"
    using acyclic_rank [OF finite_conn_rel assms] by blast
  define C where "C = sum_list (map (\<lambda>(n, nc). outDegree nc) ?conns)"
  define W where "W n = Suc C ^ rank n" for n
  have "(\<Sum>(i, c) \<leftarrow> output_entries outputs. W (connNode c)) < W n"
    if n: "map_get ?conns n = Some nc" "map_get nc Main = Some outputs" for n nc outputs
  proof (cases "output_entries outputs = []")
    case False
    have "outDegree nc \<in> set (map (\<lambda>(n, nc). outDegree nc) ?conns)" using map_of_SomeD [OF n(1)] by force
    then have C: "length (output_entries outputs) \<le> C"
      using n(2) member_le_sum_list [of "outDegree nc" "map (\<lambda>(n, nc). outDegree nc) ?conns"] by (simp add: C_def outDegree_def)
    have le: "W (connNode c) \<le> Suc C ^ (rank n - 1)" if "(i, c) \<in> set (output_entries outputs)" for i c
      using rank [OF output_entries_conn [OF n that]] unfolding W_def by (intro power_increasing) auto
    obtain e where "e \<in> set (output_entries outputs)" using False by (cases "output_entries outputs") auto
    then have r: "rank n = Suc (rank n - 1)" using rank [OF output_entries_conn [OF n, of "fst e" "snd e"]] by simp
    have "(\<Sum>(i, c) \<leftarrow> output_entries outputs. W (connNode c)) \<le> (\<Sum>e \<leftarrow> output_entries outputs. Suc C ^ (rank n - 1))"
      using le by (intro sum_list_mono) auto
    also have "\<dots> \<le> C * Suc C ^ (rank n - 1)" using C by (simp add: sum_list_triv)
    also have "\<dots> < Suc C * Suc C ^ (rank n - 1)" by simp
    also have "\<dots> = W n" unfolding W_def by (metis r power_Suc)
    finally show ?thesis .
  qed (simp add: W_def)
  moreover have "0 < W n" for n by (simp add: W_def)
  ultimately show ?thesis unfolding falling_def by blast
qed

lemma resumeWaiting_load:
  "res_post (\<lambda>r'. load W r' = load W r \<and> (with_main (nodeExecutionStack r) \<longrightarrow> with_main (nodeExecutionStack r')))
     (resumeWaiting r)"
  by (auto simp: resumeWaiting_def load_def split: list.splits option.splits)

text \<open>
  C4. An execution in the order v1 of a workflow whose connections have no cycle ends: a number of iterations
  that depends on the workflow and the state it starts from is enough, whatever the nodes answer, whether they fail, and whatever
  interrupts the execution.
\<close>

theorem acyclic_execution_ends:
  assumes "isV1 w" and "acyclic (conn_rel (connectionsBySourceNode w) (OfType Main))"
    and "named w" and "with_main (nodeExecutionStack (weRun st))"
  shows "\<exists>bound. \<forall>env interrupts. \<exists>result. processRunExecutionData bound k env w interrupts st = Some result"
proof -
  obtain W where W: "falling W w" using acyclic_falling [OF assms(2)] by blast
  have "\<exists>result. processRunExecutionData (load W (weRun st)) k env w interrupts st = Some result" for env interrupts
  proof -
    have "executionLoop (load W (weRun st)) k env w interrupts 0 st1 \<noteq> None"
      if "resumeWaiting (weRun st) = Inr (weRun st1)" for st1
      using executionLoop_ends [OF assms(1,3) W] res_postD [OF resumeWaiting_load that, of W] assms(4) by simp
    then show ?thesis
      unfolding processRunExecutionData_def Let_def
      by (auto simp: executeHook_def split: sum.split option.split)
  qed
  then show ?thesis by blast
qed

lemma chain_acyclic: "acyclic (conn_rel (connectionsBySourceNode chain) (OfType Main))"
proof -
  have "conn_rel (connectionsBySourceNode chain) (OfType Main) \<subseteq> {(''a'', ''b'')}"
    by (auto simp: conn_rel_def selected_conns_def selectedTypes_def all_groups_def chain_def link_def split: if_splits)
  moreover have "acyclic {(''a'', ''b'')}" by (auto simp: acyclic_def trancl_insert2)
  ultimately show ?thesis by (rule acyclic_subset [rotated])
qed

theorem acyclic_execution_ends_witness:
  "\<exists>bound. \<forall>env interrupts. \<exists>result. processRunExecutionData bound 3 env chain interrupts chain_start = Some result"
  by (rule acyclic_execution_ends [OF _ chain_acyclic])
    (auto simp: isV1_def named_def chain_def plain_node_def chain_start_def newWorkflowExecute_def initialRunData_def
      startItem_def emptyItemData_def)


section \<open>Nodes that wait for each other\<close>

text \<open>
  The other order puts a node without all of its inputs back on the stack, and stops when the same node is
  tried twice in a row.
\<close>

lemma pairInputs_get: "map_get (pairInputs m) t = map_option (\<lambda>arr. map (\<lambda>(i, s). case s of
         Data items \<Rightarrow> Data (map (\<lambda>(j, item).
           item\<lparr>pairedItem := Some (PairedOne \<lparr>pairedIndex = j, pairedInput = or_undefined i\<rparr>)\<rparr>)
           (enumerate 0 items))
       | s \<Rightarrow> s) (enumerate 0 arr)) (map_get m t)"
  by (induction m) (auto simp: pairInputs_def)

lemma mustWait_paired: "mustWait k w (d\<lparr>execData := pairInputs (execData d)\<rparr>) = mustWait k w d"
proof -
  have "inputsMissing k w (d\<lparr>execData := pairInputs (execData d)\<rparr>) is = inputsMissing k w d is" for "is"
    by (induction "is") (auto simp: pairInputs_get arr_get_def nth_enumerate_eq split: option.split slot.splits
        intro!: arg_cong [where f = "res_bind _"] ext)
  then show ?thesis by (simp add: mustWait_def split: option.split)
qed

text \<open>One iteration with a node that must wait.\<close>

lemma waiting_iteration:
  assumes "nodeExecutionStack (weRun st) = d # items" and "mustWait k w d = Inr True" and "weStatus st \<noteq> StCanceled"
    and "startRunNodeFilter (weRun st) = None"
    and "lastExecutionTry st \<noteq> nodeName (execNode d) @ '':'' @ show_nat (runIndexOf (weRun st) (nodeName (execNode d)))"
  obtains st' where "executionLoop (Suc fuel) k env w (\<lambda>_. NoInterrupt) i st = executionLoop fuel k env w (\<lambda>_. NoInterrupt) (Suc i) st'"
    "weRun st' = (weRun st)\<lparr>nodeExecutionStack := items @ [d\<lparr>execData := pairInputs (execData d)\<rparr>]\<rparr>"
    "weStatus st' = weStatus st"
    "lastExecutionTry st' = nodeName (execNode d) @ '':'' @ show_nat (runIndexOf (weRun st) (nodeName (execNode d)))"
proof -
  let ?st = "executeHook (NodeExecuteBefore (nodeName (execNode d)))
    (st\<lparr>weRun := (weRun st)\<lparr>nodeExecutionStack := items\<rparr>, executionError := None\<rparr>)"
  let ?st' = "?st\<lparr>lastExecutionTry := nodeName (execNode d) @ '':'' @ show_nat (runIndexOf (weRun st) (nodeName (execNode d))),
    weRun := (weRun st)\<lparr>nodeExecutionStack := items @ [d\<lparr>execData := pairInputs (execData d)\<rparr>]\<rparr>\<rparr>"
  have "processItem k env w d (st\<lparr>weRun := (weRun st)\<lparr>nodeExecutionStack := items\<rparr>\<rparr>) = Inr (Continue, ?st')"
    using assms(2,4,5) by (simp add: processItem_def Let_def executeHook_def mustWait_paired runIndexOf_def)
  then have "executionLoop (Suc fuel) k env w (\<lambda>_. NoInterrupt) i st = executionLoop fuel k env w (\<lambda>_. NoInterrupt) (Suc i) ?st'"
    using assms(1,3) by (simp add: interrupted_def Let_def)
  then show ?thesis using that [of ?st'] by (simp add: executeHook_def)
qed

lemma waiting_loop:
  assumes "nodeExecutionStack (weRun st) = [d, e]" and "mustWait k w d = Inr True" and "mustWait k w e = Inr True"
    and "weStatus st \<noteq> StCanceled" and "startRunNodeFilter (weRun st) = None"
    and "nodeName (execNode d) @ '':'' @ show_nat (runIndexOf (weRun st) (nodeName (execNode d))) \<noteq>
      nodeName (execNode e) @ '':'' @ show_nat (runIndexOf (weRun st) (nodeName (execNode e)))"
    and "lastExecutionTry st \<noteq> nodeName (execNode d) @ '':'' @ show_nat (runIndexOf (weRun st) (nodeName (execNode d)))"
  shows "executionLoop fuel k env w (\<lambda>_. NoInterrupt) i st = None"
  using assms
proof (induction fuel arbitrary: i st d e)
  case (Suc fuel)
  obtain st' where st': "executionLoop (Suc fuel) k env w (\<lambda>_. NoInterrupt) i st = executionLoop fuel k env w (\<lambda>_. NoInterrupt) (Suc i) st'"
    "weRun st' = (weRun st)\<lparr>nodeExecutionStack := [e] @ [d\<lparr>execData := pairInputs (execData d)\<rparr>]\<rparr>"
    "weStatus st' = weStatus st"
    "lastExecutionTry st' = nodeName (execNode d) @ '':'' @ show_nat (runIndexOf (weRun st) (nodeName (execNode d)))"
    by (rule waiting_iteration [OF Suc.prems(1,2,4,5,7)])
  show ?case unfolding st'(1)
    by (rule Suc.IH [of _ e "d\<lparr>execData := pairInputs (execData d)\<rparr>"])
      (use Suc.prems st' in \<open>auto simp: mustWait_paired runIndexOf_def\<close>)
qed simp

text \<open>
  In the workflow \<open>legacy\<close> the node a has data for its first output, to m and n, and none for its second, to all inputs of x
  and y, which lead to m and n. As m and n wait for x and y, these are put on the stack, without data for their third inputs.
\<close>

definition legacy :: Workflow where
  "legacy = \<lparr>
     wfNodes = map (\<lambda>n. (n, plain_node 1 n ''t'')) [''t'', ''a'', ''x'', ''y'', ''m'', ''n''],
     connectionsBySourceNode =
       [(''t'', [(Main, [Some [link ''a'' 0]])]),
        (''a'', [(Main, [Some [link ''m'' 0, link ''n'' 0],
           Some [link ''x'' 0, link ''x'' 1, link ''x'' 2, link ''y'' 0, link ''y'' 1, link ''y'' 2]])]),
        (''x'', [(Main, [Some [link ''m'' 1]])]), (''y'', [(Main, [Some [link ''n'' 1]])])],
     connectionsByDestinationNode =
       [(''a'', [(Main, [Some [link ''t'' 0]])]),
        (''m'', [(Main, [Some [link ''a'' 0], Some [link ''x'' 0]])]),
        (''n'', [(Main, [Some [link ''a'' 0], Some [link ''y'' 0]])]),
        (''x'', [(Main, [Some [link ''a'' 1], Some [link ''a'' 1], Some [link ''a'' 1]])]),
        (''y'', [(Main, [Some [link ''a'' 1], Some [link ''a'' 1], Some [link ''a'' 1]])])],
     executionOrder = None, wfPinData = None, nodeTypes = (\<lambda>_ _. Some exec_type)\<rparr>"

definition branch :: ExecutionEnv where
  "branch = env_of (\<lambda>node _ _ _. answer (Inr (Data
     (if nodeName node = ''a'' then [Data [some_item], Data []] else [Data [some_item]]))))"

definition legacy_start :: WorkflowExecute where
  "legacy_start = newWorkflowExecute (initialRunData None None [] None [startItem (plain_node 1 ''t'' ''t'')] [] [])"

definition after_item :: "WorkflowExecute \<Rightarrow> WorkflowExecute option" where
  "after_item st = (case nodeExecutionStack (weRun st) of
     [] \<Rightarrow> None
   | d # items \<Rightarrow> (case processItem 9 branch legacy d (st\<lparr>weRun := (weRun st)\<lparr>nodeExecutionStack := items\<rparr>\<rparr>) of
       Inr (Continue, st') \<Rightarrow> if weStatus st = StCanceled then None else Some st'
     | _ \<Rightarrow> None))"

lemma after_item_loop:
  assumes "after_item st = Some st'"
  shows "executionLoop (Suc fuel) 9 branch legacy (\<lambda>_. NoInterrupt) i st = executionLoop fuel 9 branch legacy (\<lambda>_. NoInterrupt) (Suc i) st'"
  using assms by (auto simp: after_item_def interrupted_def Let_def split: list.splits sum.splits prod.splits IterationEnd.splits if_splits)

definition try_of :: "WorkflowExecute \<Rightarrow> IExecuteData \<Rightarrow> string" where
  "try_of st d = nodeName (execNode d) @ '':'' @ show_nat (runIndexOf (weRun st) (nodeName (execNode d)))"

definition both_wait :: "WorkflowExecute \<Rightarrow> bool" where
  "both_wait st = (case nodeExecutionStack (weRun st) of
     [d, e] \<Rightarrow> mustWait 9 legacy d = Inr True \<and> mustWait 9 legacy e = Inr True \<and> weStatus st \<noteq> StCanceled \<and>
       startRunNodeFilter (weRun st) = None \<and> try_of st d \<noteq> try_of st e \<and> lastExecutionTry st \<noteq> try_of st d
   | _ \<Rightarrow> False)"

lemma both_wait_loop:
  assumes "both_wait st"
  shows "executionLoop fuel 9 branch legacy (\<lambda>_. NoInterrupt) i st = None"
proof -
  obtain d e where "nodeExecutionStack (weRun st) = [d, e]" using assms by (auto simp: both_wait_def split: list.splits)
  then show ?thesis using assms by (intro waiting_loop [of st d e]) (auto simp: both_wait_def try_of_def)
qed

lemma legacy_acyclic: "acyclic (conn_rel (connectionsBySourceNode legacy) (OfType Main))"
proof -
  let ?r = "{(''t'', ''a''), (''a'', ''m''), (''a'', ''n''), (''a'', ''x''), (''a'', ''y''), (''x'', ''m''), (''y'', ''n'')}"
  have "conn_rel (connectionsBySourceNode legacy) (OfType Main) \<subseteq> ?r"
    by (auto simp: conn_rel_def selected_conns_def selectedTypes_def all_groups_def legacy_def link_def split: if_splits)
  moreover have "acyclic ?r" by (auto simp: acyclic_def trancl_insert2)
  ultimately show ?thesis by (rule acyclic_subset [rotated])
qed

text \<open>
  C40. In the other order an execution need not end although the workflow has no cycle: two nodes that lack inputs take
  turns on the stack, and the check for an endless loop only notices one that is tried twice in a row.
\<close>

theorem legacy_execution_never_ends:
  "getConnectionsByDestination (connectionsBySourceNode legacy) = connectionsByDestinationNode legacy \<and>
   acyclic (conn_rel (connectionsBySourceNode legacy) (OfType Main)) \<and>
   (\<forall>fuel. processRunExecutionData fuel 9 branch legacy (\<lambda>_. NoInterrupt) legacy_start = None)"
proof (intro conjI)
  let ?st = "executeHook WorkflowExecuteBefore (legacy_start\<lparr>weStatus := StRunning, weRun := weRun legacy_start\<rparr>)"
  have "case after_item ?st of Some st1 \<Rightarrow> (case after_item st1 of Some st2 \<Rightarrow> both_wait st2 | None \<Rightarrow> False) | None \<Rightarrow> False"
    by code_simp
  then obtain st1 st2 where st: "after_item ?st = Some st1" "after_item st1 = Some st2" "both_wait st2"
    by (auto split: option.splits)
  have loop: "executionLoop fuel 9 branch legacy (\<lambda>_. NoInterrupt) 0 ?st = None" for fuel
  proof -
    consider "fuel = 0" | "fuel = Suc 0" | n where "fuel = Suc (Suc n)" by (metis not0_implies_Suc)
    then show ?thesis
      by cases (use after_item_loop [OF st(1)] after_item_loop [OF st(2)] both_wait_loop [OF st(3)] st in
        \<open>auto simp: after_item_def split: list.splits\<close>)
  qed
  have start: "nodeExecutionStack (weRun legacy_start) = [startItem (plain_node 1 ''t'' ''t'')]"
    "startDestinationNode (weRun legacy_start) = None" "resultPinData (weRun legacy_start) = None"
    "nodeName (execNode (startItem (plain_node 1 ''t'' ''t''))) = ''t''" "\<not> restartExecution branch"
    by (simp_all add: legacy_start_def newWorkflowExecute_def initialRunData_def startItem_def plain_node_def branch_def env_of_def)
  have "checkReadyForExecution 9 branch legacy (Some ''t'') None [] = Inr None" by code_simp
  moreover have "resumeWaiting (weRun legacy_start) = Inr (weRun legacy_start)"
    by (simp add: resumeWaiting_def legacy_start_def newWorkflowExecute_def initialRunData_def)
  ultimately show "\<forall>fuel. processRunExecutionData fuel 9 branch legacy (\<lambda>_. NoInterrupt) legacy_start = None"
    using loop start by (simp add: processRunExecutionData_def Let_def)
  show "getConnectionsByDestination (connectionsBySourceNode legacy) = connectionsByDestinationNode legacy" by code_simp
qed (rule legacy_acyclic)

end
