(* ===== verification/Webhooks.thy ===== *)
theory Webhooks
  imports Workflow_Queries
begin

text \<open>
  Webhooks of active workflows: the entity (packages/cli/src/databases/entities/webhook-entity.ts), the
  service with its table and its cache (webhooks/webhook.service.ts), the webhooks of a node, how they are
  stored on activation (active-workflow-manager.ts) and found for a request (webhooks/live-webhooks.ts).

  The table is a list of rows with the key of method and path. The cache (services/cache/cache.service.ts) is a map;
  its entries may be gone at any time, as they have a time to live. Writes to it are not awaited; they take effect at once.
\<close>

section \<open>Paths\<close>

text \<open>A method is a string, as it comes from an expression; these are the ones of the type.\<close>

type_synonym IHttpRequestMethods = string

definition httpMethods :: "IHttpRequestMethods list" where
  "httpMethods = [''DELETE'', ''GET'', ''HEAD'', ''PATCH'', ''POST'', ''PUT'']"

text \<open>\<open>path.split('/')\<close>.\<close>

fun splitPath :: "string \<Rightarrow> string list" where
  "splitPath [] = [[]]"
| "splitPath (c # cs) = (if c = CHR ''/'' then [] # splitPath cs
     else (case splitPath cs of s # ss \<Rightarrow> (c # s) # ss | [] \<Rightarrow> [[c]]))"

definition startsWithChar :: "char \<Rightarrow> string \<Rightarrow> bool" where
  "startsWithChar c s = (case s of [] \<Rightarrow> False | d # ds \<Rightarrow> d = c)"

definition dropLeading :: "string \<Rightarrow> string" where
  "dropLeading s = (if startsWithChar (CHR ''/'') s then tl s else s)"

definition dropTrailing :: "string \<Rightarrow> string" where
  "dropTrailing s = (if s \<noteq> [] \<and> last s = CHR ''/'' then butlast s else s)"

text \<open>\<open>path.startsWith(':') || path.includes('/:')\<close>.\<close>

fun hasDynamicPart :: "string \<Rightarrow> bool" where
  "hasDynamicPart (c # d # s) = ((c = CHR ''/'' \<and> d = CHR '':'') \<or> hasDynamicPart (d # s))"
| "hasDynamicPart s = False"

definition isDynamicPath :: "string \<Rightarrow> bool" where
  "isDynamicPath path = (startsWithChar (CHR '':'') path \<or> hasDynamicPart path)"


section \<open>The entity\<close>

record WebhookEntity =
  whWorkflowId :: string
  webhookPath :: string
  whMethod :: IHttpRequestMethods
  whNode :: string
  whWebhookId :: "string option"
  pathLength :: "nat option"

text \<open>\<open>join\<close> makes an empty string of \<open>undefined\<close>.\<close>

definition uniquePath :: "WebhookEntity \<Rightarrow> string" where
  "uniquePath e = (if CHR '':'' \<in> set (webhookPath e)
     then (case whWebhookId e of None \<Rightarrow> [] | Some i \<Rightarrow> i) @ ''/'' @ webhookPath e else webhookPath e)"

definition keyOf :: "IHttpRequestMethods \<Rightarrow> string \<Rightarrow> string" where
  "keyOf m path = ''webhook:'' @ m @ ''-'' @ path"

definition cacheKey :: "WebhookEntity \<Rightarrow> string" where
  "cacheKey e = keyOf (whMethod e) (uniquePath e)"

definition staticSegments :: "WebhookEntity \<Rightarrow> string list" where
  "staticSegments e = filter (\<lambda>s. \<not> startsWithChar (CHR '':'') s) (splitPath (webhookPath e))"

definition isDynamic :: "WebhookEntity \<Rightarrow> bool" where
  "isDynamic e = list_ex (startsWithChar (CHR '':'')) (splitPath (webhookPath e))"


section \<open>The service\<close>

record WebhookService =
  whRows :: "WebhookEntity list"
  whCache :: "(string, WebhookEntity) js_map"

definition populateCache :: "WebhookService \<Rightarrow> WebhookService" where
  "populateCache s = s\<lparr>whCache := fold (\<lambda>w. map_put (cacheKey w) w) (whRows s) (whCache s)\<rparr>"

definition findStaticWebhook :: "IHttpRequestMethods \<Rightarrow> string \<Rightarrow> WebhookService \<Rightarrow> WebhookEntity option" where
  "findStaticWebhook m path s = List.find (\<lambda>w. webhookPath w = path \<and> whMethod w = m) (whRows s)"

text \<open>One step of \<open>reduce\<close>; the accumulator is the webhook chosen so far and \<open>maxMatches\<close>.\<close>

definition betterWebhook :: "string list \<Rightarrow> WebhookEntity \<Rightarrow> WebhookEntity option \<times> nat \<Rightarrow> WebhookEntity option \<times> nat" where
  "betterWebhook requestSegments dw acc =
     (if list_all (\<lambda>s. s \<in> set requestSegments) (staticSegments dw) \<and> length (staticSegments dw) > snd acc
      then (Some dw, length (staticSegments dw))
      else if staticSegments dw = [] \<and> fst acc = None then (Some dw, snd acc)
      else acc)"

definition findDynamicWebhook :: "IHttpRequestMethods \<Rightarrow> string \<Rightarrow> WebhookService \<Rightarrow> WebhookEntity option" where
  "findDynamicWebhook m path s =
     (let uuidSegment = hd (splitPath path); otherSegments = tl (splitPath path);
          dynamicWebhooks = filter (\<lambda>w. whWebhookId w = Some uuidSegment \<and> whMethod w = m \<and>
            pathLength w = Some (length otherSegments)) (whRows s)
      in fst (fold (betterWebhook otherSegments) dynamicWebhooks (None, 0)))"

definition findCached :: "IHttpRequestMethods \<Rightarrow> string \<Rightarrow> WebhookService \<Rightarrow> WebhookEntity option \<times> WebhookService" where
  "findCached m path s =
     (case map_get (whCache s) (keyOf m path) of
        Some w \<Rightarrow> (Some w, s)
      | None \<Rightarrow>
          (let dbWebhook = (case findStaticWebhook m path s of Some w \<Rightarrow> Some w | None \<Rightarrow> findDynamicWebhook m path s)
           in (dbWebhook, (case dbWebhook of
                 None \<Rightarrow> s
               | Some w \<Rightarrow> s\<lparr>whCache := map_put (keyOf m path) w (whCache s)\<rparr>))))"

text \<open>\<open>upsert\<close> replaces the row with the same method and path.\<close>

definition same_key :: "WebhookEntity \<Rightarrow> WebhookEntity \<Rightarrow> bool" where
  "same_key a b = (whMethod a = whMethod b \<and> webhookPath a = webhookPath b)"

definition storeWebhook :: "WebhookEntity \<Rightarrow> WebhookService \<Rightarrow> WebhookService" where
  "storeWebhook w s = s\<lparr>
     whCache := map_put (cacheKey w) w (whCache s),
     whRows := (if list_ex (same_key w) (whRows s) then map (\<lambda>r. if same_key w r then w else r) (whRows s)
                else whRows s @ [w])\<rparr>"

definition deleteWebhooks :: "WebhookEntity list \<Rightarrow> WebhookService \<Rightarrow> WebhookService" where
  "deleteWebhooks ws s = s\<lparr>
     whCache := fold (\<lambda>w. map_del (cacheKey w)) ws (whCache s),
     whRows := filter (\<lambda>r. \<not> list_ex (same_key r) ws) (whRows s)\<rparr>"

definition deleteWorkflowWebhooks :: "string \<Rightarrow> WebhookService \<Rightarrow> WebhookService" where
  "deleteWorkflowWebhooks workflowId s = deleteWebhooks (filter (\<lambda>w. whWorkflowId w = workflowId) (whRows s)) s"

definition getWebhookMethods :: "string \<Rightarrow> WebhookService \<Rightarrow> IHttpRequestMethods list" where
  "getWebhookMethods path s = map whMethod (filter (\<lambda>w. webhookPath w = path) (whRows s))"


section \<open>Requests\<close>

text \<open>The search of LiveWebhooks; without a webhook it throws an error, \<open>None\<close>.\<close>

definition findWebhook :: "string \<Rightarrow> IHttpRequestMethods \<Rightarrow> WebhookService \<Rightarrow> WebhookEntity option \<times> WebhookService" where
  "findWebhook path m s = findCached m (dropTrailing path) s"

text \<open>The parameters of the request, from the path; a value beyond the path is \<open>undefined\<close>.\<close>

definition requestParams :: "WebhookEntity \<Rightarrow> string \<Rightarrow> (string, string option) js_map" where
  "requestParams w path =
     (if isDynamic w
      then (let pathElements = tl (splitPath path)
            in fold (\<lambda>(index, ele) params.
                 if startsWithChar (CHR '':'') ele then map_put (tl ele) (arr_get pathElements index) params else params)
               (enumerate 0 (splitPath (webhookPath w))) [])
      else [])"


section \<open>The webhooks of a node\<close>

text \<open>\<open>encodeURIComponent\<close>, for characters below 256: the others are written as the bytes of their UTF-8 form.\<close>

definition hexDigit :: "nat \<Rightarrow> char" where
  "hexDigit n = (if n < 10 then char_of (48 + n) else char_of (55 + n))"

definition percentByte :: "nat \<Rightarrow> string" where
  "percentByte b = [CHR ''%'', hexDigit (b div 16), hexDigit (b mod 16)]"

definition unreserved :: "char \<Rightarrow> bool" where
  "unreserved c = (let n = of_char c :: nat in
     (48 \<le> n \<and> n \<le> 57) \<or> (65 \<le> n \<and> n \<le> 90) \<or> (97 \<le> n \<and> n \<le> 122) \<or> c \<in> set ''-_.!~*()'' \<or> c = CHR 0x27)"

definition encodeChar :: "char \<Rightarrow> string" where
  "encodeChar c = (let n = of_char c in
     if unreserved c then [c]
     else if n < 128 then percentByte n
     else percentByte (192 + n div 64) @ percentByte (128 + n mod 64))"

definition encodeURIComponent :: "string \<Rightarrow> string" where
  "encodeURIComponent s = concat (map encodeChar s)"

text \<open>
  A description of a webhook of a node type with its expressions evaluated, and the fields of the node that are
  used here only.
\<close>

record WebhookDescription =
  restartDeclared :: "bool option"
  descPath :: "string option"
  descFullPath :: bool
  descRestart :: bool
  descMethods :: "string option"

record WebhookEnv =
  webhookDescriptions :: "INode \<Rightarrow> WebhookDescription list option"
  webhookIdOf :: "INode \<Rightarrow> string option"

record IWebhookData =
  wdMethod :: IHttpRequestMethods
  wdNode :: string
  wdPath :: string
  wdWorkflowId :: string
  wdWebhookId :: "string option"

definition getNodeWebhookPath :: "string \<Rightarrow> string \<Rightarrow> string option \<Rightarrow> string \<Rightarrow> bool \<Rightarrow> bool \<Rightarrow> string" where
  "getNodeWebhookPath workflowId name webhookId path isFullPath restartWebhook =
     (if restartWebhook then path
      else case webhookId of
        None \<Rightarrow> workflowId @ ''/'' @ encodeURIComponent (toLowerCase name) @ ''/'' @ path
      | Some i \<Rightarrow> if isFullPath then path else i @ ''/'' @ path)"

fun splitComma :: "string \<Rightarrow> string list" where
  "splitComma [] = [[]]"
| "splitComma (c # cs) = (if c = CHR '','' then [] # splitComma cs
     else (case splitComma cs of s # ss \<Rightarrow> (c # s) # ss | [] \<Rightarrow> [[c]]))"

definition descriptionWebhooks ::
  "string \<Rightarrow> INode \<Rightarrow> string option \<Rightarrow> WebhookDescription \<Rightarrow> IWebhookData list" where
  "descriptionWebhooks workflowId node nodeWebhookId desc =
     (case descPath desc of
        None \<Rightarrow> []
      | Some nodeWebhookPath \<Rightarrow>
          (let path = getNodeWebhookPath workflowId (nodeName node) nodeWebhookId
                 (dropTrailing (dropLeading nodeWebhookPath)) (descFullPath desc) (descRestart desc)
           in case descMethods desc of
                None \<Rightarrow> []
              | Some webhookMethods \<Rightarrow>
                  map (\<lambda>httpMethod. \<lparr>wdMethod = trim httpMethod, wdNode = nodeName node, wdPath = path, wdWorkflowId = workflowId,
                      wdWebhookId = (if isDynamicPath path \<and> nodeWebhookId \<noteq> Some [] then nodeWebhookId else None)\<rparr>)
                    (filter (\<lambda>m. m \<noteq> []) (splitComma webhookMethods))))"

definition getNodeWebhooks ::
  "WebhookEnv \<Rightarrow> string \<Rightarrow> Workflow \<Rightarrow> INode \<Rightarrow> bool \<Rightarrow> IWebhookData list res" where
  "getNodeWebhooks env workflowId w node ignoreRestartWebhooks =
     (if disabled node = Some True then Inr []
      else case nodeTypes w (nodeType node) (typeVersion node) of
        None \<Rightarrow> Inl TypeError
      | Some _ \<Rightarrow>
          (case webhookDescriptions env node of
             None \<Rightarrow> Inr []
           | Some descriptions \<Rightarrow>
               Inr (concat (map (descriptionWebhooks (if workflowId = [] then ''__UNSAVED__'' else workflowId) node (webhookIdOf env node))
                 (filter (\<lambda>d. \<not> (ignoreRestartWebhooks \<and> restartDeclared d = Some True)) descriptions)))))"

definition getWorkflowWebhooks ::
  "nat \<Rightarrow> WebhookEnv \<Rightarrow> string \<Rightarrow> Workflow \<Rightarrow> string option \<Rightarrow> bool \<Rightarrow> IWebhookData list res" where
  "getWorkflowWebhooks k env workflowId w destinationNode ignoreRestartWebhooks =
     res_bind (case destinationNode of
         None \<Rightarrow> Inr None
       | Some d \<Rightarrow> res_bind (getParentNodes k w d (OfType Main) (-1)) (\<lambda>ns. Inr (Some (ns @ [d]))))
       (\<lambda>parentNodes.
          res_fold (\<lambda>(n, node) returnData.
              if parentNodes \<noteq> None \<and> nodeName node \<notin> set (the parentNodes) then Inr returnData
              else res_bind (getNodeWebhooks env workflowId w node ignoreRestartWebhooks)
                (\<lambda>ws. Inr (returnData @ ws)))
            (wfNodes w) [])"

text \<open>The row for a webhook of a workflow that is activated.\<close>

definition webhookRow :: "IWebhookData \<Rightarrow> string option \<Rightarrow> WebhookEntity" where
  "webhookRow wd nodeWebhookId =
     (let path = dropTrailing (dropLeading (wdPath wd)); dynamic = isDynamicPath (wdPath wd) \<and> nodeWebhookId \<notin> {None, Some []}
      in \<lparr>whWorkflowId = wdWorkflowId wd, webhookPath = path, whMethod = wdMethod wd, whNode = wdNode wd,
         whWebhookId = (if dynamic then nodeWebhookId else None),
         pathLength = (if dynamic then Some (length (splitPath path)) else None)\<rparr>)"

end
