(* ===== verification/Webhook_Properties.thy ===== *)
theory Webhook_Properties
  imports Webhooks
begin

text \<open>
  Which webhook a request finds: the one with most static segments among those that match, exactly the stored one
  while all paths are static, and one that was deleted when its path is dynamic.
\<close>

section \<open>Dynamic paths\<close>

definition matchingWebhooks :: "IHttpRequestMethods \<Rightarrow> string \<Rightarrow> WebhookService \<Rightarrow> WebhookEntity list" where
  "matchingWebhooks m path s = filter (\<lambda>w. whWebhookId w = Some (hd (splitPath path)) \<and> whMethod w = m \<and>
     pathLength w = Some (length (tl (splitPath path))) \<and>
     list_all (\<lambda>seg. seg \<in> set (tl (splitPath path))) (staticSegments w)) (whRows s)"

definition best_of :: "string list \<Rightarrow> WebhookEntity list \<Rightarrow> WebhookEntity option \<times> nat \<Rightarrow> bool" where
  "best_of segments ws acc = (case fst acc of
     None \<Rightarrow> snd acc = 0 \<and> filter (\<lambda>w. list_all (\<lambda>seg. seg \<in> set segments) (staticSegments w)) ws = []
   | Some w \<Rightarrow> w \<in> set ws \<and> list_all (\<lambda>seg. seg \<in> set segments) (staticSegments w) \<and> snd acc = length (staticSegments w) \<and>
       list_all (\<lambda>w'. list_all (\<lambda>seg. seg \<in> set segments) (staticSegments w') \<longrightarrow>
         length (staticSegments w') \<le> length (staticSegments w)) ws)"

lemma betterWebhook_best: "best_of segments ws acc \<Longrightarrow> best_of segments (ws @ [dw]) (betterWebhook segments dw acc)"
  by (cases "fst acc") (auto simp: best_of_def betterWebhook_def list_all_iff filter_empty_conv)

lemma fold_best: "best_of segments ws acc \<Longrightarrow> best_of segments (ws @ xs) (fold (betterWebhook segments) xs acc)"
proof (induction xs arbitrary: ws acc)
  case (Cons x xs)
  then show ?case using Cons.IH [OF betterWebhook_best [OF Cons.prems]] by simp
qed simp

text \<open>
  C35. A request for a dynamic path finds a webhook when one matches, and then one with most static segments among
  those that match; a webhook matches when its length is right and its static segments occur in the path.
\<close>

theorem findDynamicWebhook_best:
  "case findDynamicWebhook m path s of
     None \<Rightarrow> matchingWebhooks m path s = []
   | Some w \<Rightarrow> w \<in> set (matchingWebhooks m path s) \<and>
       (\<forall>w' \<in> set (matchingWebhooks m path s). length (staticSegments w') \<le> length (staticSegments w))"
proof -
  let ?ds = "filter (\<lambda>w. whWebhookId w = Some (hd (splitPath path)) \<and> whMethod w = m \<and>
    pathLength w = Some (length (tl (splitPath path)))) (whRows s)"
  have "best_of (tl (splitPath path)) ([] @ ?ds) (fold (betterWebhook (tl (splitPath path))) ?ds (None, 0))"
    by (rule fold_best) (simp add: best_of_def)
  then show ?thesis
    by (auto simp: findDynamicWebhook_def matchingWebhooks_def best_of_def Let_def list_all_iff filter_empty_conv
        split: option.splits)
qed

text \<open>Two dynamic webhooks, one for a user and one for the posts of a user.\<close>

definition dynamic_webhook :: "string \<Rightarrow> string \<Rightarrow> nat \<Rightarrow> WebhookEntity" where
  "dynamic_webhook wid path n = \<lparr>whWorkflowId = wid, webhookPath = path, whMethod = ''GET'', whNode = ''hook'',
     whWebhookId = Some ''u'', pathLength = Some n\<rparr>"

definition two_dynamic :: WebhookService where
  "two_dynamic = \<lparr>whRows = [dynamic_webhook ''1'' '':kind/:id'' 2, dynamic_webhook ''2'' ''user/:id'' 2], whCache = []\<rparr>"

theorem findDynamicWebhook_best_witness:
  "findDynamicWebhook ''GET'' ''u/user/5'' two_dynamic = Some (dynamic_webhook ''2'' ''user/:id'' 2) \<and>
   length (staticSegments (dynamic_webhook ''1'' '':kind/:id'' 2)) \<le> length (staticSegments (dynamic_webhook ''2'' ''user/:id'' 2))"
proof -
  have found: "findDynamicWebhook ''GET'' ''u/user/5'' two_dynamic = Some (dynamic_webhook ''2'' ''user/:id'' 2)" by code_simp
  have "dynamic_webhook ''1'' '':kind/:id'' 2 \<in> set (matchingWebhooks ''GET'' ''u/user/5'' two_dynamic)" by code_simp
  with findDynamicWebhook_best [of "''GET''" "''u/user/5''" two_dynamic] found show ?thesis by auto
qed

text \<open>The static segments are looked up as a set, so the order of a request does not matter.\<close>

lemma order_ignored:
  "findDynamicWebhook ''GET'' ''u/5/user'' two_dynamic = Some (dynamic_webhook ''2'' ''user/:id'' 2)"
  by code_simp


section \<open>Static paths\<close>

text \<open>What happens to the service of an instance whose webhooks have static paths.\<close>

definition static_webhook :: "WebhookEntity \<Rightarrow> bool" where
  "static_webhook w \<longleftrightarrow> whMethod w \<in> set httpMethods \<and> whWebhookId w = None \<and> CHR '':'' \<notin> set (webhookPath w)"

inductive static_step :: "WebhookService \<Rightarrow> WebhookService \<Rightarrow> bool" where
  store: "static_webhook w \<Longrightarrow> static_step s (storeWebhook w s)"
| delete: "static_step s (deleteWorkflowWebhooks workflowId s)"
| lookup: "m \<in> set httpMethods \<Longrightarrow> static_step s (snd (findWebhook path m s))"
| populate: "static_step s (populateCache s)"
| expire: "static_step s (s\<lparr>whCache := map_del key (whCache s)\<rparr>)"

definition keys_differ :: "WebhookEntity list \<Rightarrow> bool" where
  "keys_differ rows = distinct (map (\<lambda>w. (whMethod w, webhookPath w)) rows)"

definition coherent :: "WebhookService \<Rightarrow> bool" where
  "coherent s \<longleftrightarrow> keys_differ (whRows s) \<and> (\<forall>w \<in> set (whRows s). static_webhook w) \<and>
     (\<forall>key w. map_get (whCache s) key = Some w \<longrightarrow> w \<in> set (whRows s) \<and> key = cacheKey w)"

text \<open>No method contains a hyphen, so keys of different methods or paths differ.\<close>

lemma keyOf_inj:
  assumes "keyOf m p = keyOf m' p'" and "m \<in> set httpMethods" and "m' \<in> set httpMethods"
  shows "m = m' \<and> p = p'"
proof -
  have cut: "takeWhile (\<lambda>c. c \<noteq> CHR ''-'') (n @ ''-'' @ q) = n" if "n \<in> set httpMethods" for n q
  proof -
    have "\<forall>c \<in> set n. c \<noteq> CHR ''-''" using that by (auto simp: httpMethods_def)
    then show ?thesis by (simp add: takeWhile_append2)
  qed
  have "m @ ''-'' @ p = m' @ ''-'' @ p'" using assms(1) by (simp add: keyOf_def)
  then show ?thesis using cut [OF assms(2), of p] cut [OF assms(3), of p'] by auto
qed

lemma cacheKey_static: "static_webhook w \<Longrightarrow> cacheKey w = keyOf (whMethod w) (webhookPath w)"
  by (simp add: cacheKey_def uniquePath_def static_webhook_def)

lemma same_cacheKey:
  "static_webhook a \<Longrightarrow> static_webhook b \<Longrightarrow> cacheKey a = cacheKey b \<longleftrightarrow> same_key a b"
  by (simp add: cacheKey_static same_key_def) (metis keyOf_inj static_webhook_def)

lemma keys_differ_eq: "keys_differ rows \<Longrightarrow> a \<in> set rows \<Longrightarrow> b \<in> set rows \<Longrightarrow> same_key a b \<Longrightarrow> a = b"
  unfolding keys_differ_def same_key_def by (metis (mono_tags, lifting) distinct_map inj_onD)

lemma store_coherent:
  assumes "coherent s" and "static_webhook w"
  shows "coherent (storeWebhook w s)"
proof -
  let ?rows = "whRows (storeWebhook w s)"
  have rows: "set ?rows = insert w {r \<in> set (whRows s). \<not> same_key w r}"
  proof (cases "list_ex (same_key w) (whRows s)")
    case True
    then show ?thesis by (auto simp: storeWebhook_def list_ex_iff)
  next
    case False
    then show ?thesis by (auto simp: storeWebhook_def list_ex_iff)
  qed
  have "keys_differ ?rows"
  proof (cases "list_ex (same_key w) (whRows s)")
    case True
    have eq: "map (\<lambda>r. (whMethod r, webhookPath r)) (map (\<lambda>r. if same_key w r then w else r) (whRows s)) =
        map (\<lambda>r. (whMethod r, webhookPath r)) (whRows s)"
      by (auto simp: same_key_def)
    show ?thesis using True assms(1) eq unfolding storeWebhook_def keys_differ_def coherent_def by (simp del: map_map)
  next
    case False
    then show ?thesis using assms(1) by (auto simp: storeWebhook_def keys_differ_def coherent_def list_ex_iff same_key_def)
  qed
  moreover have "w' \<in> set ?rows \<and> key = cacheKey w'" if "map_get (whCache (storeWebhook w s)) key = Some w'" for key w'
  proof (cases "key = cacheKey w")
    case False
    then have "map_get (whCache s) key = Some w'" using that by (simp add: storeWebhook_def)
    then have "w' \<in> set (whRows s)" "key = cacheKey w'" "static_webhook w'" using assms(1) by (auto simp: coherent_def)
    moreover from this have "\<not> same_key w w'" using False same_cacheKey [OF assms(2), of w'] by simp
    ultimately show ?thesis using rows by auto
  qed (use that rows in \<open>auto simp: storeWebhook_def\<close>)
  moreover have "static_webhook r" if "r \<in> set ?rows" for r using that rows assms by (auto simp: coherent_def)
  ultimately show ?thesis unfolding coherent_def by blast
qed

lemma fold_map_del: "map_get (fold (\<lambda>w. map_del (f w)) ws m) key = (if key \<in> f ` set ws then None else map_get m key)"
  by (induction ws arbitrary: m) auto

lemma delete_coherent:
  assumes "coherent s"
  shows "coherent (deleteWorkflowWebhooks workflowId s)"
proof -
  let ?ws = "filter (\<lambda>w. whWorkflowId w = workflowId) (whRows s)" and ?s = "deleteWorkflowWebhooks workflowId s"
  have same: "list_ex (same_key r) ?ws \<longleftrightarrow> r \<in> set ?ws" if "r \<in> set (whRows s)" for r
    using that keys_differ_eq [of "whRows s" r] assms by (auto simp: list_ex_iff coherent_def same_key_def)
  have rows: "set (whRows ?s) = set (whRows s) - set ?ws"
    using same by (auto simp: deleteWorkflowWebhooks_def deleteWebhooks_def)
  have "keys_differ (whRows ?s)" using assms
    by (auto simp: deleteWorkflowWebhooks_def deleteWebhooks_def keys_differ_def coherent_def intro: List.distinct_map_filter)
  moreover have "w \<in> set (whRows ?s) \<and> key = cacheKey w" if "map_get (whCache ?s) key = Some w" for key w
  proof -
    have "key \<notin> cacheKey ` set ?ws" "map_get (whCache s) key = Some w"
      using that by (auto simp: deleteWorkflowWebhooks_def deleteWebhooks_def fold_map_del split: if_splits)
    moreover from this(2) have "w \<in> set (whRows s)" "key = cacheKey w" using assms by (auto simp: coherent_def)
    ultimately show ?thesis unfolding rows by blast
  qed
  moreover have "static_webhook r" if "r \<in> set (whRows ?s)" for r using that rows assms by (auto simp: coherent_def)
  ultimately show ?thesis unfolding coherent_def by blast
qed

lemma find_row:
  assumes "coherent s" and "w \<in> set (whRows s)"
  shows "findStaticWebhook (whMethod w) (webhookPath w) s = Some w"
proof -
  have "\<exists>r. List.find (\<lambda>r. webhookPath r = webhookPath w \<and> whMethod r = whMethod w) (whRows s) = Some r"
    using assms(2) by (metis (mono_tags, lifting) find_None_iff not_None_eq)
  then obtain r where r: "List.find (\<lambda>r. webhookPath r = webhookPath w \<and> whMethod r = whMethod w) (whRows s) = Some r" by blast
  then have "r \<in> set (whRows s)" "same_key r w" by (auto simp: find_Some_iff same_key_def)
  then have "r = w" using keys_differ_eq assms by (auto simp: coherent_def)
  with r show ?thesis by (simp add: findStaticWebhook_def)
qed

lemma static_no_dynamic: "coherent s \<Longrightarrow> findDynamicWebhook m path s = None"
  by (auto simp: coherent_def static_webhook_def findDynamicWebhook_def Let_def filter_empty_conv [THEN iffD2])

lemma lookup_coherent:
  assumes "coherent s" and "m \<in> set httpMethods"
  shows "fst (findCached m path s) = findStaticWebhook m path s" and "coherent (snd (findCached m path s))"
proof -
  have hit: "findStaticWebhook m path s = Some w" if "map_get (whCache s) (keyOf m path) = Some w" for w
  proof -
    have w: "w \<in> set (whRows s)" "keyOf m path = cacheKey w" "static_webhook w" using that assms(1) by (auto simp: coherent_def)
    then have "m = whMethod w \<and> path = webhookPath w"
      using keyOf_inj [OF _ assms(2), of path "whMethod w" "webhookPath w"] by (simp add: cacheKey_static static_webhook_def)
    then show ?thesis using find_row [OF assms(1) w(1)] by simp
  qed
  have found: "w \<in> set (whRows s) \<and> keyOf m path = cacheKey w" if "findStaticWebhook m path s = Some w" for w
  proof -
    have "w \<in> set (whRows s)" "webhookPath w = path" "whMethod w = m" using that by (auto simp: findStaticWebhook_def find_Some_iff)
    then show ?thesis using assms(1) by (auto simp: coherent_def cacheKey_static)
  qed
  show "fst (findCached m path s) = findStaticWebhook m path s"
    using hit static_no_dynamic [OF assms(1)] by (auto simp: findCached_def Let_def split: option.splits)
  show "coherent (snd (findCached m path s))"
    using assms(1) found static_no_dynamic [OF assms(1), of m path]
    by (auto simp: findCached_def Let_def coherent_def split: option.splits if_splits)
qed

lemma fold_map_put_cache:
  "map_get (fold (\<lambda>w. map_put (f w) w) ws m) key = Some v \<Longrightarrow> map_get m key = Some v \<or> (v \<in> set ws \<and> key = f v)"
proof (induction ws arbitrary: m)
  case (Cons w ws)
  from Cons.IH [of "map_put (f w) w m"] Cons.prems show ?case by (auto split: if_splits)
qed simp

lemma static_step_coherent: "static_step s s' \<Longrightarrow> coherent s \<Longrightarrow> coherent s'"
proof (induction rule: static_step.induct)
  case (populate s)
  then show ?case using fold_map_put_cache by (fastforce simp: populateCache_def coherent_def)
next
  case (expire s key)
  then show ?case by (auto simp: coherent_def split: if_splits)
qed (auto simp: store_coherent delete_coherent lookup_coherent findWebhook_def)

definition newWebhookService :: WebhookService where
  "newWebhookService = \<lparr>whRows = [], whCache = []\<rparr>"


definition static_entity :: "string \<Rightarrow> string \<Rightarrow> WebhookEntity" where
  "static_entity wid path = \<lparr>whWorkflowId = wid, webhookPath = path, whMethod = ''POST'', whNode = ''hook'',
     whWebhookId = None, pathLength = None\<rparr>"



section \<open>Deleted webhooks\<close>

text \<open>
  C36. A dynamic webhook that a request has found stays in the cache under the path of the request, from where deleting the
  webhooks of the workflow does not remove it: until the entry expires, the same request finds a webhook that is not stored.
\<close>

theorem deleted_dynamic_webhook_found:
  assumes "findCached m path s = (Some w, s')"
    and "keyOf m path \<notin> cacheKey ` set (filter (\<lambda>r. whWorkflowId r = whWorkflowId w) (whRows s))"
  shows "fst (findCached m path (deleteWorkflowWebhooks (whWorkflowId w) s')) = Some w \<and>
    w \<notin> set (whRows (deleteWorkflowWebhooks (whWorkflowId w) s'))"
proof -
  have s': "whRows s' = whRows s" "map_get (whCache s') (keyOf m path) = Some w"
    using assms(1) by (auto simp: findCached_def Let_def split: option.splits)
  have "map_get (whCache (deleteWorkflowWebhooks (whWorkflowId w) s')) (keyOf m path) = Some w"
    using s' assms(2) by (auto simp: deleteWorkflowWebhooks_def deleteWebhooks_def fold_map_del)
  moreover have "w \<notin> set (whRows (deleteWorkflowWebhooks (whWorkflowId w) s'))"
    by (auto simp: deleteWorkflowWebhooks_def deleteWebhooks_def list_ex_iff same_key_def)
  ultimately show ?thesis by (simp add: findCached_def)
qed

theorem deleted_dynamic_webhook_found_witness:
  "fst (findCached ''GET'' ''u/user/5'' (deleteWorkflowWebhooks ''2'' (snd (findCached ''GET'' ''u/user/5'' two_dynamic)))) =
     Some (dynamic_webhook ''2'' ''user/:id'' 2)"
proof -
  have found: "findCached ''GET'' ''u/user/5'' two_dynamic =
    (Some (dynamic_webhook ''2'' ''user/:id'' 2), snd (findCached ''GET'' ''u/user/5'' two_dynamic))" by code_simp
  have key: "keyOf ''GET'' ''u/user/5'' \<notin> cacheKey ` set (filter (\<lambda>r. whWorkflowId r = whWorkflowId (dynamic_webhook ''2'' ''user/:id'' 2))
      (whRows two_dynamic))"
    by code_simp
  have wid: "whWorkflowId (dynamic_webhook ''2'' ''user/:id'' 2) = ''2''" by (simp add: dynamic_webhook_def)
  from deleted_dynamic_webhook_found [OF found key] show ?thesis unfolding wid by (rule conjunct1)
qed

end
