(* ===== verification/Activation.thy ===== *)
theory Activation
  imports Workflow_Class
begin

text \<open>
  The triggers and pollers that are active in memory: the class ActiveWorkflows
  (packages/core/src/execution-engine/active-workflows.ts), the cron jobs of ScheduledTaskManager
  (scheduled-task-manager.ts) and their times (packages/workflow/src/Cron.ts).

  What runs outside is recorded: triggers that were started and not closed, and cron jobs that were not stopped, each
  under a number. An operation is one step, though it awaits the functions of the nodes; what these do is a parameter.
  The mode for manual tests of TriggersAndPollers is not modelled.
\<close>

section \<open>Times\<close>

datatype TriggerTime =
    EveryMinute
  | EveryHour nat
  | EveryXMinutes nat
  | EveryXHours nat
  | EveryDay nat nat
  | EveryWeek nat nat nat
  | EveryMonth nat nat nat
  | CustomTime string

text \<open>The random second and minute are arguments; EveryDay and the others have the hour first, as in the type.\<close>

definition toCronExpression :: "nat \<Rightarrow> nat \<Rightarrow> TriggerTime \<Rightarrow> string" where
  "toCronExpression randomSecond randomMinute item =
     (case item of
        EveryMinute \<Rightarrow> show_nat randomSecond @ '' * * * * *''
      | EveryHour minute \<Rightarrow> show_nat randomSecond @ '' '' @ show_nat minute @ '' * * * *''
      | EveryXMinutes n \<Rightarrow> show_nat randomSecond @ '' */'' @ show_nat n @ '' * * * *''
      | EveryXHours n \<Rightarrow> show_nat randomSecond @ '' '' @ show_nat randomMinute @ '' */'' @ show_nat n @ '' * * *''
      | EveryDay hour minute \<Rightarrow> show_nat randomSecond @ '' '' @ show_nat minute @ '' '' @ show_nat hour @ '' * * *''
      | EveryWeek hour minute weekday \<Rightarrow>
          show_nat randomSecond @ '' '' @ show_nat minute @ '' '' @ show_nat hour @ '' * * '' @ show_nat weekday
      | EveryMonth hour minute dayOfMonth \<Rightarrow>
          show_nat randomSecond @ '' '' @ show_nat minute @ '' '' @ show_nat hour @ '' '' @ show_nat dayOfMonth @ '' * *''
      | CustomTime e \<Rightarrow> trim e)"

text \<open>\<open>cronTime.split(' ')[0].includes('*')\<close>.\<close>

definition tooOften :: "string \<Rightarrow> bool" where
  "tooOften cronTime = (CHR ''*'' \<in> set (takeWhile (\<lambda>c. c \<noteq> CHR '' '') cronTime))"


section \<open>The state\<close>

datatype activation_error = WorkflowActivationError string | WorkflowDeactivationError string | OtherError string

fun activationMessage :: "activation_error \<Rightarrow> string" where
  "activationMessage (WorkflowActivationError m) = m"
| "activationMessage (WorkflowDeactivationError m) = m"
| "activationMessage (OtherError m) = m"

record TriggerResponse =
  trHandle :: nat
  hasCloseFunction :: bool

datatype CloseResult = Closed | FailsWithCloseError | CloseThrows string

text \<open>
  What the functions of the nodes do: a trigger throws, answers nothing, or answers a response with or without a
  \<open>closeFunction\<close>; the test of a poller throws or not. Numbers tell attempts apart.
\<close>

record TriggerEnv =
  triggerResult :: "string \<Rightarrow> INode \<Rightarrow> nat \<Rightarrow> string + bool option"
  pollResult :: "string \<Rightarrow> INode \<Rightarrow> nat \<Rightarrow> string option"
  pollTimes :: "INode \<Rightarrow> TriggerTime list"
  randomTimes :: "nat \<Rightarrow> nat \<Rightarrow> nat \<times> nat"
  closeResult :: "nat \<Rightarrow> CloseResult"

record ActiveState =
  activeWorkflows :: "(string, TriggerResponse list) js_map"
  cronJobs :: "(string, nat list) js_map"
  runningTriggers :: "nat list"
  runningCrons :: "nat list"
  nextHandle :: nat

definition newActiveState :: ActiveState where
  "newActiveState = \<lparr>activeWorkflows = [], cronJobs = [], runningTriggers = [], runningCrons = [], nextHandle = 0\<rparr>"

definition isActiveInMemory :: "string \<Rightarrow> ActiveState \<Rightarrow> bool" where
  "isActiveInMemory workflowId s = (map_get (activeWorkflows s) workflowId \<noteq> None)"

definition allActiveWorkflows :: "ActiveState \<Rightarrow> string list" where
  "allActiveWorkflows s = map_keys (activeWorkflows s)"

text \<open>Operations that may throw keep the state that they have reached.\<close>

type_synonym 'a attempt = "(activation_error + 'a) \<times> ActiveState"


section \<open>Cron jobs\<close>

definition registerCron :: "string \<Rightarrow> ActiveState \<Rightarrow> ActiveState" where
  "registerCron workflowId s =
     (let job = nextHandle s;
          jobs = (case map_get (cronJobs s) workflowId of None \<Rightarrow> [] | Some js \<Rightarrow> js)
      in s\<lparr>cronJobs := map_put workflowId (jobs @ [job]) (cronJobs s),
           runningCrons := runningCrons s @ [job], nextHandle := Suc job\<rparr>)"

text \<open>The jobs are popped off the array in the map, which stays.\<close>

definition deregisterCrons :: "string \<Rightarrow> ActiveState \<Rightarrow> ActiveState" where
  "deregisterCrons workflowId s =
     (case map_get (cronJobs s) workflowId of
        None \<Rightarrow> s
      | Some jobs \<Rightarrow> s\<lparr>cronJobs := map_put workflowId [] (cronJobs s),
          runningCrons := filter (\<lambda>j. j \<notin> set jobs) (runningCrons s)\<rparr>)"

text \<open>\<open>Object.keys\<close> of a \<open>Map\<close> is empty, whatever the map holds.\<close>

definition objectKeysOfMap :: "('k, 'v) js_map \<Rightarrow> 'k list" where
  "objectKeysOfMap m = []"

definition deregisterAllCrons :: "ActiveState \<Rightarrow> ActiveState" where
  "deregisterAllCrons s = fold deregisterCrons (objectKeysOfMap (cronJobs s)) s"

text \<open>A job calls its function only on the leader.\<close>

definition cronTick :: "bool \<Rightarrow> nat \<Rightarrow> ActiveState \<Rightarrow> bool" where
  "cronTick isLeader job s = (isLeader \<and> job \<in> set (runningCrons s))"


section \<open>Activating\<close>

definition activationProblem :: "string \<Rightarrow> activation_error" where
  "activationProblem message =
     WorkflowActivationError (''There was a problem activating the workflow: \"'' @ message @ ''\"'')"

fun startTriggers ::
  "TriggerEnv \<Rightarrow> string \<Rightarrow> INode list \<Rightarrow> TriggerResponse list \<Rightarrow> ActiveState \<Rightarrow> TriggerResponse list attempt" where
  "startTriggers env workflowId [] triggerResponses s = (Inr triggerResponses, s)"
| "startTriggers env workflowId (n # ns) triggerResponses s =
     (let h = nextHandle s; s1 = s\<lparr>nextHandle := Suc h\<rparr>
      in case triggerResult env workflowId n h of
           Inl e \<Rightarrow> (Inl (activationProblem e), s1)
         | Inr None \<Rightarrow> startTriggers env workflowId ns triggerResponses s1
         | Inr (Some closes) \<Rightarrow>
             startTriggers env workflowId ns (triggerResponses @ [\<lparr>trHandle = h, hasCloseFunction = closes\<rparr>])
               (s1\<lparr>runningTriggers := runningTriggers s1 @ [h]\<rparr>))"

fun registerCrons :: "string \<Rightarrow> string list \<Rightarrow> ActiveState \<Rightarrow> unit attempt" where
  "registerCrons workflowId [] s = (Inr (), s)"
| "registerCrons workflowId (t # ts) s =
     (if tooOften t
      then (Inl (OtherError ''The polling interval is too short. It has to be at least a minute.''), s)
      else registerCrons workflowId ts (registerCron workflowId s))"

definition activatePolling :: "TriggerEnv \<Rightarrow> string \<Rightarrow> INode \<Rightarrow> ActiveState \<Rightarrow> unit attempt" where
  "activatePolling env workflowId node s =
     (let h = nextHandle s; s1 = s\<lparr>nextHandle := Suc h\<rparr>;
          cronTimes = map (\<lambda>(i, t). toCronExpression (fst (randomTimes env h i)) (snd (randomTimes env h i)) t)
            (enumerate 0 (pollTimes env node))
      in case pollResult env workflowId node h of
           Some e \<Rightarrow> (Inl (OtherError e), s1)
         | None \<Rightarrow> registerCrons workflowId cronTimes s1)"

fun activatePollers ::
  "TriggerEnv \<Rightarrow> string \<Rightarrow> bool \<Rightarrow> INode list \<Rightarrow> ActiveState \<Rightarrow> unit attempt" where
  "activatePollers env workflowId noTriggers [] s = (Inr (), s)"
| "activatePollers env workflowId noTriggers (n # ns) s =
     (case activatePolling env workflowId n s of
        (Inl e, s1) \<Rightarrow> (Inl (activationProblem (activationMessage e)),
           (if noTriggers then s1\<lparr>activeWorkflows := map_del workflowId (activeWorkflows s1)\<rparr> else s1))
      | (Inr _, s1) \<Rightarrow> activatePollers env workflowId noTriggers ns s1)"

definition addActive :: "TriggerEnv \<Rightarrow> string \<Rightarrow> Workflow \<Rightarrow> ActiveState \<Rightarrow> unit attempt" where
  "addActive env workflowId w s =
     (case startTriggers env workflowId (getTriggerNodes w) [] s of
        (Inl e, s1) \<Rightarrow> (Inl e, s1)
      | (Inr triggerResponses, s1) \<Rightarrow>
          activatePollers env workflowId (triggerResponses = []) (getPollNodes w)
            (s1\<lparr>activeWorkflows := map_put workflowId triggerResponses (activeWorkflows s1)\<rparr>))"


section \<open>Deactivating\<close>

definition closeTrigger :: "TriggerEnv \<Rightarrow> string \<Rightarrow> TriggerResponse \<Rightarrow> ActiveState \<Rightarrow> unit attempt" where
  "closeTrigger env workflowId response s =
     (if \<not> hasCloseFunction response then (Inr (), s)
      else case closeResult env (trHandle response) of
        Closed \<Rightarrow> (Inr (), s\<lparr>runningTriggers := filter (\<lambda>h. h \<noteq> trHandle response) (runningTriggers s)\<rparr>)
      | FailsWithCloseError \<Rightarrow> (Inr (), s)
      | CloseThrows e \<Rightarrow> (Inl (WorkflowDeactivationError
          (''Failed to deactivate trigger of workflow ID \"'' @ workflowId @ ''\": \"'' @ e @ ''\"'')), s))"

fun closeTriggers :: "TriggerEnv \<Rightarrow> string \<Rightarrow> TriggerResponse list \<Rightarrow> ActiveState \<Rightarrow> unit attempt" where
  "closeTriggers env workflowId [] s = (Inr (), s)"
| "closeTriggers env workflowId (r # rs) s =
     (case closeTrigger env workflowId r s of
        (Inl e, s1) \<Rightarrow> (Inl e, s1)
      | (Inr _, s1) \<Rightarrow> closeTriggers env workflowId rs s1)"

definition removeActive :: "TriggerEnv \<Rightarrow> string \<Rightarrow> ActiveState \<Rightarrow> bool attempt" where
  "removeActive env workflowId s =
     (case map_get (activeWorkflows s) workflowId of
        None \<Rightarrow> (Inr False, s)
      | Some triggerResponses \<Rightarrow>
          (case closeTriggers env workflowId triggerResponses (deregisterCrons workflowId s) of
             (Inl e, s1) \<Rightarrow> (Inl e, s1)
           | (Inr _, s1) \<Rightarrow> (Inr True, s1\<lparr>activeWorkflows := map_del workflowId (activeWorkflows s1)\<rparr>)))"

fun removeEach :: "TriggerEnv \<Rightarrow> string list \<Rightarrow> ActiveState \<Rightarrow> unit attempt" where
  "removeEach env [] s = (Inr (), s)"
| "removeEach env (i # ids) s =
     (case removeActive env i s of
        (Inl e, s1) \<Rightarrow> (Inl e, s1)
      | (Inr _, s1) \<Rightarrow> removeEach env ids s1)"

definition removeAllTriggerAndPollerBasedWorkflows :: "TriggerEnv \<Rightarrow> ActiveState \<Rightarrow> unit attempt" where
  "removeAllTriggerAndPollerBasedWorkflows env s = removeEach env (map_keys (activeWorkflows s)) s"

end
