(* ===== verification/Activation_Manager.thy ===== *)
theory Activation_Manager
  imports Activation Webhooks Workflow_Rename
begin

text \<open>
  The class ActiveWorkflowManager of packages/cli/src/active-workflow-manager.ts: activating and deactivating
  workflows, their webhooks, and the queue that tries failed activations again; with the handlers of
  scaling/pubsub/pubsub-handler.ts by which the leader of several main processes does it for all.

  A retry is split at its \<open>await\<close>: a timer that fires puts it in flight, and it ends with an attempt to
  activate. The database of workflows and the functions of the nodes are parameters. Commands that are published, and
  runs of error workflows, are recorded.
\<close>

datatype WorkflowActivateMode = ActInit | ActCreate | ActUpdate | ActActivate | ActManual | ActLeadershipChange

record DbWorkflow =
  dbName :: string
  dbWorkflow :: Workflow

datatype WebhookOutcome = WebhookOk | QueryFailed | WebhookFails string

record ManagerEnv = TriggerEnv +
  database :: "string \<Rightarrow> DbWorkflow option"
  activeInDatabase :: "string list"
  webhookEnv :: WebhookEnv
  createOutcome :: "IWebhookData \<Rightarrow> WebhookOutcome"
  deleteFails :: "IWebhookData \<Rightarrow> string option"

record QueuedActivation =
  qaMode :: WorkflowActivateMode
  lastTimeout :: nat
  qaTimeout :: nat
  qaWorkflow :: DbWorkflow

datatype Command = AddWebhooksTriggersAndPollers string | RemoveTriggersAndPollers string

text \<open>Of a timer we keep the id that its function closes over, and what it passes on.\<close>

record Manager =
  active :: ActiveState
  queuedActivations :: "(string, QueuedActivation) js_map"
  retryTimers :: "(nat, string \<times> WorkflowActivateMode \<times> DbWorkflow) js_map"
  inFlight :: "(string \<times> WorkflowActivateMode \<times> DbWorkflow) list"
  nextTimer :: nat
  activationErrors :: "(string, string) js_map"
  webhooks :: WebhookService
  managerLeads :: bool
  multiMain :: bool
  published :: "Command list"
  errorWorkflowRuns :: "(string \<times> string) list"

type_synonym 'a mattempt = "(activation_error + 'a) \<times> Manager"


section \<open>The queue\<close>

definition WORKFLOW_REACTIVATE_INITIAL_TIMEOUT :: nat where
  "WORKFLOW_REACTIVATE_INITIAL_TIMEOUT = 1000"

definition WORKFLOW_REACTIVATE_MAX_TIMEOUT :: nat where
  "WORKFLOW_REACTIVATE_MAX_TIMEOUT = 24 * 60 * 60 * 1000"

definition removeQueuedWorkflowActivation :: "string \<Rightarrow> Manager \<Rightarrow> Manager" where
  "removeQueuedWorkflowActivation workflowId s =
     (case map_get (queuedActivations s) workflowId of
        None \<Rightarrow> s
      | Some q \<Rightarrow> s\<lparr>retryTimers := map_del (qaTimeout q) (retryTimers s),
          queuedActivations := map_del workflowId (queuedActivations s)\<rparr>)"

definition removeAllQueuedWorkflowActivations :: "Manager \<Rightarrow> Manager" where
  "removeAllQueuedWorkflowActivations s = fold removeQueuedWorkflowActivation (map_keys (queuedActivations s)) s"

definition addQueuedWorkflowActivation :: "WorkflowActivateMode \<Rightarrow> string \<Rightarrow> DbWorkflow \<Rightarrow> Manager \<Rightarrow> Manager" where
  "addQueuedWorkflowActivation mode workflowId w s =
     (let s = removeQueuedWorkflowActivation workflowId s; t = nextTimer s
      in s\<lparr>queuedActivations := map_put workflowId
             \<lparr>qaMode = mode, lastTimeout = WORKFLOW_REACTIVATE_INITIAL_TIMEOUT, qaTimeout = t, qaWorkflow = w\<rparr> (queuedActivations s),
           retryTimers := map_put t (workflowId, mode, w) (retryTimers s), nextTimer := Suc t\<rparr>)"

definition fireRetry :: "nat \<Rightarrow> Manager \<Rightarrow> Manager" where
  "fireRetry t s =
     (case map_get (retryTimers s) t of
        None \<Rightarrow> s
      | Some r \<Rightarrow> s\<lparr>retryTimers := map_del t (retryTimers s), inFlight := inFlight s @ [r]\<rparr>)"

text \<open>
  A retry that failed: the timeout is doubled and set again. When the entry is gone, reading \<open>lastTimeout\<close>
  throws a TypeError that nobody catches, and nothing is set.
\<close>

definition retryFailed :: "string \<times> WorkflowActivateMode \<times> DbWorkflow \<Rightarrow> Manager \<Rightarrow> Manager" where
  "retryFailed = (\<lambda>(workflowId, mode, w) s.
     case map_get (queuedActivations s) workflowId of
       None \<Rightarrow> s
     | Some q \<Rightarrow>
         (let last = (if lastTimeout q < WORKFLOW_REACTIVATE_MAX_TIMEOUT
                then min (lastTimeout q * 2) WORKFLOW_REACTIVATE_MAX_TIMEOUT else lastTimeout q);
              t = nextTimer s
          in s\<lparr>queuedActivations := map_put workflowId (q\<lparr>lastTimeout := last, qaTimeout := t\<rparr>) (queuedActivations s),
               retryTimers := map_put t (workflowId, mode, w) (retryTimers s), nextTimer := Suc t\<rparr>))"


section \<open>Webhooks\<close>

definition onWebhooks :: "(WebhookService \<Rightarrow> WebhookService) \<Rightarrow> Manager \<Rightarrow> Manager" where
  "onWebhooks f s = s\<lparr>webhooks := f (webhooks s)\<rparr>"

text \<open>An error of the webhooks of a node is thrown with its message; deleting ends at the first that fails.\<close>

definition clearWebhooks :: "ManagerEnv \<Rightarrow> string \<Rightarrow> Manager \<Rightarrow> unit mattempt" where
  "clearWebhooks env workflowId s =
     (case database env workflowId of
        None \<Rightarrow> (Inl (OtherError ''Could not find workflow''), s)
      | Some db \<Rightarrow>
          (case getWorkflowWebhooks 0 (webhookEnv env) workflowId (dbWorkflow db) None True of
             Inl e \<Rightarrow> (Inl (OtherError ''TypeError''), s)
           | Inr ws \<Rightarrow>
               (case List.find (\<lambda>wd. deleteFails env wd \<noteq> None) ws of
                  Some wd \<Rightarrow> (Inl (OtherError (the (deleteFails env wd))), s)
                | None \<Rightarrow> (Inr (), onWebhooks (deleteWorkflowWebhooks workflowId) s))))"

definition nodeWebhookId :: "ManagerEnv \<Rightarrow> Workflow \<Rightarrow> string \<Rightarrow> string option" where
  "nodeWebhookId env w name = (case getNode w name of None \<Rightarrow> None | Some n \<Rightarrow> webhookIdOf (webhookEnv env) n)"

text \<open>\<open>QueryFailed\<close> is thrown when the row is stored, after the webhook was put into the cache.\<close>

fun addEachWebhook ::
  "ManagerEnv \<Rightarrow> string \<Rightarrow> Workflow \<Rightarrow> WorkflowActivateMode \<Rightarrow> IWebhookData list \<Rightarrow> Manager \<Rightarrow> unit mattempt" where
  "addEachWebhook env workflowId w mode [] s = (Inr (), s)"
| "addEachWebhook env workflowId w mode (wd # ws) s =
     (let row = webhookRow wd (nodeWebhookId env w (wdNode wd)); s1 = onWebhooks (storeWebhook row) s;
          s0 = onWebhooks (\<lambda>v. v\<lparr>whCache := map_put (cacheKey row) row (whCache v)\<rparr>) s
      in case createOutcome env wd of
           WebhookOk \<Rightarrow> addEachWebhook env workflowId w mode ws s1
         | QueryFailed \<Rightarrow>
             (if mode = ActInit then addEachWebhook env workflowId w mode ws s0
              else (Inl (OtherError (''The URL path that the \"'' @ whNode row @ ''\" node uses is already taken. Please change it to something else.'')),
                snd (clearWebhooks env workflowId s0)))
         | WebhookFails e \<Rightarrow> (Inl (OtherError e), snd (clearWebhooks env workflowId s1)))"

definition addWebhooks ::
  "ManagerEnv \<Rightarrow> string \<Rightarrow> Workflow \<Rightarrow> WorkflowActivateMode \<Rightarrow> Manager \<Rightarrow> unit mattempt" where
  "addWebhooks env workflowId w mode s =
     (case getWorkflowWebhooks 0 (webhookEnv env) workflowId w None True of
        Inl e \<Rightarrow> (Inl (OtherError ''TypeError''), s)
      | Inr [] \<Rightarrow> (Inr (), s)
      | Inr ws \<Rightarrow>
          (case addEachWebhook env workflowId w mode ws s of
             (Inl e, s1) \<Rightarrow> (Inl e, s1)
           | (Inr _, s1) \<Rightarrow> (Inr (), onWebhooks populateCache s1)))"


section \<open>Activating\<close>

definition STARTING_NODES :: "string list" where
  "STARTING_NODES = [''@n8n/n8n-nodes-langchain.manualChatTrigger'', ''n8n-nodes-base.start'', ''n8n-nodes-base.manualTrigger'']"

definition checkIfWorkflowCanBeActivated :: "Workflow \<Rightarrow> string list \<Rightarrow> bool" where
  "checkIfWorkflowCanBeActivated w ignoreNodeTypes =
     list_ex (\<lambda>(n, node). disabled node \<noteq> Some True \<and> nodeType node \<notin> set ignoreNodeTypes \<and>
         (case nodeTypes w (nodeType node) (typeVersion node) of
            None \<Rightarrow> False | Some nt \<Rightarrow> ntPoll nt \<or> ntTrigger nt \<or> ntWebhook nt))
       (wfNodes w)"

definition shouldAddWebhooks :: "WorkflowActivateMode \<Rightarrow> Manager \<Rightarrow> bool" where
  "shouldAddWebhooks mode s =
     (if mode = ActInit then True else if mode = ActLeadershipChange then False else managerLeads s)"

definition shouldAddTriggersAndPollers :: "Manager \<Rightarrow> bool" where
  "shouldAddTriggersAndPollers s = managerLeads s"

definition liftActive :: "'a attempt \<Rightarrow> Manager \<Rightarrow> 'a mattempt" where
  "liftActive r s = (fst r, s\<lparr>active := snd r\<rparr>)"

definition addTriggersAndPollers :: "ManagerEnv \<Rightarrow> string \<Rightarrow> Workflow \<Rightarrow> Manager \<Rightarrow> unit mattempt" where
  "addTriggersAndPollers env workflowId w s =
     (if getTriggerNodes w \<noteq> [] \<or> getPollNodes w \<noteq> []
      then liftActive (addActive (TriggerEnv.truncate env) workflowId w (active s)) s
      else (Inr (), s))"

definition displayWorkflow :: "string \<Rightarrow> DbWorkflow \<Rightarrow> string" where
  "displayWorkflow workflowId db = ''\"'' @ dbName db @ ''\" (ID: '' @ workflowId @ '')''"

text \<open>The body of the \<open>try\<close> of \<open>add\<close>.\<close>

definition tryActivate ::
  "ManagerEnv \<Rightarrow> string \<Rightarrow> WorkflowActivateMode \<Rightarrow> DbWorkflow option \<Rightarrow> Manager \<Rightarrow> unit mattempt" where
  "tryActivate env workflowId mode existingWorkflow s =
     (case (case existingWorkflow of Some db \<Rightarrow> Some db | None \<Rightarrow> database env workflowId) of
        None \<Rightarrow> (Inl (WorkflowActivationError (''Failed to find workflow with ID \"'' @ workflowId @ ''\"'')), s)
      | Some db \<Rightarrow>
          (let w = dbWorkflow db
           in if \<not> checkIfWorkflowCanBeActivated w STARTING_NODES
              then (Inl (WorkflowActivationError (''Workflow '' @ displayWorkflow workflowId db @
                '' has no node to start the workflow - at least one trigger, poller or webhook node is required'')), s)
              else (case (if shouldAddWebhooks mode s then addWebhooks env workflowId w mode s else (Inr (), s)) of
                  (Inl e, s1) \<Rightarrow> (Inl e, s1)
                | (Inr _, s1) \<Rightarrow>
                    (case (if shouldAddTriggersAndPollers s1 then addTriggersAndPollers env workflowId w s1 else (Inr (), s1)) of
                       (Inl e, s2) \<Rightarrow> (Inl e, s2)
                     | (Inr _, s2) \<Rightarrow>
                         (let s3 = removeQueuedWorkflowActivation workflowId s2
                          in (Inr (), s3\<lparr>activationErrors := map_del workflowId (activationErrors s3)\<rparr>))))))"

text \<open>The result tells whether a message is to be displayed; \<open>None\<close> when the activation was only published.\<close>

definition addWorkflow ::
  "ManagerEnv \<Rightarrow> string \<Rightarrow> WorkflowActivateMode \<Rightarrow> DbWorkflow option \<Rightarrow> bool \<Rightarrow> Manager \<Rightarrow> bool option mattempt" where
  "addWorkflow env workflowId mode existingWorkflow shouldPublish s =
     (if multiMain s \<and> shouldPublish
      then (Inr None, s\<lparr>published := published s @ [AddWebhooksTriggersAndPollers workflowId]\<rparr>)
      else (case tryActivate env workflowId mode existingWorkflow s of
          (Inl e, s1) \<Rightarrow> (Inl e, s1\<lparr>activationErrors := map_put workflowId (activationMessage e) (activationErrors s1)\<rparr>)
        | (Inr _, s1) \<Rightarrow> (Inr (Some ((shouldAddWebhooks mode s \<or> shouldAddTriggersAndPollers s) \<and>
            mode \<in> {ActInit, ActLeadershipChange})), s1)))"

text \<open>The rest of a retry that is in flight.\<close>

definition finishRetry :: "ManagerEnv \<Rightarrow> nat \<Rightarrow> Manager \<Rightarrow> Manager" where
  "finishRetry env i s =
     (if i < length (inFlight s)
      then (let (workflowId, mode, w) = inFlight s ! i;
                s1 = s\<lparr>inFlight := take i (inFlight s) @ drop (Suc i) (inFlight s)\<rparr>
            in case addWorkflow env workflowId mode (Some w) True s1 of
                 (Inl e, s2) \<Rightarrow> retryFailed (workflowId, mode, w) s2
               | (Inr _, s2) \<Rightarrow> s2)
      else s)"

text \<open>A trigger that fails later: its workflow is taken out of memory and put into the queue.\<close>

definition emitError :: "ManagerEnv \<Rightarrow> string \<Rightarrow> string \<Rightarrow> WorkflowActivateMode \<Rightarrow> DbWorkflow \<Rightarrow> string \<Rightarrow> Manager \<Rightarrow> Manager" where
  "emitError env workflowId triggerNode mode w message s =
     (let s = s\<lparr>active := snd (removeActive (TriggerEnv.truncate env) workflowId (active s)),
              activationErrors := map_put workflowId message (activationErrors s),
              errorWorkflowRuns := errorWorkflowRuns s @ [(workflowId, ''There was a problem with the trigger node \"'' @ triggerNode @
                ''\", for that reason did the workflow had to be deactivated'')]\<rparr>
      in addQueuedWorkflowActivation mode workflowId w s)"

definition activateOnStart ::
  "ManagerEnv \<Rightarrow> WorkflowActivateMode \<Rightarrow> string \<Rightarrow> Manager \<Rightarrow> Manager" where
  "activateOnStart env mode workflowId s =
     (case database env workflowId of
        None \<Rightarrow> s
      | Some db \<Rightarrow>
          (case addWorkflow env workflowId mode (Some db) False s of
             (Inr _, s1) \<Rightarrow> s1
           | (Inl e, s1) \<Rightarrow>
               (let s2 = s1\<lparr>errorWorkflowRuns := errorWorkflowRuns s1 @ [(workflowId, activationMessage e)]\<rparr>
                in if includesString (activationMessage e) ''Authorization'' then s2
                   else addQueuedWorkflowActivation ActInit workflowId db s2)))"

definition addActiveWorkflows :: "ManagerEnv \<Rightarrow> WorkflowActivateMode \<Rightarrow> Manager \<Rightarrow> Manager" where
  "addActiveWorkflows env mode s = fold (activateOnStart env mode) (activeInDatabase env) s"


section \<open>Deactivating\<close>

definition removeWorkflowTriggersAndPollers :: "ManagerEnv \<Rightarrow> string \<Rightarrow> Manager \<Rightarrow> unit mattempt" where
  "removeWorkflowTriggersAndPollers env workflowId s =
     (if \<not> isActiveInMemory workflowId (active s) then (Inr (), s)
      else (case liftActive (removeActive (TriggerEnv.truncate env) workflowId (active s)) s of
          (Inl e, s1) \<Rightarrow> (Inl e, s1)
        | (Inr _, s1) \<Rightarrow> (Inr (), s1)))"

definition removeWorkflow :: "ManagerEnv \<Rightarrow> string \<Rightarrow> Manager \<Rightarrow> unit mattempt" where
  "removeWorkflow env workflowId s =
     (let s1 = snd (clearWebhooks env workflowId s)
      in if multiMain s1
         then (Inr (), s1\<lparr>published := published s1 @ [RemoveTriggersAndPollers workflowId]\<rparr>)
         else removeWorkflowTriggersAndPollers env workflowId
           (removeQueuedWorkflowActivation workflowId
             (s1\<lparr>activationErrors := map_del workflowId (activationErrors s1)\<rparr>)))"

text \<open>Workflows with an activation error are left out.\<close>

definition getAllActiveIdsInStorage :: "ManagerEnv \<Rightarrow> Manager \<Rightarrow> string list" where
  "getAllActiveIdsInStorage env s =
     filter (\<lambda>i. map_get (activationErrors s) i \<in> {None, Some []}) (activeInDatabase env)"

definition removeAllWorkflows :: "ManagerEnv \<Rightarrow> Manager \<Rightarrow> Manager" where
  "removeAllWorkflows env s =
     fold (\<lambda>i s. snd (removeWorkflow env i s))
       (fold set_add (allActiveWorkflows (active s) @ getAllActiveIdsInStorage env s) []) s"

text \<open>The handlers of the commands on the leader; a failed activation sets the workflow inactive in the database.\<close>

definition onCommand :: "ManagerEnv \<Rightarrow> Command \<Rightarrow> Manager \<Rightarrow> bool \<times> Manager" where
  "onCommand env c s =
     (if \<not> managerLeads s then (True, s)
      else (case c of
          AddWebhooksTriggersAndPollers workflowId \<Rightarrow>
            (case addWorkflow env workflowId ActActivate None False s of
               (Inl e, s1) \<Rightarrow> (False, s1)
             | (Inr _, s1) \<Rightarrow> (True, s1))
        | RemoveTriggersAndPollers workflowId \<Rightarrow>
            (True, snd (removeWorkflowTriggersAndPollers env workflowId
              (s\<lparr>activationErrors := map_del workflowId (activationErrors s)\<rparr>)))))"

end
