(* ===== verification/Activation_Properties.thy ===== *)
theory Activation_Properties
  imports Activation_Manager
begin

text \<open>
  Activating and deactivating workflows: what is started and stopped, what a failed activation leaves behind, and how
  failed activations are tried again.
\<close>

section \<open>Starting and stopping\<close>

text \<open>The number of a trigger or a job that runs was given before.\<close>

definition handles_used :: "ActiveState \<Rightarrow> bool" where
  "handles_used s = ((\<forall>h \<in> set (runningTriggers s). h < nextHandle s) \<and> (\<forall>j \<in> set (runningCrons s). j < nextHandle s))"

definition jobs_of :: "ActiveState \<Rightarrow> string \<Rightarrow> nat list" where
  "jobs_of s workflowId = (case map_get (cronJobs s) workflowId of None \<Rightarrow> [] | Some js \<Rightarrow> js)"

lemma startTriggers_spec:
  "startTriggers env i ns rs s = (Inr rs', s') \<Longrightarrow>
   \<exists>new. rs' = rs @ new \<and> runningTriggers s' = runningTriggers s @ map trHandle new \<and>
     (\<forall>r \<in> set new. nextHandle s \<le> trHandle r \<and> trHandle r < nextHandle s' \<and>
        (\<exists>n h. triggerResult env i n h = Inr (Some (hasCloseFunction r)))) \<and> nextHandle s \<le> nextHandle s' \<and>
     activeWorkflows s' = activeWorkflows s \<and> cronJobs s' = cronJobs s \<and> runningCrons s' = runningCrons s"
proof (induction ns arbitrary: rs s)
  case (Cons n ns)
  let ?s1 = "s\<lparr>nextHandle := Suc (nextHandle s)\<rparr>"
  show ?case
  proof (cases "triggerResult env i n (nextHandle s)")
    case (Inr answer)
    show ?thesis
    proof (cases answer)
      case None
      then have "startTriggers env i ns rs ?s1 = (Inr rs', s')" using Cons.prems Inr by (simp add: Let_def)
      from Cons.IH [OF this] show ?thesis by fastforce
    next
      case (Some closes)
      then have "startTriggers env i ns (rs @ [\<lparr>trHandle = nextHandle s, hasCloseFunction = closes\<rparr>])
          (?s1\<lparr>runningTriggers := runningTriggers s @ [nextHandle s]\<rparr>) = (Inr rs', s')"
        using Cons.prems Inr by (simp add: Let_def)
      from Cons.IH [OF this] obtain new where new: "rs' = rs @ [\<lparr>trHandle = nextHandle s, hasCloseFunction = closes\<rparr>] @ new"
        "runningTriggers s' = runningTriggers s @ nextHandle s # map trHandle new"
        "\<forall>r \<in> set new. Suc (nextHandle s) \<le> trHandle r \<and> trHandle r < nextHandle s' \<and>
          (\<exists>n h. triggerResult env i n h = Inr (Some (hasCloseFunction r)))"
        "Suc (nextHandle s) \<le> nextHandle s'" "activeWorkflows s' = activeWorkflows s" "cronJobs s' = cronJobs s"
        "runningCrons s' = runningCrons s" by auto
      show ?thesis
        by (rule exI [of _ "\<lparr>trHandle = nextHandle s, hasCloseFunction = closes\<rparr> # new"])
          (use new Inr Some in \<open>auto dest: Suc_leD\<close>)
    qed
  qed (use Cons.prems in \<open>simp add: Let_def\<close>)
qed simp

lemma registerCrons_spec:
  "registerCrons i ts s = (r, s') \<Longrightarrow>
   \<exists>new. jobs_of s' i = jobs_of s i @ new \<and> runningCrons s' = runningCrons s @ new \<and> (\<forall>j \<in> set new. nextHandle s \<le> j) \<and>
     nextHandle s \<le> nextHandle s' \<and> activeWorkflows s' = activeWorkflows s \<and> runningTriggers s' = runningTriggers s"
proof (induction ts arbitrary: s)
  case (Cons t ts)
  show ?case
  proof (cases "tooOften t")
    case False
    then have "registerCrons i ts (registerCron i s) = (r, s')" using Cons.prems by simp
    from Cons.IH [OF this] obtain new where new: "jobs_of s' i = jobs_of (registerCron i s) i @ new"
      "runningCrons s' = runningCrons (registerCron i s) @ new" "\<forall>j \<in> set new. nextHandle (registerCron i s) \<le> j"
      "nextHandle (registerCron i s) \<le> nextHandle s'" "activeWorkflows s' = activeWorkflows (registerCron i s)"
      "runningTriggers s' = runningTriggers (registerCron i s)" by blast
    show ?thesis by (rule exI [of _ "nextHandle s # new"]) (use new in \<open>auto simp: registerCron_def jobs_of_def Let_def\<close>)
  qed (use Cons.prems in auto)
qed auto

lemma activatePollers_spec:
  "activatePollers env i b ns s = (Inr (), s') \<Longrightarrow>
   \<exists>new. jobs_of s' i = jobs_of s i @ new \<and> runningCrons s' = runningCrons s @ new \<and> (\<forall>j \<in> set new. nextHandle s \<le> j) \<and>
     nextHandle s \<le> nextHandle s' \<and> activeWorkflows s' = activeWorkflows s \<and> runningTriggers s' = runningTriggers s"
proof (induction ns arbitrary: s)
  case (Cons n ns)
  obtain r s1 where poll: "activatePolling env i n s = (r, s1)" by (cases "activatePolling env i n s")
  then have rest: "r = Inr ()" "activatePollers env i b ns s1 = (Inr (), s')" using Cons.prems by (auto split: sum.splits)
  obtain ts where "registerCrons i ts (s\<lparr>nextHandle := Suc (nextHandle s)\<rparr>) = (r, s1)"
    using poll rest(1) by (auto simp: activatePolling_def Let_def split: option.splits)
  from registerCrons_spec [OF this] obtain a where a: "jobs_of s1 i = jobs_of s i @ a" "runningCrons s1 = runningCrons s @ a"
    "\<forall>j \<in> set a. Suc (nextHandle s) \<le> j" "Suc (nextHandle s) \<le> nextHandle s1" "activeWorkflows s1 = activeWorkflows s"
    "runningTriggers s1 = runningTriggers s" by (auto simp: jobs_of_def)
  from Cons.IH [OF rest(2)] obtain c where c: "jobs_of s' i = jobs_of s1 i @ c" "runningCrons s' = runningCrons s1 @ c"
    "\<forall>j \<in> set c. nextHandle s1 \<le> j" "nextHandle s1 \<le> nextHandle s'" "activeWorkflows s' = activeWorkflows s1"
    "runningTriggers s' = runningTriggers s1" by blast
  show ?case by (rule exI [of _ "a @ c"]) (use a c in auto)
qed auto

lemma closeTriggers_all:
  "(\<forall>r \<in> set rs. hasCloseFunction r \<and> closeResult env (trHandle r) = Closed) \<Longrightarrow>
   closeTriggers env i rs s = (Inr (), s\<lparr>runningTriggers := filter (\<lambda>h. h \<notin> trHandle ` set rs) (runningTriggers s)\<rparr>)"
  by (induction rs arbitrary: s) (auto simp: closeTrigger_def conj_commute intro: arg_cong [where f = "\<lambda>P. filter P _"])

lemma filter_new: "\<forall>x \<in> set xs. x < (n :: nat) \<Longrightarrow> \<forall>y \<in> set ys. n \<le> y \<Longrightarrow> filter (\<lambda>x. x \<notin> set ys) (xs @ ys) = xs"
  by (auto simp: filter_empty_conv intro!: filter_True dest: leD)

lemma put_del_fresh: "map_get m k = None \<Longrightarrow> map_del k (map_put k v m) = m"
  by (induction m) (auto split: if_splits)

text \<open>
  C20. When a workflow was activated and all of its triggers can be closed, deactivating it stops exactly what was
  started for it: the triggers and cron jobs that run, and the workflows that are active, are those of before.
\<close>

theorem activation_round_trip:
  assumes "addActive env i w s = (Inr (), s')" and "handles_used s" and "\<not> isActiveInMemory i s" and "jobs_of s i = []"
    and "\<And>n h closes. triggerResult env i n h = Inr (Some closes) \<Longrightarrow> closes"
    and "\<And>h. closeResult env h = Closed"
  shows "isActiveInMemory i s' \<and> (\<exists>s''. removeActive env i s' = (Inr True, s'') \<and> runningTriggers s'' = runningTriggers s \<and>
    runningCrons s'' = runningCrons s \<and> activeWorkflows s'' = activeWorkflows s \<and> jobs_of s'' i = [])"
proof -
  obtain rs s1 where start: "startTriggers env i (getTriggerNodes w) [] s = (Inr rs, s1)"
    using assms(1) by (auto simp: addActive_def split: prod.splits sum.splits)
  from startTriggers_spec [OF this] have spec: "runningTriggers s1 = runningTriggers s @ map trHandle rs"
    "\<forall>r \<in> set rs. nextHandle s \<le> trHandle r \<and> trHandle r < nextHandle s1 \<and>
       (\<exists>n h. triggerResult env i n h = Inr (Some (hasCloseFunction r)))"
    "nextHandle s \<le> nextHandle s1"
    "activeWorkflows s1 = activeWorkflows s" "cronJobs s1 = cronJobs s" "runningCrons s1 = runningCrons s" by auto
  then have "\<forall>r \<in> set rs. nextHandle s \<le> trHandle r \<and> hasCloseFunction r" using assms(5) by blast
  note rs = spec(1) this spec(3-6)
  let ?s2 = "s1\<lparr>activeWorkflows := map_put i rs (activeWorkflows s1)\<rparr>"
  have "activatePollers env i (rs = []) (getPollNodes w) ?s2 = (Inr (), s')"
    using assms(1) start by (simp add: addActive_def)
  from activatePollers_spec [OF this] obtain new where new: "jobs_of s' i = jobs_of s i @ new" "runningCrons s' = runningCrons s @ new"
    "\<forall>j \<in> set new. nextHandle s1 \<le> j" "activeWorkflows s' = map_put i rs (activeWorkflows s)"
    "runningTriggers s' = runningTriggers s @ map trHandle rs"
    using rs by (auto simp: jobs_of_def)
  have active: "map_get (activeWorkflows s') i = Some rs" using new(4) by simp
  have crons: "runningCrons (deregisterCrons i s') = runningCrons s" "jobs_of (deregisterCrons i s') i = []"
    "activeWorkflows (deregisterCrons i s') = activeWorkflows s'" "runningTriggers (deregisterCrons i s') = runningTriggers s'"
  proof -
    have "jobs_of s' i = new" using new(1) assms(4) by simp
    moreover have "filter (\<lambda>j. j \<notin> set new) (runningCrons s') = runningCrons s"
      unfolding new(2) using filter_new [of "runningCrons s" "nextHandle s" new] assms(2) new(3) rs(3)
      by (simp add: handles_used_def) (meson order_trans)
    ultimately show "runningCrons (deregisterCrons i s') = runningCrons s" "jobs_of (deregisterCrons i s') i = []"
      using new(2) by (auto simp: deregisterCrons_def jobs_of_def split: option.splits)
    show "activeWorkflows (deregisterCrons i s') = activeWorkflows s'" "runningTriggers (deregisterCrons i s') = runningTriggers s'"
      by (simp_all add: deregisterCrons_def split: option.split)
  qed
  have closed: "filter (\<lambda>h. h \<notin> trHandle ` set rs) (runningTriggers s') = runningTriggers s"
    unfolding new(5) using filter_new [of "runningTriggers s" "nextHandle s" "map trHandle rs"] assms(2) rs(2)
    by (simp add: handles_used_def)
  have "closeTriggers env i rs (deregisterCrons i s') = (Inr (), (deregisterCrons i s')\<lparr>runningTriggers := runningTriggers s\<rparr>)"
    using closeTriggers_all [of rs env i "deregisterCrons i s'"] rs(2) assms(6) closed crons(4) by simp
  then have "removeActive env i s' = (Inr True, (deregisterCrons i s')\<lparr>runningTriggers := runningTriggers s,
      activeWorkflows := map_del i (activeWorkflows s')\<rparr>)"
    using active crons(3) by (simp add: removeActive_def)
  moreover have "map_del i (activeWorkflows s') = activeWorkflows s"
    using assms(3) by (simp add: new(4) isActiveInMemory_def put_del_fresh)
  ultimately show ?thesis using active crons by (auto simp: isActiveInMemory_def jobs_of_def)
qed

definition trigger_type :: "bool \<Rightarrow> bool \<Rightarrow> INodeType" where
  "trigger_type trig poll = \<lparr>ntName = ''t'', ntGroup = [], ntInputs = 0, ntRequiredInputs = None, ntExecute = False,
     ntPoll = poll, ntTrigger = trig, ntWebhook = False\<rparr>"

text \<open>A workflow with two triggers, and pollers p.\<close>

definition triggered :: "string list \<Rightarrow> Workflow" where
  "triggered pollers = \<lparr>
     wfNodes = [(''a'', plain_node 1 ''a'' ''trigger''), (''b'', plain_node 2 ''b'' ''trigger'')] @
       map (\<lambda>n. (n, plain_node 3 n ''poll'')) pollers,
     connectionsBySourceNode = [], connectionsByDestinationNode = [], executionOrder = Some ''v1'', wfPinData = None,
     nodeTypes = (\<lambda>n _. Some (trigger_type (n = ''trigger'') (n = ''poll'')))\<rparr>"

definition closing_env :: TriggerEnv where
  "closing_env = \<lparr>triggerResult = (\<lambda>_ _ _. Inr (Some True)), pollResult = (\<lambda>_ _ _. None), pollTimes = (\<lambda>_. [EveryHour 5]),
     randomTimes = (\<lambda>_ _. (7, 7)), closeResult = (\<lambda>_. Closed)\<rparr>"

theorem activation_round_trip_witness:
  "\<exists>s''. removeActive closing_env ''1'' (snd (addActive closing_env ''1'' (triggered [''p'']) newActiveState)) = (Inr True, s'') \<and>
     runningTriggers s'' = [] \<and> runningCrons s'' = []"
proof -
  have "case addActive closing_env ''1'' (triggered [''p'']) newActiveState of (Inr _, s) \<Rightarrow> True | _ \<Rightarrow> False" by code_simp
  then have added: "addActive closing_env ''1'' (triggered [''p'']) newActiveState =
    (Inr (), snd (addActive closing_env ''1'' (triggered [''p'']) newActiveState))"
    by (auto split: prod.splits sum.splits)
  have "\<exists>s''. removeActive closing_env ''1'' (snd (addActive closing_env ''1'' (triggered [''p'']) newActiveState)) = (Inr True, s'') \<and>
      runningTriggers s'' = runningTriggers newActiveState \<and> runningCrons s'' = runningCrons newActiveState"
    using activation_round_trip [OF added] by (auto simp: handles_used_def isActiveInMemory_def jobs_of_def newActiveState_def closing_env_def)
  then show ?thesis by (simp add: newActiveState_def)
qed


section \<open>What a failed activation leaves behind\<close>

lemma startTriggers_fails:
  "triggerResult env i n (nextHandle s + length ns) = Inl e \<Longrightarrow>
   (\<forall>j < length ns. \<exists>closes. triggerResult env i (ns ! j) (nextHandle s + j) = Inr (Some closes)) \<Longrightarrow>
   startTriggers env i (ns @ n # rest) rs s = (Inl (activationProblem e), s\<lparr>nextHandle := Suc (nextHandle s + length ns),
     runningTriggers := runningTriggers s @ [nextHandle s ..< nextHandle s + length ns]\<rparr>)"
proof (induction ns arbitrary: s rs)
  case (Cons m ns)
  let ?s1 = "s\<lparr>nextHandle := Suc (nextHandle s), runningTriggers := runningTriggers s @ [nextHandle s]\<rparr>"
  have "\<exists>closes. triggerResult env i (ns ! j) (nextHandle ?s1 + j) = Inr (Some closes)" if "j < length ns" for j
    using Cons.prems(2) [rule_format, of "Suc j"] that by simp
  moreover obtain closes where "triggerResult env i m (nextHandle s) = Inr (Some closes)" using Cons.prems(2) by auto
  moreover have "[nextHandle s ..< nextHandle s + length (m # ns)] = nextHandle s # [Suc (nextHandle s) ..< Suc (nextHandle s) + length ns]"
    by (simp add: upt_conv_Cons del: upt_Suc)
  ultimately show ?case using Cons.IH [of ?s1] Cons.prems(1) by (simp add: Let_def del: upt_Suc)
qed (simp add: Let_def)

text \<open>
  When a trigger of a workflow fails to start, the triggers before it keep running: the workflow is not marked as active,
  so deactivating it closes none of them.
\<close>

theorem failed_activation_leaks:
  assumes "getTriggerNodes w = ns @ n # rest" and "\<not> isActiveInMemory i s"
    and "\<And>j. j < length ns \<Longrightarrow> \<exists>closes. triggerResult env i (ns ! j) (nextHandle s + j) = Inr (Some closes)"
    and "triggerResult env i n (nextHandle s + length ns) = Inl e"
  shows "\<exists>s'. addActive env i w s = (Inl (activationProblem e), s') \<and>
    runningTriggers s' = runningTriggers s @ [nextHandle s ..< nextHandle s + length ns] \<and> removeActive env i s' = (Inr False, s')"
  using assms(1,2) startTriggers_fails [of env i n s ns e] assms(3,4)
  by (simp add: addActive_def removeActive_def isActiveInMemory_def)

definition second_fails :: TriggerEnv where
  "second_fails = closing_env\<lparr>triggerResult := (\<lambda>_ n _. if nodeName n = ''b'' then Inl ''unreachable'' else Inr (Some True))\<rparr>"

theorem failed_activation_leaks_witness:
  "runningTriggers (snd (addActive second_fails ''1'' (triggered []) newActiveState)) = [0]"
proof -
  have nodes: "getTriggerNodes (triggered []) = [plain_node 1 ''a'' ''trigger''] @ plain_node 2 ''b'' ''trigger'' # []" by code_simp
  have fails: "triggerResult second_fails ''1'' (plain_node 2 ''b'' ''trigger'') 1 = Inl ''unreachable''" by code_simp
  have starts: "triggerResult second_fails ''1'' (plain_node 1 ''a'' ''trigger'') 0 = Inr (Some True)" by code_simp
  have "\<exists>closes. triggerResult second_fails ''1'' ([plain_node 1 ''a'' ''trigger''] ! j) (nextHandle newActiveState + j) = Inr (Some closes)"
    if "j < length [plain_node 1 ''a'' ''trigger'']" for j
    using that starts by (auto simp: newActiveState_def)
  from failed_activation_leaks [OF nodes _ this, where e = "''unreachable''"] fails show ?thesis
    by (auto simp: isActiveInMemory_def newActiveState_def)
qed

text \<open>
  A poller that fails after another was registered: the cron job of the first runs on, and no operation removes it, also
  not the one for all cron jobs.
\<close>

definition second_poll_fails :: TriggerEnv where
  "second_poll_fails = closing_env\<lparr>pollResult := (\<lambda>_ n _. if nodeName n = ''q'' then Some ''unreachable'' else None)\<rparr>"

definition polled :: Workflow where
  "polled = (triggered [''p'', ''q''])\<lparr>wfNodes := [(''p'', plain_node 3 ''p'' ''poll''), (''q'', plain_node 4 ''q'' ''poll'')]\<rparr>"

lemma cron_job_left:
  "(let s = snd (addActive second_poll_fails ''1'' polled newActiveState)
    in runningCrons s \<noteq> [] \<and> removeActive second_poll_fails ''1'' s = (Inr False, s) \<and> deregisterAllCrons s = s)"
  by code_simp


section \<open>The queue of retries\<close>

text \<open>What the operations that activate and deactivate leave of the queue.\<close>

definition same_queue :: "Manager \<Rightarrow> Manager \<Rightarrow> bool" where
  "same_queue s s' \<longleftrightarrow> queuedActivations s' = queuedActivations s \<and> retryTimers s' = retryTimers s \<and>
     inFlight s' = inFlight s \<and> nextTimer s' = nextTimer s \<and> multiMain s' = multiMain s"

lemma same_queue_refl [simp]: "same_queue s s"
  by (simp add: same_queue_def)

lemma same_queue_trans: "same_queue s t \<Longrightarrow> same_queue t u \<Longrightarrow> same_queue s u"
  by (simp add: same_queue_def)

lemma same_queue_updates [simp]:
  "same_queue s (onWebhooks f s') = same_queue s s'"
  "same_queue s (s'\<lparr>active := a\<rparr>) = same_queue s s'"
  "same_queue s (s'\<lparr>activationErrors := e\<rparr>) = same_queue s s'"
  "same_queue s (s'\<lparr>published := p\<rparr>) = same_queue s s'"
  "same_queue s (s'\<lparr>errorWorkflowRuns := x\<rparr>) = same_queue s s'"
  by (simp_all add: same_queue_def onWebhooks_def)

lemma clearWebhooks_queue: "same_queue s (snd (clearWebhooks env i s))"
  by (auto simp: clearWebhooks_def split: option.split sum.split)

lemma addEachWebhook_queue: "same_queue s (snd (addEachWebhook env i w mode ws s))"
proof (induction env i w mode ws s rule: addEachWebhook.induct)
  case (2 env i w mode wd ws s)
  let ?s1 = "onWebhooks (storeWebhook (webhookRow wd (nodeWebhookId env w (wdNode wd)))) s"
  let ?s0 = "onWebhooks (\<lambda>v. v\<lparr>whCache := map_put (cacheKey (webhookRow wd (nodeWebhookId env w (wdNode wd))))
    (webhookRow wd (nodeWebhookId env w (wdNode wd))) (whCache v)\<rparr>) s"
  have clear: "same_queue s (snd (clearWebhooks env i ?s1))" "same_queue s (snd (clearWebhooks env i ?s0))"
    by (rule same_queue_trans [OF _ clearWebhooks_queue], simp)+
  show ?case using 2 clear same_queue_trans [of s ?s1] same_queue_trans [of s ?s0] by (auto simp: Let_def split: WebhookOutcome.split)
qed simp

lemma addWebhooks_queue: "same_queue s (snd (addWebhooks env i w mode s))"
proof -
  have "same_queue s s1" if "addEachWebhook env i w mode ws s = (r, s1)" for ws r s1
    using addEachWebhook_queue [of s env i w mode ws] that by simp
  then show ?thesis by (auto simp: addWebhooks_def simp del: addEachWebhook.simps split: sum.split list.split prod.split)
qed

lemma addTriggersAndPollers_queue: "same_queue s (snd (addTriggersAndPollers env i w s))"
  by (simp add: addTriggersAndPollers_def liftActive_def)

text \<open>An activation that fails leaves the queue, one that succeeds takes the workflow out.\<close>

lemma tryActivate_queue:
  assumes "tryActivate env i mode existing s = (r, s')"
  shows "case r of Inl e \<Rightarrow> same_queue s s' | Inr _ \<Rightarrow> \<exists>s1. same_queue s s1 \<and> same_queue (removeQueuedWorkflowActivation i s1) s'"
proof -
  have hooks: "same_queue s s1" if "(if b then addWebhooks env i w mode s else (Inr (), s)) = (r, s1)" for b w r s1
    using that addWebhooks_queue [of s env i w mode] by (auto split: if_splits)
  have trigs: "same_queue s1 s2" if "(if b then addTriggersAndPollers env i w s1 else (Inr (), s1)) = (r, s2)" for b w r s1 s2
    using that addTriggersAndPollers_queue [of s1 env i w] by (auto split: if_splits)
  show ?thesis
  proof (cases "case existing of Some db \<Rightarrow> Some db | None \<Rightarrow> database env i")
    case None
    then show ?thesis using assms by (auto simp: tryActivate_def)
  next
    case (Some db)
    show ?thesis
    proof (cases "checkIfWorkflowCanBeActivated (dbWorkflow db) STARTING_NODES")
      case False
      then show ?thesis using assms Some by (auto simp: tryActivate_def Let_def)
    next
      case True
      obtain r1 s1 where one: "(if shouldAddWebhooks mode s then addWebhooks env i (dbWorkflow db) mode s else (Inr (), s)) = (r1, s1)"
        by (metis surj_pair)
      obtain r2 s2 where two: "(if shouldAddTriggersAndPollers s1 then addTriggersAndPollers env i (dbWorkflow db) s1 else (Inr (), s1)) = (r2, s2)"
        by (metis surj_pair)
      have "tryActivate env i mode existing s = (case r1 of Inl e \<Rightarrow> (Inl e, s1) | Inr _ \<Rightarrow> (case r2 of Inl e \<Rightarrow> (Inl e, s2) | Inr _ \<Rightarrow>
          (Inr (), (removeQueuedWorkflowActivation i s2)\<lparr>activationErrors := map_del i (activationErrors (removeQueuedWorkflowActivation i s2))\<rparr>)))"
        unfolding tryActivate_def Let_def Some option.case(2) one
        by (cases r1; cases r2; simp only: prod.case sum.case two True simp_thms if_False)
      then show ?thesis using assms hooks [OF one] trigs [OF two] same_queue_trans [of s s1 s2] by (auto split: sum.splits)
    qed
  qed
qed

lemma addWorkflow_queue:
  assumes "addWorkflow env i mode existing publish s = (r, s')"
  shows "same_queue s s' \<or> (\<not> (multiMain s \<and> publish) \<and> (\<exists>x. r = Inr x) \<and>
    (\<exists>s1. same_queue s s1 \<and> same_queue (removeQueuedWorkflowActivation i s1) s'))"
    and "\<exists>e. r = Inl e \<Longrightarrow> same_queue s s'"
proof -
  obtain r1 s1 where att: "tryActivate env i mode existing s = (r1, s1)" by (cases "tryActivate env i mode existing s")
  show "same_queue s s' \<or> (\<not> (multiMain s \<and> publish) \<and> (\<exists>x. r = Inr x) \<and>
      (\<exists>s1. same_queue s s1 \<and> same_queue (removeQueuedWorkflowActivation i s1) s'))"
    "\<exists>e. r = Inl e \<Longrightarrow> same_queue s s'"
    using assms att tryActivate_queue [OF att] unfolding addWorkflow_def by (auto split: if_splits sum.splits)
qed

text \<open>
  The queue \<open>qm\<close> and its timers \<open>tm\<close>, but for workflows of \<open>F\<close>, whose retry is in flight: an entry has its timer, a timer has its
  entry, no two entries share a timer, and timeouts are within the limits.
\<close>

definition entry_ok ::
  "string set \<Rightarrow> (nat \<Rightarrow> (string \<times> WorkflowActivateMode \<times> DbWorkflow) option) \<Rightarrow> nat \<Rightarrow> string \<Rightarrow> QueuedActivation \<Rightarrow> bool" where
  "entry_ok F tm n i q \<longleftrightarrow> qaTimeout q < n \<and> WORKFLOW_REACTIVATE_INITIAL_TIMEOUT \<le> lastTimeout q \<and>
     lastTimeout q \<le> WORKFLOW_REACTIVATE_MAX_TIMEOUT \<and> (i \<in> F \<or> (\<exists>r. tm (qaTimeout q) = Some r \<and> fst r = i))"

definition timer_ok ::
  "string set \<Rightarrow> (string \<Rightarrow> QueuedActivation option) \<Rightarrow> nat \<Rightarrow> string \<Rightarrow> bool" where
  "timer_ok F qm t i \<longleftrightarrow> i \<notin> F \<and> (\<exists>q. qm i = Some q \<and> qaTimeout q = t)"

definition queue_maps_ok ::
  "string set \<Rightarrow> (string \<Rightarrow> QueuedActivation option) \<Rightarrow> (nat \<Rightarrow> (string \<times> WorkflowActivateMode \<times> DbWorkflow) option) \<Rightarrow> nat \<Rightarrow> bool" where
  "queue_maps_ok F qm tm n \<longleftrightarrow>
     (\<forall>i q. qm i = Some q \<longrightarrow> entry_ok F tm n i q) \<and> (\<forall>t r. tm t = Some r \<longrightarrow> timer_ok F qm t (fst r)) \<and>
     (\<forall>i j q q'. qm i = Some q \<and> qm j = Some q' \<and> qaTimeout q = qaTimeout q' \<longrightarrow> i = j)"

lemma maps_ok_entry: "queue_maps_ok F qm tm n \<Longrightarrow> qm i = Some q \<Longrightarrow> entry_ok F tm n i q"
  by (simp add: queue_maps_ok_def)

lemma maps_ok_timer: "queue_maps_ok F qm tm n \<Longrightarrow> tm t = Some r \<Longrightarrow> timer_ok F qm t (fst r)"
  unfolding queue_maps_ok_def by blast

lemma maps_ok_inj: "queue_maps_ok F qm tm n \<Longrightarrow> qm i = Some q \<Longrightarrow> qm j = Some q' \<Longrightarrow> qaTimeout q = qaTimeout q' \<Longrightarrow> i = j"
  unfolding queue_maps_ok_def by blast

lemma maps_ok_absent:
  assumes "queue_maps_ok F qm tm n" and "qm i = None"
  shows "queue_maps_ok (F - {i}) qm tm n"
  unfolding queue_maps_ok_def
proof (intro conjI allI impI)
  show "entry_ok (F - {i}) tm n j q" if "qm j = Some q" for j q
    using maps_ok_entry [OF assms(1) that] that assms(2) by (auto simp: entry_ok_def)
  show "timer_ok (F - {i}) qm t (fst r)" if "tm t = Some r" for t r
    using maps_ok_timer [OF assms(1) that] by (auto simp: timer_ok_def)
qed (use maps_ok_inj [OF assms(1)] in blast)

lemma maps_ok_delete:
  assumes "queue_maps_ok F qm tm n" and "qm i = Some q"
  shows "queue_maps_ok (F - {i}) (qm(i := None)) (tm(qaTimeout q := None)) n"
  unfolding queue_maps_ok_def
proof (intro conjI allI impI)
  have other: "qaTimeout q' \<noteq> qaTimeout q" if "qm j = Some q'" "j \<noteq> i" for j q'
    using maps_ok_inj [OF assms(1) that(1) assms(2)] that(2) by blast
  show "entry_ok (F - {i}) (tm(qaTimeout q := None)) n j q'" if "(qm(i := None)) j = Some q'" for j q'
    using that maps_ok_entry [OF assms(1), of j q'] other [of j q'] by (auto simp: entry_ok_def split: if_splits)
  show "timer_ok (F - {i}) (qm(i := None)) t (fst r)" if "(tm(qaTimeout q := None)) t = Some r" for t r
  proof -
    have t: "tm t = Some r" "t \<noteq> qaTimeout q" using that by (auto split: if_splits)
    obtain q' where "fst r \<notin> F" "qm (fst r) = Some q'" "qaTimeout q' = t"
      using maps_ok_timer [OF assms(1) t(1)] by (auto simp: timer_ok_def)
    then show ?thesis using t(2) assms(2) by (auto simp: timer_ok_def)
  qed
  show "a = b" if "(qm(i := None)) a = Some x \<and> (qm(i := None)) b = Some y \<and> qaTimeout x = qaTimeout y" for a b x y
    using that maps_ok_inj [OF assms(1), of a x b y] by (auto split: if_splits)
qed

lemma maps_ok_put:
  assumes "queue_maps_ok F qm tm n" and "\<And>t r. tm t = Some r \<Longrightarrow> fst r \<noteq> i \<and> t < n" and "qaTimeout q = n" and "fst r = i"
    and "WORKFLOW_REACTIVATE_INITIAL_TIMEOUT \<le> lastTimeout q" and "lastTimeout q \<le> WORKFLOW_REACTIVATE_MAX_TIMEOUT"
  shows "queue_maps_ok (F - {i}) (qm(i \<mapsto> q)) (tm(n \<mapsto> r)) (Suc n)"
  unfolding queue_maps_ok_def
proof (intro conjI allI impI)
  have older: "qaTimeout q' < n" if "qm j = Some q'" for j q'
    using maps_ok_entry [OF assms(1) that] by (simp add: entry_ok_def)
  show "entry_ok (F - {i}) (tm(n \<mapsto> r)) (Suc n) j q'" if "(qm(i \<mapsto> q)) j = Some q'" for j q'
  proof (cases "j = i")
    case True
    then have "q' = q" "(tm(n \<mapsto> r)) (qaTimeout q) = Some r" using that assms(3) by simp_all
    then show ?thesis using True assms(3-6) unfolding entry_ok_def by blast
  next
    case False
    then have old: "entry_ok F tm n j q'" using that maps_ok_entry [OF assms(1)] by simp
    then have "(tm(n \<mapsto> r)) (qaTimeout q') = tm (qaTimeout q')" by (simp add: entry_ok_def)
    then show ?thesis using False old unfolding entry_ok_def by (auto simp del: fun_upd_apply)
  qed
  show "timer_ok (F - {i}) (qm(i \<mapsto> q)) t (fst r')" if "(tm(n \<mapsto> r)) t = Some r'" for t r'
  proof (cases "t = n")
    case False
    then have t: "tm t = Some r'" using that by simp
    then show ?thesis using maps_ok_timer [OF assms(1) t] assms(2) [OF t] by (auto simp: timer_ok_def)
  qed (use that assms(3,4) in \<open>simp add: timer_ok_def\<close>)
  show "a = b" if "(qm(i \<mapsto> q)) a = Some x \<and> (qm(i \<mapsto> q)) b = Some y \<and> qaTimeout x = qaTimeout y" for a b x y
    using that maps_ok_inj [OF assms(1), of a x b y] older [of a x] older [of b y] assms(3) by (auto split: if_splits)
qed

lemma maps_ok_fire:
  assumes "queue_maps_ok {} qm tm n" and "tm t = Some r"
  shows "queue_maps_ok {fst r} qm (tm(t := None)) n"
  unfolding queue_maps_ok_def
proof (intro conjI allI impI)
  obtain q where q: "qm (fst r) = Some q" "qaTimeout q = t" using maps_ok_timer [OF assms] by (auto simp: timer_ok_def)
  have mine: "j = fst r" if "qm j = Some q'" "qaTimeout q' = t" for j q'
    using maps_ok_inj [OF assms(1) that(1) q(1)] that(2) q(2) by simp
  show "entry_ok {fst r} (tm(t := None)) n j q'" if "qm j = Some q'" for j q'
    using maps_ok_entry [OF assms(1) that] mine [OF that] by (auto simp: entry_ok_def)
  show "timer_ok {fst r} qm u (fst r')" if "(tm(t := None)) u = Some r'" for u r'
  proof -
    have "tm u = Some r'" "u \<noteq> t" using that by (auto split: if_splits)
    then show ?thesis using maps_ok_timer [OF assms(1), of u r'] q by (auto simp: timer_ok_def)
  qed
qed (use maps_ok_inj [OF assms(1)] in blast)


definition queue_ok :: "string set \<Rightarrow> Manager \<Rightarrow> bool" where
  "queue_ok F s = queue_maps_ok F (map_get (queuedActivations s)) (map_get (retryTimers s)) (nextTimer s)"

lemma same_queue_ok: "same_queue s s' \<Longrightarrow> queue_ok F s' = queue_ok F s"
  by (simp add: same_queue_def queue_ok_def)

lemma map_get_put_fun: "map_get (map_put k v m) = (map_get m)(k \<mapsto> v)"
  by auto

lemma map_get_del_fun: "map_get (map_del k m) = (map_get m)(k := None)"
  by auto

lemma removeQueued_ok: "queue_ok F s \<Longrightarrow> queue_ok (F - {i}) (removeQueuedWorkflowActivation i s)"
  unfolding queue_ok_def removeQueuedWorkflowActivation_def
  by (auto simp: map_get_put_fun map_get_del_fun maps_ok_absent maps_ok_delete split: option.split)

lemma removeQueued_gone: "map_get (queuedActivations (removeQueuedWorkflowActivation i s)) i = None"
  by (auto simp: removeQueuedWorkflowActivation_def split: option.split)

text \<open>Without an entry, a workflow has no timer.\<close>

lemma no_timer:
  assumes "queue_ok F s" and "map_get (queuedActivations s) i = None \<or> i \<in> F" and "map_get (retryTimers s) t = Some r"
  shows "fst r \<noteq> i \<and> t < nextTimer s"
proof -
  have "timer_ok F (map_get (queuedActivations s)) t (fst r)" using assms(1,3) maps_ok_timer unfolding queue_ok_def by blast
  then obtain q where q: "fst r \<notin> F" "map_get (queuedActivations s) (fst r) = Some q" "qaTimeout q = t" by (auto simp: timer_ok_def)
  then have "entry_ok F (map_get (retryTimers s)) (nextTimer s) (fst r) q" using assms(1) maps_ok_entry unfolding queue_ok_def by blast
  then show ?thesis using q assms(2) by (auto simp: entry_ok_def)
qed

lemma addQueued_ok:
  assumes "queue_ok F s"
  shows "queue_ok (F - {i}) (addQueuedWorkflowActivation mode i w s)"
proof -
  let ?s = "removeQueuedWorkflowActivation i s"
  let ?q = "\<lparr>qaMode = mode, lastTimeout = WORKFLOW_REACTIVATE_INITIAL_TIMEOUT, qaTimeout = nextTimer ?s, qaWorkflow = w\<rparr>"
  have ok: "queue_ok (F - {i}) ?s" by (rule removeQueued_ok [OF assms])
  have "queue_maps_ok (F - {i} - {i}) ((map_get (queuedActivations ?s))(i \<mapsto> ?q))
      ((map_get (retryTimers ?s))(nextTimer ?s \<mapsto> (i, mode, w))) (Suc (nextTimer ?s))"
  proof (rule maps_ok_put [OF ok [unfolded queue_ok_def]])
    show "fst r \<noteq> i \<and> t < nextTimer ?s" if "map_get (retryTimers ?s) t = Some r" for t r
      using no_timer [OF ok _ that] removeQueued_gone by blast
  qed (simp_all add: WORKFLOW_REACTIVATE_INITIAL_TIMEOUT_def WORKFLOW_REACTIVATE_MAX_TIMEOUT_def)
  then show ?thesis by (simp add: queue_ok_def addQueuedWorkflowActivation_def Let_def map_get_put_fun fun_upd_def)
qed

lemma retryFailed_ok:
  assumes "queue_ok {i} s"
  shows "queue_ok {} (retryFailed (i, mode, w) s)"
proof (cases "map_get (queuedActivations s) i")
  case None
  then show ?thesis using assms maps_ok_absent [of "{i}" "map_get (queuedActivations s)" "map_get (retryTimers s)" "nextTimer s" i]
    by (simp add: queue_ok_def retryFailed_def)
next
  case (Some q)
  let ?last = "if lastTimeout q < WORKFLOW_REACTIVATE_MAX_TIMEOUT
    then min (lastTimeout q * 2) WORKFLOW_REACTIVATE_MAX_TIMEOUT else lastTimeout q"
  have "entry_ok {i} (map_get (retryTimers s)) (nextTimer s) i q" using assms Some maps_ok_entry unfolding queue_ok_def by blast
  then have last: "WORKFLOW_REACTIVATE_INITIAL_TIMEOUT \<le> ?last" "?last \<le> WORKFLOW_REACTIVATE_MAX_TIMEOUT"
    by (auto simp: entry_ok_def WORKFLOW_REACTIVATE_INITIAL_TIMEOUT_def WORKFLOW_REACTIVATE_MAX_TIMEOUT_def)
  have "queue_maps_ok ({i} - {i}) ((map_get (queuedActivations s))(i \<mapsto> q\<lparr>lastTimeout := ?last, qaTimeout := nextTimer s\<rparr>))
      ((map_get (retryTimers s))(nextTimer s \<mapsto> (i, mode, w))) (Suc (nextTimer s))"
  proof (rule maps_ok_put [OF assms [unfolded queue_ok_def]])
    show "fst r \<noteq> i \<and> t < nextTimer s" if "map_get (retryTimers s) t = Some r" for t r
      using no_timer [OF assms _ that] by blast
  qed (use last in simp_all)
  then show ?thesis using Some by (simp add: queue_ok_def retryFailed_def Let_def map_get_put_fun fun_upd_def)
qed

text \<open>The steps of a manager without other main processes; a retry ends before anything else happens.\<close>

inductive manager_step :: "ManagerEnv \<Rightarrow> Manager \<Rightarrow> Manager \<Rightarrow> bool" for env where
  activate: "manager_step env s (snd (addWorkflow env i mode existing publish s))"
| deactivate: "manager_step env s (snd (removeWorkflow env i s))"
| trigger_fails: "manager_step env s (emitError env i n mode w message s)"
| start: "manager_step env s (addActiveWorkflows env mode s)"
| retry: "map_get (retryTimers s) t = Some r \<Longrightarrow> manager_step env s (finishRetry env 0 (fireRetry t s))"
| leave_queue: "manager_step env s (removeAllQueuedWorkflowActivations s)"

definition queue_inv :: "string set \<Rightarrow> Manager \<Rightarrow> bool" where
  "queue_inv F s = (\<not> multiMain s \<and> inFlight s = [] \<and> queue_ok F s)"

lemma queue_inv_same:
  assumes "same_queue s s'"
  shows "queue_inv F s' = queue_inv F s"
proof -
  have "multiMain s' = multiMain s" "inFlight s' = inFlight s" using assms by (simp_all only: same_queue_def)
  then show ?thesis by (simp only: queue_inv_def same_queue_ok [OF assms])
qed

lemma removeQueued_same [simp]:
  "multiMain (removeQueuedWorkflowActivation i s) = multiMain s" "inFlight (removeQueuedWorkflowActivation i s) = inFlight s"
  by (simp_all add: removeQueuedWorkflowActivation_def split: option.split)

lemma addQueued_same [simp]:
  "multiMain (addQueuedWorkflowActivation mode i w s) = multiMain s" "inFlight (addQueuedWorkflowActivation mode i w s) = inFlight s"
  by (simp_all add: addQueuedWorkflowActivation_def Let_def)

lemma removeQueued_inv: "queue_inv F s \<Longrightarrow> queue_inv (F - {i}) (removeQueuedWorkflowActivation i s)"
  using removeQueued_ok [of F s i] by (simp add: queue_inv_def)

lemma addQueued_inv: "queue_inv F s \<Longrightarrow> queue_inv (F - {i}) (addQueuedWorkflowActivation mode i w s)"
  using addQueued_ok [of F s i mode w] by (simp add: queue_inv_def)

lemma addWorkflow_inv:
  assumes "queue_inv F s" and "addWorkflow env i mode existing publish s = (r, s')"
  shows "(\<exists>e. r = Inl e) \<Longrightarrow> queue_inv F s'" and "(\<exists>x. r = Inr x) \<Longrightarrow> queue_inv (F - {i}) s'"
proof -
  show "queue_inv F s'" if "\<exists>e. r = Inl e"
    using addWorkflow_queue(2) [OF assms(2) that] assms(1) queue_inv_same by blast
  obtain r1 s1 where att: "tryActivate env i mode existing s = (r1, s1)" by (cases "tryActivate env i mode existing s")
  show "queue_inv (F - {i}) s'" if "\<exists>x. r = Inr x"
  proof -
    have "\<exists>x. r1 = Inr x" "s' = s1" using assms that att by (auto simp: addWorkflow_def queue_inv_def split: sum.splits)
    then obtain s2 where "same_queue s s2" "same_queue (removeQueuedWorkflowActivation i s2) s'"
      using tryActivate_queue [OF att] by auto
    then show ?thesis using assms(1) removeQueued_inv [of F s2 i] queue_inv_same by blast
  qed
qed

lemma addWorkflow_keeps: "queue_inv {} s \<Longrightarrow> queue_inv {} (snd (addWorkflow env i mode existing publish s))"
  using addWorkflow_inv [of "{}" s env i mode existing publish] by (cases "addWorkflow env i mode existing publish s") (metis Diff_empty Diff_eq_empty_iff empty_subsetI old.sum.exhaust snd_conv)

lemma removeWorkflow_keeps:
  assumes "queue_inv {} s"
  shows "queue_inv {} (snd (removeWorkflow env i s))"
proof -
  let ?s1 = "snd (clearWebhooks env i s)"
  let ?s2 = "removeQueuedWorkflowActivation i (?s1\<lparr>activationErrors := map_del i (activationErrors ?s1)\<rparr>)"
  have one: "queue_inv {} ?s1" using assms queue_inv_same [OF clearWebhooks_queue] by simp
  then have "queue_inv {} (?s1\<lparr>activationErrors := map_del i (activationErrors ?s1)\<rparr>)" by (simp add: queue_inv_def queue_ok_def)
  from removeQueued_inv [OF this] have "queue_inv {} ?s2" by (metis Diff_empty Diff_eq_empty_iff empty_subsetI)
  moreover have "same_queue ?s2 (snd (removeWorkflowTriggersAndPollers env i ?s2))"
    by (auto simp: removeWorkflowTriggersAndPollers_def liftActive_def split: sum.splits)
  ultimately show ?thesis using one queue_inv_same by (auto simp: removeWorkflow_def Let_def queue_inv_def)
qed


lemma queue_inv_updates [simp]:
  "queue_inv F (s\<lparr>active := a\<rparr>) = queue_inv F s" "queue_inv F (s\<lparr>activationErrors := e\<rparr>) = queue_inv F s"
  "queue_inv F (s\<lparr>errorWorkflowRuns := x\<rparr>) = queue_inv F s"
  by (simp_all add: queue_inv_def queue_ok_def)

lemma fold_inv: "(\<And>x s. P s \<Longrightarrow> P (f x s)) \<Longrightarrow> P s \<Longrightarrow> P (fold f xs s)"
  by (induction xs arbitrary: s) auto

lemma removeQueued_keeps: "queue_inv {} s \<Longrightarrow> queue_inv {} (removeQueuedWorkflowActivation i s)"
  using removeQueued_inv [of "{}" s i] by simp

lemma addQueued_keeps: "queue_inv {} s \<Longrightarrow> queue_inv {} (addQueuedWorkflowActivation mode i w s)"
  using addQueued_inv [of "{}" s i] by simp

lemma emitError_keeps: "queue_inv {} s \<Longrightarrow> queue_inv {} (emitError env i n mode w message s)"
  by (simp add: emitError_def Let_def addQueued_keeps)

lemma activateOnStart_keeps:
  assumes "queue_inv {} s"
  shows "queue_inv {} (activateOnStart env mode i s)"
proof (cases "database env i")
  case (Some db)
  obtain r s1 where added: "addWorkflow env i mode (Some db) False s = (r, s1)" by (cases "addWorkflow env i mode (Some db) False s")
  then have "queue_inv {} s1" using addWorkflow_keeps [OF assms, of env i mode "Some db" False] by simp
  then show ?thesis using added Some by (auto simp: activateOnStart_def Let_def addQueued_keeps split: sum.split)
qed (use assms in \<open>simp add: activateOnStart_def\<close>)

lemma addActiveWorkflows_keeps: "queue_inv {} s \<Longrightarrow> queue_inv {} (addActiveWorkflows env mode s)"
  unfolding addActiveWorkflows_def by (rule fold_inv [where P = "queue_inv {}", OF activateOnStart_keeps])

lemma removeAllQueued_keeps: "queue_inv {} s \<Longrightarrow> queue_inv {} (removeAllQueuedWorkflowActivations s)"
  unfolding removeAllQueuedWorkflowActivations_def by (rule fold_inv [where P = "queue_inv {}", OF removeQueued_keeps])

lemma retry_keeps:
  assumes "queue_inv {} s" and "map_get (retryTimers s) t = Some r"
  shows "queue_inv {} (finishRetry env 0 (fireRetry t s))"
proof -
  obtain i mode w where r: "r = (i, mode, w)" by (metis prod_cases3)
  let ?s1 = "s\<lparr>retryTimers := map_del t (retryTimers s)\<rparr>"
  have fired: "queue_inv {i} ?s1"
    using assms maps_ok_fire [of "map_get (queuedActivations s)" "map_get (retryTimers s)" "nextTimer s" t r] r
    by (simp add: queue_inv_def queue_ok_def map_get_del_fun fun_upd_def)
  obtain x s2 where tried: "addWorkflow env i mode (Some w) True ?s1 = (x, s2)" by (cases "addWorkflow env i mode (Some w) True ?s1")
  have same: "s\<lparr>retryTimers := map_del t (retryTimers s), inFlight := []\<rparr> = ?s1"
    using assms(1) by (cases s) (simp add: queue_inv_def)
  then have step: "finishRetry env 0 (fireRetry t s) = (case x of Inl e \<Rightarrow> retryFailed r s2 | Inr _ \<Rightarrow> s2)"
    using assms r tried by (simp add: finishRetry_def fireRetry_def queue_inv_def same split: sum.split)
  show ?thesis
  proof (cases x)
    case (Inl e)
    then have "queue_inv {i} s2" using addWorkflow_inv(1) [OF fired tried] by simp
    then have "queue_inv {} (retryFailed r s2)"
      using retryFailed_ok [of i s2 mode w] by (auto simp: r queue_inv_def retryFailed_def Let_def split: option.splits)
    then show ?thesis using step Inl by simp
  qed (use step addWorkflow_inv(2) [OF fired tried] in simp)
qed

lemma manager_step_keeps: "manager_step env s s' \<Longrightarrow> queue_inv {} s \<Longrightarrow> queue_inv {} s'"
  by (induction rule: manager_step.induct)
    (simp_all only: addWorkflow_keeps removeWorkflow_keeps emitError_keeps addActiveWorkflows_keeps retry_keeps removeAllQueued_keeps)

text \<open>A timer that activates the workflow again.\<close>

definition waits :: "Manager \<Rightarrow> string \<Rightarrow> nat \<Rightarrow> bool" where
  "waits s i t = (\<exists>r. map_get (retryTimers s) t = Some r \<and> fst r = i)"



definition db_workflow :: DbWorkflow where
  "db_workflow = \<lparr>dbName = ''w'', dbWorkflow = triggered []\<rparr>"

text \<open>An environment whose nodes have no webhooks; a trigger fails as \<open>fails\<close> says.\<close>

definition manager_env :: "(string \<Rightarrow> nat \<Rightarrow> bool) \<Rightarrow> ManagerEnv" where
  "manager_env fails = \<lparr>triggerResult = (\<lambda>_ n h. if fails (nodeName n) h then Inl ''unreachable'' else Inr (Some True)),
     pollResult = (\<lambda>_ _ _. None), pollTimes = (\<lambda>_. []), randomTimes = (\<lambda>_ _. (7, 7)), closeResult = (\<lambda>_. Closed),
     database = (\<lambda>_. Some db_workflow), activeInDatabase = [],
     webhookEnv = \<lparr>webhookDescriptions = (\<lambda>_. None), webhookIdOf = (\<lambda>_. None)\<rparr>,
     createOutcome = (\<lambda>_. WebhookOk), deleteFails = (\<lambda>_. None)\<rparr>"

definition new_manager :: "bool \<Rightarrow> Manager" where
  "new_manager multi = \<lparr>active = newActiveState, queuedActivations = [], retryTimers = [], inFlight = [], nextTimer = 0,
     activationErrors = [], webhooks = \<lparr>whRows = [], whCache = []\<rparr>, managerLeads = True, multiMain = multi, published = [],
     errorWorkflowRuns = []\<rparr>"

definition failed_once :: "bool \<Rightarrow> Manager" where
  "failed_once multi = emitError (manager_env (\<lambda>_ _. False)) ''1'' ''a'' ActActivate db_workflow ''lost''
     (snd (addWorkflow (manager_env (\<lambda>_ _. False)) ''1'' ActActivate None False (new_manager multi)))"


text \<open>
  With several main processes deactivating leaves the timer of a workflow: its retry asks the leader to activate the
  workflow again, and it is active though it was deactivated last.
\<close>

lemma deactivated_workflow_comes_back:
  "(let env = manager_env (\<lambda>_ _. False);
        s1 = snd (removeWorkflow env ''1'' (failed_once True));
        s2 = snd (onCommand env (RemoveTriggersAndPollers ''1'') s1);
        s3 = finishRetry env 0 (fireRetry 0 s2);
        s4 = snd (onCommand env (AddWebhooksTriggersAndPollers ''1'') s3)
    in published s1 = [RemoveTriggersAndPollers ''1''] \<and> published s3 = published s1 @ [AddWebhooksTriggersAndPollers ''1''] \<and>
       \<not> isActiveInMemory ''1'' (active s2) \<and> isActiveInMemory ''1'' (active s4))"
  by code_simp

end
