(* ===== verification/Spec2Isabelle.thy ===== *)
theory Spec2Isabelle
  imports Partial_Properties Concurrency_Properties Execution_Outcomes Rename_Properties Task_Round_Trip
    Monitoring_Properties Wait_Properties Leader_Properties Task_Data_Properties Loop_Properties
    Recovery_Properties DI_Properties Static_Data_Properties Parameter_Order
    Augment_Properties Workflow_Outputs Execution_Ends Webhook_Properties Activation_Properties
begin

text \<open>
  n8n: workflows, their execution, and the processes that run tasks. The library models the
  TypeScript code of the repository under packages/ (named without the leading src/) and proves what it
  guarantees, and, as theorems too, where it departs from what it means to do.

  \<^bold>\<open>The program and its parts.\<close> A workflow is a set of nodes with connections between their inputs and
  outputs (class Workflow). The server runs it: ActiveExecutions registers the execution and the concurrency
  control lets it proceed or queues it; WorkflowExecute then runs its nodes one after another from a stack, with
  the data of their inputs, and records each run. When only a part is to be run, partial-execution-utils first turns the
  workflow into a DirectedGraph, cuts out the part, finds the nodes to start at and recreates the stack from
  recorded runs. A Code node does not run in the server: its task goes through the task requester, the task broker and
  a task runner, which offers its free slots and may live in a process of its own. Executions that wait are
  started again by the wait tracker, which is active on the leader of several main processes; an execution cut off
  by a crash is amended from the event log. Executions are started by webhooks, triggers and pollers, which
  ActiveWorkflowManager registers when a workflow is activated.

  \<^bold>\<open>Theories and sources.\<close> Each group of definitions follows its source file, one definition per function or
  method, under the name of the source where Isabelle allows it.

  \<^item> N8n_Prelude: results of code that may throw, JavaScript's \<open>Map\<close>, \<open>Set\<close>, arrays and sorting as lists. Graph_Search:
    the locale \<open>edge_walk\<close> of recursive searches with the set of what they have seen.
  \<^item> Workflow_Types (packages/workflow/src/Interfaces.ts), Workflow_Class, Workflow_Queries, Workflow_Search,
    Workflow_Rename, Workflow_Outputs, Static_Data (packages/workflow/src: Workflow.ts, NodeHelpers.ts,
    ObservableObject.ts, and packages/cli/src/workflows/workflow-static-data.service.ts): the state is a record Workflow
    with the nodes and connections as lists with the keys of the object, in their order.
  \<^item> Node_Parameters (NodeHelpers.ts): the dependencies of parameters and the order of their resolution.
  \<^item> Augment_Object (AugmentObject.ts): proxies of the data of an execution, on a heap.
  \<^item> Directed_Graph, Strong_Components, Partial_Execution, Start_Nodes, Run_Preparation, Execution_Stack
    (packages/core/src/execution-engine/partial-execution-utils and \<open>runPartialWorkflow2\<close> of workflow-execute.ts).
  \<^item> Waiting_Nodes, Node_Run, Execution_Loop (packages/core/src/execution-engine/workflow-execute.ts): \<open>this.runExecutionData\<close> is a
    record that is passed and returned; the local variables of \<open>processRunExecutionData\<close> are those of the
    records LoopState and TryState. An iteration ends with \<open>Continue\<close>, \<open>Break\<close> or a thrown error, as in the code.
  \<^item> Loop_Node (packages/nodes-base/nodes/SplitInBatches/v3): the context of the node between its runs.
  \<^item> Concurrency, Active_Executions (packages/cli/src/concurrency, active-executions.ts).
  \<^item> Task_Requester, Task_Broker (packages/cli/src/task-runners), Task_Runner (packages/@n8n/task-runner/src), Task_Protocol and
    Task_Round_Trip (the parties exchanging their messages), Task_Data, Code_Node (what a code task needs, gets and
    runs), Runner_Monitoring (restarts of the process and the analysis of its end).
  \<^item> Leader_Election (packages/cli/src/scaling), Wait_Tracker (packages/cli/src/wait-tracker.ts), Execution_Recovery
    (packages/cli/src/executions/execution-recovery.service.ts), DI_Container (packages/@n8n/di/src/di.ts).
  \<^item> Webhooks (packages/cli/src/webhooks, databases/entities/webhook-entity.ts): the table of webhooks and its cache. Activation
    (packages/core/src/execution-engine: active-workflows.ts, scheduled-task-manager.ts, and packages/workflow/src/Cron.ts): triggers
    that run and cron jobs. Activation_Manager (packages/cli/src/active-workflow-manager.ts): what activates both, and tries again.

  Theories ending in Facts hold invariants and lemmas, those ending in Properties, with Task_Round_Trip, Task_Protocol, Partial_Run,
  Execution_Outcomes, Parameter_Order and Node_Removal, the theorems, each with an instance in
  which its hypotheses hold.

  \<^bold>\<open>Concurrency.\<close> JavaScript runs one piece of code at a time, up to the next \<open>await\<close>. An asynchronous method is
  split there: each piece is an operation, what is pending between two pieces is part of the state (the pending
  calls of the cluster, the promises of the broker, the phases of a call of \<open>startTask\<close>), and an inductive step relation
  allows every order in which the pieces can go on. Invariants are proved by induction over its reachable states.

  \<^bold>\<open>What the groups of lemmas show.\<close>

  \<^item> Searches return and find exactly what is reachable (Workflow_Queries, Directed_Graph_Facts); components are strong
    and disjoint; the graph of a workflow and the two views of its connections agree (Graph_Properties).
  \<^item> A partial execution: \<open>findSubgraph\<close>, \<open>findStartNodes\<close>, \<open>handleCycles\<close>, \<open>cleanRunData\<close> and the recreated stack are each compared
    with a specification by paths, and put together in \<open>runPartialWorkflow2_prepares\<close>.
  \<^item> Execution: the loop only adds runs, nodes with several inputs wait until their data is complete and get it, errors stop the
    execution or go to the error output, nodes are run in the order of the canvas, and without cycles an execution in the
    order v1 ends (Execution_Ends).
  \<^item> Executions at the same time: the concurrency limit, the order of the queue, shutdown.
  \<^item> Tasks: a request goes to one runner, a task has one answer, a runner keeps within its slots, broker and runner
    agree after each handshake (a refinement), and a started task leads to its result. Code that runs chunk by chunk gives
    what it gives on all items, with the data that it names.
  \<^item> Several mains: one leader while its key lives, and the schedules that leave none or two; timers of waiting
    executions; recovery; single instances of classes.
  \<^item> Activation: deactivating undoes activating, a failed activation is tried again by one timer, a request finds the
    webhook that is stored for it (static paths) or the best match (dynamic paths); and what is left behind when an
    activation fails or a webhook is deleted.
  \<^item> Data: proxies leave the original as it is; changes of static data are noticed; renaming changes references and
    nothing else and can be undone.

  \<^bold>\<open>Interfaces.\<close> The locale \<open>edge_walk\<close> is interpreted by the traversals of DirectedGraph, \<open>admission\<close> by the
  concurrency queue, \<open>runner_contract\<close> by the task runner, \<open>request_channel\<close> by the three kinds of requests that a task sends.

  \<^bold>\<open>Stack depth and fuel.\<close> A recursive function of the code has the depth of the call stack that is left as its first argument
  and gives \<open>Inl RangeError\<close> at 0, as JavaScript does on overflow. The searches mark what they have seen, so a depth above
  the number of connections is enough, and the theorems state this as their hypothesis. \<open>while\<close> loops that end are
  functions with a measure (the release of waiting nodes, the groups of connections, the components). \<open>executionLoop\<close> can run forever on a workflow
  with a cycle: its fuel is the number of iterations, \<open>None\<close> says that it was not enough, and a result
  does not change with more fuel. The loop of the parameters is a \<open>partial_function\<close>, for which termination is proved.
  Numbers of the code are counters and indices far below \<open>2 ^ 53\<close>, for which \<open>nat\<close> and \<open>int\<close> are exact.

  \<^bold>\<open>Parameters.\<close> What a node answers, the results of expressions, the database, Redis, lodash, the parser of JavaScript and
  regular expressions on arbitrary patterns are arguments. Redis is the one that has a model, of the documented meaning of SETNX, GET,
  EXPIRE and DEL.

  \<^bold>\<open>Not modelled.\<close> The editor (packages/editor-ui, packages/design-system), which is its user interface. The
  integration nodes (packages/nodes-base, save for two nodes of the workflow language itself) and packages/@n8n/nodes-langchain, which
  translate parameters into calls of third-party services. Controllers, repositories and services of packages/cli around
  express, TypeORM and Bull. Binary data, credentials, HTTP helpers and the loading of nodes in packages/core, which are
  input and output. The evaluation of expressions, which belongs to the library tournament. Inside the modelled
  parts: hooks are recorded and do not throw, an activation is one step, execution hints and telemetry are left out, and the websocket of the task
  runner is a list of messages. These make up most of the lines of the repository.
\<close>

end
